(* ===== verification/Prelude.thy ===== *)
theory Prelude
  imports Main "HOL-Library.Multiset" "HOL-Library.List_Lexorder" "HOL-Library.Char_ord"
    "HOL-Library.Product_Lexorder"
begin

text \<open>
  Shared vocabulary of the development: the \<open>Ordering\<close> of the Rust standard library with
  its combinators (\<open>reverse\<close>, \<open>then_with\<close>, \<open>cmp\<close>), the contract of a comparator as a
  locale with the sort that relies on it, and \<open>Result\<close> as a sum with its sequencing
  operators.  Strings are lists of bytes (\<open>char\<close>), compared byte by byte as
  \<open>str::cmp\<close> does; the linear orders on strings and pairs are the library's.
\<close>

named_theorems cmp_simps \<open>evaluation rules for comparators\<close>
named_theorems res_simps \<open>evaluation rules for fallible computations\<close>

subsection \<open>Orderings\<close>

datatype ordering = Less | Equal | Greater

fun ord_rev :: "ordering \<Rightarrow> ordering" where
  "ord_rev Less = Greater"
| "ord_rev Equal = Equal"
| "ord_rev Greater = Less"

fun ord_then :: "ordering \<Rightarrow> ordering \<Rightarrow> ordering" where
  "ord_then Equal r = r"
| "ord_then Less r = Less"
| "ord_then Greater r = Greater"

lemma ord_rev_rev [simp]: "ord_rev (ord_rev c) = c"
  by (cases c) auto

lemma ord_rev_eq_iff [simp]:
  "ord_rev c = Equal \<longleftrightarrow> c = Equal"
  "ord_rev c = Less \<longleftrightarrow> c = Greater"
  "ord_rev c = Greater \<longleftrightarrow> c = Less"
  by (cases c; simp)+

lemma ord_then_eq_iff [simp]:
  "ord_then c r = Equal \<longleftrightarrow> c = Equal \<and> r = Equal"
  "ord_then c r = Less \<longleftrightarrow> c = Less \<or> c = Equal \<and> r = Less"
  "ord_then c r = Greater \<longleftrightarrow> c = Greater \<or> c = Equal \<and> r = Greater"
  by (cases c; simp)+

lemma ord_rev_then [simp]: "ord_rev (ord_then c r) = ord_then (ord_rev c) (ord_rev r)"
  by (cases c) auto

text \<open>The comparison that \<open>Ord::cmp\<close> gives for a linear order.\<close>

definition cmp_lin :: "'a::linorder \<Rightarrow> 'a \<Rightarrow> ordering" where
  "cmp_lin a b = (if a < b then Less else if a = b then Equal else Greater)"

lemma cmp_lin_iff [simp]:
  "cmp_lin a b = Equal \<longleftrightarrow> a = b"
  "cmp_lin a b = Less \<longleftrightarrow> a < b"
  "cmp_lin a b = Greater \<longleftrightarrow> b < a"
  by (auto simp: cmp_lin_def)

lemma ord_then_Equal [simp]: "ord_then c Equal = c"
  by (cases c) auto

lemma cmp_lin_refl [simp]: "cmp_lin a a = Equal"
  by simp

lemma cmp_lin_pair: "cmp_lin (a, b) (c, d) = ord_then (cmp_lin a c) (cmp_lin b d)"
  by (auto simp: cmp_lin_def)

lemma cmp_lin_flip: "cmp_lin b a = ord_rev (cmp_lin a b)"
  by (auto simp: cmp_lin_def)

text \<open>
  \<open>a.iter().zip(b).map(cmp).find(|o| o != Equal).unwrap_or_else(|| a.len().cmp(b.len()))\<close>:
  the first unequal pair of two sequences decides, then their lengths.
\<close>

definition first_unequal :: "ordering list \<Rightarrow> ordering option" where
  "first_unequal os = List.find (\<lambda>c. c \<noteq> Equal) os"

definition zip_cmp :: "('a \<Rightarrow> 'a \<Rightarrow> ordering) \<Rightarrow> 'a list \<Rightarrow> 'a list \<Rightarrow> ordering" where
  "zip_cmp cmp xs ys =
     (case first_unequal (map (\<lambda>(x, y). cmp x y) (zip xs ys)) of
        Some c \<Rightarrow> c
      | None \<Rightarrow> cmp_lin (length xs) (length ys))"

lemma first_unequal_simps [simp]:
  "first_unequal [] = None"
  "first_unequal (c # cs) = (if c = Equal then first_unequal cs else Some c)"
  by (auto simp: first_unequal_def)

lemma zip_cmp_simps [simp]:
  "zip_cmp cmp [] [] = Equal"
  "zip_cmp cmp [] (y # ys) = Less"
  "zip_cmp cmp (x # xs) [] = Greater"
  "zip_cmp cmp (x # xs) (y # ys) = ord_then (cmp x y) (zip_cmp cmp xs ys)"
  by (auto simp: zip_cmp_def cmp_lin_def split: option.splits) (cases "cmp x y"; simp)+

lemma zip_cmp_Equal_iff: "zip_cmp cmp xs ys = Equal \<longleftrightarrow> list_all2 (\<lambda>x y. cmp x y = Equal) xs ys"
proof (induction xs arbitrary: ys)
  case Nil
  then show ?case by (cases ys) auto
next
  case (Cons x xs)
  then show ?case by (cases ys) auto
qed

lemma zip_cmp_cong [fundef_cong]:
  assumes "xs = xs'" "ys = ys'"
    and "\<And>x y. x \<in> set xs' \<Longrightarrow> y \<in> set ys' \<Longrightarrow> f x y = g x y"
  shows "zip_cmp f xs ys = zip_cmp g xs' ys'"
proof -
  have "map (\<lambda>(x, y). f x y) (zip xs' ys') = map (\<lambda>(x, y). g x y) (zip xs' ys')"
    using assms(3) by (auto dest: set_zip_leftD set_zip_rightD)
  then show ?thesis by (simp only: zip_cmp_def assms(1,2))
qed

lemma zip_cmp_induct_laws:
  assumes "\<And>x. x \<in> set xs \<Longrightarrow> \<forall>y. cmp y x = ord_rev (cmp x y)"
  shows "zip_cmp cmp ys xs = ord_rev (zip_cmp cmp xs ys)"
  using assms
proof (induction xs arbitrary: ys)
  case Nil
  then show ?case by (cases ys) auto
next
  case (Cons x xs)
  then show ?case by (cases ys) auto
qed

lemma zip_cmp_trans:
  assumes "\<And>x. x \<in> set xs \<Longrightarrow> \<forall>y z. cmp x y \<noteq> Greater \<longrightarrow> cmp y z \<noteq> Greater \<longrightarrow>
             cmp x z \<noteq> Greater \<and> (cmp x z = Equal \<longrightarrow> cmp x y = Equal \<and> cmp y z = Equal)"
    and "zip_cmp cmp xs ys \<noteq> Greater" "zip_cmp cmp ys zs \<noteq> Greater"
  shows "zip_cmp cmp xs zs \<noteq> Greater \<and>
         (zip_cmp cmp xs zs = Equal \<longrightarrow> zip_cmp cmp xs ys = Equal \<and> zip_cmp cmp ys zs = Equal)"
  using assms
proof (induction xs arbitrary: ys zs)
  case Nil
  then show ?case by (cases ys; cases zs) auto
next
  case (Cons x xs)
  obtain y ys' z zs' where eq: "ys = y # ys'" "zs = z # zs'"
    using Cons.prems(2,3) by (cases ys; cases zs) auto
  have le: "cmp x y \<noteq> Greater" "cmp y z \<noteq> Greater"
    using Cons.prems(2,3) by (auto simp: eq)
  have xz: "cmp x z \<noteq> Greater" "cmp x z = Equal \<Longrightarrow> cmp x y = Equal \<and> cmp y z = Equal"
    using Cons.prems(1)[of x] le by auto
  have tl: "cmp x y = Equal \<Longrightarrow> zip_cmp cmp xs ys' \<noteq> Greater"
           "cmp y z = Equal \<Longrightarrow> zip_cmp cmp ys' zs' \<noteq> Greater"
    using Cons.prems(2,3) by (auto simp: eq)
  show ?case
    using xz tl Cons.IH[of ys' zs'] Cons.prems(1) by (auto simp: eq)
qed


subsection \<open>The contract of a comparator\<close>

text \<open>
  What \<open>slice::sort_by\<close> demands of its argument: comparing in the other direction gives
  the reversed answer, and not-greater is transitive, with equality only for elements that
  compare alike.  The contract is relative to a carrier, because some comparators of the code
  are orders only on the documents that survived an earlier filter.
\<close>

locale comparator_on =
  fixes carrier :: "'a set"
    and cmp :: "'a \<Rightarrow> 'a \<Rightarrow> ordering"
  assumes flip: "x \<in> carrier \<Longrightarrow> y \<in> carrier \<Longrightarrow> cmp y x = ord_rev (cmp x y)"
    and trans_le: "x \<in> carrier \<Longrightarrow> y \<in> carrier \<Longrightarrow> z \<in> carrier \<Longrightarrow>
           cmp x y \<noteq> Greater \<Longrightarrow> cmp y z \<noteq> Greater \<Longrightarrow> cmp x z \<noteq> Greater"
begin

lemma refl: "x \<in> carrier \<Longrightarrow> cmp x x = Equal"
  using flip[of x x] by (cases "cmp x x") auto

lemma le_total:
  "x \<in> carrier \<Longrightarrow> y \<in> carrier \<Longrightarrow> cmp x y \<noteq> Greater \<or> cmp y x \<noteq> Greater"
  using flip[of x y] by auto

lemma greater_le: "x \<in> carrier \<Longrightarrow> y \<in> carrier \<Longrightarrow> cmp x y = Greater \<Longrightarrow> cmp y x \<noteq> Greater"
  using flip[of x y] by auto

end

text \<open>
  \<open>sort_by\<close> is a stable sort; on a comparator there is exactly one stable result, which
  insertion from the right computes.
\<close>

fun insert_by :: "('a \<Rightarrow> 'a \<Rightarrow> ordering) \<Rightarrow> 'a \<Rightarrow> 'a list \<Rightarrow> 'a list" where
  "insert_by cmp x [] = [x]"
| "insert_by cmp x (y # ys) =
     (if cmp x y = Greater then y # insert_by cmp x ys else x # y # ys)"

definition sort_by :: "('a \<Rightarrow> 'a \<Rightarrow> ordering) \<Rightarrow> 'a list \<Rightarrow> 'a list" where
  "sort_by cmp xs = foldr (insert_by cmp) xs []"

lemma sort_by_simps [simp]:
  "sort_by cmp [] = []"
  "sort_by cmp (x # xs) = insert_by cmp x (sort_by cmp xs)"
  by (auto simp: sort_by_def)

lemma mset_insert_by [simp]: "mset (insert_by cmp x xs) = add_mset x (mset xs)"
  by (induction xs) auto

lemma mset_sort_by [simp]: "mset (sort_by cmp xs) = mset xs"
  by (induction xs) auto

lemma set_insert_by [simp]: "set (insert_by cmp x xs) = insert x (set xs)"
  by (induction xs) auto

lemma set_sort_by [simp]: "set (sort_by cmp xs) = set xs"
  by (induction xs) auto

lemma length_sort_by [simp]: "length (sort_by cmp xs) = length xs"
  by (metis mset_sort_by size_mset)

lemma distinct_sort_by [simp]: "distinct (sort_by cmp xs) = distinct xs"
  by (metis mset_eq_imp_distinct_iff mset_sort_by)

text \<open>The order a sorted result is in: no element is greater than a later one.\<close>

definition sorted_by :: "('a \<Rightarrow> 'a \<Rightarrow> ordering) \<Rightarrow> 'a list \<Rightarrow> bool" where
  "sorted_by cmp xs = sorted_wrt (\<lambda>x y. cmp x y \<noteq> Greater) xs"

lemma sorted_by_simps [simp]:
  "sorted_by cmp []"
  "sorted_by cmp (x # xs) \<longleftrightarrow> (\<forall>y \<in> set xs. cmp x y \<noteq> Greater) \<and> sorted_by cmp xs"
  by (auto simp: sorted_by_def)

lemma sorted_by_filter: "sorted_by cmp xs \<Longrightarrow> sorted_by cmp (filter P xs)"
  by (induction xs) auto

lemma sorted_by_drop: "sorted_by cmp xs \<Longrightarrow> sorted_by cmp (drop n xs)"
  by (simp add: sorted_by_def sorted_wrt_drop)

lemma sorted_by_take: "sorted_by cmp xs \<Longrightarrow> sorted_by cmp (take n xs)"
  by (simp add: sorted_by_def sorted_wrt_take)

context comparator_on
begin

lemma sorted_insert_by:
  "x \<in> carrier \<Longrightarrow> set ys \<subseteq> carrier \<Longrightarrow> sorted_by cmp ys \<Longrightarrow> sorted_by cmp (insert_by cmp x ys)"
proof (induction ys)
  case (Cons y ys)
  then show ?case
    by (auto dest: greater_le trans_le[of x y])
qed simp

lemma sorted_sort_by: "set xs \<subseteq> carrier \<Longrightarrow> sorted_by cmp (sort_by cmp xs)"
  by (induction xs) (auto intro!: sorted_insert_by)

lemma filter_insert_by:
  assumes "x \<in> carrier" "set ys \<subseteq> carrier" "sorted_by cmp ys" "k \<in> carrier"
  shows "filter (\<lambda>y. cmp k y = Equal) (insert_by cmp x ys) =
         filter (\<lambda>y. cmp k y = Equal) (x # ys)"
  using assms
proof (induction ys)
  case (Cons y ys)
  have False if "cmp x y = Greater" "cmp k x = Equal" "cmp k y = Equal"
  proof -
    have "cmp x k \<noteq> Greater" using flip[of k x] that Cons.prems by auto
    moreover have "cmp k y \<noteq> Greater" using that by simp
    ultimately show False using trans_le[of x k y] that Cons.prems by auto
  qed
  then show ?case using Cons by auto
qed simp

text \<open>Stability: elements that compare equal to a key keep their order.\<close>

lemma stable_sort_by:
  "set xs \<subseteq> carrier \<Longrightarrow> k \<in> carrier \<Longrightarrow>
   filter (\<lambda>y. cmp k y = Equal) (sort_by cmp xs) = filter (\<lambda>y. cmp k y = Equal) xs"
proof (induction xs)
  case (Cons x xs)
  then show ?case
    using filter_insert_by[of x "sort_by cmp xs" k] sorted_sort_by[of xs] by auto
qed simp

end

interpretation lin: comparator_on UNIV "cmp_lin :: 'a::linorder \<Rightarrow> 'a \<Rightarrow> ordering"
  by unfold_locales (auto simp: cmp_lin_def split: if_splits)

subsection \<open>Fallible computations\<close>

text \<open>
  \<open>Result<T, E>\<close> is \<open>'e + 't\<close> with \<open>Inl\<close> for \<open>Err\<close>; \<open>rbind\<close> is the
  question-mark operator and \<open>rcollect\<close> is \<open>collect::<Result<Vec<_>, _>>()\<close>, which stops
  at the first error.
\<close>

definition rbind :: "'e + 'a \<Rightarrow> ('a \<Rightarrow> 'e + 'b) \<Rightarrow> 'e + 'b" where
  "rbind m f = (case m of Inl e \<Rightarrow> Inl e | Inr x \<Rightarrow> f x)"

lemma rbind_simps [simp, res_simps]:
  "rbind (Inl e) f = Inl e"
  "rbind (Inr x) f = f x"
  by (auto simp: rbind_def)

lemma rbind_Inr_iff [res_simps]: "rbind m f = Inr y \<longleftrightarrow> (\<exists>x. m = Inr x \<and> f x = Inr y)"
  by (cases m) auto

lemma rbind_Inl_iff [res_simps]:
  "rbind m f = Inl e \<longleftrightarrow> m = Inl e \<or> (\<exists>x. m = Inr x \<and> f x = Inl e)"
  by (cases m) auto

lemma rbind_cong [fundef_cong]:
  "m = m' \<Longrightarrow> (\<And>x. m' = Inr x \<Longrightarrow> f x = g x) \<Longrightarrow> rbind m f = rbind m' g"
  by (cases m') auto

fun rcollect :: "('a \<Rightarrow> 'e + 'b) \<Rightarrow> 'a list \<Rightarrow> 'e + 'b list" where
  "rcollect f [] = Inr []"
| "rcollect f (x # xs) = rbind (f x) (\<lambda>y. rbind (rcollect f xs) (\<lambda>ys. Inr (y # ys)))"

lemma rcollect_cong [fundef_cong]:
  "xs = ys \<Longrightarrow> (\<And>x. x \<in> set ys \<Longrightarrow> f x = g x) \<Longrightarrow> rcollect f xs = rcollect g ys"
  by (induction ys arbitrary: xs) auto

lemma rcollect_Inr_iff:
  "rcollect f xs = Inr ys \<longleftrightarrow> list_all2 (\<lambda>x y. f x = Inr y) xs ys"
proof (induction xs arbitrary: ys)
  case (Cons x xs)
  then show ?case by (cases ys) (auto simp: rbind_Inr_iff)
qed auto

lemma rcollect_Inl_ex: "rcollect f xs = Inl e \<Longrightarrow> \<exists>x \<in> set xs. f x = Inl e"
  by (induction xs) (auto simp: rbind_Inl_iff)

definition of_option :: "'e \<Rightarrow> 'a option \<Rightarrow> 'e + 'a" where
  "of_option e x = (case x of None \<Rightarrow> Inl e | Some y \<Rightarrow> Inr y)"

lemma of_option_simps [simp, res_simps]:
  "of_option e None = Inl e"
  "of_option e (Some x) = Inr x"
  by (auto simp: of_option_def)

lemma of_option_Inr_iff [res_simps]: "of_option e x = Inr y \<longleftrightarrow> x = Some y"
  by (cases x) auto

definition guard :: "bool \<Rightarrow> 'e \<Rightarrow> 'e + unit" where
  "guard ok e = (if ok then Inr () else Inl e)"

lemma guard_iff [simp, res_simps]:
  "guard ok e = Inr u \<longleftrightarrow> ok"
  "guard ok e = Inl e' \<longleftrightarrow> \<not> ok \<and> e = e'"
  by (auto simp: guard_def)

lemma guard_simps [simp, res_simps]: "guard True e = Inr ()" "guard False e = Inl e"
  by (auto simp: guard_def)

subsection \<open>Status codes\<close>

text \<open>
  The gRPC status of \<open>tonic\<close>: a code and a message.  Only the codes the program builds are
  listed; \<open>code_number\<close> is the numeric code of the gRPC specification, which
  \<open>Status::code() as i32\<close> yields.
\<close>

datatype grpc_code = Cancelled | InvalidArgument | NotFound | AlreadyExists | PermissionDenied
  | ResourceExhausted | FailedPrecondition | Unimplemented | Internal | Unavailable

datatype status = Status (code: grpc_code) (message: string)

type_synonym 'a res = "status + 'a"

fun code_number :: "grpc_code \<Rightarrow> int" where
  "code_number Cancelled = 1"
| "code_number InvalidArgument = 3"
| "code_number NotFound = 5"
| "code_number AlreadyExists = 6"
| "code_number PermissionDenied = 7"
| "code_number ResourceExhausted = 8"
| "code_number FailedPrecondition = 9"
| "code_number Unimplemented = 12"
| "code_number Internal = 13"
| "code_number Unavailable = 14"

abbreviation "invalid_argument m \<equiv> Status InvalidArgument m"
abbreviation "not_found m \<equiv> Status NotFound m"
abbreviation "already_exists m \<equiv> Status AlreadyExists m"
abbreviation "failed_precondition m \<equiv> Status FailedPrecondition m"
abbreviation "unimplemented m \<equiv> Status Unimplemented m"
abbreviation "internal m \<equiv> Status Internal m"
abbreviation "resource_exhausted m \<equiv> Status ResourceExhausted m"

end
