(* ===== verification/Smap.thy ===== *)
theory Smap
  imports Prelude
begin

text \<open>
  Ordered maps.  A \<open>BTreeMap\<close> is its list of entries in increasing key order without
  duplicate keys; the same representation serves the program's \<open>HashMap\<close>s, whose iteration
  order the code never relies on without sorting, and the tables of its database.  The
  contract of the standard library's maps is the locale \<open>ordered_map\<close>.
\<close>

type_synonym ('k, 'v) smap = "('k \<times> 'v) list"

definition sm_get :: "('k, 'v) smap \<Rightarrow> 'k \<Rightarrow> 'v option" where
  "sm_get m k = map_of m k"

fun sm_put :: "'k::linorder \<Rightarrow> 'v \<Rightarrow> ('k, 'v) smap \<Rightarrow> ('k, 'v) smap" where
  "sm_put k v [] = [(k, v)]"
| "sm_put k v ((x, y) # m) =
     (if k < x then (k, v) # (x, y) # m
      else if k = x then (k, v) # m
      else (x, y) # sm_put k v m)"

definition sm_del :: "'k \<Rightarrow> ('k, 'v) smap \<Rightarrow> ('k, 'v) smap" where
  "sm_del k m = filter (\<lambda>e. fst e \<noteq> k) m"

definition sm_retain :: "('k \<Rightarrow> 'v \<Rightarrow> bool) \<Rightarrow> ('k, 'v) smap \<Rightarrow> ('k, 'v) smap" where
  "sm_retain P m = filter (\<lambda>(k, v). P k v) m"

definition sm_update :: "('k \<Rightarrow> 'v \<Rightarrow> 'v) \<Rightarrow> ('k, 'v) smap \<Rightarrow> ('k, 'v) smap" where
  "sm_update f m = map (\<lambda>(k, v). (k, f k v)) m"

definition sm_has :: "('k, 'v) smap \<Rightarrow> 'k \<Rightarrow> bool" where
  "sm_has m k = (sm_get m k \<noteq> None)"

definition sm_keys :: "('k, 'v) smap \<Rightarrow> 'k list" where
  "sm_keys m = map fst m"

definition sm_values :: "('k, 'v) smap \<Rightarrow> 'v list" where
  "sm_values m = map snd m"

definition sm_of_list :: "('k::linorder \<times> 'v) list \<Rightarrow> ('k, 'v) smap" where
  "sm_of_list kvs = fold (\<lambda>(k, v). sm_put k v) kvs []"

definition sm_wf :: "('k::linorder, 'v) smap \<Rightarrow> bool" where
  "sm_wf m = sorted_wrt (<) (map fst m)"

subsection \<open>Lookups\<close>

lemma sm_get_Nil [simp]: "sm_get [] k = None"
  by (simp add: sm_get_def)

lemma sm_get_Cons [simp]: "sm_get ((x, y) # m) k = (if k = x then Some y else sm_get m k)"
  by (simp add: sm_get_def)

lemma sm_wf_Nil [simp]: "sm_wf []"
  by (simp add: sm_wf_def)

lemma sm_wf_Cons [simp]: "sm_wf ((x, y) # m) \<longleftrightarrow> (\<forall>k \<in> fst ` set m. x < k) \<and> sm_wf m"
  by (auto simp: sm_wf_def)

lemma sm_wf_distinct: "sm_wf m \<Longrightarrow> distinct (map fst m)"
  by (simp add: sm_wf_def strict_sorted_iff)

lemma sm_get_in: "sm_get m k = Some v \<Longrightarrow> (k, v) \<in> set m"
  by (auto simp: sm_get_def dest: map_of_SomeD)

lemma in_sm_get: "sm_wf m \<Longrightarrow> (k, v) \<in> set m \<Longrightarrow> sm_get m k = Some v"
  by (simp add: sm_get_def sm_wf_distinct)

lemma in_sm_iff: "sm_wf m \<Longrightarrow> (k, v) \<in> set m \<longleftrightarrow> sm_get m k = Some v"
  using in_sm_get sm_get_in by metis

lemma sm_get_None: "sm_get m k = None \<longleftrightarrow> k \<notin> fst ` set m"
  by (simp add: sm_get_def map_of_eq_None_iff)

lemma sm_get_put [simp]: "sm_get (sm_put k v m) k' = (if k' = k then Some v else sm_get m k')"
  if "sm_wf m"
  using that by (induction m) auto

lemma keys_sm_put [simp]: "fst ` set (sm_put k v m) = insert k (fst ` set m)"
proof (induction m)
  case (Cons e m)
  then show ?case by (cases e) (simp add: insert_commute)
qed simp

lemma sm_wf_put [simp]: "sm_wf m \<Longrightarrow> sm_wf (sm_put k v m)"
proof (induction m)
  case (Cons e m)
  obtain x y where e: "e = (x, y)" by (cases e)
  show ?case
  proof (cases k x rule: linorder_cases)
    case less
    then show ?thesis using Cons e by (auto intro: less_trans)
  next
    case equal
    then show ?thesis using Cons e by simp
  next
    case greater
    then show ?thesis using Cons e by (auto simp: not_less_iff_gr_or_eq)
  qed
qed simp

lemma set_sm_put: "sm_wf m \<Longrightarrow> set (sm_put k v m) = insert (k, v) {e \<in> set m. fst e \<noteq> k}"
  using in_sm_iff[OF sm_wf_put[of m k v]] in_sm_iff[of m] by (auto split: if_splits)

lemma sm_get_del [simp]: "sm_get (sm_del k m) k' = (if k' = k then None else sm_get m k')"
  by (induction m) (auto simp: sm_del_def)

lemma set_sm_del [simp]: "set (sm_del k m) = {e \<in> set m. fst e \<noteq> k}"
  by (simp add: sm_del_def)

lemma sm_wf_filter: "sm_wf m \<Longrightarrow> sm_wf (filter P m)"
  by (induction m) auto

lemma sm_wf_del [simp]: "sm_wf m \<Longrightarrow> sm_wf (sm_del k m)"
  by (simp add: sm_del_def sm_wf_filter)

lemma sm_wf_retain [simp]: "sm_wf m \<Longrightarrow> sm_wf (sm_retain P m)"
  by (simp add: sm_retain_def sm_wf_filter)

lemma sm_get_retain [simp]:
  "sm_wf m \<Longrightarrow> sm_get (sm_retain P m) k =
     (case sm_get m k of None \<Rightarrow> None | Some v \<Rightarrow> if P k v then Some v else None)"
proof (induction m)
  case (Cons e m)
  then show ?case
    by (cases e) (auto simp: sm_retain_def sm_get_None image_iff split: option.splits)
qed (simp add: sm_retain_def)

lemma set_sm_retain [simp]: "set (sm_retain P m) = {(k, v). (k, v) \<in> set m \<and> P k v}"
  by (auto simp: sm_retain_def)

lemma keys_sm_update [simp]: "map fst (sm_update f m) = map fst m"
  by (induction m) (auto simp: sm_update_def)

lemma sm_wf_update [simp]: "sm_wf (sm_update f m) = sm_wf m"
  by (simp add: sm_wf_def)

lemma sm_get_update [simp]: "sm_get (sm_update f m) k = map_option (f k) (sm_get m k)"
  by (induction m) (auto simp: sm_update_def)

lemma sm_has_put [simp]: "sm_wf m \<Longrightarrow> sm_has (sm_put k v m) k' \<longleftrightarrow> k' = k \<or> sm_has m k'"
  by (simp add: sm_has_def)

lemma sm_has_del [simp]: "sm_has (sm_del k m) k' \<longleftrightarrow> k' \<noteq> k \<and> sm_has m k'"
  by (simp add: sm_has_def)

lemma sm_has_in: "sm_has m k \<longleftrightarrow> k \<in> fst ` set m"
  by (auto simp: sm_has_def sm_get_None)

subsection \<open>Canonicity\<close>

text \<open>Two ordered maps with the same lookups are the same list.\<close>

lemma sm_ext:
  assumes "sm_wf m" "sm_wf n" "\<And>k. sm_get m k = sm_get n k"
  shows "m = n"
  using assms
proof (induction m arbitrary: n)
  case Nil
  then show ?case by (cases n) (auto, metis option.distinct(1))
next
  case (Cons e m)
  obtain x v where e: "e = (x, v)" by (cases e)
  obtain y w n' where n: "n = (y, w) # n'"
    using Cons.prems(3)[of x] e by (cases n) auto
  have "x = y"
  proof (rule ccontr)
    assume ne: "x \<noteq> y"
    have "sm_get n' x = Some v" using Cons.prems(3)[of x] e n ne by auto
    then have "y < x" using Cons.prems(2) n by (force dest: sm_get_in)
    moreover have "sm_get m y = Some w" using Cons.prems(3)[of y] e n ne by auto
    then have "x < y" using Cons.prems(1) e by (force dest: sm_get_in)
    ultimately show False by simp
  qed
  moreover have "v = w" using Cons.prems(3)[of x] e n \<open>x = y\<close> by auto
  moreover have "m = n'"
  proof (rule Cons.IH)
    show "sm_wf m" "sm_wf n'" using Cons.prems e n by auto
    fix k show "sm_get m k = sm_get n' k"
    proof (cases "k = x")
      case True
      then have "k \<notin> fst ` set m" "k \<notin> fst ` set n'"
        using Cons.prems(1,2) e n \<open>x = y\<close> by auto
      then show ?thesis by (simp add: sm_get_None[symmetric])
    next
      case False
      then show ?thesis using Cons.prems(3)[of k] e n \<open>x = y\<close> by auto
    qed
  qed
  ultimately show ?case using e n by simp
qed

lemma sm_put_get [simp]: "sm_wf m \<Longrightarrow> sm_get m k = Some v \<Longrightarrow> sm_put k v m = m"
  by (rule sm_ext) auto

lemma sm_put_twice [simp]: "sm_wf m \<Longrightarrow> sm_put k v (sm_put k w m) = sm_put k v m"
  by (rule sm_ext) auto

lemma sm_put_commute:
  "sm_wf m \<Longrightarrow> k \<noteq> l \<Longrightarrow> sm_put k v (sm_put l w m) = sm_put l w (sm_put k v m)"
  by (rule sm_ext) auto

lemma sm_del_put [simp]: "sm_wf m \<Longrightarrow> sm_del k (sm_put k v m) = sm_del k m"
  by (rule sm_ext) auto

lemma sm_del_absent [simp]: "sm_wf m \<Longrightarrow> sm_get m k = None \<Longrightarrow> sm_del k m = m"
  by (rule sm_ext) auto

lemma length_sm_put:
  "sm_wf m \<Longrightarrow> length (sm_put k v m) = (if sm_has m k then length m else Suc (length m))"
proof (induction m)
  case (Cons e m)
  then show ?case
    by (cases e) (auto simp: sm_has_def sm_get_None dest: less_asym split: if_splits)
qed (simp add: sm_has_def)

lemma length_sm_del_le: "length (sm_del k m) \<le> length m"
  by (simp add: sm_del_def)

lemma sm_wf_of_list [simp]: "sm_wf (sm_of_list kvs)"
proof -
  have "sm_wf m \<Longrightarrow> sm_wf (fold (\<lambda>(k, v). sm_put k v) kvs m)" for m
    by (induction kvs arbitrary: m) auto
  then show ?thesis by (simp add: sm_of_list_def)
qed

lemma sm_has_of_list: "sm_has (sm_of_list kvs) k \<longleftrightarrow> k \<in> fst ` set kvs"
proof -
  have "sm_wf m \<Longrightarrow> sm_has (fold (\<lambda>(k, v). sm_put k v) kvs m) k \<longleftrightarrow> k \<in> fst ` set kvs \<or> sm_has m k"
    for m
  proof (induction kvs arbitrary: m)
    case (Cons e kvs)
    then show ?case by (cases e) auto
  qed simp
  then show ?thesis by (simp add: sm_of_list_def sm_has_def)
qed

text \<open>
  The way the standard library compares hash maps (as many entries, and every entry of one
  found in the other) is a pointwise comparison of the ordered maps.
\<close>

lemma sm_all2_iff:
  assumes "sm_wf m" "sm_wf n"
  shows "length m = length n \<and> (\<forall>(k, x) \<in> set m. \<exists>y. sm_get n k = Some y \<and> R x y) \<longleftrightarrow>
         list_all2 (\<lambda>(k, x) (l, y). k = l \<and> R x y) m n" (is "?lookup \<longleftrightarrow> ?pairs")
proof
  assume L: ?lookup
  have sub: "set (map fst m) \<subseteq> set (map fst n)"
    using L by (fastforce dest: sm_get_in intro: rev_image_eqI)
  have "card (set (map fst n)) = card (set (map fst m))"
    using L assms[THEN sm_wf_distinct] by (simp add: distinct_card del: set_map)
  then have "set (map fst m) = set (map fst n)"
    using sub by (intro card_subset_eq) auto
  then have keys: "map fst m = map fst n"
    using assms by (intro sorted_distinct_set_unique)
      (auto simp: sm_wf_def strict_sorted_iff simp del: set_map)
  show ?pairs
  proof (rule list_all2_all_nthI)
    show len: "length m = length n" using L by simp
    fix i assume i: "i < length m"
    then have i': "i < length n" using len by simp
    have k: "fst (m ! i) = fst (n ! i)"
      using nth_map[OF i, of fst] nth_map[OF i', of fst] keys by simp
    have "(fst (n ! i), snd (n ! i)) \<in> set n" using i' by simp
    then have g: "sm_get n (fst (m ! i)) = Some (snd (n ! i))"
      unfolding k by (rule in_sm_get[OF assms(2)])
    have "m ! i \<in> set m" using i by simp
    then have "\<exists>y. sm_get n (fst (m ! i)) = Some y \<and> R (snd (m ! i)) y"
      using L by (auto simp: split_beta)
    then have "R (snd (m ! i)) (snd (n ! i))" using g by simp
    then show "(\<lambda>(k, x) (l, y). k = l \<and> R x y) (m ! i) (n ! i)"
      using k by (simp add: split_beta)
  qed
next
  assume P: ?pairs
  have "\<exists>y. sm_get n k = Some y \<and> R x y" if mem: "(k, x) \<in> set m" for k x
  proof -
    obtain i where i: "i < length m" "m ! i = (k, x)" using mem by (auto simp: in_set_conv_nth)
    obtain y where y: "n ! i = (k, y)" "R x y" using list_all2_nthD[OF P i(1)] i(2)
      by (cases "n ! i") auto
    have "i < length n" using i(1) list_all2_lengthD[OF P] by simp
    then have "n ! i \<in> set n" by (rule nth_mem)
    then have "(k, y) \<in> set n" by (simp only: y(1))
    then show ?thesis using in_sm_get[OF assms(2)] y(2) by blast
  qed
  then show ?lookup using list_all2_lengthD[OF P] by auto
qed

subsection \<open>The contract of a map\<close>

locale ordered_map =
  fixes empty :: 'm
    and get :: "'m \<Rightarrow> 'k \<Rightarrow> 'v option"
    and put :: "'k \<Rightarrow> 'v \<Rightarrow> 'm \<Rightarrow> 'm"
    and del :: "'k \<Rightarrow> 'm \<Rightarrow> 'm"
    and wf :: "'m \<Rightarrow> bool"
  assumes wf_empty: "wf empty"
    and wf_put: "wf m \<Longrightarrow> wf (put k v m)"
    and wf_del: "wf m \<Longrightarrow> wf (del k m)"
    and get_empty: "get empty k = None"
    and get_put: "wf m \<Longrightarrow> get (put k v m) k' = (if k' = k then Some v else get m k')"
    and get_del: "wf m \<Longrightarrow> get (del k m) k' = (if k' = k then None else get m k')"
    and canonical: "wf m \<Longrightarrow> wf n \<Longrightarrow> (\<And>k. get m k = get n k) \<Longrightarrow> m = n"
begin

text \<open>Writing back a sequence of updates: only the last one of a key counts.\<close>

definition write_entry :: "('k \<times> 'v option) \<Rightarrow> 'm \<Rightarrow> 'm" where
  "write_entry e m = (case snd e of None \<Rightarrow> del (fst e) m | Some v \<Rightarrow> put (fst e) v m)"

lemma wf_write: "wf m \<Longrightarrow> wf (write_entry e m)"
  by (auto simp: write_entry_def wf_put wf_del split: option.splits)

lemma get_write: "wf m \<Longrightarrow> get (write_entry e m) k = (if k = fst e then snd e else get m k)"
  by (auto simp: write_entry_def get_put get_del split: option.splits)

lemma wf_writes: "wf m \<Longrightarrow> wf (fold write_entry es m)"
  by (induction es arbitrary: m) (auto simp: wf_write)

lemma get_writes_other:
  "wf m \<Longrightarrow> k \<notin> fst ` set es \<Longrightarrow> get (fold write_entry es m) k = get m k"
  by (induction es arbitrary: m) (auto simp: wf_write get_write)

lemma write_overwrite: "wf m \<Longrightarrow> fst e = fst e' \<Longrightarrow> write_entry e (write_entry e' m) = write_entry e m"
  by (rule canonical) (auto simp: wf_write get_write)

lemma write_commute:
  "wf m \<Longrightarrow> fst e \<noteq> fst e' \<Longrightarrow> write_entry e (write_entry e' m) = write_entry e' (write_entry e m)"
  by (rule canonical) (auto simp: wf_write get_write)

end

interpretation smap: ordered_map "[]" sm_get sm_put sm_del sm_wf
  by unfold_locales (auto intro: sm_ext)

end
