(* ===== verification/Float64.thy ===== *)
theory Float64
  imports Prelude "HOL-Library.Word"
begin

text \<open>
  The machine numbers of Firestore values: \<open>i64\<close> as \<open>64 word\<close> read with \<open>sint\<close>, and \<open>f64\<close>
  as its IEEE 754 bit pattern, also a \<open>64 word\<close>.  Every finite double is an integral
  multiple of \<open>2^-1074\<close>; \<open>f64_units\<close> is that multiple, so comparison, truncation and
  addition are exact integer arithmetic followed by one rounding to nearest, ties to even.
  The payload of a NaN that an addition creates is not fixed by Rust; the model returns the
  canonical quiet NaN.
\<close>

type_synonym i64 = "64 word"
type_synonym f64 = "64 word"

subsection \<open>Signed 64-bit integers\<close>

definition i64_max :: int where "i64_max = 2 ^ 63 - 1"
definition i64_min :: int where "i64_min = - (2 ^ 63)"

definition i64_of :: "int \<Rightarrow> i64" where
  "i64_of i = word_of_int i"

definition i64_saturating_add :: "i64 \<Rightarrow> i64 \<Rightarrow> i64" where
  "i64_saturating_add a b = i64_of (max i64_min (min i64_max (sint a + sint b)))"

lemma sint_i64_of [simp]: "i64_min \<le> i \<Longrightarrow> i \<le> i64_max \<Longrightarrow> sint (i64_of i) = i"
  by (simp add: i64_of_def i64_min_def i64_max_def signed_of_int signed_take_bit_int_eq_self)

lemma sint_i64_range [simp]: "i64_min \<le> sint (a :: i64)" "sint (a :: i64) \<le> i64_max"
  using sint_range_size[of a] by (simp_all add: i64_min_def i64_max_def size_word_def)

lemma sint_saturating_add:
  "sint (i64_saturating_add a b) = max i64_min (min i64_max (sint a + sint b))"
  by (simp add: i64_saturating_add_def i64_min_def i64_max_def)

lemma sint_i64_inject [simp]: "sint (a :: i64) = sint b \<longleftrightarrow> a = b"
  by (metis signed_word_eqI)

subsection \<open>The parts of a double\<close>

definition f64_negative :: "f64 \<Rightarrow> bool" where
  "f64_negative d = (2 ^ 63 \<le> uint d)"

definition f64_exponent :: "f64 \<Rightarrow> nat" where
  "f64_exponent d = nat ((uint d div 2 ^ 52) mod 2 ^ 11)"

definition f64_mantissa :: "f64 \<Rightarrow> int" where
  "f64_mantissa d = uint d mod 2 ^ 52"

definition is_nan :: "f64 \<Rightarrow> bool" where
  "is_nan d = (f64_exponent d = 2047 \<and> f64_mantissa d \<noteq> 0)"

definition is_infinite :: "f64 \<Rightarrow> bool" where
  "is_infinite d = (f64_exponent d = 2047 \<and> f64_mantissa d = 0)"

text \<open>
  The magnitude in units of \<open>2^-1074\<close>.  An infinity gets the value the encoding continues
  with, \<open>2^2098\<close>, which is above every finite magnitude, so the order is right for it too.
\<close>

definition f64_magnitude :: "f64 \<Rightarrow> int" where
  "f64_magnitude d =
     (if f64_exponent d = 0 then f64_mantissa d
      else (2 ^ 52 + f64_mantissa d) * 2 ^ (f64_exponent d - 1))"

definition f64_units :: "f64 \<Rightarrow> int" where
  "f64_units d = (if f64_negative d then - f64_magnitude d else f64_magnitude d)"

definition unit_one :: int where "unit_one = 2 ^ 1074"

lemma unit_one_pos [simp]: "0 < unit_one"
  by (simp add: unit_one_def)

lemma unit_one_nonneg [simp]: "0 \<le> unit_one" "unit_one \<noteq> 0"
  using unit_one_pos by linarith+

definition f64_eq :: "f64 \<Rightarrow> f64 \<Rightarrow> bool" where
  "f64_eq a b = (\<not> is_nan a \<and> \<not> is_nan b \<and> f64_units a = f64_units b)"

definition f64_lt :: "f64 \<Rightarrow> f64 \<Rightarrow> bool" where
  "f64_lt a b = (\<not> is_nan a \<and> \<not> is_nan b \<and> f64_units a < f64_units b)"

definition f64_le :: "f64 \<Rightarrow> f64 \<Rightarrow> bool" where
  "f64_le a b = (\<not> is_nan a \<and> \<not> is_nan b \<and> f64_units a \<le> f64_units b)"

definition f64_partial_cmp :: "f64 \<Rightarrow> f64 \<Rightarrow> ordering option" where
  "f64_partial_cmp a b =
     (if is_nan a \<or> is_nan b then None else Some (cmp_lin (f64_units a) (f64_units b)))"

lemma f64_magnitude_nonneg [simp]: "0 \<le> f64_magnitude d"
  by (simp add: f64_magnitude_def f64_mantissa_def)

subsection \<open>Rounding\<close>

fun bit_length :: "nat \<Rightarrow> nat" where
  "bit_length n = (if n = 0 then 0 else Suc (bit_length (n div 2)))"

declare bit_length.simps [simp del]

text \<open>The bits of the double nearest to \<open>n\<close> units, ties to even, overflowing to infinity.\<close>

definition round_units :: "nat \<Rightarrow> nat" where
  "round_units n =
     (let sh = bit_length n - 53;
          q = n div 2 ^ sh;
          r = n mod 2 ^ sh;
          up = (sh \<noteq> 0 \<and> (2 ^ (sh - 1) < r \<or> r = 2 ^ (sh - 1) \<and> odd q))
      in min (2047 * 2 ^ 52) (sh * 2 ^ 52 + q + (if up then 1 else 0)))"

definition f64_of_units :: "bool \<Rightarrow> int \<Rightarrow> f64" where
  "f64_of_units neg u =
     word_of_nat (round_units (nat \<bar>u\<bar>) + (if u < 0 \<or> u = 0 \<and> neg then 2 ^ 63 else 0))"

definition f64_zero :: f64 where "f64_zero = 0"
definition f64_nan :: f64 where "f64_nan = 0x7FF8000000000000"

text \<open>\<open>i as f64\<close>, \<open>d as i64\<close> and the sum of two doubles.\<close>

definition f64_of_i64 :: "int \<Rightarrow> f64" where
  "f64_of_i64 i = f64_of_units False (i * unit_one)"

text \<open>Division of units that truncates toward zero, as \<open>trunc\<close> does.\<close>

definition f64_trunc :: "f64 \<Rightarrow> int" where
  "f64_trunc d = (if f64_units d < 0 then - ((- f64_units d) div unit_one)
                  else f64_units d div unit_one)"

definition f64_as_i64 :: "f64 \<Rightarrow> i64" where
  "f64_as_i64 d = (if is_nan d then 0 else i64_of (max i64_min (min i64_max (f64_trunc d))))"

text \<open>\<open>fract\<close> is exact; its value in units, for a finite double.\<close>

definition f64_fract :: "f64 \<Rightarrow> int" where
  "f64_fract d = f64_units d - f64_trunc d * unit_one"

definition f64_add :: "f64 \<Rightarrow> f64 \<Rightarrow> f64" where
  "f64_add a b =
     (if is_nan a \<or> is_nan b then f64_nan
      else if is_infinite a then
        (if is_infinite b \<and> f64_negative a \<noteq> f64_negative b then f64_nan else a)
      else if is_infinite b then b
      else f64_of_units (f64_negative a \<and> f64_negative b) (f64_units a + f64_units b))"

subsection \<open>Bounds used by the comparison of integers and doubles\<close>

lemma f64_trunc_fract:
  "f64_units d = f64_trunc d * unit_one + f64_fract d"
  by (simp add: f64_fract_def)

lemma f64_fract_bounds:
  "0 \<le> f64_units d \<Longrightarrow> 0 \<le> f64_fract d \<and> f64_fract d < unit_one"
  "f64_units d < 0 \<Longrightarrow> - unit_one < f64_fract d \<and> f64_fract d \<le> 0"
proof -
  have p: "(0::int) < unit_one" by simp
  show "0 \<le> f64_units d \<Longrightarrow> 0 \<le> f64_fract d \<and> f64_fract d < unit_one"
    using pos_mod_bound[OF p, of "f64_units d"] pos_mod_sign[OF p, of "f64_units d"]
      div_mult_mod_eq[of "f64_units d" unit_one]
    by (simp only: f64_fract_def f64_trunc_def if_False not_less[symmetric]) linarith
  show "f64_units d < 0 \<Longrightarrow> - unit_one < f64_fract d \<and> f64_fract d \<le> 0"
    using pos_mod_bound[OF p, of "- f64_units d"] pos_mod_sign[OF p, of "- f64_units d"]
      div_mult_mod_eq[of "- f64_units d" unit_one]
    by (simp only: f64_fract_def f64_trunc_def if_True) linarith
qed

lemma f64_trunc_range:
  assumes "i64_min * unit_one \<le> f64_units d" "f64_units d < 2 ^ 63 * unit_one"
  shows "i64_min \<le> f64_trunc d \<and> f64_trunc d \<le> i64_max"
proof -
  let ?u = "f64_units d"
  have pos: "(0::int) < unit_one" by simp
  show ?thesis
  proof (cases "?u < 0")
    case True
    have "(- ?u) div unit_one \<le> (2 ^ 63 * unit_one) div unit_one"
      by (rule zdiv_mono1) (use assms(1) in \<open>simp_all add: i64_min_def\<close>)
    then have "(- ?u) div unit_one \<le> 2 ^ 63"
      using nonzero_mult_div_cancel_right[of unit_one "2 ^ 63"] pos by linarith
    moreover have "0 \<le> (- ?u) div unit_one"
      using True pos by (intro div_int_pos_iff[THEN iffD2]) linarith
    ultimately show ?thesis using True by (simp add: f64_trunc_def i64_min_def i64_max_def)
  next
    case False
    have "0 \<le> ?u div unit_one" using False pos by (intro div_int_pos_iff[THEN iffD2]) linarith
    moreover have "?u div unit_one < 2 ^ 63"
    proof (rule ccontr)
      assume "\<not> ?u div unit_one < 2 ^ 63"
      then have "2 ^ 63 * unit_one \<le> ?u div unit_one * unit_one"
        using pos by (intro mult_right_mono) linarith+
      then show False
        using assms(2) div_mult_mod_eq[of ?u unit_one] pos_mod_sign[OF pos, of ?u] by linarith
    qed
    ultimately show ?thesis using False by (simp add: f64_trunc_def i64_min_def i64_max_def)
  qed
qed

subsection \<open>Facts about rounding\<close>

lemma bit_length_0 [simp]: "bit_length 0 = 0"
  by (simp add: bit_length.simps)

lemma bit_length_Suc: "n \<noteq> 0 \<Longrightarrow> bit_length n = Suc (bit_length (n div 2))"
  by (subst bit_length.simps) (rule if_not_P)

lemma bit_length_bounds: "n < 2 ^ bit_length n \<and> (0 < n \<longrightarrow> 2 ^ (bit_length n - 1) \<le> n)"
proof (induction n rule: bit_length.induct)
  case (1 n)
  show ?case
  proof (cases "n = 0")
    case False
    have len: "bit_length n = Suc (bit_length (n div 2))"
      using False by (rule bit_length_Suc)
    have IH: "n div 2 < 2 ^ bit_length (n div 2)"
             "0 < n div 2 \<Longrightarrow> 2 ^ (bit_length (n div 2) - 1) \<le> n div 2"
      using 1 False by auto
    have up: "n < 2 ^ bit_length n" using IH(1) by (simp add: len)
    have "2 ^ bit_length (n div 2) \<le> n"
    proof (cases "n div 2 = 0")
      case True
      then show ?thesis using False by simp
    next
      case half: False
      have "bit_length (n div 2) = Suc (bit_length (n div 2) - 1)"
        using bit_length_Suc[OF half] by simp
      then have "(2::nat) ^ bit_length (n div 2) = 2 * 2 ^ (bit_length (n div 2) - 1)"
        by (metis power_Suc)
      then show ?thesis using IH(2) half by linarith
    qed
    then show ?thesis using up len by simp
  qed simp
qed

lemma bit_length_unique:
  assumes "2 ^ k \<le> n" "n < 2 ^ Suc k"
  shows "bit_length n = Suc k"
proof -
  have "0 < n" using assms(1) by (metis gr0I le_zero_eq power_not_zero zero_neq_numeral)
  then have "0 < bit_length n" by (simp add: bit_length_Suc del: bit_length.simps)
  have "(2::nat) ^ k < 2 ^ bit_length n" using assms(1) bit_length_bounds[of n] by linarith
  then have "k < bit_length n" by simp
  moreover have "(2::nat) ^ (bit_length n - 1) < 2 ^ Suc k"
    using assms(2) bit_length_bounds[of n] \<open>0 < n\<close> by linarith
  then have "bit_length n - 1 < Suc k" by (simp only: power_strict_increasing_iff) 
  ultimately show ?thesis by linarith
qed

lemma uint_f64_of_nat: "n < 2 ^ 64 \<Longrightarrow> uint (word_of_nat n :: f64) = int n"
  by (simp add: unsigned_of_nat take_bit_nat_eq_self)

lemma f64_parts:
  assumes "uint d = e * 2 ^ 52 + m" "0 \<le> m" "m < 2 ^ 52"
  shows "f64_exponent d = nat (e mod 2 ^ 11)" "f64_mantissa d = m"
proof -
  have "uint d div 2 ^ 52 = e" using assms by simp
  then show "f64_exponent d = nat (e mod 2 ^ 11)" by (simp only: f64_exponent_def)
  have "uint d mod 2 ^ 52 = m" using assms by (simp only: mod_mult_self3 mod_pos_pos_trivial)
  then show "f64_mantissa d = m" by (simp only: f64_mantissa_def)
qed

text \<open>Reading back the encoding of \<open>q * 2 ^ sh\<close> units.\<close>

lemma f64_units_encode:
  assumes "q < 2 ^ 53" "sh \<noteq> 0 \<longrightarrow> 2 ^ 52 \<le> q" "sh < 2046"
  shows "f64_units (word_of_nat (sh * 2 ^ 52 + q + (if neg then 2 ^ 63 else 0))) =
         (if neg then -1 else 1) * (int q * 2 ^ sh)"
    and "\<not> is_nan (word_of_nat (sh * 2 ^ 52 + q + (if neg then 2 ^ 63 else 0)))"
proof -
  let ?n = "sh * 2 ^ 52 + q + (if neg then 2 ^ 63 else 0)"
  have small: "sh * 2 ^ 52 + q < 2 ^ 63"
  proof -
    have "sh * 2 ^ 52 \<le> 2045 * 2 ^ 52" using assms(3) by (intro mult_right_mono) auto
    then show ?thesis using assms(1) by simp
  qed
  define x :: f64 where "x = word_of_nat ?n"
  have u: "uint x = int ?n"
    unfolding x_def by (rule uint_f64_of_nat) (use small in auto)
  have neg: "f64_negative x = neg"
    using small by (simp add: f64_negative_def u del: of_nat_add of_nat_mult of_nat_power)
  consider "q < 2 ^ 52" | "2 ^ 52 \<le> q" by linarith
  then have parts: "f64_exponent x = (if q < 2 ^ 52 then 0 else Suc sh) \<and>
     f64_mantissa x = (if q < 2 ^ 52 then int q else int q - 2 ^ 52)"
  proof cases
    case 1
    then have "sh = 0" using assms(2) by auto
    then have "uint x = (if neg then 2 ^ 11 else 0) * 2 ^ 52 + int q" by (simp add: u)
    from f64_parts[OF this] show ?thesis using 1 by auto
  next
    case 2
    have "uint x = int (Suc sh + (if neg then 2 ^ 11 else 0)) * 2 ^ 52 + (int q - 2 ^ 52)"
      by (simp add: u algebra_simps)
    note parts = f64_parts[OF this]
    have "(2049 + sh) mod 2048 = Suc sh" using assms(3) by (simp add: le_mod_geq)
    then show ?thesis using parts 2 assms(1,3)
      by (auto simp: nat_add_distrib nat_mod_distrib)
  qed
  have "f64_units x = (if neg then -1 else 1) * (int q * 2 ^ sh)"
    using parts neg assms(2) by (auto simp: f64_units_def f64_magnitude_def)
  then show "f64_units (word_of_nat ?n) = (if neg then -1 else 1) * (int q * 2 ^ sh)"
    unfolding x_def .
  have "\<not> is_nan x"
    using parts assms(3) by (auto simp: is_nan_def)
  then show "\<not> is_nan (word_of_nat ?n)" unfolding x_def .
qed

text \<open>A magnitude that 53 bits can hold is rounded to itself.\<close>

lemma round_units_exact:
  assumes "n = m * 2 ^ sh" "2 ^ 52 \<le> m" "m < 2 ^ 53"
  shows "round_units n = min (2047 * 2 ^ 52) (sh * 2 ^ 52 + m)"
proof -
  have "2 ^ (52 + sh) \<le> n" "n < 2 ^ Suc (52 + sh)"
    using assms mult_right_mono[of "2 ^ 52" m "2 ^ sh"] by (auto simp: power_add)
  then have "bit_length n = Suc (52 + sh)" by (rule bit_length_unique)
  then show ?thesis by (simp add: round_units_def Let_def assms(1))
qed

lemma round_units_up:
  assumes n: "n = m * 2 ^ sh + r" and m: "2 ^ 52 \<le> m" "m < 2 ^ 53"
    and r: "r < 2 ^ sh" "2 ^ (sh - 1) < r" "sh \<noteq> 0"
  shows "round_units n = min (2047 * 2 ^ 52) (sh * 2 ^ 52 + m + 1)"
proof -
  have "(2::nat) ^ 52 * 2 ^ sh \<le> m * 2 ^ sh" by (rule mult_right_mono[OF m(1)]) simp
  then have lo: "2 ^ (52 + sh) \<le> n" unfolding n power_add by linarith
  have "(m + 1) * 2 ^ sh \<le> 2 ^ 53 * 2 ^ sh" using m(2) by (intro mult_right_mono) auto
  moreover have "n < (m + 1) * 2 ^ sh" using n r(1) by simp
  ultimately have "n < 2 ^ 53 * 2 ^ sh" by linarith
  then have "n < 2 ^ Suc (52 + sh)" by (simp add: power_add)
  with lo have "bit_length n = Suc (52 + sh)" by (rule bit_length_unique)
  moreover have "n div 2 ^ sh = m" "n mod 2 ^ sh = r" using n r(1) by simp_all
  ultimately show ?thesis using r by (simp add: round_units_def Let_def)
qed

lemma round_units_small: "n < 2 ^ 53 \<Longrightarrow> round_units n = n"
proof -
  assume n: "n < 2 ^ 53"
  have "bit_length n \<le> 53"
  proof (rule ccontr)
    assume "\<not> bit_length n \<le> 53"
    then have le: "53 \<le> bit_length n - 1" by simp
    have "(2::nat) ^ 53 \<le> 2 ^ (bit_length n - 1)" by (rule power_increasing[OF le]) simp
    moreover have "0 < n" using le by (cases "n = 0") auto
    ultimately show False using bit_length_bounds[of n] n by linarith
  qed
  then show "round_units n = n" using n by (simp add: round_units_def Let_def)
qed

text \<open>The bounds of \<open>i64\<close> as doubles: the minimum is exact, the maximum rounds up to \<open>2^63\<close>.\<close>

lemma f64_i64_min:
  "f64_units (f64_of_i64 i64_min) = i64_min * unit_one" "\<not> is_nan (f64_of_i64 i64_min)"
proof -
  have "round_units (2 ^ 52 * 2 ^ 1085) = min (2047 * 2 ^ 52) (1085 * 2 ^ 52 + 2 ^ 52)"
    by (rule round_units_exact[OF refl]) simp_all
  then have r: "round_units (2 ^ 52 * 2 ^ 1085) = 1085 * 2 ^ 52 + 2 ^ 52" by simp
  have "nat \<bar>i64_min * unit_one\<bar> = 2 ^ 52 * 2 ^ 1085"
    by (simp add: i64_min_def unit_one_def abs_mult nat_mult_distrib nat_power_eq flip: power_add)
  then have eq: "f64_of_i64 i64_min =
      word_of_nat (1085 * 2 ^ 52 + 2 ^ 52 + (if True then 2 ^ 63 else 0))"
    unfolding f64_of_i64_def f64_of_units_def
    by (simp only: r) (simp add: i64_min_def unit_one_def)
  show "f64_units (f64_of_i64 i64_min) = i64_min * unit_one"
    unfolding eq by (subst f64_units_encode(1)) (simp_all add: i64_min_def unit_one_def)
  show "\<not> is_nan (f64_of_i64 i64_min)"
    unfolding eq by (rule f64_units_encode(2)) simp_all
qed

lemma f64_i64_max:
  "f64_units (f64_of_i64 i64_max) = 2 ^ 63 * unit_one" "\<not> is_nan (f64_of_i64 i64_max)"
proof -
  let ?n = "(2 ^ 63 - 1) * 2 ^ 1074 :: nat"
  have "round_units ?n = min (2047 * 2 ^ 52) (1084 * 2 ^ 52 + (2 ^ 53 - 1) + 1)"
    by (rule round_units_up[where r = "(2 ^ 10 - 1) * 2 ^ 1074"]) simp_all
  then have r: "round_units ?n = 1085 * 2 ^ 52 + 2 ^ 52" by simp
  have "nat \<bar>i64_max * unit_one\<bar> = ?n"
    by (simp add: i64_max_def unit_one_def)
  then have eq: "f64_of_i64 i64_max =
      word_of_nat (1085 * 2 ^ 52 + 2 ^ 52 + (if False then 2 ^ 63 else 0))"
    unfolding f64_of_i64_def f64_of_units_def
    by (simp only: r) (simp add: i64_max_def unit_one_def)
  show "f64_units (f64_of_i64 i64_max) = 2 ^ 63 * unit_one"
    unfolding eq by (subst f64_units_encode(1)) (simp_all add: unit_one_def)
  show "\<not> is_nan (f64_of_i64 i64_max)"
    unfolding eq by (rule f64_units_encode(2)) simp_all
qed

end
