(* ===== verification/Firestore_Value.thy ===== *)
theory Firestore_Value
  imports Smap Float64
begin

text \<open>
  Firestore values (\<open>google.firestore.v1.Value\<close>) and the comparisons of
  \<open>src/src/firestore.rs\<close>: the type order, the exact comparison of an integer with a double,
  the order that queries sort by, and the equality of the array transforms.  \<open>NoValue\<close> is the
  message whose \<open>value_type\<close> oneof is unset.
\<close>

subsection \<open>Data\<close>

datatype timestamp = Timestamp (seconds: int) (nanos: int)

instantiation timestamp :: linorder
begin

definition less_eq_timestamp :: "timestamp \<Rightarrow> timestamp \<Rightarrow> bool" where
  "a \<le> b \<longleftrightarrow> (seconds a, nanos a) \<le> (seconds b, nanos b)"

definition less_timestamp :: "timestamp \<Rightarrow> timestamp \<Rightarrow> bool" where
  "a < b \<longleftrightarrow> (seconds a, nanos a) < (seconds b, nanos b)"

instance
  by standard (auto simp: less_eq_timestamp_def less_timestamp_def timestamp.expand)

end

datatype fvalue =
    NoValue
  | NullValue int
  | BooleanValue bool
  | IntegerValue i64
  | DoubleValue f64
  | TimestampValue timestamp
  | StringValue string
  | BytesValue string
  | ReferenceValue string
  | GeoPointValue f64 f64
  | ArrayValue "fvalue list"
  | MapValue "(string \<times> fvalue) list"

type_synonym fields = "(string, fvalue) smap"

text \<open>The fields of every map inside a value are an ordered map.\<close>

fun value_wf :: "fvalue \<Rightarrow> bool" where
  "value_wf (ArrayValue vs) = list_all value_wf vs"
| "value_wf (MapValue m) = (sm_wf m \<and> list_all (\<lambda>(k, v). value_wf v) m)"
| "value_wf _ = True"

definition fields_wf :: "fields \<Rightarrow> bool" where
  "fields_wf m = (sm_wf m \<and> list_all (\<lambda>(k, v). value_wf v) m)"

subsection \<open>The order of types and numbers\<close>

fun value_rank :: "fvalue \<Rightarrow> nat" where
  "value_rank NoValue = 0"
| "value_rank (NullValue _) = 0"
| "value_rank (BooleanValue _) = 1"
| "value_rank (IntegerValue _) = 2"
| "value_rank (DoubleValue _) = 2"
| "value_rank (TimestampValue _) = 3"
| "value_rank (StringValue _) = 4"
| "value_rank (BytesValue _) = 5"
| "value_rank (ReferenceValue _) = 6"
| "value_rank (GeoPointValue _ _) = 7"
| "value_rank (ArrayValue _) = 8"
| "value_rank (MapValue _) = 9"

definition compare_integer_double :: "i64 \<Rightarrow> f64 \<Rightarrow> ordering" where
  "compare_integer_double integer double =
     (if is_nan double \<or> f64_lt double (f64_of_i64 i64_min) then Greater
      else if f64_le (f64_of_i64 i64_max) double then Less
      else ord_then (cmp_lin (sint integer) (sint (f64_as_i64 double)))
             (cmp_lin 0 (f64_fract double)))"

definition compare_floats :: "f64 \<Rightarrow> f64 \<Rightarrow> ordering" where
  "compare_floats a b =
     (if is_nan a then (if is_nan b then Equal else Less)
      else if is_nan b then Greater
      else the (f64_partial_cmp a b))"

text \<open>
  The reference: a number is its exact value in units of \<open>2^-1074\<close>, and NaN is below all.
\<close>

definition integer_key :: "i64 \<Rightarrow> bool \<times> int" where
  "integer_key i = (True, sint i * unit_one)"

definition double_key :: "f64 \<Rightarrow> bool \<times> int" where
  "double_key d = (if is_nan d then (False, 0) else (True, f64_units d))"

lemma compare_floats_key: "compare_floats a b = cmp_lin (double_key a) (double_key b)"
  by (auto simp: compare_floats_def double_key_def f64_partial_cmp_def cmp_lin_def)

lemma trunc_fract_cmp:
  fixes i u q r M :: int
  assumes "u = q * M + r" "0 < M" "0 \<le> u \<Longrightarrow> 0 \<le> r \<and> r < M" "u < 0 \<Longrightarrow> - M < r \<and> r \<le> 0"
  shows "ord_then (cmp_lin i q) (cmp_lin 0 r) = cmp_lin (i * M) u"
proof (cases i q rule: linorder_cases)
  case less
  then have "(i + 1) * M \<le> q * M" using assms(2) by (intro mult_right_mono) auto
  then have "i * M < u" using assms by (cases "0 \<le> u") (auto simp: algebra_simps)
  then show ?thesis using less by (simp add: cmp_lin_def)
next
  case equal
  then show ?thesis using assms(1) by (auto simp: cmp_lin_def)
next
  case greater
  then have "(q + 1) * M \<le> i * M" using assms(2) by (intro mult_right_mono) auto
  then have "u < i * M" using assms by (cases "0 \<le> u") (auto simp: algebra_simps)
  then show ?thesis using greater by (simp add: cmp_lin_def)
qed

lemma compare_integer_double_key:
  "compare_integer_double i d = cmp_lin (integer_key i) (double_key d)"
proof -
  have pos: "(0::int) < unit_one" by simp
  have lo: "f64_lt d (f64_of_i64 i64_min) \<longleftrightarrow> \<not> is_nan d \<and> f64_units d < i64_min * unit_one"
    by (auto simp: f64_lt_def f64_i64_min)
  have hi: "f64_le (f64_of_i64 i64_max) d \<longleftrightarrow> \<not> is_nan d \<and> 2 ^ 63 * unit_one \<le> f64_units d"
    by (auto simp: f64_le_def f64_i64_max)
  have imin: "i64_min * unit_one \<le> sint i * unit_one"
    using pos by (intro mult_right_mono) auto
  have imax: "sint i * unit_one < 2 ^ 63 * unit_one"
    using pos sint_i64_range(2)[of i] by (intro mult_strict_right_mono) (auto simp: i64_max_def)
  consider (nan) "is_nan d" | (low) "\<not> is_nan d" "f64_units d < i64_min * unit_one"
    | (high) "\<not> is_nan d" "i64_min * unit_one \<le> f64_units d" "2 ^ 63 * unit_one \<le> f64_units d"
    | (mid) "\<not> is_nan d" "i64_min * unit_one \<le> f64_units d" "f64_units d < 2 ^ 63 * unit_one"
    by linarith
  then show ?thesis
  proof cases
    case nan
    then show ?thesis
      by (simp add: compare_integer_double_def integer_key_def double_key_def cmp_lin_def)
  next
    case low
    then have "f64_units d < sint i * unit_one" using imin by linarith
    then show ?thesis using low
      by (simp add: compare_integer_double_def lo integer_key_def double_key_def cmp_lin_def)
  next
    case high
    then have "sint i * unit_one < f64_units d" using imax by linarith
    then show ?thesis using high
      by (simp add: compare_integer_double_def lo hi not_less integer_key_def double_key_def
          cmp_lin_def)
  next
    case mid
    note nn = mid(1) and rng = mid(2,3)
    have tr: "i64_min \<le> f64_trunc d \<and> f64_trunc d \<le> i64_max"
      using rng by (rule f64_trunc_range)
    have "sint (f64_as_i64 d) = f64_trunc d" using nn tr by (simp add: f64_as_i64_def)
    then have "compare_integer_double i d =
        ord_then (cmp_lin (sint i) (f64_trunc d)) (cmp_lin 0 (f64_fract d))"
      using nn rng unfolding compare_integer_double_def lo hi by (simp add: not_less not_le)
    also have "\<dots> = cmp_lin (sint i * unit_one) (f64_units d)"
      using f64_trunc_fract[of d] pos f64_fract_bounds[of d] by (rule trunc_fract_cmp) 
    finally show ?thesis
      using nn by (simp add: integer_key_def double_key_def cmp_lin_def)
  qed
qed

subsection \<open>The order of values\<close>

lemma size_fields [termination_simp]:
  "(k, v) \<in> set m \<Longrightarrow> size v < Suc (size_list (size_prod (\<lambda>_. 0) size) m)"
  by (induction m) auto

fun compare_value :: "fvalue \<Rightarrow> fvalue \<Rightarrow> ordering" where
  "compare_value a b =
     (let rank = cmp_lin (value_rank a) (value_rank b) in
      if rank \<noteq> Equal then rank
      else (case a of
          IntegerValue x \<Rightarrow>
            (case b of IntegerValue y \<Rightarrow> cmp_lin (sint x) (sint y)
             | DoubleValue y \<Rightarrow> compare_integer_double x y | _ \<Rightarrow> Equal)
        | DoubleValue x \<Rightarrow>
            (case b of IntegerValue y \<Rightarrow> ord_rev (compare_integer_double y x)
             | DoubleValue y \<Rightarrow> compare_floats x y | _ \<Rightarrow> Equal)
        | BooleanValue x \<Rightarrow> (case b of BooleanValue y \<Rightarrow> cmp_lin x y | _ \<Rightarrow> Equal)
        | StringValue x \<Rightarrow> (case b of StringValue y \<Rightarrow> cmp_lin x y | _ \<Rightarrow> Equal)
        | ReferenceValue x \<Rightarrow> (case b of ReferenceValue y \<Rightarrow> cmp_lin x y | _ \<Rightarrow> Equal)
        | BytesValue x \<Rightarrow> (case b of BytesValue y \<Rightarrow> cmp_lin x y | _ \<Rightarrow> Equal)
        | TimestampValue x \<Rightarrow>
            (case b of TimestampValue y \<Rightarrow>
               cmp_lin (seconds x, nanos x) (seconds y, nanos y) | _ \<Rightarrow> Equal)
        | GeoPointValue x1 x2 \<Rightarrow>
            (case b of GeoPointValue y1 y2 \<Rightarrow>
               ord_then (compare_floats x1 y1) (compare_floats x2 y2) | _ \<Rightarrow> Equal)
        | ArrayValue xs \<Rightarrow> (case b of ArrayValue ys \<Rightarrow> zip_cmp compare_value xs ys | _ \<Rightarrow> Equal)
        | MapValue m \<Rightarrow>
            (case b of MapValue n \<Rightarrow>
               zip_cmp (\<lambda>(ka, va) (kb, vb). ord_then (cmp_lin ka kb) (compare_value va vb)) m n
             | _ \<Rightarrow> Equal)
        | _ \<Rightarrow> Equal))"

declare compare_value.simps [simp del]

definition compare_entry :: "string \<times> fvalue \<Rightarrow> string \<times> fvalue \<Rightarrow> ordering" where
  "compare_entry = (\<lambda>(ka, va) (kb, vb). ord_then (cmp_lin ka kb) (compare_value va vb))"

text \<open>
  Values of the types below arrays are ordered by a key of a linear order: this is the
  reference the comparison is proved against.
\<close>

fun leaf_key :: "fvalue \<Rightarrow> (bool \<times> int) \<times> (bool \<times> int) \<times> string" where
  "leaf_key (BooleanValue b) = ((b, 0), (False, 0), [])"
| "leaf_key (IntegerValue i) = (integer_key i, (False, 0), [])"
| "leaf_key (DoubleValue d) = (double_key d, (False, 0), [])"
| "leaf_key (TimestampValue t) = ((False, seconds t), (False, nanos t), [])"
| "leaf_key (StringValue s) = ((False, 0), (False, 0), s)"
| "leaf_key (BytesValue s) = ((False, 0), (False, 0), s)"
| "leaf_key (ReferenceValue s) = ((False, 0), (False, 0), s)"
| "leaf_key (GeoPointValue x y) = (double_key x, double_key y, [])"
| "leaf_key _ = ((False, 0), (False, 0), [])"

lemma compare_rank_ne:
  "value_rank a \<noteq> value_rank b \<Longrightarrow> compare_value a b = cmp_lin (value_rank a) (value_rank b)"
  by (simp add: compare_value.simps[of a b])

lemma compare_rank_le: "compare_value a b \<noteq> Greater \<Longrightarrow> value_rank a \<le> value_rank b"
  using compare_rank_ne[of a b] by (cases "value_rank a = value_rank b") auto

lemma compare_integer_integer: "cmp_lin (sint x) (sint y) = cmp_lin (integer_key x) (integer_key y)"
  by (auto simp: integer_key_def cmp_lin_def)

lemma compare_leaf:
  assumes "value_rank a = value_rank b" "value_rank a < 8"
  shows "compare_value a b = cmp_lin (leaf_key a) (leaf_key b)"
proof -
  have rev: "ord_rev (cmp_lin (integer_key y) (double_key x)) = cmp_lin (double_key x) (integer_key y)"
    for x y by (rule cmp_lin_flip[symmetric])
  show ?thesis
    using assms unfolding compare_value.simps[of a b]
    by (cases a; cases b;
        simp add: compare_integer_integer compare_integer_double_key compare_floats_key rev
          cmp_lin_pair del: cmp_lin_iff)
qed

lemma compare_array: "compare_value (ArrayValue xs) (ArrayValue ys) = zip_cmp compare_value xs ys"
  by (subst compare_value.simps) simp

lemma compare_map: "compare_value (MapValue m) (MapValue n) = zip_cmp compare_entry m n"
  by (subst compare_value.simps) (simp add: compare_entry_def)

lemma value_rank_iff:
  "value_rank v = 8 \<longleftrightarrow> (\<exists>vs. v = ArrayValue vs)" "value_rank v = 9 \<longleftrightarrow> (\<exists>m. v = MapValue m)"
  by (cases v; simp)+

lemma value_rank_le: "value_rank v \<le> 9"
  by (cases v) auto

lemma value_rank_cases:
  obtains (leaf) "value_rank v < 8" | (array) vs where "v = ArrayValue vs" | (mapv) m where "v = MapValue m"
  by (cases v) auto

lemma size_elem: "x \<in> set xs \<Longrightarrow> size x < Suc (size_list size xs)"
  by (simp add: less_Suc_eq_le size_list_estimation')

lemma compare_flip: "compare_value b a = ord_rev (compare_value a b)"
proof (induction "size a" arbitrary: a b rule: less_induct)
  case less
  show ?case
  proof (cases "value_rank a = value_rank b")
    case False
    then show ?thesis by (auto simp: compare_rank_ne cmp_lin_def)
  next
    case same: True
    show ?thesis
    proof (cases a rule: value_rank_cases)
      case leaf
      then show ?thesis using same
        by (simp add: compare_leaf cmp_lin_flip[of "leaf_key b"])
    next
      case (array xs)
      then obtain ys where b: "b = ArrayValue ys" using same value_rank_iff(1)[of b] by auto
      have "compare_value y x = ord_rev (compare_value x y)" if "x \<in> set xs" for x y
        using that array size_elem by (intro less(1)) auto
      then show ?thesis unfolding array b compare_array by (intro zip_cmp_induct_laws) auto
    next
      case (mapv m)
      then obtain n where b: "b = MapValue n" using same value_rank_iff(2)[of b] by auto
      have "compare_entry y x = ord_rev (compare_entry x y)" if "x \<in> set m" for x y
      proof -
        have "size (snd x) < size a" using that mapv size_fields[of "fst x" "snd x" m] by simp
        then show ?thesis using less(1)[of "snd x" "snd y"]
          by (simp add: compare_entry_def split_beta cmp_lin_flip[of "fst y"])
      qed
      then show ?thesis unfolding mapv b compare_map by (intro zip_cmp_induct_laws) auto
    qed
  qed
qed

lemma compare_entry_flip: "compare_entry y x = ord_rev (compare_entry x y)"
  using compare_flip[of "snd y" "snd x"]
  by (simp add: compare_entry_def split_beta cmp_lin_flip[of "fst y"])

text \<open>
  Not greater is transitive, and an equal outcome forces equality of both steps; the second
  part carries the induction through lists, whose later elements only count after equality.
\<close>

lemma compare_trans_strong:
  "compare_value a b \<noteq> Greater \<Longrightarrow> compare_value b c \<noteq> Greater \<Longrightarrow>
   compare_value a c \<noteq> Greater \<and>
   (compare_value a c = Equal \<longrightarrow> compare_value a b = Equal \<and> compare_value b c = Equal)"
proof (induction "size a" arbitrary: a b c rule: less_induct)
  case less
  note le = compare_rank_le[OF less.prems(1)] compare_rank_le[OF less.prems(2)]
  show ?case
  proof (cases "value_rank a = value_rank c")
    case False
    then show ?thesis using le by (auto simp: compare_rank_ne)
  next
    case True
    then have same: "value_rank a = value_rank b" "value_rank b = value_rank c" using le by auto
    show ?thesis
    proof (cases a rule: value_rank_cases)
      case leaf
      then show ?thesis using same less.prems
        by (auto simp: compare_leaf not_less)
    next
      case (array xs)
      then obtain ys zs where bc: "b = ArrayValue ys" "c = ArrayValue zs"
        using same value_rank_iff(1) by (metis value_rank.simps(11))
      have "compare_value x z \<noteq> Greater \<and> (compare_value x z = Equal \<longrightarrow>
          compare_value x y = Equal \<and> compare_value y z = Equal)"
        if "x \<in> set xs" "compare_value x y \<noteq> Greater" "compare_value y z \<noteq> Greater" for x y z
        using that array size_elem by (intro less(1)) auto
      then show ?thesis
        using less.prems unfolding array bc compare_array
        by (intro zip_cmp_trans) auto
    next
      case (mapv m)
      then obtain n l where bc: "b = MapValue n" "c = MapValue l"
        using same value_rank_iff(2) by (metis value_rank.simps(12))
      have ent: "compare_entry x z \<noteq> Greater \<and> (compare_entry x z = Equal \<longrightarrow>
          compare_entry x y = Equal \<and> compare_entry y z = Equal)"
        if "x \<in> set m" "compare_entry x y \<noteq> Greater" "compare_entry y z \<noteq> Greater" for x y z
      proof -
        have "size (snd x) < size a" using that mapv size_fields[of "fst x" "snd x" m] by simp
        from less(1)[OF this, of "snd y" "snd z"] show ?thesis using that(2,3)
          by (auto simp: compare_entry_def split_beta)
      qed
      show ?thesis
        using less.prems unfolding mapv bc compare_map
        by (intro zip_cmp_trans) (use ent in auto)
    qed
  qed
qed

lemma compare_trans:
  "compare_value a b \<noteq> Greater \<Longrightarrow> compare_value b c \<noteq> Greater \<Longrightarrow> compare_value a c \<noteq> Greater"
  using compare_trans_strong by blast

interpretation fv: comparator_on UNIV compare_value
proof
  show "compare_value y x = ord_rev (compare_value x y)" for x y by (rule compare_flip)
  show "compare_value x z \<noteq> Greater"
    if "compare_value x y \<noteq> Greater" "compare_value y z \<noteq> Greater" for x y z
    using that by (rule compare_trans)
qed

subsection \<open>Equality\<close>

definition float_equal :: "f64 \<Rightarrow> f64 \<Rightarrow> bool" where
  "float_equal a b = (f64_eq a b \<or> (is_nan a \<and> is_nan b))"

lemma set_zip_lists [termination_simp]:
  "(a, b) \<in> set (zip xs ys) \<Longrightarrow> size (a :: fvalue) < Suc (size_list size xs)"
  by (auto dest: set_zip_leftD size_elem)

text \<open>\<open>transform_value_equal\<close>: what \<open>appendMissingElements\<close> takes for the same element.\<close>

fun transform_value_equal :: "fvalue \<Rightarrow> fvalue \<Rightarrow> bool" where
  "transform_value_equal a b =
     (case a of
        NullValue _ \<Rightarrow> (case b of NullValue _ \<Rightarrow> True | _ \<Rightarrow> False)
      | BooleanValue x \<Rightarrow> (case b of BooleanValue y \<Rightarrow> x = y | _ \<Rightarrow> False)
      | IntegerValue x \<Rightarrow>
          (case b of IntegerValue y \<Rightarrow> x = y
           | DoubleValue y \<Rightarrow> compare_integer_double x y = Equal | _ \<Rightarrow> False)
      | DoubleValue x \<Rightarrow>
          (case b of IntegerValue y \<Rightarrow> compare_integer_double y x = Equal
           | DoubleValue y \<Rightarrow> float_equal x y | _ \<Rightarrow> False)
      | TimestampValue x \<Rightarrow> (case b of TimestampValue y \<Rightarrow> x = y | _ \<Rightarrow> False)
      | StringValue x \<Rightarrow> (case b of StringValue y \<Rightarrow> x = y | _ \<Rightarrow> False)
      | BytesValue x \<Rightarrow> (case b of BytesValue y \<Rightarrow> x = y | _ \<Rightarrow> False)
      | ReferenceValue x \<Rightarrow> (case b of ReferenceValue y \<Rightarrow> x = y | _ \<Rightarrow> False)
      | GeoPointValue x1 x2 \<Rightarrow>
          (case b of GeoPointValue y1 y2 \<Rightarrow> float_equal x1 y1 \<and> float_equal x2 y2 | _ \<Rightarrow> False)
      | ArrayValue xs \<Rightarrow>
          (case b of ArrayValue ys \<Rightarrow>
             length xs = length ys \<and> list_all (\<lambda>(x, y). transform_value_equal x y) (zip xs ys)
           | _ \<Rightarrow> False)
      | MapValue m \<Rightarrow>
          (case b of MapValue n \<Rightarrow>
             length m = length n \<and>
             list_all (\<lambda>(key, x). case sm_get n key of None \<Rightarrow> False
                                 | Some other \<Rightarrow> transform_value_equal x other) m
           | _ \<Rightarrow> False)
      | NoValue \<Rightarrow> (case b of NoValue \<Rightarrow> True | _ \<Rightarrow> False))"

declare transform_value_equal.simps [simp del]

text \<open>
  The derived \<open>PartialEq\<close> of the generated messages, which \<open>==\<close> on documents uses: field by
  field, with the IEEE equality of doubles, for which a NaN differs from itself.
\<close>

fun value_eq :: "fvalue \<Rightarrow> fvalue \<Rightarrow> bool" where
  "value_eq a b =
     (case a of
        DoubleValue x \<Rightarrow> (case b of DoubleValue y \<Rightarrow> f64_eq x y | _ \<Rightarrow> False)
      | GeoPointValue x1 x2 \<Rightarrow>
          (case b of GeoPointValue y1 y2 \<Rightarrow> f64_eq x1 y1 \<and> f64_eq x2 y2 | _ \<Rightarrow> False)
      | ArrayValue xs \<Rightarrow>
          (case b of ArrayValue ys \<Rightarrow>
             length xs = length ys \<and> list_all (\<lambda>(x, y). value_eq x y) (zip xs ys)
           | _ \<Rightarrow> False)
      | MapValue m \<Rightarrow>
          (case b of MapValue n \<Rightarrow>
             length m = length n \<and>
             list_all (\<lambda>(key, x). case sm_get n key of None \<Rightarrow> False
                                 | Some other \<Rightarrow> value_eq x other) m
           | _ \<Rightarrow> False)
      | _ \<Rightarrow> a = b)"

declare value_eq.simps [simp del]

definition fields_eq :: "fields \<Rightarrow> fields \<Rightarrow> bool" where
  "fields_eq m n =
     (length m = length n \<and>
      list_all (\<lambda>(key, x). case sm_get n key of None \<Rightarrow> False | Some other \<Rightarrow> value_eq x other) m)"

text \<open>No part of the value is a message without a value.\<close>

fun value_set :: "fvalue \<Rightarrow> bool" where
  "value_set NoValue = False"
| "value_set (ArrayValue vs) = list_all value_set vs"
| "value_set (MapValue m) = list_all (\<lambda>(k, v). value_set v) m"
| "value_set _ = True"

lemma float_equal_key: "float_equal a b \<longleftrightarrow> double_key a = double_key b"
  by (auto simp: float_equal_def f64_eq_def double_key_def)

lemma cmp_key_Equal [simp]:
  "compare_integer_double i d = Equal \<longleftrightarrow> integer_key i = double_key d"
  by (simp add: compare_integer_double_key)

lemma integer_key_inject [simp]: "integer_key i = integer_key j \<longleftrightarrow> i = j"
  by (auto simp: integer_key_def)

lemma transform_equal_leaf:
  assumes "value_rank a < 8" "value_set a" "value_set b"
  shows "transform_value_equal a b \<longleftrightarrow> value_rank a = value_rank b \<and> leaf_key a = leaf_key b"
  using assms unfolding transform_value_equal.simps[of a b]
  by (cases a; cases b; auto simp: float_equal_key timestamp.expand)

lemma transform_equal_array:
  "transform_value_equal (ArrayValue xs) (ArrayValue ys) \<longleftrightarrow> list_all2 transform_value_equal xs ys"
  by (subst transform_value_equal.simps)
     (auto simp: list_all2_iff list_all_iff)

lemma transform_equal_map:
  assumes "sm_wf m" "sm_wf n"
  shows "transform_value_equal (MapValue m) (MapValue n) \<longleftrightarrow>
         list_all2 (\<lambda>(k, x) (l, y). k = l \<and> transform_value_equal x y) m n"
proof -
  have "transform_value_equal (MapValue m) (MapValue n) \<longleftrightarrow> length m = length n \<and>
      (\<forall>(k, x) \<in> set m. \<exists>y. sm_get n k = Some y \<and> transform_value_equal x y)"
    by (subst transform_value_equal.simps) (auto simp: list_all_iff split: option.splits)
  then show ?thesis using sm_all2_iff[OF assms] by simp
qed

lemma transform_equal_rank: "transform_value_equal a b \<Longrightarrow> value_set a \<Longrightarrow> value_set b \<Longrightarrow>
    value_rank a = value_rank b"
  unfolding transform_value_equal.simps[of a b] by (cases a; cases b; simp)

lemma transform_equal_compare:
  "value_wf a \<Longrightarrow> value_wf b \<Longrightarrow> value_set a \<Longrightarrow> value_set b \<Longrightarrow>
   transform_value_equal a b \<longleftrightarrow> compare_value a b = Equal"
proof (induction "size a" arbitrary: a b rule: less_induct)
  case less
  show ?case
  proof (cases "value_rank a = value_rank b")
    case False
    then show ?thesis using transform_equal_rank less.prems(3,4)
      by (auto simp: compare_rank_ne)
  next
    case same: True
    show ?thesis
    proof (cases a rule: value_rank_cases)
      case leaf
      then show ?thesis using less.prems same
        by (simp add: transform_equal_leaf compare_leaf)
    next
      case (array xs)
      then obtain ys where b: "b = ArrayValue ys" using same value_rank_iff(1)[of b] by auto
      have "transform_value_equal x y \<longleftrightarrow> compare_value x y = Equal"
        if "x \<in> set xs" "y \<in> set ys" for x y
        using that less.prems array b size_elem by (intro less(1)) (auto simp: list_all_iff)
      then show ?thesis
        unfolding array b compare_array transform_equal_array zip_cmp_Equal_iff
        by (intro list.rel_cong) auto
    next
      case (mapv m)
      then obtain n where b: "b = MapValue n" using same value_rank_iff(2)[of b] by auto
      have wf: "sm_wf m" "sm_wf n" using less.prems mapv b by auto
      have "k = l \<and> transform_value_equal x y \<longleftrightarrow> compare_entry (k, x) (l, y) = Equal"
        if "(k, x) \<in> set m" "(l, y) \<in> set n" for k x l y
      proof -
        have "size x < size a" using that mapv size_fields[of k x m] by simp
        then have "transform_value_equal x y \<longleftrightarrow> compare_value x y = Equal"
          using that less.prems mapv b by (intro less(1)) (auto simp: list_all_iff)
        then show ?thesis by (simp add: compare_entry_def)
      qed
      then show ?thesis
        unfolding mapv b compare_map transform_equal_map[OF wf] zip_cmp_Equal_iff
        by (intro list.rel_cong) (auto split: prod.splits)
    qed
  qed
qed

subsection \<open>Properties\<close>

text \<open>
  Property C3.  The comparison behind every Firestore ordering is a total preorder: swapping
  the arguments reverses the answer, and not-greater is transitive, across types, mixed
  integers and doubles, NaN, infinities, and nested arrays and maps.  This is what
  \<open>sort_by\<close> demands of its comparator.
\<close>

theorem compare_value_total_preorder:
  "compare_value b a = ord_rev (compare_value a b) \<and>
   (compare_value a b \<noteq> Greater \<and> compare_value b c \<noteq> Greater \<longrightarrow> compare_value a c \<noteq> Greater)"
  using compare_flip[of b a] compare_trans[of a b c] by blast

lemma compare_value_total_preorder_witness:
  "compare_value (ArrayValue [IntegerValue 1]) (MapValue [(''k'', DoubleValue f64_nan)]) \<noteq> Greater"
  using compare_value_total_preorder[of "ArrayValue [IntegerValue 2]" "ArrayValue [IntegerValue 1]"
      "MapValue [(''k'', DoubleValue f64_nan)]"]
  by (simp add: compare_array compare_leaf compare_rank_ne integer_key_def)

text \<open>
  Comparing an integer with a double is the comparison of the exact real
  numbers, without rounding the integer to a double; a NaN is below every integer.
\<close>

theorem compare_integer_double_exact:
  "compare_integer_double i d =
     (if is_nan d then Greater else cmp_lin (sint i * unit_one) (f64_units d))"
  by (simp add: compare_integer_double_key integer_key_def double_key_def cmp_lin_def)

text \<open>
  The equality that \<open>appendMissingElements\<close> uses agrees with the query order:
  two complete values are the same element exactly when they compare equal.
\<close>

theorem transform_value_equal_is_compare:
  assumes "value_wf a" "value_wf b" "value_set a" "value_set b"
  shows "transform_value_equal a b \<longleftrightarrow> compare_value a b = Equal"
  using assms by (rule transform_equal_compare)

lemma transform_value_equal_is_compare_witness:
  "transform_value_equal (MapValue [(''a'', IntegerValue 0), (''b'', NullValue 0)])
     (MapValue [(''a'', DoubleValue f64_zero), (''b'', NullValue 1)])"
  by (subst transform_value_equal_is_compare)
     (simp_all add: compare_map compare_entry_def compare_leaf integer_key_def double_key_def
       f64_zero_def is_nan_def f64_mantissa_def f64_exponent_def f64_units_def f64_magnitude_def
       f64_negative_def)

end
