(* ===== verification/Strings.thy ===== *)
theory Strings
  imports Prelude
begin

text \<open>
  The string operations of the Rust standard library that the program uses, on lists of
  bytes: \<open>split\<close>, \<open>join\<close>, \<open>strip_prefix\<close>, \<open>split_once\<close>, \<open>trim\<close>, ASCII classes and case,
  decimal formatting with padding (\<open>{:04}\<close>) and \<open>str::parse\<close> for unsigned integers.
  Every separator and character class of the program is ASCII, so working on the bytes of
  the UTF-8 form gives what working on \<open>char\<close>s gives; \<open>trim\<close> is modelled for the ASCII
  white space characters only.
\<close>

subsection \<open>Splitting and joining\<close>

fun split_on :: "char \<Rightarrow> string \<Rightarrow> string list" where
  "split_on c [] = [[]]"
| "split_on c (x # xs) =
     (if x = c then [] # split_on c xs
      else (case split_on c xs of [] \<Rightarrow> [[x]] | p # ps \<Rightarrow> (x # p) # ps))"

fun join_with :: "string \<Rightarrow> string list \<Rightarrow> string" where
  "join_with sep [] = []"
| "join_with sep [p] = p"
| "join_with sep (p # q # ps) = p @ sep @ join_with sep (q # ps)"

lemma split_on_not_Nil [simp]: "split_on c s \<noteq> []"
  by (induction s) (auto split: list.splits)

lemma length_split_on_pos [simp]: "0 < length (split_on c s)"
  by simp

lemma join_with_Cons:
  "ps \<noteq> [] \<Longrightarrow> join_with sep (p # ps) = p @ sep @ join_with sep ps"
  by (cases ps) auto

lemma join_with_Cons_char: "ps \<noteq> [] \<Longrightarrow> join_with sep ((x # p) # ps) = x # join_with sep (p # ps)"
  by (cases ps) auto

lemma join_split_on [simp]: "join_with [c] (split_on c s) = s"
proof (induction s)
  case (Cons x xs)
  obtain p ps where eq: "split_on c xs = p # ps"
    using split_on_not_Nil by (metis list.exhaust)
  then show ?case using Cons
    by (cases ps) (auto simp: join_with_Cons)
qed simp

lemma split_on_append_sep:
  "c \<notin> set p \<Longrightarrow> split_on c (p @ c # s) = p # split_on c s"
  by (induction p) (auto split: list.splits)

lemma split_on_no_sep [simp]: "c \<notin> set p \<Longrightarrow> split_on c p = [p]"
  by (induction p) auto

lemma split_on_join [simp]:
  assumes "ps \<noteq> []" "\<forall>p \<in> set ps. c \<notin> set p"
  shows "split_on c (join_with [c] ps) = ps"
  using assms
proof (induction ps rule: list_nonempty_induct)
  case (cons p ps)
  then show ?case by (simp add: join_with_Cons split_on_append_sep)
qed simp

lemma split_on_parts_no_sep: "p \<in> set (split_on c s) \<Longrightarrow> c \<notin> set p"
proof (induction s arbitrary: p)
  case (Cons x xs)
  then show ?case by (cases "split_on c xs") (auto split: if_splits)
qed simp

lemma split_on_inject [simp]: "split_on c s = split_on c t \<longleftrightarrow> s = t"
  by (metis join_split_on)

lemma split_on_eq_iff:
  "split_on c s = ps \<longleftrightarrow> ps \<noteq> [] \<and> (\<forall>p \<in> set ps. c \<notin> set p) \<and> s = join_with [c] ps"
  using split_on_parts_no_sep by fastforce

lemma split_on_append:
  "split_on c (s @ c # t) = split_on c s @ split_on c t"
proof (induction s)
  case (Cons x xs)
  then show ?case by (cases "split_on c xs") auto
qed simp

lemma join_with_append:
  "ps \<noteq> [] \<Longrightarrow> qs \<noteq> [] \<Longrightarrow> join_with sep (ps @ qs) = join_with sep ps @ sep @ join_with sep qs"
proof (induction ps rule: list_nonempty_induct)
  case (cons p ps)
  then show ?case by (simp add: join_with_Cons)
qed (simp add: join_with_Cons)

subsection \<open>Prefixes, suffixes and searching\<close>

fun strip_prefix :: "string \<Rightarrow> string \<Rightarrow> string option" where
  "strip_prefix [] s = Some s"
| "strip_prefix (p # ps) [] = None"
| "strip_prefix (p # ps) (x # xs) = (if p = x then strip_prefix ps xs else None)"

definition strip_suffix :: "string \<Rightarrow> string \<Rightarrow> string option" where
  "strip_suffix p s = map_option rev (strip_prefix (rev p) (rev s))"

definition starts_with :: "string \<Rightarrow> string \<Rightarrow> bool" where
  "starts_with p s = (strip_prefix p s \<noteq> None)"

definition ends_with :: "string \<Rightarrow> string \<Rightarrow> bool" where
  "ends_with p s = (strip_suffix p s \<noteq> None)"

lemma strip_prefix_iff: "strip_prefix p s = Some r \<longleftrightarrow> s = p @ r"
  by (induction p s rule: strip_prefix.induct) auto

lemma strip_prefix_append [simp]: "strip_prefix p (p @ r) = Some r"
  by (simp add: strip_prefix_iff)

lemma strip_suffix_iff: "strip_suffix p s = Some r \<longleftrightarrow> s = r @ p"
proof -
  have "strip_suffix p s = Some r \<longleftrightarrow> strip_prefix (rev p) (rev s) = Some (rev r)"
    by (auto simp: strip_suffix_def)
  also have "\<dots> \<longleftrightarrow> rev s = rev (r @ p)" by (simp add: strip_prefix_iff)
  finally show ?thesis by (simp only: rev_is_rev_conv)
qed

lemma starts_with_iff: "starts_with p s \<longleftrightarrow> (\<exists>r. s = p @ r)"
  by (auto simp: starts_with_def strip_prefix_iff)

lemma starts_with_append [simp]: "starts_with p (p @ r)"
  by (auto simp: starts_with_iff)

lemma ends_with_iff: "ends_with p s \<longleftrightarrow> (\<exists>r. s = r @ p)"
  by (auto simp: ends_with_def strip_suffix_iff)

text \<open>\<open>str::find\<close> of a non-empty pattern, and \<open>split_once\<close> at its first occurrence.\<close>

fun split_once :: "string \<Rightarrow> string \<Rightarrow> (string \<times> string) option" where
  "split_once pat [] = (if pat = [] then Some ([], []) else None)"
| "split_once pat (x # xs) =
     (case strip_prefix pat (x # xs) of
        Some r \<Rightarrow> Some ([], r)
      | None \<Rightarrow> map_option (\<lambda>(a, b). (x # a, b)) (split_once pat xs))"

definition rsplit_once :: "char \<Rightarrow> string \<Rightarrow> (string \<times> string) option" where
  "rsplit_once c s = map_option (\<lambda>(a, b). (rev b, rev a)) (split_once [c] (rev s))"

lemma split_once_Some: "split_once pat s = Some (a, b) \<Longrightarrow> s = a @ pat @ b"
  by (induction s arbitrary: a) (auto simp: strip_prefix_iff split: option.splits if_splits)

lemma split_once_None: "split_once pat s = None \<Longrightarrow> s \<noteq> a @ pat @ b"
proof (induction s arbitrary: a)
  case (Cons x xs)
  have none: "strip_prefix pat (x # xs) = None" "split_once pat xs = None"
    using Cons.prems by (auto split: option.splits)
  show ?case
  proof (cases a)
    case Nil
    then show ?thesis using none(1) strip_prefix_iff[of pat "x # xs" b] by auto
  next
    case (Cons y ys)
    then show ?thesis using Cons.IH[OF none(2)] by auto
  qed
qed (auto split: if_splits)

lemma split_once_char:
  "c \<notin> set a \<Longrightarrow> split_once [c] (a @ c # b) = Some (a, b)"
  by (induction a) auto

lemma split_once_char_no_sep: "split_once [c] s = Some (a, b) \<Longrightarrow> c \<notin> set a"
  by (induction s arbitrary: a) (auto split: option.splits if_splits)

subsection \<open>Character classes\<close>

definition is_digit :: "char \<Rightarrow> bool" where
  "is_digit c = (CHR ''0'' \<le> c \<and> c \<le> CHR ''9'')"

definition is_lower :: "char \<Rightarrow> bool" where
  "is_lower c = (CHR ''a'' \<le> c \<and> c \<le> CHR ''z'')"

definition is_upper :: "char \<Rightarrow> bool" where
  "is_upper c = (CHR ''A'' \<le> c \<and> c \<le> CHR ''Z'')"

definition is_alpha :: "char \<Rightarrow> bool" where
  "is_alpha c = (is_lower c \<or> is_upper c)"

definition is_alnum :: "char \<Rightarrow> bool" where
  "is_alnum c = (is_alpha c \<or> is_digit c)"

definition is_space :: "char \<Rightarrow> bool" where
  "is_space c = (of_char c \<in> {9, 10, 11, 12, 13, 32 :: nat})"

definition to_lower :: "char \<Rightarrow> char" where
  "to_lower c = (if is_upper c then char_of (of_char c + 32 :: nat) else c)"

definition lowercase :: "string \<Rightarrow> string" where
  "lowercase s = map to_lower s"

definition eq_ignore_case :: "string \<Rightarrow> string \<Rightarrow> bool" where
  "eq_ignore_case a b = (lowercase a = lowercase b)"

definition trim_start :: "string \<Rightarrow> string" where
  "trim_start s = dropWhile is_space s"

definition trim :: "string \<Rightarrow> string" where
  "trim s = rev (dropWhile is_space (rev (dropWhile is_space s)))"

lemma eq_ignore_case_refl [simp]: "eq_ignore_case a a"
  by (simp add: eq_ignore_case_def)

lemma eq_ignore_case_sym: "eq_ignore_case a b \<longleftrightarrow> eq_ignore_case b a"
  by (auto simp: eq_ignore_case_def)

lemma eq_ignore_case_trans: "eq_ignore_case a b \<Longrightarrow> eq_ignore_case b c \<Longrightarrow> eq_ignore_case a c"
  by (simp add: eq_ignore_case_def)

subsection \<open>Decimal numbers\<close>

definition digit_char :: "nat \<Rightarrow> char" where
  "digit_char d = char_of (48 + d)"

definition digit_val :: "char \<Rightarrow> nat" where
  "digit_val c = of_char c - 48"

fun show_nat :: "nat \<Rightarrow> string" where
  "show_nat n = (if n < 10 then [digit_char n] else show_nat (n div 10) @ [digit_char (n mod 10)])"

declare show_nat.simps [simp del]

definition show_int :: "int \<Rightarrow> string" where
  "show_int i = (if i < 0 then CHR ''-'' # show_nat (nat (- i)) else show_nat (nat i))"

definition nat_of_digits :: "string \<Rightarrow> nat" where
  "nat_of_digits s = foldl (\<lambda>n c. 10 * n + digit_val c) 0 s"

text \<open>\<open>{:0width}\<close> pads with zeros on the left.\<close>

definition pad_nat :: "nat \<Rightarrow> nat \<Rightarrow> string" where
  "pad_nat w n = (let s = show_nat n in replicate (w - length s) (CHR ''0'') @ s)"

text \<open>
  \<open>str::parse\<close> for an unsigned type with \<open>bound\<close> values: an optional plus sign, at least
  one digit, digits only, in range.
\<close>

definition parse_unsigned :: "nat \<Rightarrow> string \<Rightarrow> nat option" where
  "parse_unsigned bound s =
     (let ds = (case s of [] \<Rightarrow> [] | c # cs \<Rightarrow> if c = CHR ''+'' then cs else s) in
      if ds \<noteq> [] \<and> list_all is_digit ds \<and> nat_of_digits ds < bound
      then Some (nat_of_digits ds) else None)"

lemma of_char_digit [simp]: "d < 10 \<Longrightarrow> of_char (digit_char d) = 48 + d"
  by (simp add: digit_char_def)

lemma digit_val_char [simp]: "d < 10 \<Longrightarrow> digit_val (digit_char d) = d"
  by (simp add: digit_val_def)

lemma is_digit_iff: "is_digit c \<longleftrightarrow> (48::nat) \<le> of_char c \<and> of_char c \<le> (57::nat)"
  by (simp add: is_digit_def less_eq_char_def)

lemma is_digit_char [simp]: "d < 10 \<Longrightarrow> is_digit (digit_char d)"
  by (simp add: is_digit_iff)

lemma show_nat_not_Nil [simp]: "show_nat n \<noteq> []"
  by (subst show_nat.simps) auto

lemma show_nat_digits [simp]: "list_all is_digit (show_nat n)"
proof (induction n rule: show_nat.induct)
  case (1 n)
  then show ?case by (subst show_nat.simps) auto
qed

lemma nat_of_digits_snoc [simp]: "nat_of_digits (s @ [c]) = 10 * nat_of_digits s + digit_val c"
  by (simp add: nat_of_digits_def)

lemma nat_of_digits_Nil [simp]: "nat_of_digits [] = 0"
  by (simp add: nat_of_digits_def)

lemma nat_of_digits_show [simp]: "nat_of_digits (show_nat n) = n"
proof (induction n rule: show_nat.induct)
  case (1 n)
  show ?case
  proof (cases "n < 10")
    case True
    then have "show_nat n = [] @ [digit_char n]" by (subst show_nat.simps) simp
    then show ?thesis using True by (simp only: nat_of_digits_snoc) simp
  next
    case False
    then have "show_nat n = show_nat (n div 10) @ [digit_char (n mod 10)]"
      by (subst show_nat.simps) simp
    then show ?thesis using 1 False by simp
  qed
qed

lemma show_nat_inject [simp]: "show_nat m = show_nat n \<longleftrightarrow> m = n"
  by (metis nat_of_digits_show)

lemma digit_not_sign: "is_digit c \<Longrightarrow> c \<noteq> CHR ''+''" "is_digit c \<Longrightarrow> c \<noteq> CHR ''-''"
  by (auto simp: is_digit_iff)

lemma parse_show_nat [simp]:
  assumes "n < bound"
  shows "parse_unsigned bound (show_nat n) = Some n"
proof -
  obtain c cs where eq: "show_nat n = c # cs" using show_nat_not_Nil by (metis list.exhaust)
  have "is_digit c" "list_all is_digit cs" using show_nat_digits[of n] eq by auto
  moreover have "nat_of_digits (c # cs) = n" using nat_of_digits_show[of n] eq by simp
  ultimately show ?thesis using digit_not_sign(1)[of c] assms
    by (auto simp: parse_unsigned_def eq)
qed

lemma nat_of_digits_zeros [simp]: "nat_of_digits (replicate k (CHR ''0'') @ s) = nat_of_digits s"
  by (induction k) (auto simp: nat_of_digits_def digit_val_def)

lemma nat_of_digits_pad [simp]: "nat_of_digits (pad_nat w n) = n"
  by (simp add: pad_nat_def Let_def)

lemma pad_nat_inject [simp]: "pad_nat w m = pad_nat w n \<longleftrightarrow> m = n"
  by (metis nat_of_digits_pad)

lemma length_show_nat: "n < 10 ^ w \<Longrightarrow> 0 < w \<Longrightarrow> length (show_nat n) \<le> w"
proof (induction n arbitrary: w rule: show_nat.induct)
  case (1 n)
  show ?case
  proof (cases "n < 10")
    case True
    then show ?thesis using 1 by (subst show_nat.simps) simp
  next
    case False
    then obtain v where w: "w = Suc v" "0 < v" using 1
      by (cases w; cases "w - 1") auto
    then have "n div 10 < 10 ^ v" using 1 by (simp add: div_less_iff_less_mult mult.commute)
    then show ?thesis using 1 w False by (subst show_nat.simps) simp
  qed
qed

lemma length_pad_nat: "n < 10 ^ w \<Longrightarrow> 0 < w \<Longrightarrow> length (pad_nat w n) = w"
  using length_show_nat[of n w] by (simp add: pad_nat_def Let_def)

lemma pad_nat_digits [simp]: "list_all is_digit (pad_nat w n)"
proof -
  have "is_digit (CHR ''0'')" by (simp add: is_digit_def)
  then have "list_all is_digit (replicate k (CHR ''0''))" for k by (induction k) auto
  then show ?thesis by (auto simp: pad_nat_def Let_def)
qed

end
