(* ===== verification/Firestore_Path.thy ===== *)
theory Firestore_Path
  imports Firestore_Value Strings "HOL-Library.Sublist"
begin

text \<open>
  Names and paths of \<open>src/src/firestore.rs\<close>: database and document names, the field path
  parser, reading and writing a value along a path of nested maps, and the merge of a
  document under an update mask.  The contract of path-addressed storage is the locale
  \<open>path_store\<close>; \<open>nested_get\<close> and \<open>nested_set\<close> are its instance.
\<close>

record document =
  doc_name :: string
  doc_fields :: fields
  create_time :: "timestamp option"
  update_time :: "timestamp option"

subsection \<open>Resource names\<close>

definition split_path :: "string \<Rightarrow> string list" where
  "split_path s = split_on CHR ''/'' s"

definition database_document_prefix :: "string \<Rightarrow> string res" where
  "database_document_prefix database =
     (let parts = split_path database in
      if length parts \<noteq> 4 \<or> parts ! 0 \<noteq> ''projects'' \<or> parts ! 1 = []
         \<or> parts ! 2 \<noteq> ''databases'' \<or> parts ! 3 = []
      then Inl (invalid_argument (''invalid database name: '' @ database))
      else Inr (database @ ''/documents/''))"

definition database_from_resource :: "string \<Rightarrow> string res" where
  "database_from_resource resource =
     (let parts = split_path resource in
      if length parts < 4
      then Inl (invalid_argument (''invalid Firestore resource: '' @ resource))
      else (let database = join_with ''/'' (take 4 parts) in
            rbind (database_document_prefix database) (\<lambda>_. Inr database)))"

definition validate_document_name :: "string \<Rightarrow> unit res" where
  "validate_document_name name =
     (let parts = split_path name;
          valid_prefix = (length parts \<ge> 7 \<and> parts ! 0 = ''projects'' \<and> parts ! 1 \<noteq> []
            \<and> parts ! 2 = ''databases'' \<and> parts ! 3 \<noteq> [] \<and> parts ! 4 = ''documents'');
          document_path_len = length parts - 5
      in if \<not> valid_prefix \<or> document_path_len < 2 \<or> document_path_len mod 2 \<noteq> 0
         then Inl (invalid_argument (''invalid document name: '' @ name))
         else Inr ())"

lemma database_document_prefix_Inr:
  "database_document_prefix d = Inr p \<Longrightarrow> p = d @ ''/documents/''"
  by (auto simp: database_document_prefix_def Let_def split: if_splits)

lemma database_from_resource_Inr:
  assumes "database_from_resource r = Inr d"
  shows "database_document_prefix d = Inr (d @ ''/documents/'')"
    and "split_path d = take 4 (split_path r)"
proof -
  show "database_document_prefix d = Inr (d @ ''/documents/'')"
    using assms database_document_prefix_Inr
    by (fastforce simp: database_from_resource_def Let_def rbind_Inr_iff split: if_splits)
  have "d = join_with ''/'' (take 4 (split_path r))" "\<not> length (split_path r) < 4"
    using assms by (auto simp: database_from_resource_def Let_def rbind_Inr_iff split: if_splits)
  moreover have "split_on CHR ''/'' (join_with ''/'' (take 4 (split_path r))) = take 4 (split_path r)"
    by (rule split_on_join) (auto simp: split_path_def dest!: in_set_takeD split_on_parts_no_sep)
  ultimately show "split_path d = take 4 (split_path r)"
    by (simp add: split_path_def)
qed

lemma validate_document_name_Inr:
  assumes "validate_document_name n = Inr u"
  shows "\<exists>p db rest. split_path n = ''projects'' # p # ''databases'' # db # ''documents'' # rest \<and>
           p \<noteq> [] \<and> db \<noteq> [] \<and> 2 \<le> length rest \<and> even (length rest)"
proof -
  let ?ps = "split_path n"
  have a: "7 \<le> length ?ps" "?ps ! 0 = ''projects''" "?ps ! 1 \<noteq> []" "?ps ! 2 = ''databases''"
    "?ps ! 3 \<noteq> []" "?ps ! 4 = ''documents''" "(length ?ps - 5) mod 2 = 0"
    using assms by (auto simp: validate_document_name_def Let_def split: if_splits)
  obtain p0 p1 p2 p3 p4 rest where ps: "?ps = p0 # p1 # p2 # p3 # p4 # rest"
    using a(1) by (auto simp: numeral_nat Suc_le_length_iff)
  show ?thesis using a unfolding ps
    by (auto simp: numeral_nat even_iff_mod_2_eq_zero)
qed

text \<open>A valid document name lies under the prefix of exactly the database it names.\<close>

lemma document_name_prefix:
  assumes "validate_document_name n = Inr u" "database_from_resource n = Inr d"
  shows "\<exists>r. n = d @ ''/documents/'' @ r"
proof -
  obtain p db rest where ps: "split_path n = ''projects'' # p # ''databases'' # db # ''documents'' # rest"
    and r: "2 \<le> length rest"
    using validate_document_name_Inr[OF assms(1)] by auto
  have d: "split_path d = [''projects'', p, ''databases'', db]"
    using database_from_resource_Inr(2)[OF assms(2)] ps by simp
  have jn: "join_with ''/'' (split_path n) = n" "join_with ''/'' (split_path d) = d"
    by (simp_all add: split_path_def)
  have "rest \<noteq> []" using r by auto
  then have "join_with ''/'' (split_path n) = join_with ''/'' (split_path d) @ ''/documents/'' @ join_with ''/'' rest"
    unfolding ps d by (simp add: join_with_Cons)
  then show ?thesis unfolding jn by blast
qed

subsection \<open>Field paths\<close>

fun field_path_loop ::
  "string \<Rightarrow> string list \<Rightarrow> string \<Rightarrow> bool \<Rightarrow> bool \<Rightarrow> string list res" where
  "field_path_loop [] parts part quoted escape =
     (if quoted \<or> escape \<or> part = [] then Inl (invalid_argument ''invalid field path'')
      else Inr (parts @ [part]))"
| "field_path_loop (ch # cs) parts part quoted escape =
     (if escape then field_path_loop cs parts (part @ [ch]) quoted False
      else if ch = CHR 0x5C \<and> quoted then field_path_loop cs parts part quoted True
      else if ch = CHR 0x60 then field_path_loop cs parts part (\<not> quoted) escape
      else if ch = CHR ''.'' \<and> \<not> quoted then
        (if part = [] then Inl (invalid_argument ''empty field path'')
         else field_path_loop cs (parts @ [part]) [] quoted escape)
      else field_path_loop cs parts (part @ [ch]) quoted escape)"

definition field_path :: "string \<Rightarrow> string list res" where
  "field_path path = field_path_loop path [] [] False False"

lemma field_path_loop_parts:
  "field_path_loop cs parts part q e = Inr ps \<Longrightarrow> [] \<notin> set parts \<Longrightarrow> ps \<noteq> [] \<and> [] \<notin> set ps"
  by (induction cs parts part q e rule: field_path_loop.induct) (auto split: if_splits)

lemma field_path_parts: "field_path s = Inr ps \<Longrightarrow> ps \<noteq> [] \<and> [] \<notin> set ps"
  unfolding field_path_def by (rule field_path_loop_parts) auto

lemma field_path_loop_plain:
  assumes "CHR 0x60 \<notin> set cs"
  shows "(\<exists>e. field_path_loop cs parts part False False = Inl e \<and>
              (\<exists>p qs. split_on (CHR ''.'') cs = p # qs \<and> [] \<in> set ((part @ p) # qs))) \<or>
         (\<exists>p qs. split_on (CHR ''.'') cs = p # qs \<and> [] \<notin> set ((part @ p) # qs) \<and>
            field_path_loop cs parts part False False = Inr (parts @ (part @ p) # qs))"
  using assms
proof (induction cs arbitrary: parts part)
  case (Cons c cs)
  then have c: "c \<noteq> CHR 0x60" and cs: "CHR 0x60 \<notin> set cs" by auto
  show ?case
  proof (cases "c = CHR ''.''")
    case True
    then show ?thesis
      using Cons.IH[OF cs, of "parts @ [part]" "[]"] by (cases "part = []") auto
  next
    case False
    obtain p qs where sp: "split_on (CHR ''.'') cs = p # qs"
      using split_on_not_Nil by (metis list.exhaust)
    show ?thesis
      using Cons.IH[OF cs, of parts "part @ [c]"] c False sp by auto
  qed
qed auto

text \<open>Without backquotes a field path is its dot-separated parts, none of them empty.\<close>

lemma field_path_plain:
  assumes "CHR 0x60 \<notin> set s"
  shows "field_path s = Inr ps \<longleftrightarrow> ps = split_on (CHR ''.'') s \<and> [] \<notin> set ps"
  using field_path_loop_plain[OF assms, of "[]" "[]"] by (auto simp: field_path_def)

subsection \<open>Values along a path\<close>

text \<open>
  The code indexes \<open>parts[0]\<close>; a field path is never empty (\<open>field_path_parts\<close>), so the
  equations for the empty path are never reached from the program.
\<close>

fun nested_get :: "fields \<Rightarrow> string list \<Rightarrow> fvalue option" where
  "nested_get m [] = None"
| "nested_get m (p # ps) =
     (case sm_get m p of
        None \<Rightarrow> None
      | Some v \<Rightarrow>
          (if ps = [] then Some v
           else (case v of MapValue sub \<Rightarrow> nested_get sub ps | _ \<Rightarrow> None)))"

fun nested_set :: "fields \<Rightarrow> string list \<Rightarrow> fvalue option \<Rightarrow> fields" where
  "nested_set m [] v = m"
| "nested_set m (p # ps) v =
     (if ps = [] then (case v of Some x \<Rightarrow> sm_put p x m | None \<Rightarrow> sm_del p m)
      else if v = None \<and> \<not> sm_has m p then m
      else (case sm_get m p of
              Some (MapValue sub) \<Rightarrow> sm_put p (MapValue (nested_set sub ps v)) m
            | _ \<Rightarrow> (if v = None then m else sm_put p (MapValue (nested_set [] ps v)) m)))"

text \<open>The map that stands at a name, empty when there is none: the common form of both steps.\<close>

definition submap :: "fields \<Rightarrow> string \<Rightarrow> fields" where
  "submap m p = (case sm_get m p of Some (MapValue sub) \<Rightarrow> sub | _ \<Rightarrow> [])"

lemma nested_get_empty [simp]: "nested_get [] ps = None"
  by (cases ps) auto

lemma nested_get_Cons: "ps \<noteq> [] \<Longrightarrow> nested_get m (p # ps) = nested_get (submap m p) ps"
  by (auto simp: submap_def split: option.splits fvalue.splits)

lemma fields_wf_empty [simp]: "fields_wf []"
  by (simp add: fields_wf_def)

lemma fields_wf_sm: "fields_wf m \<Longrightarrow> sm_wf m"
  by (simp add: fields_wf_def)

lemma fields_wf_get: "fields_wf m \<Longrightarrow> sm_get m p = Some v \<Longrightarrow> value_wf v"
  by (auto simp: fields_wf_def list_all_iff dest: sm_get_in)

lemma value_wf_map [simp]: "value_wf (MapValue m) = fields_wf m"
  by (simp add: fields_wf_def)

declare value_wf.simps(2) [simp del]

lemma fields_wf_submap [simp]: "fields_wf m \<Longrightarrow> fields_wf (submap m p)"
  using fields_wf_get[of m p] by (auto simp: submap_def split: option.splits fvalue.splits)

lemma fields_wf_put: "fields_wf m \<Longrightarrow> value_wf v \<Longrightarrow> fields_wf (sm_put p v m)"
  by (auto simp: fields_wf_def list_all_iff set_sm_put)

lemma fields_wf_del: "fields_wf m \<Longrightarrow> fields_wf (sm_del p m)"
  by (auto simp: fields_wf_def list_all_iff)

lemma nested_get_wf: "fields_wf m \<Longrightarrow> nested_get m ps = Some v \<Longrightarrow> value_wf v"
proof (induction ps arbitrary: m)
  case (Cons p ps)
  show ?case
  proof (cases "ps = []")
    case True
    then show ?thesis using Cons.prems fields_wf_get[OF Cons.prems(1), of p]
      by (auto split: option.splits)
  next
    case False
    then show ?thesis using Cons.prems Cons.IH[of "submap m p"]
      by (simp add: nested_get_Cons del: nested_get.simps)
  qed
qed simp

text \<open>
  One step of a write: unless it deletes below a name that holds no map, it replaces the map
  at the name by the written one.
\<close>

lemma nested_set_Cons:
  "ps \<noteq> [] \<Longrightarrow> nested_set m (p # ps) v =
     (if v = None \<and> (\<forall>sub. sm_get m p \<noteq> Some (MapValue sub)) then m
      else sm_put p (MapValue (nested_set (submap m p) ps v)) m)"
  by (auto simp: submap_def sm_has_def split: option.splits fvalue.splits)

lemma fields_wf_nested_set:
  "fields_wf m \<Longrightarrow> (\<And>x. v = Some x \<Longrightarrow> value_wf x) \<Longrightarrow> fields_wf (nested_set m ps v)"
proof (induction ps arbitrary: m)
  case (Cons p ps)
  have sub: "fields_wf (nested_set s ps v)" if "fields_wf s" for s
    using Cons.IH[OF that] Cons.prems(2) by blast
  show ?case
  proof (cases "ps = []")
    case True
    then show ?thesis using Cons.prems
      by (auto intro!: fields_wf_put fields_wf_del split: option.splits)
  next
    case False
    then show ?thesis using Cons.prems sub[of "submap m p"]
      by (auto simp: nested_set_Cons fields_wf_put simp del: nested_set.simps)
  qed
qed simp

lemma submap_put [simp]:
  "sm_wf m \<Longrightarrow> submap (sm_put p v m) q = (if q = p then (case v of MapValue s \<Rightarrow> s | _ \<Rightarrow> []) else submap m q)"
  by (auto simp: submap_def split: fvalue.splits)

lemma submap_nested_set:
  assumes "sm_wf m" "ps \<noteq> []"
  shows "submap (nested_set m (p # ps) v) q =
         (if q = p then nested_set (submap m p) ps v else submap m q)"
proof -
  have "nested_set [] ps None = []" using assms(2) by (cases ps) (auto simp: sm_del_def sm_has_def)
  moreover have "submap m p = []" if "\<forall>sub. sm_get m p \<noteq> Some (MapValue sub)"
    using that by (auto simp: submap_def split: option.splits fvalue.splits)
  ultimately show ?thesis
    using assms by (auto simp: nested_set_Cons simp del: nested_set.simps)
qed

lemma nested_get_set:
  "fields_wf m \<Longrightarrow> ps \<noteq> [] \<Longrightarrow> nested_get (nested_set m ps v) ps = v"
proof (induction ps arbitrary: m)
  case (Cons p ps)
  show ?case
  proof (cases "ps = []")
    case True
    then show ?thesis using fields_wf_sm[OF Cons.prems(1)] by (cases v) auto
  next
    case False
    then show ?thesis
      using Cons.IH[of "submap m p"] Cons.prems fields_wf_sm[OF Cons.prems(1)]
      by (simp add: nested_get_Cons submap_nested_set del: nested_set.simps nested_get.simps)
  qed
qed simp

lemma nested_get_set_disjoint:
  "fields_wf m \<Longrightarrow> \<not> prefix ps qs \<Longrightarrow> \<not> prefix qs ps \<Longrightarrow>
   nested_get (nested_set m ps v) qs = nested_get m qs"
proof (induction ps arbitrary: m qs)
  case (Cons p ps)
  obtain q qt where qs: "qs = q # qt" using Cons.prems(3) by (cases qs) auto
  note wf = fields_wf_sm[OF Cons.prems(1)]
  consider (other) "q \<noteq> p" | (below) "q = p" "ps \<noteq> []" "qt \<noteq> []"
    using Cons.prems(2,3) qs by (cases "q = p"; cases ps; cases qt) auto
  then show ?case
  proof cases
    case other
    have "sm_get (nested_set m (p # ps) v) q = sm_get m q"
      using other wf by (auto split: option.splits fvalue.splits)
    then show ?thesis by (simp add: qs)
  next
    case below
    have "\<not> prefix ps qt" "\<not> prefix qt ps" using Cons.prems(2,3) qs below by auto
    then show ?thesis
      using Cons.IH[of "submap m p" qt] Cons.prems(1) below wf
      by (simp add: qs nested_get_Cons submap_nested_set del: nested_set.simps nested_get.simps)
  qed
qed simp

subsection \<open>The contract of path-addressed storage\<close>

text \<open>
  What the update of a document under a mask relies on: reading back what was written, and
  independence of paths of which neither is a prefix of the other.
\<close>

definition disjoint_paths :: "string list \<Rightarrow> string list \<Rightarrow> bool" where
  "disjoint_paths p q = (\<not> prefix p q \<and> \<not> prefix q p)"

lemma disjoint_paths_sym: "disjoint_paths p q \<longleftrightarrow> disjoint_paths q p"
  by (auto simp: disjoint_paths_def)

locale path_store =
  fixes get :: "'m \<Rightarrow> string list \<Rightarrow> 'v option"
    and set_at :: "'m \<Rightarrow> string list \<Rightarrow> 'v option \<Rightarrow> 'm"
    and store_wf :: "'m \<Rightarrow> bool"
    and val_wf :: "'v \<Rightarrow> bool"
  assumes wf_set: "store_wf m \<Longrightarrow> (\<And>x. v = Some x \<Longrightarrow> val_wf x) \<Longrightarrow> store_wf (set_at m p v)"
    and wf_get: "store_wf m \<Longrightarrow> get m p = Some x \<Longrightarrow> val_wf x"
    and get_set: "store_wf m \<Longrightarrow> p \<noteq> [] \<Longrightarrow> get (set_at m p v) p = v"
    and get_set_disjoint: "store_wf m \<Longrightarrow> disjoint_paths p q \<Longrightarrow> get (set_at m p v) q = get m q"
begin

text \<open>Copying a list of paths from one store to another.\<close>

definition copy_paths :: "'m \<Rightarrow> string list list \<Rightarrow> 'm \<Rightarrow> 'm" where
  "copy_paths src ps m = fold (\<lambda>p m. set_at m p (get src p)) ps m"

lemma copy_paths_simps [simp]:
  "copy_paths src [] m = m"
  "copy_paths src (p # ps) m = copy_paths src ps (set_at m p (get src p))"
  by (auto simp: copy_paths_def)

lemma wf_step: "store_wf src \<Longrightarrow> store_wf m \<Longrightarrow> store_wf (set_at m p (get src p))"
  by (intro wf_set) (auto intro: wf_get)

lemma wf_copy: "store_wf src \<Longrightarrow> store_wf m \<Longrightarrow> store_wf (copy_paths src ps m)"
  by (induction ps arbitrary: m) (auto simp: wf_step)

lemma get_copy_other:
  "store_wf src \<Longrightarrow> store_wf m \<Longrightarrow> \<forall>p \<in> set ps. disjoint_paths p q \<Longrightarrow>
   get (copy_paths src ps m) q = get m q"
  by (induction ps arbitrary: m) (auto simp: wf_step get_set_disjoint)

lemma get_copy_in:
  "store_wf src \<Longrightarrow> store_wf m \<Longrightarrow> sorted_wrt disjoint_paths ps \<Longrightarrow> [] \<notin> set ps \<Longrightarrow>
   q \<in> set ps \<Longrightarrow> get (copy_paths src ps m) q = get src q"
proof (induction ps arbitrary: m)
  case (Cons p ps)
  let ?m = "set_at m p (get src p)"
  have wf: "store_wf ?m" using Cons.prems by (simp add: wf_step)
  show ?case
  proof (cases "q = p")
    case True
    have "get (copy_paths src ps ?m) q = get ?m q"
      using Cons.prems True wf by (intro get_copy_other) (auto simp: disjoint_paths_sym)
    then show ?thesis using Cons.prems True by (auto simp: get_set)
  next
    case False
    then show ?thesis using Cons.IH[OF Cons.prems(1) wf] Cons.prems by auto
  qed
qed simp

end

interpretation ns: path_store nested_get nested_set fields_wf value_wf
proof
  show "fields_wf (nested_set m p v)" if "fields_wf m" "\<And>x. v = Some x \<Longrightarrow> value_wf x" for m p v
    using that by (rule fields_wf_nested_set)
  show "value_wf x" if "fields_wf m" "nested_get m p = Some x" for m p x
    using that by (rule nested_get_wf)
  show "nested_get (nested_set m p v) p = v" if "fields_wf m" "p \<noteq> []" for m p v
    using that by (rule nested_get_set)
  show "nested_get (nested_set m p v) q = nested_get m q"
    if "fields_wf m" "disjoint_paths p q" for m p q v
    using that by (intro nested_get_set_disjoint) (auto simp: disjoint_paths_def)
qed

subsection \<open>Merging a document\<close>

text \<open>\<open>a.starts_with(b)\<close> on vectors of names.\<close>

definition path_starts_with :: "string list \<Rightarrow> string list \<Rightarrow> bool" where
  "path_starts_with a b = (take (length b) a = b)"

fun overlapping :: "string list list \<Rightarrow> bool" where
  "overlapping [] = False"
| "overlapping (a # ps) =
     (list_ex (\<lambda>b. path_starts_with a b \<or> path_starts_with b a) ps \<or> overlapping ps)"

definition merge_document ::
  "document option \<Rightarrow> document \<Rightarrow> string list option \<Rightarrow> document res" where
  "merge_document existing incoming update_mask =
     (case update_mask of
        None \<Rightarrow> Inr incoming
      | Some field_paths \<Rightarrow>
          rbind (rcollect field_path field_paths) (\<lambda>paths.
            if overlapping paths then Inl (invalid_argument ''overlapping update mask paths'')
            else (let fields0 = (case existing of Some d \<Rightarrow> doc_fields d | None \<Rightarrow> []);
                      fields1 = fold (\<lambda>path m. nested_set m path
                                   (nested_get (doc_fields incoming) path)) paths fields0
                  in Inr (incoming\<lparr>doc_fields := fields1\<rparr>))))"

definition field_value :: "document \<Rightarrow> string \<Rightarrow> fvalue option" where
  "field_value doc path =
     (if path = ''__name__'' then Some (ReferenceValue (doc_name doc))
      else (case field_path path of Inl _ \<Rightarrow> None | Inr ps \<Rightarrow> nested_get (doc_fields doc) ps))"

lemma path_starts_with_iff: "path_starts_with a b \<longleftrightarrow> prefix b a"
  by (metis append_take_drop_id path_starts_with_def prefix_def take_is_prefix append_eq_conv_conj)

lemma overlapping_iff: "\<not> overlapping ps \<longleftrightarrow> sorted_wrt disjoint_paths ps"
  by (induction ps) (auto simp: list_ex_iff path_starts_with_iff disjoint_paths_def)

lemma merge_document_Inr:
  assumes "merge_document ex inc (Some msk) = Inr d"
  obtains paths where "rcollect field_path msk = Inr paths" "sorted_wrt disjoint_paths paths"
    "[] \<notin> set paths"
    "d = inc\<lparr>doc_fields := ns.copy_paths (doc_fields inc) paths
                 (case ex of Some e \<Rightarrow> doc_fields e | None \<Rightarrow> [])\<rparr>"
proof -
  obtain paths where p: "rcollect field_path msk = Inr paths" "\<not> overlapping paths"
    and d: "d = inc\<lparr>doc_fields := ns.copy_paths (doc_fields inc) paths
                 (case ex of Some e \<Rightarrow> doc_fields e | None \<Rightarrow> [])\<rparr>"
    using assms by (auto simp: merge_document_def rbind_Inr_iff Let_def ns.copy_paths_def split: if_splits)
  have "[] \<notin> set paths"
  proof
    assume "[] \<in> set paths"
    then obtain m where "field_path m = Inr []"
      using p(1) by (auto simp: rcollect_Inr_iff list_all2_conv_all_nth in_set_conv_nth)
    then show False using field_path_parts by blast
  qed
  then show thesis using that p d by (simp add: overlapping_iff)
qed

subsection \<open>Properties\<close>

text \<open>
  Property C8.  A document merged under an update mask has, at every path of the mask, what
  the incoming document has there (a path it lacks is deleted), and at every path that
  neither contains nor lies inside a masked path, what the stored document had.
\<close>

theorem merge_document_masked:
  assumes "merge_document existing incoming (Some masks) = Inr merged"
    and "fields_wf (doc_fields incoming)"
    and "fields_wf (case existing of Some e \<Rightarrow> doc_fields e | None \<Rightarrow> [])"
  shows "(\<forall>m \<in> set masks. \<exists>p. field_path m = Inr p \<and>
            nested_get (doc_fields merged) p = nested_get (doc_fields incoming) p) \<and>
         (\<forall>q. (\<forall>m \<in> set masks. \<forall>p. field_path m = Inr p \<longrightarrow> disjoint_paths p q) \<longrightarrow>
            nested_get (doc_fields merged) q =
            nested_get (case existing of Some e \<Rightarrow> doc_fields e | None \<Rightarrow> []) q)"
proof -
  obtain paths where p: "rcollect field_path masks = Inr paths" "sorted_wrt disjoint_paths paths"
    "[] \<notin> set paths"
    and d: "doc_fields merged = ns.copy_paths (doc_fields incoming) paths
              (case existing of Some e \<Rightarrow> doc_fields e | None \<Rightarrow> [])"
    using assms(1) by (rule merge_document_Inr) auto
  have a2: "list_all2 (\<lambda>m q. field_path m = Inr q) masks paths"
    using p(1) by (simp add: rcollect_Inr_iff)
  have in1: "\<exists>q \<in> set paths. field_path m = Inr q" if "m \<in> set masks" for m
    using a2 that by (induction rule: list_all2_induct) auto
  have in2: "\<exists>m \<in> set masks. field_path m = Inr q" if "q \<in> set paths" for q
    using a2 that by (induction rule: list_all2_induct) auto
  show ?thesis
    using in1 in2 ns.get_copy_in[OF assms(2,3) p(2,3)] ns.get_copy_other[OF assms(2,3)]
    unfolding d by (intro conjI) (metis, metis)
qed

lemma merge_document_masked_witness:
  "\<exists>d. merge_document
      (Some \<lparr>doc_name = ''n'', doc_fields = [(''a'', MapValue [(''x'', IntegerValue 1)]), (''b'', NullValue 0)],
             create_time = None, update_time = None\<rparr>)
      \<lparr>doc_name = ''n'', doc_fields = [(''a'', MapValue [(''y'', IntegerValue 2)])],
       create_time = None, update_time = None\<rparr>
      (Some [''a.y'', ''b'']) = Inr d \<and>
      nested_get (doc_fields d) [''a'', ''x''] = Some (IntegerValue 1) \<and>
      nested_get (doc_fields d) [''a'', ''y''] = Some (IntegerValue 2)"
  (is "\<exists>d. merge_document (Some ?e) ?i (Some ?ms) = Inr d \<and> _ d")
proof -
  have fp: "field_path ''a.y'' = Inr [''a'', ''y'']" "field_path ''b'' = Inr [''b'']"
    by (simp_all add: field_path_def)
  obtain d where d: "merge_document (Some ?e) ?i (Some ?ms) = Inr d"
    by (simp add: merge_document_def fp path_starts_with_def)
  have wf: "fields_wf (doc_fields ?i)" "fields_wf (case Some ?e of Some e \<Rightarrow> doc_fields e | None \<Rightarrow> [])"
    by (simp_all add: fields_wf_def)
  show ?thesis
    using d merge_document_masked[OF d wf]
    by (intro exI[of _ d]) (auto simp: fp disjoint_paths_def dest: spec[of _ "[''a'', ''x'']"])
qed

text \<open>
  The field path parser never yields an empty path or an empty segment, and on
  input without backquotes it is exactly the split at dots.
\<close>

theorem field_path_segments:
  "(case field_path s of
      Inl e \<Rightarrow> code e = InvalidArgument
    | Inr ps \<Rightarrow> ps \<noteq> [] \<and> [] \<notin> set ps) \<and>
   (CHR 0x60 \<notin> set s \<longrightarrow>
      (field_path s = Inr ps \<longleftrightarrow> ps = split_on (CHR ''.'') s \<and> [] \<notin> set ps))"
proof -
  have err: "field_path_loop cs parts part q e = Inl st \<Longrightarrow> code st = InvalidArgument"
    for cs parts part q e st
    by (induction cs parts part q e rule: field_path_loop.induct) (auto split: if_splits)
  have "case field_path s of Inl e \<Rightarrow> code e = InvalidArgument | Inr ps \<Rightarrow> ps \<noteq> [] \<and> [] \<notin> set ps"
    using err field_path_parts[of s] by (auto simp: field_path_def split: sum.splits)
  then show ?thesis using field_path_plain[of s ps] by blast
qed

lemma field_path_segments_witness:
  "field_path ''profile.name'' = Inr [''profile'', ''name'']"
  using field_path_segments[of "''profile.name''" "[''profile'', ''name'']"] by simp

end
