(* ===== verification/Batch.thy ===== *)
theory Batch
  imports Smap
begin

text \<open>
  Sequences of keyed writes on an ordered map: the all-or-nothing loop of a commit, the
  continue-on-error loop of a batch, and the contract \<open>keyed_write\<close> of a write that reads and
  changes only the entry of its own key.  Under the contract a batch may run on a copy that
  holds only the named entries, which is what the persistent backends do.
\<close>

fun run_all :: "('m \<Rightarrow> 'w \<Rightarrow> 'e + 'm \<times> 'r) \<Rightarrow> 'm \<Rightarrow> 'w list \<Rightarrow> 'e + 'm \<times> 'r list" where
  "run_all app m [] = Inr (m, [])"
| "run_all app m (w # ws) =
     rbind (app m w) (\<lambda>(m', r). rbind (run_all app m' ws) (\<lambda>(m'', rs). Inr (m'', r # rs)))"

fun run_each :: "('m \<Rightarrow> 'w \<Rightarrow> 'e + 'm \<times> 'r) \<Rightarrow> 'm \<Rightarrow> 'w list \<Rightarrow> 'm \<times> ('e + 'r) list" where
  "run_each app m [] = (m, [])"
| "run_each app m (w # ws) =
     (case app m w of
        Inl e \<Rightarrow> (case run_each app m ws of (m', rs) \<Rightarrow> (m', Inl e # rs))
      | Inr (m1, r) \<Rightarrow> (case run_each app m1 ws of (m', rs) \<Rightarrow> (m', Inr r # rs)))"

lemma run_all_length: "run_all app m ws = Inr (m', rs) \<Longrightarrow> length rs = length ws"
  by (induction ws arbitrary: m m' rs) (auto simp: rbind_Inr_iff)

lemma run_each_length: "length (snd (run_each app m ws)) = length ws"
proof (induction ws arbitrary: m)
  case (Cons w ws)
  show ?case using Cons.IH[of m] Cons.IH[of "fst (projr (app m w))"]
    by (cases "app m w") (auto simp: split_beta)
qed simp

text \<open>When no write fails the two loops agree.\<close>

lemma run_all_each:
  "run_all app m ws = Inr (m', rs) \<Longrightarrow> run_each app m ws = (m', map Inr rs)"
  by (induction ws arbitrary: m m' rs) (auto simp: rbind_Inr_iff)

lemma run_all_invariant:
  assumes "\<And>m w m' r. I m \<Longrightarrow> w \<in> set ws \<Longrightarrow> app m w = Inr (m', r) \<Longrightarrow> I m'"
  shows "I m \<Longrightarrow> run_all app m ws = Inr (m', rs) \<Longrightarrow> I m'"
  using assms
proof (induction ws arbitrary: m rs)
  case (Cons w ws)
  obtain m1 r rs' where s: "app m w = Inr (m1, r)" "run_all app m1 ws = Inr (m', rs')"
    using Cons.prems(2) by (auto simp: rbind_Inr_iff)
  have m1: "I m1" using Cons.prems(3)[OF Cons.prems(1) _ s(1)] by simp
  show ?case
  proof (rule Cons.IH[OF m1 s(2)])
    fix n v n' q assume "I n" "v \<in> set ws" "app n v = Inr (n', q)"
    then show "I n'" by (intro Cons.prems(3)[of n v n' q]) simp_all
  qed
qed simp

lemma run_each_invariant:
  assumes "\<And>m w m' r. I m \<Longrightarrow> w \<in> set ws \<Longrightarrow> app m w = Inr (m', r) \<Longrightarrow> I m'"
  shows "I m \<Longrightarrow> I (fst (run_each app m ws))"
  using assms
proof (induction ws arbitrary: m)
  case (Cons w ws)
  have IH: "I (fst (run_each app n ws))" if "I n" for n
  proof (rule Cons.IH[OF that])
    fix n v n' q assume "I n" "v \<in> set ws" "app n v = Inr (n', q)"
    then show "I n'" by (intro Cons.prems(2)[of n v n' q]) simp_all
  qed
  show ?case
  proof (cases "app m w")
    case (Inl e)
    then show ?thesis using IH[OF Cons.prems(1)] by (simp add: split_beta)
  next
    case (Inr x)
    then obtain m1 r where x: "app m w = Inr (m1, r)" by (cases x) auto
    have "I m1" using Cons.prems(2)[OF Cons.prems(1) _ x] by simp
    from IH[OF this] show ?thesis by (simp add: split_beta x)
  qed
qed simp

text \<open>Two maps agree on a set of keys.\<close>

definition agree_on :: "'k set \<Rightarrow> ('k, 'v) smap \<Rightarrow> ('k, 'v) smap \<Rightarrow> bool" where
  "agree_on K m n = (\<forall>k \<in> K. sm_get m k = sm_get n k)"

lemma agree_on_refl [simp]: "agree_on K m m"
  by (simp add: agree_on_def)

text \<open>The part of a map with the given keys.\<close>

definition restrict_keys :: "'k list \<Rightarrow> ('k, 'v) smap \<Rightarrow> ('k, 'v) smap" where
  "restrict_keys ks m = filter (\<lambda>e. fst e \<in> set ks) m"

lemma restrict_keys_wf: "sm_wf m \<Longrightarrow> sm_wf (restrict_keys ks m)"
  by (simp add: restrict_keys_def sm_wf_filter)

lemma sm_get_restrict: "sm_get (restrict_keys ks m) k = (if k \<in> set ks then sm_get m k else None)"
proof (induction m)
  case (Cons e m)
  then show ?case by (cases e) (auto simp: restrict_keys_def)
qed (simp add: restrict_keys_def)

lemma agree_on_restrict: "agree_on (set ks) m (restrict_keys ks m)"
  by (simp add: agree_on_def sm_get_restrict)

text \<open>Writing the entries with the given keys of one map back into another.\<close>

definition write_back :: "'k::linorder list \<Rightarrow> ('k, 'v) smap \<Rightarrow> ('k, 'v) smap \<Rightarrow> ('k, 'v) smap" where
  "write_back ks src m = fold (\<lambda>k m. smap.write_entry (k, sm_get src k) m) ks m"

lemma write_back_simps [simp]:
  "write_back [] src m = m"
  "write_back (k # ks) src m = write_back ks src (smap.write_entry (k, sm_get src k) m)"
  by (auto simp: write_back_def)

lemma write_back_wf: "sm_wf m \<Longrightarrow> sm_wf (write_back ks src m)"
  by (induction ks arbitrary: m) (auto simp: smap.wf_write)

lemma sm_get_write_back:
  "sm_wf m \<Longrightarrow> sm_get (write_back ks src m) k = (if k \<in> set ks then sm_get src k else sm_get m k)"
  by (induction ks arbitrary: m) (auto simp: smap.wf_write smap.get_write)

locale keyed_write =
  fixes app :: "('k::linorder, 'v) smap \<Rightarrow> 'w \<Rightarrow> 'e + ('k, 'v) smap \<times> 'r"
    and key :: "'w \<Rightarrow> 'k option"
  assumes app_wf: "sm_wf m \<Longrightarrow> app m w = Inr (m', r) \<Longrightarrow> sm_wf m'"
    and app_frame: "sm_wf m \<Longrightarrow> app m w = Inr (m', r) \<Longrightarrow> key w \<noteq> Some l \<Longrightarrow> sm_get m' l = sm_get m l"
    and app_error: "sm_wf m \<Longrightarrow> sm_wf n \<Longrightarrow> (\<And>k. key w = Some k \<Longrightarrow> sm_get m k = sm_get n k) \<Longrightarrow>
          app m w = Inl e \<Longrightarrow> app n w = Inl e"
    and app_local: "sm_wf m \<Longrightarrow> sm_wf n \<Longrightarrow> (\<And>k. key w = Some k \<Longrightarrow> sm_get m k = sm_get n k) \<Longrightarrow>
          app m w = Inr (m', r) \<Longrightarrow>
          \<exists>n'. app n w = Inr (n', r) \<and> (\<forall>k. key w = Some k \<longrightarrow> sm_get m' k = sm_get n' k)"
begin

lemma app_agree:
  assumes "sm_wf m" "sm_wf n" "agree_on K m n" "set_option (key w) \<subseteq> K" "app m w = Inr (m', r)"
  shows "\<exists>n'. app n w = Inr (n', r) \<and> agree_on K m' n'"
proof -
  have loc: "\<And>k. key w = Some k \<Longrightarrow> sm_get m k = sm_get n k"
    using assms(3,4) by (auto simp: agree_on_def)
  obtain n' where n: "app n w = Inr (n', r)" "\<forall>k. key w = Some k \<longrightarrow> sm_get m' k = sm_get n' k"
    using app_local[OF assms(1,2) loc assms(5)] by blast
  have "sm_get m' k = sm_get n' k" if "k \<in> K" for k
  proof (cases "key w = Some k")
    case False
    then show ?thesis
      using that assms(3) app_frame[OF assms(1,5) False] app_frame[OF assms(2) n(1) False]
      by (simp add: agree_on_def)
  qed (use n in auto)
  then show ?thesis using n by (auto simp: agree_on_def)
qed

text \<open>Both loops give the same answers on maps that agree on the written keys.\<close>

lemma run_all_agree:
  assumes "sm_wf m" "sm_wf n" "agree_on K m n" "(\<Union>w \<in> set ws. set_option (key w)) \<subseteq> K"
  shows "case run_all app m ws of
           Inl e \<Rightarrow> run_all app n ws = Inl e
         | Inr (m', rs) \<Rightarrow> \<exists>n'. run_all app n ws = Inr (n', rs) \<and> agree_on K m' n'"
  using assms
proof (induction ws arbitrary: m n)
  case (Cons w ws)
  show ?case
  proof (cases "app m w")
    case (Inl e)
    have "app n w = Inl e"
      using Cons.prems Inl by (intro app_error[of m n]) (auto simp: agree_on_def)
    then show ?thesis using Inl by simp
  next
    case (Inr x)
    then obtain m1 r where x: "app m w = Inr (m1, r)" by (cases x) auto
    then obtain n1 where n1: "app n w = Inr (n1, r)" "agree_on K m1 n1"
      using app_agree[of m n K w] Cons.prems by auto
    have "sm_wf m1" "sm_wf n1" using app_wf x n1(1) Cons.prems by blast+
    then have "case run_all app m1 ws of
           Inl e \<Rightarrow> run_all app n1 ws = Inl e
         | Inr (m', rs) \<Rightarrow> \<exists>n'. run_all app n1 ws = Inr (n', rs) \<and> agree_on K m' n'"
      using Cons.IH[of m1 n1] n1 Cons.prems(4) by auto
    then show ?thesis using x n1 by (cases "run_all app m1 ws") (auto split: prod.splits)
  qed
qed simp

lemma run_each_agree:
  assumes "sm_wf m" "sm_wf n" "agree_on K m n" "(\<Union>w \<in> set ws. set_option (key w)) \<subseteq> K"
  shows "snd (run_each app m ws) = snd (run_each app n ws) \<and>
         agree_on K (fst (run_each app m ws)) (fst (run_each app n ws))"
  using assms
proof (induction ws arbitrary: m n)
  case (Cons w ws)
  show ?case
  proof (cases "app m w")
    case (Inl e)
    have "app n w = Inl e"
      using Cons.prems Inl by (intro app_error[of m n]) (auto simp: agree_on_def)
    then show ?thesis using Inl Cons.IH[of m n] Cons.prems by (auto split: prod.splits)
  next
    case (Inr x)
    then obtain m1 r where x: "app m w = Inr (m1, r)" by (cases x) auto
    then obtain n1 where n1: "app n w = Inr (n1, r)" "agree_on K m1 n1"
      using app_agree[of m n K w] Cons.prems by auto
    have "sm_wf m1" "sm_wf n1" using app_wf x n1(1) Cons.prems by blast+
    then show ?thesis
      using x n1 Cons.IH[of m1 n1] Cons.prems(4) by (auto split: prod.splits)
  qed
qed simp

lemma run_all_frame:
  "sm_wf m \<Longrightarrow> run_all app m ws = Inr (m', rs) \<Longrightarrow> k \<notin> (\<Union>w \<in> set ws. set_option (key w)) \<Longrightarrow>
   sm_wf m' \<and> sm_get m' k = sm_get m k"
proof (induction ws arbitrary: m rs)
  case (Cons w ws)
  then obtain m1 r rs' where s: "app m w = Inr (m1, r)" "run_all app m1 ws = Inr (m', rs')"
    by (auto simp: rbind_Inr_iff)
  then show ?case using Cons.IH[OF app_wf[OF Cons.prems(1) s(1)] s(2)] Cons.prems
      app_frame[OF Cons.prems(1) s(1), of k] by auto
qed simp

lemma run_each_frame:
  "sm_wf m \<Longrightarrow> k \<notin> (\<Union>w \<in> set ws. set_option (key w)) \<Longrightarrow>
   sm_wf (fst (run_each app m ws)) \<and> sm_get (fst (run_each app m ws)) k = sm_get m k"
proof (induction ws arbitrary: m)
  case (Cons w ws)
  show ?case
  proof (cases "app m w")
    case (Inl e)
    then show ?thesis using Cons.IH[of m] Cons.prems by (auto split: prod.splits)
  next
    case (Inr x)
    then obtain m1 r where x: "app m w = Inr (m1, r)" by (cases x) auto
    then show ?thesis
      using Cons.IH[OF app_wf[OF Cons.prems(1) x]] Cons.prems app_frame[OF Cons.prems(1) x, of k]
      by (auto split: prod.splits)
  qed
qed simp

text \<open>Running on the named entries only and writing them back is running on the whole map.\<close>

lemma run_all_restricted:
  assumes "sm_wf m" "(\<Union>w \<in> set ws. set_option (key w)) \<subseteq> set ks"
  shows "run_all app m ws =
     rbind (run_all app (restrict_keys ks m) ws) (\<lambda>(sub, rs). Inr (write_back ks sub m, rs))"
proof -
  have ag: "case run_all app m ws of
           Inl e \<Rightarrow> run_all app (restrict_keys ks m) ws = Inl e
         | Inr (m', rs) \<Rightarrow> \<exists>n'. run_all app (restrict_keys ks m) ws = Inr (n', rs) \<and> agree_on (set ks) m' n'"
    using assms agree_on_restrict by (intro run_all_agree restrict_keys_wf) auto
  show ?thesis
  proof (cases "run_all app m ws")
    case (Inl e)
    then show ?thesis using ag by simp
  next
    case (Inr x)
    obtain m' rs where x: "run_all app m ws = Inr (m', rs)" using Inr by (cases x) auto
    then obtain n' where n: "run_all app (restrict_keys ks m) ws = Inr (n', rs)" "agree_on (set ks) m' n'"
      using ag by auto
    have wf: "sm_wf m'" by (rule run_all_invariant[where I = sm_wf, OF _ assms(1) x]) (rule app_wf)
    have fr: "sm_get m' k = sm_get m k" if "k \<notin> set ks" for k
      using run_all_frame[OF assms(1) x, of k] that assms(2) by auto
    have "m' = write_back ks n' m"
      using wf fr n(2) assms(1)
      by (intro sm_ext) (auto simp: write_back_wf sm_get_write_back agree_on_def)
    then show ?thesis using x n by simp
  qed
qed

lemma run_each_restricted:
  assumes "sm_wf m" "(\<Union>w \<in> set ws. set_option (key w)) \<subseteq> set ks"
  shows "run_each app m ws =
     (let (sub, rs) = run_each app (restrict_keys ks m) ws in (write_back ks sub m, rs))"
proof -
  have ag: "snd (run_each app m ws) = snd (run_each app (restrict_keys ks m) ws) \<and>
      agree_on (set ks) (fst (run_each app m ws)) (fst (run_each app (restrict_keys ks m) ws))"
    using assms agree_on_restrict by (intro run_each_agree restrict_keys_wf) auto
  have wf: "sm_wf (fst (run_each app m ws))"
    by (rule run_each_invariant[where I = sm_wf, OF _ assms(1)]) (rule app_wf)
  have fr: "sm_get (fst (run_each app m ws)) k = sm_get m k" if "k \<notin> set ks" for k
  proof -
    have "k \<notin> (\<Union>w \<in> set ws. set_option (key w))" using that assms(2) by auto
    from run_each_frame[OF assms(1) this] show ?thesis by simp
  qed
  have "fst (run_each app m ws) = write_back ks (fst (run_each app (restrict_keys ks m) ws)) m"
    using wf fr ag assms(1)
    by (intro sm_ext) (auto simp: write_back_wf sm_get_write_back agree_on_def)
  then show ?thesis using ag by (auto simp: Let_def split_beta prod_eq_iff)
qed

end

end
