(* ===== verification/Firestore_Write.thy ===== *)
theory Firestore_Write
  imports Firestore_Path Batch
begin

text \<open>
  One write of \<open>src/src/firestore.rs\<close>: preconditions, the field transforms with saturating
  and mixed-type increments, and \<open>apply_write\<close> on the map of documents, with the invariant
  of that map.
\<close>

subsection \<open>Data\<close>

datatype condition_type = Exists bool | UpdateTime timestamp

datatype transform_type = Increment fvalue | AppendMissingElements "fvalue list"
  | SetToServerValue int | Maximum fvalue | Minimum fvalue | RemoveAllFromArray "fvalue list"

record field_transform =
  ft_path :: string
  ft_type :: "transform_type option"

text \<open>A document transform names its document; the program rejects it without looking further.\<close>

datatype operation = Update document | Delete string | Transform string

record fwrite =
  operation :: "operation option"
  write_mask :: "string list option"
  update_transforms :: "field_transform list"
  current_document :: "condition_type option option"

record write_result =
  wr_update_time :: "timestamp option"
  transform_results :: "fvalue list"

type_synonym documents = "(string, document) smap"

definition request_time_value :: int where "request_time_value = 1"

subsection \<open>Preconditions\<close>

definition check_precondition :: "document option \<Rightarrow> condition_type option option \<Rightarrow> unit res" where
  "check_precondition existing condition =
     (case Option.bind condition id of
        None \<Rightarrow> Inr ()
      | Some (Exists expected) \<Rightarrow>
          guard (expected = (existing \<noteq> None))
            (failed_precondition ''document existence precondition failed'')
      | Some (UpdateTime expected) \<Rightarrow>
          guard (Option.bind existing update_time = Some expected)
            (failed_precondition ''document update_time precondition failed''))"

subsection \<open>Transforms\<close>

definition numeric_increment :: "fvalue option \<Rightarrow> fvalue \<Rightarrow> fvalue res" where
  "numeric_increment current operand =
     (case operand of
        NoValue \<Rightarrow> Inl (invalid_argument ''increment operand is required'')
      | IntegerValue b \<Rightarrow>
          (case current of
             Some (IntegerValue a) \<Rightarrow> Inr (IntegerValue (i64_saturating_add a b))
           | Some (DoubleValue a) \<Rightarrow> Inr (DoubleValue (f64_add a (f64_of_i64 (sint b))))
           | _ \<Rightarrow> Inr (IntegerValue b))
      | DoubleValue b \<Rightarrow>
          (case current of
             Some (IntegerValue a) \<Rightarrow> Inr (DoubleValue (f64_add (f64_of_i64 (sint a)) b))
           | Some (DoubleValue a) \<Rightarrow> Inr (DoubleValue (f64_add a b))
           | _ \<Rightarrow> Inr (DoubleValue b))
      | _ \<Rightarrow> Inl (invalid_argument ''increment operand must be numeric''))"

definition append_missing :: "fvalue list \<Rightarrow> fvalue list \<Rightarrow> fvalue list" where
  "append_missing elements vs =
     fold (\<lambda>candidate vs.
        if list_ex (\<lambda>existing. transform_value_equal existing candidate) vs then vs
        else vs @ [candidate]) elements vs"

definition transform_supported :: "transform_type option \<Rightarrow> bool" where
  "transform_supported t =
     (case t of Some (Increment _) \<Rightarrow> True | Some (AppendMissingElements _) \<Rightarrow> True
      | Some (SetToServerValue v) \<Rightarrow> v = request_time_value | _ \<Rightarrow> False)"

definition transform_result ::
  "transform_type option \<Rightarrow> fvalue option \<Rightarrow> timestamp \<Rightarrow> fvalue res" where
  "transform_result t current request_time =
     (case t of
        Some (Increment operand) \<Rightarrow> numeric_increment current operand
      | Some (AppendMissingElements elements) \<Rightarrow>
          Inr (ArrayValue (append_missing elements
                 (case current of Some (ArrayValue vs) \<Rightarrow> vs | _ \<Rightarrow> [])))
      | Some (SetToServerValue v) \<Rightarrow>
          (if v = request_time_value then Inr (TimestampValue request_time)
           else Inl (unimplemented ''requested field transform is not implemented''))
      | _ \<Rightarrow> Inl (unimplemented ''requested field transform is not implemented''))"

fun apply_update_transforms ::
  "document \<Rightarrow> field_transform list \<Rightarrow> timestamp \<Rightarrow> (document \<times> fvalue list) res" where
  "apply_update_transforms doc [] request_time = Inr (doc, [])"
| "apply_update_transforms doc (t # ts) request_time =
     (if \<not> transform_supported (ft_type t)
      then Inl (unimplemented ''requested field transform is not implemented'')
      else rbind (field_path (ft_path t)) (\<lambda>path.
        rbind (transform_result (ft_type t) (nested_get (doc_fields doc) path) request_time) (\<lambda>result.
        rbind (apply_update_transforms
                 (doc\<lparr>doc_fields := nested_set (doc_fields doc) path (Some result)\<rparr>)
                 ts request_time) (\<lambda>(doc', results). Inr (doc', result # results)))))"

subsection \<open>A write\<close>

definition apply_write ::
  "documents \<Rightarrow> fwrite \<Rightarrow> timestamp \<Rightarrow> (documents \<times> write_result) res" where
  "apply_write documents request write_time =
     (case operation request of
        Some (Update document) \<Rightarrow>
          rbind (validate_document_name (doc_name document)) (\<lambda>_.
          let existing = sm_get documents (doc_name document) in
          rbind (check_precondition existing (current_document request)) (\<lambda>_.
          rbind (merge_document existing document (write_mask request)) (\<lambda>merged.
          rbind (apply_update_transforms merged (update_transforms request) write_time)
            (\<lambda>(transformed, results).
              let created = (case Option.bind existing create_time of
                               Some t \<Rightarrow> t | None \<Rightarrow> write_time);
                  final = transformed\<lparr>create_time := Some created, update_time := Some write_time\<rparr>
              in Inr (sm_put (doc_name final) final documents,
                      \<lparr>wr_update_time = Some write_time, transform_results = results\<rparr>)))))
      | Some (Delete name) \<Rightarrow>
          rbind (validate_document_name name) (\<lambda>_.
          rbind (check_precondition (sm_get documents name) (current_document request)) (\<lambda>_.
          Inr (sm_del name documents,
               \<lparr>wr_update_time = Some write_time, transform_results = []\<rparr>)))
      | Some (Transform _) \<Rightarrow> Inl (unimplemented ''document transforms are not implemented'')
      | None \<Rightarrow> Inl (invalid_argument ''write operation is required''))"

definition write_name :: "fwrite \<Rightarrow> string res" where
  "write_name w =
     (case operation w of
        Some (Update document) \<Rightarrow> Inr (doc_name document)
      | Some (Delete name) \<Rightarrow> Inr name
      | Some (Transform name) \<Rightarrow> Inr name
      | None \<Rightarrow> Inl (invalid_argument ''write operation is required''))"

fun validate_writes :: "string \<Rightarrow> fwrite list \<Rightarrow> unit res" where
  "validate_writes database [] = Inr ()"
| "validate_writes database (w # ws) =
     rbind (write_name w) (\<lambda>name.
     rbind (validate_document_name name) (\<lambda>_.
     rbind (database_from_resource name) (\<lambda>d.
     if d \<noteq> database
     then Inl (invalid_argument (''write document does not belong to requested database: '' @ name))
     else validate_writes database ws)))"

definition validate_writes_database :: "string \<Rightarrow> fwrite list \<Rightarrow> unit res" where
  "validate_writes_database database ws =
     rbind (database_document_prefix database) (\<lambda>_. validate_writes database ws)"

subsection \<open>The invariant of stored documents\<close>

text \<open>
  Every document is stored under its own valid name, its fields are well-formed, and it has
  both times.
\<close>

definition document_ok :: "string \<Rightarrow> document \<Rightarrow> bool" where
  "document_ok name d =
     (doc_name d = name \<and> validate_document_name name = Inr () \<and> fields_wf (doc_fields d)
      \<and> create_time d \<noteq> None \<and> update_time d \<noteq> None)"

definition documents_ok :: "documents \<Rightarrow> bool" where
  "documents_ok ds = (sm_wf ds \<and> list_all (\<lambda>(name, d). document_ok name d) ds)"

text \<open>What decoding a message guarantees of a write: the maps in it are maps.\<close>

definition transform_wf :: "field_transform \<Rightarrow> bool" where
  "transform_wf t =
     (case ft_type t of Some (Increment v) \<Rightarrow> value_wf v
      | Some (AppendMissingElements vs) \<Rightarrow> list_all value_wf vs | _ \<Rightarrow> True)"

definition write_wf :: "fwrite \<Rightarrow> bool" where
  "write_wf w =
     ((case operation w of Some (Update d) \<Rightarrow> fields_wf (doc_fields d) | _ \<Rightarrow> True) \<and>
      list_all transform_wf (update_transforms w))"

lemma documents_ok_wf: "documents_ok ds \<Longrightarrow> sm_wf ds"
  by (simp add: documents_ok_def)

lemma documents_ok_get: "documents_ok ds \<Longrightarrow> sm_get ds n = Some d \<Longrightarrow> document_ok n d"
  by (auto simp: documents_ok_def list_all_iff dest: sm_get_in)

lemma documents_ok_put: "documents_ok ds \<Longrightarrow> document_ok n d \<Longrightarrow> documents_ok (sm_put n d ds)"
  by (auto simp: documents_ok_def list_all_iff set_sm_put)

lemma documents_ok_del: "documents_ok ds \<Longrightarrow> documents_ok (sm_del n ds)"
  by (auto simp: documents_ok_def list_all_iff)

lemma documents_ok_filter: "documents_ok ds \<Longrightarrow> documents_ok (filter P ds)"
  by (auto simp: documents_ok_def list_all_iff sm_wf_filter)

lemma documents_ok_empty [simp]: "documents_ok []"
  by (simp add: documents_ok_def)

lemma merge_document_name: "merge_document e i m = Inr d \<Longrightarrow> doc_name d = doc_name i"
  by (auto simp: merge_document_def rbind_Inr_iff Let_def split: option.splits if_splits)

lemma merge_document_wf:
  assumes "merge_document e i m = Inr d" "fields_wf (doc_fields i)"
    and "\<And>x. e = Some x \<Longrightarrow> fields_wf (doc_fields x)"
  shows "fields_wf (doc_fields d)"
proof (cases m)
  case None
  then show ?thesis using assms by (simp add: merge_document_def)
next
  case (Some msk)
  have "fields_wf (case e of Some x \<Rightarrow> doc_fields x | None \<Rightarrow> [])"
    using assms(3) by (cases e) auto
  then show ?thesis
    using assms(1,2) Some by (auto elim!: merge_document_Inr intro: ns.wf_copy)
qed

lemma append_missing_wf:
  "list_all value_wf es \<Longrightarrow> list_all value_wf vs \<Longrightarrow> list_all value_wf (append_missing es vs)"
  unfolding append_missing_def by (induction es arbitrary: vs) auto

lemma transform_result_wf:
  assumes "transform_result (ft_type t) cur tm = Inr v" "transform_wf t"
    "\<And>x. cur = Some x \<Longrightarrow> value_wf x"
  shows "value_wf v"
  using assms append_missing_wf
  by (auto simp: transform_result_def transform_wf_def numeric_increment_def
      split: option.splits transform_type.splits fvalue.splits if_splits)

lemma apply_update_transforms_Inr:
  "apply_update_transforms d ts tm = Inr (d', rs) \<Longrightarrow> fields_wf (doc_fields d) \<Longrightarrow>
   list_all transform_wf ts \<Longrightarrow>
   doc_name d' = doc_name d \<and> create_time d' = create_time d \<and> update_time d' = update_time d \<and>
   fields_wf (doc_fields d') \<and> length rs = length ts"
proof (induction d ts tm arbitrary: d' rs rule: apply_update_transforms.induct)
  case (2 doc t ts tm)
  obtain path result rs' where s: "transform_supported (ft_type t)" "field_path (ft_path t) = Inr path"
    "transform_result (ft_type t) (nested_get (doc_fields doc) path) tm = Inr result"
    "apply_update_transforms (doc\<lparr>doc_fields := nested_set (doc_fields doc) path (Some result)\<rparr>) ts tm
       = Inr (d', rs')" "rs = result # rs'"
    using 2(2) by (auto simp: rbind_Inr_iff split: if_splits)
  have "value_wf result"
    using s(3) 2(4) nested_get_wf[OF 2(3)] by (intro transform_result_wf[OF s(3)]) auto
  then have "fields_wf (nested_set (doc_fields doc) path (Some result))"
    using 2(3) by (intro fields_wf_nested_set) auto
  then show ?case using 2(1)[OF _ s(2,3) s(4)] 2(4) s by auto
qed auto

subsection \<open>What a write does\<close>

definition write_key :: "fwrite \<Rightarrow> string option" where
  "write_key w = (case write_name w of Inl _ \<Rightarrow> None | Inr n \<Rightarrow> Some n)"

text \<open>The two successful branches.\<close>

lemma apply_write_update:
  assumes "apply_write ds w t = Inr (ds', r)" "operation w = Some (Update d)"
  obtains merged doc results where
    "validate_document_name (doc_name d) = Inr ()"
    "check_precondition (sm_get ds (doc_name d)) (current_document w) = Inr ()"
    "merge_document (sm_get ds (doc_name d)) d (write_mask w) = Inr merged"
    "apply_update_transforms merged (update_transforms w) t = Inr (doc, results)"
    "ds' = sm_put (doc_name doc)
        (doc\<lparr>create_time := Some (case Option.bind (sm_get ds (doc_name d)) create_time of
               Some c \<Rightarrow> c | None \<Rightarrow> t), update_time := Some t\<rparr>) ds"
    "r = \<lparr>wr_update_time = Some t, transform_results = results\<rparr>"
  using assms by (auto simp: apply_write_def Let_def rbind_Inr_iff)

lemma apply_write_delete:
  assumes "apply_write ds w t = Inr (ds', r)" "operation w = Some (Delete n)"
  shows "validate_document_name n = Inr () \<and>
         check_precondition (sm_get ds n) (current_document w) = Inr () \<and> ds' = sm_del n ds \<and>
         r = \<lparr>wr_update_time = Some t, transform_results = []\<rparr>"
  using assms by (auto simp: apply_write_def rbind_Inr_iff)

lemma apply_write_cases:
  assumes "apply_write ds w t = Inr (ds', r)"
  obtains d where "operation w = Some (Update d)" | n where "operation w = Some (Delete n)"
  using assms by (auto simp: apply_write_def split: option.splits operation.splits)

lemma apply_update_transforms_name:
  "apply_update_transforms d ts t = Inr (d', rs) \<Longrightarrow> doc_name d' = doc_name d"
proof (induction d ts t arbitrary: d' rs rule: apply_update_transforms.induct)
  case (2 doc tr ts tm)
  then show ?case by (fastforce simp: rbind_Inr_iff split: if_splits)
qed simp

lemma apply_write_ok:
  assumes "documents_ok ds" "write_wf w" "apply_write ds w t = Inr (ds', r)"
  shows "documents_ok ds'"
  using assms(3)
proof (cases rule: apply_write_cases)
  case (1 d)
  obtain merged doc results where u:
    "validate_document_name (doc_name d) = Inr ()"
    "merge_document (sm_get ds (doc_name d)) d (write_mask w) = Inr merged"
    "apply_update_transforms merged (update_transforms w) t = Inr (doc, results)"
    "ds' = sm_put (doc_name doc)
        (doc\<lparr>create_time := Some (case Option.bind (sm_get ds (doc_name d)) create_time of
               Some c \<Rightarrow> c | None \<Rightarrow> t), update_time := Some t\<rparr>) ds"
    using apply_write_update[OF assms(3) 1] by metis
  have "fields_wf (doc_fields merged)"
    using u(2) assms(2) 1 documents_ok_get[OF assms(1)]
    by (intro merge_document_wf[OF u(2)]) (auto simp: write_wf_def document_ok_def)
  then have "doc_name doc = doc_name merged \<and> fields_wf (doc_fields doc)"
    using apply_update_transforms_Inr[OF u(3)] assms(2) by (simp add: write_wf_def)
  then show ?thesis
    using u(1,4) merge_document_name[OF u(2)] assms(1)
    by (auto intro!: documents_ok_put simp: document_ok_def)
next
  case (2 n)
  then show ?thesis using apply_write_delete[OF assms(3) 2] documents_ok_del[OF assms(1)] by simp
qed

lemma apply_write_sm_wf: "sm_wf ds \<Longrightarrow> apply_write ds w t = Inr (ds', r) \<Longrightarrow> sm_wf ds'"
  by (auto simp: apply_write_def Let_def rbind_Inr_iff split: option.splits operation.splits)

lemma apply_write_frame:
  assumes "sm_wf ds" "apply_write ds w t = Inr (ds', r)" "write_key w \<noteq> Some l"
  shows "sm_get ds' l = sm_get ds l"
  using assms(2)
proof (cases rule: apply_write_cases)
  case (1 d)
  then obtain merged doc results where u:
    "merge_document (sm_get ds (doc_name d)) d (write_mask w) = Inr merged"
    "apply_update_transforms merged (update_transforms w) t = Inr (doc, results)"
    "ds' = sm_put (doc_name doc)
        (doc\<lparr>create_time := Some (case Option.bind (sm_get ds (doc_name d)) create_time of
               Some c \<Rightarrow> c | None \<Rightarrow> t), update_time := Some t\<rparr>) ds"
    using apply_write_update[OF assms(2) 1] by metis
  have "doc_name doc = doc_name d"
    using merge_document_name[OF u(1)] apply_update_transforms_name[OF u(2)] by simp
  then show ?thesis using u(3) assms(1,3) 1 by (simp add: write_key_def write_name_def)
next
  case (2 n)
  then show ?thesis using apply_write_delete[OF assms(2) 2] assms(3)
    by (simp add: write_key_def write_name_def)
qed

interpretation fw: keyed_write "\<lambda>ds w. apply_write ds w t" write_key for t
proof
  fix m w m' r assume "sm_wf m" "apply_write m w t = Inr (m', r)"
  then show "sm_wf m'" by (rule apply_write_sm_wf)
next
  fix m w m' r l assume "sm_wf m" "apply_write m w t = Inr (m', r)" "write_key w \<noteq> Some l"
  then show "sm_get m' l = sm_get m l" by (rule apply_write_frame)
next
  fix m n :: documents and w e
  assume "\<And>k. write_key w = Some k \<Longrightarrow> sm_get m k = sm_get n k" "apply_write m w t = Inl e"
  then show "apply_write n w t = Inl e"
    by (auto simp: apply_write_def write_key_def write_name_def rbind_Inl_iff Let_def
        split: option.splits operation.splits)
next
  fix m n :: documents and w m' r
  assume wf: "sm_wf m" "sm_wf n"
    and ag: "\<And>k. write_key w = Some k \<Longrightarrow> sm_get m k = sm_get n k"
    and ap: "apply_write m w t = Inr (m', r)"
  have "\<exists>n'. apply_write n w t = Inr (n', r)"
    using ag ap by (auto simp: apply_write_def write_key_def write_name_def rbind_Inr_iff Let_def
        split: option.splits operation.splits)
  then obtain n' where n': "apply_write n w t = Inr (n', r)" ..
  have "sm_get m' k = sm_get n' k" if k: "write_key w = Some k" for k
    using ap
  proof (cases rule: apply_write_cases)
    case (1 d)
    have kd: "k = doc_name d" using k 1 by (simp add: write_key_def write_name_def)
    show ?thesis
      using ap n' 1 ag[OF k] wf unfolding kd
      by (auto simp: apply_write_def Let_def rbind_Inr_iff)
  next
    case (2 x)
    then show ?thesis using apply_write_delete[OF ap 2] apply_write_delete[OF n' 2] ag[OF k]
      by simp
  qed
  then show "\<exists>n'. apply_write n w t = Inr (n', r) \<and> (\<forall>k. write_key w = Some k \<longrightarrow> sm_get m' k = sm_get n' k)"
    using n' by blast
qed

subsection \<open>Elements of an appended array\<close>

lemma transform_equal_refl: "value_wf v \<Longrightarrow> transform_value_equal v v"
proof (induction "size v" arbitrary: v rule: less_induct)
  case less
  show ?case
  proof (cases v rule: value_rank_cases)
    case leaf
    then show ?thesis
      by (subst transform_value_equal.simps) (cases v; simp add: float_equal_key)
  next
    case (array vs)
    have "transform_value_equal x x" if "x \<in> set vs" for x
      using that less.prems array size_elem by (intro less(1)) (auto simp: list_all_iff)
    then show ?thesis unfolding array transform_equal_array by (intro list.rel_refl_strong) auto
  next
    case (mapv m)
    have wf: "sm_wf m" using less.prems mapv by (simp add: fields_wf_def)
    have "transform_value_equal x x" if "(k, x) \<in> set m" for k x
      using that less.prems mapv size_fields[OF that]
      by (intro less(1)) (auto simp: list_all_iff fields_wf_def)
    then show ?thesis unfolding mapv transform_equal_map[OF wf wf]
      by (intro list.rel_refl_strong) auto
  qed
qed

lemma append_missing_spec:
  assumes "list_all value_wf es"
  shows "\<exists>added. append_missing es vs = vs @ added \<and> set added \<subseteq> set es \<and>
           sorted_wrt (\<lambda>x y. \<not> transform_value_equal x y) added \<and>
           (\<forall>y \<in> set added. \<forall>x \<in> set vs. \<not> transform_value_equal x y) \<and>
           (\<forall>e \<in> set es. \<exists>x \<in> set (append_missing es vs). transform_value_equal x e)"
  using assms
proof (induction es arbitrary: vs)
  case Nil
  then show ?case by (auto simp: append_missing_def)
next
  case (Cons e es)
  have wf: "value_wf e" "list_all value_wf es" using Cons.prems by auto
  show ?case
  proof (cases "list_ex (\<lambda>x. transform_value_equal x e) vs")
    case True
    then have eq: "append_missing (e # es) vs = append_missing es vs"
      by (simp add: append_missing_def)
    obtain added where a: "append_missing es vs = vs @ added" "set added \<subseteq> set es"
      "sorted_wrt (\<lambda>x y. \<not> transform_value_equal x y) added"
      "\<forall>y \<in> set added. \<forall>x \<in> set vs. \<not> transform_value_equal x y"
      "\<forall>e \<in> set es. \<exists>x \<in> set (append_missing es vs). transform_value_equal x e"
      using Cons.IH[OF wf(2), of vs] by blast
    show ?thesis unfolding eq using a True
      by (intro exI[of _ added]) (auto simp: list_ex_iff)
  next
    case False
    then have eq: "append_missing (e # es) vs = append_missing es (vs @ [e])"
      by (simp add: append_missing_def)
    obtain added where a: "append_missing es (vs @ [e]) = (vs @ [e]) @ added" "set added \<subseteq> set es"
      "sorted_wrt (\<lambda>x y. \<not> transform_value_equal x y) added"
      "\<forall>y \<in> set added. \<forall>x \<in> set (vs @ [e]). \<not> transform_value_equal x y"
      "\<forall>e' \<in> set es. \<exists>x \<in> set (append_missing es (vs @ [e])). transform_value_equal x e'"
      using Cons.IH[OF wf(2), of "vs @ [e]"] by blast
    show ?thesis unfolding eq using a False transform_equal_refl[OF wf(1)]
      by (intro exI[of _ "e # added"]) (auto simp: list_ex_iff)
  qed
qed

subsection \<open>Properties\<close>

text \<open>
  Property C6.  A successful write keeps the invariant of the documents, satisfied its
  precondition, stamps the write time, changes no other document, keeps the creation time of
  a document it overwrites, and leaves nothing of a document it deletes.
\<close>

theorem apply_write_effect:
  assumes "documents_ok ds" "write_wf w" "apply_write ds w t = Inr (ds', r)"
  shows "documents_ok ds' \<and> wr_update_time r = Some t \<and>
    (\<exists>n. write_key w = Some n \<and>
         check_precondition (sm_get ds n) (current_document w) = Inr () \<and>
         (\<forall>m. m \<noteq> n \<longrightarrow> sm_get ds' m = sm_get ds m) \<and>
         (case operation w of
            Some (Update d) \<Rightarrow>
              (\<exists>doc. sm_get ds' n = Some doc \<and> doc_name doc = n \<and> update_time doc = Some t \<and>
                 create_time doc = (case sm_get ds n of Some old \<Rightarrow> create_time old | None \<Rightarrow> Some t))
          | _ \<Rightarrow> sm_get ds' n = None))"
proof -
  note ok = apply_write_ok[OF assms]
  note wf = documents_ok_wf[OF assms(1)]
  have frame: "sm_get ds' m = sm_get ds m" if "write_key w = Some n" "m \<noteq> n" for n m
    using that by (intro apply_write_frame[OF wf assms(3)]) auto
  show ?thesis
    using assms(3)
  proof (cases rule: apply_write_cases)
    case (1 d)
    let ?n = "doc_name d"
    obtain merged doc results where u:
      "check_precondition (sm_get ds ?n) (current_document w) = Inr ()"
      "merge_document (sm_get ds ?n) d (write_mask w) = Inr merged"
      "apply_update_transforms merged (update_transforms w) t = Inr (doc, results)"
      "ds' = sm_put (doc_name doc)
          (doc\<lparr>create_time := Some (case Option.bind (sm_get ds ?n) create_time of
                 Some c \<Rightarrow> c | None \<Rightarrow> t), update_time := Some t\<rparr>) ds"
      "r = \<lparr>wr_update_time = Some t, transform_results = results\<rparr>"
      using apply_write_update[OF assms(3) 1] by metis
    have nm: "doc_name doc = ?n"
      using merge_document_name[OF u(2)] apply_update_transforms_name[OF u(3)] by simp
    have ct: "create_time old \<noteq> None" if "sm_get ds ?n = Some old" for old
      using documents_ok_get[OF assms(1) that] by (simp add: document_ok_def)
    have key: "write_key w = Some ?n" using 1 by (simp add: write_key_def write_name_def)
    show ?thesis
      using ok u(1,5) key frame[OF key] 1 wf ct
      by (auto simp: u(4) nm split: option.splits)
  next
    case (2 n)
    have key: "write_key w = Some n" using 2 by (simp add: write_key_def write_name_def)
    show ?thesis using apply_write_delete[OF assms(3) 2] ok key frame[OF key] 2 wf by auto
  qed
qed

text \<open>A document name and a stored document for concrete instances.\<close>

abbreviation sample_name :: string where
  "sample_name \<equiv> ''projects/p/databases/d/documents/c/x''"

abbreviation sample_document :: "fields \<Rightarrow> document" where
  "sample_document fs \<equiv> \<lparr>doc_name = sample_name, doc_fields = fs,
     create_time = Some (Timestamp 1 0), update_time = Some (Timestamp 1 0)\<rparr>"

lemma sample_name_valid [simp]: "validate_document_name sample_name = Inr ()"
  by (simp add: validate_document_name_def split_path_def)

lemma sample_documents_ok [simp]:
  "fields_wf fs \<Longrightarrow> documents_ok [(sample_name, sample_document fs)]"
  by (simp add: documents_ok_def document_ok_def)

lemma apply_write_effect_witness:
  "\<exists>ds' r. apply_write [(sample_name, sample_document [])]
      \<lparr>operation = Some (Delete sample_name), write_mask = None, update_transforms = [],
       current_document = Some (Some (Exists True))\<rparr> (Timestamp 5 0) = Inr (ds', r) \<and>
      documents_ok ds'"
  using apply_write_effect[of "[(sample_name, sample_document [])]"
      "\<lparr>operation = Some (Delete sample_name), write_mask = None, update_transforms = [],
        current_document = Some (Some (Exists True))\<rparr>" "Timestamp 5 0"]
  by (simp add: apply_write_def check_precondition_def write_wf_def sm_del_def)

text \<open>
  Incrementing an integer by an integer saturates at the bounds of 64 bits
  instead of wrapping around; on every other stored value the operand replaces it, and a
  non-numeric operand is rejected.
\<close>

theorem numeric_increment_saturates:
  "(\<exists>c. numeric_increment (Some (IntegerValue a)) (IntegerValue b) = Inr (IntegerValue c) \<and>
        sint c = max i64_min (min i64_max (sint a + sint b))) \<and>
   numeric_increment None (IntegerValue b) = Inr (IntegerValue b) \<and>
   numeric_increment (Some (StringValue s)) (DoubleValue d) = Inr (DoubleValue d) \<and>
   (\<exists>e. numeric_increment cur (StringValue s) = Inl e \<and> code e = InvalidArgument)"
  by (simp add: numeric_increment_def sint_saturating_add)

text \<open>
  \<open>appendMissingElements\<close> keeps the stored elements in place, appends only
  operands, none of them equal to a stored or an already appended element, and afterwards
  every operand has an equal element in the array.
\<close>

theorem append_missing_union:
  assumes "list_all value_wf es"
  shows "\<exists>added. append_missing es vs = vs @ added \<and> set added \<subseteq> set es \<and>
           sorted_wrt (\<lambda>x y. \<not> transform_value_equal x y) added \<and>
           (\<forall>y \<in> set added. \<forall>x \<in> set vs. \<not> transform_value_equal x y) \<and>
           (\<forall>e \<in> set es. \<exists>x \<in> set (append_missing es vs). transform_value_equal x e)"
  using assms by (rule append_missing_spec)

lemma append_missing_union_witness:
  "\<exists>added. append_missing [IntegerValue 1, StringValue ''a''] [BooleanValue True] =
     BooleanValue True # added"
  using append_missing_union[of "[IntegerValue 1, StringValue ''a'']" "[BooleanValue True]"] by auto

end
