(* ===== verification/Firestore_Service.thy ===== *)
theory Firestore_Service
  imports Firestore_Write
begin

text \<open>
  The in-memory Firestore service of \<open>src/src/firestore.rs\<close>: the \<open>Store\<close>, the handlers that
  read or change it, the change events they hand to the Functions runtime (from
  \<open>src/src/functions.rs\<close>), and the reachable stores.  A handler takes the store, the clock and
  a fresh transaction token where the code draws one, and returns the store, the effects in
  order and the result.
\<close>

subsection \<open>Change events\<close>

text \<open>
  An event carries the document before and after; a write that leaves the fields equal (in
  the sense of the derived equality) has none.
\<close>

type_synonym change = "document option \<times> document option"

definition same_fields :: "document option \<Rightarrow> document option \<Rightarrow> bool" where
  "same_fields before after =
     (case (before, after) of
        (None, None) \<Rightarrow> True
      | (Some b, Some a) \<Rightarrow> fields_eq (doc_fields b) (doc_fields a)
      | _ \<Rightarrow> False)"

definition document_changed :: "document option \<Rightarrow> document option \<Rightarrow> change list" where
  "document_changed before after = (if same_fields before after then [] else [(before, after)])"

definition documents_changed :: "documents \<Rightarrow> documents \<Rightarrow> change list" where
  "documents_changed before after =
     concat (map (\<lambda>(name, old). document_changed (Some old) (sm_get after name)) before) @
     concat (map (\<lambda>(name, new). if \<not> sm_has before name then document_changed None (Some new) else [])
               after)"

subsection \<open>State\<close>

record store =
  documents :: documents
  transactions :: "(string, string) smap"
  next_id :: nat

datatype effect = Event change | ChangeSignal

type_synonym 'a outcome = "store \<times> effect list \<times> 'a res"

definition empty_store :: store where
  "empty_store = \<lparr>documents = [], transactions = [], next_id = 0\<rparr>"

text \<open>An early return with \<open>?\<close> leaves the store as it is at that point.\<close>

definition obind :: "store \<Rightarrow> 'b res \<Rightarrow> ('b \<Rightarrow> 'a outcome) \<Rightarrow> 'a outcome" where
  "obind s m f = (case m of Inl e \<Rightarrow> (s, [], Inl e) | Inr x \<Rightarrow> f x)"

lemma obind_simps [simp, res_simps]:
  "obind s (Inl e) f = (s, [], Inl e)"
  "obind s (Inr x) f = f x"
  by (auto simp: obind_def)

subsection \<open>Transactions\<close>

definition validate_transaction :: "store \<Rightarrow> string \<Rightarrow> string \<Rightarrow> unit res" where
  "validate_transaction s database transaction =
     (case sm_get (transactions s) transaction of
        Some transaction_database \<Rightarrow>
          guard (transaction_database = database)
            (invalid_argument ''transaction does not belong to the requested database'')
      | None \<Rightarrow> Inl (invalid_argument ''transaction is not active''))"

definition create_transaction :: "store \<Rightarrow> string \<Rightarrow> string \<Rightarrow> store" where
  "create_transaction s database fresh =
     s\<lparr>transactions := sm_put fresh database (transactions s)\<rparr>"

definition remove_transaction :: "store \<Rightarrow> string \<Rightarrow> store" where
  "remove_transaction s transaction =
     (if transaction = [] then s
      else s\<lparr>transactions := sm_del transaction (transactions s)\<rparr>)"

definition begin_transaction :: "store \<Rightarrow> string \<Rightarrow> string \<Rightarrow> string outcome" where
  "begin_transaction s database fresh =
     obind s (database_document_prefix database) (\<lambda>_.
       (create_transaction s database fresh, [], Inr fresh))"

definition rollback :: "store \<Rightarrow> string \<Rightarrow> string \<Rightarrow> unit outcome" where
  "rollback s database transaction =
     obind s (validate_transaction s database transaction) (\<lambda>_.
       (s\<lparr>transactions := sm_del transaction (transactions s)\<rparr>, [], Inr ()))"

subsection \<open>Reading\<close>

definition get_document :: "store \<Rightarrow> string \<Rightarrow> document res" where
  "get_document s name =
     rbind (validate_document_name name) (\<lambda>_.
       of_option (not_found (''document not found: '' @ name)) (sm_get (documents s) name))"

definition documents_named :: "store \<Rightarrow> string list \<Rightarrow> document list" where
  "documents_named s names = List.map_filter (\<lambda>name. sm_get (documents s) name) names"

definition database_documents :: "store \<Rightarrow> string \<Rightarrow> document list res" where
  "database_documents s database =
     rbind (database_document_prefix database) (\<lambda>prefix.
       Inr (map snd (takeWhile (\<lambda>(name, _). starts_with prefix name)
              (dropWhile (\<lambda>(name, _). name < prefix) (documents s)))))"

datatype consistency = InTransaction string | NewTransaction | ReadTime timestamp

datatype get_result = Found document | Missing string

record batch_response =
  bg_result :: "get_result option"
  bg_transaction :: string
  bg_read_time :: "timestamp option"

fun validate_names :: "string list \<Rightarrow> unit res" where
  "validate_names [] = Inr ()"
| "validate_names (n # ns) = rbind (validate_document_name n) (\<lambda>_. validate_names ns)"

text \<open>The transaction a read opens or joins: the new store and the token to return.\<close>

definition read_transaction ::
  "store \<Rightarrow> string \<Rightarrow> consistency option \<Rightarrow> string \<Rightarrow> (store \<times> string option) res" where
  "read_transaction s database selector fresh =
     (case selector of
        Some (InTransaction transaction) \<Rightarrow>
          rbind (validate_transaction s database transaction) (\<lambda>_. Inr (s, None))
      | Some NewTransaction \<Rightarrow>
          rbind (database_document_prefix database) (\<lambda>_.
            Inr (create_transaction s database fresh, Some fresh))
      | _ \<Rightarrow> Inr (s, None))"

definition batch_responses ::
  "(string \<Rightarrow> document option) \<Rightarrow> string list \<Rightarrow> string option \<Rightarrow> timestamp \<Rightarrow> batch_response list" where
  "batch_responses lookup names new_transaction read_time =
     (let found = map (\<lambda>name. \<lparr>bg_result = Some (case lookup name of Some d \<Rightarrow> Found d
                                                  | None \<Rightarrow> Missing name),
                               bg_transaction = [], bg_read_time = Some read_time\<rparr>) names;
          responses = (if found = [] \<and> new_transaction \<noteq> None
            then [\<lparr>bg_result = None, bg_transaction = [], bg_read_time = Some read_time\<rparr>] else found)
      in case (new_transaction, responses) of
           (Some transaction, first # rest) \<Rightarrow> first\<lparr>bg_transaction := transaction\<rparr> # rest
         | _ \<Rightarrow> responses)"

definition batch_get_documents ::
  "store \<Rightarrow> string \<Rightarrow> string list \<Rightarrow> consistency option \<Rightarrow> timestamp \<Rightarrow> string \<Rightarrow>
   batch_response list outcome" where
  "batch_get_documents s database names selector read_time fresh =
     obind s (validate_names names) (\<lambda>_.
     obind s (read_transaction s database selector fresh) (\<lambda>(s', new_transaction).
       (s', [], Inr (batch_responses (sm_get (documents s')) names new_transaction read_time))))"

subsection \<open>Single document writes\<close>

definition trim_end_char :: "char \<Rightarrow> string \<Rightarrow> string" where
  "trim_end_char c s = rev (dropWhile (\<lambda>x. x = c) (rev s))"

definition create_document ::
  "store \<Rightarrow> document option \<Rightarrow> string \<Rightarrow> string \<Rightarrow> string \<Rightarrow> timestamp \<Rightarrow> document outcome" where
  "create_document s document parent collection_id requested_id now =
     obind s (of_option (invalid_argument ''document is required'') document) (\<lambda>document.
     if parent = [] \<or> collection_id = []
     then (s, [], Inl (invalid_argument ''parent and collection_id are required''))
     else
       let s1 = (if requested_id = [] then s\<lparr>next_id := next_id s + 1\<rparr> else s);
           document_id = (if requested_id = [] then ''auto-'' @ pad_nat 20 (next_id s1)
                          else requested_id);
           name = trim_end_char CHR ''/'' parent @ ''/'' @ collection_id @ ''/'' @ document_id
       in obind s1 (validate_document_name name) (\<lambda>_.
          if sm_has (documents s1) name
          then (s1, [], Inl (already_exists (''document already exists: '' @ name)))
          else
            let created = document\<lparr>doc_name := name, create_time := Some now, update_time := Some now\<rparr>
            in (s1\<lparr>documents := sm_put name created (documents s1)\<rparr>,
                map Event (document_changed None (Some created)) @ [ChangeSignal], Inr created)))"

text \<open>
  \<open>store.documents[&name]\<close> panics when the key is missing; \<open>update_document_result\<close> below
  shows that it never is.
\<close>

definition update_document ::
  "store \<Rightarrow> document option \<Rightarrow> string list option \<Rightarrow> condition_type option option \<Rightarrow> timestamp \<Rightarrow>
   document outcome" where
  "update_document s document update_mask condition now =
     obind s (of_option (invalid_argument ''document is required'') document) (\<lambda>document.
       let name = doc_name document;
           before = sm_get (documents s) name
       in obind s (apply_write (documents s)
              \<lparr>operation = Some (Update document), write_mask = update_mask, update_transforms = [],
               current_document = condition\<rparr> now) (\<lambda>(documents', _).
            (case sm_get documents' name of
               None \<Rightarrow> (s\<lparr>documents := documents'\<rparr>, [], Inl (internal ''panic''))
             | Some after \<Rightarrow>
                 (s\<lparr>documents := documents'\<rparr>,
                  map Event (document_changed before (Some after)) @ [ChangeSignal], Inr after))))"

definition delete_document ::
  "store \<Rightarrow> string \<Rightarrow> condition_type option option \<Rightarrow> unit outcome" where
  "delete_document s name condition =
     obind s (validate_document_name name) (\<lambda>_.
     obind s (check_precondition (sm_get (documents s) name) condition) (\<lambda>_.
       (s\<lparr>documents := sm_del name (documents s)\<rparr>,
        map Event (document_changed (sm_get (documents s) name) None) @ [ChangeSignal], Inr ())))"

subsection \<open>Batches\<close>

definition commit ::
  "store \<Rightarrow> string \<Rightarrow> string \<Rightarrow> fwrite list \<Rightarrow> timestamp \<Rightarrow> (write_result list \<times> timestamp) outcome" where
  "commit s database transaction ws commit_time =
     obind s (if transaction \<noteq> [] then validate_transaction s database transaction else Inr ()) (\<lambda>_.
     obind s (run_all (\<lambda>ds w. apply_write ds w commit_time) (documents s) ws) (\<lambda>(pending, results).
       (remove_transaction (s\<lparr>documents := pending\<rparr>) transaction,
        map Event (documents_changed (documents s) pending) @ [ChangeSignal],
        Inr (results, commit_time))))"

definition default_result :: write_result where
  "default_result = \<lparr>wr_update_time = None, transform_results = []\<rparr>"

text \<open>\<open>status_proto\<close>, and the default status of a write that succeeded.\<close>

definition status_proto :: "status \<Rightarrow> int \<times> string" where
  "status_proto st = (code_number (code st), message st)"

definition batch_entry :: "status + write_result \<Rightarrow> write_result \<times> (int \<times> string)" where
  "batch_entry r = (case r of Inl e \<Rightarrow> (default_result, status_proto e) | Inr w \<Rightarrow> (w, (0, [])))"

definition batch_write ::
  "store \<Rightarrow> fwrite list \<Rightarrow> timestamp \<Rightarrow> (write_result \<times> (int \<times> string)) list outcome" where
  "batch_write s ws write_time =
     (let (documents', results) = run_each (\<lambda>ds w. apply_write ds w write_time) (documents s) ws
      in (s\<lparr>documents := documents'\<rparr>,
          map Event (documents_changed (documents s) documents') @ [ChangeSignal],
          Inr (map batch_entry results)))"

definition clear_database :: "store \<Rightarrow> string \<Rightarrow> unit outcome" where
  "clear_database s database =
     obind s (database_document_prefix database) (\<lambda>prefix.
       (s\<lparr>documents := sm_retain (\<lambda>name _. \<not> starts_with prefix name) (documents s),
         transactions := sm_retain (\<lambda>_ d. d \<noteq> database) (transactions s)\<rparr>,
        [ChangeSignal], Inr ()))"

subsection \<open>The requests and the reachable stores\<close>

datatype request =
    CreateDocument "document option" string string string
  | UpdateDocument "document option" "string list option" "condition_type option option"
  | DeleteDocument string "condition_type option option"
  | BatchGetDocuments string "string list" "consistency option"
  | BeginTransaction string
  | Commit string string "fwrite list"
  | Rollback string string
  | BatchWrite "fwrite list"
  | ClearDatabase string

text \<open>The store and the effects after a request at time \<open>now\<close> with the fresh token \<open>fresh\<close>.\<close>

definition fst2 :: "'a outcome \<Rightarrow> store \<times> effect list" where
  "fst2 o1 = (fst o1, fst (snd o1))"

definition serve :: "store \<Rightarrow> request \<Rightarrow> timestamp \<Rightarrow> string \<Rightarrow> store \<times> effect list" where
  "serve s r now fresh =
     (case r of
        CreateDocument d p c i \<Rightarrow> fst2 (create_document s d p c i now)
      | UpdateDocument d m c \<Rightarrow> fst2 (update_document s d m c now)
      | DeleteDocument n c \<Rightarrow> fst2 (delete_document s n c)
      | BatchGetDocuments db ns sel \<Rightarrow> fst2 (batch_get_documents s db ns sel now fresh)
      | BeginTransaction db \<Rightarrow> fst2 (begin_transaction s db fresh)
      | Commit db t ws \<Rightarrow> fst2 (commit s db t ws now)
      | Rollback db t \<Rightarrow> fst2 (rollback s db t)
      | BatchWrite ws \<Rightarrow> fst2 (batch_write s ws now)
      | ClearDatabase db \<Rightarrow> fst2 (clear_database s db))"

text \<open>What decoding guarantees of a request.\<close>

definition request_wf :: "request \<Rightarrow> bool" where
  "request_wf r =
     (case r of
        CreateDocument (Some d) _ _ _ \<Rightarrow> fields_wf (doc_fields d)
      | UpdateDocument (Some d) _ _ \<Rightarrow> fields_wf (doc_fields d)
      | Commit _ _ ws \<Rightarrow> list_all write_wf ws
      | BatchWrite ws \<Rightarrow> list_all write_wf ws
      | _ \<Rightarrow> True)"

inductive store_step :: "store \<Rightarrow> store \<Rightarrow> bool" where
  serve_step: "request_wf r \<Longrightarrow> store_step s (fst (serve s r now fresh))"

inductive reachable :: "store \<Rightarrow> bool" where
  start: "reachable empty_store"
| step: "reachable s \<Longrightarrow> store_step s s' \<Longrightarrow> reachable s'"

inductive_cases store_stepE: "store_step s s'"

text \<open>
  The invariant: the documents are well-formed, and every open transaction belongs to a
  well-formed database name.
\<close>

definition database_ok :: "string \<Rightarrow> bool" where
  "database_ok d = (database_document_prefix d = Inr (d @ ''/documents/''))"

definition store_ok :: "store \<Rightarrow> bool" where
  "store_ok s = (documents_ok (documents s) \<and> sm_wf (transactions s) \<and>
     list_all (\<lambda>(_, d). database_ok d) (transactions s))"

lemma database_okI: "database_document_prefix d = Inr p \<Longrightarrow> database_ok d"
  using database_document_prefix_Inr[of d p] by (simp add: database_ok_def)

lemma store_ok_create_transaction:
  "store_ok s \<Longrightarrow> database_ok d \<Longrightarrow> store_ok (create_transaction s d f)"
  by (auto simp: store_ok_def create_transaction_def list_all_iff set_sm_put)

lemma store_ok_del_transaction:
  "store_ok s \<Longrightarrow> store_ok (s\<lparr>transactions := sm_del t (transactions s)\<rparr>)"
  by (auto simp: store_ok_def list_all_iff)

lemma store_ok_remove_transaction: "store_ok s \<Longrightarrow> store_ok (remove_transaction s t)"
  by (simp add: remove_transaction_def store_ok_del_transaction)

lemma store_ok_documents: "store_ok s \<Longrightarrow> documents_ok ds \<Longrightarrow> store_ok (s\<lparr>documents := ds\<rparr>)"
  by (simp add: store_ok_def)

lemma store_ok_next_id: "store_ok s \<Longrightarrow> store_ok (s\<lparr>next_id := n\<rparr>)"
  by (simp add: store_ok_def)

lemma store_ok_read_transaction:
  "store_ok s \<Longrightarrow> read_transaction s d sel f = Inr (s', t) \<Longrightarrow> store_ok s'"
  by (auto simp: read_transaction_def rbind_Inr_iff split: option.splits consistency.splits
      intro: store_ok_create_transaction database_okI)

lemma run_all_documents_ok:
  assumes "documents_ok ds" "list_all write_wf ws"
    "run_all (\<lambda>ds w. apply_write ds w t) ds ws = Inr (ds', rs)"
  shows "documents_ok ds'"
proof (rule run_all_invariant[where I = documents_ok, OF _ assms(1,3)])
  fix m w m' r
  assume "documents_ok m" "w \<in> set ws" "apply_write m w t = Inr (m', r)"
  then show "documents_ok m'" using assms(2) by (auto simp: list_all_iff intro: apply_write_ok)
qed

lemma run_each_documents_ok:
  assumes "documents_ok ds" "list_all write_wf ws"
  shows "documents_ok (fst (run_each (\<lambda>ds w. apply_write ds w t) ds ws))"
proof (rule run_each_invariant[where I = documents_ok, OF _ assms(1)])
  fix m w m' r
  assume "documents_ok m" "w \<in> set ws" "apply_write m w t = Inr (m', r)"
  then show "documents_ok m'" using assms(2) by (auto simp: list_all_iff intro: apply_write_ok)
qed

lemmas store_ok_intros = store_ok_documents store_ok_next_id store_ok_remove_transaction
  store_ok_del_transaction store_ok_create_transaction

lemma create_document_ok:
  assumes "store_ok s" "\<And>d. doc = Some d \<Longrightarrow> fields_wf (doc_fields d)"
  shows "store_ok (fst (create_document s doc p c i now))"
proof (cases doc)
  case (Some d)
  let ?s = "if i = [] then s\<lparr>next_id := next_id s + 1\<rparr> else s"
  have s: "store_ok ?s" using assms(1) by (simp add: store_ok_next_id)
  have "documents_ok (sm_put n (d\<lparr>doc_name := n, create_time := Some now, update_time := Some now\<rparr>)
      (documents ?s))" if "validate_document_name n = Inr ()" for n
    using that s assms(2)[OF Some] by (intro documents_ok_put) (auto simp: store_ok_def document_ok_def)
  then show ?thesis
    using s assms(1) Some
    by (auto simp: create_document_def Let_def obind_def store_ok_documents split: sum.splits)
qed (use assms in \<open>simp add: create_document_def\<close>)

lemma update_document_ok:
  assumes "store_ok s" "\<And>d. doc = Some d \<Longrightarrow> fields_wf (doc_fields d)"
  shows "store_ok (fst (update_document s doc m c now))"
proof (cases doc)
  case (Some d)
  let ?w = "\<lparr>operation = Some (Update d), write_mask = m, update_transforms = [], current_document = c\<rparr>"
  have "documents_ok ds'" if "apply_write (documents s) ?w now = Inr (ds', r)" for ds' r
    using that assms(1) assms(2)[OF Some]
    by (intro apply_write_ok[OF _ _ that]) (auto simp: store_ok_def write_wf_def)
  then show ?thesis
    using assms(1) Some
    by (auto simp: update_document_def Let_def obind_def store_ok_documents
        split: sum.splits option.splits)
qed (use assms in \<open>simp add: update_document_def\<close>)

lemma clear_database_ok: "store_ok s \<Longrightarrow> store_ok (fst (clear_database s d))"
  by (auto simp: clear_database_def obind_def store_ok_def documents_ok_def list_all_iff
      split: sum.splits)

lemma batch_write_ok: "store_ok s \<Longrightarrow> list_all write_wf ws \<Longrightarrow> store_ok (fst (batch_write s ws now))"
  using run_each_documents_ok[of "documents s" ws now]
  by (auto simp: batch_write_def Let_def split_beta store_ok_def)

lemma commit_ok: "store_ok s \<Longrightarrow> list_all write_wf ws \<Longrightarrow> store_ok (fst (commit s d t ws now))"
  using run_all_documents_ok[of "documents s" ws now]
  by (auto simp: commit_def obind_def store_ok_def remove_transaction_def list_all_iff
      split: sum.splits if_splits)

lemma delete_document_ok: "store_ok s \<Longrightarrow> store_ok (fst (delete_document s n c))"
  by (auto simp: delete_document_def obind_def documents_ok_del store_ok_def split: sum.splits)

lemma batch_get_ok: "store_ok s \<Longrightarrow> store_ok (fst (batch_get_documents s d ns sel now fresh))"
  by (auto simp: batch_get_documents_def obind_def intro: store_ok_read_transaction split: sum.splits)

lemma begin_transaction_ok: "store_ok s \<Longrightarrow> store_ok (fst (begin_transaction s d fresh))"
  by (auto simp: begin_transaction_def obind_def intro: store_ok_create_transaction database_okI
      split: sum.splits)

lemma rollback_ok: "store_ok s \<Longrightarrow> store_ok (fst (rollback s d t))"
  by (auto simp: rollback_def obind_def store_ok_del_transaction split: sum.splits)

lemmas handlers_ok = create_document_ok update_document_ok delete_document_ok batch_get_ok
  begin_transaction_ok rollback_ok commit_ok batch_write_ok clear_database_ok

lemma serve_ok: "store_ok s \<Longrightarrow> request_wf r \<Longrightarrow> store_ok (fst (serve s r now fresh))"
  by (cases r) (auto simp: serve_def fst2_def request_wf_def intro!: handlers_ok
      split: option.splits)

lemma reachable_ok: "reachable s \<Longrightarrow> store_ok s"
proof (induction rule: reachable.induct)
  case start
  then show ?case by (simp add: empty_store_def store_ok_def)
next
  case (step s s')
  then show ?case using serve_ok by (auto elim: store_stepE)
qed

subsection \<open>The documents of a database\<close>

lemma less_append_of_not_prefix:
  "(p::string) \<le> n \<Longrightarrow> \<not> prefix p n \<Longrightarrow> p @ r < n"
proof (induction p arbitrary: n)
  case (Cons x p)
  then obtain y n' where n: "n = y # n'" by (cases n) auto
  then show ?case using Cons by (cases "x = y") auto
qed simp

lemma starts_with_prefix: "starts_with p n \<longleftrightarrow> prefix p n"
  by (auto simp: starts_with_iff prefix_def)

lemma prefix_le: "prefix p n \<Longrightarrow> (p::string) \<le> n"
proof (induction p arbitrary: n)
  case (Cons x p)
  then show ?case by (cases n) auto
qed simp

text \<open>In increasing order the names with a prefix are contiguous: skip, then take.\<close>

lemma takeWhile_range:
  assumes "sm_wf (m :: (string, 'v) smap)"
  shows "takeWhile (\<lambda>(n, _). starts_with p n) (dropWhile (\<lambda>(n, _). n < p) m) =
         filter (\<lambda>(n, _). starts_with p n) m"
  using assms
proof (induction m)
  case (Cons e m)
  obtain n v where e: "e = (n, v)" by (cases e)
  have IH: "takeWhile (\<lambda>(n, _). starts_with p n) (dropWhile (\<lambda>(n, _). n < p) m) =
         filter (\<lambda>(n, _). starts_with p n) m" using Cons e by simp
  have later: "n < k" if "(k, w) \<in> set m" for k w using that Cons.prems e by force
  show ?case
  proof (cases "n < p")
    case True
    then have "\<not> starts_with p n" using prefix_le[of p n] by (auto simp: starts_with_prefix)
    then show ?thesis using True IH e by simp
  next
    case False
    have "dropWhile (\<lambda>(n, _). n < p) m = m"
      using later False by (cases m) force+
    moreover have "\<not> starts_with p k" if "\<not> starts_with p n" "(k, w) \<in> set m" for k w
    proof
      assume "starts_with p k"
      then obtain r where r: "k = p @ r" by (auto simp: starts_with_iff)
      have "p @ r < n" using False that(1) by (intro less_append_of_not_prefix) (auto simp: starts_with_prefix)
      then show False using later[OF that(2)] r by simp
    qed
    then have "\<not> starts_with p n \<Longrightarrow> filter (\<lambda>(n, _). starts_with p n) m = []"
      by (auto simp: filter_empty_conv)
    ultimately show ?thesis using False IH e by auto
  qed
qed simp

text \<open>A document of a valid name is under the prefix of a database only if it belongs to it.\<close>

lemma starts_with_database:
  assumes "validate_document_name n = Inr ()" "database_from_resource n = Inr d'"
    "database_document_prefix d = Inr p"
  shows "starts_with p n \<longleftrightarrow> d = d'"
proof -
  have p: "p = d @ ''/documents/''" using assms(3) by (rule database_document_prefix_Inr)
  show ?thesis
  proof
    assume "starts_with p n"
    then obtain r where "n = d @ CHR ''/'' # (''documents/'' @ r)" by (auto simp: starts_with_iff p)
    then have "split_path n = split_path d @ split_path (''documents/'' @ r)"
      unfolding split_path_def by (simp only: split_on_append)
    moreover have "length (split_path d) = 4"
      using assms(3) by (auto simp: database_document_prefix_def Let_def split: if_splits)
    ultimately have "split_path d = split_path d'"
      using database_from_resource_Inr(2)[OF assms(2)] by simp
    then show "d = d'" by (simp add: split_path_def)
  next
    assume "d = d'"
    then show "starts_with p n"
      using document_name_prefix[OF assms(1,2)] p by (auto simp: starts_with_iff)
  qed
qed

lemma database_of_valid:
  assumes "validate_document_name n = Inr ()"
  shows "\<exists>d. database_from_resource n = Inr d"
proof -
  obtain p db rest where ps: "split_path n = ''projects'' # p # ''databases'' # db # ''documents'' # rest"
    and ne: "p \<noteq> []" "db \<noteq> []"
    using validate_document_name_Inr[OF assms] by auto
  have nos: "CHR ''/'' \<notin> set p" "CHR ''/'' \<notin> set db"
    using split_on_parts_no_sep[of _ "CHR ''/''" n] ps by (auto simp: split_path_def)
  have "split_path (join_with ''/'' [''projects'', p, ''databases'', db]) = [''projects'', p, ''databases'', db]"
    unfolding split_path_def using nos by (intro split_on_join) auto
  then have "database_document_prefix (join_with ''/'' [''projects'', p, ''databases'', db]) =
      Inr (join_with ''/'' [''projects'', p, ''databases'', db] @ ''/documents/'')"
    using ne by (simp add: database_document_prefix_def Let_def del: join_with.simps)
  then show ?thesis using ps by (simp add: database_from_resource_def Let_def del: join_with.simps)
qed

subsection \<open>Facts about the handlers\<close>

lemma commit_Inl:
  "snd (snd (commit s db t ws now)) = Inl e \<Longrightarrow> commit s db t ws now = (s, [], Inl e)"
  by (auto simp: commit_def obind_def split: sum.splits if_splits)

lemma commit_Inr:
  assumes "commit s db t ws now = (s', es, Inr (rs, ct))"
  shows "(t \<noteq> [] \<longrightarrow> sm_get (transactions s) t = Some db) \<and> ct = now \<and>
    run_all (\<lambda>ds w. apply_write ds w now) (documents s) ws = Inr (documents s', rs) \<and>
    transactions s' = (if t = [] then transactions s else sm_del t (transactions s)) \<and>
    next_id s' = next_id s \<and>
    es = map Event (documents_changed (documents s) (documents s')) @ [ChangeSignal]"
  using assms
  by (auto simp: commit_def obind_def remove_transaction_def validate_transaction_def
      split: sum.splits if_splits option.splits)

lemma same_fields_refl_None [simp]: "same_fields None None"
  by (simp add: same_fields_def)

lemma set_documents_changed:
  assumes "sm_wf m" "sm_wf n"
  shows "set (documents_changed m n) =
    {(sm_get m k, sm_get n k) | k. \<not> same_fields (sm_get m k) (sm_get n k)}" (is "?L = ?R")
proof
  show "?L \<subseteq> ?R"
  proof
    fix x assume "x \<in> ?L"
    then consider (old) k b where "(k, b) \<in> set m" "x \<in> set (document_changed (Some b) (sm_get n k))"
      | (new) k a where "(k, a) \<in> set n" "\<not> sm_has m k" "x \<in> set (document_changed None (Some a))"
      by (auto simp: documents_changed_def split: if_splits)
    then show "x \<in> ?R"
    proof cases
      case old
      then show ?thesis using in_sm_get[OF assms(1) old(1)]
        by (auto simp: document_changed_def split: if_splits intro!: exI[of _ k])
    next
      case new
      then show ?thesis using in_sm_get[OF assms(2) new(1)]
        by (auto simp: document_changed_def sm_has_def split: if_splits intro!: exI[of _ k])
    qed
  qed
  show "?R \<subseteq> ?L"
  proof
    fix x assume "x \<in> ?R"
    then obtain k where k: "x = (sm_get m k, sm_get n k)" "\<not> same_fields (sm_get m k) (sm_get n k)"
      by blast
    show "x \<in> ?L"
    proof (cases "sm_get m k")
      case None
      then obtain a where a: "sm_get n k = Some a" using k by (cases "sm_get n k") auto
      then have "(k, a) \<in> set n" by (rule sm_get_in)
      moreover have "\<not> sm_has m k" using None by (simp add: sm_has_def)
      ultimately show ?thesis using k None a
        by (auto simp: documents_changed_def document_changed_def intro!: bexI[of _ "(k, a)"])
    next
      case (Some b)
      then have "(k, b) \<in> set m" by (rule sm_get_in)
      then show ?thesis using k Some
        by (auto simp: documents_changed_def document_changed_def intro!: bexI[of _ "(k, b)"])
    qed
  qed
qed

lemma database_documents_filter:
  assumes "store_ok s" "database_document_prefix d = Inr p"
  shows "database_documents s d =
    Inr (map snd (filter (\<lambda>(n, _). database_from_resource n = Inr d) (documents s)))"
proof -
  have ok: "documents_ok (documents s)" using assms(1) by (simp add: store_ok_def)
  have eq: "starts_with p n = (database_from_resource n = Inr d)" if "(n, doc) \<in> set (documents s)" for n doc
  proof -
    have v: "validate_document_name n = Inr ()"
      using ok that by (auto simp: documents_ok_def list_all_iff document_ok_def)
    obtain d' where "database_from_resource n = Inr d'" using database_of_valid[OF v] by blast
    then show ?thesis using starts_with_database[OF v _ assms(2)] by auto
  qed
  have "filter (\<lambda>(n, _). starts_with p n) (documents s) =
        filter (\<lambda>(n, _). database_from_resource n = Inr d) (documents s)"
    using eq by (intro filter_cong) auto
  then show ?thesis
    by (simp add: database_documents_def assms(2) takeWhile_range[OF documents_ok_wf[OF ok]])
qed

lemma batch_responses_results:
  "map bg_result (batch_responses lk ns t rt) =
     (if ns = [] then (case t of None \<Rightarrow> [] | Some _ \<Rightarrow> [None])
      else map (\<lambda>n. Some (case lk n of Some d \<Rightarrow> Found d | None \<Rightarrow> Missing n)) ns)"
  by (cases t; cases ns) (auto simp: batch_responses_def Let_def)

lemma batch_responses_tokens:
  "map bg_transaction (batch_responses lk ns t rt) =
     (case t of None \<Rightarrow> replicate (length ns) []
      | Some tok \<Rightarrow> tok # replicate (length ns - 1) [])"
  by (cases t; cases ns) (auto simp: batch_responses_def Let_def comp_def map_replicate_const)

subsection \<open>Properties\<close>


abbreviation sample_create :: request where
  "sample_create \<equiv> CreateDocument (Some (sample_document [])) ''projects/p/databases/d/documents'' ''c'' ''x''"

lemma sample_create_serve:
  "fst (serve empty_store sample_create (Timestamp 1 0) ''t'') =
     \<lparr>documents = [(sample_name, sample_document [])], transactions = [], next_id = 0\<rparr>"
  by (simp add: serve_def fst2_def create_document_def empty_store_def Let_def trim_end_char_def
      sm_has_def)


text \<open>
  Property C1.  A commit is atomic.  When it fails the store is exactly as before and nothing
  is signalled; when it succeeds the writes have been applied in order, the transaction was an
  open one of the requested database and is closed, no other transaction is touched, and the
  change events are those between the documents before and after.
\<close>

theorem commit_atomic:
  "case commit s db t ws now of
     (s', es, Inl e) \<Rightarrow> s' = s \<and> es = []
   | (s', es, Inr (rs, ct)) \<Rightarrow>
       length rs = length ws \<and> ct = now \<and>
       run_all (\<lambda>ds w. apply_write ds w now) (documents s) ws = Inr (documents s', rs) \<and>
       (t \<noteq> [] \<longrightarrow> sm_get (transactions s) t = Some db \<and> sm_get (transactions s') t = None) \<and>
       (\<forall>t'. t' \<noteq> t \<longrightarrow> sm_get (transactions s') t' = sm_get (transactions s) t') \<and>
       es = map Event (documents_changed (documents s) (documents s')) @ [ChangeSignal]"
proof (cases "snd (snd (commit s db t ws now))")
  case (Inl e)
  then show ?thesis using commit_Inl[OF Inl] by simp
next
  case (Inr x)
  obtain s' es rs ct where c: "commit s db t ws now = (s', es, Inr (rs, ct))"
    using Inr by (metis prod.collapse)
  show ?thesis using commit_Inr[OF c] run_all_length[of _ "documents s" ws "documents s'" rs]
    by (auto simp: c)
qed

lemma commit_atomic_witness:
  "sm_get (transactions (fst (commit \<lparr>documents = [], transactions = [(''t'', ''d'')], next_id = 0\<rparr>
      ''d'' ''t'' [] (Timestamp 1 0)))) ''t'' = None"
proof -
  let ?s = "\<lparr>documents = [], transactions = [(''t'', ''d'')], next_id = 0\<rparr> :: store"
  have c: "commit ?s ''d'' ''t'' [] (Timestamp 1 0) =
      (?s\<lparr>transactions := []\<rparr>, [ChangeSignal], Inr ([], Timestamp 1 0))"
    by (simp add: commit_def validate_transaction_def remove_transaction_def documents_changed_def
        sm_del_def)
  show ?thesis
    using commit_atomic[where s = ?s and db = "''d''" and t = "''t''" and ws = "[]"
        and now = "Timestamp 1 0"]
    unfolding c prod.case sum.case fst_conv by blast
qed

text \<open>
  A transaction token works once: after \<open>BeginTransaction\<close> it is valid for its
  database, and once a commit with it has succeeded, every later commit or rollback with it is
  refused and changes nothing.
\<close>

theorem transaction_single_use:
  assumes "begin_transaction s db tok = (s1, es, Inr tok)" "tok \<noteq> []" "store_ok s"
    and "commit s1 db tok ws now = (s2, es2, Inr r)"
  shows "validate_transaction s1 db tok = Inr () \<and>
    (\<exists>e. commit s2 db' tok ws' now' = (s2, [], Inl e) \<and> code e = InvalidArgument) \<and>
    (\<exists>e. rollback s2 db' tok = (s2, [], Inl e) \<and> code e = InvalidArgument)"
proof -
  obtain rs ct where r: "r = (rs, ct)" by (cases r)
  have "s1 = create_transaction s db tok"
    using assms(1) by (auto simp: begin_transaction_def obind_def split: sum.splits)
  then have "validate_transaction s1 db tok = Inr ()"
    using assms(3) by (simp add: validate_transaction_def create_transaction_def store_ok_def)
  moreover have "sm_get (transactions s2) tok = None"
    using commit_Inr[OF assms(4)[unfolded r]] assms(2) by simp
  ultimately show ?thesis
    using assms(2) by (simp add: commit_def rollback_def validate_transaction_def)
qed

lemma transaction_single_use_witness:
  "\<exists>e. commit empty_store ''projects/p/databases/d'' ''t'' [] (Timestamp 2 0) = (empty_store, [], Inl e)
       \<and> code e = InvalidArgument"
proof -
  have b: "begin_transaction empty_store ''projects/p/databases/d'' ''t'' =
      (empty_store\<lparr>transactions := [(''t'', ''projects/p/databases/d'')]\<rparr>, [], Inr ''t'')"
    by (simp add: begin_transaction_def database_document_prefix_def split_path_def
        create_transaction_def empty_store_def)
  have c: "commit (empty_store\<lparr>transactions := [(''t'', ''projects/p/databases/d'')]\<rparr>)
      ''projects/p/databases/d'' ''t'' [] (Timestamp 1 0) =
      (empty_store, [ChangeSignal], Inr ([], Timestamp 1 0))"
    by (simp add: commit_def validate_transaction_def remove_transaction_def empty_store_def
        documents_changed_def sm_del_def)
  have "store_ok empty_store" by (simp add: empty_store_def store_ok_def)
  from transaction_single_use[OF b _ this c] show ?thesis by simp
qed

text \<open>
  Clearing a database removes every document of that database and every
  transaction opened on it, and nothing of any other database, also when the name of one
  database is a prefix of the other.
\<close>

theorem clear_database_scoped:
  assumes "store_ok s" "database_document_prefix d = Inr p"
  shows "(\<forall>n. sm_get (documents (fst (clear_database s d))) n =
            (if database_from_resource n = Inr d then None else sm_get (documents s) n)) \<and>
         (\<forall>t. sm_get (transactions (fst (clear_database s d))) t =
            (if sm_get (transactions s) t = Some d then None else sm_get (transactions s) t))"
proof -
  have wf: "sm_wf (documents s)" "sm_wf (transactions s)"
    using assms(1) by (auto simp: store_ok_def documents_ok_def)
  have eq: "starts_with p n \<longleftrightarrow> database_from_resource n = Inr d"
    if "sm_get (documents s) n = Some doc" for n doc
  proof -
    have v: "validate_document_name n = Inr ()"
      using assms(1) documents_ok_get[of "documents s" n doc] that
      by (simp add: store_ok_def document_ok_def)
    obtain d' where "database_from_resource n = Inr d'" using database_of_valid[OF v] by blast
    then show ?thesis using starts_with_database[OF v _ assms(2)] by auto
  qed
  show ?thesis
    using wf eq by (auto simp: clear_database_def assms(2) split: option.splits)
qed

lemma clear_database_scoped_witness:
  "sm_get (documents (fst (clear_database
      \<lparr>documents = [(sample_name, sample_document [])], transactions = [], next_id = 0\<rparr>
      ''projects/p/databases/dd''))) sample_name = Some (sample_document [])"
  using clear_database_scoped[of
      "\<lparr>documents = [(sample_name, sample_document [])], transactions = [], next_id = 0\<rparr>"
      "''projects/p/databases/dd''" "''projects/p/databases/dd/documents/''"]
  by (simp add: store_ok_def database_document_prefix_def database_from_resource_def split_path_def
      Let_def)

text \<open>
  The documents of a database are found by one range scan: it yields exactly
  the stored documents whose name belongs to the database, in the order of their names.
\<close>

theorem database_documents_exact:
  assumes "store_ok s" "database_document_prefix d = Inr p"
  shows "database_documents s d =
    Inr (map snd (filter (\<lambda>(n, _). database_from_resource n = Inr d) (documents s)))"
  using assms by (rule database_documents_filter)

lemma database_documents_exact_witness:
  "database_documents \<lparr>documents = [(sample_name, sample_document [])], transactions = [], next_id = 0\<rparr>
     ''projects/p/databases/d'' = Inr [sample_document []]"
  by (subst database_documents_exact)
     (simp_all add: store_ok_def database_document_prefix_def database_from_resource_def
       split_path_def Let_def)

end
