(* ===== verification/Outbox.thy ===== *)
theory Outbox
  imports Smap
begin

text \<open>
  The durable event outbox: \<open>insert_outbox\<close> of \<open>src/src/persistence.rs\<close> and the claim,
  acknowledge, fail and recover operations of \<open>src/src/functions.rs\<close>, on the table
  \<open>event_outbox\<close> (rows by id, with the next id of its AUTOINCREMENT) and the counter
  \<open>event_completed\<close>.  The worker loop is a step relation in which inserts may happen between
  any two steps of the worker, and an operation on the database may fail.
\<close>

subsection \<open>State\<close>

datatype row_state = Pending | InFlight | Delivered | Dead

record outbox_row =
  source :: string
  payload :: string
  rstate :: row_state
  attempts :: nat
  available_at :: int
  lease_until :: "int option"
  last_error :: "string option"
  delivered_at :: "int option"

record outbox =
  rows :: "(nat, outbox_row) smap"
  next_row :: nat
  event_completed :: nat

datatype outbox_record = OutboxRecord (rec_source: string) (rec_payload: string)

text \<open>The errors of the persistence layer that these operations produce themselves.\<close>

datatype persistence_error = OutboxFull nat | Corrupt string | Io string

definition outbox_limit :: nat where "outbox_limit = 4096"
definition history_limit :: nat where "history_limit = 1000"
definition lease_seconds :: int where "lease_seconds = 5"
definition max_attempts :: nat where "max_attempts = 5"
definition transition_retries :: nat where "transition_retries = 5"

definition empty_outbox :: outbox where
  "empty_outbox = \<lparr>rows = [], next_row = 1, event_completed = 0\<rparr>"

subsection \<open>Operations\<close>

definition in_state :: "row_state \<Rightarrow> nat \<times> outbox_row \<Rightarrow> bool" where
  "in_state st e = (rstate (snd e) = st)"

definition outstanding :: "outbox \<Rightarrow> nat" where
  "outstanding ob = length (filter (\<lambda>e. in_state Pending e \<or> in_state InFlight e) (rows ob))"

definition insert_row :: "outbox_record \<Rightarrow> outbox \<Rightarrow> outbox" where
  "insert_row r ob =
     ob\<lparr>rows := sm_put (next_row ob)
          \<lparr>source = rec_source r, payload = rec_payload r, rstate = Pending, attempts = 0,
           available_at = 0, lease_until = None, last_error = None, delivered_at = None\<rparr> (rows ob),
        next_row := next_row ob + 1\<rparr>"

definition insert_outbox ::
  "bool \<Rightarrow> outbox \<Rightarrow> outbox_record list \<Rightarrow> persistence_error + outbox" where
  "insert_outbox events_enabled ob records =
     (if \<not> events_enabled then Inr ob
      else if outstanding ob + length records > outbox_limit then Inl (OutboxFull (outstanding ob))
      else Inr (fold insert_row records ob))"

definition recover_outbox :: "outbox \<Rightarrow> outbox" where
  "recover_outbox ob =
     ob\<lparr>rows := sm_update (\<lambda>_ r. if rstate r = InFlight then r\<lparr>rstate := Pending, lease_until := None\<rparr>
                                else r) (rows ob)\<rparr>"

definition due :: "int \<Rightarrow> outbox_row \<Rightarrow> bool" where
  "due now r =
     ((rstate r = Pending \<and> available_at r \<le> now) \<or>
      (rstate r = InFlight \<and> (case lease_until r of Some l \<Rightarrow> l \<le> now | None \<Rightarrow> False)))"

record durable_row =
  dr_id :: nat
  dr_source :: string
  dr_payload :: string
  dr_attempts :: nat

definition claim_outbox :: "outbox \<Rightarrow> int \<Rightarrow> durable_row option \<times> outbox" where
  "claim_outbox ob now =
     (case List.find (\<lambda>(_, r). due now r) (rows ob) of
        None \<Rightarrow> (None, ob)
      | Some (i, r) \<Rightarrow>
          (Some \<lparr>dr_id = i, dr_source = source r, dr_payload = payload r, dr_attempts = attempts r + 1\<rparr>,
           ob\<lparr>rows := sm_put i (r\<lparr>rstate := InFlight, attempts := attempts r + 1,
                                lease_until := Some (now + lease_seconds)\<rparr>) (rows ob)\<rparr>))"

text \<open>
  \<open>DELETE ... WHERE state=st AND id NOT IN (SELECT id ... ORDER BY id DESC LIMIT 1000)\<close>.
\<close>

definition prune :: "row_state \<Rightarrow> (nat, outbox_row) smap \<Rightarrow> (nat, outbox_row) smap" where
  "prune st m =
     (let ids = map fst (filter (in_state st) m);
          keep = drop (length ids - history_limit) ids
      in filter (\<lambda>e. \<not> in_state st e \<or> fst e \<in> set keep) m)"

definition acknowledge_outbox :: "outbox \<Rightarrow> nat \<Rightarrow> int \<Rightarrow> persistence_error + outbox" where
  "acknowledge_outbox ob i now =
     (case sm_get (rows ob) i of
        Some r \<Rightarrow>
          (if rstate r = InFlight
           then Inr (ob\<lparr>rows := prune Delivered
                        (sm_put i (r\<lparr>rstate := Delivered, delivered_at := Some now,
                                     lease_until := None, last_error := None\<rparr>) (rows ob)),
                      event_completed := event_completed ob + 1\<rparr>)
           else Inl (Corrupt ''durable event is not in flight during acknowledgement''))
      | None \<Rightarrow> Inl (Corrupt ''durable event is not in flight during acknowledgement''))"

text \<open>The delay before the next attempt: \<open>1 << (attempts - 1).clamp(0, 4)\<close> seconds.\<close>

definition retry_delay :: "nat \<Rightarrow> int" where
  "retry_delay n = 2 ^ min 4 (n - 1)"

definition fail_outbox :: "outbox \<Rightarrow> durable_row \<Rightarrow> string \<Rightarrow> int \<Rightarrow> outbox" where
  "fail_outbox ob row msg now =
     (case sm_get (rows ob) (dr_id row) of
        None \<Rightarrow> (if dr_attempts row \<ge> max_attempts then ob\<lparr>rows := prune Dead (rows ob)\<rparr> else ob)
      | Some r \<Rightarrow>
          (if dr_attempts row \<ge> max_attempts
           then ob\<lparr>rows := prune Dead (sm_put (dr_id row)
                  (r\<lparr>rstate := Dead, lease_until := None, last_error := Some msg\<rparr>) (rows ob))\<rparr>
           else ob\<lparr>rows := sm_put (dr_id row)
                  (r\<lparr>rstate := Pending, lease_until := None, last_error := Some msg,
                     available_at := now + retry_delay (dr_attempts row)\<rparr>) (rows ob)\<rparr>))"

text \<open>
  \<open>acknowledge_outbox_with_retry\<close> and \<open>fail_outbox_with_retry\<close>: up to five tries, the first
  success ends the loop, and the last error is returned.  \<open>io\<close> lists, try by try, the failure
  the database layer injects, if any.
\<close>

fun with_retry ::
  "nat \<Rightarrow> persistence_error option list \<Rightarrow> (outbox \<Rightarrow> persistence_error + outbox) \<Rightarrow> outbox \<Rightarrow>
   persistence_error \<Rightarrow> persistence_error + outbox" where
  "with_retry 0 io f ob last_err = Inl last_err"
| "with_retry (Suc n) io f ob last_err =
     (case (case io of Some e # _ \<Rightarrow> Inl e | _ \<Rightarrow> f ob) of
        Inr ob' \<Rightarrow> Inr ob'
      | Inl e \<Rightarrow> with_retry n (tl io) f ob e)"

definition acknowledge_outbox_with_retry ::
  "outbox \<Rightarrow> nat \<Rightarrow> int \<Rightarrow> persistence_error option list \<Rightarrow> persistence_error + outbox" where
  "acknowledge_outbox_with_retry ob i now io =
     with_retry transition_retries io (\<lambda>ob. acknowledge_outbox ob i now) ob (Io [])"

definition fail_outbox_with_retry ::
  "outbox \<Rightarrow> durable_row \<Rightarrow> string \<Rightarrow> int \<Rightarrow> persistence_error option list \<Rightarrow>
   persistence_error + outbox" where
  "fail_outbox_with_retry ob row msg now io =
     with_retry transition_retries io (\<lambda>ob. Inr (fail_outbox ob row msg now)) ob (Io [])"

text \<open>The end of a delivery: acknowledge after success, fail after an error.\<close>

definition settle ::
  "outbox \<Rightarrow> durable_row \<Rightarrow> string + unit \<Rightarrow> int \<Rightarrow> persistence_error option list \<Rightarrow>
   persistence_error + outbox" where
  "settle ob row result now io =
     (case result of
        Inl msg \<Rightarrow> fail_outbox_with_retry ob row msg now io
      | Inr _ \<Rightarrow> acknowledge_outbox_with_retry ob (dr_id row) now io)"

subsection \<open>The worker\<close>

record worker_state =
  table :: outbox
  current :: "durable_row option"

text \<open>
  Only the worker claims; an insert may come between any of its steps.  A delivery that could
  not be settled leaves the table as it was.  A restart recovers the table.
\<close>

inductive worker_step :: "worker_state \<Rightarrow> worker_state \<Rightarrow> bool" where
  insert_events: "insert_outbox en (table w) rs = Inr ob \<Longrightarrow> worker_step w (w\<lparr>table := ob\<rparr>)"
| claim_some: "current w = None \<Longrightarrow> claim_outbox (table w) now = (Some row, ob) \<Longrightarrow>
    worker_step w (w\<lparr>table := ob, current := Some row\<rparr>)"
| settled: "current w = Some row \<Longrightarrow> settle (table w) row result now io = Inr ob \<Longrightarrow>
    worker_step w (w\<lparr>table := ob, current := None\<rparr>)"
| unsettled: "current w = Some row \<Longrightarrow> settle (table w) row result now io = Inl e \<Longrightarrow>
    worker_step w (w\<lparr>current := None\<rparr>)"
| restart: "worker_step w (w\<lparr>table := recover_outbox (table w), current := None\<rparr>)"

inductive_cases worker_stepE: "worker_step w w'"

inductive worker_reachable :: "worker_state \<Rightarrow> bool" where
  start: "worker_reachable \<lparr>table = empty_outbox, current = None\<rparr>"
| step: "worker_reachable w \<Longrightarrow> worker_step w w' \<Longrightarrow> worker_reachable w'"

subsection \<open>The invariant\<close>

definition count_state :: "row_state \<Rightarrow> (nat, outbox_row) smap \<Rightarrow> nat" where
  "count_state st m = length (filter (in_state st) m)"

definition outbox_ok :: "outbox \<Rightarrow> bool" where
  "outbox_ok ob =
     (sm_wf (rows ob) \<and> list_all (\<lambda>e. fst e < next_row ob) (rows ob) \<and>
      outstanding ob \<le> outbox_limit \<and>
      count_state Delivered (rows ob) \<le> history_limit \<and>
      count_state Dead (rows ob) \<le> history_limit \<and>
      list_all (\<lambda>e. in_state Dead e \<longrightarrow> max_attempts \<le> attempts (snd e)) (rows ob))"

definition worker_ok :: "worker_state \<Rightarrow> bool" where
  "worker_ok w =
     (outbox_ok (table w) \<and>
      (case current w of
         None \<Rightarrow> True
       | Some row \<Rightarrow> (\<exists>r. sm_get (rows (table w)) (dr_id row) = Some r \<and> rstate r = InFlight \<and>
                        attempts r = dr_attempts row)))"

text \<open>Counting entries after one of them is replaced.\<close>

lemma length_filter_put:
  assumes "sm_wf m" "sm_get m k = Some r"
  shows "length (filter P (sm_put k v m)) + (if P (k, r) then 1 else 0) =
         length (filter P m) + (if P (k, v) then 1 else 0)"
  using assms
proof (induction m)
  case (Cons e m)
  obtain x y where e: "e = (x, y)" by (cases e)
  have "k \<noteq> x \<Longrightarrow> x < k"
    using Cons.prems e by (auto dest!: sm_get_in)
  then show ?case using Cons e by (auto split: if_splits)
qed simp

lemma length_filter_put_new:
  assumes "sm_wf m" "sm_get m k = None"
  shows "length (filter P (sm_put k v m)) = length (filter P m) + (if P (k, v) then 1 else 0)"
  using assms by (induction m) (auto split: if_splits)

lemma prune_wf: "sm_wf m \<Longrightarrow> sm_wf (prune st m)"
  by (simp add: prune_def Let_def sm_wf_filter)

lemma set_prune: "set (prune st m) \<subseteq> set m"
  by (auto simp: prune_def Let_def)

lemma prune_other: "st' \<noteq> st \<Longrightarrow> filter (in_state st') (prune st m) = filter (in_state st') m"
  by (auto simp: prune_def Let_def in_state_def intro!: filter_cong)

lemma count_prune:
  assumes "sm_wf m"
  shows "count_state st (prune st m) \<le> history_limit"
proof -
  let ?ids = "map fst (filter (in_state st) m)"
  let ?keep = "drop (length ?ids - history_limit) ?ids"
  let ?l = "filter (in_state st) (prune st m)"
  have "distinct (map fst ?l)"
    using sm_wf_distinct[OF sm_wf_filter[OF prune_wf[OF assms]]] by simp
  then have "length ?l = card (set (map fst ?l))" by (metis distinct_card length_map)
  also have "\<dots> \<le> card (set ?keep)"
    by (rule card_mono) (auto simp: prune_def Let_def)
  also have "\<dots> \<le> length ?keep" by (rule card_length)
  also have "\<dots> \<le> history_limit" by simp
  finally show ?thesis by (simp add: count_state_def)
qed

lemma count_prune_other: "st' \<noteq> st \<Longrightarrow> count_state st' (prune st m) = count_state st' m"
  by (simp add: count_state_def prune_other)

text \<open>Every part of the invariant counts entries or bounds them; one lemma replaces an entry.\<close>

abbreviation open_row :: "nat \<times> outbox_row \<Rightarrow> bool" where
  "open_row e \<equiv> in_state Pending e \<or> in_state InFlight e"

lemma outstanding_simp: "outstanding ob = length (filter open_row (rows ob))"
  by (simp add: outstanding_def)

lemma outbox_ok_get: "outbox_ok ob \<Longrightarrow> sm_get (rows ob) i = Some r \<Longrightarrow> i < next_row ob"
  by (auto simp: outbox_ok_def list_all_iff dest!: sm_get_in)

lemma replace_row_ok:
  assumes ok: "outbox_ok ob" and r: "sm_get (rows ob) i = Some r" "open_row (i, r)"
    and v: "rstate v = Pending \<or> rstate v = InFlight"
  shows "outbox_ok (ob\<lparr>rows := sm_put i v (rows ob)\<rparr>)"
proof -
  have wf: "sm_wf (rows ob)" using ok by (simp add: outbox_ok_def)
  note cnt = length_filter_put[OF wf r(1), of _ v]
  have "in_state Delivered (i, r) = False" "in_state Dead (i, r) = False" "open_row (i, v)"
    "in_state Delivered (i, v) = False" "in_state Dead (i, v) = False"
    using r(2) v by (auto simp: in_state_def)
  then show ?thesis
    using ok wf r(2) outbox_ok_get[OF ok r(1)] cnt[of open_row] cnt[of "in_state Delivered"]
      cnt[of "in_state Dead"]
    by (auto simp: outbox_ok_def outstanding_simp count_state_def list_all_iff set_sm_put)
qed

lemma close_row_ok:
  assumes ok: "outbox_ok ob" and r: "sm_get (rows ob) i = Some r" "open_row (i, r)"
    and v: "rstate v = st" "st = Delivered \<or> st = Dead" "st = Dead \<Longrightarrow> max_attempts \<le> attempts v"
  shows "outbox_ok (ob\<lparr>rows := prune st (sm_put i v (rows ob)), event_completed := c\<rparr>)"
proof -
  let ?m = "sm_put i v (rows ob)"
  have wf: "sm_wf (rows ob)" using ok by (simp add: outbox_ok_def)
  then have wf': "sm_wf ?m" by simp
  note cnt = length_filter_put[OF wf r(1), of _ v]
  have st: "in_state Delivered (i, r) = False" "in_state Dead (i, r) = False" "open_row (i, v) = False"
    "in_state Delivered (i, v) = (st = Delivered)" "in_state Dead (i, v) = (st = Dead)"
    using r(2) v by (auto simp: in_state_def)
  have "filter open_row (prune st ?m) = filter open_row ?m"
    using v(2) by (auto simp: prune_def Let_def in_state_def intro!: filter_cong)
  then have a: "length (filter open_row (prune st ?m)) \<le> outbox_limit"
    using ok cnt[of open_row] st by (simp add: outbox_ok_def outstanding_simp)
  have b: "count_state Delivered (prune st ?m) \<le> history_limit"
    using ok cnt[of "in_state Delivered"] st count_prune[OF wf', of st]
      count_prune_other[of Delivered st ?m]
    by (cases "st = Delivered") (auto simp: outbox_ok_def count_state_def)
  have c: "count_state Dead (prune st ?m) \<le> history_limit"
    using ok cnt[of "in_state Dead"] st count_prune[OF wf', of st] count_prune_other[of Dead st ?m]
    by (cases "st = Dead") (auto simp: outbox_ok_def count_state_def)
  have d: "fst e < next_row ob \<and> (in_state Dead e \<longrightarrow> max_attempts \<le> attempts (snd e))"
    if "e \<in> set (prune st ?m)" for e
    using that set_prune[of st ?m] ok outbox_ok_get[OF ok r(1)] v wf
    by (auto simp: set_sm_put outbox_ok_def list_all_iff in_state_def)
  show ?thesis using a b c d wf' by (auto simp: outbox_ok_def outstanding_simp list_all_iff prune_wf)
qed

lemma find_due: "List.find (\<lambda>(_, r). due now r) m = Some (i, r) \<Longrightarrow>
    (i, r) \<in> set m \<and> due now r \<and> open_row (i, r)"
  by (auto simp: find_Some_iff due_def in_state_def in_set_conv_nth)

lemma claim_outbox_Some:
  assumes "outbox_ok ob" "claim_outbox ob now = (Some row, ob')"
  obtains r where "sm_get (rows ob) (dr_id row) = Some r" "due now r" "open_row (dr_id row, r)"
    "dr_attempts row = attempts r + 1" "dr_source row = source r" "dr_payload row = payload r"
    "ob' = ob\<lparr>rows := sm_put (dr_id row) (r\<lparr>rstate := InFlight, attempts := attempts r + 1,
             lease_until := Some (now + lease_seconds)\<rparr>) (rows ob)\<rparr>"
proof -
  obtain i r where f: "List.find (\<lambda>(_, r). due now r) (rows ob) = Some (i, r)"
    using assms(2) by (auto simp: claim_outbox_def split: option.splits)
  have "sm_get (rows ob) i = Some r"
    using find_due[OF f] assms(1) in_sm_get by (auto simp: outbox_ok_def)
  then show thesis using that f find_due[OF f] assms(2)
    by (auto simp: claim_outbox_def)
qed

lemma claim_outbox_ok:
  assumes "outbox_ok ob" "claim_outbox ob now = (Some row, ob')"
  shows "outbox_ok ob' \<and> (\<exists>r. sm_get (rows ob') (dr_id row) = Some r \<and> rstate r = InFlight \<and>
           attempts r = dr_attempts row)"
  using assms
proof (rule claim_outbox_Some)
  fix r :: outbox_row
  let ?v = "r\<lparr>rstate := InFlight, attempts := attempts r + 1, lease_until := Some (now + lease_seconds)\<rparr>"
  assume r: "sm_get (rows ob) (dr_id row) = Some r" "open_row (dr_id row, r)"
    "dr_attempts row = attempts r + 1" and ob': "ob' = ob\<lparr>rows := sm_put (dr_id row) ?v (rows ob)\<rparr>"
  have "sm_wf (rows ob)" using assms(1) by (simp add: outbox_ok_def)
  then show ?thesis using replace_row_ok[OF assms(1) r(1,2), of ?v] r(3) by (simp add: ob')
qed

lemma insert_row_ok_aux:
  assumes "sm_wf (rows ob)" "list_all (\<lambda>e. fst e < next_row ob) (rows ob)"
  shows "sm_wf (rows (insert_row r ob)) \<and>
         list_all (\<lambda>e. fst e < next_row (insert_row r ob)) (rows (insert_row r ob)) \<and>
         outstanding (insert_row r ob) = Suc (outstanding ob) \<and>
         count_state Delivered (rows (insert_row r ob)) = count_state Delivered (rows ob) \<and>
         count_state Dead (rows (insert_row r ob)) = count_state Dead (rows ob)"
proof -
  have "sm_get (rows ob) (next_row ob) = None"
    using assms(2) by (auto simp: sm_get_None list_all_iff)
  note new = length_filter_put_new[OF assms(1) this]
  show ?thesis
    using assms by (auto simp: insert_row_def outstanding_simp count_state_def new in_state_def
        list_all_iff set_sm_put)
qed

lemma insert_rows_ok:
  "outbox_ok ob \<Longrightarrow> outstanding ob + length rs \<le> outbox_limit \<Longrightarrow> outbox_ok (fold insert_row rs ob)"
proof (induction rs arbitrary: ob)
  case (Cons r rs)
  have aux: "sm_wf (rows ob)" "list_all (\<lambda>e. fst e < next_row ob) (rows ob)"
    using Cons.prems by (auto simp: outbox_ok_def)
  have "list_all (\<lambda>e. in_state Dead e \<longrightarrow> max_attempts \<le> attempts (snd e)) (rows (insert_row r ob))"
    using Cons.prems aux by (auto simp: outbox_ok_def insert_row_def list_all_iff set_sm_put in_state_def)
  then have "outbox_ok (insert_row r ob)"
    using insert_row_ok_aux[OF aux, of r] Cons.prems by (simp add: outbox_ok_def)
  then show ?case using Cons.IH insert_row_ok_aux[OF aux, of r] Cons.prems(2) by simp
qed simp

lemma insert_outbox_ok: "outbox_ok ob \<Longrightarrow> insert_outbox en ob rs = Inr ob' \<Longrightarrow> outbox_ok ob'"
  by (auto simp: insert_outbox_def insert_rows_ok split: if_splits)

lemma recover_outbox_ok: "outbox_ok ob \<Longrightarrow> outbox_ok (recover_outbox ob)"
proof -
  assume ok: "outbox_ok ob"
  let ?f = "\<lambda>(k::nat, r). (k, if rstate r = InFlight then r\<lparr>rstate := Pending, lease_until := None\<rparr> else r)"
  have rows: "rows (recover_outbox ob) = map ?f (rows ob)"
    by (simp add: recover_outbox_def sm_update_def)
  have "open_row (?f e) = open_row e" "in_state Delivered (?f e) = in_state Delivered e"
    "in_state Dead (?f e) = in_state Dead e" for e
    by (cases e; auto simp: in_state_def)+
  then have "length (filter open_row (map ?f m)) = length (filter open_row m)"
       "length (filter (in_state Delivered) (map ?f m)) = length (filter (in_state Delivered) m)"
       "length (filter (in_state Dead) (map ?f m)) = length (filter (in_state Dead) m)" for m
    by (induction m) simp_all
  moreover have "sm_wf (rows (recover_outbox ob))"
    using ok by (simp add: recover_outbox_def outbox_ok_def)
  moreover have "fst e < next_row ob" "in_state Dead e \<Longrightarrow> max_attempts \<le> attempts (snd e)"
    if "e \<in> set (map ?f (rows ob))" for e
    using that ok by (auto simp: outbox_ok_def list_all_iff in_state_def split: if_splits)
  moreover have "next_row (recover_outbox ob) = next_row ob" by (simp add: recover_outbox_def)
  ultimately show ?thesis
    using ok unfolding outbox_ok_def outstanding_simp count_state_def rows list_all_iff by simp
qed

subsection \<open>The worker keeps the invariant\<close>

lemma with_retry_Inr: "with_retry n io f ob e = Inr ob' \<Longrightarrow> f ob = Inr ob'"
  by (induction n io f ob e rule: with_retry.induct)
     (auto split: sum.splits list.splits option.splits if_splits)

lemma settle_Inr:
  assumes "settle ob row result now io = Inr ob'"
  shows "(\<exists>msg. result = Inl msg \<and> ob' = fail_outbox ob row msg now) \<or>
         (result = Inr () \<and> acknowledge_outbox ob (dr_id row) now = Inr ob')"
proof (cases result)
  case (Inl msg)
  then show ?thesis using assms with_retry_Inr[of _ io "\<lambda>ob. Inr (fail_outbox ob row msg now)"]
    by (fastforce simp: settle_def fail_outbox_with_retry_def)
next
  case (Inr u)
  then show ?thesis using assms with_retry_Inr[of _ io "\<lambda>ob. acknowledge_outbox ob (dr_id row) now"]
    by (fastforce simp: settle_def acknowledge_outbox_with_retry_def)
qed

lemma settle_ok:
  assumes "worker_ok w" "current w = Some row" "settle (table w) row result now io = Inr ob"
  shows "outbox_ok ob"
proof -
  obtain r where r: "sm_get (rows (table w)) (dr_id row) = Some r" "rstate r = InFlight"
    "attempts r = dr_attempts row" and ok: "outbox_ok (table w)"
    using assms(1,2) by (auto simp: worker_ok_def)
  have op: "open_row (dr_id row, r)" using r(2) by (simp add: in_state_def)
  from settle_Inr[OF assms(3)] show ?thesis
  proof
    assume "\<exists>msg. result = Inl msg \<and> ob = fail_outbox (table w) row msg now"
    then obtain msg where ob: "ob = fail_outbox (table w) row msg now" by blast
    show ?thesis
    proof (cases "dr_attempts row \<ge> max_attempts")
      case True
      let ?v = "r\<lparr>rstate := Dead, lease_until := None, last_error := Some msg\<rparr>"
      have "outbox_ok ((table w)\<lparr>rows := prune Dead (sm_put (dr_id row) ?v (rows (table w))),
              event_completed := event_completed (table w)\<rparr>)"
        using r(3) True by (intro close_row_ok[OF ok r(1) op]) auto
      then show ?thesis using True r(1) by (simp add: ob fail_outbox_def)
    next
      case False
      let ?v = "r\<lparr>rstate := Pending, lease_until := None, last_error := Some msg,
                  available_at := now + retry_delay (dr_attempts row)\<rparr>"
      have "outbox_ok ((table w)\<lparr>rows := sm_put (dr_id row) ?v (rows (table w))\<rparr>)"
        by (intro replace_row_ok[OF ok r(1) op]) auto
      then show ?thesis using False r(1) by (simp add: ob fail_outbox_def)
    qed
  next
    assume "result = Inr () \<and> acknowledge_outbox (table w) (dr_id row) now = Inr ob"
    then have ob: "acknowledge_outbox (table w) (dr_id row) now = Inr ob" by blast
    show ?thesis using ob r
      by (auto simp: acknowledge_outbox_def intro!: close_row_ok[OF ok r(1) op])
  qed
qed

lemma insert_rows_keep:
  "sm_wf (rows ob) \<Longrightarrow> list_all (\<lambda>e. fst e < next_row ob) (rows ob) \<Longrightarrow> i < next_row ob \<Longrightarrow>
   sm_get (rows (fold insert_row rs ob)) i = sm_get (rows ob) i"
proof (induction rs arbitrary: ob)
  case (Cons r rs)
  then show ?case
    using insert_row_ok_aux[OF Cons.prems(1,2), of r] Cons.IH[of "insert_row r ob"]
    by (simp add: insert_row_def)
qed simp

lemma insert_outbox_keep:
  assumes "outbox_ok ob" "insert_outbox en ob rs = Inr ob'" "sm_get (rows ob) i = Some r"
  shows "sm_get (rows ob') i = Some r"
proof -
  have a: "sm_wf (rows ob)" "list_all (\<lambda>e. fst e < next_row ob) (rows ob)"
    using assms(1) by (auto simp: outbox_ok_def)
  show ?thesis
    using assms(2,3) insert_rows_keep[OF a outbox_ok_get[OF assms(1,3)], of rs]
    by (auto simp: insert_outbox_def split: if_splits)
qed

lemma worker_step_ok: "worker_step w w' \<Longrightarrow> worker_ok w \<Longrightarrow> worker_ok w'"
proof (induction rule: worker_step.induct)
  case (insert_events en w rs ob)
  then show ?case
    using insert_outbox_ok insert_outbox_keep
    by (fastforce simp: worker_ok_def split: option.splits)
next
  case (claim_some w now row ob)
  then show ?case using claim_outbox_ok by (fastforce simp: worker_ok_def)
next
  case (settled w row result now io ob)
  then show ?case using settle_ok by (simp add: worker_ok_def)
next
  case (unsettled w row result now io e)
  then show ?case by (simp add: worker_ok_def)
next
  case (restart w)
  then show ?case by (simp add: worker_ok_def recover_outbox_ok)
qed

lemma worker_reachable_ok: "worker_reachable w \<Longrightarrow> worker_ok w"
proof (induction rule: worker_reachable.induct)
  case start
  then show ?case
    by (simp add: worker_ok_def outbox_ok_def empty_outbox_def outstanding_simp count_state_def)
qed (rule worker_step_ok)

text \<open>A settled delivery changes no other open row.\<close>

lemma sm_get_prune_open:
  assumes "sm_wf m" "sm_get m i = Some r" "\<not> in_state st (i, r)"
  shows "sm_get (prune st m) i = Some r"
  using assms sm_get_in[OF assms(2)]
  by (intro in_sm_get prune_wf) (auto simp: prune_def Let_def)

lemma settle_other:
  assumes "outbox_ok ob" "settle ob row result now io = Inr ob'" "i \<noteq> dr_id row"
    "sm_get (rows ob) i = Some r" "open_row (i, r)"
  shows "sm_get (rows ob') i = Some r"
proof -
  have wf: "sm_wf (rows ob)" using assms(1) by (simp add: outbox_ok_def)
  have st: "\<not> in_state Delivered (i, r)" "\<not> in_state Dead (i, r)"
    using assms(5) by (auto simp: in_state_def)
  show ?thesis
    using settle_Inr[OF assms(2)] wf st assms(3,4)
    by (auto simp: fail_outbox_def acknowledge_outbox_def sm_get_prune_open
        split: option.splits if_splits)
qed

text \<open>The row found first is the one with the least id.\<close>

lemma find_first:
  assumes "sm_wf m" "List.find P m = Some (i, r)" "sm_get m j = Some r'" "j < i"
  shows "\<not> P (j, r')"
proof -
  obtain n where n: "n < length m" "m ! n = (i, r)" "\<forall>k < n. \<not> P (m ! k)"
    using assms(2) by (auto simp: find_Some_iff)
  obtain k where k: "k < length m" "m ! k = (j, r')"
    using sm_get_in[OF assms(3)] by (auto simp: in_set_conv_nth)
  have "sorted_wrt (<) (map fst m)" using assms(1) by (simp add: sm_wf_def)
  then have "k < n"
    using n(1,2) k assms(4) sorted_wrt_nth_less[of "(<)" "map fst m" n k]
    by (cases n k rule: linorder_cases) auto
  then show ?thesis using n(3) k(2) by auto
qed

lemma insert_rows_get:
  "sm_wf (rows ob) \<Longrightarrow> list_all (\<lambda>e. fst e < next_row ob) (rows ob) \<Longrightarrow> k < length rs \<Longrightarrow>
   \<exists>r. sm_get (rows (fold insert_row rs ob)) (next_row ob + k) = Some r \<and>
       source r = rec_source (rs ! k) \<and> payload r = rec_payload (rs ! k) \<and> rstate r = Pending \<and>
       attempts r = 0"
proof (induction rs arbitrary: ob k)
  case (Cons x rs)
  have nxt: "next_row (insert_row x ob) = Suc (next_row ob)" by (simp add: insert_row_def)
  note aux = insert_row_ok_aux[OF Cons.prems(1,2), of x]
  show ?case
  proof (cases k)
    case 0
    have "sm_get (rows (fold insert_row rs (insert_row x ob))) (next_row ob) =
          sm_get (rows (insert_row x ob)) (next_row ob)"
      using aux nxt by (intro insert_rows_keep) auto
    moreover have "sm_get (rows (insert_row x ob)) (next_row ob) =
       Some \<lparr>source = rec_source x, payload = rec_payload x, rstate = Pending, attempts = 0,
             available_at = 0, lease_until = None, last_error = None, delivered_at = None\<rparr>"
      using Cons.prems(1) by (simp add: insert_row_def)
    ultimately show ?thesis using 0 by simp
  next
    case (Suc j)
    then show ?thesis using Cons.IH[of "insert_row x ob" j] aux nxt Cons.prems(3) by simp
  qed
qed simp

lemma insert_rows_outstanding:
  "sm_wf (rows ob) \<Longrightarrow> list_all (\<lambda>e. fst e < next_row ob) (rows ob) \<Longrightarrow>
   outstanding (fold insert_row rs ob) = outstanding ob + length rs"
proof (induction rs arbitrary: ob)
  case (Cons x rs)
  then show ?case using insert_row_ok_aux[OF Cons.prems, of x] by simp
qed simp

subsection \<open>Properties\<close>





text \<open>
  A claim takes the due event with the least id and leases it for five seconds,
  during which it is not due; when it takes nothing, no event is due.
\<close>

theorem claim_outbox_first_due:
  assumes "outbox_ok ob"
  shows "case claim_outbox ob now of
     (None, ob') \<Rightarrow> ob' = ob \<and> (\<forall>i r. sm_get (rows ob) i = Some r \<longrightarrow> \<not> due now r)
   | (Some row, ob') \<Rightarrow>
       (\<exists>r. sm_get (rows ob) (dr_id row) = Some r \<and> due now r \<and> dr_attempts row = attempts r + 1) \<and>
       (\<forall>j r. j < dr_id row \<and> sm_get (rows ob) j = Some r \<longrightarrow> \<not> due now r) \<and>
       (\<exists>r. sm_get (rows ob') (dr_id row) = Some r \<and> (\<forall>t < now + 5. \<not> due t r)) \<and>
       (\<forall>j. j \<noteq> dr_id row \<longrightarrow> sm_get (rows ob') j = sm_get (rows ob) j)"
proof (cases "List.find (\<lambda>(_, r). due now r) (rows ob)")
  case None
  then have "\<not> due now r" if "sm_get (rows ob) i = Some r" for i r
    using sm_get_in[OF that] by (auto simp: find_None_iff)
  then show ?thesis by (simp add: claim_outbox_def None)
next
  case (Some e)
  obtain i r where e: "e = (i, r)" by (cases e)
  have wf: "sm_wf (rows ob)" using assms by (simp add: outbox_ok_def)
  have g: "sm_get (rows ob) i = Some r" "due now r"
    using find_due[OF Some[unfolded e]] in_sm_get[OF wf] by auto
  have least: "\<not> due now r'" if "sm_get (rows ob) j = Some r'" "j < i" for j r'
    using find_first[OF wf Some[unfolded e] that] by simp
  show ?thesis using Some e g least wf
    by (auto simp: claim_outbox_def due_def lease_seconds_def)
qed

lemma claim_outbox_first_due_witness:
  "fst (claim_outbox (fold insert_row [OutboxRecord ''a'' ''p'', OutboxRecord ''b'' ''q''] empty_outbox) 0)
     \<noteq> None"
proof -
  let ?ob = "fold insert_row [OutboxRecord ''a'' ''p'', OutboxRecord ''b'' ''q''] empty_outbox"
  have ok: "outbox_ok ?ob"
    by (rule insert_rows_ok) (simp_all add: outbox_ok_def empty_outbox_def outstanding_simp
        outbox_limit_def count_state_def)
  have "\<exists>r. sm_get (rows ?ob) 1 = Some r \<and> due 0 r"
    by (simp add: insert_row_def empty_outbox_def due_def)
  then show ?thesis using claim_outbox_first_due[OF ok, of 0]
    by (cases "claim_outbox ?ob 0") (fastforce split: option.splits)
qed

text \<open>
  Property C9.  Inserting a batch of events is all or nothing: it is refused exactly when the
  open events would exceed 4096, and otherwise the events get the next ids in order, pending
  and untried, while every earlier row stays as it was.
\<close>

theorem insert_outbox_all_or_nothing:
  assumes "outbox_ok ob"
  shows "case insert_outbox True ob rs of
     Inl e \<Rightarrow> e = OutboxFull (outstanding ob) \<and> 4096 < outstanding ob + length rs
   | Inr ob' \<Rightarrow> outbox_ok ob' \<and> outstanding ob' = outstanding ob + length rs \<and>
       (\<forall>k < length rs. \<exists>r. sm_get (rows ob') (next_row ob + k) = Some r \<and>
          source r = rec_source (rs ! k) \<and> payload r = rec_payload (rs ! k) \<and>
          rstate r = Pending \<and> attempts r = 0) \<and>
       (\<forall>i < next_row ob. sm_get (rows ob') i = sm_get (rows ob) i)"
proof -
  have a: "sm_wf (rows ob)" "list_all (\<lambda>e. fst e < next_row ob) (rows ob)"
    using assms by (auto simp: outbox_ok_def)
  show ?thesis
    using insert_rows_ok[OF assms, of rs] insert_rows_get[OF a] insert_rows_outstanding[OF a]
      insert_rows_keep[OF a]
    by (simp add: insert_outbox_def outbox_limit_def)
qed

lemma insert_outbox_all_or_nothing_witness:
  "\<exists>ob. insert_outbox True empty_outbox [OutboxRecord ''a'' ''p''] = Inr ob \<and> outstanding ob = 1"
proof -
  have "outbox_ok empty_outbox"
    by (simp add: outbox_ok_def empty_outbox_def outstanding_simp count_state_def)
  from insert_outbox_all_or_nothing[OF this, of "[OutboxRecord ''a'' ''p'']"] show ?thesis
    by (simp add: insert_outbox_def empty_outbox_def outstanding_simp outbox_limit_def)
qed

end
