(* ===== verification/Firestore_Persistent.thy ===== *)
theory Firestore_Persistent
  imports Firestore_Service Outbox "HOL-Library.Countable"
begin

text \<open>
  The durable Firestore backend of \<open>src/src/firestore.rs\<close>: the branches of the handlers that
  run when a persistence is configured, on the table \<open>firestore_documents\<close>, the counter of
  automatic ids and the event outbox, with every database transaction either committed or
  rolled back.  The wire encoding of documents (\<open>prost\<close>) and the serialization of an event
  (\<open>serde_json\<close>, base64) are the parameters \<open>enc\<close>, \<open>dec\<close> and \<open>ser\<close>; the only fact used of
  them is that decoding undoes encoding.  The refinement relates the table to the documents
  of the in-memory service.
\<close>

subsection \<open>State\<close>

record durable =
  doc_table :: "(string, string \<times> string) smap"
  auto_id :: nat
  event_outbox :: outbox
  events_enabled :: bool

text \<open>A database and the in-memory store, of which the durable handlers use the transactions.\<close>

type_synonym 'a durable_outcome = "durable \<times> effect list \<times> 'a res"

definition show_persistence_error :: "persistence_error \<Rightarrow> string" where
  "show_persistence_error e =
     (case e of
        OutboxFull n \<Rightarrow> ''durable Functions outbox is full ('' @ show_nat n @
                        '' pending or in-flight events)''
      | Corrupt m \<Rightarrow> ''persistence database failed integrity_check: '' @ m
      | Io m \<Rightarrow> ''persistence I/O error: '' @ m)"

definition persistence_status :: "persistence_error \<Rightarrow> status" where
  "persistence_status e =
     Status Unavailable (''durable Firestore operation failed: '' @ show_persistence_error e)"

definition decode_document :: "(string \<Rightarrow> document option) \<Rightarrow> string \<Rightarrow> persistence_error + document" where
  "decode_document dec bytes = of_option (Io ''conversion failure'') (dec bytes)"

subsection \<open>Reading\<close>

definition load_document ::
  "(string \<Rightarrow> document option) \<Rightarrow> durable \<Rightarrow> string \<Rightarrow> persistence_error + document option" where
  "load_document dec p name =
     (case sm_get (doc_table p) name of
        None \<Rightarrow> Inr None
      | Some (_, bytes) \<Rightarrow> rbind (decode_document dec bytes) (\<lambda>d. Inr (Some d)))"

definition durable_document :: "(string \<Rightarrow> document option) \<Rightarrow> durable \<Rightarrow> string \<Rightarrow> document option res" where
  "durable_document dec p name =
     (case load_document dec p name of Inl e \<Rightarrow> Inl (persistence_status e) | Inr d \<Rightarrow> Inr d)"

definition durable_database_documents ::
  "(string \<Rightarrow> document option) \<Rightarrow> durable \<Rightarrow> string \<Rightarrow> document list res" where
  "durable_database_documents dec p database =
     (case rcollect (\<lambda>(_, _, bytes). decode_document dec bytes)
             (filter (\<lambda>(_, db, _). db = database) (doc_table p)) of
        Inl e \<Rightarrow> Inl (persistence_status e) | Inr ds \<Rightarrow> Inr ds)"

fun load_documents ::
  "(string \<Rightarrow> document option) \<Rightarrow> durable \<Rightarrow> string list \<Rightarrow> documents \<Rightarrow> persistence_error + documents" where
  "load_documents dec p [] acc = Inr acc"
| "load_documents dec p (n # ns) acc =
     rbind (load_document dec p n) (\<lambda>d.
       load_documents dec p ns (case d of None \<Rightarrow> acc | Some d \<Rightarrow> sm_put n d acc))"

subsection \<open>Writing\<close>

definition store_documents ::
  "(document \<Rightarrow> string) \<Rightarrow> string \<Rightarrow> documents \<Rightarrow> string list \<Rightarrow>
   (string, string \<times> string) smap \<Rightarrow> (string, string \<times> string) smap" where
  "store_documents enc database ds names tbl =
     fold (\<lambda>name t. case sm_get ds name of
             Some d \<Rightarrow> sm_put name (database, enc d) t
           | None \<Rightarrow> sm_del name t) names tbl"

definition outbox_records :: "(change \<Rightarrow> string) \<Rightarrow> documents \<Rightarrow> documents \<Rightarrow> outbox_record list" where
  "outbox_records ser before after =
     map (\<lambda>c. OutboxRecord ''firestore'' (ser c)) (documents_changed before after)"

text \<open>\<open>names.sort(); names.dedup()\<close> on the names of the writes.\<close>

definition written_names :: "fwrite list \<Rightarrow> string list" where
  "written_names ws = remdups_adj (sort (List.map_filter write_key ws))"

text \<open>The loop over the writes, in both of its modes.\<close>

definition run_writes ::
  "bool \<Rightarrow> documents \<Rightarrow> fwrite list \<Rightarrow> timestamp \<Rightarrow>
   (documents \<times> (write_result \<times> (int \<times> string)) list) res" where
  "run_writes partial ds ws now =
     (if partial
      then (let (ds', rs) = run_each (\<lambda>ds w. apply_write ds w now) ds ws
            in Inr (ds', map batch_entry rs))
      else rbind (run_all (\<lambda>ds w. apply_write ds w now) ds ws)
             (\<lambda>(ds', rs). Inr (ds', map (\<lambda>r. (r, (0, []))) rs)))"

definition persistent_writes ::
  "(document \<Rightarrow> string) \<Rightarrow> (string \<Rightarrow> document option) \<Rightarrow> (change \<Rightarrow> string) \<Rightarrow> durable \<Rightarrow> string \<Rightarrow>
   fwrite list \<Rightarrow> bool \<Rightarrow> timestamp \<Rightarrow>
   ((write_result \<times> (int \<times> string)) list \<times> documents) durable_outcome" where
  "persistent_writes enc dec ser p database ws partial now =
     (case validate_writes_database database ws of Inl e \<Rightarrow> (p, [], Inl e) | Inr _ \<Rightarrow>
      let names = written_names ws in
      case load_documents dec p names [] of Inl e \<Rightarrow> (p, [], Inl (persistence_status e)) | Inr before \<Rightarrow>
      case run_writes partial before ws now of Inl e \<Rightarrow> (p, [], Inl e) | Inr (after, results) \<Rightarrow>
      case insert_outbox (events_enabled p) (event_outbox p) (outbox_records ser before after) of
        Inl e \<Rightarrow> (p, [], Inl (persistence_status e))
      | Inr ob \<Rightarrow>
          (p\<lparr>doc_table := store_documents enc database after names (doc_table p), event_outbox := ob\<rparr>,
           [ChangeSignal], Inr (results, after)))"

definition durable_create ::
  "(document \<Rightarrow> string) \<Rightarrow> (change \<Rightarrow> string) \<Rightarrow> durable \<Rightarrow> document option \<Rightarrow> string \<Rightarrow> string \<Rightarrow>
   string \<Rightarrow> timestamp \<Rightarrow> document durable_outcome" where
  "durable_create enc ser p document parent collection_id requested_id now =
     (case document of None \<Rightarrow> (p, [], Inl (invalid_argument ''document is required'')) | Some document \<Rightarrow>
      if parent = [] \<or> collection_id = []
      then (p, [], Inl (invalid_argument ''parent and collection_id are required''))
      else
        let next = (if requested_id = [] then auto_id p + 1 else auto_id p);
            document_id = (if requested_id = [] then ''auto-'' @ pad_nat 20 next else requested_id);
            name = trim_end_char CHR ''/'' parent @ ''/'' @ collection_id @ ''/'' @ document_id
        in case validate_document_name name of Inl e \<Rightarrow> (p, [], Inl e) | Inr _ \<Rightarrow>
           case database_from_resource name of Inl e \<Rightarrow> (p, [], Inl e) | Inr database \<Rightarrow>
           if sm_has (doc_table p) name
           then (p, [], Inl (already_exists (''document already exists: '' @ name)))
           else
             let created = document\<lparr>doc_name := name, create_time := Some now, update_time := Some now\<rparr>
             in case insert_outbox (events_enabled p) (event_outbox p)
                       (outbox_records ser [] [(name, created)]) of
                  Inl e \<Rightarrow> (p, [], Inl (persistence_status e))
                | Inr ob \<Rightarrow>
                    (p\<lparr>doc_table := sm_put name (database, enc created) (doc_table p),
                       auto_id := next, event_outbox := ob\<rparr>, [ChangeSignal], Inr created))"

definition durable_update ::
  "(document \<Rightarrow> string) \<Rightarrow> (string \<Rightarrow> document option) \<Rightarrow> (change \<Rightarrow> string) \<Rightarrow> durable \<Rightarrow>
   document option \<Rightarrow> string list option \<Rightarrow> condition_type option option \<Rightarrow> timestamp \<Rightarrow>
   document durable_outcome" where
  "durable_update enc dec ser p document update_mask condition now =
     (case document of None \<Rightarrow> (p, [], Inl (invalid_argument ''document is required'')) | Some document \<Rightarrow>
      case database_from_resource (doc_name document) of Inl e \<Rightarrow> (p, [], Inl e) | Inr database \<Rightarrow>
      case persistent_writes enc dec ser p database
             [\<lparr>operation = Some (Update document), write_mask = update_mask, update_transforms = [],
               current_document = condition\<rparr>] False now of
        (p', es, Inl e) \<Rightarrow> (p', es, Inl e)
      | (p', es, Inr (_, ds)) \<Rightarrow>
          (p', es, of_option (internal ''updated document disappeared'') (sm_get ds (doc_name document))))"

definition durable_delete ::
  "(document \<Rightarrow> string) \<Rightarrow> (string \<Rightarrow> document option) \<Rightarrow> (change \<Rightarrow> string) \<Rightarrow> durable \<Rightarrow> string \<Rightarrow>
   condition_type option option \<Rightarrow> timestamp \<Rightarrow> unit durable_outcome" where
  "durable_delete enc dec ser p name condition now =
     (case validate_document_name name of Inl e \<Rightarrow> (p, [], Inl e) | Inr _ \<Rightarrow>
      case database_from_resource name of Inl e \<Rightarrow> (p, [], Inl e) | Inr database \<Rightarrow>
      case persistent_writes enc dec ser p database
             [\<lparr>operation = Some (Delete name), write_mask = None, update_transforms = [],
               current_document = condition\<rparr>] False now of
        (p', es, Inl e) \<Rightarrow> (p', es, Inl e)
      | (p', es, Inr _) \<Rightarrow> (p', es, Inr ()))"

text \<open>A commit validates its transaction in the store, and closes it there after the writes.\<close>

definition durable_commit ::
  "(document \<Rightarrow> string) \<Rightarrow> (string \<Rightarrow> document option) \<Rightarrow> (change \<Rightarrow> string) \<Rightarrow> store \<Rightarrow> durable \<Rightarrow>
   string \<Rightarrow> string \<Rightarrow> fwrite list \<Rightarrow> timestamp \<Rightarrow>
   store \<times> (write_result list \<times> timestamp) durable_outcome" where
  "durable_commit enc dec ser s p database transaction ws now =
     (case (if transaction \<noteq> [] then validate_transaction s database transaction else Inr ()) of
        Inl e \<Rightarrow> (s, p, [], Inl e)
      | Inr _ \<Rightarrow>
          (case persistent_writes enc dec ser p database ws False now of
             (p', es, Inl e) \<Rightarrow> (s, p', es, Inl e)
           | (p', es, Inr (results, _)) \<Rightarrow>
               (remove_transaction s transaction, p', es, Inr (map fst results, now))))"

definition durable_batch_write ::
  "(document \<Rightarrow> string) \<Rightarrow> (string \<Rightarrow> document option) \<Rightarrow> (change \<Rightarrow> string) \<Rightarrow> durable \<Rightarrow> string \<Rightarrow>
   fwrite list \<Rightarrow> timestamp \<Rightarrow> (write_result \<times> (int \<times> string)) list durable_outcome" where
  "durable_batch_write enc dec ser p database ws now =
     (case persistent_writes enc dec ser p database ws True now of
        (p', es, Inl e) \<Rightarrow> (p', es, Inl e)
      | (p', es, Inr (results, _)) \<Rightarrow> (p', es, Inr results))"

definition durable_clear :: "store \<Rightarrow> durable \<Rightarrow> string \<Rightarrow> store \<times> unit durable_outcome" where
  "durable_clear s p database =
     (case database_document_prefix database of
        Inl e \<Rightarrow> (s, p, [], Inl e)
      | Inr _ \<Rightarrow>
          (s\<lparr>transactions := sm_retain (\<lambda>_ d. d \<noteq> database) (transactions s)\<rparr>,
           p\<lparr>doc_table := sm_retain (\<lambda>_ (db, _). db \<noteq> database) (doc_table p)\<rparr>,
           [ChangeSignal], Inr ()))"

subsection \<open>The documents the table stands for\<close>

definition abs_documents ::
  "(string \<Rightarrow> document option) \<Rightarrow> (string, string \<times> string) smap \<Rightarrow> documents" where
  "abs_documents dec t = map (\<lambda>(n, _, bytes). (n, the (dec bytes))) t"

definition table_ok :: "(string \<Rightarrow> document option) \<Rightarrow> (string, string \<times> string) smap \<Rightarrow> bool" where
  "table_ok dec t =
     (sm_wf t \<and>
      (\<forall>(n, db, bytes) \<in> set t. \<exists>d. dec bytes = Some d \<and> document_ok n d \<and>
          database_from_resource n = Inr db))"

text \<open>What the program relies on of the wire encoding.\<close>

definition codec :: "(document \<Rightarrow> string) \<Rightarrow> (string \<Rightarrow> document option) \<Rightarrow> bool" where
  "codec enc dec = (\<forall>d. fields_wf (doc_fields d) \<longrightarrow> dec (enc d) = Some d)"

lemma sm_get_abs:
  "sm_get (abs_documents dec t) n = map_option (\<lambda>(_, bytes). the (dec bytes)) (sm_get t n)"
  by (induction t) (auto simp: abs_documents_def)

lemma sm_wf_abs [simp]: "sm_wf (abs_documents dec t) = sm_wf t"
proof -
  have "map fst (abs_documents dec t) = map fst t" by (induction t) (auto simp: abs_documents_def)
  then show ?thesis by (simp add: sm_wf_def)
qed

lemma table_ok_wf: "table_ok dec t \<Longrightarrow> sm_wf t"
  by (simp add: table_ok_def)

lemma table_ok_get:
  assumes "table_ok dec t" "sm_get t n = Some (db, bytes)"
  shows "\<exists>d. dec bytes = Some d \<and> document_ok n d \<and> database_from_resource n = Inr db"
  using assms sm_get_in[OF assms(2)] by (fastforce simp: table_ok_def)

lemma abs_documents_ok: "table_ok dec t \<Longrightarrow> documents_ok (abs_documents dec t)"
proof -
  assume ok: "table_ok dec t"
  have "document_ok n d" if "(n, d) \<in> set (abs_documents dec t)" for n d
    using that ok by (fastforce simp: abs_documents_def table_ok_def)
  then show ?thesis using ok by (auto simp: documents_ok_def table_ok_wf list_all_iff)
qed

lemma load_document_abs:
  "table_ok dec (doc_table p) \<Longrightarrow> load_document dec p n = Inr (sm_get (abs_documents dec (doc_table p)) n)"
  using table_ok_get[of dec "doc_table p" n]
  by (auto simp: load_document_def sm_get_abs decode_document_def split: option.splits)

lemma load_documents_aux:
  "table_ok dec (doc_table p) \<Longrightarrow> sm_wf acc \<Longrightarrow>
   \<exists>ds. load_documents dec p ns acc = Inr ds \<and> sm_wf ds \<and>
     (\<forall>k. sm_get ds k = (if k \<in> set ns \<and> sm_get (abs_documents dec (doc_table p)) k \<noteq> None
                       then sm_get (abs_documents dec (doc_table p)) k else sm_get acc k))"
proof (induction ns arbitrary: acc)
  case (Cons n ns)
  let ?d = "sm_get (abs_documents dec (doc_table p)) n"
  let ?acc = "case ?d of None \<Rightarrow> acc | Some d \<Rightarrow> sm_put n d acc"
  have "sm_wf ?acc" using Cons.prems(2) by (cases ?d) auto
  from Cons.IH[OF Cons.prems(1) this] obtain ds where ds: "load_documents dec p ns ?acc = Inr ds" "sm_wf ds"
    "\<forall>k. sm_get ds k = (if k \<in> set ns \<and> sm_get (abs_documents dec (doc_table p)) k \<noteq> None
                       then sm_get (abs_documents dec (doc_table p)) k else sm_get ?acc k)"
    by blast
  then show ?case using Cons.prems
    by (cases ?d) (auto simp: load_document_abs)
qed simp

lemma load_documents_restrict:
  assumes "table_ok dec (doc_table p)"
  shows "load_documents dec p ns [] = Inr (restrict_keys ns (abs_documents dec (doc_table p)))"
proof -
  obtain ds where ds: "load_documents dec p ns [] = Inr ds" "sm_wf ds"
    "\<forall>k. sm_get ds k = (if k \<in> set ns \<and> sm_get (abs_documents dec (doc_table p)) k \<noteq> None
                       then sm_get (abs_documents dec (doc_table p)) k else None)"
    using load_documents_aux[OF assms, of "[]" ns] by auto
  have "ds = restrict_keys ns (abs_documents dec (doc_table p))"
    using ds assms by (intro sm_ext) (auto simp: restrict_keys_wf table_ok_wf sm_get_restrict)
  then show ?thesis using ds(1) by simp
qed

lemma store_documents_simps [simp]:
  "store_documents enc db ds [] t = t"
  "store_documents enc db ds (n # ns) t = store_documents enc db ds ns
     (case sm_get ds n of Some d \<Rightarrow> sm_put n (db, enc d) t | None \<Rightarrow> sm_del n t)"
  by (auto simp: store_documents_def)

lemma sm_get_store_documents:
  "sm_wf t \<Longrightarrow> sm_wf (store_documents enc db ds ns t) \<and>
   sm_get (store_documents enc db ds ns t) k =
     (if k \<in> set ns then map_option (\<lambda>d. (db, enc d)) (sm_get ds k) else sm_get t k)"
proof (induction ns arbitrary: t)
  case (Cons n ns)
  have "sm_wf (case sm_get ds n of Some d \<Rightarrow> sm_put n (db, enc d) t | None \<Rightarrow> sm_del n t)"
    using Cons.prems by (auto split: option.splits)
  from Cons.IH[OF this] show ?case
    using Cons.prems by (auto split: option.splits)
qed simp

lemma written_names_set: "set (written_names ws) = (\<Union>w \<in> set ws. set_option (write_key w))"
  by (force simp: written_names_def List.map_filter_def)

lemma validate_writes_names:
  "validate_writes db ws = Inr () \<Longrightarrow> n \<in> set (written_names ws) \<Longrightarrow>
   validate_document_name n = Inr () \<and> database_from_resource n = Inr db"
  unfolding written_names_set
  by (induction ws) (auto simp: rbind_Inr_iff write_key_def split: if_splits sum.splits)

lemma run_writes_restricted:
  assumes "sm_wf m"
  shows "run_writes partial m ws now =
    rbind (run_writes partial (restrict_keys (written_names ws) m) ws now)
      (\<lambda>(sub, rs). Inr (write_back (written_names ws) sub m, rs))"
proof -
  let ?ks = "written_names ws" and ?app = "\<lambda>ds w. apply_write ds w now"
  have sub: "(\<Union>w \<in> set ws. set_option (write_key w)) \<subseteq> set ?ks" by (simp add: written_names_set)
  note all = fw.run_all_restricted[OF assms sub, of now]
  note each = fw.run_each_restricted[OF assms sub, of now]
  show ?thesis
  proof (cases partial)
    case True
    then show ?thesis by (simp add: run_writes_def each split_beta Let_def)
  next
    case False
    then show ?thesis
      by (cases "run_all ?app (restrict_keys ?ks m) ws") (auto simp: run_writes_def all)
  qed
qed

lemma run_writes_ok:
  assumes "documents_ok ds" "list_all write_wf ws" "run_writes partial ds ws now = Inr (ds', rs)"
  shows "documents_ok ds'"
  using assms run_all_documents_ok[OF assms(1,2)] run_each_documents_ok[OF assms(1,2), of now]
  by (auto simp: run_writes_def rbind_Inr_iff Let_def split_beta split: if_splits)

text \<open>The simulation of the loop and of the write-back by the in-memory writes.\<close>

lemma write_back_refines:
  assumes ok: "table_ok dec t" and c: "codec enc dec"
    and names: "\<And>n. n \<in> set ns \<Longrightarrow> database_from_resource n = Inr db"
    and res: "documents_ok (write_back ns ds (abs_documents dec t))"
  shows "abs_documents dec (store_documents enc db ds ns t) = write_back ns ds (abs_documents dec t) \<and>
         table_ok dec (store_documents enc db ds ns t)"
proof -
  let ?t = "store_documents enc db ds ns t" and ?m = "write_back ns ds (abs_documents dec t)"
  note wf = table_ok_wf[OF ok]
  note get = sm_get_store_documents[OF wf, of enc db ds ns]
  have gm: "sm_get ?m k = (if k \<in> set ns then sm_get ds k else sm_get (abs_documents dec t) k)" for k
    using wf by (simp add: sm_get_write_back)
  have dok: "document_ok k d" "dec (enc d) = Some d" if "k \<in> set ns" "sm_get ds k = Some d" for k d
    using documents_ok_get[OF res, of k d] that c by (auto simp: gm codec_def document_ok_def)
  have abs: "abs_documents dec ?t = ?m"
  proof (rule sm_ext)
    fix k show "sm_get (abs_documents dec ?t) k = sm_get ?m k"
      using dok[of k] get[of k] by (cases "sm_get ds k") (auto simp: sm_get_abs gm)
  qed (use wf get in \<open>auto simp: write_back_wf\<close>)
  have "\<exists>d. dec b = Some d \<and> document_ok n d \<and> database_from_resource n = Inr db'"
    if "(n, db', b) \<in> set ?t" for n db' b
  proof -
    have "sm_get ?t n = Some (db', b)"
      using conjunct1[OF get[of n]] that by (rule in_sm_get)
    then show ?thesis
      using get[of n] dok[of n] names[of n] table_ok_get[OF ok, of n db' b]
      by (auto split: if_splits)
  qed
  then show ?thesis using abs get by (fastforce simp: table_ok_def)
qed

lemma persistent_writes_refines:
  assumes ok: "table_ok dec (doc_table p)" and c: "codec enc dec"
    and wf: "list_all write_wf ws"
    and pw: "persistent_writes enc dec ser p db ws partial now = (p', es, Inr (rs, after))"
  shows "run_writes partial (abs_documents dec (doc_table p)) ws now =
           Inr (abs_documents dec (doc_table p'), rs) \<and> table_ok dec (doc_table p') \<and>
         (\<forall>n \<in> set (written_names ws). sm_get (abs_documents dec (doc_table p')) n = sm_get after n)"
proof -
  let ?m = "abs_documents dec (doc_table p)" and ?ns = "written_names ws"
  have v: "validate_writes_database db ws = Inr ()"
    and run: "run_writes partial (restrict_keys ?ns ?m) ws now = Inr (after, rs)"
    and p': "doc_table p' = store_documents enc db after ?ns (doc_table p)"
    using pw load_documents_restrict[OF ok, of ?ns]
    by (auto simp: persistent_writes_def Let_def split: sum.splits)
  have wfm: "sm_wf ?m" using table_ok_wf[OF ok] by simp
  have full: "run_writes partial ?m ws now = Inr (write_back ?ns after ?m, rs)"
    using run_writes_restricted[OF wfm, of partial ws now] run by simp
  have res: "documents_ok (write_back ?ns after ?m)"
    by (rule run_writes_ok[OF abs_documents_ok[OF ok] wf full])
  have names: "database_from_resource n = Inr db" if "n \<in> set ?ns" for n
    using v validate_writes_names[OF _ that, of db] by (auto simp: validate_writes_database_def rbind_Inr_iff)
  have "abs_documents dec (doc_table p') = write_back ?ns after ?m \<and> table_ok dec (doc_table p')"
    unfolding p' by (rule write_back_refines[OF ok c names res])
  then show ?thesis using full wfm by (auto simp: sm_get_write_back)
qed

lemma durable_database_documents_abs:
  assumes "table_ok dec (doc_table p)"
  shows "durable_database_documents dec p db =
    Inr (map snd (filter (\<lambda>(n, _). database_from_resource n = Inr db) (abs_documents dec (doc_table p))))"
proof -
  have row: "decode_document dec b = Inr (the (dec b)) \<and> (database_from_resource n = Inr db) = (db' = db)"
    if "(n, db', b) \<in> set (doc_table p)" for n db' b
    using that assms by (fastforce simp: table_ok_def decode_document_def)
  have "rcollect (\<lambda>(_, _, bytes). decode_document dec bytes) (filter (\<lambda>(_, d, _). d = db) t) =
      Inr (map snd (filter (\<lambda>(n, _). database_from_resource n = Inr db) (abs_documents dec t)))"
    if "set t \<subseteq> set (doc_table p)" for t
    using that
  proof (induction t)
    case (Cons e t)
    then show ?case using row by (cases e) (auto simp: abs_documents_def)
  qed (simp add: abs_documents_def)
  then show ?thesis by (simp add: durable_database_documents_def)
qed

subsection \<open>Properties\<close>

text \<open>
  Property C2.  The durable backend implements the in-memory one.  A batch of writes that is
  accepted has exactly the results and the documents of running the same writes on the
  documents the table stands for, although only the named rows are loaded; a batch that is
  refused leaves the database untouched and signals nothing.
\<close>

theorem durable_writes_refine:
  assumes "table_ok dec (doc_table p)" "codec enc dec" "list_all write_wf ws"
  shows "case persistent_writes enc dec ser p db ws partial now of
      (p', es, Inl e) \<Rightarrow> p' = p \<and> es = []
    | (p', es, Inr (rs, after)) \<Rightarrow>
        run_writes partial (abs_documents dec (doc_table p)) ws now =
          Inr (abs_documents dec (doc_table p'), rs) \<and>
        table_ok dec (doc_table p') \<and> es = [ChangeSignal]"
proof (cases "snd (snd (persistent_writes enc dec ser p db ws partial now))")
  case (Inl e)
  then have "persistent_writes enc dec ser p db ws partial now = (p, [], Inl e)"
    by (auto simp: persistent_writes_def Let_def split: sum.splits)
  then show ?thesis by simp
next
  case (Inr x)
  obtain p' es rs after where pw: "persistent_writes enc dec ser p db ws partial now = (p', es, Inr (rs, after))"
    using Inr by (metis prod.collapse)
  have "es = [ChangeSignal]" using pw by (auto simp: persistent_writes_def Let_def split: sum.splits)
  then show ?thesis using persistent_writes_refines[OF assms pw] by (simp add: pw)
qed

text \<open>A concrete encoding: documents are countable.\<close>

instance timestamp :: countable by countable_datatype
instance fvalue :: countable by countable_datatype

definition number_encode :: "document \<Rightarrow> string" where
  "number_encode d = show_nat (to_nat (doc_name d, doc_fields d, create_time d, update_time d))"

definition number_decode :: "string \<Rightarrow> document option" where
  "number_decode s =
     (case from_nat (nat_of_digits s) of (n, f, c, u) \<Rightarrow>
        Some \<lparr>doc_name = n, doc_fields = f, create_time = c, update_time = u\<rparr>)"

lemma number_codec: "codec number_encode number_decode"
  by (simp add: codec_def number_encode_def number_decode_def)

lemma durable_writes_refine_witness:
  "\<exists>p' rs. persistent_writes number_encode number_decode (\<lambda>_. [])
      \<lparr>doc_table = [(sample_name, ''projects/p/databases/d'', number_encode (sample_document []))],
       auto_id = 0, event_outbox = empty_outbox, events_enabled = False\<rparr> ''projects/p/databases/d''
      [\<lparr>operation = Some (Delete sample_name), write_mask = None, update_transforms = [],
        current_document = None\<rparr>] False (Timestamp 5 0) = (p', [ChangeSignal], Inr rs) \<and>
      abs_documents number_decode (doc_table p') = []"
proof -
  let ?p = "\<lparr>doc_table = [(sample_name, ''projects/p/databases/d'', number_encode (sample_document []))],
       auto_id = 0, event_outbox = empty_outbox, events_enabled = False\<rparr>"
  let ?w = "\<lparr>operation = Some (Delete sample_name), write_mask = None, update_transforms = [],
        current_document = None\<rparr>"
  have dec: "number_decode (number_encode (sample_document [])) = Some (sample_document [])"
    using number_codec by (simp add: codec_def)
  have res: "database_from_resource sample_name = Inr ''projects/p/databases/d''"
    by (simp add: database_from_resource_def database_document_prefix_def split_path_def Let_def)
  have pre: "database_document_prefix ''projects/p/databases/d'' = Inr ''projects/p/databases/d/documents/''"
    by (simp add: database_document_prefix_def split_path_def Let_def)
  have ok: "table_ok number_decode (doc_table ?p)"
    by (simp add: table_ok_def document_ok_def res dec)
  have names: "written_names [?w] = [sample_name]"
    by (simp add: written_names_def write_key_def write_name_def List.map_filter_def)
  have val: "validate_writes_database ''projects/p/databases/d'' [?w] = Inr ()"
    by (simp add: validate_writes_database_def pre write_name_def res)
  have run: "run_writes False [(sample_name, sample_document [])] [?w] (Timestamp 5 0) =
      Inr ([], [(\<lparr>wr_update_time = Some (Timestamp 5 0), transform_results = []\<rparr>, (0, []))])"
    by (simp add: run_writes_def apply_write_def check_precondition_def sm_del_def)
  have load: "load_documents number_decode ?p [sample_name] [] = Inr [(sample_name, sample_document [])]"
    by (simp add: load_document_def decode_document_def dec)
  obtain p' rs where pw: "persistent_writes number_encode number_decode (\<lambda>_. []) ?p
      ''projects/p/databases/d'' [?w] False (Timestamp 5 0) = (p', [ChangeSignal], Inr rs)"
    unfolding persistent_writes_def val names load run Let_def sum.case prod.case
    by (simp add: insert_outbox_def)
  have "abs_documents number_decode (doc_table ?p) = [(sample_name, sample_document [])]"
    by (simp add: abs_documents_def dec)
  then show ?thesis
    using durable_writes_refine[OF ok number_codec, where ws = "[?w]" and ser = "\<lambda>_. []"
        and db = "''projects/p/databases/d''" and partial = False and now = "Timestamp 5 0"] pw run
    by (auto simp: write_wf_def split: prod.splits)
qed

text \<open>
  The durable scan of a database by its column yields the same documents in the
  same order as the in-memory range scan does on the documents the table stands for.
\<close>

theorem durable_scan_refines:
  assumes "table_ok dec (doc_table p)" "database_document_prefix db = Inr pre"
  shows "durable_database_documents dec p db =
         database_documents \<lparr>documents = abs_documents dec (doc_table p), transactions = [], next_id = 0\<rparr> db"
proof -
  have "store_ok \<lparr>documents = abs_documents dec (doc_table p), transactions = [], next_id = 0\<rparr>"
    using abs_documents_ok[OF assms(1)] by (simp add: store_ok_def)
  then show ?thesis
    using durable_database_documents_abs[OF assms(1)] database_documents_filter[OF _ assms(2)] by simp
qed

lemma durable_scan_refines_witness:
  "durable_database_documents (\<lambda>b. Some (sample_document []))
     \<lparr>doc_table = [(sample_name, ''projects/p/databases/d'', ''b'')], auto_id = 0,
      event_outbox = empty_outbox, events_enabled = True\<rparr> ''projects/p/databases/d'' = Inr [sample_document []]"
proof -
  let ?dec = "\<lambda>b. Some (sample_document [])"
  let ?p = "\<lparr>doc_table = [(sample_name, ''projects/p/databases/d'', ''b'')], auto_id = 0,
      event_outbox = empty_outbox, events_enabled = True\<rparr>"
  have res: "database_from_resource sample_name = Inr ''projects/p/databases/d''"
    by (simp add: database_from_resource_def database_document_prefix_def split_path_def Let_def)
  have pre: "database_document_prefix ''projects/p/databases/d'' = Inr ''projects/p/databases/d/documents/''"
    by (simp add: database_document_prefix_def split_path_def Let_def)
  have ok: "table_ok ?dec (doc_table ?p)"
    by (simp add: table_ok_def document_ok_def res)
  show ?thesis
    unfolding durable_scan_refines[OF ok pre]
    by (simp add: database_documents_def pre abs_documents_def starts_with_def)
qed

end
