(* ===== verification/Firestore_Query.thy ===== *)
theory Firestore_Query
  imports Firestore_Service
begin

text \<open>
  Structured queries of \<open>src/src/firestore.rs\<close>: the collection and filter tests, the implied
  orders, sorting, cursors, offset, limit and projection of \<open>query_docs\<close>.  Enum fields are
  their wire numbers, which the code matches on.
\<close>

subsection \<open>Data\<close>

datatype qfilter =
    NoFilter
  | CompositeFilter int "qfilter list"
  | FieldFilter int "string option" "fvalue option"
  | UnaryFilter int "string option"

record selector =
  collection_id :: string
  all_descendants :: bool

record order =
  order_field :: "string option"
  direction :: int

record cursor =
  cursor_values :: "fvalue list"
  before :: bool

record squery =
  from_selectors :: "selector list"
  where_filter :: "qfilter option"
  order_by :: "order list"
  start_at :: "cursor option"
  end_at :: "cursor option"
  offset :: int
  limit :: "int option"
  select :: "string list option"

definition i32_max :: int where "i32_max = 2147483647"

subsection \<open>Tests\<close>

definition matches_collection :: "string \<Rightarrow> string \<Rightarrow> string \<Rightarrow> bool \<Rightarrow> bool" where
  "matches_collection name parent collection descendants =
     (let parent = trim_end_char CHR ''/'' parent in
      case Option.bind (strip_prefix parent name) (strip_prefix ''/'') of
        None \<Rightarrow> False
      | Some relative \<Rightarrow>
          (let parts = split_path relative in
           if descendants
           then length parts \<ge> 2 \<and> length parts mod 2 = 0 \<and> parts ! (length parts - 2) = collection
           else length parts = 2 \<and> parts ! 0 = collection))"

definition array_contains :: "fvalue \<Rightarrow> fvalue \<Rightarrow> bool" where
  "array_contains array needle =
     (case array of
        ArrayValue vs \<Rightarrow> list_ex (\<lambda>v. compare_value v needle = Equal) vs
      | _ \<Rightarrow> False)"

definition field_test :: "int \<Rightarrow> fvalue \<Rightarrow> fvalue \<Rightarrow> bool res" where
  "field_test op a b =
     (let cmp = compare_value a b; same = (value_rank a = value_rank b) in
      if op = 1 then Inr (same \<and> cmp = Less)
      else if op = 2 then Inr (same \<and> cmp \<noteq> Greater)
      else if op = 3 then Inr (same \<and> cmp = Greater)
      else if op = 4 then Inr (same \<and> cmp \<noteq> Less)
      else if op = 5 then Inr (cmp = Equal)
      else if op = 6 then Inr (cmp \<noteq> Equal)
      else if op = 7 then Inr (array_contains a b)
      else if op = 8 then Inr (array_contains b a)
      else if op = 9 then
        Inr (case a of ArrayValue vs \<Rightarrow> list_ex (\<lambda>v. array_contains b v) vs | _ \<Rightarrow> False)
      else if op = 10 then
        Inr (value_rank a \<noteq> 0 \<and> \<not> array_contains b (NullValue 0) \<and> \<not> array_contains b a)
      else Inl (invalid_argument ''invalid field operator''))"

definition value_is_nan :: "fvalue \<Rightarrow> bool" where
  "value_is_nan v = (case v of DoubleValue d \<Rightarrow> is_nan d | _ \<Rightarrow> False)"

definition unary_test :: "int \<Rightarrow> fvalue \<Rightarrow> bool res" where
  "unary_test op a =
     (if op = 2 then Inr (value_is_nan a)
      else if op = 3 then Inr (value_rank a = 0)
      else if op = 4 then Inr (\<not> value_is_nan a)
      else if op = 5 then Inr (value_rank a \<noteq> 0)
      else Inl (invalid_argument ''invalid unary operator''))"

fun filter_matches :: "document \<Rightarrow> qfilter \<Rightarrow> bool res" where
  "filter_matches doc NoFilter = Inl (invalid_argument ''filter is required'')"
| "filter_matches doc (CompositeFilter op fs) =
     rbind (rcollect (\<lambda>f. filter_matches doc f) fs) (\<lambda>vs.
       if op = 1 then Inr (list_all id vs)
       else if op = 2 then Inr (list_ex id vs)
       else Inl (invalid_argument ''invalid composite operator''))"
| "filter_matches doc (FieldFilter op field v) =
     rbind (of_option (invalid_argument ''filter field is required'') field) (\<lambda>path.
     rbind (of_option (invalid_argument ''filter value is required'') v) (\<lambda>b.
       case field_value doc path of None \<Rightarrow> Inr False | Some a \<Rightarrow> field_test op a b))"
| "filter_matches doc (UnaryFilter op field) =
     rbind (of_option (invalid_argument ''unary field is required'') field) (\<lambda>path.
       case field_value doc path of None \<Rightarrow> Inr False | Some a \<Rightarrow> unary_test op a)"

subsection \<open>Orders\<close>

text \<open>The fields an inequality is asked of, as the sorted set the code collects.\<close>

fun inequality_fields :: "qfilter \<Rightarrow> string list" where
  "inequality_fields NoFilter = []"
| "inequality_fields (CompositeFilter op fs) = concat (map inequality_fields fs)"
| "inequality_fields (FieldFilter op field v) =
     (if op \<in> {1, 2, 3, 4, 6, 10} then (case field of Some p \<Rightarrow> [p] | None \<Rightarrow> []) else [])"
| "inequality_fields (UnaryFilter op field) =
     (if op \<in> {4, 5} then (case field of Some p \<Rightarrow> [p] | None \<Rightarrow> []) else [])"

type_synonym orders = "(string \<times> bool) list"

definition last_direction :: "orders \<Rightarrow> bool" where
  "last_direction os = (if os = [] then False else snd (last os))"

definition explicit_orders :: "order list \<Rightarrow> orders res" where
  "explicit_orders os =
     rcollect (\<lambda>o1. rbind (of_option (invalid_argument ''order field required'') (order_field o1))
                 (\<lambda>p. Inr (p, direction o1 = 2))) os"

definition effective_orders :: "squery \<Rightarrow> orders res" where
  "effective_orders q =
     rbind (explicit_orders (order_by q)) (\<lambda>orders.
       let inequalities = sort (remdups (case where_filter q of Some f \<Rightarrow> inequality_fields f | None \<Rightarrow> []));
           descending = last_direction orders;
           orders1 = fold (\<lambda>field os.
                       if field \<noteq> ''__name__'' \<and> field \<notin> fst ` set os then os @ [(field, descending)]
                       else os) inequalities orders
       in Inr (if ''__name__'' \<in> fst ` set orders1 then orders1
               else orders1 @ [(''__name__'', last_direction orders1)]))"

definition directed :: "bool \<Rightarrow> ordering \<Rightarrow> ordering" where
  "directed desc c = (if desc then ord_rev c else c)"

text \<open>
  Comparing the ordered fields of a document with a list of values: the first unequal pair
  decides.  The code unwraps \<open>field_value\<close>; only documents that have every field of the
  orders are ever compared (\<open>has_order_fields\<close>).
\<close>

definition compare_at :: "orders \<Rightarrow> document \<Rightarrow> fvalue list \<Rightarrow> ordering" where
  "compare_at orders doc vs =
     (case first_unequal (map (\<lambda>((p, desc), v). directed desc (compare_value (the (field_value doc p)) v))
                            (zip orders vs)) of
        Some c \<Rightarrow> c | None \<Rightarrow> Equal)"

definition order_values :: "orders \<Rightarrow> document \<Rightarrow> fvalue list" where
  "order_values orders doc = map (\<lambda>(p, _). the (field_value doc p)) orders"

definition compare_docs :: "orders \<Rightarrow> document \<Rightarrow> document \<Rightarrow> ordering" where
  "compare_docs orders a b = compare_at orders a (order_values orders b)"

definition has_order_fields :: "orders \<Rightarrow> document \<Rightarrow> bool" where
  "has_order_fields orders doc = list_all (\<lambda>(p, _). field_value doc p \<noteq> None) orders"

definition cursor_keeps :: "orders \<Rightarrow> bool \<Rightarrow> cursor \<Rightarrow> document \<Rightarrow> bool" where
  "cursor_keeps orders start c doc =
     (let cmp = compare_at orders doc (cursor_values c) in
      if start then cmp = Greater \<or> (cmp = Equal \<and> before c)
      else cmp = Less \<or> (cmp = Equal \<and> \<not> before c))"

definition apply_cursor :: "orders \<Rightarrow> bool \<Rightarrow> cursor option \<Rightarrow> document list \<Rightarrow> document list res" where
  "apply_cursor orders start c docs =
     (case c of
        None \<Rightarrow> Inr docs
      | Some c \<Rightarrow>
          (if length (cursor_values c) > length orders
           then Inl (invalid_argument ''too many cursor values'')
           else Inr (filter (cursor_keeps orders start c) docs)))"

subsection \<open>The query\<close>

fun select_docs :: "string \<Rightarrow> string \<Rightarrow> bool \<Rightarrow> qfilter option \<Rightarrow> document list \<Rightarrow> document list res" where
  "select_docs parent collection descendants flt [] = Inr []"
| "select_docs parent collection descendants flt (d # ds) =
     rbind (if matches_collection (doc_name d) parent collection descendants
            then (case flt of Some f \<Rightarrow> filter_matches d f | None \<Rightarrow> Inr True) else Inr False)
       (\<lambda>keep. rbind (select_docs parent collection descendants flt ds)
          (\<lambda>rest. Inr (if keep then d # rest else rest)))"

fun project_fields :: "fields \<Rightarrow> string list \<Rightarrow> fields \<Rightarrow> fields res" where
  "project_fields src [] acc = Inr acc"
| "project_fields src (f # fs) acc =
     (if f = ''__name__'' then project_fields src fs acc
      else rbind (field_path f) (\<lambda>path.
        project_fields src fs (nested_set acc path (nested_get src path))))"

definition project :: "string list option \<Rightarrow> document \<Rightarrow> document res" where
  "project sel doc =
     (case sel of None \<Rightarrow> Inr doc
      | Some fs \<Rightarrow> rbind (project_fields (doc_fields doc) fs []) (\<lambda>m. Inr (doc\<lparr>doc_fields := m\<rparr>)))"

text \<open>The documents are those of the store, or those of the database in the durable backend.\<close>

definition query_docs :: "document list \<Rightarrow> string \<Rightarrow> squery \<Rightarrow> document list res" where
  "query_docs stored parent q =
     (if length (from_selectors q) \<noteq> 1 \<or> collection_id (from_selectors q ! 0) = []
      then Inl (invalid_argument ''one collection is required'')
      else if offset q < 0 \<or> (case limit q of Some l \<Rightarrow> l < 0 | None \<Rightarrow> False)
      then Inl (invalid_argument ''negative query bounds'')
      else
        let sel = from_selectors q ! 0 in
        rbind (database_from_resource parent) (\<lambda>_.
        rbind (select_docs parent (collection_id sel) (all_descendants sel) (where_filter q) stored) (\<lambda>found.
        rbind (effective_orders q) (\<lambda>orders.
        let sorted = sort_by (compare_docs orders) (filter (has_order_fields orders) found) in
        rbind (apply_cursor orders True (start_at q) sorted) (\<lambda>docs1.
        rbind (apply_cursor orders False (end_at q) docs1) (\<lambda>docs2.
        rcollect (project (select q))
          (take (nat (case limit q of Some l \<Rightarrow> l | None \<Rightarrow> i32_max))
             (drop (nat (offset q)) docs2))))))))"

text \<open>The \<open>RunQuery\<close> handler: one response per document, the token in the first.\<close>

record query_response =
  qr_document :: "document option"
  qr_transaction :: string
  qr_done :: bool

definition query_transaction ::
  "store \<Rightarrow> string \<Rightarrow> consistency option \<Rightarrow> string \<Rightarrow> (store \<times> string option) res" where
  "query_transaction s parent sel fresh =
     (case sel of
        Some (InTransaction transaction) \<Rightarrow>
          rbind (database_from_resource parent) (\<lambda>database.
          rbind (validate_transaction s database transaction) (\<lambda>_. Inr (s, None)))
      | Some NewTransaction \<Rightarrow>
          rbind (database_from_resource parent) (\<lambda>database.
            Inr (create_transaction s database fresh, Some fresh))
      | _ \<Rightarrow> Inr (s, None))"

definition query_responses :: "document list \<Rightarrow> string option \<Rightarrow> query_response list" where
  "query_responses docs new_transaction =
     (let token = (case new_transaction of Some t \<Rightarrow> t | None \<Rightarrow> []) in
      case docs of
        [] \<Rightarrow> [\<lparr>qr_document = None, qr_transaction = token, qr_done = True\<rparr>]
      | d # ds \<Rightarrow> \<lparr>qr_document = Some d, qr_transaction = token, qr_done = False\<rparr> #
                  map (\<lambda>d. \<lparr>qr_document = Some d, qr_transaction = [], qr_done = False\<rparr>) ds)"

definition run_query ::
  "store \<Rightarrow> string \<Rightarrow> squery option \<Rightarrow> consistency option \<Rightarrow> string \<Rightarrow> query_response list outcome" where
  "run_query s parent q sel fresh =
     obind s (query_transaction s parent sel fresh) (\<lambda>(s', new_transaction).
       case q of
         None \<Rightarrow> (s', [], Inl (invalid_argument ''structured_query is required''))
       | Some q \<Rightarrow>
           (case query_docs (sm_values (documents s')) parent q of
              Inl e \<Rightarrow> (s', [], Inl e)
            | Inr docs \<Rightarrow> (s', [], Inr (query_responses docs new_transaction))))"

subsection \<open>The comparator of a query\<close>

lemma compare_at_simps [simp]:
  "compare_at [] doc vs = Equal"
  "compare_at os doc [] = Equal"
  "compare_at ((p, desc) # os) doc (v # vs) =
     ord_then (directed desc (compare_value (the (field_value doc p)) v)) (compare_at os doc vs)"
  by (auto simp: compare_at_def split: option.splits)
     (cases "directed desc (compare_value (the (field_value doc p)) v)"; simp)+

lemma directed_eq_iff [simp]:
  "directed d c = Equal \<longleftrightarrow> c = Equal"
  "directed d c = Greater \<longleftrightarrow> (if d then c = Less else c = Greater)"
  "directed d c = Less \<longleftrightarrow> (if d then c = Greater else c = Less)"
  by (auto simp: directed_def)

lemma order_values_simps [simp]:
  "order_values [] doc = []"
  "order_values ((p, d) # os) doc = the (field_value doc p) # order_values os doc"
  by (auto simp: order_values_def)

lemma length_order_values [simp]: "length (order_values os doc) = length os"
  by (simp add: order_values_def)

lemma directed_rev: "directed d (ord_rev c) = ord_rev (directed d c)"
  by (simp add: directed_def)

lemma compare_docs_flip: "compare_docs os b a = ord_rev (compare_docs os a b)"
proof (induction os)
  case (Cons o1 os)
  obtain p d where o1: "o1 = (p, d)" by (cases o1)
  show ?case using Cons compare_flip[of "the (field_value b p)" "the (field_value a p)"]
    by (simp add: compare_docs_def o1 directed_rev)
qed (simp add: compare_docs_def)

text \<open>One directed comparison is transitive, strictly so when one of the steps is strict.\<close>

lemma directed_trans:
  assumes "directed d (compare_value x y) \<noteq> Greater" "directed d (compare_value y z) \<noteq> Greater"
  shows "directed d (compare_value x z) \<noteq> Greater \<and>
    (directed d (compare_value x z) = Equal \<longrightarrow>
       directed d (compare_value x y) = Equal \<and> directed d (compare_value y z) = Equal)"
  using assms compare_trans_strong[of x y z] compare_trans_strong[of z y x]
    compare_flip[of x y] compare_flip[of y z] compare_flip[of x z]
  by (cases d) (auto simp: directed_def)

text \<open>Below a document that is not above a cursor position stands nothing above it.\<close>

lemma compare_at_trans:
  "compare_docs os a b \<noteq> Greater \<Longrightarrow> compare_at os b vs \<noteq> Greater \<Longrightarrow>
   compare_at os a vs \<noteq> Greater \<and> (compare_at os a vs = Equal \<longrightarrow> compare_at os b vs = Equal)"
proof (induction os arbitrary: vs)
  case (Cons o1 os)
  obtain p d where o1: "o1 = (p, d)" by (cases o1)
  show ?case
  proof (cases vs)
    case (Cons v vs')
    let ?a = "the (field_value a p)" and ?b = "the (field_value b p)"
    have ab: "directed d (compare_value ?a ?b) \<noteq> Greater"
      "directed d (compare_value ?a ?b) = Equal \<Longrightarrow> compare_docs os a b \<noteq> Greater"
      using Cons.prems(1) unfolding o1 compare_docs_def order_values_simps compare_at_simps by auto
    have bv: "directed d (compare_value ?b v) \<noteq> Greater"
      "directed d (compare_value ?b v) = Equal \<Longrightarrow> compare_at os b vs' \<noteq> Greater"
      using Cons.prems(2) unfolding o1 Cons compare_at_simps by auto
    show ?thesis
      using directed_trans[OF ab(1) bv(1)] ab(2) bv(2) Cons.IH[of vs']
      unfolding o1 Cons compare_at_simps ord_then_eq_iff by blast
  qed simp
qed (simp add: compare_docs_def)

interpretation qd: comparator_on UNIV "compare_docs os" for os
proof
  show "compare_docs os y x = ord_rev (compare_docs os x y)" for x y by (rule compare_docs_flip)
  show "compare_docs os x z \<noteq> Greater"
    if "compare_docs os x y \<noteq> Greater" "compare_docs os y z \<noteq> Greater" for x y z
    using compare_at_trans[OF that(1), of "order_values os z"] that(2) by (simp add: compare_docs_def)
qed

text \<open>The orders of a query always include the name, so different documents never tie.\<close>

lemma effective_orders_name: "effective_orders q = Inr os \<Longrightarrow> ''__name__'' \<in> fst ` set os"
  by (auto simp: effective_orders_def Let_def rbind_Inr_iff split: if_splits)

lemma field_value_name [simp]: "field_value d ''__name__'' = Some (ReferenceValue (doc_name d))"
  by (simp add: field_value_def)

lemma compare_reference [simp]:
  "compare_value (ReferenceValue a) (ReferenceValue b) = cmp_lin a b"
  by (subst compare_value.simps) simp

lemma compare_docs_name:
  "''__name__'' \<in> fst ` set os \<Longrightarrow> compare_docs os a b = Equal \<Longrightarrow> doc_name a = doc_name b"
proof (induction os)
  case (Cons o1 os)
  then show ?case by (cases o1) (auto simp: compare_docs_def)
qed simp

lemma run_query_ok: "store_ok s \<Longrightarrow> store_ok (fst (run_query s parent q sel fresh))"
  using database_from_resource_Inr(1)[of parent]
  by (auto simp: run_query_def obind_def query_transaction_def rbind_Inr_iff
      split: sum.splits option.splits consistency.splits
      intro!: store_ok_create_transaction intro: database_okI)

subsection \<open>The stages of a query\<close>

definition query_matches :: "string \<Rightarrow> squery \<Rightarrow> document \<Rightarrow> bool" where
  "query_matches parent q d =
     (let sel = from_selectors q ! 0 in
      matches_collection (doc_name d) parent (collection_id sel) (all_descendants sel) \<and>
      (case where_filter q of Some f \<Rightarrow> filter_matches d f = Inr True | None \<Rightarrow> True))"

lemma select_docs_Inr:
  "select_docs parent c desc flt ds = Inr rs \<Longrightarrow>
   rs = filter (\<lambda>d. matches_collection (doc_name d) parent c desc \<and>
                 (case flt of Some f \<Rightarrow> filter_matches d f = Inr True | None \<Rightarrow> True)) ds"
  by (induction ds arbitrary: rs) (auto simp: rbind_Inr_iff split: if_splits option.splits)

definition in_cursors :: "orders \<Rightarrow> squery \<Rightarrow> document \<Rightarrow> bool" where
  "in_cursors os q d =
     ((case start_at q of Some c \<Rightarrow> cursor_keeps os True c d | None \<Rightarrow> True) \<and>
      (case end_at q of Some c \<Rightarrow> cursor_keeps os False c d | None \<Rightarrow> True))"

lemma apply_cursor_Inr:
  "apply_cursor os st c ds = Inr rs \<Longrightarrow>
   rs = filter (\<lambda>d. case c of Some c \<Rightarrow> cursor_keeps os st c d | None \<Rightarrow> True) ds"
  by (auto simp: apply_cursor_def split: option.splits if_splits)

definition query_limit :: "squery \<Rightarrow> nat" where
  "query_limit q = nat (case limit q of Some l \<Rightarrow> l | None \<Rightarrow> i32_max)"

definition ordered_matches :: "orders \<Rightarrow> document list \<Rightarrow> string \<Rightarrow> squery \<Rightarrow> document list" where
  "ordered_matches os stored parent q =
     filter (in_cursors os q)
       (sort_by (compare_docs os) (filter (has_order_fields os) (filter (query_matches parent q) stored)))"

lemma query_docs_Inr:
  assumes "query_docs stored parent q = Inr rs"
  obtains os where "effective_orders q = Inr os"
    "rcollect (project (select q)) (take (query_limit q) (drop (nat (offset q))
        (ordered_matches os stored parent q))) = Inr rs"
  using assms
  by (auto simp: query_docs_def Let_def rbind_Inr_iff ordered_matches_def query_limit_def
      query_matches_def[abs_def] in_cursors_def[abs_def] filter_filter conj_commute
      dest!: select_docs_Inr apply_cursor_Inr split: if_splits)

lemma project_name: "project sel d = Inr d' \<Longrightarrow> doc_name d' = doc_name d"
  by (auto simp: project_def rbind_Inr_iff split: option.splits)

lemma project_None [simp]: "project None = Inr"
  by (simp add: project_def fun_eq_iff)

lemma rcollect_Inr_self [simp]: "rcollect Inr xs = Inr xs"
  by (induction xs) auto

lemma rcollect_names:
  assumes "rcollect (project sel) ds = Inr rs"
  shows "map doc_name rs = map doc_name ds"
proof -
  have "list_all2 (\<lambda>d r. doc_name r = doc_name d) ds rs"
    using assms by (auto simp: rcollect_Inr_iff project_name elim!: list.rel_mono_strong)
  then show ?thesis by (induction rule: list_all2_induct) auto
qed

lemma sorted_ordered_matches: "sorted_by (compare_docs os) (ordered_matches os stored parent q)"
  unfolding ordered_matches_def by (intro sorted_by_filter qd.sorted_sort_by) simp

lemma set_ordered_matches:
  "d \<in> set (ordered_matches os stored parent q) \<longleftrightarrow>
   d \<in> set stored \<and> query_matches parent q d \<and> has_order_fields os d \<and> in_cursors os q d"
  by (auto simp: ordered_matches_def)

text \<open>Two sorted arrangements of the same documents with distinct names are the same list.\<close>

lemma sorted_docs_unique:
  assumes "''__name__'' \<in> fst ` set os" "mset xs = mset ys" "distinct (map doc_name xs)"
    "sorted_by (compare_docs os) xs" "sorted_by (compare_docs os) ys"
  shows "xs = ys"
  using assms(2-)
proof (induction xs arbitrary: ys)
  case (Cons x xs)
  obtain y ys' where ys: "ys = y # ys'" using Cons.prems(1) by (cases ys) auto
  have "x = y"
  proof (rule ccontr)
    assume ne: "x \<noteq> y"
    have "x \<in> set ys'" "y \<in> set xs"
      using Cons.prems(1) ne mset_eq_setD[OF Cons.prems(1)] unfolding ys by auto
    then have "compare_docs os x y \<noteq> Greater" "compare_docs os y x \<noteq> Greater"
      using Cons.prems(3,4) unfolding ys by auto
    then have "compare_docs os x y = Equal"
      using compare_docs_flip[of os y x] by (cases "compare_docs os x y") auto
    then have "doc_name x = doc_name y" by (rule compare_docs_name[OF assms(1)])
    then show False using Cons.prems(2) \<open>y \<in> set xs\<close> by auto
  qed
  then show ?case using Cons ys by auto
qed simp

lemma filter_split_sorted:
  assumes "sorted_by cmp xs" "\<And>x y. x \<in> set xs \<Longrightarrow> y \<in> set xs \<Longrightarrow> cmp x y \<noteq> Greater \<Longrightarrow> P y \<Longrightarrow> P x"
  shows "filter P xs @ filter (\<lambda>x. \<not> P x) xs = xs"
  using assms
proof (induction xs)
  case (Cons x xs)
  show ?case
  proof (cases "P x")
    case True
    then show ?thesis using Cons by auto
  next
    case False
    then have "\<forall>y \<in> set xs. \<not> P y" using Cons.prems by auto
    then show ?thesis using False by (auto simp: filter_empty_conv filter_id_conv)
  qed
qed simp

lemma cursor_complement: "cursor_keeps os True c d \<longleftrightarrow> \<not> cursor_keeps os False c d"
  by (cases "compare_at os d (cursor_values c)") (auto simp: cursor_keeps_def Let_def)

lemma cursor_below:
  assumes "compare_docs os a b \<noteq> Greater" "cursor_keeps os False c b"
  shows "cursor_keeps os False c a"
proof -
  have "compare_at os b (cursor_values c) \<noteq> Greater"
    using assms(2) by (auto simp: cursor_keeps_def Let_def)
  from compare_at_trans[OF assms(1) this] show ?thesis
    using assms(2) by (cases "compare_at os a (cursor_values c)") (auto simp: cursor_keeps_def Let_def)
qed

lemma rcollect_append:
  "rcollect f (xs @ ys) = rbind (rcollect f xs) (\<lambda>as. rbind (rcollect f ys) (\<lambda>bs. Inr (as @ bs)))"
proof (induction xs)
  case Nil
  show ?case by (cases "rcollect f ys") auto
next
  case (Cons x xs)
  then show ?case by (cases "f x"; cases "rcollect f xs"; cases "rcollect f ys") auto
qed

text \<open>The checks and stages do not depend on offset and limit.\<close>

lemma query_docs_page:
  assumes "query_docs stored parent q = Inr rs" "offset q' \<ge> 0" "limit q' = Some l" "l \<ge> 0"
    and "q' = q\<lparr>offset := offset q', limit := limit q'\<rparr>"
  shows "\<exists>os. effective_orders q = Inr os \<and>
    query_docs stored parent q' =
      rcollect (project (select q)) (take (nat l) (drop (nat (offset q')) (ordered_matches os stored parent q)))"
proof -
  have eo: "effective_orders q' = effective_orders q"
    by (subst assms(5)) (simp add: effective_orders_def)
  have fs: "from_selectors q' = from_selectors q" "where_filter q' = where_filter q"
    "start_at q' = start_at q" "end_at q' = end_at q" "select q' = select q"
    by (subst assms(5); simp)+
  let ?sel = "from_selectors q ! 0"
  obtain db found os d1 d2 where s: "database_from_resource parent = Inr db"
    "select_docs parent (collection_id ?sel) (all_descendants ?sel) (where_filter q) stored = Inr found"
    "effective_orders q = Inr os"
    "apply_cursor os True (start_at q) (sort_by (compare_docs os) (filter (has_order_fields os) found)) = Inr d1"
    "apply_cursor os False (end_at q) d1 = Inr d2"
    and ok: "length (from_selectors q) = 1" "collection_id ?sel \<noteq> []"
    using assms(1) by (auto simp: query_docs_def Let_def rbind_Inr_iff split: if_splits)
  have "d2 = ordered_matches os stored parent q"
    using s by (auto simp: ordered_matches_def query_matches_def[abs_def] in_cursors_def[abs_def]
        Let_def filter_filter conj_commute dest!: select_docs_Inr apply_cursor_Inr)
  then show ?thesis
    using s ok assms(2-4) by (simp add: query_docs_def fs eo Let_def)
qed

text \<open>A query of one collection for concrete instances.\<close>

abbreviation sample_query :: squery where
  "sample_query \<equiv> \<lparr>from_selectors = [\<lparr>collection_id = ''c'', all_descendants = False\<rparr>],
     where_filter = None, order_by = [], start_at = None, end_at = None, offset = 0, limit = None,
     select = None\<rparr>"

abbreviation sample_parent :: string where
  "sample_parent \<equiv> ''projects/p/databases/d/documents''"

lemma sample_stages [simp]:
  "database_from_resource sample_parent = Inr ''projects/p/databases/d''"
  "matches_collection sample_name sample_parent ''c'' False"
  "explicit_orders [] = Inr []"
  by (simp_all add: database_from_resource_def database_document_prefix_def split_path_def Let_def
      matches_collection_def trim_end_char_def explicit_orders_def)

lemmas query_eval = query_docs_def Let_def effective_orders_def last_direction_def
  has_order_fields_def apply_cursor_def cursor_keeps_def i32_max_def

subsection \<open>Properties\<close>

text \<open>
  Property C4.  A query returns, in the order of its effective orders, exactly the stored
  documents that are in the collection, pass the filter, have every ordered field and lie
  within the cursors, cut to the page of its offset and limit; the missing-field guard means
  no ordered field is ever unwrapped on a document without it.
\<close>

theorem query_docs_result:
  assumes "query_docs stored parent q = Inr rs"
  shows "\<exists>os ds. effective_orders q = Inr os \<and> sorted_by (compare_docs os) ds \<and>
    mset ds = mset (filter (\<lambda>d. query_matches parent q d \<and> has_order_fields os d \<and> in_cursors os q d) stored) \<and>
    rcollect (project (select q)) (take (query_limit q) (drop (nat (offset q)) ds)) = Inr rs \<and>
    length rs \<le> query_limit q"
proof -
  obtain os where os: "effective_orders q = Inr os"
    "rcollect (project (select q)) (take (query_limit q) (drop (nat (offset q))
        (ordered_matches os stored parent q))) = Inr rs"
    using assms by (rule query_docs_Inr)
  have "length rs = length (take (query_limit q) (drop (nat (offset q)) (ordered_matches os stored parent q)))"
    using rcollect_names[OF os(2)] by (metis length_map)
  moreover have "mset (ordered_matches os stored parent q) =
      mset (filter (\<lambda>d. query_matches parent q d \<and> has_order_fields os d \<and> in_cursors os q d) stored)"
    unfolding ordered_matches_def mset_filter mset_sort_by
    by (simp add: filter_filter_mset conj_ac)
  ultimately show ?thesis
    using os sorted_ordered_matches[of os stored parent q]
    by (intro exI[of _ os] exI[of _ "ordered_matches os stored parent q"]) auto
qed

lemma query_docs_result_witness:
  "\<exists>ds. sorted_by (compare_docs [(''__name__'', False)]) ds \<and> mset ds = {#sample_document []#}"
proof -
  have q: "query_docs [sample_document []] sample_parent sample_query = Inr [sample_document []]"
    by (simp add: query_eval)
  have os: "effective_orders sample_query = Inr [(''__name__'', False)]" by (simp add: query_eval)
  show ?thesis using query_docs_result[OF q]
    by (auto simp: os query_matches_def has_order_fields_def in_cursors_def)
qed

text \<open>
  The order in which the documents are stored does not matter: as their names
  are distinct and every query is ordered by name last, any two arrangements of the same
  documents give the same answer.
\<close>

theorem query_docs_order_independent:
  assumes "query_docs stored parent q = Inr rs" "query_docs stored' parent q = Inr rs'"
    and "mset stored = mset stored'" "distinct (map doc_name stored)"
  shows "rs = rs'"
proof -
  obtain os where os: "effective_orders q = Inr os"
    "rcollect (project (select q)) (take (query_limit q) (drop (nat (offset q))
        (ordered_matches os stored parent q))) = Inr rs"
    using assms(1) by (rule query_docs_Inr)
  obtain os' where os': "effective_orders q = Inr os'"
    "rcollect (project (select q)) (take (query_limit q) (drop (nat (offset q))
        (ordered_matches os' stored' parent q))) = Inr rs'"
    using assms(2) by (rule query_docs_Inr)
  have same: "os' = os" using os(1) os'(1) by simp
  have "distinct (map doc_name (sort_by (compare_docs os) ds)) = distinct (map doc_name ds)" for ds
    by (rule mset_eq_imp_distinct_iff) simp
  then have dist: "distinct (map doc_name (ordered_matches os stored parent q))"
    using assms(4) by (simp add: ordered_matches_def distinct_map_filter)
  have "mset (ordered_matches os stored parent q) = mset (ordered_matches os stored' parent q)"
    using assms(3) by (simp add: ordered_matches_def)
  then have "ordered_matches os stored parent q = ordered_matches os stored' parent q"
    using dist by (intro sorted_docs_unique[OF effective_orders_name[OF os(1)]] sorted_ordered_matches)
  then show ?thesis using os(2) os'(2) same by simp
qed

lemma query_docs_order_independent_witness:
  "projr (query_docs [sample_document []] sample_parent sample_query) =
   projr (query_docs (rev [sample_document []]) sample_parent sample_query)"
  using query_docs_order_independent[of "[sample_document []]" sample_parent sample_query
      "[sample_document []]" "rev [sample_document []]" "[sample_document []]"]
  by (simp add: query_eval)

text \<open>
  Pages fit together: the page of \<open>n\<close> documents from an offset followed by the
  page of \<open>m\<close> documents from there is the page of \<open>n + m\<close> documents.
\<close>

theorem query_pages_concatenate:
  assumes "query_docs stored parent (q\<lparr>offset := k, limit := Some n\<rparr>) = Inr r1"
    and "query_docs stored parent (q\<lparr>offset := k + n, limit := Some m\<rparr>) = Inr r2"
    and "0 \<le> k" "0 \<le> n" "0 \<le> m"
  shows "query_docs stored parent (q\<lparr>offset := k, limit := Some (n + m)\<rparr>) = Inr (r1 @ r2)"
proof -
  let ?q = "q\<lparr>offset := k, limit := Some n\<rparr>"
  obtain os where os: "effective_orders ?q = Inr os" by (rule query_docs_Inr[OF assms(1)])
  let ?ds = "ordered_matches os stored parent ?q"
  have page: "query_docs stored parent (q\<lparr>offset := o1, limit := Some l\<rparr>) =
      rcollect (project (select q)) (take (nat l) (drop (nat o1) ?ds))" if "0 \<le> o1" "0 \<le> l" for o1 l
    using query_docs_page[OF assms(1), of "q\<lparr>offset := o1, limit := Some l\<rparr>" l] that os by simp
  have "take (nat (n + m)) (drop (nat k) ?ds) =
        take (nat n) (drop (nat k) ?ds) @ take (nat m) (drop (nat (k + n)) ?ds)"
  proof -
    have "nat (n + m) = nat n + nat m" "nat (k + n) = nat n + nat k" using assms(3-5) by auto
    then show ?thesis by (simp only: take_add drop_drop)
  qed
  moreover have "rcollect (project (select q)) (take (nat n) (drop (nat k) ?ds)) = Inr r1"
    using trans[OF page[of k n, symmetric] assms(1)] assms(3,4) by simp
  moreover have "rcollect (project (select q)) (take (nat m) (drop (nat (k + n)) ?ds)) = Inr r2"
    using trans[OF page[of "k + n" m, symmetric] assms(2)] assms(3-5) by simp
  ultimately show ?thesis
    using page[of k "n + m"] assms(3-5) by (simp add: rcollect_append)
qed

lemma query_pages_concatenate_witness:
  "query_docs [sample_document []] sample_parent (sample_query\<lparr>offset := 0, limit := Some (1 + 1)\<rparr>) =
     Inr ([sample_document []] @ [])"
  by (rule query_pages_concatenate) (simp_all add: query_eval)

text \<open>
  A cursor cuts a query in two: what ends at the cursor followed by what starts
  at it is the whole result, whichever side the cursor position itself is on.
\<close>

theorem query_cursor_splits:
  assumes "query_docs stored parent (q\<lparr>start_at := None, end_at := None, limit := None, offset := 0, select := None\<rparr>) = Inr r"
    and "query_docs stored parent (q\<lparr>start_at := None, end_at := Some c, limit := None, offset := 0, select := None\<rparr>) = Inr r1"
    and "query_docs stored parent (q\<lparr>start_at := Some c, end_at := None, limit := None, offset := 0, select := None\<rparr>) = Inr r2"
    and "int (length stored) \<le> i32_max"
  shows "r = r1 @ r2"
proof -
  let ?q = "\<lambda>a b. q\<lparr>start_at := a, end_at := b, limit := None, offset := 0, select := None\<rparr>"
  have len: "length (ordered_matches os stored parent q') \<le> length stored" for os q'
    by (auto simp: ordered_matches_def intro!: order.trans[OF length_filter_le])
  have res: "r' = ordered_matches os stored parent (?q a b)"
    if "query_docs stored parent (?q a b) = Inr r'" "effective_orders q = Inr os" for r' a b os
  proof (rule query_docs_Inr[OF that(1)])
    fix os' assume os': "effective_orders (?q a b) = Inr os'"
      "rcollect (project (select (?q a b))) (take (query_limit (?q a b)) (drop (nat (offset (?q a b)))
        (ordered_matches os' stored parent (?q a b)))) = Inr r'"
    have "os' = os" using os'(1) that(2) by (simp add: effective_orders_def)
    moreover have "length (ordered_matches os' stored parent (?q a b)) \<le> nat i32_max"
      using len[of os' "?q a b"] assms(4) by linarith
    ultimately show ?thesis using os'(2) by (simp add: query_limit_def)
  qed
  obtain os where os: "effective_orders q = Inr os"
    by (rule query_docs_Inr[OF assms(1)]) (simp add: effective_orders_def)
  let ?all = "ordered_matches os stored parent (?q None None)"
  have f1: "ordered_matches os stored parent (?q None (Some c)) = filter (cursor_keeps os False c) ?all"
    by (simp add: ordered_matches_def in_cursors_def[abs_def] query_matches_def[abs_def] Let_def)
  have f2: "ordered_matches os stored parent (?q (Some c) None) = filter (\<lambda>d. \<not> cursor_keeps os False c d) ?all"
    by (simp add: ordered_matches_def in_cursors_def[abs_def] query_matches_def[abs_def] Let_def
        cursor_complement)
  show ?thesis
    using res[OF assms(1) os] res[OF assms(2) os] res[OF assms(3) os] f1 f2
      filter_split_sorted[OF sorted_ordered_matches[of os stored parent "?q None None"],
        of "cursor_keeps os False c"] cursor_below by auto
qed

lemma query_cursor_splits_witness:
  "[sample_document []] = [sample_document []] @ []"
  by (rule query_cursor_splits[of "[sample_document []]" sample_parent sample_query _
        "\<lparr>cursor_values = [ReferenceValue ''z''], before = True\<rparr>"])
     (simp_all add: query_eval cmp_lin_def)

end
