(* ===== verification/Firestore_Listen.thy ===== *)
theory Firestore_Listen
  imports Firestore_Query
begin

text \<open>
  Real-time listeners of \<open>src/src/firestore.rs\<close>: the target table of a \<open>Listen\<close> stream, the
  messages \<open>emit_target\<close> sends for the difference between the documents of a target before
  and now, and the client's view that replays them.  The documents of a target come from a
  query or a list of names.
\<close>

subsection \<open>Data\<close>

datatype target_type = Documents "string list" | Query string "squery option"

record listen_target =
  target_id :: int
  target_type :: "target_type option"

text \<open>A target change (kind, targets, whether it carries a read time), a removal and a change.\<close>

datatype message =
    TargetChange int "int list" bool
  | DocumentRemove string int
  | DocumentChange document int

subsection \<open>Documents of a target\<close>

definition target_docs :: "documents \<Rightarrow> listen_target \<Rightarrow> document list res" where
  "target_docs ds t =
     (case target_type t of
        Some (Documents names) \<Rightarrow> Inr (List.map_filter (sm_get ds) names)
      | Some (Query parent (Some q)) \<Rightarrow> query_docs (sm_values ds) parent q
      | Some (Query parent None) \<Rightarrow> Inl (invalid_argument ''query required'')
      | None \<Rightarrow> Inl (invalid_argument ''target required''))"

definition by_name :: "document list \<Rightarrow> documents" where
  "by_name ds = sm_of_list (map (\<lambda>d. (doc_name d, d)) ds)"

text \<open>The derived equality of two documents.\<close>

definition document_eq :: "document \<Rightarrow> document \<Rightarrow> bool" where
  "document_eq a b =
     (doc_name a = doc_name b \<and> fields_eq (doc_fields a) (doc_fields b) \<and>
      create_time a = create_time b \<and> update_time a = update_time b)"

subsection \<open>Messages\<close>

definition target_response :: "int \<Rightarrow> int list \<Rightarrow> bool \<Rightarrow> message" where
  "target_response kind ids read_time = TargetChange kind ids read_time"

definition removals :: "int \<Rightarrow> documents \<Rightarrow> documents \<Rightarrow> message list" where
  "removals i current previous =
     map (\<lambda>n. DocumentRemove n i) (filter (\<lambda>n. \<not> sm_has current n) (sm_keys previous))"

definition unchanged :: "documents \<Rightarrow> string \<Rightarrow> document \<Rightarrow> bool" where
  "unchanged previous n d = (case sm_get previous n of Some p \<Rightarrow> document_eq p d | None \<Rightarrow> False)"

definition changes :: "int \<Rightarrow> documents \<Rightarrow> documents \<Rightarrow> message list" where
  "changes i current previous =
     map (\<lambda>(n, d). DocumentChange d i) (filter (\<lambda>(n, d). \<not> unchanged previous n d) current)"

definition emit_messages :: "int \<Rightarrow> documents \<Rightarrow> documents \<Rightarrow> bool \<Rightarrow> message list" where
  "emit_messages i current previous initial =
     removals i current previous @ changes i current previous @
     (if initial then [target_response 3 [i] False] else []) @ [target_response 0 [] True]"

definition emit_target ::
  "documents \<Rightarrow> listen_target \<Rightarrow> documents \<Rightarrow> bool \<Rightarrow> (message list \<times> documents) res" where
  "emit_target ds t previous initial =
     rbind (target_docs ds t) (\<lambda>found.
       let current = by_name found in
       Inr (emit_messages (target_id t) current previous initial, current))"

subsection \<open>The stream\<close>

type_synonym targets = "(int, listen_target \<times> documents) smap"

datatype listen_event = AddTarget listen_target | RemoveTarget int | NoTargetChange | StoreChanged

text \<open>\<open>(1..).find(|id| !targets.contains_key(id)).unwrap()\<close>: one of the first ids is free.\<close>

definition free_target_id :: "targets \<Rightarrow> int" where
  "free_target_id ts =
     the (List.find (\<lambda>i. \<not> sm_has ts i) (map int [1..<length ts + 2]))"

fun refresh_targets :: "documents \<Rightarrow> targets \<Rightarrow> message list \<times> targets \<times> status option" where
  "refresh_targets ds [] = ([], [], None)"
| "refresh_targets ds ((i, t, previous) # ts) =
     (case emit_target ds t previous False of
        Inl e \<Rightarrow> ([], (i, t, previous) # ts, Some e)
      | Inr (ms, current) \<Rightarrow>
          (case refresh_targets ds ts of
             (ms', ts', e) \<Rightarrow> (ms @ ms', (i, t, current) # ts', e)))"

text \<open>
  One turn of the loop: the messages sent, the table of targets, and the error that ends the
  stream, if any.
\<close>

definition listen_step ::
  "documents \<Rightarrow> targets \<Rightarrow> listen_event \<Rightarrow> message list \<times> targets \<times> status option" where
  "listen_step ds ts ev =
     (case ev of
        AddTarget t \<Rightarrow>
          (let t1 = (if target_id t = 0 then t\<lparr>target_id := free_target_id ts\<rparr> else t);
               i = target_id t1;
               added = target_response 1 [i] False
           in case emit_target ds t1 [] True of
                Inl e \<Rightarrow> ([added], ts, Some e)
              | Inr (ms, current) \<Rightarrow> (added # ms, sm_put i (t1, current) ts, None))
      | RemoveTarget i \<Rightarrow> ([target_response 2 [i] False], sm_del i ts, None)
      | NoTargetChange \<Rightarrow> ([], ts, None)
      | StoreChanged \<Rightarrow> refresh_targets ds ts)"

subsection \<open>The client's view\<close>

fun apply_message :: "message \<Rightarrow> documents \<Rightarrow> documents" where
  "apply_message (TargetChange k ids r) view = view"
| "apply_message (DocumentRemove n i) view = sm_del n view"
| "apply_message (DocumentChange d i) view = sm_put (doc_name d) d view"

definition replay :: "message list \<Rightarrow> documents \<Rightarrow> documents" where
  "replay ms view = fold apply_message ms view"

lemma replay_simps [simp]:
  "replay [] v = v"
  "replay (m # ms) v = replay ms (apply_message m v)"
  "replay (ms @ ms') v = replay ms' (replay ms v)"
  by (auto simp: replay_def)

subsection \<open>The derived equality is transitive\<close>

lemma value_eq_map:
  assumes "sm_wf m" "sm_wf n"
  shows "value_eq (MapValue m) (MapValue n) \<longleftrightarrow> list_all2 (\<lambda>(k, x) (l, y). k = l \<and> value_eq x y) m n"
proof -
  have "value_eq (MapValue m) (MapValue n) \<longleftrightarrow> length m = length n \<and>
      (\<forall>(k, x) \<in> set m. \<exists>y. sm_get n k = Some y \<and> value_eq x y)"
    by (subst value_eq.simps) (auto simp: list_all_iff split: option.splits)
  then show ?thesis using sm_all2_iff[OF assms] by simp
qed

lemma value_eq_array: "value_eq (ArrayValue xs) (ArrayValue ys) \<longleftrightarrow> list_all2 value_eq xs ys"
  by (subst value_eq.simps) (auto simp: list_all2_iff list_all_iff)

lemma fields_eq_value: "fields_eq m n = value_eq (MapValue m) (MapValue n)"
  by (subst value_eq.simps) (simp add: fields_eq_def)

lemma value_eq_rank: "value_eq a b \<Longrightarrow> value_rank a = value_rank b"
  unfolding value_eq.simps[of a b] by (cases a; cases b; simp)

lemma value_eq_double: "value_eq (DoubleValue x) b \<longleftrightarrow> (\<exists>y. b = DoubleValue y \<and> f64_eq x y)"
  unfolding value_eq.simps[of "DoubleValue x" b] by (cases b) auto

lemma value_eq_geo:
  "value_eq (GeoPointValue x1 x2) b \<longleftrightarrow> (\<exists>y1 y2. b = GeoPointValue y1 y2 \<and> f64_eq x1 y1 \<and> f64_eq x2 y2)"
  unfolding value_eq.simps[of "GeoPointValue x1 x2" b] by (cases b) auto

lemma value_eq_other:
  "value_rank a \<notin> {2, 7, 8, 9} \<Longrightarrow> value_eq a b \<longleftrightarrow> a = b"
  "value_eq (IntegerValue i) b \<longleftrightarrow> b = IntegerValue i"
proof -
  show "value_rank a \<notin> {2, 7, 8, 9} \<Longrightarrow> value_eq a b \<longleftrightarrow> a = b"
    unfolding value_eq.simps[of a b] by (cases a) simp_all
  show "value_eq (IntegerValue i) b \<longleftrightarrow> b = IntegerValue i"
    by (subst value_eq.simps) auto
qed

lemma value_eq_leaf_trans:
  assumes "value_rank a < 8" "value_eq a b" "value_eq b c"
  shows "value_eq a c"
proof -
  consider (num) x where "a = DoubleValue x" | (int) i where "a = IntegerValue i"
    | (geo) x y where "a = GeoPointValue x y" | (other) "value_rank a \<notin> {2, 7, 8, 9}"
    using assms(1) by (cases a) auto
  then show ?thesis
  proof cases
    case num
    then obtain y where y: "b = DoubleValue y" "f64_eq x y" using assms(2) by (auto simp: value_eq_double)
    then obtain z where "c = DoubleValue z" "f64_eq y z" using assms(3) by (auto simp: value_eq_double)
    then show ?thesis using num y by (simp add: value_eq_double f64_eq_def)
  next
    case int
    then have "b = a" using assms(2) by (simp add: value_eq_other(2))
    then show ?thesis using assms(3) by simp
  next
    case geo
    then obtain u v where y: "b = GeoPointValue u v" "f64_eq x u" "f64_eq y v"
      using assms(2) by (auto simp: value_eq_geo)
    then obtain s t where "c = GeoPointValue s t" "f64_eq u s" "f64_eq v t"
      using assms(3) by (auto simp: value_eq_geo)
    then show ?thesis using geo y by (simp add: value_eq_geo f64_eq_def)
  next
    case other
    then show ?thesis using assms(2,3) value_eq_other(1)[OF other, of b] by simp
  qed
qed

lemma list_all2_chain:
  assumes "list_all2 P xs ys" "list_all2 Q ys zs"
    and "\<And>x y z. x \<in> set xs \<Longrightarrow> y \<in> set ys \<Longrightarrow> z \<in> set zs \<Longrightarrow> P x y \<Longrightarrow> Q y z \<Longrightarrow> R x z"
  shows "list_all2 R xs zs"
  using assms
proof (induction xs ys arbitrary: zs rule: list_all2_induct)
  case (Cons x xs y ys)
  obtain z zs' where zs: "zs = z # zs'" "Q y z" "list_all2 Q ys zs'"
    using Cons.prems(1) by (auto simp: list_all2_Cons1)
  have "R x z" using Cons.hyps(1) zs by (intro Cons.prems(2)[of x y z]) auto
  moreover have "list_all2 R xs zs'"
  proof (rule Cons.IH[OF zs(3)])
    fix u v w assume "u \<in> set xs" "v \<in> set ys" "w \<in> set zs'" "P u v" "Q v w"
    then show "R u w" using zs(1) by (intro Cons.prems(2)[of u v w]) auto
  qed
  ultimately show ?case by (simp add: zs(1))
qed simp

lemma value_eq_trans:
  "value_wf a \<Longrightarrow> value_wf b \<Longrightarrow> value_wf c \<Longrightarrow> value_eq a b \<Longrightarrow> value_eq b c \<Longrightarrow> value_eq a c"
proof (induction "size a" arbitrary: a b c rule: less_induct)
  case less
  note rank = value_eq_rank[OF less.prems(4)] value_eq_rank[OF less.prems(5)]
  show ?case
  proof (cases a rule: value_rank_cases)
    case leaf
    then show ?thesis using less.prems by (auto intro: value_eq_leaf_trans)
  next
    case (array xs)
    then obtain ys zs where bc: "b = ArrayValue ys" "c = ArrayValue zs"
      using rank value_rank_iff(1) by (metis value_rank.simps(11))
    have step: "value_eq x z" if "x \<in> set xs" "y \<in> set ys" "z \<in> set zs" "value_eq x y" "value_eq y z" for x y z
      using that less.prems(1-3) array bc size_elem by (intro less(1)[of x y z]) (auto simp: list_all_iff)
    show ?thesis
      using less.prems(4,5) unfolding array bc value_eq_array
      by (rule list_all2_chain) (rule step)
  next
    case (mapv m)
    then obtain n l where bc: "b = MapValue n" "c = MapValue l"
      using rank value_rank_iff(2) by (metis value_rank.simps(12))
    have wf: "sm_wf m" "sm_wf n" "sm_wf l"
      using less.prems(1-3) mapv bc by (auto simp: fields_wf_def)
    have step: "value_eq x z" if "(k, x) \<in> set m" "(k, y) \<in> set n" "(k, z) \<in> set l"
      "value_eq x y" "value_eq y z" for k x y z
      using that less.prems(1-3) mapv bc size_fields[OF that(1)]
      by (intro less(1)[of x y z]) (auto simp: list_all_iff fields_wf_def)
    show ?thesis
      using less.prems(4,5)
      unfolding mapv bc value_eq_map[OF wf(1,2)] value_eq_map[OF wf(2,3)] value_eq_map[OF wf(1,3)]
    proof (rule list_all2_chain)
      fix x y z assume "x \<in> set m" "y \<in> set n" "z \<in> set l"
        "(case x of (k, x) \<Rightarrow> \<lambda>(l, y). k = l \<and> value_eq x y) y" "(case y of (k, x) \<Rightarrow> \<lambda>(l, y). k = l \<and> value_eq x y) z"
      then show "(case x of (k, x) \<Rightarrow> \<lambda>(l, y). k = l \<and> value_eq x y) z"
        using step by (cases x; cases y; cases z) auto
    qed
  qed
qed

subsection \<open>Replaying the messages\<close>

text \<open>A client holds for each name a document that is the current one up to the equality.\<close>

definition same_document :: "document \<Rightarrow> document \<Rightarrow> bool" where
  "same_document a b = (a = b \<or> document_eq a b)"

definition views_agree :: "documents \<Rightarrow> documents \<Rightarrow> bool" where
  "views_agree view current =
     (\<forall>n. case (sm_get view n, sm_get current n) of
        (None, None) \<Rightarrow> True | (Some a, Some b) \<Rightarrow> same_document a b | _ \<Rightarrow> False)"

definition docs_ok :: "documents \<Rightarrow> bool" where
  "docs_ok ds = (sm_wf ds \<and> (\<forall>n d. sm_get ds n = Some d \<longrightarrow> doc_name d = n \<and> fields_wf (doc_fields d)))"

lemma document_eq_trans:
  assumes "fields_wf (doc_fields a)" "fields_wf (doc_fields b)" "fields_wf (doc_fields c)"
    "document_eq a b" "document_eq b c"
  shows "document_eq a c"
proof -
  have "value_eq (MapValue (doc_fields a)) (MapValue (doc_fields c))"
    by (rule value_eq_trans[of _ "MapValue (doc_fields b)"])
       (use assms in \<open>auto simp: document_eq_def fields_eq_value\<close>)
  then show ?thesis using assms(4,5) by (simp add: document_eq_def fields_eq_value)
qed

lemma replay_removals:
  "sm_wf v \<Longrightarrow> sm_wf (replay (map (\<lambda>n. DocumentRemove n i) ns) v) \<and>
   sm_get (replay (map (\<lambda>n. DocumentRemove n i) ns) v) k = (if k \<in> set ns then None else sm_get v k)"
  by (induction ns arbitrary: v) auto

lemma replay_changes:
  "sm_wf v \<Longrightarrow> sm_wf c \<Longrightarrow> (\<And>n d. (n, d) \<in> set c \<Longrightarrow> doc_name d = n) \<Longrightarrow>
   sm_wf (replay (map (\<lambda>(n, d). DocumentChange d i) c) v) \<and>
   sm_get (replay (map (\<lambda>(n, d). DocumentChange d i) c) v) k =
     (case sm_get c k of Some d \<Rightarrow> Some d | None \<Rightarrow> sm_get v k)"
proof (induction c arbitrary: v)
  case (Cons e c)
  obtain n d where e: "e = (n, d)" by (cases e)
  have nm: "doc_name d = n" using Cons.prems(3) e by simp
  have IH: "sm_wf (replay (map (\<lambda>(n, d). DocumentChange d i) c) (sm_put n d v)) \<and>
      sm_get (replay (map (\<lambda>(n, d). DocumentChange d i) c) (sm_put n d v)) k =
      (case sm_get c k of Some d \<Rightarrow> Some d | None \<Rightarrow> sm_get (sm_put n d v) k)"
  proof (rule Cons.IH)
    show "sm_wf (sm_put n d v)" using Cons.prems(1) by simp
    show "sm_wf c" using Cons.prems(2) e by simp
    fix n' d' assume "(n', d') \<in> set c"
    then show "doc_name d' = n'" by (intro Cons.prems(3)) simp
  qed
  have "sm_get c n = None" using Cons.prems(2) e by (auto simp: sm_get_None)
  then show ?case using IH Cons.prems(1) nm e by (auto split: option.splits)
qed simp

lemma sm_get_filter_wf:
  "sm_wf m \<Longrightarrow> sm_get (filter (\<lambda>(n, d). P n d) m) k =
     (case sm_get m k of Some d \<Rightarrow> if P k d then Some d else None | None \<Rightarrow> None)"
  using sm_get_retain[of m P k] by (auto simp: sm_retain_def split: option.splits)

lemma replay_emit_get:
  assumes "sm_wf v" "docs_ok current" "sm_wf previous"
  shows "sm_wf (replay (emit_messages i current previous ini) v) \<and>
    sm_get (replay (emit_messages i current previous ini) v) k =
      (case sm_get current k of
         Some d \<Rightarrow> if unchanged previous k d then sm_get v k else Some d
       | None \<Rightarrow> if sm_has previous k then None else sm_get v k)"
proof -
  let ?v1 = "replay (removals i current previous) v"
  let ?ch = "filter (\<lambda>(n, d). \<not> unchanged previous n d) current"
  have r: "sm_wf ?v1 \<and> sm_get ?v1 k = (if sm_has previous k \<and> \<not> sm_has current k then None else sm_get v k)"
    for k using replay_removals[OF assms(1), of i "filter (\<lambda>n. \<not> sm_has current n) (sm_keys previous)" k]
    by (auto simp: removals_def sm_keys_def sm_has_in)
  have wfc: "sm_wf current" using assms(2) by (simp add: docs_ok_def)
  have nm: "doc_name d = n" if "(n, d) \<in> set ?ch" for n d
    using that assms(2) in_sm_get[OF wfc] by (auto simp: docs_ok_def)
  have c: "sm_wf (replay (changes i current previous) ?v1) \<and>
      sm_get (replay (changes i current previous) ?v1) k =
      (case sm_get ?ch k of Some d \<Rightarrow> Some d | None \<Rightarrow> sm_get ?v1 k)"
    unfolding changes_def using r nm by (intro replay_changes sm_wf_filter wfc) auto
  have "replay (emit_messages i current previous ini) v = replay (changes i current previous) ?v1"
    by (simp add: emit_messages_def target_response_def)
  then show ?thesis
    using c r[of k] by (auto simp: sm_get_filter_wf[OF wfc] sm_has_def split: option.splits)
qed

lemma replay_emit_agree:
  assumes "docs_ok v" "docs_ok current" "docs_ok previous" "views_agree v previous"
  shows "views_agree (replay (emit_messages i current previous ini) v) current \<and>
         docs_ok (replay (emit_messages i current previous ini) v)"
proof -
  let ?r = "replay (emit_messages i current previous ini) v"
  have wf: "sm_wf v" "sm_wf previous" using assms(1,3) by (auto simp: docs_ok_def)
  note g = replay_emit_get[OF wf(1) assms(2) wf(2), of i ini]
  have "case (sm_get ?r k, sm_get current k) of
        (None, None) \<Rightarrow> True | (Some a, Some b) \<Rightarrow> same_document a b | _ \<Rightarrow> False" for k
  proof (cases "sm_get current k")
    case None
    have "case (sm_get v k, sm_get previous k) of
        (None, None) \<Rightarrow> True | (Some a, Some b) \<Rightarrow> same_document a b | _ \<Rightarrow> False"
      using assms(4) by (simp add: views_agree_def)
    then show ?thesis using g[of k] None by (auto simp: sm_has_def split: option.splits)
  next
    case (Some d)
    show ?thesis
    proof (cases "unchanged previous k d")
      case True
      then obtain p where p: "sm_get previous k = Some p" "document_eq p d"
        by (auto simp: unchanged_def split: option.splits)
      have "case (sm_get v k, sm_get previous k) of
        (None, None) \<Rightarrow> True | (Some a, Some b) \<Rightarrow> same_document a b | _ \<Rightarrow> False"
        using assms(4) by (simp add: views_agree_def)
      then obtain a where a: "sm_get v k = Some a" "same_document a p"
        using p(1) by (auto split: option.splits)
      have "fields_wf (doc_fields a)" "fields_wf (doc_fields p)" "fields_wf (doc_fields d)"
        using assms(1-3) a(1) p(1) Some by (auto simp: docs_ok_def)
      then have "same_document a d"
        using a(2) p(2) document_eq_trans[of a p d] by (auto simp: same_document_def)
      then show ?thesis using g[of k] Some True a by simp
    next
      case False
      then show ?thesis using g[of k] Some by (simp add: same_document_def)
    qed
  qed
  moreover have "docs_ok ?r"
    using g assms(1,2) by (auto simp: docs_ok_def split: option.splits if_splits)
  ultimately show ?thesis by (simp add: views_agree_def)
qed

text \<open>The messages of a listener that sees a sequence of states of its target.\<close>

fun emit_sequence :: "int \<Rightarrow> documents \<Rightarrow> documents list \<Rightarrow> message list" where
  "emit_sequence i previous [] = []"
| "emit_sequence i previous (c # cs) = emit_messages i c previous False @ emit_sequence i c cs"

lemma emit_sequence_agree:
  "docs_ok v \<Longrightarrow> docs_ok previous \<Longrightarrow> views_agree v previous \<Longrightarrow> list_all docs_ok cs \<Longrightarrow>
   views_agree (replay (emit_sequence i previous cs) v) (last (previous # cs))"
proof (induction cs arbitrary: v previous)
  case (Cons c cs)
  have "views_agree (replay (emit_messages i c previous False) v) c \<and>
        docs_ok (replay (emit_messages i c previous False) v)"
    using Cons.prems by (intro replay_emit_agree) auto
  then show ?case using Cons.IH[of "replay (emit_messages i c previous False) v" c] Cons.prems(4) by simp
qed simp

subsection \<open>Free target ids\<close>

lemma free_target_id:
  assumes "sm_wf ts"
  shows "0 < free_target_id ts \<and> \<not> sm_has ts (free_target_id ts)"
proof -
  let ?c = "map int [1..<length ts + 2]"
  have "\<exists>i \<in> set ?c. \<not> sm_has ts i"
  proof (rule ccontr)
    assume "\<not> ?thesis"
    then have "set ?c \<subseteq> set (map fst ts)" by (auto simp: sm_has_in)
    then have "card (set ?c) \<le> card (set (map fst ts))" by (intro card_mono) auto
    moreover have "card (set ?c) = length ?c" by (rule distinct_card) (simp add: distinct_map inj_on_def del: upt_Suc)
    moreover have "length ?c = length ts + 1" by (simp del: upt_Suc)
    moreover have "card (set (map fst ts)) \<le> length ts" using card_length[of "map fst ts"] by simp
    ultimately show False by linarith
  qed
  then obtain i where i: "List.find (\<lambda>i. \<not> sm_has ts i) ?c = Some i"
    by (metis find_None_iff not_None_eq)
  have "i \<in> set ?c" "\<not> sm_has ts i" using i unfolding find_Some_iff by (metis nth_mem, blast)
  moreover have "free_target_id ts = i" by (simp only: free_target_id_def i option.sel)
  ultimately show ?thesis by auto
qed

subsection \<open>Properties\<close>

text \<open>
  Property C5.  A client that replays the messages of a listener ends with the current
  documents of the target: after the initial snapshot and any sequence of later states, each
  document it holds is the current one (up to the equality the listener tests), and it holds
  no other.
\<close>

theorem listener_converges:
  assumes "list_all docs_ok (initial # later)"
  shows "views_agree
     (replay (emit_messages i initial [] True @ emit_sequence i initial later) [])
     (last (initial # later))"
proof -
  have e: "docs_ok []" by (simp add: docs_ok_def)
  have "views_agree [] []" by (simp add: views_agree_def)
  then have "views_agree (replay (emit_messages i initial [] True) []) initial \<and>
        docs_ok (replay (emit_messages i initial [] True) [])"
    using assms e by (intro replay_emit_agree) auto
  then show ?thesis using emit_sequence_agree[of _ initial later i] assms by simp
qed

lemma listener_converges_witness:
  "views_agree (replay (emit_messages 1 [(sample_name, sample_document [])] [] True @
      emit_sequence 1 [(sample_name, sample_document [])] [[]]) []) []"
  using listener_converges[of "[(sample_name, sample_document [])]" "[[]]" 1]
  by (simp add: docs_ok_def)

text \<open>
  Adding a target without an id gives it a positive id that no other target of
  the stream has, so the search for a free id always ends.
\<close>

theorem added_target_id_fresh:
  assumes "sm_wf ts" "target_id t = 0"
  shows "case listen_step ds ts (AddTarget t) of (ms, ts', e) \<Rightarrow>
    (\<exists>i > 0. \<not> sm_has ts i \<and> hd ms = TargetChange 1 [i] False \<and>
       (e = None \<longrightarrow> sm_has ts' i \<and> (\<forall>j. j \<noteq> i \<longrightarrow> sm_get ts' j = sm_get ts j)) \<and>
       (e \<noteq> None \<longrightarrow> ts' = ts))"
  using free_target_id[OF assms(1)] assms
  by (auto simp: listen_step_def Let_def target_response_def split: sum.splits
      intro!: exI[of _ "free_target_id ts"])

lemma added_target_id_fresh_witness:
  "sm_has (fst (snd (listen_step [] [] (AddTarget \<lparr>target_id = 0, target_type = Some (Documents [])\<rparr>)))) 1"
proof -
  let ?t = "\<lparr>target_id = 0, target_type = Some (Documents [])\<rparr> :: listen_target"
  have c: "listen_step [] [] (AddTarget ?t) =
      ([TargetChange 1 [1] False, TargetChange 3 [1] False, TargetChange 0 [] True],
       [(1, ?t\<lparr>target_id := 1\<rparr>, [])], None)"
    by (simp add: listen_step_def free_target_id_def sm_has_def emit_target_def target_docs_def
        by_name_def sm_of_list_def emit_messages_def removals_def changes_def sm_keys_def
        target_response_def List.map_filter_def Let_def)
  show ?thesis
    using added_target_id_fresh[of "[]" ?t "[]"] unfolding c by auto
qed

end
