(* ===== verification/PubSub_Resources.thy ===== *)
theory PubSub_Resources
  imports Smap Strings
begin

text \<open>
  The parts of \<open>src/src/pubsub.rs\<close> around the broker: resource names, the checks of topics and
  subscriptions, and pagination.  The URL-safe base64 of page tokens is a pair of parameters
  \<open>enc\<close> and \<open>dec\<close>.
\<close>

subsection \<open>Resource names\<close>

definition slash_parts :: "string \<Rightarrow> string list" where
  "slash_parts s = split_on CHR ''/'' s"

definition id_char :: "char \<Rightarrow> bool" where
  "id_char c = (is_alnum c \<or> c \<in> set ''-_.~+%'')"

definition valid_id :: "string \<Rightarrow> bool" where
  "valid_id i = (3 \<le> length i \<and> length i \<le> 255 \<and> list_all id_char i \<and> is_alpha (hd i) \<and>
     \<not> starts_with ''goog'' (lowercase i))"

definition parse_resource :: "string \<Rightarrow> string \<Rightarrow> (string \<times> string) res" where
  "parse_resource value kind =
     (let err = Inl (invalid_argument (''expected projects/{project}/'' @ kind @ ''/{id}'')) in
      case slash_parts value of
        [p, project, k, i] \<Rightarrow>
          (if p \<noteq> ''projects'' \<or> k \<noteq> kind \<or> project = [] \<or> \<not> valid_id i then err
           else Inr (project, i))
      | _ \<Rightarrow> err)"

definition parse_project :: "string \<Rightarrow> string res" where
  "parse_project value =
     (let err = Inl (invalid_argument ''expected projects/{project}'') in
      case slash_parts value of
        [p, project] \<Rightarrow> (if p \<noteq> ''projects'' \<or> project = [] then err else Inr project)
      | _ \<Rightarrow> err)"

subsection \<open>Topics and subscriptions\<close>

text \<open>Of an optional message that is only tested for presence, the presence is kept.\<close>

record topic =
  topic_name :: string
  message_storage_policy :: bool
  kms_key_name :: string
  schema_settings :: bool
  topic_retention :: bool
  ingestion_settings :: string

record subscription =
  sub_name :: string
  sub_topic :: string
  ack_deadline_seconds :: int
  push_config :: bool
  bigquery_config :: bool
  cloud_storage_config :: bool
  message_ordering :: bool
  retain_acked :: bool
  sub_retention :: bool
  expiration_policy :: bool
  sub_filter :: string
  dead_letter_policy :: bool
  retry_policy :: bool
  exactly_once :: bool
  topic_message_retention :: bool
  analytics_hub :: string

definition default_ack_deadline :: int where "default_ack_deadline = 10"

definition topic_supported :: "topic \<Rightarrow> unit res" where
  "topic_supported t =
     (if message_storage_policy t \<or> kms_key_name t \<noteq> [] \<or> schema_settings t \<or> topic_retention t
         \<or> ingestion_settings t \<noteq> []
      then Inl (unimplemented ''topic storage policies, KMS, schemas, ingestion, and configurable retention are unsupported'')
      else Inr ())"

definition normalize_subscription :: "subscription \<Rightarrow> subscription res" where
  "normalize_subscription s =
     (if push_config s
      then Inl (unimplemented ''push subscriptions are unsupported; use a pull subscription'')
      else if bigquery_config s \<or> cloud_storage_config s
      then Inl (unimplemented ''BigQuery and Cloud Storage subscriptions are unsupported'')
      else if message_ordering s \<or> retain_acked s \<or> sub_retention s \<or> expiration_policy s
              \<or> sub_filter s \<noteq> [] \<or> dead_letter_policy s \<or> retry_policy s \<or> exactly_once s
              \<or> topic_message_retention s \<or> analytics_hub s \<noteq> []
      then Inl (unimplemented ''ordering, filters, snapshots/retention, dead-letter/retry policies, and exactly-once delivery are unsupported'')
      else if ack_deadline_seconds s = 0
      then Inr (s\<lparr>ack_deadline_seconds := default_ack_deadline\<rparr>)
      else if 10 \<le> ack_deadline_seconds s \<and> ack_deadline_seconds s \<le> 600 then Inr s
      else Inl (invalid_argument ''ack_deadline_seconds must be zero or between 10 and 600''))"

lemma normalize_subscription_Inr:
  "normalize_subscription s = Inr s' \<Longrightarrow>
   sub_name s' = sub_name s \<and> sub_topic s' = sub_topic s \<and>
   10 \<le> ack_deadline_seconds s' \<and> ack_deadline_seconds s' \<le> 600"
  by (auto simp: normalize_subscription_def default_ack_deadline_def split: if_splits)

subsection \<open>Pages\<close>

definition max_page_size :: int where "max_page_size = 1000"

definition page_bounds :: "(string \<Rightarrow> string option) \<Rightarrow> int \<Rightarrow> string \<Rightarrow> (nat \<times> string option) res" where
  "page_bounds dec page_size token =
     (if page_size < 0 then Inl (invalid_argument ''page_size must not be negative'')
      else let size = nat (if page_size = 0 then 100 else min page_size max_page_size) in
        (if token = [] then Inr (size, None)
         else (case dec token of
                 None \<Rightarrow> Inl (invalid_argument ''invalid page_token'')
               | Some after \<Rightarrow> Inr (size, Some after))))"

definition paginate ::
  "(string \<Rightarrow> string) \<Rightarrow> (string \<Rightarrow> string option) \<Rightarrow> 'a list \<Rightarrow> int \<Rightarrow> string \<Rightarrow> ('a \<Rightarrow> string) \<Rightarrow>
   ('a list \<times> string) res" where
  "paginate enc dec xs page_size token name =
     (let sorted = sort_by (\<lambda>a b. cmp_lin (name a) (name b)) xs in
      rbind (page_bounds dec page_size token) (\<lambda>(size, after).
        let rest = (case after of None \<Rightarrow> sorted | Some a \<Rightarrow> filter (\<lambda>x. name x > a) sorted);
            page = take size rest
        in Inr (page, if length rest > size
                      then (case page of [] \<Rightarrow> [] | _ \<Rightarrow> enc (name (last page))) else [])))"

text \<open>Following the page tokens, with enough fuel, from a token on.\<close>

fun all_pages ::
  "nat \<Rightarrow> (string \<Rightarrow> string) \<Rightarrow> (string \<Rightarrow> string option) \<Rightarrow> 'a list \<Rightarrow> int \<Rightarrow> string \<Rightarrow> ('a \<Rightarrow> string) \<Rightarrow>
   'a list option" where
  "all_pages 0 enc dec xs page_size token name = None"
| "all_pages (Suc n) enc dec xs page_size token name =
     (case paginate enc dec xs page_size token name of
        Inl _ \<Rightarrow> None
      | Inr (page, next) \<Rightarrow>
          (if next = [] then Some page
           else map_option (\<lambda>rest. page @ rest) (all_pages n enc dec xs page_size next name)))"

lemma sorted_wrt_le_last:
  "sorted_wrt (\<lambda>x y. (f x :: string) < f y) zs \<Longrightarrow> x \<in> set zs \<Longrightarrow> f x \<le> f (last zs)"
  by (induction zs rule: rev_induct) (auto simp: sorted_wrt_append)

lemma filter_greater_sorted:
  assumes "sorted_wrt (\<lambda>x y. (f x :: string) < f y) ys" "0 < n" "n < length ys"
  shows "filter (\<lambda>x. f x > f (last (take n ys))) ys = drop n ys"
proof -
  have split: "ys = take n ys @ drop n ys" by simp
  have ne: "take n ys \<noteq> []" using assms(2,3) by auto
  have cross: "f x < f y" if "x \<in> set (take n ys)" "y \<in> set (drop n ys)" for x y
  proof -
    have "sorted_wrt (\<lambda>x y. f x < f y) (take n ys @ drop n ys)" using assms(1) by simp
    then show ?thesis using that unfolding sorted_wrt_append by blast
  qed
  have sw: "sorted_wrt (\<lambda>x y. f x < f y) (take n ys)" using assms(1) by (rule sorted_wrt_take)
  have le: "\<not> f x > f (last (take n ys))" if "x \<in> set (take n ys)" for x
    using sorted_wrt_le_last[OF sw that] by simp
  have "filter (\<lambda>x. f x > f (last (take n ys))) (take n ys) = []" using le by (auto simp: filter_empty_conv)
  moreover have "filter (\<lambda>x. f x > f (last (take n ys))) (drop n ys) = drop n ys"
    using cross ne by (auto simp: filter_id_conv)
  ultimately have "filter (\<lambda>x. f x > f (last (take n ys))) (take n ys @ drop n ys) = drop n ys"
    unfolding filter_append by simp
  then show ?thesis by simp
qed

interpretation by_key: comparator_on UNIV "\<lambda>a b. cmp_lin (key a) (key b)" for key :: "'a \<Rightarrow> 'b::linorder"
  by unfold_locales (auto simp: cmp_lin_def split: if_splits)

lemma sort_by_key_strict:
  assumes "distinct (map key xs)"
  shows "sorted_wrt (\<lambda>x y. key x < key y) (sort_by (\<lambda>a b. cmp_lin (key a) (key b)) xs)"
proof -
  let ?ys = "sort_by (\<lambda>a b. cmp_lin (key a) (key b)) xs"
  have "mset (map key ?ys) = mset (map key xs)" by simp
  then have "distinct (map key ?ys)" using assms mset_eq_imp_distinct_iff by blast
  then have "sorted_wrt (\<lambda>x y. key x \<noteq> key y) ?ys"
    by (simp add: distinct_conv_nth sorted_wrt_iff_nth_less)
  moreover have "sorted_wrt (\<lambda>x y. cmp_lin (key x) (key y) \<noteq> Greater) ?ys"
    using by_key.sorted_sort_by[of xs key] by (simp add: sorted_by_def)
  ultimately show ?thesis
    unfolding sorted_wrt_iff_nth_less cmp_lin_iff(3)[symmetric] by (meson cmp_lin_iff(3) linorder_neqE)
qed

text \<open>What is still to be listed when a token comes back.\<close>

definition page_rest :: "(string \<Rightarrow> string option) \<Rightarrow> 'a list \<Rightarrow> string \<Rightarrow> ('a \<Rightarrow> string) \<Rightarrow> 'a list" where
  "page_rest dec xs token name =
     (let sorted = sort_by (\<lambda>a b. cmp_lin (name a) (name b)) xs in
      if token = [] then sorted
      else case dec token of None \<Rightarrow> [] | Some a \<Rightarrow> filter (\<lambda>x. name x > a) sorted)"

lemma paginate_page:
  assumes "page_size \<ge> 0" "token \<noteq> [] \<longrightarrow> dec token \<noteq> None"
  obtains size where "0 < size" "int size \<le> max_page_size"
    "paginate enc dec xs page_size token name =
       Inr (take size (page_rest dec xs token name),
            if length (page_rest dec xs token name) > size
            then enc (name (last (take size (page_rest dec xs token name)))) else [])"
proof -
  let ?size = "nat (if page_size = 0 then 100 else min page_size max_page_size)"
  have pos: "0 < ?size" "int ?size \<le> max_page_size" using assms(1) by (auto simp: max_page_size_def)
  have page: "(if length ys > ?size then (case take ?size ys of [] \<Rightarrow> [] | _ \<Rightarrow> enc (name (last (take ?size ys)))) else []) =
      (if length ys > ?size then enc (name (last (take ?size ys))) else [])" for ys :: "'a list"
    using pos by (cases "take ?size ys") auto
  have bounds: "page_bounds dec page_size token = Inr (?size, if token = [] then None else dec token)"
    using assms by (auto simp: page_bounds_def Let_def)
  have rest: "(case if token = [] then None else dec token of
        None \<Rightarrow> sort_by (\<lambda>a b. cmp_lin (name a) (name b)) xs
      | Some a \<Rightarrow> filter (\<lambda>x. name x > a) (sort_by (\<lambda>a b. cmp_lin (name a) (name b)) xs)) =
      page_rest dec xs token name"
    using assms(2) by (auto simp: page_rest_def Let_def)
  have "paginate enc dec xs page_size token name =
       Inr (take ?size (page_rest dec xs token name),
            if length (page_rest dec xs token name) > ?size
            then enc (name (last (take ?size (page_rest dec xs token name)))) else [])"
    unfolding paginate_def bounds rbind_simps Let_def prod.case rest page ..
  then show ?thesis using that[of ?size] pos by blast
qed

lemma all_pages_rest:
  assumes "page_size \<ge> 0" "distinct (map name xs)"
    and "\<And>x. x \<in> set xs \<Longrightarrow> dec (enc (name x)) = Some (name x) \<and> enc (name x) \<noteq> []"
  shows "(token \<noteq> [] \<longrightarrow> dec token \<noteq> None) \<Longrightarrow> length (page_rest dec xs token name) < n \<Longrightarrow>
         all_pages n enc dec xs page_size token name = Some (page_rest dec xs token name)"
proof (induction n arbitrary: token)
  case (Suc n)
  let ?rest = "page_rest dec xs token name"
  let ?sorted = "sort_by (\<lambda>a b. cmp_lin (name a) (name b)) xs"
  obtain size where size: "0 < size"
    "paginate enc dec xs page_size token name =
       Inr (take size ?rest, if length ?rest > size then enc (name (last (take size ?rest))) else [])"
    by (rule paginate_page[where enc = enc and dec = dec and xs = xs and name = name and token = token,
          OF assms(1) Suc.prems(1)])
  show ?case
  proof (cases "length ?rest > size")
    case False
    then show ?thesis using size by simp
  next
    case True
    let ?l = "last (take size ?rest)"
    have "?l \<in> set (take size ?rest)" using True size(1) by (intro last_in_set) auto
    then have "?l \<in> set ?rest" by (rule in_set_takeD)
    then have "?l \<in> set xs" by (auto simp: page_rest_def Let_def split: if_splits option.splits)
    note codec = assms(3)[OF this]
    have strict: "sorted_wrt (\<lambda>x y. name x < name y) ?sorted" by (rule sort_by_key_strict[OF assms(2)])
    then have "sorted_wrt (\<lambda>x y. name x < name y) ?rest"
      by (auto simp: page_rest_def Let_def sorted_wrt_filter split: option.splits)
    then have drop: "filter (\<lambda>x. name x > name ?l) ?rest = drop size ?rest"
      using filter_greater_sorted size(1) True by blast
    have next_rest: "page_rest dec xs (enc (name ?l)) name = drop size ?rest"
    proof -
      have "page_rest dec xs (enc (name ?l)) name = filter (\<lambda>x. name x > name ?l) ?sorted"
        using codec by (simp add: page_rest_def)
      also have "\<dots> = filter (\<lambda>x. name x > name ?l) ?rest"
      proof (cases "token = []")
        case True then show ?thesis by (simp add: page_rest_def)
      next
        case False
        then obtain a where a: "dec token = Some a" using Suc.prems(1) by auto
        have "name ?l > a" using \<open>?l \<in> set ?rest\<close> False a by (auto simp: page_rest_def Let_def)
        then show ?thesis using False a
          by (auto simp: page_rest_def Let_def intro!: filter_cong)
      qed
      finally show ?thesis using drop by simp
    qed
    have "all_pages n enc dec xs page_size (enc (name ?l)) name = Some (drop size ?rest)"
      using Suc.IH[of "enc (name ?l)"] codec next_rest Suc.prems(2) size(1) True by simp
    then show ?thesis using size True codec by simp
  qed
qed simp

text \<open>
  Following the page tokens of a listing, whatever page size the client asks for,
  returns every value exactly once and in the order of the names, in at most one request more than
  there are values, provided a token decodes to the name it was made from.
\<close>

theorem page_tokens_list_everything:
  assumes "page_size \<ge> 0" "distinct (map name xs)"
    and "\<And>x. x \<in> set xs \<Longrightarrow> dec (enc (name x)) = Some (name x) \<and> enc (name x) \<noteq> []"
  shows "\<exists>ys. all_pages (Suc (length xs)) enc dec xs page_size [] name = Some ys \<and>
           mset ys = mset xs \<and> sorted_wrt (\<lambda>x y. name x < name y) ys"
  using all_pages_rest[where token = "[]" and n = "Suc (length xs)" and dec = dec and enc = enc, OF assms]
    sort_by_key_strict[OF assms(2)]
  by (simp add: page_rest_def)

text \<open>A codec for the witness: a token is the name after a mark.\<close>

definition mark_enc :: "string \<Rightarrow> string" where "mark_enc s = CHR ''t'' # s"

definition mark_dec :: "string \<Rightarrow> string option" where "mark_dec s = strip_prefix ''t'' s"

theorem page_tokens_list_everything_witness:
  "\<exists>ys. all_pages 4 mark_enc mark_dec [''topics/b'', ''topics/c'', ''topics/a''] 2 [] (\<lambda>x. x) = Some ys \<and>
     mset ys = mset [''topics/b'', ''topics/c'', ''topics/a''] \<and> sorted_wrt (\<lambda>x y. x < y) ys"
  using page_tokens_list_everything[of 2 "\<lambda>x. x" "[''topics/b'', ''topics/c'', ''topics/a'']" mark_dec mark_enc]
  by (simp add: mark_enc_def mark_dec_def eval_nat_numeral)

end
