(* ===== verification/PubSub_Memory.thy ===== *)
theory PubSub_Memory
  imports PubSub_Resources Float64
begin

text \<open>
  The in-memory broker of \<open>src/src/pubsub.rs\<close>: seven ordered maps under one lock, of which every
  handler is a function from the state to its result and the new state.  The encoded length of
  a message (\<open>prost\<close>) is the parameter \<open>len\<close>; the random identifiers of a call (\<open>uuid\<close>) are
  the parameter \<open>fresh\<close>, the \<open>i\<close>-th identifier the call draws; the clock is the parameter \<open>now\<close>,
  in milliseconds.
\<close>

subsection \<open>State\<close>

definition max_message_bytes :: nat where "max_message_bytes = 10 * 1024 * 1024"
definition max_publish_bytes :: nat where "max_publish_bytes = 10 * 1024 * 1024"
definition max_delivery_message_bytes :: nat where "max_delivery_message_bytes = max_message_bytes + 1024"
definition max_pending_deliveries :: int where "max_pending_deliveries = 10000"
definition max_pending_bytes :: int where "max_pending_bytes = 64 * 1024 * 1024"
definition retention_seconds :: int where "retention_seconds = 24 * 60 * 60"

datatype delivery_state = Available | InFlight

record delivery =
  delivery_sub :: string
  delivery_state :: delivery_state
  ack_id :: "string option"
  deadline_ms :: "int option"
  delivery_attempts :: int

record pubsub_message =
  msg_data :: string
  msg_attributes :: "(string, string) smap"
  message_id :: string
  publish_time :: "(int \<times> int) option"
  ordering_key :: string

record memory_state =
  topics :: "(string, topic) smap"
  subscriptions :: "(string, subscription) smap"
  messages :: "(string, pubsub_message) smap"
  message_topics :: "(string, string) smap"
  message_sizes :: "(string, int) smap"
  message_expiry :: "(string, int) smap"
  deliveries :: "(string \<times> string, delivery) smap"

definition empty_memory :: memory_state where
  "empty_memory = \<lparr>topics = [], subscriptions = [], messages = [], message_topics = [],
     message_sizes = [], message_expiry = [], deliveries = []\<rparr>"

record broker_message =
  broker_ack_id :: string
  broker_message :: pubsub_message
  size_bytes :: int

text \<open>\<open>i64::saturating_add\<close> and \<open>usize::saturating_add\<close> on numbers in range.\<close>

definition sat_add :: "int \<Rightarrow> int \<Rightarrow> int" where
  "sat_add a b = max i64_min (min i64_max (a + b))"

definition sat_add_usize :: "nat \<Rightarrow> nat \<Rightarrow> nat" where
  "sat_add_usize a b = min (a + b) (2 ^ 64 - 1)"

subsection \<open>Topics\<close>

definition create_topic_value :: "topic \<Rightarrow> memory_state \<Rightarrow> topic res \<times> memory_state" where
  "create_topic_value t s =
     (case rbind (parse_resource (topic_name t) ''topics'') (\<lambda>_. topic_supported t) of
        Inl e \<Rightarrow> (Inl e, s)
      | Inr _ \<Rightarrow>
          (if sm_has (topics s) (topic_name t)
           then (Inl (already_exists ''topic already exists''), s)
           else (Inr t, s\<lparr>topics := sm_put (topic_name t) t (topics s)\<rparr>)))"

definition get_topic_value :: "string \<Rightarrow> memory_state \<Rightarrow> topic res" where
  "get_topic_value name s =
     rbind (parse_resource name ''topics'') (\<lambda>_.
       of_option (not_found ''topic not found'') (sm_get (topics s) name))"

text \<open>\<open>range(prefix..).take_while(starts_with(prefix))\<close> on an ordered map.\<close>

definition prefix_range :: "string \<Rightarrow> (string, 'v) smap \<Rightarrow> 'v list" where
  "prefix_range p m = map snd (takeWhile (\<lambda>(k, _). starts_with p k) (dropWhile (\<lambda>(k, _). k < p) m))"

definition list_topic_values :: "string \<Rightarrow> memory_state \<Rightarrow> topic list res" where
  "list_topic_values project s =
     rbind (parse_project project) (\<lambda>_. Inr (prefix_range (project @ ''/topics/'') (topics s)))"

definition deleted_topic :: string where "deleted_topic = ''_deleted-topic_''"

definition delete_topic_value :: "string \<Rightarrow> memory_state \<Rightarrow> unit res \<times> memory_state" where
  "delete_topic_value name s =
     (case parse_resource name ''topics'' of
        Inl e \<Rightarrow> (Inl e, s)
      | Inr _ \<Rightarrow>
          (if \<not> sm_has (topics s) name then (Inl (not_found ''topic not found''), s)
           else (Inr (), s\<lparr>topics := sm_del name (topics s),
                  subscriptions := sm_update (\<lambda>_ sub. if sub_topic sub = name
                     then sub\<lparr>sub_topic := deleted_topic\<rparr> else sub) (subscriptions s)\<rparr>)))"

subsection \<open>Garbage\<close>

definition memory_usage :: "memory_state \<Rightarrow> int \<times> int" where
  "memory_usage s =
     (int (length (deliveries s)),
      sum_list (map (\<lambda>((_, i), _). case sm_get (message_sizes s) i of None \<Rightarrow> 0 | Some n \<Rightarrow> n)
                    (deliveries s)))"

definition drop_message :: "string \<Rightarrow> memory_state \<Rightarrow> memory_state" where
  "drop_message i s =
     s\<lparr>messages := sm_del i (messages s),
       message_topics := sm_del i (message_topics s),
       message_sizes := sm_del i (message_sizes s),
       message_expiry := sm_del i (message_expiry s),
       deliveries := sm_retain (\<lambda>(_, message) _. message \<noteq> i) (deliveries s)\<rparr>"

definition cleanup_memory :: "int \<Rightarrow> memory_state \<Rightarrow> memory_state" where
  "cleanup_memory now s =
     (let expired = map fst (filter (\<lambda>(_, expiry). expiry \<le> now) (message_expiry s))
      in fold drop_message expired s)"

definition memory_gc :: "memory_state \<Rightarrow> memory_state" where
  "memory_gc s =
     (let live = (\<lambda>i. i \<in> set (map (snd \<circ> fst) (deliveries s))) in
      s\<lparr>messages := sm_retain (\<lambda>i _. live i) (messages s),
        message_topics := sm_retain (\<lambda>i _. live i) (message_topics s),
        message_sizes := sm_retain (\<lambda>i _. live i) (message_sizes s),
        message_expiry := sm_retain (\<lambda>i _. live i) (message_expiry s)\<rparr>)"

subsection \<open>Subscriptions\<close>

definition create_subscription_value ::
  "subscription \<Rightarrow> memory_state \<Rightarrow> subscription res \<times> memory_state" where
  "create_subscription_value request s =
     (case rbind (normalize_subscription request) (\<lambda>sub.
             rbind (parse_resource (sub_name sub) ''subscriptions'') (\<lambda>(sub_project, _).
             rbind (parse_resource (sub_topic sub) ''topics'') (\<lambda>(topic_project, _).
             rbind (guard (sub_project = topic_project)
                      (invalid_argument ''cross-project subscriptions are outside local emulator scope'')) (\<lambda>_.
             Inr sub)))) of
        Inl e \<Rightarrow> (Inl e, s)
      | Inr sub \<Rightarrow>
          (if \<not> sm_has (topics s) (sub_topic sub) then (Inl (not_found ''topic not found''), s)
           else if sm_has (subscriptions s) (sub_name sub)
           then (Inl (already_exists ''subscription already exists''), s)
           else (Inr sub, s\<lparr>subscriptions := sm_put (sub_name sub) sub (subscriptions s)\<rparr>)))"

definition get_subscription_value :: "string \<Rightarrow> memory_state \<Rightarrow> subscription res" where
  "get_subscription_value name s =
     rbind (parse_resource name ''subscriptions'') (\<lambda>_.
       of_option (not_found ''subscription not found'') (sm_get (subscriptions s) name))"

definition list_subscription_values :: "string \<Rightarrow> memory_state \<Rightarrow> subscription list res" where
  "list_subscription_values project s =
     rbind (parse_project project) (\<lambda>_.
       Inr (prefix_range (project @ ''/subscriptions/'') (subscriptions s)))"

definition subscription_names :: "string \<Rightarrow> memory_state \<Rightarrow> string list" where
  "subscription_names topic s =
     map sub_name (filter (\<lambda>sub. sub_topic sub = topic) (sm_values (subscriptions s)))"

definition topic_subscription_names :: "string \<Rightarrow> memory_state \<Rightarrow> string list res" where
  "topic_subscription_names topic s =
     rbind (get_topic_value topic s) (\<lambda>_. Inr (subscription_names topic s))"

definition delete_subscription_value :: "string \<Rightarrow> memory_state \<Rightarrow> unit res \<times> memory_state" where
  "delete_subscription_value name s =
     (case parse_resource name ''subscriptions'' of
        Inl e \<Rightarrow> (Inl e, s)
      | Inr _ \<Rightarrow>
          (if \<not> sm_has (subscriptions s) name
           then (Inl (not_found ''subscription not found''), s)
           else (Inr (), memory_gc (s\<lparr>subscriptions := sm_del name (subscriptions s),
                  deliveries := sm_retain (\<lambda>(sub, _) _. sub \<noteq> name) (deliveries s)\<rparr>))))"

subsection \<open>Publishing\<close>

fun check_messages :: "(pubsub_message \<Rightarrow> nat) \<Rightarrow> nat \<Rightarrow> pubsub_message list \<Rightarrow> nat res" where
  "check_messages len request_bytes [] = Inr request_bytes"
| "check_messages len request_bytes (m # ms) =
     (if msg_data m = [] \<and> msg_attributes m = []
      then Inl (invalid_argument ''each message needs data or attributes'')
      else if message_id m \<noteq> [] \<or> publish_time m \<noteq> None
      then Inl (invalid_argument ''message_id and publish_time are server assigned'')
      else if ordering_key m \<noteq> [] then Inl (unimplemented ''ordering keys are unsupported'')
      else if len m > max_message_bytes then Inl (resource_exhausted ''message exceeds 10 MiB'')
      else check_messages len (sat_add_usize request_bytes (len m)) ms)"

fun assign_ids ::
  "(pubsub_message \<Rightarrow> nat) \<Rightarrow> (nat \<Rightarrow> string) \<Rightarrow> int \<times> int \<Rightarrow> nat \<Rightarrow> pubsub_message list \<Rightarrow> pubsub_message list res" where
  "assign_ids len fresh published i [] = Inr []"
| "assign_ids len fresh published i (m # ms) =
     (let m' = m\<lparr>message_id := fresh i, publish_time := Some published\<rparr> in
      if len m' > max_delivery_message_bytes
      then Inl (resource_exhausted ''message exceeds delivery response budget'')
      else rbind (assign_ids len fresh published (Suc i) ms) (\<lambda>ms'. Inr (m' # ms')))"

definition new_delivery :: "string \<Rightarrow> delivery" where
  "new_delivery sub = \<lparr>delivery_sub = sub, delivery_state = Available, ack_id = None,
     deadline_ms = None, delivery_attempts = 0\<rparr>"

definition store_message ::
  "(pubsub_message \<Rightarrow> nat) \<Rightarrow> string \<Rightarrow> int \<Rightarrow> string list \<Rightarrow> pubsub_message \<Rightarrow> memory_state \<Rightarrow> memory_state" where
  "store_message len topic expiry subs m s =
     (let i = message_id m in
      s\<lparr>message_topics := sm_put i topic (message_topics s),
        message_sizes := sm_put i (int (len m)) (message_sizes s),
        message_expiry := sm_put i expiry (message_expiry s),
        messages := sm_put i m (messages s),
        deliveries := fold (\<lambda>sub. sm_put (sub, i) (new_delivery sub)) subs (deliveries s)\<rparr>)"

definition publish_memory ::
  "(pubsub_message \<Rightarrow> nat) \<Rightarrow> int \<Rightarrow> string \<Rightarrow> pubsub_message list \<Rightarrow> memory_state \<Rightarrow>
   string list res \<times> memory_state" where
  "publish_memory len now topic ms s0 =
     (let expiry = sat_add now (retention_seconds * 1000);
          s = cleanup_memory now s0;
          ids = map message_id ms in
      if \<not> sm_has (topics s) topic then (Inl (not_found ''topic not found''), s)
      else let subs = subscription_names topic s in
        if subs = [] then (Inr ids, s)
        else let added_count = int (length subs * length ms);
                 added_bytes = sum_list (map (\<lambda>m. int (len m)) ms) * int (length subs);
                 (count, bytes) = memory_usage s in
          if sat_add count added_count > max_pending_deliveries
             \<or> sat_add bytes added_bytes > max_pending_bytes
          then (Inl (resource_exhausted ''Pub/Sub backlog capacity exceeded''), s)
          else (Inr ids, fold (store_message len topic expiry subs) ms s))"

definition prepare_publish ::
  "(pubsub_message \<Rightarrow> nat) \<Rightarrow> (nat \<Rightarrow> string) \<Rightarrow> int \<times> int \<Rightarrow> string \<Rightarrow> pubsub_message list \<Rightarrow>
   pubsub_message list res" where
  "prepare_publish len fresh published topic ms =
     rbind (parse_resource topic ''topics'') (\<lambda>_.
     rbind (guard (ms \<noteq> []) (invalid_argument ''messages must not be empty'')) (\<lambda>_.
     rbind (check_messages len 0 ms) (\<lambda>request_bytes.
     rbind (guard (request_bytes \<le> max_publish_bytes)
              (resource_exhausted ''publish request exceeds 10 MiB'')) (\<lambda>_.
     assign_ids len fresh published 0 ms))))"

definition publish_values ::
  "(pubsub_message \<Rightarrow> nat) \<Rightarrow> (nat \<Rightarrow> string) \<Rightarrow> int \<times> int \<Rightarrow> int \<Rightarrow> string \<Rightarrow> pubsub_message list \<Rightarrow>
   memory_state \<Rightarrow> string list res \<times> memory_state" where
  "publish_values len fresh published now topic ms s =
     (case prepare_publish len fresh published topic ms of
        Inl e \<Rightarrow> (Inl e, s)
      | Inr ms' \<Rightarrow> publish_memory len now topic ms' s)"

subsection \<open>Leases\<close>

definition free_delivery :: "delivery \<Rightarrow> delivery" where
  "free_delivery d = d\<lparr>delivery_state := Available, ack_id := None, deadline_ms := None\<rparr>"

definition expire_leases :: "string \<Rightarrow> int \<Rightarrow> memory_state \<Rightarrow> memory_state" where
  "expire_leases sub now s =
     s\<lparr>deliveries := sm_update (\<lambda>_ d.
         if delivery_sub d = sub \<and> delivery_state d = InFlight \<and>
            (case deadline_ms d of None \<Rightarrow> False | Some v \<Rightarrow> v \<le> now)
         then free_delivery d else d) (deliveries s)\<rparr>"

definition available_keys :: "string \<Rightarrow> memory_state \<Rightarrow> (string \<times> string) list" where
  "available_keys subscription s =
     map fst (filter (\<lambda>((sub, _), d). sub = subscription \<and> delivery_state d = Available) (deliveries s))"

definition stored_size :: "memory_state \<Rightarrow> string \<times> string \<Rightarrow> int" where
  "stored_size s k = (case sm_get (message_sizes s) (snd k) of None \<Rightarrow> 0 | Some n \<Rightarrow> n)"

definition lease :: "string \<times> string \<Rightarrow> string \<Rightarrow> int \<Rightarrow> memory_state \<Rightarrow> memory_state" where
  "lease key ack deadline s =
     s\<lparr>deliveries := sm_update (\<lambda>k d. if k = key
         then d\<lparr>delivery_state := InFlight, ack_id := Some ack, deadline_ms := Some deadline,
                delivery_attempts := delivery_attempts d + 1\<rparr>
         else d) (deliveries s)\<rparr>"

text \<open>The loop over the available keys; \<open>result\<close> holds what is already claimed.\<close>

fun claim_loop ::
  "(nat \<Rightarrow> string) \<Rightarrow> nat \<Rightarrow> int \<Rightarrow> int \<Rightarrow> bool \<Rightarrow> (string \<times> string) list \<Rightarrow> broker_message list \<Rightarrow> int \<Rightarrow>
   memory_state \<Rightarrow> broker_message list res \<times> memory_state" where
  "claim_loop fresh max_count max_bytes deadline fitting [] result used s = (Inr result, s)"
| "claim_loop fresh max_count max_bytes deadline fitting (key # keys) result used s =
     (if length result \<ge> max_count then (Inr result, s)
      else let size = stored_size s key in
        if size > int max_delivery_message_bytes
        then (Inl (internal (''Pub/Sub message '' @ snd key @ '' exceeds delivery response budget'')), s)
        else if sat_add used size > max_bytes \<and> (result \<noteq> [] \<or> fitting)
        then claim_loop fresh max_count max_bytes deadline fitting keys result used s
        else (case sm_get (messages s) (snd key) of
                None \<Rightarrow> (Inl (internal ''orphan Pub/Sub delivery''), s)
              | Some m \<Rightarrow>
                  let ack = fresh (length result) in
                  claim_loop fresh max_count max_bytes deadline fitting keys
                    (result @ [\<lparr>broker_ack_id = ack, broker_message = m, size_bytes = size\<rparr>])
                    (used + size) (lease key ack deadline s)))"

definition claim ::
  "(nat \<Rightarrow> string) \<Rightarrow> int \<Rightarrow> string \<Rightarrow> nat \<Rightarrow> int \<Rightarrow> int option \<Rightarrow> memory_state \<Rightarrow>
   broker_message list res \<times> memory_state" where
  "claim fresh now subscription max_count max_bytes deadline_override s0 =
     (case get_subscription_value subscription s0 of
        Inl e \<Rightarrow> (Inl e, s0)
      | Inr sub \<Rightarrow>
          let configured = ack_deadline_seconds sub;
              seconds = max 10 (min 600 (case deadline_override of None \<Rightarrow> configured | Some d \<Rightarrow> d));
              deadline = sat_add now (seconds * 1000);
              s = expire_leases subscription now (cleanup_memory now s0);
              keys = available_keys subscription s;
              fitting = list_ex (\<lambda>key. stored_size s key \<le> max_bytes) keys
          in claim_loop fresh max_count max_bytes deadline fitting keys [] 0 s)"

definition pull_one :: "(nat \<Rightarrow> string) \<Rightarrow> int \<Rightarrow> string \<Rightarrow> memory_state \<Rightarrow> broker_message option res \<times> memory_state" where
  "pull_one fresh now subscription s =
     (case claim fresh now subscription 1 (int max_delivery_message_bytes) None s of
        (Inl e, s') \<Rightarrow> (Inl e, s')
      | (Inr values, s') \<Rightarrow> (Inr (if values = [] then None else Some (last values)), s'))"

definition holds_ack :: "string list \<Rightarrow> delivery \<Rightarrow> bool" where
  "holds_ack acks d = (case ack_id d of None \<Rightarrow> False | Some a \<Rightarrow> a \<in> set acks)"

definition acknowledge_ids :: "string \<Rightarrow> string list \<Rightarrow> memory_state \<Rightarrow> unit res \<times> memory_state" where
  "acknowledge_ids subscription acks s =
     (case rbind (get_subscription_value subscription s) (\<lambda>_.
             guard (acks \<noteq> []) (invalid_argument ''ack_ids must not be empty'')) of
        Inl e \<Rightarrow> (Inl e, s)
      | Inr _ \<Rightarrow>
          (Inr (), memory_gc (s\<lparr>deliveries := sm_retain (\<lambda>_ d.
             delivery_sub d \<noteq> subscription \<or> \<not> holds_ack acks d) (deliveries s)\<rparr>)))"

definition modify_ack_ids ::
  "int \<Rightarrow> string \<Rightarrow> string list \<Rightarrow> int \<Rightarrow> memory_state \<Rightarrow> unit res \<times> memory_state" where
  "modify_ack_ids now subscription acks seconds s =
     (case rbind (get_subscription_value subscription s) (\<lambda>_.
           rbind (guard (acks \<noteq> []) (invalid_argument ''ack_ids must not be empty'')) (\<lambda>_.
             guard (0 \<le> seconds \<and> seconds \<le> 600)
               (invalid_argument ''ack deadline must be between 0 and 600''))) of
        Inl e \<Rightarrow> (Inl e, s)
      | Inr _ \<Rightarrow>
          let deadline = sat_add now (seconds * 1000) in
          (Inr (), s\<lparr>deliveries := sm_update (\<lambda>_ d.
             if delivery_sub d = subscription \<and> holds_ack acks d
             then (if seconds = 0 then free_delivery d else d\<lparr>deadline_ms := Some deadline\<rparr>)
             else d) (deliveries s)\<rparr>))"

definition active_ack_ids :: "int \<Rightarrow> string \<Rightarrow> string list \<Rightarrow> memory_state \<Rightarrow> string list res" where
  "active_ack_ids now subscription acks s =
     rbind (get_subscription_value subscription s) (\<lambda>_.
       if acks = [] then Inr []
       else Inr (filter (\<lambda>a. a \<in> set acks)
         (List.map_filter ack_id
           (filter (\<lambda>d. delivery_sub d = subscription \<and> delivery_state d = InFlight \<and>
                     (case deadline_ms d of None \<Rightarrow> False | Some v \<Rightarrow> v > now))
             (sm_values (deliveries s))))))"

definition pending_count :: "string list \<Rightarrow> memory_state \<Rightarrow> int" where
  "pending_count subs s =
     (if subs = [] then 0
      else int (length (filter (\<lambda>d. delivery_sub d \<in> set subs) (sm_values (deliveries s)))))"

definition release_ids :: "int \<Rightarrow> string \<Rightarrow> string list \<Rightarrow> memory_state \<Rightarrow> memory_state" where
  "release_ids now subscription acks s =
     (if acks = [] then s else snd (modify_ack_ids now subscription acks 0 s))"

subsection \<open>Triggers\<close>

definition default_topic :: "string \<Rightarrow> topic" where
  "default_topic name = \<lparr>topic_name = name, message_storage_policy = False, kms_key_name = [],
     schema_settings = False, topic_retention = False, ingestion_settings = []\<rparr>"

definition default_subscription :: "string \<Rightarrow> string \<Rightarrow> subscription" where
  "default_subscription name topic = \<lparr>sub_name = name, sub_topic = topic,
     ack_deadline_seconds = default_ack_deadline, push_config = False, bigquery_config = False,
     cloud_storage_config = False, message_ordering = False, retain_acked = False,
     sub_retention = False, expiration_policy = False, sub_filter = [], dead_letter_policy = False,
     retry_policy = False, exactly_once = False, topic_message_retention = False, analytics_hub = []\<rparr>"

definition ensure_trigger_subscription ::
  "string \<Rightarrow> string \<Rightarrow> string \<Rightarrow> memory_state \<Rightarrow> string res \<times> memory_state" where
  "ensure_trigger_subscription project topic_id subscription_id s =
     (let topic = ''projects/'' @ project @ ''/topics/'' @ topic_id;
          subscription = ''projects/'' @ project @ ''/subscriptions/'' @ subscription_id;
          (made, s1) = (case get_topic_value topic s of
              Inr _ \<Rightarrow> (Inr (), s)
            | Inl e \<Rightarrow> (if code e = NotFound
                then (case create_topic_value (default_topic topic) s of
                        (Inl e', s') \<Rightarrow> (Inl e', s') | (Inr _, s') \<Rightarrow> (Inr (), s'))
                else (Inl e, s)))
      in case made of
           Inl e \<Rightarrow> (Inl e, s1)
         | Inr _ \<Rightarrow>
             (case get_subscription_value subscription s1 of
                Inr existing \<Rightarrow>
                  (if sub_topic existing = topic then (Inr subscription, s1)
                   else (Inl (failed_precondition ''trigger subscription exists for a different topic''), s1))
              | Inl e \<Rightarrow> (if code e = NotFound
                  then (case create_subscription_value (default_subscription subscription topic) s1 of
                          (Inl e', s') \<Rightarrow> (Inl e', s') | (Inr _, s') \<Rightarrow> (Inr subscription, s'))
                  else (Inl e, s1))))"

end
