(* ===== verification/PubSub_Broker.thy ===== *)
theory PubSub_Broker
  imports PubSub_Memory
begin

text \<open>
  What the in-memory broker keeps true.  The invariant \<open>broker_ok\<close> ties the seven maps together:
  the four maps of a message have the same keys, every delivery belongs to a subscription and a
  message that exist, a lease has its token and its deadline, no two deliveries share a token, and
  the backlog stays under its limits.  Every operation keeps it; the operations are then the
  steps of a transition system that also records the identifiers drawn so far, which \<open>uuid\<close>
  never repeats.
\<close>

subsection \<open>The invariant\<close>

definition broker_maps :: "memory_state \<Rightarrow> bool" where
  "broker_maps s = (sm_wf (topics s) \<and> sm_wf (subscriptions s) \<and> sm_wf (messages s) \<and>
     sm_wf (message_topics s) \<and> sm_wf (message_sizes s) \<and> sm_wf (message_expiry s) \<and>
     sm_wf (deliveries s))"

definition broker_names :: "memory_state \<Rightarrow> bool" where
  "broker_names s =
     ((\<forall>k t. sm_get (topics s) k = Some t \<longrightarrow> topic_name t = k) \<and>
      (\<forall>k sub. sm_get (subscriptions s) k = Some sub \<longrightarrow>
         sub_name sub = k \<and> 10 \<le> ack_deadline_seconds sub \<and> ack_deadline_seconds sub \<le> 600))"

definition broker_stored :: "(pubsub_message \<Rightarrow> nat) \<Rightarrow> memory_state \<Rightarrow> bool" where
  "broker_stored len s =
     ((\<forall>i. sm_has (message_topics s) i = sm_has (messages s) i \<and>
           sm_has (message_sizes s) i = sm_has (messages s) i \<and>
           sm_has (message_expiry s) i = sm_has (messages s) i) \<and>
      (\<forall>i m. sm_get (messages s) i = Some m \<longrightarrow>
         message_id m = i \<and> sm_get (message_sizes s) i = Some (int (len m)) \<and>
         len m \<le> max_delivery_message_bytes))"

definition lease_ok :: "delivery \<Rightarrow> bool" where
  "lease_ok d = (case delivery_state d of
     Available \<Rightarrow> ack_id d = None \<and> deadline_ms d = None
   | InFlight \<Rightarrow> ack_id d \<noteq> None \<and> deadline_ms d \<noteq> None)"

definition broker_deliveries :: "memory_state \<Rightarrow> bool" where
  "broker_deliveries s =
     ((\<forall>sub i d. sm_get (deliveries s) (sub, i) = Some d \<longrightarrow>
         delivery_sub d = sub \<and> sm_has (subscriptions s) sub \<and> sm_has (messages s) i \<and> lease_ok d) \<and>
      (\<forall>i. sm_has (messages s) i \<longrightarrow> (\<exists>sub. sm_has (deliveries s) (sub, i))))"

definition broker_acks :: "memory_state \<Rightarrow> bool" where
  "broker_acks s =
     (\<forall>k k' d d' a. sm_get (deliveries s) k = Some d \<longrightarrow> sm_get (deliveries s) k' = Some d' \<longrightarrow>
        ack_id d = Some a \<longrightarrow> ack_id d' = Some a \<longrightarrow> k = k')"

definition broker_limits :: "memory_state \<Rightarrow> bool" where
  "broker_limits s = (fst (memory_usage s) \<le> max_pending_deliveries \<and>
     snd (memory_usage s) \<le> max_pending_bytes)"

definition broker_ok :: "(pubsub_message \<Rightarrow> nat) \<Rightarrow> memory_state \<Rightarrow> bool" where
  "broker_ok len s = (broker_maps s \<and> broker_names s \<and> broker_stored len s \<and>
     broker_deliveries s \<and> broker_acks s \<and> broker_limits s)"

lemmas broker_defs = broker_maps_def broker_names_def broker_stored_def broker_deliveries_def
  broker_acks_def broker_limits_def

lemma broker_ok_empty: "broker_ok len empty_memory"
  by (simp add: broker_ok_def broker_defs empty_memory_def memory_usage_def sm_has_def
      max_pending_deliveries_def max_pending_bytes_def)

lemma broker_okD:
  assumes "broker_ok len s"
  shows "broker_maps s" "broker_names s" "broker_stored len s" "broker_deliveries s"
    "broker_acks s" "broker_limits s"
  using assms by (auto simp: broker_ok_def)

lemma broker_mapsD:
  assumes "broker_maps s"
  shows "sm_wf (topics s)" "sm_wf (subscriptions s)" "sm_wf (messages s)" "sm_wf (message_topics s)"
    "sm_wf (message_sizes s)" "sm_wf (message_expiry s)" "sm_wf (deliveries s)"
  using assms by (auto simp: broker_maps_def)

lemma deliveryD:
  assumes "broker_ok len s" "sm_get (deliveries s) k = Some d"
  shows "delivery_sub d = fst k" "sm_has (subscriptions s) (fst k)" "sm_has (messages s) (snd k)" "lease_ok d"
  using assms unfolding broker_ok_def broker_deliveries_def by (metis prod.collapse)+

lemma stored_size_delivery:
  assumes "broker_ok len s" "sm_get (messages s) i = Some m"
  shows "stored_size s (sub, i) = int (len m)"
  using assms by (auto simp: broker_ok_def broker_stored_def stored_size_def)

lemma stored_size_bounds:
  assumes "broker_ok len s"
  shows "0 \<le> stored_size s k" "stored_size s k \<le> int max_delivery_message_bytes"
proof -
  have "stored_size s k = 0 \<or> (\<exists>m. stored_size s k = int (len m) \<and> len m \<le> max_delivery_message_bytes)"
  proof (cases "sm_get (messages s) (snd k)")
    case None
    moreover have "sm_has (message_sizes s) (snd k) = sm_has (messages s) (snd k)"
      using assms unfolding broker_ok_def broker_stored_def by blast
    ultimately have "sm_get (message_sizes s) (snd k) = None" by (simp add: sm_has_def)
    then show ?thesis by (simp add: stored_size_def)
  next
    case (Some m)
    then show ?thesis using assms by (auto simp: broker_ok_def broker_stored_def stored_size_def)
  qed
  then show "0 \<le> stored_size s k" "stored_size s k \<le> int max_delivery_message_bytes" by auto
qed

lemma memory_usage_keys:
  "memory_usage s = (int (length (deliveries s)), sum_list (map (stored_size s) (map fst (deliveries s))))"
  by (auto simp: memory_usage_def stored_size_def intro!: arg_cong[where f = sum_list] map_cong)

lemma sm_has_update [simp]: "sm_has (sm_update f m) k = sm_has m k"
  by (simp add: sm_has_def)

lemma sm_get_has: "sm_get m k = Some v \<Longrightarrow> sm_has m k"
  by (simp add: sm_has_def)

lemma sum_list_filter_le:
  assumes "\<And>x. x \<in> set xs \<Longrightarrow> 0 \<le> (f x :: int)"
  shows "sum_list (map f (filter P xs)) \<le> sum_list (map f xs)"
  using assms by (induction xs) (auto intro: add_increasing)

lemma broker_names_cong:
  "topics s' = topics s \<Longrightarrow> subscriptions s' = subscriptions s \<Longrightarrow> broker_names s' = broker_names s"
  by (simp only: broker_names_def)

lemma broker_stored_cong:
  "messages s' = messages s \<Longrightarrow> message_topics s' = message_topics s \<Longrightarrow>
   message_sizes s' = message_sizes s \<Longrightarrow> message_expiry s' = message_expiry s \<Longrightarrow>
   broker_stored len s' = broker_stored len s"
  by (simp only: broker_stored_def)

lemma stored_size_cong: "message_sizes s' = message_sizes s \<Longrightarrow> stored_size s' = stored_size s"
  by (rule ext) (simp add: stored_size_def)

subsection \<open>Operations that change deliveries only\<close>

lemma update_deliveries_ok:
  assumes ok: "broker_ok len s"
    and f: "\<And>k d. sm_get (deliveries s) k = Some d \<Longrightarrow> delivery_sub (f k d) = delivery_sub d \<and> lease_ok (f k d)"
    and acks: "broker_acks (s\<lparr>deliveries := sm_update f (deliveries s)\<rparr>)"
  shows "broker_ok len (s\<lparr>deliveries := sm_update f (deliveries s)\<rparr>)"
proof -
  let ?s = "s\<lparr>deliveries := sm_update f (deliveries s)\<rparr>"
  note d = broker_okD[OF ok]
  have "broker_maps ?s" using d(1) by (simp add: broker_maps_def)
  moreover have "broker_names ?s" using d(2) broker_names_cong[of ?s s] by simp
  moreover have "broker_stored len ?s" using d(3) broker_stored_cong[of ?s s len] by simp
  moreover have "broker_deliveries ?s"
    unfolding broker_deliveries_def
  proof (intro conjI allI impI)
    fix sub i e assume "sm_get (deliveries ?s) (sub, i) = Some e"
    then obtain d where d: "sm_get (deliveries s) (sub, i) = Some d" "e = f (sub, i) d" by auto
    show "delivery_sub e = sub" "sm_has (subscriptions ?s) sub" "sm_has (messages ?s) i" "lease_ok e"
      using deliveryD[OF ok d(1)] f[OF d(1)] by (simp_all add: d(2))
  next
    fix i assume "sm_has (messages ?s) i"
    then show "\<exists>sub. sm_has (deliveries ?s) (sub, i)" using d(4) by (simp add: broker_deliveries_def)
  qed
  moreover have "broker_limits ?s"
  proof -
    have "length (sm_update f (deliveries s)) = length (deliveries s)"
      using keys_sm_update[of f "deliveries s"] by (metis length_map)
    then have "memory_usage ?s = memory_usage s"
      using stored_size_cong[of ?s s] by (simp add: memory_usage_keys del: map_map)
    then show ?thesis using d(6) by (simp add: broker_limits_def)
  qed
  ultimately show ?thesis using acks by (simp add: broker_ok_def)
qed

lemma shrink_acks:
  assumes "broker_acks s"
    and "\<And>k d a. sm_get (deliveries s) k = Some d \<Longrightarrow> ack_id (f k d) = Some a \<Longrightarrow> ack_id d = Some a"
  shows "broker_acks (s\<lparr>deliveries := sm_update f (deliveries s)\<rparr>)"
  using assms unfolding broker_acks_def by simp blast

lemma free_delivery_simps [simp]:
  "delivery_sub (free_delivery d) = delivery_sub d"
  "delivery_state (free_delivery d) = Available"
  "ack_id (free_delivery d) = None"
  "deadline_ms (free_delivery d) = None"
  "lease_ok (free_delivery d)"
  by (simp_all add: free_delivery_def lease_ok_def)

lemma expire_leases_ok: "broker_ok len s \<Longrightarrow> broker_ok len (expire_leases sub now s)"
  unfolding expire_leases_def
  by (rule update_deliveries_ok)
    (auto simp: deliveryD dest: broker_okD intro!: shrink_acks split: if_splits)

subsection \<open>Operations that drop deliveries\<close>

text \<open>
  Dropping deliveries and then collecting the messages without one keeps the invariant; every
  operation that removes something is of this form.
\<close>

lemma memory_gc_simps [simp]:
  "topics (memory_gc s) = topics s"
  "subscriptions (memory_gc s) = subscriptions s"
  "deliveries (memory_gc s) = deliveries s"
  by (simp_all add: memory_gc_def Let_def)

lemma live_iff: "i \<in> set (map (snd \<circ> fst) (deliveries s)) \<longleftrightarrow> (\<exists>sub. sm_has (deliveries s) (sub, i))"
  by (force simp: sm_has_in)

lemma sm_has_retain: "sm_wf m \<Longrightarrow> sm_has (sm_retain (\<lambda>k _. P k) m) k \<longleftrightarrow> sm_has m k \<and> P k"
  by (auto simp: sm_has_def split: option.splits)

lemma broker_stored_gc:
  assumes "broker_maps s" "broker_stored len s"
  shows "broker_stored len (memory_gc s)"
  using assms broker_mapsD[OF assms(1)]
  by (simp add: broker_stored_def memory_gc_def Let_def sm_has_retain split: option.splits)

lemma gc_retain_ok:
  assumes ok: "broker_ok len s"
    and subs: "sm_wf S" "\<And>k sub. sm_get S k = Some sub \<Longrightarrow>
      sub_name sub = k \<and> 10 \<le> ack_deadline_seconds sub \<and> ack_deadline_seconds sub \<le> 600"
    and keep: "\<And>k d. sm_get (deliveries s) k = Some d \<Longrightarrow> P k d \<Longrightarrow> sm_has S (fst k)"
  shows "broker_ok len (memory_gc (s\<lparr>subscriptions := S, deliveries := sm_retain P (deliveries s)\<rparr>))"
proof -
  let ?r = "s\<lparr>subscriptions := S, deliveries := sm_retain P (deliveries s)\<rparr>"
  let ?s = "memory_gc ?r"
  note d = broker_okD[OF ok] and wf = broker_mapsD[OF broker_okD(1)[OF ok]]
  have maps: "broker_maps ?r" using wf subs(1) by (simp add: broker_maps_def)
  have "broker_maps ?s" using wf subs(1) by (simp add: broker_maps_def memory_gc_def Let_def)
  moreover have "broker_names ?s" using d(2) subs(2) unfolding broker_names_def memory_gc_simps by simp
  moreover have "broker_stored len ?r" using d(3) broker_stored_cong[of ?r s len] by simp
  then have "broker_stored len ?s" by (rule broker_stored_gc[OF maps])
  moreover have get: "sm_get (deliveries ?s) k = Some e \<longleftrightarrow> sm_get (deliveries s) k = Some e \<and> P k e" for k e
    using wf by (auto split: option.splits)
  have has: "sm_has (messages ?s) i \<longleftrightarrow> sm_has (messages s) i \<and> (\<exists>sub. sm_has (deliveries ?s) (sub, i))" for i
    unfolding live_iff[symmetric] using wf by (simp add: memory_gc_def Let_def sm_has_retain)
  have "broker_deliveries ?s"
    unfolding broker_deliveries_def
  proof (intro conjI allI impI)
    fix sub i e assume e: "sm_get (deliveries ?s) (sub, i) = Some e"
    then have e': "sm_get (deliveries s) (sub, i) = Some e" "P (sub, i) e" using get by blast+
    show "delivery_sub e = sub" "lease_ok e" using deliveryD[OF ok e'(1)] by simp_all
    show "sm_has (subscriptions ?s) sub" using keep[OF e'] by simp
    show "sm_has (messages ?s) i" using has sm_get_has[OF e] deliveryD(3)[OF ok e'(1)] by auto
  qed (use has in blast)
  moreover have "broker_acks ?s" using d(5) get unfolding broker_acks_def by blast
  moreover have "broker_limits ?s"
  proof -
    have size: "stored_size ?s k = stored_size s k" if "k \<in> fst ` set (deliveries ?s)" for k
    proof -
      have "snd k \<in> set (map (snd \<circ> fst) (sm_retain P (deliveries s)))" using that by (force simp: image_iff)
      then show ?thesis using wf
        by (simp add: stored_size_def memory_gc_def Let_def split: option.splits)
    qed
    have "map (stored_size ?s) (map fst (deliveries ?s)) = map (stored_size s) (map fst (deliveries ?s))"
      using size by (intro map_cong) auto
    then have "snd (memory_usage ?s) = sum_list (map (stored_size s) (map fst (deliveries ?s)))"
      by (simp only: memory_usage_keys snd_conv)
    then have "snd (memory_usage ?s) = sum_list (map (\<lambda>e. stored_size s (fst e)) (sm_retain P (deliveries s)))"
      by (simp add: comp_def)
    also have "\<dots> \<le> snd (memory_usage s)"
      unfolding sm_retain_def memory_usage_keys snd_conv map_map comp_def
      by (rule sum_list_filter_le) (rule stored_size_bounds[OF ok])
    finally have "snd (memory_usage ?s) \<le> snd (memory_usage s)" .
    moreover have "fst (memory_usage ?s) \<le> fst (memory_usage s)"
      by (simp add: memory_usage_keys sm_retain_def)
    ultimately show ?thesis using d(6) by (simp add: broker_limits_def)
  qed
  ultimately show ?thesis by (simp add: broker_ok_def)
qed

lemma gc_retain_deliveries_ok:
  assumes ok: "broker_ok len s"
  shows "broker_ok len (memory_gc (s\<lparr>deliveries := sm_retain P (deliveries s)\<rparr>))"
proof -
  have "broker_ok len (memory_gc (s\<lparr>subscriptions := subscriptions s, deliveries := sm_retain P (deliveries s)\<rparr>))"
  proof (rule gc_retain_ok[OF ok])
    show "sm_wf (subscriptions s)" using broker_mapsD[OF broker_okD(1)[OF ok]] by simp
    show "sub_name sub = k \<and> 10 \<le> ack_deadline_seconds sub \<and> ack_deadline_seconds sub \<le> 600"
      if "sm_get (subscriptions s) k = Some sub" for k sub
      using broker_okD(2)[OF ok] that unfolding broker_names_def by blast
    show "sm_has (subscriptions s) (fst k)" if "sm_get (deliveries s) k = Some d" for k d
      using deliveryD[OF ok that] by simp
  qed
  then show ?thesis by simp
qed

lemma drop_message_gc:
  assumes ok: "broker_ok len s"
  shows "drop_message i s = memory_gc (s\<lparr>deliveries := sm_retain (\<lambda>(_, m) _. m \<noteq> i) (deliveries s)\<rparr>)"
proof -
  let ?r = "s\<lparr>deliveries := sm_retain (\<lambda>(_, m) _. m \<noteq> i) (deliveries s)\<rparr>"
  note wf = broker_mapsD[OF broker_okD(1)[OF ok]]
  have live: "j \<in> set (map (snd \<circ> fst) (deliveries ?r)) \<longleftrightarrow> j \<noteq> i" if "sm_has (messages s) j" for j
    unfolding live_iff using broker_okD(4)[OF ok] that wf
    by (auto simp: broker_deliveries_def sm_has_def split: option.splits)
  have same: "sm_has (message_topics s) j = sm_has (messages s) j" "sm_has (message_sizes s) j = sm_has (messages s) j"
    "sm_has (message_expiry s) j = sm_has (messages s) j" for j
    using broker_okD(3)[OF ok] by (auto simp: broker_stored_def)
  have del: "sm_del i m = sm_retain (\<lambda>j _. j \<in> set (map (snd \<circ> fst) (deliveries ?r))) m"
    if "sm_wf m" "\<And>j. sm_has m j = sm_has (messages s) j" for m :: "(string, 'v) smap"
  proof (rule sm_ext)
    show "sm_get (sm_del i m) j = sm_get (sm_retain (\<lambda>j _. j \<in> set (map (snd \<circ> fst) (deliveries ?r))) m) j" for j
      using live[of j] that(1) that(2)[of j]
      by (cases "sm_get m j") (auto simp: sm_has_def)
  qed (use that in simp_all)
  show ?thesis
    using del[OF wf(3)] del[OF wf(4) same(1)] del[OF wf(5) same(2)] del[OF wf(6) same(3)]
    by (simp add: drop_message_def memory_gc_def Let_def)
qed

lemma drop_messages_ok: "broker_ok len s \<Longrightarrow> broker_ok len (fold drop_message is s)"
  by (induction "is" arbitrary: s) (auto simp: drop_message_gc gc_retain_deliveries_ok)

lemma cleanup_memory_ok: "broker_ok len s \<Longrightarrow> broker_ok len (cleanup_memory now s)"
  by (simp add: cleanup_memory_def Let_def drop_messages_ok)

subsection \<open>Topics and subscriptions\<close>

lemma broker_deliveries_cong:
  "deliveries s' = deliveries s \<Longrightarrow> messages s' = messages s \<Longrightarrow>
   (\<And>k. sm_has (subscriptions s) k \<Longrightarrow> sm_has (subscriptions s') k) \<Longrightarrow>
   broker_deliveries s \<Longrightarrow> broker_deliveries s'"
  by (simp only: broker_deliveries_def) blast

lemma broker_acks_cong: "deliveries s' = deliveries s \<Longrightarrow> broker_acks s' = broker_acks s"
  by (simp only: broker_acks_def)

lemma broker_limits_cong:
  "deliveries s' = deliveries s \<Longrightarrow> message_sizes s' = message_sizes s \<Longrightarrow> broker_limits s' = broker_limits s"
  by (simp only: broker_limits_def memory_usage_def)

lemma resources_ok:
  assumes ok: "broker_ok len s" and wf: "sm_wf T" "sm_wf S"
    and T: "\<And>k t. sm_get T k = Some t \<Longrightarrow> topic_name t = k"
    and S: "\<And>k sub. sm_get S k = Some sub \<Longrightarrow>
      sub_name sub = k \<and> 10 \<le> ack_deadline_seconds sub \<and> ack_deadline_seconds sub \<le> 600"
    and grow: "\<And>k. sm_has (subscriptions s) k \<Longrightarrow> sm_has S k"
  shows "broker_ok len (s\<lparr>topics := T, subscriptions := S\<rparr>)"
proof -
  let ?s = "s\<lparr>topics := T, subscriptions := S\<rparr>"
  note d = broker_okD[OF ok]
  have "broker_maps ?s" using d(1) wf by (simp add: broker_maps_def)
  moreover have "broker_names ?s" using T S by (simp add: broker_names_def)
  moreover have "broker_stored len ?s" using d(3) broker_stored_cong[of ?s s len] by simp
  moreover have "broker_deliveries ?s" using broker_deliveries_cong[of ?s s] grow d(4) by simp
  moreover have "broker_acks ?s" using d(5) broker_acks_cong[of ?s s] by simp
  moreover have "broker_limits ?s" using d(6) broker_limits_cong[of ?s s] by simp
  ultimately show ?thesis by (simp add: broker_ok_def)
qed

lemma namesD:
  assumes "broker_ok len s"
  shows "sm_get (topics s) k = Some t \<Longrightarrow> topic_name t = k"
    and "sm_get (subscriptions s) k = Some sub \<Longrightarrow>
      sub_name sub = k \<and> 10 \<le> ack_deadline_seconds sub \<and> ack_deadline_seconds sub \<le> 600"
  using broker_okD(2)[OF assms] unfolding broker_names_def by blast+

lemma create_topic_ok:
  assumes ok: "broker_ok len s"
  shows "broker_ok len (snd (create_topic_value t s))"
proof -
  note wf = broker_mapsD[OF broker_okD(1)[OF ok]]
  have "broker_ok len (s\<lparr>topics := sm_put (topic_name t) t (topics s), subscriptions := subscriptions s\<rparr>)"
    by (rule resources_ok[OF ok]) (use wf namesD[OF ok] in \<open>auto split: if_splits\<close>)
  then show ?thesis using ok by (auto simp: create_topic_value_def split: sum.splits)
qed

lemma delete_topic_ok:
  assumes ok: "broker_ok len s"
  shows "broker_ok len (snd (delete_topic_value name s))"
proof -
  note wf = broker_mapsD[OF broker_okD(1)[OF ok]]
  let ?f = "\<lambda>_ sub. if sub_topic sub = name then sub\<lparr>sub_topic := deleted_topic\<rparr> else sub"
  have "broker_ok len (s\<lparr>topics := sm_del name (topics s), subscriptions := sm_update ?f (subscriptions s)\<rparr>)"
  proof (rule resources_ok[OF ok])
    fix k sub assume "sm_get (sm_update ?f (subscriptions s)) k = Some sub"
    then obtain old where old: "sm_get (subscriptions s) k = Some old" "sub = ?f k old" by auto
    show "sub_name sub = k \<and> 10 \<le> ack_deadline_seconds sub \<and> ack_deadline_seconds sub \<le> 600"
      using namesD(2)[OF ok old(1)] old(2) by simp
  qed (use wf namesD(1)[OF ok] in \<open>auto split: if_splits\<close>)
  then show ?thesis using ok by (simp add: delete_topic_value_def split: sum.splits)
qed

lemma create_subscription_ok:
  assumes ok: "broker_ok len s"
  shows "broker_ok len (snd (create_subscription_value request s))"
proof -
  note wf = broker_mapsD[OF broker_okD(1)[OF ok]]
  have "broker_ok len (s\<lparr>topics := topics s, subscriptions := sm_put (sub_name sub) sub (subscriptions s)\<rparr>)"
    if sub: "normalize_subscription request = Inr sub" for sub
  proof (rule resources_ok[OF ok])
    fix k x assume x: "sm_get (sm_put (sub_name sub) sub (subscriptions s)) k = Some x"
    show "sub_name x = k \<and> 10 \<le> ack_deadline_seconds x \<and> ack_deadline_seconds x \<le> 600"
    proof (cases "k = sub_name sub")
      case True
      then show ?thesis using x normalize_subscription_Inr[OF sub] wf by simp
    next
      case False
      then show ?thesis using x namesD(2)[OF ok] wf by simp
    qed
  qed (use wf namesD(1)[OF ok] in auto)
  then show ?thesis using ok
    by (auto simp: create_subscription_value_def rbind_Inr_iff split: sum.splits prod.splits)
qed

lemma delete_subscription_ok:
  assumes ok: "broker_ok len s"
  shows "broker_ok len (snd (delete_subscription_value name s))"
proof -
  note wf = broker_mapsD[OF broker_okD(1)[OF ok]]
  have "broker_ok len (memory_gc (s\<lparr>subscriptions := sm_del name (subscriptions s),
     deliveries := sm_retain (\<lambda>(sub, _) _. sub \<noteq> name) (deliveries s)\<rparr>))"
  proof (rule gc_retain_ok[OF ok])
    fix k sub assume "sm_get (sm_del name (subscriptions s)) k = Some sub"
    then have "sm_get (subscriptions s) k = Some sub" by (simp split: if_splits)
    then show "sub_name sub = k \<and> 10 \<le> ack_deadline_seconds sub \<and> ack_deadline_seconds sub \<le> 600"
      by (rule namesD(2)[OF ok])
  next
    fix k d assume "sm_get (deliveries s) k = Some d" "(\<lambda>(sub, _) _. sub \<noteq> name) k d"
    then show "sm_has (sm_del name (subscriptions s)) (fst k)" using deliveryD(2)[OF ok] by (cases k) auto
  qed (use wf in simp)
  then show ?thesis using ok by (simp add: delete_subscription_value_def split: sum.splits)
qed

lemma acknowledge_ok: "broker_ok len s \<Longrightarrow> broker_ok len (snd (acknowledge_ids sub acks s))"
  by (auto simp: acknowledge_ids_def gc_retain_deliveries_ok split: sum.splits)

lemma modify_ack_ok:
  assumes ok: "broker_ok len s"
  shows "broker_ok len (snd (modify_ack_ids now sub acks seconds s))"
proof -
  let ?f = "\<lambda>_ d. if delivery_sub d = sub \<and> holds_ack acks d
             then (if seconds = 0 then free_delivery d else d\<lparr>deadline_ms := Some (sat_add now (seconds * 1000))\<rparr>)
             else d"
  have "broker_ok len (s\<lparr>deliveries := sm_update ?f (deliveries s)\<rparr>)"
  proof (rule update_deliveries_ok[OF ok])
    fix k d assume "sm_get (deliveries s) k = Some d"
    then have "lease_ok d" by (rule deliveryD(4)[OF ok])
    then show "delivery_sub (?f k d) = delivery_sub d \<and> lease_ok (?f k d)"
      by (auto simp: lease_ok_def holds_ack_def split: delivery_state.splits)
  qed (rule shrink_acks[OF broker_okD(5)[OF ok]], auto split: if_splits)
  then show ?thesis using ok by (simp add: modify_ack_ids_def Let_def split: sum.splits)
qed

end
