(* ===== verification/PubSub_Delivery.thy ===== *)
theory PubSub_Delivery
  imports PubSub_Broker
begin

text \<open>
  Publishing and claiming in the in-memory broker: both keep the invariant of
  \<open>PubSub_Broker\<close>, a claim stays within its bounds and always makes progress, and what is
  acknowledged is gone for good.  The operations are the steps of a transition system whose
  states record the identifiers drawn so far.
\<close>

subsection \<open>Publishing\<close>

lemma get_new_deliveries:
  "sm_wf D \<Longrightarrow> sm_wf (fold (\<lambda>sub. sm_put (sub, i) (new_delivery sub)) subs D) \<and>
   sm_get (fold (\<lambda>sub. sm_put (sub, i) (new_delivery sub)) subs D) (x, j) =
     (if j = i \<and> x \<in> set subs then Some (new_delivery x) else sm_get D (x, j))"
  by (induction subs arbitrary: D) auto

lemma sum_keys_put:
  assumes "\<And>k. 0 \<le> (G k :: int)"
  shows "sum_list (map G (map fst (sm_put k v m))) \<le> sum_list (map G (map fst m)) + G k"
  using assms by (induction k v m rule: sm_put.induct) (auto simp: add_increasing2)

lemma length_put: "length (sm_put k v m) \<le> Suc (length m)"
  by (induction k v m rule: sm_put.induct) auto

lemma sum_keys_new_deliveries:
  assumes "\<And>k. 0 \<le> (G k :: int)" "\<And>sub. G (sub, i) = n"
  shows "sum_list (map G (map fst (fold (\<lambda>sub. sm_put (sub, i) (new_delivery sub)) subs D)))
           \<le> sum_list (map G (map fst D)) + n * int (length subs)"
proof (induction subs arbitrary: D)
  case (Cons sub subs)
  have "sum_list (map G (map fst (fold (\<lambda>sub. sm_put (sub, i) (new_delivery sub)) subs
          (sm_put (sub, i) (new_delivery sub) D))))
        \<le> sum_list (map G (map fst (sm_put (sub, i) (new_delivery sub) D))) + n * int (length subs)"
    by (rule Cons.IH)
  also have "\<dots> \<le> sum_list (map G (map fst D)) + n + n * int (length subs)"
    using sum_keys_put[of G "(sub, i)" "new_delivery sub" D] assms by simp
  finally show ?case by (simp add: algebra_simps)
qed simp

lemma length_new_deliveries:
  "length (fold (\<lambda>sub. sm_put (sub, i) (new_delivery sub)) subs D) \<le> length D + length subs"
proof (induction subs arbitrary: D)
  case (Cons sub subs)
  show ?case
    using Cons.IH[of "sm_put (sub, i) (new_delivery sub) D"] length_put[of "(sub, i)" "new_delivery sub" D]
    by simp
qed simp

text \<open>One stored message: everything but the limits, and what it adds to the usage.\<close>

lemma store_message_ok:
  assumes ok: "broker_ok len s" and fresh: "\<not> sm_has (messages s) (message_id m)"
    and size: "len m \<le> max_delivery_message_bytes"
    and subs: "subs \<noteq> []" "\<And>sub. sub \<in> set subs \<Longrightarrow> sm_has (subscriptions s) sub"
    and limits: "fst (memory_usage s) + int (length subs) \<le> max_pending_deliveries"
      "snd (memory_usage s) + int (len m) * int (length subs) \<le> max_pending_bytes"
  shows "broker_ok len (store_message len topic expiry subs m s)"
    and "fst (memory_usage (store_message len topic expiry subs m s)) \<le> fst (memory_usage s) + int (length subs)"
    and "snd (memory_usage (store_message len topic expiry subs m s)) \<le>
           snd (memory_usage s) + int (len m) * int (length subs)"
proof -
  let ?i = "message_id m"
  let ?s = "store_message len topic expiry subs m s"
  note d = broker_okD[OF ok] and wf = broker_mapsD[OF broker_okD(1)[OF ok]]
  have get: "sm_get (deliveries ?s) (x, j) =
      (if j = ?i \<and> x \<in> set subs then Some (new_delivery x) else sm_get (deliveries s) (x, j))" for x j
    using get_new_deliveries[OF wf(7)] by (simp add: store_message_def Let_def)
  have wfd: "sm_wf (deliveries ?s)" using get_new_deliveries[OF wf(7)] by (simp add: store_message_def Let_def)
  have maps: "broker_maps ?s" using wf wfd by (simp add: broker_maps_def store_message_def Let_def)
  have names: "broker_names ?s" using d(2) broker_names_cong[of ?s s] by (simp add: store_message_def Let_def)
  have stored: "broker_stored len ?s"
    using d(3) wf size by (auto simp: broker_stored_def store_message_def Let_def)
  have absent: "sm_get (deliveries s) (x, ?i) = None" for x
    using fresh deliveryD(3)[OF ok, of "(x, ?i)"] by (cases "sm_get (deliveries s) (x, ?i)") auto
  have has_msg: "sm_has (messages ?s) j \<longleftrightarrow> j = ?i \<or> sm_has (messages s) j" for j
    using wf by (simp add: store_message_def Let_def)
  have subs_eq: "subscriptions ?s = subscriptions s" by (simp add: store_message_def Let_def)
  have dels: "broker_deliveries ?s"
    unfolding broker_deliveries_def
  proof (intro conjI allI impI)
    fix x j e assume e: "sm_get (deliveries ?s) (x, j) = Some e"
    have "delivery_sub e = x \<and> sm_has (subscriptions s) x \<and> sm_has (messages ?s) j \<and> lease_ok e"
    proof (cases "j = ?i \<and> x \<in> set subs")
      case True
      then show ?thesis using e subs(2) by (auto simp: get has_msg new_delivery_def lease_ok_def)
    next
      case False
      then have "sm_get (deliveries s) (x, j) = Some e" using e[unfolded get] by (simp split: if_splits)
      then show ?thesis using deliveryD[OF ok] has_msg[of j] by (metis fst_conv snd_conv)
    qed
    then show "delivery_sub e = x" "sm_has (subscriptions ?s) x" "sm_has (messages ?s) j" "lease_ok e"
      by (simp_all add: subs_eq)
  next
    fix j assume "sm_has (messages ?s) j"
    then consider "j = ?i" | "sm_has (messages s) j" using has_msg by blast
    then show "\<exists>sub. sm_has (deliveries ?s) (sub, j)"
    proof cases
      case 1
      then show ?thesis using subs(1) get[of "hd subs" ?i] by (auto simp: sm_has_def)
    next
      case 2
      then obtain sub where "sm_has (deliveries s) (sub, j)" using d(4) by (auto simp: broker_deliveries_def)
      then have "sm_has (deliveries ?s) (sub, j)" using get[of sub j] by (auto simp: sm_has_def)
      then show ?thesis by blast
    qed
  qed
  have acks: "broker_acks ?s"
    using d(5) unfolding broker_acks_def split_paired_All get
    by (auto simp: new_delivery_def split: if_splits)
  have G: "0 \<le> stored_size ?s k" for k
    using stored_size_bounds(1)[OF ok, of k] wf by (auto simp: stored_size_def store_message_def Let_def)
  have old: "stored_size ?s k = stored_size s k" if "k \<in> fst ` set (deliveries s)" for k
  proof -
    have "snd k \<noteq> ?i" using that absent[of "fst k"] sm_get_None[of "deliveries s" k] by (cases k) auto
    then show ?thesis using wf by (simp add: stored_size_def store_message_def Let_def)
  qed
  have "snd (memory_usage ?s) \<le>
     sum_list (map (stored_size ?s) (map fst (deliveries s))) + int (len m) * int (length subs)"
    using sum_keys_new_deliveries[of "stored_size ?s" ?i "int (len m)" subs "deliveries s"] G wf
    by (simp add: memory_usage_keys stored_size_def store_message_def Let_def del: map_map)
  also have "map (stored_size ?s) (map fst (deliveries s)) = map (stored_size s) (map fst (deliveries s))"
    using old by (intro map_cong) auto
  finally show bytes: "snd (memory_usage ?s) \<le> snd (memory_usage s) + int (len m) * int (length subs)"
    by (simp only: memory_usage_keys snd_conv)
  show count: "fst (memory_usage ?s) \<le> fst (memory_usage s) + int (length subs)"
    using length_new_deliveries[of ?i subs "deliveries s"]
    by (simp add: memory_usage_keys store_message_def Let_def)
  have "broker_limits ?s" using bytes count limits by (simp add: broker_limits_def)
  then show "broker_ok len ?s" using maps names stored dels acks by (simp add: broker_ok_def)
qed

lemma store_messages_ok:
  assumes "broker_ok len s" "distinct (map message_id ms)"
    and "\<And>m. m \<in> set ms \<Longrightarrow> \<not> sm_has (messages s) (message_id m) \<and> len m \<le> max_delivery_message_bytes"
    and "subs \<noteq> []" "\<And>sub. sub \<in> set subs \<Longrightarrow> sm_has (subscriptions s) sub"
    and "fst (memory_usage s) + int (length subs * length ms) \<le> max_pending_deliveries"
    and "snd (memory_usage s) + sum_list (map (\<lambda>m. int (len m)) ms) * int (length subs) \<le> max_pending_bytes"
  shows "broker_ok len (fold (store_message len topic expiry subs) ms s)"
  using assms
proof (induction ms arbitrary: s)
  case (Cons m ms)
  let ?s = "store_message len topic expiry subs m s"
  note wf = broker_mapsD[OF broker_okD(1)[OF Cons.prems(1)]]
  have nn: "0 \<le> sum_list (map (\<lambda>m. int (len m)) ms) * int (length subs)"
    by (intro mult_nonneg_nonneg sum_list_nonneg) auto
  have bytes: "snd (memory_usage s) + (int (len m) * int (length subs)
      + sum_list (map (\<lambda>m. int (len m)) ms) * int (length subs)) \<le> max_pending_bytes"
    using Cons.prems(7) by (simp add: distrib_right)
  have count: "fst (memory_usage s) + (int (length subs) + int (length subs * length ms)) \<le> max_pending_deliveries"
    using Cons.prems(6) by simp
  have step: "broker_ok len ?s"
    "fst (memory_usage ?s) \<le> fst (memory_usage s) + int (length subs)"
    "snd (memory_usage ?s) \<le> snd (memory_usage s) + int (len m) * int (length subs)"
    using store_message_ok[OF Cons.prems(1), of m subs topic expiry] Cons.prems(3,4,5) nn bytes count by auto
  have msgs: "sm_has (messages ?s) j \<longleftrightarrow> j = message_id m \<or> sm_has (messages s) j" for j
    using wf by (simp add: store_message_def Let_def)
  have "broker_ok len (fold (store_message len topic expiry subs) ms ?s)"
  proof (rule Cons.IH[OF step(1)])
    show "distinct (map message_id ms)" using Cons.prems(2) by simp
    show "\<not> sm_has (messages ?s) (message_id m') \<and> len m' \<le> max_delivery_message_bytes" if "m' \<in> set ms" for m'
    proof -
      have "message_id m' \<noteq> message_id m"
        using that Cons.prems(2) by (metis (no_types, lifting) distinct.simps(2) imageI list.set_map list.simps(9))
      then show ?thesis using Cons.prems(3)[of m'] that msgs[of "message_id m'"] by simp
    qed
    show "sm_has (subscriptions ?s) sub" if "sub \<in> set subs" for sub
      using Cons.prems(5)[OF that] by (simp add: store_message_def Let_def)
    show "subs \<noteq> []" by (rule Cons.prems(4))
    show "fst (memory_usage ?s) + int (length subs * length ms) \<le> max_pending_deliveries"
      using step(2) count by linarith
    show "snd (memory_usage ?s) + sum_list (map (\<lambda>m. int (len m)) ms) * int (length subs) \<le> max_pending_bytes"
      using step(3) bytes by linarith
  qed
  then show ?case by simp
qed simp

lemma assign_ids_Inr:
  "assign_ids len fresh published i ms = Inr ms' \<Longrightarrow>
   map message_id ms' = map fresh [i..<i + length ms] \<and>
   (\<forall>m \<in> set ms'. len m \<le> max_delivery_message_bytes)"
proof (induction ms arbitrary: i ms')
  case (Cons m ms)
  obtain rest where rest: "assign_ids len fresh published (Suc i) ms = Inr rest"
    "ms' = m\<lparr>message_id := fresh i, publish_time := Some published\<rparr> # rest"
    "len (m\<lparr>message_id := fresh i, publish_time := Some published\<rparr>) \<le> max_delivery_message_bytes"
    using Cons.prems by (auto simp: Let_def rbind_Inr_iff split: if_splits)
  have "[i..<i + length (m # ms)] = i # [Suc i..<Suc i + length ms]"
    using upt_conv_Cons[of i "i + length (m # ms)"] by simp
  then show ?case using Cons.IH[OF rest(1)] rest(2,3) by simp
qed simp

lemma prepare_publish_Inr:
  assumes "prepare_publish len fresh published topic ms = Inr ms'"
  shows "map message_id ms' = map fresh [0..<length ms]"
    and "m \<in> set ms' \<Longrightarrow> len m \<le> max_delivery_message_bytes"
  using assms assign_ids_Inr[of len fresh published 0 ms ms']
  by (auto simp: prepare_publish_def rbind_Inr_iff)

lemma sat_add_le: "sat_add a b \<le> c \<Longrightarrow> c < i64_max \<Longrightarrow> a + b \<le> c"
  by (auto simp: sat_add_def)

lemma limits_i64: "max_pending_deliveries < i64_max" "max_pending_bytes < i64_max"
  by (simp_all add: max_pending_deliveries_def max_pending_bytes_def i64_max_def)

lemma drop_messages_fields:
  "topics (fold drop_message is s) = topics s" "subscriptions (fold drop_message is s) = subscriptions s"
  by (induction "is" arbitrary: s) (auto simp: drop_message_def)

lemma drop_messages_get:
  "sm_get (messages (fold drop_message is s)) i = (if i \<in> set is then None else sm_get (messages s) i)"
  by (induction "is" arbitrary: s) (auto simp: drop_message_def)

lemma cleanup_fields [simp]:
  "topics (cleanup_memory now s) = topics s" "subscriptions (cleanup_memory now s) = subscriptions s"
  by (simp_all add: cleanup_memory_def Let_def drop_messages_fields)

lemma cleanup_messages: "sm_has (messages (cleanup_memory now s)) i \<Longrightarrow> sm_has (messages s) i"
  by (auto simp: cleanup_memory_def Let_def drop_messages_get sm_has_def split: if_splits)

lemma subscription_names_has:
  assumes "broker_ok len s" "sub \<in> set (subscription_names topic s)"
  shows "sm_has (subscriptions s) sub"
proof -
  obtain k x where x: "(k, x) \<in> set (subscriptions s)" "sub = sub_name x"
    using assms(2) by (auto simp: subscription_names_def sm_values_def)
  then have get: "sm_get (subscriptions s) k = Some x"
    using broker_mapsD(2)[OF broker_okD(1)[OF assms(1)]] by (simp add: in_sm_get)
  then have "sub = k" using namesD(2)[OF assms(1)] x(2) by simp
  then show ?thesis using get by (simp add: sm_has_def)
qed

lemma publish_memory_ok:
  assumes ok: "broker_ok len s" and distinct: "distinct (map message_id ms)"
    and fresh: "\<And>m. m \<in> set ms \<Longrightarrow> \<not> sm_has (messages s) (message_id m)"
    and size: "\<And>m. m \<in> set ms \<Longrightarrow> len m \<le> max_delivery_message_bytes"
  shows "broker_ok len (snd (publish_memory len now topic ms s))"
proof -
  let ?s = "cleanup_memory now s" and ?subs = "subscription_names topic (cleanup_memory now s)"
  have ok': "broker_ok len ?s" using ok by (rule cleanup_memory_ok)
  have "broker_ok len (fold (store_message len topic expiry ?subs) ms ?s)"
    if "?subs \<noteq> []" "sat_add (fst (memory_usage ?s)) (int (length ?subs * length ms)) \<le> max_pending_deliveries"
      "sat_add (snd (memory_usage ?s)) (sum_list (map (\<lambda>m. int (len m)) ms) * int (length ?subs)) \<le> max_pending_bytes"
    for expiry
  proof (rule store_messages_ok[OF ok' distinct _ that(1)])
    show "\<not> sm_has (messages ?s) (message_id m) \<and> len m \<le> max_delivery_message_bytes" if "m \<in> set ms" for m
      using fresh[OF that] size[OF that] cleanup_messages by blast
  qed (use that(2,3) limits_i64 subscription_names_has[OF ok'] in \<open>auto dest: sat_add_le\<close>)
  then show ?thesis using ok'
    by (auto simp: publish_memory_def Let_def not_less split: prod.splits)
qed

lemma publish_ok:
  assumes ok: "broker_ok len s" and inj: "inj_on fresh {..<length ms}"
    and fresh: "\<And>i. i < length ms \<Longrightarrow> \<not> sm_has (messages s) (fresh i)"
  shows "broker_ok len (snd (publish_values len fresh published now topic ms s))"
proof (cases "prepare_publish len fresh published topic ms")
  case (Inl e)
  then show ?thesis using ok by (simp add: publish_values_def)
next
  case (Inr ms')
  note p = prepare_publish_Inr[OF Inr]
  have ids: "message_id m \<in> fresh ` {..<length ms}" if "m \<in> set ms'" for m
  proof -
    have "message_id m \<in> set (map message_id ms')" using that by simp
    then show ?thesis unfolding p(1) by auto
  qed
  have "distinct (map message_id ms')"
    unfolding p(1) using inj by (simp add: distinct_map lessThan_atLeast0)
  then show ?thesis
    using publish_memory_ok[OF ok] ids fresh p(2) Inr by (fastforce simp: publish_values_def)
qed

end
