(* ===== verification/PubSub_Claim.thy ===== *)
theory PubSub_Claim
  imports PubSub_Delivery
begin

text \<open>
  Claiming from the in-memory broker, and the broker as a transition system.
\<close>

subsection \<open>The loop of a claim\<close>

text \<open>A claimed message and the lease it is held under.\<close>

definition held :: "(pubsub_message \<Rightarrow> nat) \<Rightarrow> string \<Rightarrow> memory_state \<Rightarrow> broker_message \<Rightarrow> bool" where
  "held len sub s b =
     (sm_get (messages s) (message_id (broker_message b)) = Some (broker_message b) \<and>
      size_bytes b = int (len (broker_message b)) \<and>
      (case sm_get (deliveries s) (sub, message_id (broker_message b)) of
         None \<Rightarrow> False
       | Some d \<Rightarrow> delivery_state d = InFlight \<and> ack_id d = Some (broker_ack_id b)))"

definition ack_in_use :: "memory_state \<Rightarrow> string \<Rightarrow> bool" where
  "ack_in_use s a = (\<exists>k d. sm_get (deliveries s) k = Some d \<and> ack_id d = Some a)"

lemma lease_fields [simp]:
  "topics (lease key ack deadline s) = topics s"
  "subscriptions (lease key ack deadline s) = subscriptions s"
  "messages (lease key ack deadline s) = messages s"
  "message_sizes (lease key ack deadline s) = message_sizes s"
  by (simp_all add: lease_def)

lemma lease_ok_step:
  assumes ok: "broker_ok len s" and fresh: "\<not> ack_in_use s ack"
  shows "broker_ok len (lease key ack deadline s)"
  unfolding lease_def
proof (rule update_deliveries_ok[OF ok])
  let ?f = "\<lambda>k d. if k = key
         then d\<lparr>delivery_state := InFlight, ack_id := Some ack, deadline_ms := Some deadline,
                delivery_attempts := delivery_attempts d + 1\<rparr> else d"
  show "delivery_sub (?f k d) = delivery_sub d \<and> lease_ok (?f k d)" if "sm_get (deliveries s) k = Some d" for k d
    using deliveryD(4)[OF ok that] by (simp add: lease_ok_def)
  show "broker_acks (s\<lparr>deliveries := sm_update ?f (deliveries s)\<rparr>)"
    unfolding broker_acks_def
  proof (intro allI impI)
    fix k k' e e' a
    assume "sm_get (deliveries (s\<lparr>deliveries := sm_update ?f (deliveries s)\<rparr>)) k = Some e"
      "sm_get (deliveries (s\<lparr>deliveries := sm_update ?f (deliveries s)\<rparr>)) k' = Some e'"
      and acks: "ack_id e = Some a" "ack_id e' = Some a"
    then obtain d d' where d: "sm_get (deliveries s) k = Some d" "e = ?f k d"
      "sm_get (deliveries s) k' = Some d'" "e' = ?f k' d'" by auto
    have no: "ack_id d \<noteq> Some ack" "ack_id d' \<noteq> Some ack"
      using fresh d(1,3) unfolding ack_in_use_def by blast+
    show "k = k'"
    proof (cases "k = key \<or> k' = key")
      case True
      then show ?thesis using acks d(2,4) no by (auto split: if_splits)
    next
      case False
      then have "e = d" "e' = d'" using d(2,4) by auto
      then show ?thesis using acks d(1,3) broker_okD(5)[OF ok] unfolding broker_acks_def by blast
    qed
  qed
qed

lemma ack_in_use_lease:
  assumes "ack_in_use (lease key ack deadline s) a" shows "a = ack \<or> ack_in_use s a"
  using assms by (auto simp: ack_in_use_def lease_def split: if_splits)

lemma held_lease:
  assumes "held len sub s b" "key \<noteq> (sub, message_id (broker_message b))"
  shows "held len sub (lease key ack deadline s) b"
  using assms by (auto simp: held_def lease_def split: option.splits)

text \<open>What the loop has reached: nothing yet, or messages within the bytes, or a single one.\<close>

definition claim_fits :: "int \<Rightarrow> broker_message list \<Rightarrow> bool" where
  "claim_fits max_bytes result =
     (result = [] \<or> sum_list (map size_bytes result) \<le> max_bytes \<or> length result = 1)"

lemma claim_loop_spec:
  assumes "broker_ok len s" "distinct keys" "max_bytes < i64_max"
    and "\<And>k. k \<in> set keys \<Longrightarrow> fst k = sub \<and>
           (\<exists>d. sm_get (deliveries s) k = Some d \<and> delivery_state d = Available)"
    and "list_all (held len sub s) result" "used = sum_list (map size_bytes result)"
    and "claim_fits max_bytes result" "length result \<le> max_count"
    and "inj_on fresh {..<max_count}"
    and "\<And>j. length result \<le> j \<Longrightarrow> j < max_count \<Longrightarrow> \<not> ack_in_use s (fresh j)"
  obtains out s' where
    "claim_loop fresh max_count max_bytes deadline fitting keys result used s = (Inr out, s')"
    "broker_ok len s'" "length out \<le> max_count" "claim_fits max_bytes out"
    "list_all (held len sub s') out"
    "topics s' = topics s" "subscriptions s' = subscriptions s" "messages s' = messages s"
    "\<And>k. k \<notin> set keys \<Longrightarrow> sm_get (deliveries s') k = sm_get (deliveries s) k"
    "result \<noteq> [] \<or> keys \<noteq> [] \<and> 0 < max_count \<and> (fitting \<longrightarrow> (\<exists>k \<in> set keys. stored_size s k \<le> max_bytes))
       \<Longrightarrow> out \<noteq> []"
  using assms
proof (induction keys arbitrary: s result used thesis)
  case Nil
  show ?case by (rule Nil.prems(1)[of result s]) (use Nil.prems in auto)
next
  case (Cons key keys)
  note ok = Cons.prems(2)
  let ?loop = "claim_loop fresh max_count max_bytes deadline fitting"
  let ?size = "stored_size s key"
  obtain d where d: "sm_get (deliveries s) key = Some d" "delivery_state d = Available" "fst key = sub"
    using Cons.prems(5)[of key] by auto
  obtain m where m: "sm_get (messages s) (snd key) = Some m"
    using deliveryD(3)[OF ok d(1)] by (auto simp: sm_has_def)
  have m': "message_id m = snd key" "?size = int (len m)"
    using broker_okD(3)[OF ok] m stored_size_delivery[OF ok m, of "fst key"]
    by (auto simp: broker_stored_def)
  note bounds = stored_size_bounds[OF ok, of key]
  have small: "\<not> ?size > int max_delivery_message_bytes" using bounds by simp
  show ?case
  proof (cases "length result \<ge> max_count")
    case True
    then show ?thesis by (intro Cons.prems(1)[of result s]) (use Cons.prems in auto)
  next
    case False
    note room = False
    show ?thesis
    proof (cases "sat_add used ?size > max_bytes \<and> (result \<noteq> [] \<or> fitting)")
      case True
      obtain out s' where out: "?loop keys result used s = (Inr out, s')"
        "broker_ok len s'" "length out \<le> max_count" "claim_fits max_bytes out"
        "list_all (held len sub s') out"
        "topics s' = topics s" "subscriptions s' = subscriptions s" "messages s' = messages s"
        "\<And>k. k \<notin> set keys \<Longrightarrow> sm_get (deliveries s') k = sm_get (deliveries s) k"
        "result \<noteq> [] \<or> keys \<noteq> [] \<and> 0 < max_count \<and> (fitting \<longrightarrow> (\<exists>k \<in> set keys. stored_size s k \<le> max_bytes))
           \<Longrightarrow> out \<noteq> []"
        by (rule Cons.IH[OF _ ok _ Cons.prems(4) _ Cons.prems(6-10)]) (use Cons.prems(3,5,11) in auto)
      have skip: "?loop (key # keys) result used s = (Inr out, s')"
        using True room bounds out(1) by (simp add: Let_def)
      have big: "?size > max_bytes" if "result = []"
        using True that Cons.prems(7) bounds
        by (auto simp: sat_add_def i64_max_def i64_min_def max_delivery_message_bytes_def max_message_bytes_def
            split: if_splits)
      have "out \<noteq> []" if "result \<noteq> [] \<or> 0 < max_count \<and> (fitting \<longrightarrow> (\<exists>k \<in> set (key # keys). stored_size s k \<le> max_bytes))"
        using out(10) that big True by (cases keys; cases "result = []") auto
      then show ?thesis using Cons.prems(1)[OF skip out(2-8)] out(9) by auto
    next
      case False
      let ?b = "\<lparr>broker_ack_id = fresh (length result), broker_message = m, size_bytes = ?size\<rparr>"
      let ?s = "lease key (fresh (length result)) deadline s"
      have unused: "\<not> ack_in_use s (fresh (length result))" using Cons.prems(11) room by simp
      have ok': "broker_ok len ?s" by (rule lease_ok_step[OF ok unused])
      have other: "sm_get (deliveries ?s) k = sm_get (deliveries s) k" if "k \<noteq> key" for k
        using that by (cases "sm_get (deliveries s) k") (auto simp: lease_def)
      have sz: "stored_size ?s = stored_size s" by (rule stored_size_cong) simp
      have "held len sub ?s ?b"
        using m m' d by (cases key) (auto simp: held_def lease_def)
      moreover have "held len sub ?s b" if "b \<in> set result" for b
      proof (rule held_lease)
        show "held len sub s b" using Cons.prems(6) that by (auto simp: list_all_iff)
        then show "key \<noteq> (sub, message_id (broker_message b))" using d by (auto simp: held_def)
      qed
      ultimately have held: "list_all (held len sub ?s) (result @ [?b])" by (auto simp: list_all_iff)
      have fits: "claim_fits max_bytes (result @ [?b])"
      proof (cases "result = []")
        case True
        then show ?thesis by (simp add: claim_fits_def)
      next
        case False
        then have "sat_add used ?size \<le> max_bytes" using \<open>\<not> (_ \<and> _)\<close> by simp
        then have "used + ?size \<le> max_bytes" using sat_add_le Cons.prems(4) by blast
        then show ?thesis using Cons.prems(7) by (simp add: claim_fits_def)
      qed
      have free: "\<not> ack_in_use ?s (fresh j)" if "length (result @ [?b]) \<le> j" "j < max_count" for j
      proof -
        have "fresh j \<noteq> fresh (length result)"
          using that inj_onD[OF Cons.prems(10), of j "length result"] by auto
        then show ?thesis using ack_in_use_lease Cons.prems(11)[of j] that by fastforce
      qed
      have keys: "fst k = sub \<and> (\<exists>d. sm_get (deliveries ?s) k = Some d \<and> delivery_state d = Available)"
        if "k \<in> set keys" for k
      proof -
        have "k \<noteq> key" using that Cons.prems(3) by auto
        then show ?thesis using Cons.prems(5)[of k] that other[of k] by simp
      qed
      obtain out s' where out: "?loop keys (result @ [?b]) (used + ?size) ?s = (Inr out, s')"
        "broker_ok len s'" "length out \<le> max_count" "claim_fits max_bytes out"
        "list_all (held len sub s') out"
        "topics s' = topics ?s" "subscriptions s' = subscriptions ?s" "messages s' = messages ?s"
        "\<And>k. k \<notin> set keys \<Longrightarrow> sm_get (deliveries s') k = sm_get (deliveries ?s) k"
        "result @ [?b] \<noteq> [] \<or> keys \<noteq> [] \<and> 0 < max_count \<and>
           (fitting \<longrightarrow> (\<exists>k \<in> set keys. stored_size ?s k \<le> max_bytes)) \<Longrightarrow> out \<noteq> []"
        by (rule Cons.IH[OF _ ok' _ Cons.prems(4) _ held _ fits _ Cons.prems(10)])
          (use Cons.prems(3,7) keys free room in auto)
      have take: "?loop (key # keys) result used s = (Inr out, s')"
        unfolding claim_loop.simps Let_def if_not_P[OF room] if_not_P[OF small] if_not_P[OF False] m option.case out(1) ..
      have "sm_get (deliveries s') k = sm_get (deliveries s) k" if "k \<notin> set (key # keys)" for k
        using that out(9)[of k] other[of k] by simp
      then show ?thesis using Cons.prems(1)[OF take out(2-5)] out(6-8,10) by auto
    qed
  qed
qed

end
