(* ===== verification/PubSub_Runs.thy ===== *)
theory PubSub_Runs
  imports PubSub_Claim
begin

text \<open>
  The in-memory broker as a transition system, with its main properties: the invariant of every
  reachable state, the bounds and the progress of a claim, and the finality of an acknowledgement.
\<close>

subsection \<open>A claim from the start\<close>

lemma drop_messages_deliveries:
  "sm_wf (deliveries s) \<Longrightarrow> sm_wf (deliveries (fold drop_message is s)) \<and>
   sm_get (deliveries (fold drop_message is s)) k =
     (if snd k \<in> set is then None else sm_get (deliveries s) k)"
proof (induction "is" arbitrary: s)
  case (Cons i "is")
  have wf: "sm_wf (deliveries (drop_message i s))" using Cons.prems by (simp add: drop_message_def)
  have "sm_get (deliveries (drop_message i s)) k = (if snd k = i then None else sm_get (deliveries s) k)"
    using Cons.prems by (cases k) (auto simp: drop_message_def split: option.splits)
  then show ?case using Cons.IH[OF wf] by auto
qed simp

definition expired :: "int \<Rightarrow> memory_state \<Rightarrow> string \<Rightarrow> bool" where
  "expired now s i = (case sm_get (message_expiry s) i of None \<Rightarrow> False | Some e \<Rightarrow> e \<le> now)"

lemma cleanup_deliveries:
  assumes "broker_ok len s"
  shows "sm_get (deliveries (cleanup_memory now s)) k =
    (if expired now s (snd k) then None else sm_get (deliveries s) k)"
proof -
  note wf = broker_mapsD[OF broker_okD(1)[OF assms]]
  have "snd k \<in> set (map fst (filter (\<lambda>(_, expiry). expiry \<le> now) (message_expiry s))) \<longleftrightarrow>
      (\<exists>e. (snd k, e) \<in> set (message_expiry s) \<and> e \<le> now)" by force
  also have "\<dots> \<longleftrightarrow> expired now s (snd k)"
    by (simp add: in_sm_iff[OF wf(6)] expired_def split: option.split)
  finally have "snd k \<in> set (map fst (filter (\<lambda>(_, expiry). expiry \<le> now) (message_expiry s))) \<longleftrightarrow>
      expired now s (snd k)" .
  then show ?thesis using drop_messages_deliveries[OF wf(7)] by (simp add: cleanup_memory_def Let_def)
qed

text \<open>A delivery that a claim has to consider.\<close>

definition deliverable :: "int \<Rightarrow> string \<Rightarrow> memory_state \<Rightarrow> bool" where
  "deliverable now sub s =
     (\<exists>i d. sm_get (deliveries s) (sub, i) = Some d \<and> \<not> expired now s i \<and>
        (delivery_state d = Available \<or> (\<exists>t. deadline_ms d = Some t \<and> t \<le> now)))"

lemma available_keysD:
  assumes "broker_ok len s" "k \<in> set (available_keys sub s)"
  shows "fst k = sub \<and> (\<exists>d. sm_get (deliveries s) k = Some d \<and> delivery_state d = Available)"
  using assms broker_mapsD(7)[OF broker_okD(1)[OF assms(1)]]
  by (auto simp: available_keys_def in_sm_iff split: prod.splits)

lemma available_keysI:
  assumes "sm_get (deliveries s) (sub, i) = Some d" "delivery_state d = Available"
  shows "(sub, i) \<in> set (available_keys sub s)"
  using sm_get_in[OF assms(1)] assms(2) by (force simp: available_keys_def)

lemma distinct_available_keys: "broker_ok len s \<Longrightarrow> distinct (available_keys sub s)"
  unfolding available_keys_def
  using sm_wf_distinct[OF broker_mapsD(7)[OF broker_okD(1)]] by (simp add: distinct_map_filter)

lemma claim_spec:
  assumes ok: "broker_ok len s" and sub: "get_subscription_value sub s = Inr c"
    and bytes: "max_bytes < i64_max" and inj: "inj_on fresh {..<max_count}"
    and free: "\<And>j. j < max_count \<Longrightarrow> \<not> ack_in_use s (fresh j)"
  obtains out s' where "claim fresh now sub max_count max_bytes deadline s = (Inr out, s')"
    "broker_ok len s'" "length out \<le> max_count" "claim_fits max_bytes out"
    "list_all (held len sub s') out"
    "0 < max_count \<and> deliverable now sub s \<Longrightarrow> out \<noteq> []"
proof -
  let ?c = "cleanup_memory now s" and ?s = "expire_leases sub now (cleanup_memory now s)"
  let ?keys = "available_keys sub ?s"
  let ?deadline = "sat_add now (max 10 (min 600 (case deadline of None \<Rightarrow> ack_deadline_seconds c | Some d \<Rightarrow> d)) * 1000)"
  let ?fitting = "list_ex (\<lambda>key. stored_size ?s key \<le> max_bytes) ?keys"
  have okc: "broker_ok len ?c" using ok by (rule cleanup_memory_ok)
  have oks: "broker_ok len ?s" using okc by (rule expire_leases_ok)
  have used: "\<not> ack_in_use ?s (fresh j)" if "length ([] :: broker_message list) \<le> j" "j < max_count" for j
    using free[OF that(2)] unfolding ack_in_use_def
    by (auto simp: expire_leases_def cleanup_deliveries[OF ok] split: if_splits)
  have start: "list_all (held len sub ?s) []" "0 = sum_list (map size_bytes [])" "claim_fits max_bytes []"
    "length ([] :: broker_message list) \<le> max_count" by (simp_all add: claim_fits_def)
  obtain out s' where out:
    "claim_loop fresh max_count max_bytes ?deadline ?fitting ?keys [] 0 ?s = (Inr out, s')"
    "broker_ok len s'" "length out \<le> max_count" "claim_fits max_bytes out"
    "list_all (held len sub s') out"
    "?keys \<noteq> [] \<and> 0 < max_count \<and> (?fitting \<longrightarrow> (\<exists>k \<in> set ?keys. stored_size ?s k \<le> max_bytes)) \<Longrightarrow> out \<noteq> []"
  proof (rule claim_loop_spec[where fitting = ?fitting and deadline = ?deadline and keys = ?keys and s = ?s and sub = sub,
          OF oks distinct_available_keys[OF oks] bytes available_keysD[OF oks] start(1-4) inj used], goal_cases)
    case (4 out s')
    show ?case by (rule that[of out s']) (use 4 in simp_all)
  qed simp_all
  have "out \<noteq> []" if pos: "0 < max_count" and waiting: "deliverable now sub s"
  proof -
    obtain i d where d: "sm_get (deliveries s) (sub, i) = Some d" "\<not> expired now s i"
      "delivery_state d = Available \<or> (\<exists>t. deadline_ms d = Some t \<and> t \<le> now)"
      using waiting by (auto simp: deliverable_def)
    have "sm_get (deliveries ?c) (sub, i) = Some d" using d(1,2) cleanup_deliveries[OF ok] by simp
    moreover have "delivery_sub d = sub" using deliveryD(1)[OF ok d(1)] by simp
    ultimately have "\<exists>e. sm_get (deliveries ?s) (sub, i) = Some e \<and> delivery_state e = Available"
      using d(3) by (cases "delivery_state d") (auto simp: expire_leases_def)
    then have "?keys \<noteq> []" using available_keysI by fastforce
    then show ?thesis using out(6) pos by (auto simp: list_ex_iff)
  qed
  moreover have "claim fresh now sub max_count max_bytes deadline s = (Inr out, s')"
    using sub out(1) by (simp add: claim_def Let_def)
  ultimately show ?thesis using that out(2-5) by blast
qed

subsection \<open>What an operation may bring into the state\<close>

definition grows_within :: "string set \<Rightarrow> memory_state \<Rightarrow> memory_state \<Rightarrow> bool" where
  "grows_within F s s' =
     ((\<forall>k. sm_has (deliveries s') k \<longrightarrow> sm_has (deliveries s) k \<or> snd k \<in> F) \<and>
      (\<forall>i. sm_has (messages s') i \<longrightarrow> sm_has (messages s) i \<or> i \<in> F) \<and>
      (\<forall>a. ack_in_use s' a \<longrightarrow> ack_in_use s a \<or> a \<in> F))"

lemma grows_refl [simp]: "grows_within F s s"
  by (simp add: grows_within_def)

lemma grows_trans: "grows_within F s s' \<Longrightarrow> grows_within F s' s'' \<Longrightarrow> grows_within F s s''"
  unfolding grows_within_def by blast

lemma grows_same:
  "deliveries s' = deliveries s \<Longrightarrow> messages s' = messages s \<Longrightarrow> grows_within F s s'"
  by (simp add: grows_within_def ack_in_use_def)

lemma grows_gc:
  assumes "broker_ok len s" "deliveries s' = sm_retain P (deliveries s)" "messages s' = messages s"
  shows "grows_within F s (memory_gc s')"
proof -
  note wf = broker_mapsD[OF broker_okD(1)[OF assms(1)]]
  have get: "sm_get (deliveries s') k = Some d \<Longrightarrow> sm_get (deliveries s) k = Some d" for k d
    using assms(2) wf(7) by (auto split: option.splits if_splits)
  have "sm_has (messages (memory_gc s')) i \<Longrightarrow> sm_has (messages s) i" for i
    using assms(3) wf(3) by (simp add: memory_gc_def Let_def sm_has_retain)
  then show ?thesis using get unfolding grows_within_def ack_in_use_def memory_gc_simps sm_has_def by blast
qed

lemma grows_update:
  assumes "\<And>k d a. sm_get (deliveries s) k = Some d \<Longrightarrow> ack_id (f k d) = Some a \<Longrightarrow> ack_id d = Some a \<or> a \<in> F"
    and "deliveries s' = sm_update f (deliveries s)" "messages s' = messages s"
  shows "grows_within F s s'"
proof -
  have "ack_in_use s a \<or> a \<in> F" if "ack_in_use s' a" for a
    using that assms(1) unfolding ack_in_use_def assms(2) by fastforce
  then show ?thesis using assms(2,3) by (auto simp: grows_within_def)
qed

lemma grows_drop_messages: "broker_ok len s \<Longrightarrow> grows_within F s (fold drop_message is s)"
proof (induction "is" arbitrary: s)
  case (Cons i "is")
  have "grows_within F s (drop_message i s)"
    unfolding drop_message_gc[OF Cons.prems] by (rule grows_gc[OF Cons.prems]) simp_all
  moreover have "broker_ok len (drop_message i s)"
    unfolding drop_message_gc[OF Cons.prems] by (rule gc_retain_deliveries_ok[OF Cons.prems])
  ultimately show ?case using Cons.IH grows_trans by fastforce
qed simp

lemma grows_cleanup: "broker_ok len s \<Longrightarrow> grows_within F s (cleanup_memory now s)"
  by (simp add: cleanup_memory_def Let_def grows_drop_messages)

lemma grows_store:
  assumes "sm_wf (deliveries s)" "sm_wf (messages s)" "message_id m \<in> F"
  shows "grows_within F s (store_message len topic expiry subs m s)"
    and "sm_wf (deliveries (store_message len topic expiry subs m s))"
    and "sm_wf (messages (store_message len topic expiry subs m s))"
proof -
  let ?s = "store_message len topic expiry subs m s"
  have get: "sm_get (deliveries ?s) k = (if snd k = message_id m \<and> fst k \<in> set subs then Some (new_delivery (fst k))
      else sm_get (deliveries s) k)" for k
    using get_new_deliveries[OF assms(1), of "message_id m" subs "fst k" "snd k"]
    by (simp add: store_message_def Let_def)
  have "ack_in_use s a" if a: "ack_in_use ?s a" for a
  proof -
    obtain k d where "sm_get (deliveries ?s) k = Some d" "ack_id d = Some a" using a by (auto simp: ack_in_use_def)
    then have "sm_get (deliveries s) k = Some d" unfolding get by (auto simp: new_delivery_def split: if_splits)
    then show ?thesis using \<open>ack_id d = Some a\<close> unfolding ack_in_use_def by blast
  qed
  moreover have "sm_has (deliveries s) k \<or> snd k \<in> F" if "sm_has (deliveries ?s) k" for k
    using that assms(3) unfolding sm_has_def get by (auto split: if_splits)
  moreover have "sm_has (messages s) i \<or> i \<in> F" if "sm_has (messages ?s) i" for i
    using that assms(2,3) by (auto simp: store_message_def Let_def)
  ultimately show "grows_within F s ?s" by (simp add: grows_within_def)
  show "sm_wf (deliveries ?s)" "sm_wf (messages ?s)"
    using assms get_new_deliveries[OF assms(1)] by (simp_all add: store_message_def Let_def)
qed

lemma grows_stores:
  "sm_wf (deliveries s) \<Longrightarrow> sm_wf (messages s) \<Longrightarrow> message_id ` set ms \<subseteq> F \<Longrightarrow>
   grows_within F s (fold (store_message len topic expiry subs) ms s)"
proof (induction ms arbitrary: s)
  case (Cons m ms)
  have m: "message_id m \<in> F" using Cons.prems(3) by simp
  note st = grows_store[OF Cons.prems(1,2) m, of len topic expiry subs]
  have "grows_within F (store_message len topic expiry subs m s)
      (fold (store_message len topic expiry subs) ms (store_message len topic expiry subs m s))"
    using Cons.IH[OF st(2,3)] Cons.prems(3) by simp
  then show ?case using grows_trans[OF st(1)] by simp
qed simp

lemma grows_publish:
  assumes ok: "broker_ok len s"
  shows "grows_within (fresh ` {..<length ms}) s (snd (publish_values len fresh published now topic ms s))"
proof (cases "prepare_publish len fresh published topic ms")
  case (Inl e)
  then show ?thesis by (simp add: publish_values_def)
next
  case (Inr ms')
  let ?F = "fresh ` {..<length ms}" and ?s = "cleanup_memory now s"
  have "message_id ` set ms' = set (map message_id ms')" by simp
  then have ids: "message_id ` set ms' \<subseteq> ?F" unfolding prepare_publish_Inr(1)[OF Inr] by auto
  note wf = broker_mapsD[OF broker_okD(1)[OF cleanup_memory_ok[OF ok, of now]]]
  have "grows_within ?F s (fold (store_message len topic expiry subs) ms' ?s)" for expiry subs
    by (rule grows_trans[OF grows_cleanup[OF ok] grows_stores[OF wf(7,3) ids]])
  then show ?thesis using Inr grows_cleanup[OF ok]
    by (auto simp: publish_values_def publish_memory_def Let_def split: prod.splits)
qed

lemma grows_lease:
  "ack \<in> F \<Longrightarrow> grows_within F s (lease key ack deadline s)"
  by (rule grows_update[where f = "\<lambda>k d. if k = key
         then d\<lparr>delivery_state := InFlight, ack_id := Some ack, deadline_ms := Some deadline,
                delivery_attempts := delivery_attempts d + 1\<rparr> else d"])
    (auto simp: lease_def split: if_splits)

lemma grows_claim_loop:
  "grows_within (fresh ` {..<max_count}) s
     (snd (claim_loop fresh max_count max_bytes deadline fitting keys result used s))"
proof (induction keys arbitrary: result used s)
  case (Cons key keys)
  show ?case
    using Cons.IH grows_trans[OF grows_lease Cons.IH]
    by (auto simp: Let_def not_le split: option.splits)
qed simp

lemma grows_claim:
  assumes ok: "broker_ok len s"
  shows "grows_within (fresh ` {..<max_count}) s (snd (claim fresh now sub max_count max_bytes deadline s))"
proof -
  let ?F = "fresh ` {..<max_count}"
  have "grows_within ?F (cleanup_memory now s) (expire_leases sub now (cleanup_memory now s))"
    unfolding expire_leases_def by (rule grows_update) (auto split: if_splits)
  then have "grows_within ?F s (expire_leases sub now (cleanup_memory now s))"
    using grows_trans[OF grows_cleanup[OF ok]] by blast
  then show ?thesis
    using grows_trans[OF _ grows_claim_loop] by (auto simp: claim_def Let_def split: sum.splits)
qed

subsection \<open>Runs\<close>

datatype broker_op =
    CreateTopic topic | DeleteTopic string
  | CreateSubscription subscription | DeleteSubscription string
  | Publish string "pubsub_message list"
  | Claim string nat int "int option"
  | Acknowledge string "string list" | ModifyAck string "string list" int

text \<open>How many identifiers an operation draws at most.\<close>

fun drawn :: "broker_op \<Rightarrow> nat" where
  "drawn (Publish topic ms) = length ms"
| "drawn (Claim sub max_count max_bytes deadline) = max_count"
| "drawn _ = 0"

fun broker_apply ::
  "(pubsub_message \<Rightarrow> nat) \<Rightarrow> (nat \<Rightarrow> string) \<Rightarrow> int \<times> int \<Rightarrow> int \<Rightarrow> broker_op \<Rightarrow> memory_state \<Rightarrow> memory_state" where
  "broker_apply len fresh published now (CreateTopic t) s = snd (create_topic_value t s)"
| "broker_apply len fresh published now (DeleteTopic n) s = snd (delete_topic_value n s)"
| "broker_apply len fresh published now (CreateSubscription r) s = snd (create_subscription_value r s)"
| "broker_apply len fresh published now (DeleteSubscription n) s = snd (delete_subscription_value n s)"
| "broker_apply len fresh published now (Publish topic ms) s = snd (publish_values len fresh published now topic ms s)"
| "broker_apply len fresh published now (Claim sub n bytes deadline) s = snd (claim fresh now sub n bytes deadline s)"
| "broker_apply len fresh published now (Acknowledge sub acks) s = snd (acknowledge_ids sub acks s)"
| "broker_apply len fresh published now (ModifyAck sub acks seconds) s = snd (modify_ack_ids now sub acks seconds s)"

text \<open>
  A state of a run is the set of identifiers drawn so far and the maps; the clock is arbitrary, and
  the identifiers of a step are new and distinct.
\<close>

inductive broker_step ::
  "(pubsub_message \<Rightarrow> nat) \<Rightarrow> string set \<times> memory_state \<Rightarrow> string set \<times> memory_state \<Rightarrow> bool" for len where
  op: "inj_on fresh {..<drawn op} \<Longrightarrow> fresh ` {..<drawn op} \<inter> U = {} \<Longrightarrow>
       broker_step len (U, s) (U \<union> fresh ` {..<drawn op}, broker_apply len fresh published now op s)"



definition drawn_ok :: "string set \<Rightarrow> memory_state \<Rightarrow> bool" where
  "drawn_ok U s = ((\<forall>i. sm_has (messages s) i \<longrightarrow> i \<in> U) \<and> (\<forall>a. ack_in_use s a \<longrightarrow> a \<in> U))"

lemma grows_apply:
  assumes ok: "broker_ok len s"
  shows "grows_within (fresh ` {..<drawn op}) s (broker_apply len fresh published now op s)"
proof (cases op)
  case (CreateTopic t)
  then show ?thesis by (auto simp: create_topic_value_def intro!: grows_same split: sum.splits)
next
  case (DeleteTopic n)
  then show ?thesis by (auto simp: delete_topic_value_def intro!: grows_same split: sum.splits)
next
  case (CreateSubscription r)
  then show ?thesis by (auto simp: create_subscription_value_def intro!: grows_same split: sum.splits)
next
  case (DeleteSubscription n)
  then show ?thesis
    by (auto simp: delete_subscription_value_def intro!: grows_gc[OF ok] split: sum.splits)
next
  case (Publish topic ms)
  then show ?thesis using grows_publish[OF ok] by simp
next
  case (Claim sub n bytes deadline)
  then show ?thesis using grows_claim[OF ok] by simp
next
  case (Acknowledge sub acks)
  then show ?thesis by (auto simp: acknowledge_ids_def intro!: grows_gc[OF ok] split: sum.splits)
next
  case (ModifyAck sub acks seconds)
  have "grows_within {} s (s\<lparr>deliveries := sm_update (\<lambda>_ d.
             if delivery_sub d = sub \<and> holds_ack acks d
             then (if seconds = 0 then free_delivery d else d\<lparr>deadline_ms := Some (sat_add now (seconds * 1000))\<rparr>)
             else d) (deliveries s)\<rparr>)"
    by (rule grows_update) (auto split: if_splits)
  then show ?thesis using ModifyAck by (auto simp: modify_ack_ids_def Let_def split: sum.splits)
qed

text \<open>The invariant does not need the byte limit of a claim to be in range.\<close>

lemma claim_loop_ok:
  "broker_ok len s \<Longrightarrow> inj_on fresh {..<max_count} \<Longrightarrow>
   (\<And>j. length result \<le> j \<Longrightarrow> j < max_count \<Longrightarrow> \<not> ack_in_use s (fresh j)) \<Longrightarrow>
   broker_ok len (snd (claim_loop fresh max_count max_bytes deadline fitting keys result used s))"
proof (induction keys arbitrary: result used s)
  case (Cons key keys)
  let ?s = "lease key (fresh (length result)) deadline s"
  show ?case
  proof (cases "length result < max_count")
    case True
    have ok: "broker_ok len ?s" using lease_ok_step[OF Cons.prems(1)] Cons.prems(3)[of "length result"] True by simp
    have free: "\<not> ack_in_use ?s (fresh j)" if "Suc (length result) \<le> j" "j < max_count" for j
    proof -
      have "fresh j \<noteq> fresh (length result)"
        using that True inj_onD[OF Cons.prems(2), of j "length result"] by auto
      then show ?thesis using ack_in_use_lease Cons.prems(3)[of j] that by fastforce
    qed
    have "broker_ok len (snd (claim_loop fresh max_count max_bytes deadline fitting keys (result @ [b]) used' ?s))" for b used'
      by (rule Cons.IH[OF ok Cons.prems(2)]) (use free in simp)
    then show ?thesis
      using Cons.IH[OF Cons.prems(1,2), of result] Cons.prems(1,3) True
      by (simp add: Let_def split: option.splits)
  qed (use Cons.prems in simp)
qed simp

lemma broker_apply_ok:
  assumes ok: "broker_ok len s" and drawn: "drawn_ok U s"
    and inj: "inj_on fresh {..<drawn op}" and new: "fresh ` {..<drawn op} \<inter> U = {}"
  shows "broker_ok len (broker_apply len fresh published now op s)"
proof (cases op)
  case (Publish topic ms)
  have "\<not> sm_has (messages s) (fresh i)" if "i < length ms" for i
    using new drawn that Publish by (auto simp: drawn_ok_def)
  then show ?thesis using publish_ok[OF ok, of fresh ms] inj Publish by simp
next
  case (Claim sub n bytes deadline)
  have okc: "broker_ok len (expire_leases sub now (cleanup_memory now s))"
    using ok by (intro expire_leases_ok cleanup_memory_ok)
  have g: "grows_within {} (cleanup_memory now s) (expire_leases sub now (cleanup_memory now s))"
    unfolding expire_leases_def by (rule grows_update) (auto split: if_splits)
  have "\<not> ack_in_use (expire_leases sub now (cleanup_memory now s)) (fresh j)" if "j < n" for j
    using grows_trans[OF grows_cleanup[OF ok] g] drawn new that Claim
    by (auto simp: grows_within_def drawn_ok_def)
  then show ?thesis
    using claim_loop_ok[OF okc] inj Claim ok by (simp add: claim_def Let_def split: sum.splits)
qed (simp_all add: ok create_topic_ok delete_topic_ok create_subscription_ok delete_subscription_ok
      acknowledge_ok modify_ack_ok)

lemma broker_step_ok:
  assumes "broker_step len (U, s) (U', s')" "broker_ok len s" "drawn_ok U s"
  shows "broker_ok len s' \<and> drawn_ok U' s' \<and> U \<subseteq> U' \<and>
    (\<forall>sub i. i \<in> U \<longrightarrow> \<not> sm_has (deliveries s) (sub, i) \<longrightarrow> \<not> sm_has (deliveries s') (sub, i))"
  using assms(1)
proof (cases rule: broker_step.cases)
  case (op fresh op published now)
  note g = grows_apply[OF assms(2), of fresh op published now]
  have "broker_ok len s'" using broker_apply_ok[OF assms(2,3) op(3,4)] op(2) by simp
  moreover have "drawn_ok U' s'" using g assms(3) op(1,2) unfolding drawn_ok_def grows_within_def by blast
  moreover have "U \<subseteq> U'" using op(1) by blast
  moreover have "\<not> sm_has (deliveries s') (sub, i)" if "i \<in> U" "\<not> sm_has (deliveries s) (sub, i)" for sub i
    using g op(2,4) that unfolding grows_within_def by (metis disjoint_iff snd_conv)
  ultimately show ?thesis by blast
qed

lemma broker_steps_ok:
  assumes "(broker_step len)\<^sup>*\<^sup>* (U, s) (U', s')" "broker_ok len s" "drawn_ok U s"
  shows "broker_ok len s' \<and> drawn_ok U' s' \<and> U \<subseteq> U' \<and>
    (\<forall>sub i. i \<in> U \<longrightarrow> \<not> sm_has (deliveries s) (sub, i) \<longrightarrow> \<not> sm_has (deliveries s') (sub, i))"
  using assms(1)
proof (induction "(U', s')" arbitrary: U' s' rule: rtranclp_induct)
  case base
  then show ?case using assms by simp
next
  case (step y)
  obtain V v where y: "y = (V, v)" by (cases y)
  show ?case using step(3)[OF y] broker_step_ok[OF step(2)[unfolded y]] by (meson subset_iff)
qed

lemma drawn_ok_empty: "drawn_ok {} empty_memory"
  by (simp add: drawn_ok_def empty_memory_def ack_in_use_def sm_has_def)

subsection \<open>A sample run\<close>

text \<open>The length of a message in the witnesses: that of its data.\<close>

definition data_len :: "pubsub_message \<Rightarrow> nat" where "data_len m = length (msg_data m)"

definition sample_fresh :: "string \<Rightarrow> nat \<Rightarrow> string" where "sample_fresh p i = p @ show_nat i"

definition sample_topic :: string where "sample_topic = ''projects/p/topics/abc''"
definition sample_sub :: string where "sample_sub = ''projects/p/subscriptions/abc''"

definition sample_publish :: broker_op where
  "sample_publish = Publish sample_topic
     [\<lparr>msg_data = ''x'', msg_attributes = [], message_id = [], publish_time = None, ordering_key = []\<rparr>]"

definition sample_broker :: "nat \<Rightarrow> memory_state" where
  "sample_broker n = fold (\<lambda>(p, op) s. broker_apply data_len (sample_fresh p) (0, 0) 0 op s)
     (take n [(''a'', CreateTopic (default_topic sample_topic)),
              (''b'', CreateSubscription (default_subscription sample_sub sample_topic)),
              (''m'', sample_publish), (''k'', Claim sample_sub 1 100 None)]) empty_memory"

definition sample_drawn :: "nat \<Rightarrow> string set" where
  "sample_drawn n = set (take (n - 2) [''m0'', ''k0''])"

lemma sample_names [simp]:
  "parse_resource sample_topic ''topics'' = Inr (''p'', ''abc'')"
  "parse_resource sample_sub ''subscriptions'' = Inr (''p'', ''abc'')"
  "sample_fresh ''m'' 0 = ''m0''" "sample_fresh ''k'' 0 = ''k0''"
  by code_simp+

lemma sample_created:
  "sample_broker 2 = empty_memory\<lparr>topics := [(sample_topic, default_topic sample_topic)],
     subscriptions := [(sample_sub, default_subscription sample_sub sample_topic)]\<rparr>"
  by (simp add: sample_broker_def eval_nat_numeral empty_memory_def create_topic_value_def
    topic_supported_def default_topic_def create_subscription_value_def default_subscription_def
    normalize_subscription_def default_ack_deadline_def sm_has_def)

lemma sample_apply:
  "sample_broker 1 = broker_apply data_len (sample_fresh ''a'') (0, 0) 0 (CreateTopic (default_topic sample_topic)) empty_memory"
  "sample_broker 2 = broker_apply data_len (sample_fresh ''b'') (0, 0) 0
     (CreateSubscription (default_subscription sample_sub sample_topic)) (sample_broker 1)"
  "sample_broker 3 = broker_apply data_len (sample_fresh ''m'') (0, 0) 0 sample_publish (sample_broker 2)"
  "sample_broker 4 = broker_apply data_len (sample_fresh ''k'') (0, 0) 0 (Claim sample_sub 1 100 None) (sample_broker 3)"
  by (simp_all add: sample_broker_def eval_nat_numeral)

lemma sample_published:
  "sample_broker 3 = (sample_broker 2)\<lparr>
     messages := [(''m0'', \<lparr>msg_data = ''x'', msg_attributes = [], message_id = ''m0'',
       publish_time = Some (0, 0), ordering_key = []\<rparr>)],
     message_topics := [(''m0'', sample_topic)], message_sizes := [(''m0'', 1)],
     message_expiry := [(''m0'', 86400000)], deliveries := [((sample_sub, ''m0''), new_delivery sample_sub)]\<rparr>"
  unfolding sample_apply(3) sample_created
  by (simp add: sample_publish_def publish_values_def prepare_publish_def data_len_def max_message_bytes_def
    max_publish_bytes_def max_delivery_message_bytes_def sat_add_usize_def Let_def publish_memory_def
    cleanup_memory_def empty_memory_def sm_has_def subscription_names_def sm_values_def default_subscription_def
    memory_usage_def sat_add_def i64_max_def i64_min_def max_pending_bytes_def max_pending_deliveries_def
    store_message_def retention_seconds_def)

lemma sample_claimed:
  "sample_broker 4 = (sample_broker 3)\<lparr>deliveries := [((sample_sub, ''m0''),
     \<lparr>delivery_sub = sample_sub, delivery_state = InFlight, ack_id = Some ''k0'', deadline_ms = Some 10000,
      delivery_attempts = 1\<rparr>)]\<rparr>"
  unfolding sample_apply(4) sample_published sample_created
  by (simp add: claim_def get_subscription_value_def Let_def default_subscription_def default_ack_deadline_def
    cleanup_memory_def empty_memory_def expire_leases_def sm_update_def new_delivery_def available_keys_def
    stored_size_def max_delivery_message_bytes_def max_message_bytes_def sat_add_def i64_max_def i64_min_def
    lease_def)

lemma sample_drawn_simps: "sample_drawn 3 = {''m0''}" "sample_drawn 4 = {''m0'', ''k0''}"
  by (simp_all add: sample_drawn_def eval_nat_numeral)

lemma sample_run_3: "(broker_step data_len)\<^sup>*\<^sup>* ({}, empty_memory) (sample_drawn 3, sample_broker 3)"
proof -
  have 1: "broker_step data_len ({}, empty_memory) ({}, sample_broker 1)"
    using broker_step.op[of "sample_fresh ''a''" "CreateTopic (default_topic sample_topic)" "{}" data_len empty_memory "(0, 0)" 0]
    unfolding sample_apply(1) by simp
  have 2: "broker_step data_len ({}, sample_broker 1) ({}, sample_broker 2)"
    using broker_step.op[of "sample_fresh ''b''" "CreateSubscription (default_subscription sample_sub sample_topic)"
        "{}" data_len "sample_broker 1" "(0, 0)" 0]
    unfolding sample_apply(2) by simp
  have 3: "broker_step data_len ({}, sample_broker 2) (sample_drawn 3, sample_broker 3)"
    using broker_step.op[of "sample_fresh ''m''" sample_publish "{}" data_len "sample_broker 2" "(0, 0)" 0]
    unfolding sample_apply(3) sample_drawn_simps by (simp add: sample_publish_def lessThan_Suc)
  show ?thesis using 1 2 3 by (meson converse_rtranclp_into_rtranclp rtranclp.rtrancl_refl)
qed

lemma sample_run_4: "(broker_step data_len)\<^sup>*\<^sup>* ({}, empty_memory) (sample_drawn 4, sample_broker 4)"
proof -
  have "broker_step data_len (sample_drawn 3, sample_broker 3) (sample_drawn 4, sample_broker 4)"
    using broker_step.op[of "sample_fresh ''k''" "Claim sample_sub 1 100 None" "sample_drawn 3" data_len "sample_broker 3" "(0, 0)" 0]
    unfolding sample_apply(4) sample_drawn_simps by (simp add: lessThan_Suc insert_commute)
  then show ?thesis using sample_run_3 by (rule rtranclp.rtrancl_into_rtrancl[rotated])
qed

lemma sample_ready:
  "broker_ok data_len (sample_broker 3)"
  "get_subscription_value sample_sub (sample_broker 3) = Inr (default_subscription sample_sub sample_topic)"
  "inj_on (sample_fresh ''k'') {..<1}" "\<not> ack_in_use (sample_broker 3) a"
  "deliverable 0 sample_sub (sample_broker 3)"
proof -
  show "broker_ok data_len (sample_broker 3)"
    using broker_steps_ok[OF sample_run_3 broker_ok_empty drawn_ok_empty] by blast
  show "get_subscription_value sample_sub (sample_broker 3) = Inr (default_subscription sample_sub sample_topic)"
    by (simp add: sample_published sample_created get_subscription_value_def)
  show "inj_on (sample_fresh ''k'') {..<1}" by (simp add: lessThan_Suc)
  show "\<not> ack_in_use (sample_broker 3) a"
    by (auto simp: sample_published ack_in_use_def new_delivery_def split: if_splits)
  show "deliverable 0 sample_sub (sample_broker 3)"
    by (simp add: sample_published deliverable_def new_delivery_def expired_def)
qed

subsection \<open>Properties\<close>

text \<open>
  Property C12.  Every state the broker can reach, by any sequence of operations at any times, is
  well formed: the four maps of a message agree, every delivery has its subscription and its message,
  a lease has a token that no other delivery has, and the backlog is within its limits.
\<close>

theorem broker_reachable_ok:
  assumes "(broker_step len)\<^sup>*\<^sup>* ({}, empty_memory) (U, s)"
  shows "broker_ok len s"
  using broker_steps_ok[OF assms broker_ok_empty drawn_ok_empty] by blast

theorem broker_reachable_ok_witness: "broker_ok data_len (sample_broker 4)"
  by (rule broker_reachable_ok[OF sample_run_4])

text \<open>
  Property C13.  A claim on a subscription of a well-formed broker always succeeds, with at most the
  requested number of messages, whose sizes add up to at most the requested bytes unless it is a single
  message, and every returned message is stored and leased under the token it is returned with.
\<close>

theorem claim_bounded:
  assumes "broker_ok len s" "get_subscription_value sub s = Inr c" "0 \<le> max_bytes" "max_bytes < i64_max"
    and "inj_on fresh {..<max_count}" "\<And>j. j < max_count \<Longrightarrow> \<not> ack_in_use s (fresh j)"
  shows "\<exists>out s'. claim fresh now sub max_count max_bytes deadline s = (Inr out, s') \<and>
    length out \<le> max_count \<and> (sum_list (map size_bytes out) \<le> max_bytes \<or> length out = 1) \<and>
    list_all (held len sub s') out"
  using claim_spec[where now = now and deadline = deadline, OF assms(1,2,4,5,6)] assms(3)
  by (metis claim_fits_def list.simps(8) sum_list.Nil)

theorem claim_bounded_witness:
  "\<exists>out s'. claim (sample_fresh ''k'') 0 sample_sub 1 100 None (sample_broker 3) = (Inr out, s') \<and>
    length out \<le> 1 \<and> (sum_list (map size_bytes out) \<le> 100 \<or> length out = 1) \<and>
    list_all (held data_len sample_sub s') out"
  by (rule claim_bounded[OF sample_ready(1,2) _ _ sample_ready(3,4)]) (simp_all add: i64_max_def)

text \<open>
  Property C14.  No message can stall a subscription: whenever one of its deliveries is available, or its
  lease has run out, and the message has not expired, a claim for at least one message returns some
  message, whatever the byte limit.
\<close>

theorem claim_progress:
  assumes "broker_ok len s" "get_subscription_value sub s = Inr c" "max_bytes < i64_max"
    and "inj_on fresh {..<max_count}" "\<And>j. j < max_count \<Longrightarrow> \<not> ack_in_use s (fresh j)"
    and "0 < max_count" "deliverable now sub s"
  shows "\<exists>b bs s'. claim fresh now sub max_count max_bytes deadline s = (Inr (b # bs), s')"
  using claim_spec[where now = now and deadline = deadline, OF assms(1-5)] assms(6,7)
  by (metis list.exhaust)

theorem claim_progress_witness:
  "\<exists>b bs s'. claim (sample_fresh ''k'') 0 sample_sub 1 0 None (sample_broker 3) = (Inr (b # bs), s')"
  by (rule claim_progress[OF sample_ready(1,2) _ sample_ready(3,4) _ sample_ready(5)]) (simp_all add: i64_max_def)

text \<open>
  Property C15.  An acknowledgement is final: once it has been accepted for the token a delivery is leased
  under, that message is never again delivered to that subscription, whatever happens later.
\<close>

theorem acknowledged_for_good:
  assumes "(broker_step len)\<^sup>*\<^sup>* ({}, empty_memory) (U, s)"
    and "sm_get (deliveries s) (sub, i) = Some d" "ack_id d = Some a" "a \<in> set acks"
    and "acknowledge_ids sub acks s = (Inr (), s1)"
    and "(broker_step len)\<^sup>*\<^sup>* (U, s1) (U', s2)"
  shows "sm_get (deliveries s2) (sub, i) = None"
proof -
  have ok: "broker_ok len s" "drawn_ok U s"
    using broker_steps_ok[OF assms(1) broker_ok_empty drawn_ok_empty] by blast+
  have s1: "s1 = broker_apply len (\<lambda>_. []) (0, 0) 0 (Acknowledge sub acks) s" using assms(5) by simp
  have step: "broker_step len (U, s) (U, s1)"
    using broker_step.op[of "\<lambda>_. []" "Acknowledge sub acks" U len s "(0, 0)" 0] s1 by simp
  have ok1: "broker_ok len s1" "drawn_ok U s1" using broker_step_ok[OF step ok] by blast+
  have "delivery_sub d = sub" "i \<in> U" using deliveryD(1,3)[OF ok(1) assms(2)] ok(2) by (auto simp: drawn_ok_def)
  moreover have "sm_get (deliveries s1) (sub, i) = None"
    using assms(2-5) \<open>delivery_sub d = sub\<close> broker_mapsD(7)[OF broker_okD(1)[OF ok(1)]]
    by (auto simp: acknowledge_ids_def holds_ack_def split: sum.splits)
  ultimately show ?thesis
    using broker_steps_ok[OF assms(6) ok1] by (auto simp: sm_has_def)
qed

theorem acknowledged_for_good_witness:
  "sm_get (deliveries (snd (acknowledge_ids sample_sub [''k0''] (sample_broker 4)))) (sample_sub, ''m0'') = None"
proof (rule acknowledged_for_good[OF sample_run_4, where acks = "[''k0'']" and a = "''k0''"])
  show "acknowledge_ids sample_sub [''k0''] (sample_broker 4) =
      (Inr (), snd (acknowledge_ids sample_sub [''k0''] (sample_broker 4)))"
    by (simp add: acknowledge_ids_def get_subscription_value_def sample_claimed sample_published sample_created)
qed (rule rtranclp.rtrancl_refl | simp add: sample_claimed)+

end
