(* ===== verification/PubSub_Stream.thy ===== *)
theory PubSub_Stream
  imports PubSub_Runs
begin

text \<open>
  The calls of the Publisher and Subscriber services of \<open>src/src/pubsub.rs\<close> that do more than
  delegate: the paginated listings, one attempt of a pull, and the loop of a streaming pull with
  its flow control.  A turn of the stream runs against whatever the broker holds at that moment;
  the stream itself only keeps the tokens it has handed out and their sizes.
\<close>

subsection \<open>Listings and pull\<close>

definition list_topics ::
  "(string \<Rightarrow> string) \<Rightarrow> (string \<Rightarrow> string option) \<Rightarrow> string \<Rightarrow> int \<Rightarrow> string \<Rightarrow> memory_state \<Rightarrow>
   (topic list \<times> string) res" where
  "list_topics enc dec project page_size token s =
     rbind (list_topic_values project s) (\<lambda>ts. paginate enc dec ts page_size token topic_name)"

definition list_topic_subscriptions ::
  "(string \<Rightarrow> string) \<Rightarrow> (string \<Rightarrow> string option) \<Rightarrow> string \<Rightarrow> int \<Rightarrow> string \<Rightarrow> memory_state \<Rightarrow>
   (string list \<times> string) res" where
  "list_topic_subscriptions enc dec topic page_size token s =
     rbind (topic_subscription_names topic s) (\<lambda>ns. paginate enc dec ns page_size token (\<lambda>n. n))"

definition list_subscriptions ::
  "(string \<Rightarrow> string) \<Rightarrow> (string \<Rightarrow> string option) \<Rightarrow> string \<Rightarrow> int \<Rightarrow> string \<Rightarrow> memory_state \<Rightarrow>
   (subscription list \<times> string) res" where
  "list_subscriptions enc dec project page_size token s =
     rbind (list_subscription_values project s) (\<lambda>subs. paginate enc dec subs page_size token sub_name)"

text \<open>
  One attempt of a pull: an answer, or \<open>None\<close> when the call waits for a publication and tries again;
  \<open>over\<close> tells that its two seconds are over.
\<close>

definition pull_attempt ::
  "(nat \<Rightarrow> string) \<Rightarrow> int \<Rightarrow> bool \<Rightarrow> string \<Rightarrow> int \<Rightarrow> bool \<Rightarrow> memory_state \<Rightarrow>
   broker_message list res option \<times> memory_state" where
  "pull_attempt fresh now over subscription max_messages return_immediately s =
     (if max_messages \<le> 0 then (Some (Inl (invalid_argument ''max_messages must be positive'')), s)
      else (case claim fresh now subscription (nat (min max_messages 1000))
                   (int max_delivery_message_bytes) None s of
              (Inl e, s') \<Rightarrow> (Some (Inl e), s')
            | (Inr ms, s') \<Rightarrow>
                (if ms \<noteq> [] \<or> return_immediately \<or> over then Some (Inr ms) else None, s')))"

subsection \<open>Streaming pull\<close>

record stream_request =
  sr_subscription :: string
  sr_ack_ids :: "string list"
  sr_modify_ids :: "string list"
  sr_modify_seconds :: "int list"
  sr_deadline :: int
  sr_max_messages :: int
  sr_max_bytes :: int

record stream_config =
  sc_subscription :: string
  sc_max_messages :: nat
  sc_max_bytes :: int
  sc_deadline :: int

definition stream_open :: "stream_request \<Rightarrow> memory_state \<Rightarrow> stream_config res" where
  "stream_open r s =
     rbind (guard (sr_subscription r \<noteq> [])
              (invalid_argument ''first StreamingPull request requires subscription'')) (\<lambda>_.
     rbind (get_subscription_value (sr_subscription r) s) (\<lambda>_.
     rbind (guard (10 \<le> sr_deadline r \<and> sr_deadline r \<le> 600)
              (invalid_argument ''stream_ack_deadline_seconds must be between 10 and 600'')) (\<lambda>_.
     Inr \<lparr>sc_subscription = sr_subscription r,
          sc_max_messages = (if sr_max_messages r \<le> 0 then 1000 else nat (min (sr_max_messages r) 10000)),
          sc_max_bytes = (if sr_max_bytes r \<le> 0 then max_pending_bytes else min (sr_max_bytes r) max_pending_bytes),
          sc_deadline = sr_deadline r\<rparr>)))"

text \<open>The tokens handed out and not yet settled, with the size of their messages.\<close>

type_synonym outstanding = "(string, int) smap"

fun modify_all ::
  "int \<Rightarrow> string \<Rightarrow> (string \<times> int) list \<Rightarrow> outstanding \<Rightarrow> memory_state \<Rightarrow>
   status option \<times> outstanding \<times> memory_state" where
  "modify_all now sub [] out s = (None, out, s)"
| "modify_all now sub ((ack, seconds) # rest) out s =
     (case modify_ack_ids now sub [ack] seconds s of
        (Inl e, s') \<Rightarrow> (Some e, out, s')
      | (Inr _, s') \<Rightarrow> modify_all now sub rest (if seconds = 0 then sm_del ack out else out) s')"

definition stream_request_step ::
  "int \<Rightarrow> stream_config \<Rightarrow> bool \<Rightarrow> stream_request \<Rightarrow> outstanding \<Rightarrow> memory_state \<Rightarrow>
   status option \<times> outstanding \<times> memory_state" where
  "stream_request_step now c first r out s =
     (if \<not> first \<and> (sr_subscription r \<noteq> [] \<or> sr_max_messages r \<noteq> 0 \<or> sr_max_bytes r \<noteq> 0)
      then (Some (invalid_argument ''subscription and flow-control limits are only valid on the first stream request''), out, s)
      else if length (sr_modify_ids r) \<noteq> length (sr_modify_seconds r)
      then (Some (invalid_argument ''modify deadline ID and seconds lengths differ''), out, s)
      else
        let (failure, s1) =
              (if sr_ack_ids r = [] then (None, s)
               else (case acknowledge_ids (sc_subscription c) (sr_ack_ids r) s of
                       (Inl e, s') \<Rightarrow> (Some e, s') | (Inr _, s') \<Rightarrow> (None, s')))
        in case failure of
             Some e \<Rightarrow> (Some e, out, s1)
           | None \<Rightarrow> modify_all now (sc_subscription c) (zip (sr_modify_ids r) (sr_modify_seconds r))
                       (fold sm_del (sr_ack_ids r) out) s1)"

text \<open>What a turn of the loop receives: a request, the end or a failure of the stream, or nothing.\<close>

datatype incoming = Request stream_request | Ended | Broken status | Quiet

record stream_turn =
  turn_sent :: "broker_message list res list"
  turn_outstanding :: outstanding
  turn_alive :: bool
  turn_state :: memory_state

definition stop_turn :: "broker_message list res list \<Rightarrow> outstanding \<Rightarrow> memory_state \<Rightarrow> stream_turn" where
  "stop_turn sent out s = \<lparr>turn_sent = sent, turn_outstanding = out, turn_alive = False, turn_state = s\<rparr>"

definition used_bytes :: "outstanding \<Rightarrow> int" where
  "used_bytes out = sum_list (sm_values out)"

definition stream_claim ::
  "(nat \<Rightarrow> string) \<Rightarrow> int \<Rightarrow> bool \<Rightarrow> stream_config \<Rightarrow> outstanding \<Rightarrow> memory_state \<Rightarrow> stream_turn" where
  "stream_claim fresh now receiver_open c out s =
     (if length out < sc_max_messages c \<and> used_bytes out < sc_max_bytes c
      then (case claim fresh now (sc_subscription c)
                   (min (sc_max_messages c - length out) 100)
                   (min (max (sc_max_bytes c - used_bytes out) 0) (int max_delivery_message_bytes))
                   (Some (sc_deadline c)) s of
              (Inl e, s') \<Rightarrow> stop_turn [Inl e] out s'
            | (Inr [], s') \<Rightarrow> \<lparr>turn_sent = [], turn_outstanding = out, turn_alive = True, turn_state = s'\<rparr>
            | (Inr ms, s') \<Rightarrow>
                let out' = fold (\<lambda>b. sm_put (broker_ack_id b) (size_bytes b)) ms out in
                if receiver_open
                then \<lparr>turn_sent = [Inr ms], turn_outstanding = out', turn_alive = True, turn_state = s'\<rparr>
                else stop_turn [] out' s')
      else \<lparr>turn_sent = [], turn_outstanding = out, turn_alive = True, turn_state = s\<rparr>)"

definition stream_turn_step ::
  "(nat \<Rightarrow> string) \<Rightarrow> int \<Rightarrow> bool \<Rightarrow> stream_config \<Rightarrow> bool \<Rightarrow> incoming \<Rightarrow> outstanding \<Rightarrow> memory_state \<Rightarrow> stream_turn" where
  "stream_turn_step fresh now receiver_open c first i out s =
     (let proceed = (\<lambda>out s.
        case active_ack_ids now (sc_subscription c) (sm_keys out) s of
          Inl e \<Rightarrow> stop_turn [Inl e] out s
        | Inr active \<Rightarrow> stream_claim fresh now receiver_open c (sm_retain (\<lambda>a _. a \<in> set active) out) s)
      in case i of
           Ended \<Rightarrow> stop_turn [] out s
         | Broken e \<Rightarrow> stop_turn [Inl e] out s
         | Quiet \<Rightarrow> proceed out s
         | Request r \<Rightarrow>
             (case stream_request_step now c first r out s of
                (Some e, out', s') \<Rightarrow> stop_turn [Inl e] out' s'
              | (None, out', s') \<Rightarrow> proceed out' s'))"

text \<open>When the loop is left, the tokens still outstanding are given back.\<close>

definition stream_close :: "int \<Rightarrow> stream_config \<Rightarrow> outstanding \<Rightarrow> memory_state \<Rightarrow> memory_state" where
  "stream_close now c out s = release_ids now (sc_subscription c) (sm_keys out) s"

subsection \<open>Flow control\<close>

definition flow_ok :: "stream_config \<Rightarrow> outstanding \<Rightarrow> bool" where
  "flow_ok c out = (sm_wf out \<and> length out \<le> sc_max_messages c \<and>
     used_bytes out < sc_max_bytes c + int max_delivery_message_bytes \<and>
     list_all (\<lambda>n. 0 \<le> n) (sm_values out))"

lemma used_bytes_filter_le:
  "list_all (\<lambda>n. 0 \<le> n) (sm_values out) \<Longrightarrow> used_bytes (filter P out) \<le> used_bytes out"
  by (induction out) (auto simp: used_bytes_def sm_values_def)

lemma flow_ok_filter:
  assumes "flow_ok c out" shows "flow_ok c (filter P out)"
proof -
  have "list_all (\<lambda>n. 0 \<le> n) (sm_values (filter P out))"
    using assms by (auto simp: flow_ok_def sm_values_def list_all_iff)
  moreover have "length (filter P out) \<le> length out" by simp
  ultimately show ?thesis
    using assms used_bytes_filter_le[of out P] unfolding flow_ok_def
    by (meson le_trans order_le_less_trans sm_wf_filter)
qed

lemma flow_ok_del: "flow_ok c out \<Longrightarrow> flow_ok c (sm_del a out)"
  by (simp add: sm_del_def flow_ok_filter)

lemma flow_ok_dels: "flow_ok c out \<Longrightarrow> flow_ok c (fold sm_del as out)"
  by (induction "as" arbitrary: out) (auto simp: flow_ok_del)

lemma flow_ok_retain: "flow_ok c out \<Longrightarrow> flow_ok c (sm_retain P out)"
  by (simp add: sm_retain_def flow_ok_filter)

lemma used_bytes_put: "list_all (\<lambda>n. 0 \<le> n) (sm_values out) \<Longrightarrow> used_bytes (sm_put a n out) \<le> used_bytes out + n"
  by (induction a n out rule: sm_put.induct) (auto simp: used_bytes_def sm_values_def)

lemma nonneg_put:
  "list_all (\<lambda>n. 0 \<le> n) (sm_values out) \<Longrightarrow> 0 \<le> (n :: int) \<Longrightarrow> list_all (\<lambda>n. 0 \<le> n) (sm_values (sm_put a n out))"
  by (induction a n out rule: sm_put.induct) (auto simp: sm_values_def)

lemma hand_out:
  fixes out :: outstanding
  assumes "sm_wf out" "list_all (\<lambda>n. 0 \<le> n) (sm_values out)" "list_all (\<lambda>b. 0 \<le> size_bytes b) ms"
  defines "out' \<equiv> fold (\<lambda>b. sm_put (broker_ack_id b) (size_bytes b)) ms out"
  shows "sm_wf out' \<and> length out' \<le> length out + length ms \<and> list_all (\<lambda>n. 0 \<le> n) (sm_values out') \<and>
    used_bytes out' \<le> used_bytes out + sum_list (map size_bytes ms)"
  unfolding out'_def using assms(1-3)
proof (induction ms arbitrary: out)
  case (Cons b ms)
  have "length (sm_put (broker_ack_id b) (size_bytes b) out) \<le> Suc (length out)" by (rule length_put)
  then show ?case
    using Cons.IH[of "sm_put (broker_ack_id b) (size_bytes b) out"] Cons.prems
      used_bytes_put[of out "broker_ack_id b" "size_bytes b"] nonneg_put[of out "size_bytes b" "broker_ack_id b"]
    by simp
qed simp

lemma held_size:
  assumes "broker_ok len s" "held len sub s b"
  shows "0 \<le> size_bytes b" "size_bytes b \<le> int max_delivery_message_bytes"
  using assms broker_okD(3)[OF assms(1)] by (auto simp: held_def broker_stored_def)

lemma claim_result:
  assumes "broker_ok len s" "get_subscription_value sub s = Inr c" "max_bytes < i64_max"
    and "inj_on fresh {..<max_count}" "\<And>j. j < max_count \<Longrightarrow> \<not> ack_in_use s (fresh j)"
  shows "\<exists>out s'. claim fresh now sub max_count max_bytes deadline s = (Inr out, s') \<and> broker_ok len s' \<and>
    length out \<le> max_count \<and> claim_fits max_bytes out \<and> list_all (held len sub s') out"
  by (rule claim_spec[where now = now and deadline = deadline, OF assms]) blast+

lemma stream_claim_flow:
  assumes flow: "flow_ok c out" and ok: "broker_ok len s" and c: "sc_max_bytes c \<le> max_pending_bytes"
    and inj: "inj_on fresh {..<100}" and free: "\<And>j. j < 100 \<Longrightarrow> \<not> ack_in_use s (fresh j)"
  shows "flow_ok c (turn_outstanding (stream_claim fresh now receiver_open c out s))"
proof -
  let ?n = "min (sc_max_messages c - length out) 100"
  let ?b = "min (max (sc_max_bytes c - used_bytes out) 0) (int max_delivery_message_bytes)"
  show ?thesis
  proof (cases "length out < sc_max_messages c \<and> used_bytes out < sc_max_bytes c")
    case False
    then show ?thesis using flow unfolding stream_claim_def if_not_P[OF False] by simp
  next
    case room: True
    show ?thesis
    proof (cases "get_subscription_value (sc_subscription c) s")
      case (Inl e)
      then show ?thesis using flow room by (simp add: stream_claim_def claim_def stop_turn_def)
    next
      case (Inr sub)
      have "?b < i64_max" using c limits_i64 by (simp add: max_delivery_message_bytes_def max_message_bytes_def i64_max_def)
      moreover have "inj_on fresh {..<?n}" using inj by (rule inj_on_subset) auto
      moreover have "\<not> ack_in_use s (fresh j)" if "j < ?n" for j using free that by simp
      ultimately obtain ms s' where ms:
        "claim fresh now (sc_subscription c) ?n ?b (Some (sc_deadline c)) s = (Inr ms, s')"
        "broker_ok len s'" "length ms \<le> ?n" "claim_fits ?b ms" "list_all (held len (sc_subscription c) s') ms"
        using claim_result[OF ok Inr] by blast
      have sizes: "list_all (\<lambda>b. 0 \<le> size_bytes b) ms" "list_all (\<lambda>b. size_bytes b \<le> int max_delivery_message_bytes) ms"
        using ms(5) held_size[OF ms(2)] by (auto simp: list_all_iff)
      let ?out = "fold (\<lambda>b. sm_put (broker_ack_id b) (size_bytes b)) ms out"
      have "sum_list (map size_bytes ms) \<le> int max_delivery_message_bytes"
        using ms(4) sizes(2) room
        by (auto simp: claim_fits_def length_Suc_conv)
      then have "flow_ok c ?out"
        using hand_out[of out ms] flow sizes(1) ms(3) room by (auto simp: flow_ok_def)
      then show ?thesis
        using room ms(1) flow by (auto simp: stream_claim_def Let_def stop_turn_def split: list.splits)
    qed
  qed
qed

lemma modify_all_spec:
  assumes "broker_ok len s" "flow_ok c out" "modify_all now sub ps out s = (e, out', s')"
  shows "broker_ok len s' \<and> flow_ok c out' \<and> grows_within {} s s'"
  using assms
proof (induction ps arbitrary: out s)
  case (Cons p ps)
  obtain ack seconds where p: "p = (ack, seconds)" by (cases p)
  have g: "grows_within {} s (snd (modify_ack_ids now sub [ack] seconds s))"
    using grows_apply[OF Cons.prems(1), of "\<lambda>_. []" "ModifyAck sub [ack] seconds" "(0, 0)" now] by simp
  have ok: "broker_ok len (snd (modify_ack_ids now sub [ack] seconds s))" using modify_ack_ok Cons.prems(1) by blast
  obtain r t where rt: "modify_ack_ids now sub [ack] seconds s = (r, t)" by (cases "modify_ack_ids now sub [ack] seconds s")
  show ?case
  proof (cases r)
    case (Inl x)
    then show ?thesis using Cons.prems p g ok rt by auto
  next
    case (Inr u)
    have "broker_ok len s' \<and> flow_ok c out' \<and> grows_within {} t s'"
      using Cons.prems p rt Inr ok by (intro Cons.IH) (auto intro: flow_ok_del)
    then show ?thesis using grows_trans g rt by fastforce
  qed
qed simp

lemma stream_request_step_spec:
  assumes ok: "broker_ok len s" and flow: "flow_ok c out"
    and step: "stream_request_step now c first r out s = (e, out', s')"
  shows "broker_ok len s' \<and> flow_ok c out' \<and> grows_within {} s s'"
proof -
  let ?ack = "acknowledge_ids (sc_subscription c) (sr_ack_ids r) s"
  have g: "grows_within {} s (snd ?ack)"
    using grows_apply[OF ok, of "\<lambda>_. []" "Acknowledge (sc_subscription c) (sr_ack_ids r)" "(0, 0)" 0] by simp
  have oka: "broker_ok len (snd ?ack)" using ok by (rule acknowledge_ok)
  have flowa: "flow_ok c (fold sm_del (sr_ack_ids r) out)" using flow by (rule flow_ok_dels)
  note m = modify_all_spec[OF _ flowa, of len _ now "sc_subscription c" "zip (sr_modify_ids r) (sr_modify_seconds r)" e out' s']
  show ?thesis
    using step ok flow g oka m[OF ok] m[OF oka]
    by (cases ?ack; cases "fst ?ack"; cases "sr_ack_ids r = []")
      (auto simp: stream_request_step_def Let_def split: if_splits intro: grows_trans)
qed

lemma stream_turn_flow:
  assumes flow: "flow_ok c out" and ok: "broker_ok len s" and c: "sc_max_bytes c \<le> max_pending_bytes"
    and inj: "inj_on fresh {..<100}" and free: "\<And>j. j < 100 \<Longrightarrow> \<not> ack_in_use s (fresh j)"
  shows "flow_ok c (turn_outstanding (stream_turn_step fresh now receiver_open c first i out s))"
proof -
  have proceed: "flow_ok c (turn_outstanding (case active_ack_ids now (sc_subscription c) (sm_keys out') s' of
          Inl e \<Rightarrow> stop_turn [Inl e] out' s'
        | Inr active \<Rightarrow> stream_claim fresh now receiver_open c (sm_retain (\<lambda>a _. a \<in> set active) out') s'))"
    if "broker_ok len s'" "flow_ok c out'" "grows_within {} s s'" for s' out'
  proof -
    have "\<not> ack_in_use s' (fresh j)" if "j < 100" for j
      using free[OF that] \<open>grows_within {} s s'\<close> by (auto simp: grows_within_def)
    then show ?thesis
      using stream_claim_flow[OF flow_ok_retain that(1) c inj] that(2)
      by (auto simp: stop_turn_def split: sum.splits)
  qed
  show ?thesis
  proof (cases i)
    case (Request r)
    obtain e out' s' where r: "stream_request_step now c first r out s = (e, out', s')"
      by (cases "stream_request_step now c first r out s") auto
    show ?thesis
      using stream_request_step_spec[OF ok flow r] proceed[of s' out'] Request r
      by (cases e) (auto simp: stream_turn_step_def stop_turn_def)
  qed (use flow proceed[OF ok flow] in \<open>auto simp: stream_turn_step_def stop_turn_def\<close>)
qed

text \<open>
  The outstanding tokens a stream can reach, whatever the other clients do to the broker between its
  turns.
\<close>

inductive stream_run :: "(pubsub_message \<Rightarrow> nat) \<Rightarrow> stream_config \<Rightarrow> outstanding \<Rightarrow> bool" for len c where
  start: "stream_run len c []"
| turn: "stream_run len c out \<Longrightarrow> broker_ok len s \<Longrightarrow> inj_on fresh {..<100} \<Longrightarrow>
    (\<And>j. j < 100 \<Longrightarrow> \<not> ack_in_use s (fresh j)) \<Longrightarrow>
    stream_run len c (turn_outstanding (stream_turn_step fresh now receiver_open c first i out s))"

lemma stream_open_limits:
  assumes "stream_open r s = Inr c"
  shows "0 < sc_max_messages c" "sc_max_messages c \<le> 10000" "0 < sc_max_bytes c" "sc_max_bytes c \<le> max_pending_bytes"
  using assms by (auto simp: stream_open_def rbind_Inr_iff max_pending_bytes_def min_def)


definition sample_request :: stream_request where
  "sample_request = \<lparr>sr_subscription = sample_sub, sr_ack_ids = [], sr_modify_ids = [], sr_modify_seconds = [],
     sr_deadline = 10, sr_max_messages = 5, sr_max_bytes = 100\<rparr>"

definition sample_config :: stream_config where
  "sample_config = \<lparr>sc_subscription = sample_sub, sc_max_messages = 5, sc_max_bytes = 100, sc_deadline = 10\<rparr>"

lemma inj_sample_fresh: "inj_on (sample_fresh p) A"
  by (simp add: inj_on_def sample_fresh_def)


end
