(* ===== verification/Civil_Date.thy ===== *)
theory Civil_Date
  imports Strings "HOL-Library.Signed_Division"
begin

text \<open>
  The conversion of Unix times to calendar dates, of which \<open>src/src/storage.rs\<close>,
  \<open>src/src/functions.rs\<close> and \<open>src/src/pubsub.rs\<close> hold a copy each.  Rust's division of
  integers is \<open>sdiv\<close>.  The reference is the Gregorian calendar, advanced one day at a time.
\<close>

subsection \<open>The code\<close>

definition date_of_era :: "int \<Rightarrow> int \<Rightarrow> int \<times> int \<times> int" where
  "date_of_era era doe =
     (let yoe = (doe - doe sdiv 1460 + doe sdiv 36524 - doe sdiv 146096) sdiv 365;
          year = yoe + era * 400;
          doy = doe - (365 * yoe + yoe sdiv 4 - yoe sdiv 100);
          mp = (5 * doy + 2) sdiv 153;
          day = doy - (153 * mp + 2) sdiv 5 + 1;
          month = mp + (if mp < 10 then 3 else - 9)
      in (year + (if month \<le> 2 then 1 else 0), month, day))"

definition civil_from_days :: "int \<Rightarrow> int \<times> int \<times> int" where
  "civil_from_days days =
     (let z = days + 719468;
          era = (if z \<ge> 0 then z else z - 146096) sdiv 146097
      in date_of_era era (z - era * 146097))"

text \<open>\<open>{n:04}\<close> and \<open>{n:02}\<close>: the sign counts for the width.\<close>

definition pad_int :: "nat \<Rightarrow> int \<Rightarrow> string" where
  "pad_int w n = (if n < 0 then CHR ''-'' # pad_nat (w - 1) (nat (- n)) else pad_nat w (nat n))"

definition format_date_time :: "int \<times> int \<times> int \<Rightarrow> int \<Rightarrow> string" where
  "format_date_time date day_seconds =
     (case date of (year, month, day) \<Rightarrow>
        pad_int 4 year @ ''-'' @ pad_int 2 month @ ''-'' @ pad_int 2 day @ ''T'' @
        pad_int 2 (day_seconds div 3600) @ '':'' @ pad_int 2 (day_seconds mod 3600 div 60) @ '':'' @
        pad_int 2 (day_seconds mod 60))"

definition timestamp_from_unix :: "int \<Rightarrow> string" where
  "timestamp_from_unix seconds =
     format_date_time (civil_from_days (seconds div 86400)) (seconds mod 86400) @ ''.000Z''"

definition chrono_timestamp :: "int \<Rightarrow> string" where
  "chrono_timestamp seconds =
     format_date_time (civil_from_days (seconds div 86400)) (seconds mod 86400) @ ''.000Z''"

definition timestamp_rfc3339 :: "int \<times> int \<Rightarrow> string" where
  "timestamp_rfc3339 t =
     (let seconds = max (fst t) 0 in
      format_date_time (civil_from_days (seconds div 86400)) (seconds mod 86400) @ ''.'' @
      pad_int 3 (max (snd t) 0 div 1000000) @ ''Z'')"

subsection \<open>The calendar\<close>

definition leap_year :: "int \<Rightarrow> bool" where
  "leap_year y = (y mod 4 = 0 \<and> (y mod 100 \<noteq> 0 \<or> y mod 400 = 0))"

definition month_length :: "int \<Rightarrow> int \<Rightarrow> int" where
  "month_length y m =
     (if m = 2 then (if leap_year y then 29 else 28)
      else if m = 4 \<or> m = 6 \<or> m = 9 \<or> m = 11 then 30 else 31)"

definition next_date :: "int \<times> int \<times> int \<Rightarrow> int \<times> int \<times> int" where
  "next_date d = (case d of (year, month, day) \<Rightarrow>
     if day < month_length year month then (year, month, day + 1)
     else if month < 12 then (year, month + 1, 1) else (year + 1, 1, 1))"

subsection \<open>Years of an era\<close>

lemma sdiv_div: "0 \<le> a \<Longrightarrow> 0 < b \<Longrightarrow> (a :: int) sdiv b = a div b"
  by (simp add: signed_divide_int_def sgn_if zero_less_mult_iff)

definition year_start :: "int \<Rightarrow> int" where
  "year_start k = 365 * k + k div 4 - k div 100"

definition era_index :: "int \<Rightarrow> int" where
  "era_index doe = doe - doe div 1460 + doe div 36524 - doe div 146096"

definition year_ok :: "int \<Rightarrow> bool" where
  "year_ok k = (365 * k \<le> era_index (year_start k) \<and>
     era_index (if k = 399 then 146096 else year_start (k + 1) - 1) \<le> 365 * k + 364)"

lemma years_ok: "list_all year_ok [0..399]"
  by code_simp

definition month_ok :: "int \<Rightarrow> bool" where
  "month_ok doy =
     (let mp = (5 * doy + 2) div 153; day = doy - (153 * mp + 2) div 5 + 1;
          mp' = (5 * (doy + 1) + 2) div 153; day' = doy + 1 - (153 * mp' + 2) div 5 + 1 in
      0 \<le> mp \<and> mp \<le> 11 \<and> 0 < day \<and>
      (let len = (if mp = 11 then 29 else if mp \<in> {1, 3, 6, 8} then 30 else 31) in
       if day < len then mp' = mp \<and> day' = day + 1 else mp < 11 \<and> day = len \<and> mp' = mp + 1 \<and> day' = 1))"

lemma months_ok: "list_all month_ok [0..364]"
  by code_simp

lemma era_index_step:
  assumes "0 \<le> d" "d < 146096" shows "era_index d \<le> era_index (d + 1)"
proof (cases "d = 146095")
  case True
  have "era_index 146095 \<le> era_index 146096" by code_simp
  then show ?thesis by (simp add: True)
next
  case False
  then have "(d + 1) div 146096 = 0" "d div 146096 = 0"
    using assms by (auto intro!: div_pos_pos_trivial)
  moreover have "(d + 1) div 1460 \<le> d div 1460 + 1" by linarith
  moreover have "d div 36524 \<le> (d + 1) div 36524" by (rule zdiv_mono1) simp_all
  ultimately show ?thesis unfolding era_index_def by linarith
qed

lemma era_index_mono:
  assumes "0 \<le> i" "i \<le> j" "j \<le> 146096" shows "era_index i \<le> era_index j"
  using assms(2,3)
proof (induction j rule: int_ge_induct)
  case (step j)
  then show ?case using era_index_step[of j] assms(1) by simp
qed simp

definition year_end :: "int \<Rightarrow> int" where
  "year_end k = (if k = 399 then 146096 else year_start (k + 1) - 1)"

lemma div_succ:
  assumes "0 < (n :: int)" shows "(k + 1) div n = k div n + (if n dvd k + 1 then 1 else 0)"
proof -
  have k: "k = n * (k div n) + k mod n" by simp
  have r: "0 \<le> k mod n" "k mod n < n" using assms by simp_all
  show ?thesis
  proof (cases "k mod n + 1 = n")
    case True
    have "k + 1 = n * (k div n) + n" using k True by linarith
    then have eq: "k + 1 = n * (k div n + 1) + 0" by (simp add: distrib_left)
    then have "(k + 1) div n = k div n + 1" using assms by (intro int_div_pos_eq) auto
    moreover have "n dvd k + 1" using eq by (metis add.right_neutral dvd_triv_left)
    ultimately show ?thesis by simp
  next
    case False
    then have small: "0 \<le> k mod n + 1" "k mod n + 1 < n" using r by simp_all
    have eq: "k + 1 = n * (k div n) + (k mod n + 1)" using k by simp
    have "(k + 1) div n = k div n" "(k + 1) mod n = k mod n + 1"
      using int_div_pos_eq[OF eq small] int_mod_pos_eq[OF eq small] by simp_all
    then show ?thesis using r by (simp add: dvd_eq_mod_eq_0)
  qed
qed

lemma year_start_step: "year_start (k + 1) = year_start k + 365 + (if 4 dvd k + 1 then 1 else 0) - (if 100 dvd k + 1 then 1 else 0)"
  unfolding year_start_def div_succ[of 4, simplified] div_succ[of 100, simplified] by simp

lemma year_start_nonneg: "0 \<le> k \<Longrightarrow> 0 \<le> year_start k"
  unfolding year_start_def by linarith

lemma year_of_era:
  assumes "0 \<le> k" "k \<le> 399" "year_start k \<le> doe" "doe \<le> year_end k"
  shows "era_index doe div 365 = k"
proof -
  have "year_ok k" using years_ok assms(1,2) by (simp add: list_all_iff)
  then have "365 * k \<le> era_index (year_start k)" "era_index (year_end k) \<le> 365 * k + 364"
    by (simp_all add: year_ok_def year_end_def)
  moreover have "year_end k \<le> 146096"
  proof (cases "k = 399")
    case False
    then have "k + 1 \<le> 399" "0 \<le> (k + 1) div 100" using assms(1,2) by simp_all
    moreover have "(k + 1) div 4 \<le> 399 div 4" using \<open>k + 1 \<le> 399\<close> by (rule zdiv_mono1) simp
    ultimately have "year_start (k + 1) \<le> 146096" unfolding year_start_def by simp
    then show ?thesis using False by (simp add: year_end_def)
  qed (simp add: year_end_def)
  ultimately have "365 * k \<le> era_index doe" "era_index doe \<le> 365 * k + 364"
    using era_index_mono[of "year_start k" doe] era_index_mono[of doe "year_end k"]
      assms year_start_nonneg[of k] by linarith+
  then show ?thesis by linarith
qed

lemma year_exists:
  assumes "0 \<le> doe" "doe \<le> 146096"
  obtains k where "0 \<le> k" "k \<le> 399" "year_start k \<le> doe" "doe \<le> year_end k"
proof -
  let ?K = "{k. 0 \<le> k \<and> k \<le> 399 \<and> year_start k \<le> doe}"
  have fin: "finite ?K" by (rule finite_subset[of _ "{0..399}"]) auto
  have ne: "0 \<in> ?K" using assms(1) by (simp add: year_start_def)
  define k where "k = Max ?K"
  have k: "k \<in> ?K" unfolding k_def using Max_in[OF fin] ne by blast
  have "doe \<le> year_end k"
  proof (rule ccontr)
    assume "\<not> doe \<le> year_end k"
    then have "k \<noteq> 399 \<and> year_start (k + 1) \<le> doe" using assms(2) by (auto simp: year_end_def split: if_splits)
    then have "k + 1 \<in> ?K" using k by auto
    then have "k + 1 \<le> k" unfolding k_def by (rule Max_ge[OF fin])
    then show False by simp
  qed
  then show ?thesis using that k by blast
qed

text \<open>The date of a day in a given year of its era, counted from March.\<close>

definition date_in_year :: "int \<Rightarrow> int \<Rightarrow> int \<times> int \<times> int" where
  "date_in_year year doy =
     (let mp = (5 * doy + 2) div 153 in
      (if mp < 10 then (year, mp + 3, doy - (153 * mp + 2) div 5 + 1)
       else (year + 1, mp - 9, doy - (153 * mp + 2) div 5 + 1)))"

lemma date_of_era_year:
  assumes "0 \<le> k" "k \<le> 399" "year_start k \<le> doe" "doe \<le> year_end k"
  shows "date_of_era era doe = date_in_year (k + era * 400) (doe - year_start k)"
proof -
  have pos: "0 \<le> doe" using year_start_nonneg assms(1,3) by (meson order_trans)
  let ?doy = "doe - year_start k"
  let ?mp = "(5 * ?doy + 2) div 153"
  have "0 \<le> doe - doe div 1460 + doe div 36524 - doe div 146096" using pos by linarith
  then have yoe: "(doe - doe sdiv 1460 + doe sdiv 36524 - doe sdiv 146096) sdiv 365 = k"
    using year_of_era[OF assms] pos by (simp add: sdiv_div era_index_def)
  have doy: "doe - (365 * k + k sdiv 4 - k sdiv 100) = ?doy"
    using assms(1) by (simp add: sdiv_div year_start_def)
  have "?doy \<le> 365"
  proof (cases "k = 399")
    case True
    then show ?thesis using assms(4) by (simp add: year_end_def year_start_def)
  next
    case False
    then show ?thesis using assms(4) year_start_step[of k] by (auto simp: year_end_def split: if_splits)
  qed
  then have "?mp \<le> 1827 div 153" by (intro zdiv_mono1) simp_all
  then have mp: "0 \<le> ?mp" "?mp \<le> 11" using assms(3) by simp_all
  have mp': "(5 * ?doy + 2) sdiv 153 = ?mp" using assms(3) by (simp add: sdiv_div)
  have day: "(153 * ?mp + 2) sdiv 5 = (153 * ?mp + 2) div 5" using mp by (simp add: sdiv_div)
  show ?thesis
    using mp unfolding date_of_era_def Let_def yoe doy mp' day date_in_year_def by auto
qed

definition month_date :: "int \<Rightarrow> int \<Rightarrow> int \<Rightarrow> int \<times> int \<times> int" where
  "month_date year mp day = (if mp < 10 then (year, mp + 3, day) else (year + 1, mp - 9, day))"

lemma month_length_table:
  assumes "0 \<le> mp"
  shows "month_length y (mp + 3) = (if mp \<in> {1, 3, 6, 8} then 30 else 31)"
proof -
  have "mp + 3 = 4 \<longleftrightarrow> mp = 1" "mp + 3 = 6 \<longleftrightarrow> mp = 3" "mp + 3 = 9 \<longleftrightarrow> mp = 6" "mp + 3 = 11 \<longleftrightarrow> mp = 8" "mp + 3 \<noteq> 2"
    using assms by linarith+
  then show ?thesis by (simp add: month_length_def)
qed

lemma month_date_step:
  assumes "0 \<le> mp" "mp \<le> 11" "mp = 11 \<longrightarrow> day < month_length (year + 1) 2"
    and "if day < (if mp = 11 then 29 else if mp \<in> {1, 3, 6, 8} then 30 else 31)
         then mp' = mp \<and> day' = day + 1
         else mp < 11 \<and> day = (if mp = 11 then 29 else if mp \<in> {1, 3, 6, 8} then 30 else 31) \<and> mp' = mp + 1 \<and> day' = 1"
  shows "month_date year mp' day' = next_date (month_date year mp day)"
proof -
  define len where "len = (if mp = 11 then 29 else if mp \<in> {1, 3, 6, 8} then 30 else 31 :: int)"
  have step: "day < len \<and> mp' = mp \<and> day' = day + 1 \<or> \<not> day < len \<and> mp < 11 \<and> mp' = mp + 1 \<and> day' = 1"
    using assms(4) unfolding len_def[symmetric] by (simp split: if_splits)
  consider "mp < 9" | "mp = 9" | "mp = 10" | "mp = 11" using assms(2) by linarith
  then show ?thesis
  proof cases
    case 1
    then have "month_length year (mp + 3) = len" using month_length_table[OF assms(1)] by (simp add: len_def)
    then show ?thesis using 1 step by (auto simp: month_date_def next_date_def)
  next
    case 2
    then have "len = 31" "month_length year 12 = 31" by (simp_all add: len_def month_length_def)
    then show ?thesis using 2 step by (auto simp: month_date_def next_date_def)
  next
    case 3
    then have "len = 31" "month_length (year + 1) 1 = 31" by (simp_all add: len_def month_length_def)
    then show ?thesis using 3 step by (auto simp: month_date_def next_date_def)
  next
    case 4
    then show ?thesis using step assms(3) by (auto simp: month_date_def next_date_def)
  qed
qed

lemma date_in_year_month:
  "date_in_year year doy = month_date year ((5 * doy + 2) div 153) (doy - (153 * ((5 * doy + 2) div 153) + 2) div 5 + 1)"
  by (simp add: date_in_year_def month_date_def Let_def)

lemma date_in_year_step:
  assumes "0 \<le> doy" "doy \<le> 364" "doy = 364 \<longrightarrow> leap_year (year + 1)"
  shows "date_in_year year (doy + 1) = next_date (date_in_year year doy)"
proof -
  have "month_ok doy" using months_ok assms(1,2) by (simp add: list_all_iff)
  note ok = this[unfolded month_ok_def Let_def]
  have "doy - (153 * ((5 * doy + 2) div 153) + 2) div 5 + 1 < month_length (year + 1) 2"
    if mp: "(5 * doy + 2) div 153 = 11"
    unfolding mp using assms(2,3) by (auto simp: month_length_def)
  then show ?thesis
    unfolding date_in_year_month using ok by (intro month_date_step) blast+
qed

lemma year_length:
  assumes "0 \<le> k" "k \<le> 399"
  shows "year_end k = year_start k + (if leap_year (k + 1 + era * 400) then 365 else 364)"
proof (cases "k = 399")
  case True
  have "leap_year (400 * (era + 1))" by (simp add: leap_year_def)
  then show ?thesis using True by (simp add: year_end_def year_start_def algebra_simps)
next
  case False
  have m4: "(k + 1 + era * 400) mod 4 = (k + 1) mod 4"
    using mod_mult_self1[of "k + 1" "era * 100" 4] by (simp add: algebra_simps)
  have m100: "(k + 1 + era * 400) mod 100 = (k + 1) mod 100"
    using mod_mult_self1[of "k + 1" "era * 4" 100] by (simp add: algebra_simps)
  have m400: "(k + 1 + era * 400) mod 400 = k + 1"
    using mod_mult_self1[of "k + 1" era 400] assms False by simp
  have leap: "leap_year (k + 1 + era * 400) \<longleftrightarrow> 4 dvd k + 1 \<and> \<not> 100 dvd k + 1"
    unfolding leap_year_def m4 m100 m400 dvd_eq_mod_eq_0 using assms(1) by linarith
  have "100 dvd k + 1 \<Longrightarrow> 4 dvd k + 1" by (rule dvd_trans[of 4 100]) simp_all
  moreover have "year_end k = year_start k + 364 + (if 4 dvd k + 1 then 1 else 0) - (if 100 dvd k + 1 then 1 else 0)"
    using False unfolding year_end_def year_start_step by simp
  ultimately show ?thesis unfolding leap by (cases "4 dvd k + 1"; cases "100 dvd k + 1") simp_all
qed

lemma date_of_era_step:
  assumes "0 \<le> doe" "doe < 146096"
  shows "date_of_era era (doe + 1) = next_date (date_of_era era doe)"
proof -
  obtain k where k: "0 \<le> k" "k \<le> 399" "year_start k \<le> doe" "doe \<le> year_end k"
    using year_exists[of doe] assms by auto
  let ?year = "k + era * 400" and ?doy = "doe - year_start k"
  note len = year_length[OF k(1,2), of era]
  show ?thesis
  proof (cases "doe = year_end k")
    case False
    have "date_in_year ?year (?doy + 1) = next_date (date_in_year ?year ?doy)"
      by (rule date_in_year_step) (use k False len in \<open>auto simp: ac_simps split: if_splits\<close>)
    then show ?thesis
      using date_of_era_year[OF k(1,2), of "doe + 1" era] date_of_era_year[OF k, of era] k False
      by (simp add: algebra_simps)
  next
    case True
    then have less: "k \<noteq> 399" using assms(2) by (auto simp: year_end_def)
    then have start: "year_start (k + 1) = doe + 1" using True by (simp add: year_end_def)
    have "year_start (k + 1) \<le> year_end (k + 1)" using year_length[of "k + 1" era] k less by (simp split: if_splits)
    then have next_day: "date_of_era era (doe + 1) = date_in_year (?year + 1) 0"
      using date_of_era_year[of "k + 1" "doe + 1" era] k less start by (simp add: algebra_simps)
    have "?doy = (if leap_year (?year + 1) then 365 else 364)" using True len by (simp add: algebra_simps)
    then show ?thesis
      unfolding next_day date_of_era_year[OF k]
      by (simp add: date_in_year_def next_date_def month_length_def)
  qed
qed

lemma date_of_era_wrap: "date_of_era (era + 1) 0 = next_date (date_of_era era 146096)"
proof -
  have "date_of_era (era + 1) 0 = (era * 400 + 400, 3, 1)" "date_of_era era 146096 = (era * 400 + 400, 2, 29)"
    by (simp_all add: date_of_era_def Let_def signed_divide_int_def)
  moreover have "leap_year (era * 400 + 400)" by (simp add: leap_year_def)
  ultimately show ?thesis by (simp add: next_date_def month_length_def)
qed

lemma era_div: "(if z \<ge> 0 then z else z - 146096) sdiv 146097 = z div (146097 :: int)"
proof (cases "z \<ge> 0")
  case False
  have eq: "146096 - z = 146097 * (- (z div 146097)) + (146096 - z mod 146097)"
    using mult_div_mod_eq[of 146097 z] by linarith
  have "(146096 - z) div 146097 = - (z div 146097)"
    by (rule int_div_pos_eq[OF eq]) (simp_all add: pos_mod_bound[of 146097 z, simplified])
  then show ?thesis using False by (simp add: signed_divide_int_def sgn_if)
qed (simp add: sdiv_div)

text \<open>
  Property C23.  The date conversion of the emulator walks the Gregorian calendar: day 0 is 1 January 1970,
  and each next day number is the next calendar day, through month ends, leap years, centuries and eras,
  also before 1970.
\<close>

theorem civil_from_days_calendar:
  "civil_from_days 0 = (1970, 1, 1) \<and> civil_from_days (days + 1) = next_date (civil_from_days days)"
proof
  show "civil_from_days 0 = (1970, 1, 1)"
    by code_simp
  let ?z = "days + 719468"
  have shift: "days + 1 + 719468 = ?z + 1" by simp
  have z: "civil_from_days days = date_of_era (?z div 146097) (?z mod 146097)"
    "civil_from_days (days + 1) = date_of_era ((?z + 1) div 146097) ((?z + 1) mod 146097)"
    unfolding civil_from_days_def Let_def era_div shift minus_div_mult_eq_mod by (rule refl)+
  show "civil_from_days (days + 1) = next_date (civil_from_days days)"
  proof (cases "?z mod 146097 = 146096")
    case True
    have "?z = 146097 * (?z div 146097) + 146096" using mult_div_mod_eq[of 146097 ?z] True by simp
    then have eq: "?z + 1 = 146097 * (?z div 146097 + 1) + 0" unfolding distrib_left by presburger
    have "(?z + 1) div 146097 = ?z div 146097 + 1" "(?z + 1) mod 146097 = 0"
      using int_div_pos_eq[OF eq] int_mod_pos_eq[OF eq] by simp_all
    then show ?thesis using z True date_of_era_wrap by simp
  next
    case False
    have r: "0 \<le> ?z mod 146097" "?z mod 146097 < 146096" using False pos_mod_bound[of 146097 ?z] by simp_all
    have eq: "?z + 1 = 146097 * (?z div 146097) + (?z mod 146097 + 1)" by simp
    have "(?z + 1) div 146097 = ?z div 146097" "(?z + 1) mod 146097 = ?z mod 146097 + 1"
      using int_div_pos_eq[OF eq] int_mod_pos_eq[OF eq] r by simp_all
    then show ?thesis using z date_of_era_step[OF r] by simp
  qed
qed

end
