(* ===== verification/Json.thy ===== *)
theory Json
  imports Smap Strings
begin

text \<open>
  The \<open>Value\<close> of \<open>serde_json\<close> as the program uses it: objects are ordered maps, integers and
  floating-point numbers are distinct, and indexing with a missing key gives null.  The textual
  form is never inspected by the program and is a parameter wherever it occurs.
\<close>

datatype json = JNull | JBool bool | JInt int | JFloat nat | JString string
  | JArray "json list" | JObject "(string \<times> json) list"

definition jget :: "string \<Rightarrow> json \<Rightarrow> json option" where
  "jget k v = (case v of JObject m \<Rightarrow> sm_get m k | _ \<Rightarrow> None)"

definition jindex :: "json \<Rightarrow> string \<Rightarrow> json" where
  "jindex v k = (case jget k v of None \<Rightarrow> JNull | Some x \<Rightarrow> x)"

definition jobject :: "(string \<times> json) list \<Rightarrow> json" where
  "jobject kvs = JObject (sm_of_list kvs)"

definition jset :: "string \<Rightarrow> json \<Rightarrow> json \<Rightarrow> json" where
  "jset k x v = (case v of JObject m \<Rightarrow> JObject (sm_put k x m) | _ \<Rightarrow> v)"

definition jextend :: "json \<Rightarrow> json \<Rightarrow> json" where
  "jextend v w = (case w of JObject m \<Rightarrow> fold (\<lambda>(k, x). jset k x) m v | _ \<Rightarrow> v)"

definition is_object :: "json \<Rightarrow> bool" where
  "is_object v = (case v of JObject _ \<Rightarrow> True | _ \<Rightarrow> False)"

definition as_str :: "json \<Rightarrow> string option" where
  "as_str v = (case v of JString s \<Rightarrow> Some s | _ \<Rightarrow> None)"

definition as_bool :: "json \<Rightarrow> bool option" where
  "as_bool v = (case v of JBool b \<Rightarrow> Some b | _ \<Rightarrow> None)"

definition as_array :: "json \<Rightarrow> json list option" where
  "as_array v = (case v of JArray xs \<Rightarrow> Some xs | _ \<Rightarrow> None)"

definition as_object :: "json \<Rightarrow> (string \<times> json) list option" where
  "as_object v = (case v of JObject m \<Rightarrow> Some m | _ \<Rightarrow> None)"

definition as_i64 :: "json \<Rightarrow> int option" where
  "as_i64 v = (case v of JInt i \<Rightarrow> if - (2 ^ 63) \<le> i \<and> i < 2 ^ 63 then Some i else None | _ \<Rightarrow> None)"

definition as_u64 :: "json \<Rightarrow> nat option" where
  "as_u64 v = (case v of JInt i \<Rightarrow> if 0 \<le> i \<and> i < 2 ^ 64 then Some (nat i) else None | _ \<Rightarrow> None)"

definition json_opt :: "string option \<Rightarrow> json" where
  "json_opt s = (case s of None \<Rightarrow> JNull | Some x \<Rightarrow> JString x)"

text \<open>An object whose keys are in order, as every object the program builds.\<close>

definition jwf :: "json \<Rightarrow> bool" where
  "jwf v = (case v of JObject m \<Rightarrow> sm_wf m | _ \<Rightarrow> True)"

lemma sm_get_of_list: "sm_get (sm_of_list kvs) k = map_of (rev kvs) k"
proof -
  have "sm_wf m \<Longrightarrow> sm_get (fold (\<lambda>(k, v). sm_put k v) kvs m) k =
      (case map_of (rev kvs) k of None \<Rightarrow> sm_get m k | Some v \<Rightarrow> Some v)" for m
  proof (induction kvs arbitrary: m)
    case (Cons e kvs)
    obtain j v where e: "e = (j, v)" by (cases e)
    show ?case using Cons.IH[of "sm_put j v m"] Cons.prems e
      by (auto simp: map_add_def split: option.splits)
  qed simp
  from this[of "[]"] show ?thesis by (simp add: sm_of_list_def split: option.splits)
qed

lemma jget_jobject: "jget k (jobject kvs) = map_of (rev kvs) k"
  by (simp add: jget_def jobject_def sm_get_of_list)

lemma jwf_jobject [simp]: "jwf (jobject kvs)"
  by (simp add: jwf_def jobject_def)

lemma is_object_jobject [simp]: "is_object (jobject kvs)"
  by (simp add: is_object_def jobject_def)

lemma jwf_jset [simp]: "jwf v \<Longrightarrow> jwf (jset k x v)"
  by (auto simp: jwf_def jset_def split: json.splits)

lemma is_object_jset [simp]: "is_object (jset k x v) = is_object v"
  by (simp add: is_object_def jset_def split: json.splits)

lemma jget_jset [simp]:
  "jwf v \<Longrightarrow> is_object v \<Longrightarrow> jget j (jset k x v) = (if j = k then Some x else jget j v)"
  by (auto simp: jwf_def is_object_def jget_def jset_def split: json.splits)

lemma fold_jset:
  "jwf v \<Longrightarrow> is_object v \<Longrightarrow> distinct (map fst m) \<Longrightarrow>
   jwf (fold (\<lambda>(k, x). jset k x) m v) \<and> is_object (fold (\<lambda>(k, x). jset k x) m v) \<and>
   jget j (fold (\<lambda>(k, x). jset k x) m v) = (case map_of m j of None \<Rightarrow> jget j v | Some x \<Rightarrow> Some x)"
proof (induction m arbitrary: v)
  case (Cons e m)
  obtain k x where e: "e = (k, x)" by (cases e)
  have "map_of m k = None" using Cons.prems(3) e by (simp add: map_of_eq_None_iff)
  then show ?case using Cons.IH[of "jset k x v"] Cons.prems e by (auto split: option.splits)
qed simp

lemma jget_jextend:
  assumes "jwf v" "is_object v" "jwf w"
  shows "jwf (jextend v w)" "is_object (jextend v w)"
    "is_object w \<Longrightarrow> jget k (jextend v w) = (case jget k w of None \<Rightarrow> jget k v | Some x \<Rightarrow> Some x)"
proof -
  have "jwf (jextend v w) \<and> is_object (jextend v w) \<and>
      (is_object w \<longrightarrow> jget k (jextend v w) = (case jget k w of None \<Rightarrow> jget k v | Some x \<Rightarrow> Some x))"
  proof (cases w)
    case (JObject m)
    then have "distinct (map fst m)" using assms(3) by (simp add: jwf_def sm_wf_distinct)
    note f = fold_jset[OF assms(1,2) this, of k]
    then show ?thesis using JObject by (simp add: jextend_def jget_def[of k "JObject m"] sm_get_def)
  qed (use assms in \<open>simp_all add: jextend_def is_object_def\<close>)
  then show "jwf (jextend v w)" "is_object (jextend v w)"
    "is_object w \<Longrightarrow> jget k (jextend v w) = (case jget k w of None \<Rightarrow> jget k v | Some x \<Rightarrow> Some x)"
    by simp_all
qed

end
