(* ===== verification/Auth.thy ===== *)
theory Auth
  imports Json
begin

text \<open>
  The Auth emulator of \<open>src/src/auth.rs\<close> with its in-memory tables: accounts by project
  namespace and id, and the sessions of issued tokens.  Text the program only passes to a library
  is handled by parameters collected in \<open>auth_env\<close>: Unicode lower-casing, the parsing of custom
  attributes, the base64url text of a token's claims and its inverse, and the recognition of a
  uuid.  The clock and the random identifiers of a call are arguments.
\<close>

subsection \<open>State\<close>

definition id_token_ttl :: nat where "id_token_ttl = 60 * 60"
definition refresh_token_ttl :: nat where "refresh_token_ttl = 30 * 24 * 60 * 60"

record auth_env =
  ae_lower :: "string \<Rightarrow> string"
  ae_parse :: "string \<Rightarrow> json option"
  ae_encode :: "json \<Rightarrow> string"
  ae_decode :: "string \<Rightarrow> json option"
  ae_header :: string
  ae_is_uuid :: "string \<Rightarrow> bool"

datatype session_kind = IdToken | RefreshToken

record session =
  s_namespace :: string
  s_uid :: string
  s_issued_at :: nat
  s_expires_at :: nat
  s_kind :: session_kind

record user =
  local_id :: string
  password :: "string option"
  email :: "string option"
  email_verified :: bool
  display_name :: "string option"
  photo_url :: "string option"
  phone_number :: "string option"
  disabled :: bool
  custom_attributes :: "string option"
  provider_user_info :: "json list"
  mfa_info :: "json list"
  valid_since :: string
  created_at :: string
  last_login_at :: string

type_synonym user_map = "(string, user) smap"

record auth_state =
  users :: "(string, user_map) smap"
  sessions :: "(string, session) smap"
  default_namespace :: string

type_synonym 'a api = "string + 'a"

definition project_namespace :: "string \<Rightarrow> string" where
  "project_namespace project_id = ''project/'' @ project_id"

record write_account =
  w_local_id :: "string option"
  w_email :: "string option"
  w_email_verified :: "bool option"
  w_display_name :: "string option"
  w_photo_url :: "string option"
  w_phone_number :: "string option"
  w_disabled :: "bool option"
  w_disable_user :: "bool option"
  w_custom_attributes :: "string option"
  w_valid_since :: "string option"
  w_delete_attribute :: "string list"
  w_delete_provider :: "string list"
  w_link_provider_user_info :: "json list"
  w_provider_user_info :: "json list"
  w_mfa :: "json list"
  w_mfa_info :: "json list"
  w_password :: "string option"
  w_id_token :: "string option"

record lookup_request =
  l_id_token :: "string option"
  l_local_id :: "string list"
  l_email :: "string list"
  l_phone_number :: "string list"
  l_federated :: "(string \<times> string) list"

text \<open>\<open>tables.entry(namespace).or_default()\<close>, then the table.\<close>

definition users_of :: "auth_state \<Rightarrow> string \<Rightarrow> user_map" where
  "users_of st ns = (case sm_get (users st) ns of None \<Rightarrow> [] | Some us \<Rightarrow> us)"

definition set_users :: "string \<Rightarrow> user_map \<Rightarrow> auth_state \<Rightarrow> auth_state" where
  "set_users ns us st = st\<lparr>users := sm_put ns us (users st)\<rparr>"

subsection \<open>Checks\<close>

text \<open>\<open>char::is_whitespace\<close> on the UTF-8 bytes: the ASCII blanks and the encoded Unicode ones.\<close>

definition byte :: "char \<Rightarrow> nat" where "byte c = of_char c"

definition unicode_spaces :: "nat list list" where
  "unicode_spaces = [[0xC2, 0x85], [0xC2, 0xA0], [0xE1, 0x9A, 0x80], [0xE2, 0x81, 0x9F], [0xE3, 0x80, 0x80]] @
     map (\<lambda>b. [0xE2, 0x80, b]) ([0x80..<0x8B] @ [0xA8, 0xA9, 0xAF])"

fun has_whitespace :: "string \<Rightarrow> bool" where
  "has_whitespace [] = False"
| "has_whitespace (c # cs) =
     (is_space c \<or> list_ex (\<lambda>w. map byte (take (length w) (c # cs)) = w) unicode_spaces \<or> has_whitespace cs)"

definition bad_email :: "string \<Rightarrow> bool" where
  "bad_email e = (case split_on CHR ''@'' e of
     [local, domain] \<Rightarrow> local = [] \<or> domain = [] \<or> has_whitespace e
   | _ \<Rightarrow> True)"

definition validate_credentials :: "write_account \<Rightarrow> unit api" where
  "validate_credentials r =
     (if (case w_email r of None \<Rightarrow> False | Some e \<Rightarrow> bad_email e) then Inl ''INVALID_EMAIL''
      else if (case w_password r of None \<Rightarrow> False | Some p \<Rightarrow> length p < 6)
      then Inl ''WEAK_PASSWORD : Password should be at least 6 characters''
      else Inr ())"

definition same_email :: "string option \<Rightarrow> string option \<Rightarrow> bool" where
  "same_email candidate current =
     (case (candidate, current) of (Some a, Some b) \<Rightarrow> eq_ignore_case b a | _ \<Rightarrow> False)"

fun ensure_unique :: "user list \<Rightarrow> string option \<Rightarrow> string option \<Rightarrow> string option \<Rightarrow> unit api" where
  "ensure_unique [] e phone except = Inr ()"
| "ensure_unique (u # us) e phone except =
     (if except = Some (local_id u) then ensure_unique us e phone except
      else if same_email e (email u) then Inl ''EMAIL_EXISTS''
      else if phone \<noteq> None \<and> phone_number u = phone then Inl ''PHONE_NUMBER_EXISTS''
      else ensure_unique us e phone except)"

subsection \<open>Providers\<close>

definition provider_id :: "json \<Rightarrow> string option" where
  "provider_id p = Option.bind (jget ''providerId'' p) as_str"

fun upsert_provider :: "json list \<Rightarrow> json \<Rightarrow> json list" where
  "upsert_provider [] n = [n]"
| "upsert_provider (p # ps) n =
     (if provider_id p = provider_id n then n # ps else p # upsert_provider ps n)"

definition sync_password_provider :: "user \<Rightarrow> user" where
  "sync_password_provider u =
     (case (email u, password u) of
        (Some e, Some _) \<Rightarrow> u\<lparr>provider_user_info := upsert_provider (provider_user_info u)
          (jobject [(''providerId'', JString ''password''), (''rawId'', JString e), (''email'', JString e),
                    (''displayName'', json_opt (display_name u)), (''photoUrl'', json_opt (photo_url u))])\<rparr>
      | _ \<Rightarrow> u)"

definition delete_attribute :: "string \<Rightarrow> user \<Rightarrow> user" where
  "delete_attribute a u =
     (if a = ''EMAIL'' then u\<lparr>email := None, email_verified := False\<rparr>
      else if a = ''DISPLAY_NAME'' then u\<lparr>display_name := None\<rparr>
      else if a = ''PHOTO_URL'' then u\<lparr>photo_url := None\<rparr>
      else if a = ''PHONE_NUMBER'' then u\<lparr>phone_number := None\<rparr>
      else if a = ''CUSTOM_ATTRIBUTES'' then u\<lparr>custom_attributes := None\<rparr>
      else u)"

definition apply_deletions :: "user \<Rightarrow> string list \<Rightarrow> string list \<Rightarrow> user" where
  "apply_deletions u attributes providers =
     (let u = fold delete_attribute attributes u in
      if providers = [] then u
      else u\<lparr>provider_user_info := filter (\<lambda>p. case provider_id p of None \<Rightarrow> True
               | Some i \<Rightarrow> i \<notin> set providers) (provider_user_info u)\<rparr>)"

definition or_else :: "'a option \<Rightarrow> 'a option \<Rightarrow> 'a option" where
  "or_else a b = (case a of None \<Rightarrow> b | Some _ \<Rightarrow> a)"

definition unwrap_or :: "'a option \<Rightarrow> 'a \<Rightarrow> 'a" where
  "unwrap_or a d = (case a of None \<Rightarrow> d | Some x \<Rightarrow> x)"

definition apply_update :: "user \<Rightarrow> write_account \<Rightarrow> user" where
  "apply_update u0 r =
     (let u1 = apply_deletions u0 (w_delete_attribute r) (w_delete_provider r);
          u2 = u1\<lparr>password := or_else (w_password r) (password u1),
                  email := or_else (w_email r) (email u1),
                  email_verified := unwrap_or (w_email_verified r) (email_verified u1),
                  display_name := or_else (w_display_name r) (display_name u1),
                  photo_url := or_else (w_photo_url r) (photo_url u1),
                  phone_number := or_else (w_phone_number r) (phone_number u1),
                  disabled := unwrap_or (or_else (w_disable_user r) (w_disabled r)) (disabled u1),
                  custom_attributes := or_else (w_custom_attributes r) (custom_attributes u1),
                  valid_since := unwrap_or (w_valid_since r) (valid_since u1),
                  provider_user_info :=
                    (if w_provider_user_info r \<noteq> [] then w_provider_user_info r
                     else foldl upsert_provider (provider_user_info u1) (w_link_provider_user_info r)),
                  mfa_info := (if w_mfa r \<noteq> [] then w_mfa r
                               else if w_mfa_info r \<noteq> [] then w_mfa_info r else mfa_info u1)\<rparr>
      in sync_password_provider u2)"

definition new_user :: "string \<Rightarrow> string \<Rightarrow> write_account \<Rightarrow> user" where
  "new_user now i r = sync_password_provider
     \<lparr>local_id = i, password = w_password r, email = w_email r,
      email_verified = unwrap_or (w_email_verified r) False,
      display_name = w_display_name r, photo_url = w_photo_url r, phone_number = w_phone_number r,
      disabled = unwrap_or (or_else (w_disable_user r) (w_disabled r)) False,
      custom_attributes = w_custom_attributes r,
      provider_user_info = (if w_link_provider_user_info r = [] then w_provider_user_info r
                            else w_link_provider_user_info r),
      mfa_info = (if w_mfa r = [] then w_mfa_info r else w_mfa r),
      valid_since = unwrap_or (w_valid_since r) ''0'',
      created_at = now, last_login_at = now\<rparr>"

definition user_value :: "user \<Rightarrow> json" where
  "user_value u =
     (let opt = (\<lambda>k v. case v of None \<Rightarrow> [] | Some s \<Rightarrow> [(k, JString s)]) in
      jobject ([(''localId'', JString (local_id u))] @ opt ''email'' (email u) @
        [(''emailVerified'', JBool (email_verified u))] @ opt ''displayName'' (display_name u) @
        opt ''photoUrl'' (photo_url u) @ opt ''phoneNumber'' (phone_number u) @
        [(''disabled'', JBool (disabled u))] @ opt ''customAttributes'' (custom_attributes u) @
        [(''providerUserInfo'', JArray (provider_user_info u))] @
        (if mfa_info u = [] then [] else [(''mfaInfo'', JArray (mfa_info u))]) @
        [(''validSince'', JString (valid_since u)), (''createdAt'', JString (created_at u)),
         (''lastLoginAt'', JString (last_login_at u))]))"

subsection \<open>Tokens\<close>

definition session_claims :: "auth_env \<Rightarrow> nat \<Rightarrow> string \<Rightarrow> user \<Rightarrow> json" where
  "session_claims env now ns u =
     (let project = (case strip_prefix ''project/'' ns of None \<Rightarrow> ns | Some p \<Rightarrow> p);
          provider = (if password u \<noteq> None then ''password'' else ''anonymous'');
          custom = (case Option.bind (custom_attributes u) (ae_parse env) of
                      None \<Rightarrow> jobject [] | Some v \<Rightarrow> if is_object v then v else jobject []);
          identities = (case email u of None \<Rightarrow> jobject []
                        | Some e \<Rightarrow> jset ''email'' (JArray [JString e]) (jobject []));
          standard = jobject
            [(''iss'', JString (''https://securetoken.google.com/'' @ project)), (''aud'', JString project),
             (''auth_time'', JInt (int now)), (''user_id'', JString (local_id u)), (''sub'', JString (local_id u)),
             (''iat'', JInt (int now)), (''exp'', JInt (int (now + id_token_ttl))),
             (''email_verified'', JBool (email_verified u)),
             (''firebase'', jobject [(''identities'', identities), (''sign_in_provider'', JString provider)])];
          claims = jextend custom standard;
          claims = (case email u of None \<Rightarrow> claims | Some e \<Rightarrow> jset ''email'' (JString e) claims)
      in case display_name u of None \<Rightarrow> claims | Some n \<Rightarrow> jset ''name'' (JString n) claims)"

definition session_bundle ::
  "auth_env \<Rightarrow> nat \<Rightarrow> string \<Rightarrow> string \<Rightarrow> user \<Rightarrow> json \<times> (string \<times> session) list" where
  "session_bundle env now refresh ns u =
     (let token = ae_header env @ ''.'' @ ae_encode env (session_claims env now ns u) @ ''.'' in
      (jobject [(''localId'', JString (local_id u)), (''email'', json_opt (email u)),
                (''displayName'', json_opt (display_name u)), (''idToken'', JString token),
                (''refreshToken'', JString refresh), (''expiresIn'', JString ''3600''),
                (''registered'', JBool True)],
       [(token, \<lparr>s_namespace = ns, s_uid = local_id u, s_issued_at = now,
                 s_expires_at = now + id_token_ttl, s_kind = IdToken\<rparr>),
        (refresh, \<lparr>s_namespace = ns, s_uid = local_id u, s_issued_at = now,
                   s_expires_at = now + refresh_token_ttl, s_kind = RefreshToken\<rparr>)]))"

definition issue_session ::
  "auth_env \<Rightarrow> nat \<Rightarrow> string \<Rightarrow> string \<Rightarrow> user \<Rightarrow> auth_state \<Rightarrow> json \<times> auth_state" where
  "issue_session env now refresh ns u st =
     (let (v, new) = session_bundle env now refresh ns u;
          kept = sm_retain (\<lambda>_ s. s_expires_at s > now) (sessions st)
      in (v, st\<lparr>sessions := fold (\<lambda>(t, s). sm_put t s) new kept\<rparr>))"

definition valid_since_secs :: "user \<Rightarrow> nat" where
  "valid_since_secs u = unwrap_or (parse_unsigned (2 ^ 64) (valid_since u)) 0"

definition claim_secs :: "json \<Rightarrow> string \<Rightarrow> nat" where
  "claim_secs claims k = unwrap_or (as_u64 (jindex claims k)) 0"

definition session_user :: "auth_env \<Rightarrow> nat \<Rightarrow> string \<Rightarrow> string \<Rightarrow> auth_state \<Rightarrow> user api \<times> auth_state" where
  "session_user env now ns token st =
     (case sm_get (sessions st) token of
        None \<Rightarrow> (Inl ''INVALID_ID_TOKEN'', st)
      | Some s \<Rightarrow>
        (case sm_get (users_of st ns) (s_uid s) of
           None \<Rightarrow> (Inl ''USER_NOT_FOUND'', st)
         | Some u \<Rightarrow>
           (if s_kind s \<noteq> IdToken \<or> s_namespace s \<noteq> ns then (Inl ''INVALID_ID_TOKEN'', st)
            else if s_expires_at s \<le> now
            then (Inl ''TOKEN_EXPIRED'', st\<lparr>sessions := sm_del token (sessions st)\<rparr>)
            else (case (case split_on CHR ''.'' token of _ # c # _ \<Rightarrow> ae_decode env c | _ \<Rightarrow> None) of
                    None \<Rightarrow> (Inl ''INVALID_ID_TOKEN'', st)
                  | Some claims \<Rightarrow>
                      (if claim_secs claims ''exp'' \<le> now then (Inl ''TOKEN_EXPIRED'', st)
                       else if disabled u then (Inl ''USER_DISABLED'', st)
                       else if valid_since_secs u > claim_secs claims ''auth_time''
                       then (Inl ''TOKEN_EXPIRED'', st)
                       else (Inr u, st))))))"

subsection \<open>Handlers\<close>

definition create_account ::
  "string \<Rightarrow> string \<Rightarrow> string \<Rightarrow> write_account \<Rightarrow> auth_state \<Rightarrow> user api \<times> auth_state" where
  "create_account now_ms uuid ns r st =
     (case validate_credentials r of
        Inl e \<Rightarrow> (Inl e, st)
      | Inr _ \<Rightarrow>
          let i = unwrap_or (w_local_id r) uuid in
          if i = [] then (Inl ''INVALID_LOCAL_ID'', st)
          else let u = new_user now_ms i r; us = users_of st ns; st1 = set_users ns us st in
            if sm_has us i then (Inl ''DUPLICATE_LOCAL_ID'', st1)
            else (case ensure_unique (sm_values us) (email u) (phone_number u) None of
                    Inl e \<Rightarrow> (Inl e, st1)
                  | Inr _ \<Rightarrow> (Inr u, set_users ns (sm_put i u us) st)))"

text \<open>The request of an id token stands for the account it was issued to.\<close>

definition token_subject ::
  "auth_env \<Rightarrow> nat \<Rightarrow> string \<Rightarrow> string option \<Rightarrow> 'a \<Rightarrow> (string \<Rightarrow> 'a) \<Rightarrow> auth_state \<Rightarrow> 'a api \<times> auth_state" where
  "token_subject env now ns token given subject st =
     (case token of
        None \<Rightarrow> (Inr given, st)
      | Some t \<Rightarrow> (case session_user env now ns t st of
          (Inl e, st') \<Rightarrow> (Inl e, st') | (Inr u, st') \<Rightarrow> (Inr (subject (local_id u)), st')))"

definition federated_match :: "(string \<times> string) list \<Rightarrow> user \<Rightarrow> bool" where
  "federated_match wanted u =
     list_ex (\<lambda>(pid, raw). list_ex (\<lambda>p. provider_id p = Some pid \<and>
        Option.bind (jget ''rawId'' p) as_str = Some raw) (provider_user_info u)) wanted"

definition lookup_match :: "auth_env \<Rightarrow> string list \<Rightarrow> lookup_request \<Rightarrow> user \<Rightarrow> bool" where
  "lookup_match env ids r u =
     (local_id u \<in> set ids \<or>
      (case email u of None \<Rightarrow> False | Some e \<Rightarrow> ae_lower env e \<in> ae_lower env ` set (l_email r)) \<or>
      (case phone_number u of None \<Rightarrow> False | Some p \<Rightarrow> p \<in> set (l_phone_number r)) \<or>
      federated_match (l_federated r) u)"

definition lookup_accounts ::
  "auth_env \<Rightarrow> nat \<Rightarrow> string \<Rightarrow> lookup_request \<Rightarrow> auth_state \<Rightarrow> user list api \<times> auth_state" where
  "lookup_accounts env now ns r st =
     (case token_subject env now ns (l_id_token r) (l_local_id r) (\<lambda>i. [i]) st of
        (Inl e, st') \<Rightarrow> (Inl e, st')
      | (Inr ids, st') \<Rightarrow> (Inr (filter (lookup_match env ids r) (sm_values (users_of st' ns))), st'))"

definition update_account ::
  "auth_env \<Rightarrow> nat \<Rightarrow> string \<Rightarrow> string \<Rightarrow> write_account \<Rightarrow> auth_state \<Rightarrow> json api \<times> auth_state" where
  "update_account env now refresh ns r st0 =
     (case token_subject env now ns (w_id_token r) (w_local_id r) Some st0 of
        (Inl e, st) \<Rightarrow> (Inl e, st)
      | (Inr target, st) \<Rightarrow>
        (case rbind (validate_credentials r) (\<lambda>_. of_option ''MISSING_LOCAL_ID'' target) of
           Inl e \<Rightarrow> (Inl e, st)
         | Inr i \<Rightarrow>
           let us = users_of st ns; st1 = set_users ns us st in
           (case sm_get us i of
              None \<Rightarrow> (Inl ''USER_NOT_FOUND'', st1)
            | Some old \<Rightarrow>
              (case ensure_unique (sm_values us) (w_email r) (w_phone_number r) (Some i) of
                 Inl e \<Rightarrow> (Inl e, st1)
               | Inr _ \<Rightarrow>
                 let u = apply_update old r; st2 = set_users ns (sm_put i u us) st in
                 (if w_id_token r = None then (Inr (user_value u), st2)
                  else let (v, st3) = issue_session env now refresh ns u st2
                       in (Inr (jextend (user_value u) v), st3))))))"

definition delete_account ::
  "auth_env \<Rightarrow> nat \<Rightarrow> string \<Rightarrow> string \<Rightarrow> string option \<Rightarrow> auth_state \<Rightarrow> unit api \<times> auth_state" where
  "delete_account env now ns given token st0 =
     (case token_subject env now ns token given (\<lambda>i. i) st0 of
        (Inl e, st) \<Rightarrow> (Inl e, st)
      | (Inr i, st) \<Rightarrow>
          let us = users_of st ns; st1 = set_users ns (sm_del i us) st in
          if \<not> sm_has us i then (Inl ''USER_NOT_FOUND'', st1)
          else (Inr (), st1\<lparr>sessions := sm_retain (\<lambda>_ s. s_namespace s \<noteq> ns \<or> s_uid s \<noteq> i) (sessions st1)\<rparr>))"

definition list_users :: "string \<Rightarrow> nat \<Rightarrow> auth_state \<Rightarrow> user list" where
  "list_users ns limit st = take (min limit 1000) (sm_values (users_of st ns))"

definition query_accounts :: "nat option \<Rightarrow> nat option \<Rightarrow> string \<Rightarrow> auth_state \<Rightarrow> user list" where
  "query_accounts max_results page_size ns st =
     list_users ns (unwrap_or (or_else max_results page_size) 1000) st"

definition sign_up ::
  "auth_env \<Rightarrow> nat \<Rightarrow> string \<Rightarrow> string \<Rightarrow> string \<Rightarrow> write_account \<Rightarrow> auth_state \<Rightarrow> json api \<times> auth_state" where
  "sign_up env now now_ms uuid refresh r st =
     (if w_email r \<noteq> None \<and> w_password r = None then (Inl ''MISSING_PASSWORD'', st)
      else let ns = default_namespace st in
        (case create_account now_ms uuid ns r st of
           (Inl e, st') \<Rightarrow> (Inl e, st')
         | (Inr u, st') \<Rightarrow> (let (v, st'') = issue_session env now refresh ns u st' in (Inr v, st''))))"

definition find_email :: "string \<Rightarrow> user_map \<Rightarrow> (string \<times> user) option" where
  "find_email e us =
     List.find (\<lambda>(_, u). case email u of None \<Rightarrow> False | Some x \<Rightarrow> eq_ignore_case x e) us"

definition sign_in ::
  "auth_env \<Rightarrow> nat \<Rightarrow> string \<Rightarrow> string \<Rightarrow> write_account \<Rightarrow> auth_state \<Rightarrow> json api \<times> auth_state" where
  "sign_in env now now_ms refresh r st =
     (let ns = default_namespace st in
      case rbind (of_option ''MISSING_EMAIL'' (w_email r)) (\<lambda>e.
           rbind (of_option ''MISSING_PASSWORD'' (w_password r)) (\<lambda>p. Inr (e, p))) of
        Inl e \<Rightarrow> (Inl e, st)
      | Inr (e, p) \<Rightarrow>
          let us = users_of st ns; st1 = set_users ns us st in
          (case find_email e us of
             None \<Rightarrow> (Inl ''EMAIL_NOT_FOUND'', st1)
           | Some (k, u) \<Rightarrow>
             (if disabled u then (Inl ''USER_DISABLED'', st1)
              else if password u \<noteq> Some p then (Inl ''INVALID_PASSWORD'', st1)
              else let u' = u\<lparr>last_login_at := now_ms\<rparr>;
                       (v, st2) = issue_session env now refresh ns u' (set_users ns (sm_put k u' us) st)
                   in (Inr v, st2))))"

definition refresh_token ::
  "auth_env \<Rightarrow> nat \<Rightarrow> string \<Rightarrow> (string, string) smap \<Rightarrow> auth_state \<Rightarrow> json api \<times> auth_state" where
  "refresh_token env now refresh' form st =
     (case rbind (guard (sm_get form ''grant_type'' = Some ''refresh_token'') ''INVALID_GRANT_TYPE'') (\<lambda>_.
           rbind (of_option ''MISSING_REFRESH_TOKEN'' (sm_get form ''refresh_token'')) (\<lambda>t.
           rbind (guard (ae_is_uuid env t) ''INVALID_REFRESH_TOKEN'') (\<lambda>_. Inr t))) of
        Inl e \<Rightarrow> (Inl e, st)
      | Inr t \<Rightarrow>
        (case sm_get (sessions st) t of
           None \<Rightarrow> (Inl ''INVALID_REFRESH_TOKEN'', st)
         | Some s \<Rightarrow>
           (if s_kind s \<noteq> RefreshToken \<or> s_expires_at s \<le> now
            then (Inl ''INVALID_REFRESH_TOKEN'', st\<lparr>sessions := sm_del t (sessions st)\<rparr>)
            else (case sm_get (users_of st (s_namespace s)) (s_uid s) of
                    None \<Rightarrow> (Inl ''USER_NOT_FOUND'', st)
                  | Some u \<Rightarrow>
                    (if disabled u then (Inl ''USER_DISABLED'', st)
                     else if valid_since_secs u > s_issued_at s then (Inl ''TOKEN_EXPIRED'', st)
                     else let (v, st') = issue_session env now refresh' (s_namespace s) u st in
                       (Inr (jobject
                         [(''access_token'', jindex v ''idToken''), (''id_token'', jindex v ''idToken''),
                          (''refresh_token'', jindex v ''refreshToken''), (''expires_in'', JString ''3600''),
                          (''token_type'', JString ''Bearer''), (''user_id'', JString (s_uid s)),
                          (''project_id'', JString (unwrap_or (strip_prefix ''project/'' (s_namespace s))
                             (s_namespace s)))]), st'))))))"

end
