(* ===== verification/Auth_Invariant.thy ===== *)
theory Auth_Invariant
  imports Auth
begin

text \<open>
  What the Auth emulator keeps true: in a namespace no two accounts share an email (up to ASCII
  case) or a phone number, and every session belongs to an account that exists, lives as long as
  its kind allows and, for an id token, is the session of the token's own claims.  The handlers are
  the steps of a transition system; which tokens are accepted is characterised exactly.
\<close>

subsection \<open>Tables\<close>

definition clash :: "user \<Rightarrow> user \<Rightarrow> bool" where
  "clash u u' = (same_email (email u) (email u') \<or> phone_number u \<noteq> None \<and> phone_number u = phone_number u')"

definition table_ok :: "user_map \<Rightarrow> bool" where
  "table_ok us = (sm_wf us \<and> (\<forall>k u. sm_get us k = Some u \<longrightarrow> local_id u = k) \<and>
     (\<forall>k k' u u'. sm_get us k = Some u \<longrightarrow> sm_get us k' = Some u' \<longrightarrow> k \<noteq> k' \<longrightarrow> \<not> clash u u'))"

lemma same_email_sym: "same_email a b = same_email b a"
  by (auto simp: same_email_def eq_ignore_case_sym split: option.splits)

lemma clash_sym: "clash u u' = clash u' u"
  unfolding clash_def by (metis same_email_sym)

lemma table_ok_empty [simp]: "table_ok []"
  by (simp add: table_ok_def)

lemma table_okD:
  assumes "table_ok us"
  shows "sm_wf us" "sm_get us k = Some u \<Longrightarrow> local_id u = k"
    "sm_get us k = Some u \<Longrightarrow> sm_get us k' = Some u' \<Longrightarrow> k \<noteq> k' \<Longrightarrow> \<not> clash u u'"
  using assms unfolding table_ok_def by blast+

lemma table_put:
  assumes ok: "table_ok us" and i: "local_id u = i"
    and new: "\<And>k x. sm_get us k = Some x \<Longrightarrow> k \<noteq> i \<Longrightarrow> \<not> clash u x"
  shows "table_ok (sm_put i u us)"
  unfolding table_ok_def
proof (intro conjI allI impI)
  note wf = table_okD(1)[OF ok]
  show "sm_wf (sm_put i u us)" using wf by simp
  show "local_id x = k" if "sm_get (sm_put i u us) k = Some x" for k x
    using that wf i table_okD(2)[OF ok] by (auto split: if_splits)
  show "\<not> clash x x'" if "sm_get (sm_put i u us) k = Some x" "sm_get (sm_put i u us) k' = Some x'" "k \<noteq> k'" for k k' x x'
    using that wf new clash_sym table_okD(3)[OF ok] by (auto split: if_splits)
qed

lemma table_del: "table_ok us \<Longrightarrow> table_ok (sm_del i us)"
  unfolding table_ok_def by simp

lemma ensure_unique_Inr:
  "ensure_unique us e ph ex = Inr () \<longleftrightarrow>
   (\<forall>u \<in> set us. ex \<noteq> Some (local_id u) \<longrightarrow> \<not> same_email e (email u) \<and> (ph \<noteq> None \<longrightarrow> phone_number u \<noteq> ph))"
  by (induction us) auto

lemma sm_values_get:
  assumes "sm_wf m" shows "x \<in> set (sm_values m) \<longleftrightarrow> (\<exists>k. sm_get m k = Some x)"
proof -
  have "x \<in> set (sm_values m) \<longleftrightarrow> (\<exists>k. (k, x) \<in> set m)" by (force simp: sm_values_def)
  then show ?thesis using assms by (simp add: in_sm_iff)
qed

lemma ensure_unique_table:
  assumes "table_ok us" "ensure_unique (sm_values us) e ph ex = Inr ()" "sm_get us k = Some x" "ex \<noteq> Some k"
  shows "\<not> same_email e (email x)" "ph \<noteq> None \<Longrightarrow> ph \<noteq> phone_number x"
proof -
  have "x \<in> set (sm_values us)" unfolding sm_values_get[OF table_okD(1)[OF assms(1)]] using assms(3) by blast
  moreover have "ex \<noteq> Some (local_id x)" using assms(4) table_okD(2)[OF assms(1,3)] by simp
  ultimately have "\<not> same_email e (email x) \<and> (ph \<noteq> None \<longrightarrow> phone_number x \<noteq> ph)"
    using assms(2) unfolding ensure_unique_Inr by blast
  then show "\<not> same_email e (email x)" "ph \<noteq> None \<Longrightarrow> ph \<noteq> phone_number x" by auto
qed

subsection \<open>Accounts\<close>

lemma sync_simps [simp]:
  "local_id (sync_password_provider u) = local_id u"
  "email (sync_password_provider u) = email u"
  "phone_number (sync_password_provider u) = phone_number u"
  "password (sync_password_provider u) = password u"
  "disabled (sync_password_provider u) = disabled u"
  "valid_since (sync_password_provider u) = valid_since u"
  by (auto simp: sync_password_provider_def split: option.splits)

lemma new_user_simps [simp]:
  "local_id (new_user now i r) = i"
  "email (new_user now i r) = w_email r"
  "phone_number (new_user now i r) = w_phone_number r"
  "password (new_user now i r) = w_password r"
  by (simp_all add: new_user_def)

lemma delete_attribute_keeps:
  "local_id (delete_attribute a u) = local_id u"
  "email (delete_attribute a u) \<in> {None, email u}"
  "phone_number (delete_attribute a u) \<in> {None, phone_number u}"
  by (auto simp: delete_attribute_def)

lemma delete_attributes_keep:
  "local_id (fold delete_attribute as u) = local_id u \<and>
   email (fold delete_attribute as u) \<in> {None, email u} \<and>
   phone_number (fold delete_attribute as u) \<in> {None, phone_number u}"
proof (induction "as" arbitrary: u)
  case (Cons a "as")
  show ?case using Cons.IH[of "delete_attribute a u"] delete_attribute_keeps[where a = a and u = u] by auto
qed simp

lemma apply_update_keeps:
  "local_id (apply_update u r) = local_id u"
  "w_email r = None \<Longrightarrow> email (apply_update u r) \<in> {None, email u}"
  "w_email r \<noteq> None \<Longrightarrow> email (apply_update u r) = w_email r"
  "w_phone_number r = None \<Longrightarrow> phone_number (apply_update u r) \<in> {None, phone_number u}"
  "w_phone_number r \<noteq> None \<Longrightarrow> phone_number (apply_update u r) = w_phone_number r"
  using delete_attributes_keep[of "w_delete_attribute r" u]
  by (auto simp: apply_update_def apply_deletions_def Let_def or_else_def split: option.splits)

lemma update_no_clash:
  assumes ok: "table_ok us" and old: "sm_get us i = Some u"
    and unique: "ensure_unique (sm_values us) (w_email r) (w_phone_number r) (Some i) = Inr ()"
    and x: "sm_get us k = Some x" "k \<noteq> i"
  shows "\<not> clash (apply_update u r) x"
proof -
  note uq = ensure_unique_table[OF ok unique x(1)]
  have old': "\<not> clash u x" using table_okD(3)[OF ok old x(1)] x(2) by simp
  have "\<not> same_email (email (apply_update u r)) (email x)"
  proof (cases "w_email r")
    case None
    then show ?thesis using apply_update_keeps(2)[OF None, of u] old'
      by (auto simp: clash_def same_email_def split: option.splits)
  next
    case (Some e)
    then show ?thesis using apply_update_keeps(3)[of r u] uq(1) x(2) by simp
  qed
  moreover have "phone_number (apply_update u r) \<noteq> phone_number x" if "phone_number (apply_update u r) \<noteq> None"
  proof (cases "w_phone_number r")
    case None
    then show ?thesis using apply_update_keeps(4)[OF None, of u] old' that by (auto simp: clash_def)
  next
    case (Some p)
    then show ?thesis using apply_update_keeps(5)[of r u] uq(2) x(2) by simp
  qed
  ultimately show ?thesis unfolding clash_def by blast
qed

subsection \<open>The invariant\<close>

definition token_of :: "auth_env \<Rightarrow> json \<Rightarrow> string" where
  "token_of env c = ae_header env @ ''.'' @ ae_encode env c @ ''.''"

definition session_ok :: "auth_env \<Rightarrow> auth_state \<Rightarrow> string \<Rightarrow> session \<Rightarrow> bool" where
  "session_ok env st t s =
     (sm_has (users_of st (s_namespace s)) (s_uid s) \<and> s_expires_at s < 2 ^ 64 \<and>
      s_expires_at s = s_issued_at s + (if s_kind s = IdToken then id_token_ttl else refresh_token_ttl) \<and>
      (s_kind s = IdToken \<longrightarrow>
        (\<exists>u. local_id u = s_uid s \<and> t = token_of env (session_claims env (s_issued_at s) (s_namespace s) u))))"

definition auth_ok :: "auth_env \<Rightarrow> auth_state \<Rightarrow> bool" where
  "auth_ok env st = (sm_wf (users st) \<and> (\<forall>ns. table_ok (users_of st ns)) \<and> sm_wf (sessions st) \<and>
     (\<forall>t s. sm_get (sessions st) t = Some s \<longrightarrow> session_ok env st t s))"

definition empty_auth :: "string \<Rightarrow> auth_state" where
  "empty_auth ns = \<lparr>users = [], sessions = [], default_namespace = ns\<rparr>"

lemma auth_ok_empty: "auth_ok env (empty_auth ns)"
  by (simp add: auth_ok_def empty_auth_def users_of_def)

lemma users_of_set [simp]:
  "sm_wf (users st) \<Longrightarrow> users_of (set_users ns us st) ns' = (if ns' = ns then us else users_of st ns')"
  by (simp add: users_of_def set_users_def)

lemma set_users_simps [simp]:
  "sessions (set_users ns us st) = sessions st"
  "default_namespace (set_users ns us st) = default_namespace st"
  "sm_wf (users st) \<Longrightarrow> sm_wf (users (set_users ns us st))"
  by (simp_all add: set_users_def)

lemma auth_okD:
  assumes "auth_ok env st"
  shows "sm_wf (users st)" "table_ok (users_of st ns)" "sm_wf (sessions st)"
    "sm_get (sessions st) t = Some s \<Longrightarrow> session_ok env st t s"
  using assms unfolding auth_ok_def by blast+

text \<open>Changing a table without losing an account, and dropping sessions.\<close>

lemma set_users_ok:
  assumes ok: "auth_ok env st" and us: "table_ok us"
    and grow: "\<And>k. sm_has (users_of st ns) k \<Longrightarrow> sm_has us k"
  shows "auth_ok env (set_users ns us st)"
proof -
  note d = auth_okD[OF ok]
  have "session_ok env (set_users ns us st) t s" if "sm_get (sessions st) t = Some s" for t s
    using d(4)[OF that] grow d(1) by (auto simp: session_ok_def)
  then show ?thesis using d us by (auto simp: auth_ok_def)
qed

lemma retain_sessions_ok:
  assumes ok: "auth_ok env st"
  shows "auth_ok env (st\<lparr>sessions := sm_retain P (sessions st)\<rparr>)"
proof -
  note d = auth_okD[OF ok]
  have same: "users_of (st\<lparr>sessions := S\<rparr>) = users_of st" for S by (rule ext) (simp add: users_of_def)
  have "session_ok env (st\<lparr>sessions := sm_retain P (sessions st)\<rparr>) t s"
    if "sm_get (sm_retain P (sessions st)) t = Some s" for t s
    using that d(3) d(4)[of t s] by (auto simp: session_ok_def same split: option.splits if_splits)
  then show ?thesis using d by (simp add: auth_ok_def same)
qed

lemma del_session_ok:
  assumes "auth_ok env st" shows "auth_ok env (st\<lparr>sessions := sm_del t (sessions st)\<rparr>)"
proof -
  have "sm_del t (sessions st) = sm_retain (\<lambda>k _. k \<noteq> t) (sessions st)"
    unfolding sm_del_def sm_retain_def by (rule filter_cong) auto
  then show ?thesis using retain_sessions_ok[OF assms, of "\<lambda>k _. k \<noteq> t"] by simp
qed

lemma issue_session_state:
  "snd (issue_session env now refresh ns u st) =
     st\<lparr>sessions := fold (\<lambda>(t, s). sm_put t s) (snd (session_bundle env now refresh ns u))
        (sm_retain (\<lambda>_ s. s_expires_at s > now) (sessions st))\<rparr>"
  by (simp add: issue_session_def Let_def case_prod_beta)

lemma bundle_sessions:
  "snd (session_bundle env now refresh ns u) =
     [(token_of env (session_claims env now ns u), \<lparr>s_namespace = ns, s_uid = local_id u, s_issued_at = now,
        s_expires_at = now + id_token_ttl, s_kind = IdToken\<rparr>),
      (refresh, \<lparr>s_namespace = ns, s_uid = local_id u, s_issued_at = now,
        s_expires_at = now + refresh_token_ttl, s_kind = RefreshToken\<rparr>)]"
  by (simp add: session_bundle_def Let_def token_of_def)

lemma issue_session_ok:
  assumes ok: "auth_ok env st" and u: "sm_has (users_of st ns) (local_id u)"
    and now: "now + refresh_token_ttl < 2 ^ 64"
  shows "auth_ok env (snd (issue_session env now refresh ns u st))"
proof -
  have same: "users_of (st\<lparr>sessions := S\<rparr>) = users_of st" for S by (rule ext) (simp add: users_of_def)
  have put: "auth_ok env (x\<lparr>sessions := sm_put t s (sessions x)\<rparr>)"
    if "auth_ok env x" "session_ok env x t s" for x t s
  proof -
    have eq: "users_of (x\<lparr>sessions := S\<rparr>) = users_of x" for S by (rule ext) (simp add: users_of_def)
    show ?thesis using that auth_okD[OF that(1)] unfolding auth_ok_def
      by (auto simp: eq session_ok_def split: if_splits)
  qed
  have now': "now + id_token_ttl < 2 ^ 64" using now by (simp add: id_token_ttl_def refresh_token_ttl_def)
  let ?r = "st\<lparr>sessions := sm_retain (\<lambda>_ s. s_expires_at s > now) (sessions st)\<rparr>"
  let ?t = "token_of env (session_claims env now ns u)"
  let ?s = "\<lparr>s_namespace = ns, s_uid = local_id u, s_issued_at = now,
        s_expires_at = now + id_token_ttl, s_kind = IdToken\<rparr>"
  have 1: "auth_ok env (?r\<lparr>sessions := sm_put ?t ?s (sessions ?r)\<rparr>)"
    by (rule put[OF retain_sessions_ok[OF ok]]) (use u now' in \<open>auto simp: session_ok_def same\<close>)
  let ?q = "?r\<lparr>sessions := sm_put ?t ?s (sessions ?r)\<rparr>"
  have "auth_ok env (?q\<lparr>sessions := sm_put refresh \<lparr>s_namespace = ns, s_uid = local_id u, s_issued_at = now,
        s_expires_at = now + refresh_token_ttl, s_kind = RefreshToken\<rparr> (sessions ?q)\<rparr>)"
    by (rule put[OF 1]) (use u now in \<open>auto simp: session_ok_def same\<close>)
  then show ?thesis by (simp add: issue_session_state bundle_sessions)
qed

subsection \<open>Every handler keeps it\<close>

lemma session_user_ok: "auth_ok env st \<Longrightarrow> auth_ok env (snd (session_user env now ns t st))"
  by (auto simp: session_user_def del_session_ok Let_def split: option.splits)

lemma session_user_users: "users_of (snd (session_user env now ns t st)) = users_of st"
  by (rule ext) (auto simp: session_user_def users_of_def Let_def split: option.splits)

lemma token_subject_ok:
  assumes "auth_ok env st" "token_subject env now ns token given subject st = (r, st')"
  shows "auth_ok env st'"
proof -
  have "auth_ok env (snd (token_subject env now ns token given subject st))"
    using assms(1) session_user_ok[of env st now ns]
    by (auto simp: token_subject_def split: option.splits sum.splits prod.splits)
      (metis snd_conv)+
  then show ?thesis using assms(2) by simp
qed

lemma touch_ok:
  assumes "auth_ok env st" shows "auth_ok env (set_users ns (users_of st ns) st)"
  by (rule set_users_ok[OF assms auth_okD(2)[OF assms]])

lemma create_account_ok:
  assumes ok: "auth_ok env st"
  shows "auth_ok env (snd (create_account now_ms uuid ns r st))"
proof -
  note d = auth_okD[OF ok]
  let ?i = "unwrap_or (w_local_id r) uuid"
  let ?u = "new_user now_ms ?i r"
  have "auth_ok env (set_users ns (sm_put ?i ?u (users_of st ns)) st)"
    if new: "\<not> sm_has (users_of st ns) ?i"
      and unique: "ensure_unique (sm_values (users_of st ns)) (w_email r) (w_phone_number r) None = Inr ()"
  proof (rule set_users_ok[OF ok table_put[OF d(2)]])
    show "\<not> clash ?u x" if "sm_get (users_of st ns) k = Some x" for k x
      using ensure_unique_table[OF d(2) unique that] by (auto simp: clash_def)
  qed (use table_okD(1)[OF d(2)] in auto)
  then show ?thesis
    using ok touch_ok[OF ok] by (auto simp: create_account_def Let_def split: sum.splits)
qed

lemma update_account_ok:
  assumes ok: "auth_ok env st" and now: "now + refresh_token_ttl < 2 ^ 64"
  shows "auth_ok env (snd (update_account env now refresh ns r st))"
proof -
  obtain res st1 where sub: "token_subject env now ns (w_id_token r) (w_local_id r) Some st = (res, st1)"
    by fastforce
  have ok1: "auth_ok env st1" by (rule token_subject_ok[OF ok sub])
  note d = auth_okD[OF ok1]
  have upd: "auth_ok env (set_users ns (sm_put i (apply_update old r) (users_of st1 ns)) st1)"
    "sm_has (users_of (set_users ns (sm_put i (apply_update old r) (users_of st1 ns)) st1) ns)
       (local_id (apply_update old r))"
    if old: "sm_get (users_of st1 ns) i = Some old"
      and unique: "ensure_unique (sm_values (users_of st1 ns)) (w_email r) (w_phone_number r) (Some i) = Inr ()"
    for i old
  proof -
    have i: "local_id (apply_update old r) = i"
      using table_okD(2)[OF d(2) old] apply_update_keeps(1) by simp
    show "auth_ok env (set_users ns (sm_put i (apply_update old r) (users_of st1 ns)) st1)"
      by (rule set_users_ok[OF ok1 table_put[OF d(2) i update_no_clash[OF d(2) old unique]]])
        (use table_okD(1)[OF d(2)] in auto)
    show "sm_has (users_of (set_users ns (sm_put i (apply_update old r) (users_of st1 ns)) st1) ns)
       (local_id (apply_update old r))"
      using i d(1) table_okD(1)[OF d(2)] by simp
  qed
  have issue: "auth_ok env (snd (issue_session env now refresh ns (apply_update old r)
      (set_users ns (sm_put i (apply_update old r) (users_of st1 ns)) st1)))"
    if "sm_get (users_of st1 ns) i = Some old"
      "ensure_unique (sm_values (users_of st1 ns)) (w_email r) (w_phone_number r) (Some i) = Inr ()" for i old
    by (rule issue_session_ok[OF upd[OF that] now])
  show ?thesis
    unfolding update_account_def sub prod.case
    using ok1 touch_ok[OF ok1] upd issue
    by (auto simp: Let_def case_prod_beta split: sum.splits option.splits)
qed

lemma delete_account_spec:
  assumes ok: "auth_ok env st"
  shows "auth_ok env (snd (delete_account env now ns given token st))"
proof -
  obtain res st1 where sub: "token_subject env now ns token given (\<lambda>i. i) st = (res, st1)" by fastforce
  have ok1: "auth_ok env st1" by (rule token_subject_ok[OF ok sub])
  note d = auth_okD[OF ok1]
  have gone: "auth_ok env (set_users ns (sm_del i (users_of st1 ns)) st1
      \<lparr>sessions := sm_retain (\<lambda>_ s. s_namespace s \<noteq> ns \<or> s_uid s \<noteq> i) (sessions st1)\<rparr>)" for i
  proof -
    let ?st = "set_users ns (sm_del i (users_of st1 ns)) st1
      \<lparr>sessions := sm_retain (\<lambda>_ s. s_namespace s \<noteq> ns \<or> s_uid s \<noteq> i) (sessions st1)\<rparr>"
    have us: "users_of ?st ns' = (if ns' = ns then sm_del i (users_of st1 ns) else users_of st1 ns')" for ns'
      using users_of_set[OF d(1), of ns "sm_del i (users_of st1 ns)" ns'] by (simp add: users_of_def)
    have "session_ok env ?st t s" if "sm_get (sessions ?st) t = Some s" for t s
    proof -
      have s: "sm_get (sessions st1) t = Some s" "s_namespace s \<noteq> ns \<or> s_uid s \<noteq> i"
        using that d(3) by (auto split: option.splits if_splits)
      then show ?thesis using d(4)[OF s(1)] unfolding session_ok_def us by auto
    qed
    moreover have "table_ok (users_of ?st ns')" for ns' using d(2) us table_del by simp
    ultimately show ?thesis using d(1,3) unfolding auth_ok_def by (simp add: set_users_def)
  qed
  have miss: "auth_ok env (set_users ns (sm_del i (users_of st1 ns)) st1)" if "\<not> sm_has (users_of st1 ns) i" for i
  proof -
    have "sm_del i (users_of st1 ns) = users_of st1 ns"
      using that table_okD(1)[OF d(2)] by (simp add: sm_has_def)
    then show ?thesis using touch_ok[OF ok1] by simp
  qed
  show ?thesis
    unfolding delete_account_def sub prod.case using ok1 gone miss
    by (auto simp: Let_def split: sum.splits)
qed

lemma sign_up_ok:
  assumes ok: "auth_ok env st" and now: "now + refresh_token_ttl < 2 ^ 64"
  shows "auth_ok env (snd (sign_up env now now_ms uuid refresh r st))"
proof -
  obtain res st1 where c: "create_account now_ms uuid (default_namespace st) r st = (res, st1)" by fastforce
  have ok1: "auth_ok env st1" using create_account_ok[OF ok, of now_ms uuid "default_namespace st" r] c by simp
  have "sm_has (users_of st1 (default_namespace st)) (local_id u)" if "res = Inr u" for u
    using c that auth_okD(1)[OF ok] table_okD(1)[OF auth_okD(2)[OF ok]]
    by (auto simp: create_account_def Let_def split: sum.splits if_splits)
  then show ?thesis
    using ok ok1 issue_session_ok[OF ok1 _ now] c
    by (auto simp: sign_up_def Let_def case_prod_beta split: sum.splits)
qed

lemma find_email_Some:
  assumes "table_ok us" "find_email e us = Some (k, u)"
  shows "sm_get us k = Some u" "local_id u = k" "\<exists>x. email u = Some x \<and> eq_ignore_case x e"
proof -
  obtain i where i: "i < length us" "us ! i = (k, u)" "case us ! i of (_, u) \<Rightarrow> case email u of None \<Rightarrow> False | Some x \<Rightarrow> eq_ignore_case x e"
    using assms(2) unfolding find_email_def find_Some_iff by metis
  then have "(k, u) \<in> set us \<and> (case email u of None \<Rightarrow> False | Some x \<Rightarrow> eq_ignore_case x e)"
    using nth_mem[OF i(1)] by simp
  then show "sm_get us k = Some u" "\<exists>x. email u = Some x \<and> eq_ignore_case x e"
    using table_okD(1)[OF assms(1)] by (auto simp: in_sm_iff split: option.splits)
  then show "local_id u = k" using table_okD(2)[OF assms(1)] by blast
qed

lemma login_ok:
  assumes ok: "auth_ok env st" and u: "sm_get (users_of st ns) k = Some u" and now: "now + refresh_token_ttl < 2 ^ 64"
  shows "auth_ok env (snd (issue_session env now refresh ns (u\<lparr>last_login_at := m\<rparr>)
      (set_users ns (sm_put k (u\<lparr>last_login_at := m\<rparr>) (users_of st ns)) st)))"
proof -
  note d = auth_okD[OF ok]
  have k: "local_id (u\<lparr>last_login_at := m\<rparr>) = k" using table_okD(2)[OF d(2) u] by simp
  have "\<not> clash (u\<lparr>last_login_at := m\<rparr>) x" if "sm_get (users_of st ns) j = Some x" "j \<noteq> k" for j x
    using table_okD(3)[OF d(2) u that(1)] that(2) by (simp add: clash_def)
  then have ok1: "auth_ok env (set_users ns (sm_put k (u\<lparr>last_login_at := m\<rparr>) (users_of st ns)) st)"
    by (intro set_users_ok[OF ok table_put[OF d(2) k]]) (use table_okD(1)[OF d(2)] in auto)
  show ?thesis
    by (rule issue_session_ok[OF ok1 _ now]) (use k d(1) table_okD(1)[OF d(2)] in simp)
qed

lemma sign_in_ok:
  assumes ok: "auth_ok env st" and now: "now + refresh_token_ttl < 2 ^ 64"
  shows "auth_ok env (snd (sign_in env now now_ms refresh r st))"
  using ok touch_ok[OF ok] login_ok[OF ok _ now] find_email_Some(1)[OF auth_okD(2)[OF ok]]
  by (auto simp: sign_in_def Let_def case_prod_beta split: sum.splits option.splits)

lemma refresh_token_ok:
  assumes ok: "auth_ok env st" and now: "now + refresh_token_ttl < 2 ^ 64"
  shows "auth_ok env (snd (refresh_token env now refresh form st))"
proof -
  have "auth_ok env (snd (issue_session env now refresh ns u st))" if "sm_get (users_of st ns) k = Some u" for ns k u
    by (rule issue_session_ok[OF ok _ now])
      (use that table_okD(2)[OF auth_okD(2)[OF ok] that] in \<open>simp add: sm_has_def\<close>)
  then show ?thesis using ok del_session_ok[OF ok]
    by (auto simp: refresh_token_def Let_def case_prod_beta split: sum.splits option.splits)
qed

end
