(* ===== verification/Auth_Runs.thy ===== *)
theory Auth_Runs
  imports Auth_Invariant "HOL-Library.Countable"
begin

text \<open>
  The Auth emulator as a transition system, with its properties: what every reachable state
  satisfies, which id tokens are accepted, and what deleting an account means for its tokens.
\<close>

subsection \<open>Runs\<close>

inductive auth_step :: "auth_env \<Rightarrow> auth_state \<Rightarrow> auth_state \<Rightarrow> bool" for env where
  create: "auth_step env st (snd (create_account now_ms uuid ns r st))"
| lookup: "auth_step env st (snd (lookup_accounts env now ns l st))"
| update: "now + refresh_token_ttl < 2 ^ 64 \<Longrightarrow> auth_step env st (snd (update_account env now refresh ns r st))"
| delete: "auth_step env st (snd (delete_account env now ns given token st))"
| sign_up: "now + refresh_token_ttl < 2 ^ 64 \<Longrightarrow>
    auth_step env st (snd (sign_up env now now_ms uuid refresh r st))"
| sign_in: "now + refresh_token_ttl < 2 ^ 64 \<Longrightarrow>
    auth_step env st (snd (sign_in env now now_ms refresh r st))"
| refresh: "now + refresh_token_ttl < 2 ^ 64 \<Longrightarrow> auth_step env st (snd (refresh_token env now refresh form st))"

lemma lookup_accounts_ok:
  assumes ok: "auth_ok env st" shows "auth_ok env (snd (lookup_accounts env now ns l st))"
proof -
  obtain r st1 where sub: "token_subject env now ns (l_id_token l) (l_local_id l) (\<lambda>i. [i]) st = (r, st1)" by fastforce
  show ?thesis using token_subject_ok[OF ok sub] by (simp add: lookup_accounts_def sub split: sum.splits)
qed

lemma auth_step_ok: "auth_step env st st' \<Longrightarrow> auth_ok env st \<Longrightarrow> auth_ok env st'"
  by (induction rule: auth_step.induct)
    (simp_all add: create_account_ok lookup_accounts_ok update_account_ok delete_account_spec sign_up_ok
      sign_in_ok refresh_token_ok)

lemma auth_steps_ok:
  assumes "(auth_step env)\<^sup>*\<^sup>* st st'" "auth_ok env st" shows "auth_ok env st'"
  using assms by (induction rule: rtranclp_induct) (auto dest: auth_step_ok)

subsection \<open>The claims of a token\<close>

text \<open>
  What the program relies on in the encodings it calls: decoding a token's claims gives the claims,
  base64url text has no dot, and parsed JSON objects have their keys in order.
\<close>

definition codec_ok :: "auth_env \<Rightarrow> bool" where
  "codec_ok env = ((\<forall>c. jwf c \<longrightarrow> is_object c \<longrightarrow> ae_decode env (ae_encode env c) = Some c) \<and>
     (\<forall>c. CHR ''.'' \<notin> set (ae_encode env c)) \<and> CHR ''.'' \<notin> set (ae_header env) \<and>
     (\<forall>s v. ae_parse env s = Some v \<longrightarrow> jwf v))"

lemma session_claims_spec:
  assumes "codec_ok env"
  shows "jwf (session_claims env now ns u)" "is_object (session_claims env now ns u)"
    "jget ''exp'' (session_claims env now ns u) = Some (JInt (int (now + id_token_ttl)))"
    "jget ''auth_time'' (session_claims env now ns u) = Some (JInt (int now))"
proof -
  define custom where "custom = (case Option.bind (custom_attributes u) (ae_parse env) of
      None \<Rightarrow> jobject [] | Some v \<Rightarrow> if is_object v then v else jobject [])"
  have c: "jwf custom" "is_object custom"
    using assms by (auto simp: custom_def codec_ok_def bind_eq_Some_conv split: option.splits)
  have "jwf (session_claims env now ns u) \<and> is_object (session_claims env now ns u) \<and>
    jget ''exp'' (session_claims env now ns u) = Some (JInt (int (now + id_token_ttl))) \<and>
    jget ''auth_time'' (session_claims env now ns u) = Some (JInt (int now))"
    unfolding session_claims_def Let_def custom_def[symmetric]
    using c by (simp add: jget_jextend jget_jobject split: option.split)
  then show "jwf (session_claims env now ns u)" "is_object (session_claims env now ns u)"
    "jget ''exp'' (session_claims env now ns u) = Some (JInt (int (now + id_token_ttl)))"
    "jget ''auth_time'' (session_claims env now ns u) = Some (JInt (int now))" by auto
qed

lemma token_parts:
  assumes "codec_ok env" "jwf c" "is_object c"
  shows "(case split_on CHR ''.'' (token_of env c) of _ # c # _ \<Rightarrow> ae_decode env c | _ \<Rightarrow> None) = Some c"
proof -
  have "token_of env c = ae_header env @ CHR ''.'' # ae_encode env c @ CHR ''.'' # []" by (simp add: token_of_def)
  then have "split_on CHR ''.'' (token_of env c) = [ae_header env, ae_encode env c, []]"
    using assms(1) by (simp add: codec_ok_def split_on_append_sep)
  then show ?thesis using assms by (simp add: codec_ok_def)
qed

lemma claim_secs_token:
  assumes "codec_ok env" "now + id_token_ttl < 2 ^ 64"
  shows "claim_secs (session_claims env now ns u) ''exp'' = now + id_token_ttl"
    "claim_secs (session_claims env now ns u) ''auth_time'' = now"
proof -
  have "int (now + id_token_ttl) < int (2 ^ 64)" using assms(2) by (simp only: of_nat_less_iff)
  then have "int (now + id_token_ttl) < 2 ^ 64" "int now < 2 ^ 64" by simp_all
  then show "claim_secs (session_claims env now ns u) ''exp'' = now + id_token_ttl"
    "claim_secs (session_claims env now ns u) ''auth_time'' = now"
    using session_claims_spec(3,4)[OF assms(1)]
    by (simp_all add: claim_secs_def jindex_def as_u64_def unwrap_or_def)
qed

text \<open>An id token names a session under which its account may act now.\<close>

definition live_session :: "auth_state \<Rightarrow> nat \<Rightarrow> string \<Rightarrow> string \<Rightarrow> user \<Rightarrow> bool" where
  "live_session st now ns t u =
     (\<exists>s. sm_get (sessions st) t = Some s \<and> s_kind s = IdToken \<and> s_namespace s = ns \<and>
        sm_get (users_of st ns) (s_uid s) = Some u \<and> now < s_issued_at s + id_token_ttl \<and>
        \<not> disabled u \<and> valid_since_secs u \<le> s_issued_at s)"

lemma session_user_iff:
  assumes ok: "auth_ok env st" and codec: "codec_ok env"
  shows "session_user env now ns t st = (Inr u, st') \<longleftrightarrow> st' = st \<and> live_session st now ns t u"
proof (cases "sm_get (sessions st) t")
  case None
  then show ?thesis by (simp add: session_user_def live_session_def)
next
  case (Some s)
  note sok = auth_okD(4)[OF ok Some, unfolded session_ok_def]
  show ?thesis
  proof (cases "s_kind s = IdToken")
    case False
    then show ?thesis using Some by (auto simp: session_user_def live_session_def split: option.splits)
  next
    case True
    then obtain w where t: "t = token_of env (session_claims env (s_issued_at s) (s_namespace s) w)"
      and exp: "s_expires_at s = s_issued_at s + id_token_ttl" "s_issued_at s + id_token_ttl < 2 ^ 64"
      using sok by auto
    define claims where "claims = session_claims env (s_issued_at s) (s_namespace s) w"
    have decoded: "(case split_on CHR ''.'' t of _ # c # _ \<Rightarrow> ae_decode env c | _ \<Rightarrow> None) = Some claims"
      unfolding t claims_def by (rule token_parts[OF codec session_claims_spec(1,2)[OF codec]])
    have secs: "claim_secs claims ''exp'' = s_issued_at s + id_token_ttl" "claim_secs claims ''auth_time'' = s_issued_at s"
      unfolding claims_def by (rule claim_secs_token[OF codec exp(2)])+
    show ?thesis
      unfolding session_user_def Some option.case decoded live_session_def
      using True exp(1) secs by (auto split: option.splits)
  qed
qed

subsection \<open>Properties\<close>


instance json :: countable
  by countable_datatype

text \<open>An environment for the witnesses: claims are numbered, and a token carries the number in unary.\<close>

definition sample_env :: auth_env where
  "sample_env = \<lparr>ae_lower = lowercase, ae_parse = (\<lambda>_. None),
     ae_encode = (\<lambda>c. replicate (to_nat c) CHR ''x''), ae_decode = (\<lambda>s. Some (from_nat (length s))),
     ae_header = ''h'', ae_is_uuid = (\<lambda>_. True)\<rparr>"

lemma sample_env_codec: "codec_ok sample_env"
  by (simp add: codec_ok_def sample_env_def)

definition sample_account :: write_account where
  "sample_account = \<lparr>w_local_id = Some ''u1'', w_email = Some ''a@b'', w_email_verified = None,
     w_display_name = None, w_photo_url = None, w_phone_number = None, w_disabled = None,
     w_disable_user = None, w_custom_attributes = None, w_valid_since = None, w_delete_attribute = [],
     w_delete_provider = [], w_link_provider_user_info = [], w_provider_user_info = [], w_mfa = [],
     w_mfa_info = [], w_password = Some ''secret'', w_id_token = None\<rparr>"

definition sample_auth :: auth_state where
  "sample_auth = snd (sign_up sample_env 100 ''100'' ''u1'' ''r1'' sample_account (empty_auth ''project/p''))"

lemma sample_auth_run: "(auth_step sample_env)\<^sup>*\<^sup>* (empty_auth ''project/p'') sample_auth"
proof -
  have "auth_step sample_env (empty_auth ''project/p'') sample_auth"
    unfolding sample_auth_def by (rule auth_step.sign_up) (simp add: refresh_token_ttl_def)
  then show ?thesis by (rule r_into_rtranclp)
qed

definition sample_user :: user where "sample_user = new_user ''100'' ''u1'' sample_account"

definition sample_token :: string where
  "sample_token = token_of sample_env (session_claims sample_env 100 ''project/p'' sample_user)"

lemma auth_sample_created:
  "create_account ''100'' ''u1'' ''project/p'' sample_account (empty_auth ''project/p'') =
     (Inr sample_user, set_users ''project/p'' [(''u1'', sample_user)] (empty_auth ''project/p''))"
  by (simp add: sample_user_def create_account_def sample_account_def validate_credentials_def bad_email_def
    unicode_spaces_def byte_def is_space_def unwrap_or_def empty_auth_def users_of_def sm_has_def sm_values_def Let_def
    eval_nat_numeral)

lemma issue_session_get:
  assumes "sm_wf (sessions st)" "t \<noteq> refresh" "t = token_of env (session_claims env now ns u)"
  shows "sm_get (sessions (snd (issue_session env now refresh ns u st))) t =
    Some \<lparr>s_namespace = ns, s_uid = local_id u, s_issued_at = now, s_expires_at = now + id_token_ttl, s_kind = IdToken\<rparr>"
  using assms by (simp add: issue_session_state bundle_sessions)

lemma sample_auth_issue:
  "sample_auth = snd (issue_session sample_env 100 ''r1'' ''project/p'' sample_user
     (set_users ''project/p'' [(''u1'', sample_user)] (empty_auth ''project/p'')))"
proof -
  have "default_namespace (empty_auth ''project/p'') = ''project/p''" by (simp add: empty_auth_def)
  then show ?thesis
    unfolding sample_auth_def sign_up_def using auth_sample_created
    by (simp add: Let_def case_prod_beta) (simp add: sample_account_def)
qed

lemma sample_auth_state:
  "users_of sample_auth = users_of (set_users ''project/p'' [(''u1'', sample_user)] (empty_auth ''project/p''))"
  "sm_get (sessions sample_auth) sample_token = Some \<lparr>s_namespace = ''project/p'', s_uid = ''u1'', s_issued_at = 100,
        s_expires_at = 100 + id_token_ttl, s_kind = IdToken\<rparr>"
proof -
  show "users_of sample_auth = users_of (set_users ''project/p'' [(''u1'', sample_user)] (empty_auth ''project/p''))"
    by (rule ext) (simp add: sample_auth_issue issue_session_state users_of_def)
  have ne: "sample_token \<noteq> ''r1''" by (simp add: sample_token_def token_of_def sample_env_def)
  have i: "local_id sample_user = ''u1''" by (simp add: sample_user_def)
  have wf: "sm_wf (sessions (set_users ''project/p'' [(''u1'', sample_user)] (empty_auth ''project/p'')))"
    by (simp add: empty_auth_def)
  show "sm_get (sessions sample_auth) sample_token = Some \<lparr>s_namespace = ''project/p'', s_uid = ''u1'',
        s_issued_at = 100, s_expires_at = 100 + id_token_ttl, s_kind = IdToken\<rparr>"
    unfolding sample_auth_issue by (rule issue_session_get[OF wf ne sample_token_def, unfolded i])
qed

lemma sample_user_facts: "\<not> disabled sample_user" "valid_since_secs sample_user = 0" "local_id sample_user = ''u1''"
proof -
  have since: "valid_since sample_user = ''0''" by (simp add: sample_user_def new_user_def sample_account_def unwrap_or_def)
  have "parse_unsigned n ''0'' = (if 0 < n then Some 0 else None)" for n
    by (simp add: parse_unsigned_def is_digit_def nat_of_digits_def digit_val_def Let_def)
  then show "valid_since_secs sample_user = 0" by (simp add: valid_since_secs_def since unwrap_or_def)
  show "\<not> disabled sample_user" "local_id sample_user = ''u1''"
    by (simp_all add: sample_user_def new_user_def sample_account_def unwrap_or_def or_else_def)
qed

lemma sample_users: "users_of sample_auth ''project/p'' = [(''u1'', sample_user)]"
  by (simp add: sample_auth_state(1)) (simp add: empty_auth_def)


text \<open>
  Property C21.  An id token is accepted exactly while its session lives: it was issued for an account of
  this project that still exists, is enabled and was not revoked since, and less than an hour has passed
  since it was issued; the account returned is that account.
\<close>

theorem token_accepted_iff:
  assumes "(auth_step env)\<^sup>*\<^sup>* (empty_auth ns0) st" "codec_ok env"
  shows "fst (session_user env now ns t st) = Inr u \<longleftrightarrow>
    (\<exists>s. sm_get (sessions st) t = Some s \<and> s_kind s = IdToken \<and> s_namespace s = ns \<and>
        sm_get (users_of st ns) (s_uid s) = Some u \<and> now < s_issued_at s + id_token_ttl \<and>
        \<not> disabled u \<and> valid_since_secs u \<le> s_issued_at s)"
  using session_user_iff[OF auth_steps_ok[OF assms(1) auth_ok_empty] assms(2), of now ns t u]
  unfolding live_session_def by (metis prod.collapse fst_conv)

theorem token_accepted_iff_witness: "fst (session_user sample_env 200 ''project/p'' sample_token sample_auth) = Inr sample_user"
proof -
  have "\<exists>s. sm_get (sessions sample_auth) sample_token = Some s \<and> s_kind s = IdToken \<and> s_namespace s = ''project/p'' \<and>
        sm_get (users_of sample_auth ''project/p'') (s_uid s) = Some sample_user \<and> 200 < s_issued_at s + id_token_ttl \<and>
        \<not> disabled sample_user \<and> valid_since_secs sample_user \<le> s_issued_at s"
    by (simp add: sample_auth_state(2) sample_users sample_user_facts id_token_ttl_def)
  then show ?thesis by (simp only: token_accepted_iff[OF sample_auth_run sample_env_codec])
qed


definition sample_account2 :: write_account where
  "sample_account2 = sample_account\<lparr>w_local_id := Some ''u2'', w_email := Some ''c@d''\<rparr>"

definition sample_user2 :: user where "sample_user2 = new_user ''100'' ''u2'' sample_account2"

lemma sample_created2:
  assumes "users_of st ''project/p'' = [(''u1'', sample_user)]"
  shows "create_account ''100'' [] ''project/p'' sample_account2 st =
    (Inr sample_user2, set_users ''project/p'' [(''u1'', sample_user), (''u2'', sample_user2)] st)"
proof -
  have valid: "validate_credentials sample_account2 = Inr ()" by code_simp
  have i: "unwrap_or (w_local_id sample_account2) [] = ''u2''" by (simp add: sample_account2_def unwrap_or_def)
  have facts: "email sample_user2 = Some ''c@d''" "phone_number sample_user2 = None" "email sample_user = Some ''a@b''"
    "local_id sample_user = ''u1''"
    by (simp_all add: sample_user2_def sample_user_def sample_account2_def sample_account_def)
  have "\<not> eq_ignore_case ''a@b'' ''c@d''" by code_simp
  then have unique: "ensure_unique [sample_user] (email sample_user2) (phone_number sample_user2) None = Inr ()"
    by (simp add: facts same_email_def)
  show ?thesis
    unfolding create_account_def valid i Let_def assms using unique
    by (simp add: sample_user2_def[symmetric] sm_has_def sm_values_def)
qed


end
