(* ===== verification/Storage_Text.thy ===== *)
theory Storage_Text
  imports Smap Strings "HOL-Library.Sublist"
begin

text \<open>
  The text processing of the Storage emulator in \<open>src/src/storage.rs\<close>: percent encoding, the
  headers an upload carries, and the multipart parser with the loop over the parts of a body.
  The values of a \<open>HeaderMap\<close> are given by their \<open>to_str\<close>, \<open>None\<close> where they are not
  text.  The JSON reader of the metadata part is a parameter.
\<close>

subsection \<open>Percent encoding\<close>

definition hex_char :: "nat \<Rightarrow> char" where
  "hex_char n = (if n < 10 then char_of (48 + n) else char_of (55 + n))"

definition unreserved :: "char \<Rightarrow> bool" where
  "unreserved c = (is_alnum c \<or> c \<in> {CHR ''-'', CHR ''_'', CHR ''.'', CHR ''~''})"

definition percent_byte :: "char \<Rightarrow> string" where
  "percent_byte c =
     (if unreserved c then [c]
      else [CHR ''%'', hex_char (of_char c div 16), hex_char (of_char c mod 16)])"

definition percent_encode :: "string \<Rightarrow> string" where
  "percent_encode s = concat (map percent_byte s)"

subsection \<open>Headers and metadata\<close>

type_synonym header_map = "(string \<times> string option) list"

definition header_string :: "header_map \<Rightarrow> string \<Rightarrow> string option" where
  "header_string hs name = (case map_of hs name of None \<Rightarrow> None | Some v \<Rightarrow> v)"

record upload_metadata =
  um_name :: "string option"
  um_content_type :: "string option"
  um_cache_control :: "string option"
  um_content_disposition :: "string option"
  um_content_encoding :: "string option"
  um_metadata :: "(string, string) smap"

definition default_metadata :: upload_metadata where
  "default_metadata = \<lparr>um_name = None, um_content_type = None, um_cache_control = None,
     um_content_disposition = None, um_content_encoding = None, um_metadata = []\<rparr>"

definition add_custom :: "string \<times> string option \<Rightarrow> (string, string) smap \<Rightarrow> (string, string) smap" where
  "add_custom h m = (case h of (name, value) \<Rightarrow>
     (case strip_prefix ''x-goog-meta-'' name of
        None \<Rightarrow> m
      | Some k \<Rightarrow> (case value of None \<Rightarrow> m | Some v \<Rightarrow> sm_put k v m)))"

definition metadata_from_headers :: "header_map \<Rightarrow> upload_metadata" where
  "metadata_from_headers hs = default_metadata
     \<lparr>um_cache_control := header_string hs ''cache-control'',
      um_content_disposition := header_string hs ''content-disposition'',
      um_content_encoding := header_string hs ''content-encoding'',
      um_metadata := fold add_custom hs []\<rparr>"

subsection \<open>UTF-8\<close>

text \<open>\<open>std::str::from_utf8\<close> accepts exactly the well-formed sequences, shortest forms only.\<close>

definition cont_byte :: "char \<Rightarrow> bool" where
  "cont_byte c = (0x80 \<le> (of_char c :: nat) \<and> (of_char c :: nat) < 0xC0)"

definition second_of_three :: "nat \<Rightarrow> nat \<Rightarrow> bool" where
  "second_of_three a b =
     (if a = 0xE0 then 0xA0 \<le> b \<and> b < 0xC0 else if a = 0xED then 0x80 \<le> b \<and> b < 0xA0 else 0x80 \<le> b \<and> b < 0xC0)"

definition second_of_four :: "nat \<Rightarrow> nat \<Rightarrow> bool" where
  "second_of_four a b =
     (if a = 0xF0 then 0x90 \<le> b \<and> b < 0xC0 else if a = 0xF4 then 0x80 \<le> b \<and> b < 0x90 else 0x80 \<le> b \<and> b < 0xC0)"

fun utf8_ok :: "string \<Rightarrow> bool" where
  "utf8_ok [] = True"
| "utf8_ok (a # s) =
     (let n = of_char a :: nat in
      if n < 0x80 then utf8_ok s
      else (case s of
              [] \<Rightarrow> False
            | b # t \<Rightarrow>
                if 0xC2 \<le> n \<and> n < 0xE0 then cont_byte b \<and> utf8_ok t
                else (case t of
                        [] \<Rightarrow> False
                      | c # u \<Rightarrow>
                          if 0xE0 \<le> n \<and> n < 0xF0
                          then second_of_three n (of_char b) \<and> cont_byte c \<and> utf8_ok u
                          else (case u of
                                  [] \<Rightarrow> False
                                | d # v \<Rightarrow> 0xF0 \<le> n \<and> n < 0xF5 \<and> second_of_four n (of_char b) \<and>
                                    cont_byte c \<and> cont_byte d \<and> utf8_ok v))))"

lemma utf8_ok_ascii: "(\<And>c. c \<in> set s \<Longrightarrow> of_char c < (128 :: nat)) \<Longrightarrow> utf8_ok s"
  by (induction s) (auto simp: Let_def)

subsection \<open>Multipart bodies\<close>

definition find_bytes :: "string \<Rightarrow> string \<Rightarrow> nat option" where
  "find_bytes haystack needle =
     (if needle = [] then Some 0
      else List.find (\<lambda>i. take (length needle) (drop i haystack) = needle)
             [0 ..< Suc (length haystack) - length needle])"

definition crlf :: string where "crlf = [CHR 0x0D, CHR 0x0A]"

definition lines :: "string \<Rightarrow> string list" where
  "lines s =
     (let ps = split_on (CHR 0x0A) s;
          strip = (\<lambda>l. case strip_suffix [CHR 0x0D] l of None \<Rightarrow> l | Some r \<Rightarrow> r)
      in map strip (butlast ps) @ (if List.last ps = [] then [] else [List.last ps]))"

fun find_map :: "('a \<Rightarrow> 'b option) \<Rightarrow> 'a list \<Rightarrow> 'b option" where
  "find_map f [] = None"
| "find_map f (x # xs) = (case f x of None \<Rightarrow> find_map f xs | Some y \<Rightarrow> Some y)"

definition part_content_type :: "string \<Rightarrow> string option" where
  "part_content_type headers =
     find_map (\<lambda>line. case split_once '':'' line of
        None \<Rightarrow> None
      | Some (name, value) \<Rightarrow>
          (if eq_ignore_case name ''content-type'' then Some (trim value) else None)) (lines headers)"

definition trim_quotes :: "string \<Rightarrow> string" where
  "trim_quotes s = rev (dropWhile (\<lambda>c. c = CHR 0x22) (rev (dropWhile (\<lambda>c. c = CHR 0x22) s)))"

definition multipart_boundary :: "string \<Rightarrow> string + string" where
  "multipart_boundary content_type =
     (case find_map (strip_prefix ''boundary='') (map trim (split_on CHR '';'' content_type)) of
        None \<Rightarrow> Inl ''multipart boundary is missing''
      | Some v \<Rightarrow> (let b = trim_quotes v in
          if b = [] then Inl ''multipart boundary is missing'' else Inr b))"

text \<open>
  The loop over the parts.  \<open>cursor\<close> is the position of a marker; a part is its headers and its
  bytes.
\<close>

lemma find_bytes_Some:
  assumes "find_bytes h n = Some i"
  shows "i + length n \<le> length h" "take (length n) (drop i h) = n"
    "j < i \<Longrightarrow> take (length n) (drop j h) \<noteq> n"
proof -
  have "i + length n \<le> length h \<and> take (length n) (drop i h) = n \<and> (j < i \<longrightarrow> take (length n) (drop j h) \<noteq> n)"
  proof (cases "n = []")
    case True then show ?thesis using assms by (simp add: find_bytes_def)
  next
    case False
    then have f: "List.find (\<lambda>i. take (length n) (drop i h) = n) [0 ..< Suc (length h) - length n] = Some i"
      using assms by (simp add: find_bytes_def)
    then obtain k where k: "k < Suc (length h) - length n" "i = k"
        "take (length n) (drop i h) = n" "\<forall>j<k. take (length n) (drop j h) \<noteq> n"
      by (auto simp: find_Some_iff)
    then show ?thesis by auto
  qed
  then show "i + length n \<le> length h" "take (length n) (drop i h) = n"
    "j < i \<Longrightarrow> take (length n) (drop j h) \<noteq> n" by simp_all
qed

function multipart_parts :: "string \<Rightarrow> string \<Rightarrow> nat \<Rightarrow> (string \<times> string) list \<Rightarrow> string + (string \<times> string) list" where
  "multipart_parts marker body cursor parts =
     (let c = cursor + length marker in
      if take 2 (drop c body) = ''--'' then Inr parts
      else let c = (if take 2 (drop c body) = crlf then c + 2 else c) in
        (case find_bytes (drop c body) (crlf @ crlf) of
           None \<Rightarrow> Inl ''multipart part headers are incomplete''
         | Some header_end \<Rightarrow>
             let headers = take header_end (drop c body); start = c + header_end + 4 in
             if \<not> utf8_ok headers then Inl ''multipart part headers are not UTF-8''
             else (case find_bytes (drop start body) (crlf @ marker) of
                     None \<Rightarrow> Inl ''multipart closing boundary is missing''
                   | Some n \<Rightarrow> multipart_parts marker body (start + n + 2)
                                 (parts @ [(headers, take n (drop start body))]))))"
  by pat_completeness auto
termination
proof (relation "measure (\<lambda>(marker, body, cursor, parts). length body - cursor)", goal_cases)
  case (2 marker body cursor parts c c' h headers start n)
  have "h + 4 \<le> length (drop c' body)"
    using find_bytes_Some(1)[OF 2(4)] by (simp add: crlf_def)
  then show ?case using 2(1,3,6) by (auto split: if_splits)
qed simp

declare multipart_parts.simps [simp del]

definition parse_multipart ::
  "(string \<Rightarrow> upload_metadata option) \<Rightarrow> string \<Rightarrow> string \<Rightarrow>
   string + (upload_metadata \<times> string \<times> string option)" where
  "parse_multipart read content_type body =
     rbind (multipart_boundary content_type) (\<lambda>boundary.
     let marker = ''--'' @ boundary in
     rbind (of_option ''multipart boundary not found'' (find_bytes body marker)) (\<lambda>cursor.
     rbind (multipart_parts marker body cursor []) (\<lambda>parts.
       (case parts of
          (_, first) # (headers, media) # _ \<Rightarrow>
            rbind (of_option ''multipart metadata is invalid JSON'' (read first)) (\<lambda>metadata.
              Inr (metadata, media, part_content_type headers))
        | _ \<Rightarrow> Inl ''multipart upload requires metadata and media parts''))))"

subsection \<open>Reading back what a client sends\<close>

lemma find_bytes_here:
  assumes "needle \<noteq> []" "\<And>j. j < length a \<Longrightarrow> take (length needle) (drop j (a @ needle @ b)) \<noteq> needle"
  shows "find_bytes (a @ needle @ b) needle = Some (length a)"
proof -
  have "0 < length needle" using assms(1) by simp
  then have "Suc (length (a @ needle @ b)) - length needle = length a + Suc (length b)" by simp
  moreover have "[0 ..< length a + Suc (length b)] ! i = i" if "i < length a + Suc (length b)" for i
    using that by (simp del: upt_Suc)
  ultimately show ?thesis using assms
    unfolding find_bytes_def by (auto simp: find_Some_iff simp del: upt_Suc intro!: exI[of _ "length a"])
qed

lemma find_bytes_char: "x \<notin> set a \<Longrightarrow> find_bytes (a @ (x # xs) @ b) (x # xs) = Some (length a)"
proof (rule find_bytes_here)
  fix j assume "x \<notin> set a" "j < length a"
  then have "hd (take (length (x # xs)) (drop j (a @ (x # xs) @ b))) \<noteq> x"
    by (simp add: hd_take hd_drop_conv_nth nth_append) (metis nth_mem)
  then show "take (length (x # xs)) (drop j (a @ (x # xs) @ b)) \<noteq> x # xs" by (metis list.sel(1))
qed simp

lemma find_bytes_sublist:
  assumes "x \<notin> set xs" "\<not> sublist (x # xs) a"
  shows "find_bytes (a @ (x # xs) @ b) (x # xs) = Some (length a)"
proof (rule find_bytes_here)
  fix j assume j: "j < length a"
  show "take (length (x # xs)) (drop j (a @ (x # xs) @ b)) \<noteq> x # xs"
  proof
    assume eq: "take (length (x # xs)) (drop j (a @ (x # xs) @ b)) = x # xs"
    show False
    proof (cases "j + length (x # xs) \<le> length a")
      case True
      then have "take (length (x # xs)) (drop j a) = x # xs" using eq by simp
      then have "a = take j a @ (x # xs) @ drop (length (x # xs)) (drop j a)"
        by (metis append_take_drop_id)
      then show False using assms(2) by (metis sublist_appendI)
    next
      case False
      define k where "k = length a - j"
      have k: "0 < k" "k < length (x # xs)" "j + k = length a" using j False by (auto simp: k_def)
      have "(x # xs) ! k = (a @ (x # xs) @ b) ! (j + k)"
        using eq k(2) j by (metis append_assoc length_append nth_drop nth_take less_imp_le trans_le_add1)
      also have "\<dots> = x" by (simp add: k(3) nth_append)
      finally show False using k assms(1) by (cases k) auto
    qed
  qed
qed simp

lemma drop_length_append: "drop (length xs) (xs @ ys) = ys"
  by simp

lemma part_step:
  fixes marker pre post :: string
  assumes "CHR 0x0D \<notin> set marker" "CHR 0x0D \<notin> set h" "utf8_ok h" "\<not> sublist (crlf @ marker) c"
  defines "body \<equiv> pre @ marker @ crlf @ h @ crlf @ crlf @ c @ crlf @ marker @ post"
  shows "multipart_parts marker body (length pre) parts =
    multipart_parts marker body (length (pre @ marker @ crlf @ h @ crlf @ crlf @ c @ crlf)) (parts @ [(h, c)])"
proof -
  have cr: "crlf = CHR 0x0D # [CHR 0x0A]" by (simp add: crlf_def)
  have d1: "drop (length pre + length marker) body = crlf @ h @ crlf @ crlf @ c @ crlf @ marker @ post"
    unfolding body_def by simp
  have d2: "drop (length pre + length marker + 2) body = h @ (crlf @ crlf) @ c @ crlf @ marker @ post"
    unfolding body_def by (simp add: crlf_def)
  have d3: "drop (length pre + length marker + 2 + length h + 4) body = c @ (crlf @ marker) @ post"
  proof -
    have "drop (length (h @ crlf @ crlf)) ((h @ crlf @ crlf) @ c @ (crlf @ marker) @ post) = c @ (crlf @ marker) @ post"
      by (rule drop_length_append)
    moreover have "length (h @ crlf @ crlf) = length h + 4" by (simp add: crlf_def)
    ultimately have "drop (length h + 4) (drop (length pre + length marker + 2) body) = c @ (crlf @ marker) @ post"
      unfolding d2 by simp
    then show ?thesis by (simp add: add.commute add.left_commute)
  qed
  have f1: "find_bytes (h @ (crlf @ crlf) @ c @ crlf @ marker @ post) (crlf @ crlf) = Some (length h)"
    using find_bytes_char[OF assms(2), of "[CHR 0x0A] @ crlf"] by (simp add: cr)
  have f2: "find_bytes (c @ (crlf @ marker) @ post) (crlf @ marker) = Some (length c)"
    using find_bytes_sublist[of "CHR 0x0D" "[CHR 0x0A] @ marker" c post] assms(1,4) by (simp add: cr)
  have t: "take 2 (crlf @ w) = crlf" for w by (simp add: crlf_def)
  have ne: "crlf \<noteq> ''--''" by (simp add: crlf_def)
  let ?c = "length pre + length marker"
  have c: "take 2 (drop ?c body) = crlf" by (simp only: d1 t)
  have fh: "find_bytes (drop (?c + 2) body) (crlf @ crlf) = Some (length h)" by (simp only: d2 f1)
  have th: "take (length h) (drop (?c + 2) body) = h" unfolding d2 by simp
  have fc: "find_bytes (drop (?c + 2 + length h + 4) body) (crlf @ marker) = Some (length c)" by (simp only: d3 f2)
  have tc: "take (length c) (drop (?c + 2 + length h + 4) body) = c" unfolding d3 by simp
  have len: "length (pre @ marker @ crlf @ h @ crlf @ crlf @ c @ crlf) = ?c + 2 + length h + 4 + length c + 2"
    by (simp add: crlf_def)
  show ?thesis
    unfolding len
    by (subst multipart_parts.simps) (simp only: Let_def c ne if_False if_True fh th fc tc option.case assms(3) not_True_eq_False refl simp_thms)
qed

lemma parts_end:
  "take 2 post = ''--'' \<Longrightarrow> multipart_parts marker (pre @ marker @ post) (length pre) parts = Inr parts"
  by (subst multipart_parts.simps) simp

text \<open>The body a client builds from a boundary, the metadata, a content type and the bytes.\<close>

definition multipart_body :: "string \<Rightarrow> string \<Rightarrow> string \<Rightarrow> string \<Rightarrow> string" where
  "multipart_body boundary metadata ty media =
     ''--'' @ boundary @ crlf @ ''Content-Type: application/json'' @ crlf @ crlf @ metadata @ crlf @
     ''--'' @ boundary @ crlf @ ''Content-Type: '' @ ty @ crlf @ crlf @ media @ crlf @
     ''--'' @ boundary @ ''--'' @ crlf"

lemma trim_space [simp]: "is_space c \<Longrightarrow> trim (c # s) = trim s"
  by (simp add: trim_def)

lemma trim_no_space: "(\<And>c. c \<in> set s \<Longrightarrow> \<not> is_space c) \<Longrightarrow> trim s = s"
proof -
  assume n: "\<And>c. c \<in> set s \<Longrightarrow> \<not> is_space c"
  have "dropWhile is_space t = t" if "set t \<subseteq> set s" for t
    using n that by (cases t) auto
  from this[of s] this[of "rev s"] show ?thesis by (simp add: trim_def)
qed

lemma trim_quotes_none: "CHR 0x22 \<notin> set s \<Longrightarrow> trim_quotes s = s"
proof -
  assume n: "CHR 0x22 \<notin> set s"
  have "dropWhile (\<lambda>c. c = CHR 0x22) t = t" if "set t \<subseteq> set s" for t
    using n that by (cases t) auto
  from this[of s] this[of "rev s"] show ?thesis by (simp add: trim_quotes_def)
qed

lemma boundary_of:
  assumes "b \<noteq> []" "\<And>c. c \<in> set b \<Longrightarrow> \<not> is_space c \<and> c \<noteq> CHR 0x22 \<and> c \<noteq> CHR '';''"
  shows "multipart_boundary (''multipart/related; boundary='' @ b) = Inr b"
proof -
  have semi: "CHR '';'' \<notin> set b" using assms(2) by blast
  have "split_on CHR '';'' (''multipart/related'' @ CHR '';'' # ('' boundary='' @ b)) =
      [''multipart/related'', '' boundary='' @ b]"
    by (rule trans[OF split_on_append_sep]) (use semi in simp_all)
  moreover have "trim ('' boundary='' @ b) = ''boundary='' @ b"
  proof -
    have "trim (''boundary='' @ b) = ''boundary='' @ b"
    proof (rule trim_no_space)
      fix c assume "c \<in> set (''boundary='' @ b)"
      moreover have "\<forall>c \<in> set ''boundary=''. \<not> is_space c" by (simp add: is_space_def)
      ultimately show "\<not> is_space c" using assms(2) unfolding set_append by blast
    qed
    moreover have "is_space CHR '' ''" by (simp add: is_space_def)
    ultimately show ?thesis by simp
  qed
  moreover have "strip_prefix ''boundary='' (trim ''multipart/related'') = None" by code_simp
  moreover have "trim_quotes b = b" by (rule trim_quotes_none) (use assms(2) in blast)
  ultimately show ?thesis using assms(1) by (simp add: multipart_boundary_def Let_def)
qed

lemma content_type_line:
  assumes "CHR 0x0A \<notin> set ty" "trim ty = ty"
  shows "part_content_type (''Content-Type: '' @ ty) = Some ty"
proof -
  let ?line = "''Content-Type: '' @ ty"
  have "split_on (CHR 0x0A) ?line = [?line]" by (rule split_on_no_sep) (use assms(1) in simp)
  then have "lines ?line = [?line]" by (simp add: lines_def)
  moreover have "split_once '':'' (''Content-Type'' @ CHR '':'' # ('' '' @ ty)) = Some (''Content-Type'', '' '' @ ty)"
    by (rule split_once_char) simp
  moreover have "eq_ignore_case ''Content-Type'' ''content-type''" by code_simp
  moreover have "is_space CHR '' ''" by (simp add: is_space_def)
  ultimately show ?thesis using assms(2) by (simp add: part_content_type_def)
qed

text \<open>
  Property C27.  A multipart upload arrives as it was sent: from the body a client builds the parser gives
  back the metadata, the bytes of the object and the content type of their part, whatever the bytes are, as
  long as the boundary line does not occur in them.
\<close>

theorem multipart_roundtrip:
  assumes "boundary \<noteq> []" "\<forall>c \<in> set boundary. \<not> is_space c \<and> c \<noteq> CHR 0x22 \<and> c \<noteq> CHR '';''"
    and "read metadata = Some md"
    and "\<not> sublist (crlf @ ''--'' @ boundary) metadata" "\<not> sublist (crlf @ ''--'' @ boundary) media"
    and "CHR 0x0D \<notin> set ty" "CHR 0x0A \<notin> set ty" "trim ty = ty" "utf8_ok ty"
  shows "parse_multipart read (''multipart/related; boundary='' @ boundary)
      (multipart_body boundary metadata ty media) = Inr (md, media, Some ty)"
proof -
  let ?m = "''--'' @ boundary" and ?h1 = "''Content-Type: application/json''" and ?h2 = "''Content-Type: '' @ ty"
  let ?rest = "crlf @ ?h2 @ crlf @ crlf @ media @ crlf @ ?m @ ''--'' @ crlf"
  let ?pre = "?m @ crlf @ ?h1 @ crlf @ crlf @ metadata @ crlf"
  have body: "multipart_body boundary metadata ty media = [] @ ?m @ crlf @ ?h1 @ crlf @ crlf @ metadata @ crlf @ ?m @ ?rest"
    "multipart_body boundary metadata ty media = ?pre @ ?m @ ?rest"
    "multipart_body boundary metadata ty media = (?pre @ ?m @ crlf @ ?h2 @ crlf @ crlf @ media @ crlf) @ ?m @ ''--'' @ crlf"
    unfolding multipart_body_def by (simp_all only: append_assoc append_Nil)
  have "is_space (CHR 0x0D)" by (simp add: is_space_def)
  then have "CHR 0x0D \<notin> set boundary" using assms(2) by blast
  then have cr: "CHR 0x0D \<notin> set ?m" by simp
  have h: "CHR 0x0D \<notin> set ?h1" "utf8_ok ?h1" "CHR 0x0D \<notin> set ?h2" "utf8_ok ?h2"
    using assms(6,9) by (simp_all add: Let_def)
  have "find_bytes (multipart_body boundary metadata ty media) ?m = Some 0"
    unfolding body(1) using find_bytes_here[of ?m "[]"] by simp
  moreover have "multipart_parts ?m (multipart_body boundary metadata ty media) 0 [] =
      multipart_parts ?m (multipart_body boundary metadata ty media) (length ?pre) [(?h1, metadata)]"
    using part_step[OF cr h(1,2) assms(4), of "[]" ?rest "[]"] unfolding body(1) by (simp only: append_Nil list.size append_assoc)
  moreover have "\<dots> = multipart_parts ?m (multipart_body boundary metadata ty media)
      (length (?pre @ ?m @ crlf @ ?h2 @ crlf @ crlf @ media @ crlf)) [(?h1, metadata), (?h2, media)]"
    using part_step[OF cr h(3,4) assms(5), of ?pre "''--'' @ crlf" "[(?h1, metadata)]"] unfolding body(2)
    by (simp only: append_Cons append_Nil append_assoc)
  moreover have "\<dots> = Inr [(?h1, metadata), (?h2, media)]"
    unfolding body(3) by (rule parts_end) simp
  moreover have "multipart_boundary (''multipart/related; boundary='' @ boundary) = Inr boundary"
    by (rule boundary_of) (use assms(1,2) in auto)
  ultimately show ?thesis
    using content_type_line[OF assms(7,8)] by (simp add: parse_multipart_def assms(3) Let_def)
qed

theorem multipart_roundtrip_witness:
  "parse_multipart (\<lambda>s. if s = ''{}'' then Some default_metadata else None) ''multipart/related; boundary=B''
      (multipart_body ''B'' ''{}'' ''text/plain'' ''a--B'') = Inr (default_metadata, ''a--B'', Some ''text/plain'')"
proof -
  let ?read = "\<lambda>s. if s = ''{}'' then Some default_metadata else None"
  have none: "\<not> sublist (crlf @ ''--'' @ ''B'') ''{}''" "\<not> sublist (crlf @ ''--'' @ ''B'') ''a--B''"
    by (auto simp: crlf_def dest!: set_mono_sublist)
  have "trim ''text/plain'' = ''text/plain''" by code_simp
  moreover have "utf8_ok ''text/plain''" by (simp add: Let_def)
  ultimately show ?thesis
    using multipart_roundtrip[of "''B''" ?read "''{}''" default_metadata "''a--B''" "''text/plain''"] none
    by (simp add: is_space_def)
qed

end
