(* ===== verification/Storage.thy ===== *)
theory Storage
  imports Storage_Text Json Civil_Date
begin

text \<open>
  The Storage emulator of \<open>src/src/storage.rs\<close> without a data directory: the objects by bucket
  and name, the resumable uploads by id, and every handler of the router.  A handler gives its
  response, the events it hands to \<open>storage_changed\<close>, and the new state.  The checksum, the JSON
  reader, uuid parsing, base64 and the header value check are library code, collected in
  \<open>storage_env\<close>; the clock and fresh uuids are arguments.  Sizes are 64-bit.
\<close>

subsection \<open>State\<close>

definition resumable_upload_ttl :: nat where "resumable_upload_ttl = 60 * 60"
definition max_upload_bytes :: nat where "max_upload_bytes = 64 * 1024 * 1024"

record storage_env =
  se_metadata :: "string \<Rightarrow> string + upload_metadata"
  se_crc32c :: "string \<Rightarrow> string"
  se_uuid :: "string \<Rightarrow> string option"
  se_header_value :: "string \<Rightarrow> bool"
  se_encode :: "string \<Rightarrow> string"
  se_decode :: "string \<Rightarrow> string option"

record stored_object =
  so_bucket :: string
  so_name :: string
  so_bytes :: "string option"
  so_blob_name :: "string option"
  so_size :: nat
  so_crc32c :: string
  so_content_type :: string
  so_metadata :: "(string, string) smap"
  so_cache_control :: "string option"
  so_content_disposition :: "string option"
  so_content_encoding :: "string option"
  so_generation :: nat
  so_created :: string
  so_updated :: string
  so_download_token :: string

record pending_upload =
  pu_bucket :: string
  pu_name :: string
  pu_metadata :: upload_metadata
  pu_bytes :: string
  pu_created_at :: nat

record storage_data =
  next_generation :: nat
  objects :: "(string \<times> string, stored_object) smap"
  uploads :: "(string, pending_upload) smap"

definition sat_u64 :: "nat \<Rightarrow> nat" where
  "sat_u64 n = min n (2 ^ 64 - 1)"

definition prune_expired_uploads :: "storage_data \<Rightarrow> nat \<Rightarrow> storage_data" where
  "prune_expired_uploads data now =
     data\<lparr>uploads := sm_retain (\<lambda>_ u. sat_u64 (pu_created_at u + resumable_upload_ttl) > now) (uploads data)\<rparr>"

subsection \<open>Responses\<close>

datatype body = NoBody | JsonBody json | BytesBody string

record response =
  r_status :: nat
  r_headers :: "(string, string) smap"
  r_body :: body

definition status_response :: "nat \<Rightarrow> body \<Rightarrow> response" where
  "status_response n b = \<lparr>r_status = n, r_headers = [], r_body = b\<rparr>"

definition insert_header :: "string \<Rightarrow> string \<Rightarrow> response \<Rightarrow> response" where
  "insert_header k v r = r\<lparr>r_headers := sm_put k v (r_headers r)\<rparr>"

definition api_error :: "nat \<Rightarrow> string \<Rightarrow> response" where
  "api_error n m = status_response n (JsonBody (jobject [(''error'', jobject
     [(''code'', JInt (int n)), (''message'', JString m),
      (''errors'', JArray [jobject [(''message'', JString m)]])])]))"

definition object_json :: "stored_object \<Rightarrow> json" where
  "object_json ob =
     (let path = ''/storage/v1/b/'' @ percent_encode (so_bucket ob) @ ''/o/'' @ percent_encode (so_name ob);
          opt = (\<lambda>k v. case v of None \<Rightarrow> [] | Some s \<Rightarrow> [(k, JString s)])
      in jobject
       ([(''kind'', JString ''storage#object''),
         (''id'', JString (so_bucket ob @ ''/'' @ so_name ob @ ''/'' @ show_nat (so_generation ob))),
         (''selfLink'', JString path), (''mediaLink'', JString (path @ ''?alt=media'')),
         (''name'', JString (so_name ob)), (''bucket'', JString (so_bucket ob)),
         (''generation'', JString (show_nat (so_generation ob))), (''metageneration'', JString ''1''),
         (''contentType'', JString (so_content_type ob)), (''size'', JString (show_nat (so_size ob))),
         (''crc32c'', JString (so_crc32c ob)), (''timeCreated'', JString (so_created ob)),
         (''updated'', JString (so_updated ob)),
         (''etag'', JString (CHR 0x22 # show_nat (so_generation ob) @ [CHR 0x22])),
         (''metadata'', JObject (map (\<lambda>(k, v). (k, JString v)) (so_metadata ob))),
         (''downloadTokens'', JString (so_download_token ob))] @
        opt ''cacheControl'' (so_cache_control ob) @
        opt ''contentDisposition'' (so_content_disposition ob) @
        opt ''contentEncoding'' (so_content_encoding ob)))"

definition media_header :: "storage_env \<Rightarrow> string \<Rightarrow> string option \<Rightarrow> response \<Rightarrow> response" where
  "media_header env k v r =
     (case v of None \<Rightarrow> r | Some x \<Rightarrow> if se_header_value env x then insert_header k x r else r)"

definition media_response :: "storage_env \<Rightarrow> stored_object \<Rightarrow> response" where
  "media_response env ob =
     (let r = status_response 200 (BytesBody (case so_bytes ob of None \<Rightarrow> [] | Some b \<Rightarrow> b));
          r = insert_header ''x-goog-hash'' (''crc32c='' @ so_crc32c ob) r;
          r = insert_header ''x-goog-stored-content-encoding'' ''identity'' r;
          r = media_header env ''content-type'' (Some (so_content_type ob)) r;
          r = media_header env ''cache-control'' (so_cache_control ob) r;
          r = media_header env ''content-disposition'' (so_content_disposition ob) r;
          r = media_header env ''content-encoding'' (so_content_encoding ob) r
      in insert_header ''etag'' (CHR 0x22 # show_nat (so_generation ob) @ [CHR 0x22]) r)"

definition bucket_metadata :: "string \<Rightarrow> response" where
  "bucket_metadata bucket = status_response 200 (JsonBody (jobject
     [(''kind'', JString ''storage#bucket''), (''id'', JString bucket), (''name'', JString bucket),
      (''location'', JString ''US''), (''storageClass'', JString ''STANDARD''),
      (''metageneration'', JString ''1'')]))"

subsection \<open>Saving an object\<close>

type_synonym storage_event = "string \<times> json"
type_synonym storage_result = "response \<times> storage_event list \<times> storage_data"

definition first_of :: "'a option \<Rightarrow> 'a option \<Rightarrow> 'a option" where
  "first_of a b = (case a of None \<Rightarrow> b | Some _ \<Rightarrow> a)"

definition new_object ::
  "storage_env \<Rightarrow> nat \<Rightarrow> string \<Rightarrow> string \<Rightarrow> string \<Rightarrow> string \<Rightarrow> upload_metadata \<Rightarrow> string option \<Rightarrow> storage_data \<Rightarrow> stored_object" where
  "new_object env now token bucket name bytes md fallback data =
     (let stamp = timestamp_from_unix (int now) in
      \<lparr>so_bucket = bucket, so_name = name, so_bytes = Some bytes, so_blob_name = None,
       so_size = length bytes, so_crc32c = se_crc32c env bytes,
       so_content_type = (case first_of (um_content_type md) fallback of
          None \<Rightarrow> ''application/octet-stream'' | Some t \<Rightarrow> t),
       so_metadata = um_metadata md, so_cache_control = um_cache_control md,
       so_content_disposition = um_content_disposition md, so_content_encoding = um_content_encoding md,
       so_generation = next_generation data + 1,
       so_created = (case sm_get (objects data) (bucket, name) of None \<Rightarrow> stamp | Some old \<Rightarrow> so_created old),
       so_updated = stamp, so_download_token = token\<rparr>)"

definition save_object ::
  "storage_env \<Rightarrow> nat \<Rightarrow> string \<Rightarrow> string \<Rightarrow> string \<Rightarrow> string \<Rightarrow> upload_metadata \<Rightarrow> string option \<Rightarrow> storage_data \<Rightarrow> storage_result" where
  "save_object env now token bucket name bytes md fallback data =
     (let ob = new_object env now token bucket name bytes md fallback data; v = object_json ob in
      (status_response 200 (JsonBody v), [(''finalize'', v)],
       data\<lparr>next_generation := next_generation data + 1, objects := sm_put (bucket, name) ob (objects data)\<rparr>))"

subsection \<open>Resumable uploads\<close>

record upload_query =
  uq_upload_type :: "string option"
  uq_name :: "string option"
  uq_upload_id :: "string option"

definition active_response :: "nat \<Rightarrow> response" where
  "active_response n =
     insert_header ''x-goog-upload-size-received'' (show_nat n)
       (insert_header ''x-goog-upload-status'' ''active'' (status_response 200 NoBody))"

definition upload_command :: "header_map \<Rightarrow> string" where
  "upload_command hs = (case header_string hs ''x-goog-upload-command'' of None \<Rightarrow> [] | Some c \<Rightarrow> c)"

definition upload_offset :: "header_map \<Rightarrow> nat option" where
  "upload_offset hs = Option.bind (header_string hs ''x-goog-upload-offset'') (parse_unsigned (2 ^ 64))"

definition finalizes :: "string \<Rightarrow> bool" where
  "finalizes command = (command = [] \<or> split_once ''finalize'' command \<noteq> None)"

definition resumable_put ::
  "storage_env \<Rightarrow> nat \<Rightarrow> string \<Rightarrow> string \<Rightarrow> upload_query \<Rightarrow> header_map \<Rightarrow> string \<Rightarrow> storage_data \<Rightarrow> storage_result" where
  "resumable_put env now token bucket q hs bytes data0 =
     (case Option.bind (uq_upload_id q) (se_uuid env) of
        None \<Rightarrow> (api_error 400 ''missing upload_id'', [], data0)
      | Some i \<Rightarrow>
        let data = prune_expired_uploads data0 now in
        (case (case sm_get (uploads data) i of None \<Rightarrow> None
               | Some p \<Rightarrow> if pu_bucket p = bucket then Some p else None) of
           None \<Rightarrow> (api_error 404 ''upload session not found'', [], data)
         | Some p \<Rightarrow>
           let command = upload_command hs in
           if command = ''cancel''
           then (status_response 200 NoBody, [], data\<lparr>uploads := sm_del i (uploads data)\<rparr>)
           else if command = ''query'' then (active_response (length (pu_bytes p)), [], data)
           else if (case upload_offset hs of None \<Rightarrow> False | Some n \<Rightarrow> n \<noteq> length (pu_bytes p))
           then (api_error 400 ''upload offset does not match received size'', [], data)
           else if sat_u64 (length (pu_bytes p) + length bytes) > max_upload_bytes
           then (api_error 413 ''object exceeds 64 MiB limit'', [], data)
           else let p = p\<lparr>pu_bytes := pu_bytes p @ bytes\<rparr> in
             if \<not> finalizes command
             then (active_response (length (pu_bytes p)), [], data\<lparr>uploads := sm_put i p (uploads data)\<rparr>)
             else let (r, ev, data') = save_object env now token (pu_bucket p) (pu_name p) (pu_bytes p)
                        (pu_metadata p) (header_string hs ''content-type'') (data\<lparr>uploads := sm_del i (uploads data)\<rparr>)
               in (insert_header ''x-goog-upload-size-received'' (show_nat (length (pu_bytes p)))
                     (insert_header ''x-goog-upload-status'' ''final'' r), ev, data')))"

definition upload_name :: "string option \<Rightarrow> string option" where
  "upload_name n = (case n of None \<Rightarrow> None | Some s \<Rightarrow> if s = [] then None else Some s)"

definition start_upload ::
  "nat \<Rightarrow> string \<Rightarrow> string \<Rightarrow> header_map \<Rightarrow> string \<Rightarrow> upload_metadata \<Rightarrow> storage_data \<Rightarrow> storage_result" where
  "start_upload now i bucket hs name md data =
     (let md = (if um_content_type md = None
                then md\<lparr>um_content_type := header_string hs ''x-upload-content-type''\<rparr> else md);
          data = prune_expired_uploads data now;
          host = (case header_string hs ''host'' of None \<Rightarrow> ''127.0.0.1:9199'' | Some h \<Rightarrow> h);
          location = ''http://'' @ host @ ''/upload/storage/v1/b/'' @ percent_encode bucket @
                     ''/o?uploadType=resumable&upload_id='' @ i
      in (insert_header ''x-goog-upload-status'' ''active''
            (insert_header ''x-goog-upload-url'' location
              (insert_header ''x-guploader-uploadid'' i
                (insert_header ''location'' location (status_response 200 NoBody)))),
          [], data\<lparr>uploads := sm_put i \<lparr>pu_bucket = bucket, pu_name = name, pu_metadata = md, pu_bytes = [],
                                         pu_created_at = now\<rparr> (uploads data)\<rparr>))"

subsection \<open>Handlers\<close>

definition upload_object ::
  "storage_env \<Rightarrow> nat \<Rightarrow> string \<Rightarrow> string \<Rightarrow> string \<Rightarrow> upload_query \<Rightarrow> header_map \<Rightarrow> string \<Rightarrow> storage_data \<Rightarrow> storage_result" where
  "upload_object env now i token bucket q hs bytes data =
     (if uq_upload_id q \<noteq> None then resumable_put env now token bucket q hs bytes data
      else
        let kind = (case first_of (uq_upload_type q) (header_string hs ''x-goog-upload-protocol'') of
                      None \<Rightarrow> ''media'' | Some k \<Rightarrow> k);
            failed = (\<lambda>m. (api_error 400 m, [], data)) in
        if kind = ''resumable'' then
          (case (if bytes = [] then Inr default_metadata else se_metadata env bytes) of
             Inl e \<Rightarrow> failed e
           | Inr md \<Rightarrow>
               let taken = (if uq_name q = None then md\<lparr>um_name := None\<rparr> else md) in
               (case upload_name (first_of (uq_name q) (um_name md)) of
                  None \<Rightarrow> failed ''missing object name''
                | Some name \<Rightarrow> start_upload now i bucket hs name taken data))
        else if kind = ''multipart'' then
          (case parse_multipart (\<lambda>s. case se_metadata env s of Inl _ \<Rightarrow> None | Inr md \<Rightarrow> Some md)
                  (case header_string hs ''content-type'' of None \<Rightarrow> [] | Some t \<Rightarrow> t) bytes of
             Inl e \<Rightarrow> failed e
           | Inr (md, media, media_type) \<Rightarrow>
               (case upload_name (first_of (uq_name q) (um_name md)) of
                  None \<Rightarrow> failed ''missing object name''
                | Some name \<Rightarrow> save_object env now token bucket name media md media_type data))
        else if kind = ''media'' then
          (case upload_name (uq_name q) of
             None \<Rightarrow> failed ''missing object name''
           | Some name \<Rightarrow> save_object env now token bucket name bytes
               ((metadata_from_headers hs)\<lparr>um_content_type := header_string hs ''content-type''\<rparr>) None data)
        else failed (''unsupported uploadType: '' @ kind))"

definition put_signed_object ::
  "storage_env \<Rightarrow> nat \<Rightarrow> string \<Rightarrow> string \<Rightarrow> string \<Rightarrow> header_map \<Rightarrow> string \<Rightarrow> storage_data \<Rightarrow> storage_result" where
  "put_signed_object env now token bucket name hs bytes data =
     save_object env now token bucket name bytes
       ((metadata_from_headers hs)\<lparr>um_content_type := header_string hs ''content-type''\<rparr>) None data"

definition get_object :: "storage_env \<Rightarrow> string \<Rightarrow> string \<Rightarrow> string option \<Rightarrow> storage_data \<Rightarrow> response" where
  "get_object env bucket name alt data =
     (case sm_get (objects data) (bucket, name) of
        None \<Rightarrow> api_error 404 ''object not found''
      | Some ob \<Rightarrow> if alt = Some ''media'' then media_response env ob
                   else status_response 200 (JsonBody (object_json ob)))"

definition get_signed_object :: "storage_env \<Rightarrow> string \<Rightarrow> string \<Rightarrow> storage_data \<Rightarrow> response" where
  "get_signed_object env bucket name data =
     (case sm_get (objects data) (bucket, name) of
        None \<Rightarrow> api_error 404 ''object not found'' | Some ob \<Rightarrow> media_response env ob)"

definition delete_object :: "string \<Rightarrow> string \<Rightarrow> storage_data \<Rightarrow> storage_result" where
  "delete_object bucket name data =
     (case sm_get (objects data) (bucket, name) of
        None \<Rightarrow> (api_error 404 ''object not found'', [], data)
      | Some ob \<Rightarrow> (status_response 204 NoBody, [(''delete'', object_json ob)],
                    data\<lparr>objects := sm_del (bucket, name) (objects data)\<rparr>))"

text \<open>An environment for concrete examples.\<close>

definition sample_storage_env :: storage_env where
  "sample_storage_env = \<lparr>se_metadata = (\<lambda>_. Inr default_metadata), se_crc32c = (\<lambda>_. ''crc''), se_uuid = Some,
     se_header_value = (\<lambda>_. True), se_encode = (\<lambda>s. s), se_decode = Some\<rparr>"

end
