(* ===== verification/Storage_List.thy ===== *)
theory Storage_List
  imports Storage
begin

text \<open>
  \<open>list_objects\<close> and \<open>list_response\<close> of \<open>src/src/storage.rs\<close>: objects of a bucket under a
  prefix, those with the delimiter after it folded into common prefixes, in pages whose token is
  the position of the next entry.  A client that follows the tokens sees every object once.
\<close>

record storage_list_query =
  lq_prefix :: "string option"
  lq_delimiter :: "string option"
  lq_max_results :: "nat option"
  lq_page_token :: "string option"

definition common_prefix :: "string \<Rightarrow> string option \<Rightarrow> stored_object \<Rightarrow> string option" where
  "common_prefix pre delimiter ob =
     (case delimiter of
        None \<Rightarrow> None
      | Some d \<Rightarrow> (case split_once d (drop (length pre) (so_name ob)) of
          None \<Rightarrow> None
        | Some (before, _) \<Rightarrow> Some (take (length pre + length before + length d) (so_name ob))))"

definition add_prefix :: "string \<Rightarrow> string option \<Rightarrow> stored_object \<Rightarrow> (string, unit) smap \<Rightarrow> (string, unit) smap" where
  "add_prefix pre delimiter ob m =
     (case common_prefix pre delimiter ob of None \<Rightarrow> m | Some p \<Rightarrow> sm_put p () m)"

definition list_entries :: "string \<Rightarrow> string option \<Rightarrow> stored_object list \<Rightarrow> (string \<times> json option) list" where
  "list_entries pre delimiter matching =
     (let prefixes = fold (add_prefix pre delimiter) matching [];
          items = filter (\<lambda>ob. common_prefix pre delimiter ob = None) matching
      in sort_key fst (map (\<lambda>ob. (so_name ob, Some (object_json ob))) items @
                       map (\<lambda>p. (p, None)) (sm_keys prefixes)))"

definition page_offset :: "storage_env \<Rightarrow> string option \<Rightarrow> nat option" where
  "page_offset env token =
     (case token of None \<Rightarrow> Some 0 | Some t \<Rightarrow> Option.bind (se_decode env t) (parse_unsigned (2 ^ 64)))"

definition page_limit :: "nat option \<Rightarrow> nat" where
  "page_limit max_results = (case max_results of None \<Rightarrow> 1000 | Some n \<Rightarrow> min (max n 1) 1000)"

definition entry_items :: "(string \<times> json option) list \<Rightarrow> json list" where
  "entry_items es = map (\<lambda>e. the (snd e)) (filter (\<lambda>e. snd e \<noteq> None) es)"

definition entry_prefixes :: "(string \<times> json option) list \<Rightarrow> string list" where
  "entry_prefixes es = map fst (filter (\<lambda>e. snd e = None) es)"

definition list_response ::
  "storage_env \<Rightarrow> stored_object list \<Rightarrow> string \<Rightarrow> string option \<Rightarrow> string option \<Rightarrow> nat option \<Rightarrow> response" where
  "list_response env matching pre delimiter token max_results =
     (let entries = list_entries pre delimiter matching in
      case page_offset env token of
        None \<Rightarrow> api_error 400 ''invalid page token''
      | Some offset \<Rightarrow>
          let limit = page_limit max_results;
              page = take limit (drop offset entries);
              result = jobject [(''kind'', JString ''storage#objects''), (''items'', JArray (entry_items page)),
                                (''prefixes'', JArray (map JString (entry_prefixes page)))]
          in status_response 200 (JsonBody
               (if sat_u64 (offset + limit) < length entries
                then jset ''nextPageToken'' (JString (se_encode env (show_nat (offset + limit)))) result
                else result)))"

definition list_objects :: "storage_env \<Rightarrow> string \<Rightarrow> storage_list_query \<Rightarrow> storage_data \<Rightarrow> response" where
  "list_objects env bucket q data =
     (let pre = (case lq_prefix q of None \<Rightarrow> [] | Some p \<Rightarrow> p);
          delimiter = (case lq_delimiter q of None \<Rightarrow> None | Some d \<Rightarrow> if d = [] then None else Some d);
          matching = sort_key so_name
            (filter (\<lambda>ob. so_bucket ob = bucket \<and> starts_with pre (so_name ob)) (sm_values (objects data)))
      in list_response env matching pre delimiter (lq_page_token q) (lq_max_results q))"

subsection \<open>Entries\<close>

lemma add_prefixes_wf: "sm_wf m \<Longrightarrow> sm_wf (fold (add_prefix p d) obs m)"
  by (induction obs arbitrary: m) (auto simp: add_prefix_def split: option.splits)

lemma add_prefixes_has:
  "sm_wf m \<Longrightarrow> sm_has (fold (add_prefix p d) obs m) k \<longleftrightarrow> sm_has m k \<or> (\<exists>ob \<in> set obs. common_prefix p d ob = Some k)"
proof (induction obs arbitrary: m)
  case (Cons ob obs)
  have "sm_wf (add_prefix p d ob m)" using Cons.prems by (auto simp: add_prefix_def split: option.splits)
  moreover have "sm_has (add_prefix p d ob m) k \<longleftrightarrow> sm_has m k \<or> common_prefix p d ob = Some k"
    using Cons.prems by (auto simp: add_prefix_def split: option.splits)
  ultimately show ?case using Cons.IH by auto
qed simp

lemma set_sm_keys: "set (sm_keys m) = {k. sm_has m k}"
  by (auto simp: sm_keys_def sm_has_def sm_get_def map_of_eq_None_iff image_iff)

lemma sorted_sm_keys: "sm_wf m \<Longrightarrow> sorted (sm_keys m) \<and> distinct (sm_keys m)"
  by (auto simp: sm_wf_def sm_keys_def strict_sorted_iff)

lemma entry_prefixes_entries:
  "entry_prefixes (list_entries p d obs) = sorted_list_of_set {k. \<exists>ob \<in> set obs. common_prefix p d ob = Some k}"
proof -
  let ?m = "fold (add_prefix p d) obs []"
  have wf: "sm_wf ?m" by (rule add_prefixes_wf) simp
  have "sorted (sm_keys ?m)" "distinct (sm_keys ?m)" using sorted_sm_keys[OF wf] by simp_all
  moreover have "set (sm_keys ?m) = {k. \<exists>ob \<in> set obs. common_prefix p d ob = Some k}"
    by (simp add: set_sm_keys add_prefixes_has) (simp add: sm_has_def)
  ultimately have keys: "sm_keys ?m = sorted_list_of_set {k. \<exists>ob \<in> set obs. common_prefix p d ob = Some k}"
    by (metis sorted_list_of_set.idem_if_sorted_distinct)
  have "filter (\<lambda>e. snd e = None) (list_entries p d obs) = sort_key fst (map (\<lambda>p. (p, None)) (sm_keys ?m))"
    by (simp add: list_entries_def Let_def filter_sort filter_map o_def)
  also have "\<dots> = map (\<lambda>p. (p, None)) (sm_keys ?m)"
    by (rule sort_key_id_if_sorted) (use sorted_sm_keys[OF wf] in \<open>simp add: o_def\<close>)
  finally show ?thesis by (simp add: entry_prefixes_def keys o_def)
qed

lemma entry_items_entries:
  assumes "sorted (map so_name obs)"
  shows "entry_items (list_entries p d obs) = map object_json (filter (\<lambda>ob. common_prefix p d ob = None) obs)"
proof -
  let ?items = "filter (\<lambda>ob. common_prefix p d ob = None) obs"
  have "filter (\<lambda>e. snd e \<noteq> None) (list_entries p d obs) =
      sort_key fst (map (\<lambda>ob. (so_name ob, Some (object_json ob))) ?items)"
    by (simp add: list_entries_def Let_def filter_sort filter_map o_def)
  also have "\<dots> = map (\<lambda>ob. (so_name ob, Some (object_json ob))) ?items"
    by (rule sort_key_id_if_sorted) (use sorted_filter[OF assms] in \<open>simp add: o_def\<close>)
  finally show ?thesis by (simp add: entry_items_def o_def)
qed

lemma length_list_entries: "length (list_entries p d obs) \<le> length obs"
proof -
  have "length (fold (add_prefix p d) xs m) \<le> length m + length (filter (\<lambda>ob. common_prefix p d ob \<noteq> None) xs)" if "sm_wf m" for xs m
    using that
  proof (induction xs arbitrary: m)
    case (Cons ob xs)
    have "length (add_prefix p d ob m) \<le> length m + (if common_prefix p d ob \<noteq> None then 1 else 0)"
      using Cons.prems by (auto simp: add_prefix_def length_sm_put split: option.splits)
    moreover have "sm_wf (add_prefix p d ob m)" using Cons.prems by (auto simp: add_prefix_def split: option.splits)
    ultimately show ?case using Cons.IH[of "add_prefix p d ob m"] by (auto split: if_splits)
  qed simp
  from this[of "[]" obs] show ?thesis
    using sum_length_filter_compl[of "\<lambda>ob. common_prefix p d ob = None" obs]
    by (simp add: list_entries_def Let_def sm_keys_def)
qed

subsection \<open>Following the page tokens\<close>

text \<open>What a client reads from a page, and the client that asks for page after page.\<close>

definition read_page :: "response \<Rightarrow> (json list \<times> json list \<times> string option) option" where
  "read_page r =
     (case r_body r of
        JsonBody v \<Rightarrow> (case (jget ''items'' v, jget ''prefixes'' v) of
           (Some (JArray items), Some (JArray ps)) \<Rightarrow> Some (items, ps, Option.bind (jget ''nextPageToken'' v) as_str)
         | _ \<Rightarrow> None)
      | _ \<Rightarrow> None)"

fun walk_pages ::
  "nat \<Rightarrow> storage_env \<Rightarrow> string \<Rightarrow> storage_list_query \<Rightarrow> storage_data \<Rightarrow> (json list \<times> json list) option" where
  "walk_pages 0 env bucket q data = None"
| "walk_pages (Suc n) env bucket q data =
     (case read_page (list_objects env bucket q data) of
        None \<Rightarrow> None
      | Some (items, ps, None) \<Rightarrow> Some (items, ps)
      | Some (items, ps, Some t) \<Rightarrow>
          (case walk_pages n env bucket (q\<lparr>lq_page_token := Some t\<rparr>) data of
             None \<Rightarrow> None
           | Some (items', ps') \<Rightarrow> Some (items @ items', ps @ ps')))"

definition query_prefix :: "storage_list_query \<Rightarrow> string" where
  "query_prefix q = (case lq_prefix q of None \<Rightarrow> [] | Some p \<Rightarrow> p)"

definition query_delimiter :: "storage_list_query \<Rightarrow> string option" where
  "query_delimiter q = (case lq_delimiter q of None \<Rightarrow> None | Some d \<Rightarrow> if d = [] then None else Some d)"

definition listed :: "string \<Rightarrow> storage_list_query \<Rightarrow> storage_data \<Rightarrow> stored_object list" where
  "listed bucket q data =
     filter (\<lambda>ob. so_bucket ob = bucket \<and> starts_with (query_prefix q) (so_name ob)) (sm_values (objects data))"

definition query_entries :: "string \<Rightarrow> storage_list_query \<Rightarrow> storage_data \<Rightarrow> (string \<times> json option) list" where
  "query_entries bucket q data =
     list_entries (query_prefix q) (query_delimiter q) (sort_key so_name (listed bucket q data))"

lemma list_objects_page:
  assumes "page_offset env (lq_page_token q) = Some n"
  shows "read_page (list_objects env bucket q data) =
    (let es = query_entries bucket q data; limit = page_limit (lq_max_results q); page = take limit (drop n es)
     in Some (entry_items page, map JString (entry_prefixes page),
          if sat_u64 (n + limit) < length es then Some (se_encode env (show_nat (n + limit))) else None))"
  using assms
  by (simp add: list_objects_def list_response_def Let_def query_prefix_def[symmetric] query_delimiter_def[symmetric]
    listed_def[symmetric] query_entries_def[symmetric] read_page_def status_response_def jget_jobject as_str_def)

lemma entries_append:
  "entry_items (a @ b) = entry_items a @ entry_items b"
  "entry_prefixes (a @ b) = entry_prefixes a @ entry_prefixes b"
  by (simp_all add: entry_items_def entry_prefixes_def)

lemma walk_pages_from:
  assumes codec: "\<And>n. se_decode env (se_encode env (show_nat n)) = Some (show_nat n)"
    and small: "length (query_entries bucket q0 data) < 2 ^ 64"
    and q: "query_prefix q = query_prefix q0" "query_delimiter q = query_delimiter q0"
    and offset: "page_offset env (lq_page_token q) = Some n"
    and fuel: "length (query_entries bucket q0 data) - n < fuel"
  shows "walk_pages fuel env bucket q data =
    Some (entry_items (drop n (query_entries bucket q0 data)),
          map JString (entry_prefixes (drop n (query_entries bucket q0 data))))"
  using q offset fuel
proof (induction fuel arbitrary: q n)
  case (Suc fuel)
  define es where "es = query_entries bucket q0 data"
  define limit where "limit = page_limit (lq_max_results q)"
  have limit: "0 < limit" by (auto simp: limit_def page_limit_def split: option.split)
  have same: "query_entries bucket q data = es"
    using Suc.prems(1,2) by (simp add: es_def query_entries_def listed_def)
  let ?page = "take limit (drop n es)"
  have page: "read_page (list_objects env bucket q data) = Some (entry_items ?page, map JString (entry_prefixes ?page),
      if sat_u64 (n + limit) < length es then Some (se_encode env (show_nat (n + limit))) else None)"
    using list_objects_page[OF Suc.prems(3), of bucket data] by (simp add: same limit_def Let_def)
  have split: "drop n es = ?page @ drop (n + limit) es"
    by (metis add.commute append_take_drop_id drop_drop)
  show ?case
  proof (cases "sat_u64 (n + limit) < length es")
    case True
    then have small: "n + limit < 2 ^ 64" "n + limit < length es"
      using assms(2) by (auto simp: sat_u64_def es_def min_def split: if_splits)
    let ?q = "q\<lparr>lq_page_token := Some (se_encode env (show_nat (n + limit)))\<rparr>"
    have "walk_pages fuel env bucket ?q data = Some (entry_items (drop (n + limit) es),
        map JString (entry_prefixes (drop (n + limit) es)))"
      unfolding es_def
    proof (rule Suc.IH)
      show "query_prefix ?q = query_prefix q0" "query_delimiter ?q = query_delimiter q0"
        using Suc.prems(1,2) by (simp_all add: query_prefix_def query_delimiter_def)
      show "page_offset env (lq_page_token ?q) = Some (n + limit)"
        using small(1) by (simp add: page_offset_def codec)
      show "length (query_entries bucket q0 data) - (n + limit) < fuel"
        using Suc.prems(4) small(2) limit unfolding es_def by linarith
    qed
    then have "walk_pages (Suc fuel) env bucket q data =
        Some (entry_items ?page @ entry_items (drop (n + limit) es),
              map JString (entry_prefixes ?page) @ map JString (entry_prefixes (drop (n + limit) es)))"
      using True by (simp add: page)
    also have "\<dots> = Some (entry_items (drop n es), map JString (entry_prefixes (drop n es)))"
      by (simp only: map_append[symmetric] entries_append[symmetric] split[symmetric])
    finally show ?thesis by (simp only: es_def)
  next
    case False
    then have "length es \<le> n + limit" using assms(2) by (auto simp: sat_u64_def es_def min_def split: if_splits)
    then have "drop n es = ?page" using split by simp
    then show ?thesis using False by (simp add: page es_def[symmetric])
  qed
qed simp

lemma sorted_names_of_keys:
  assumes "sm_wf (objects data)" "\<forall>k ob. sm_get (objects data) k = Some ob \<longrightarrow> k = (so_bucket ob, so_name ob)"
  shows "sorted (map so_name (listed bucket q data))"
proof -
  have "sorted (map so_name (filter (\<lambda>ob. so_bucket ob = bucket \<and> P ob) (map snd m)))"
    if "sorted_wrt (<) (map fst m)" "\<And>k ob. (k, ob) \<in> set m \<Longrightarrow> k = (so_bucket ob, so_name ob)"
    for m :: "((string \<times> string) \<times> stored_object) list" and P
    using that
  proof (induction m)
    case (Cons e m)
    obtain k ob where e: "e = (k, ob)" by (cases e)
    have IH: "sorted (map so_name (filter (\<lambda>ob. so_bucket ob = bucket \<and> P ob) (map snd m)))"
      by (rule Cons.IH) (use Cons.prems in auto)
    have "so_name ob \<le> so_name ob'" if b: "so_bucket ob = bucket" "so_bucket ob' = bucket" "ob' \<in> snd ` set m" for ob'
    proof -
      obtain k' where k': "(k', ob') \<in> set m" using b(3) by auto
      then have "k < k'" using Cons.prems(1) e by auto
      then show ?thesis using Cons.prems(2)[of k ob] Cons.prems(2)[of k' ob'] k' e b by (auto simp: less_prod_def)
    qed
    then show ?case using IH e by auto
  qed simp
  from this[of "objects data"] show ?thesis
    using assms unfolding listed_def sm_values_def by (auto simp: sm_wf_def in_sm_get)
qed

text \<open>
  Property C28.  A client that follows the page tokens of a listing, with any page size, gets after finitely
  many pages every object of the bucket under the prefix exactly once and in name order, except those with
  the delimiter after the prefix, and each common prefix of those exactly once and in order.
\<close>

theorem listing_complete:
  assumes "\<forall>n. se_decode env (se_encode env (show_nat n)) = Some (show_nat n)"
    and "sm_wf (objects data)" "\<forall>k ob. sm_get (objects data) k = Some ob \<longrightarrow> k = (so_bucket ob, so_name ob)"
    and "length (objects data) < 2 ^ 64" "lq_page_token q = None" "length (objects data) < fuel"
  shows "walk_pages fuel env bucket q data =
    Some (map object_json (filter (\<lambda>ob. so_bucket ob = bucket \<and> starts_with (query_prefix q) (so_name ob) \<and>
              common_prefix (query_prefix q) (query_delimiter q) ob = None) (sm_values (objects data))),
          map JString (sorted_list_of_set {p. \<exists>ob \<in> set (sm_values (objects data)). so_bucket ob = bucket \<and>
              starts_with (query_prefix q) (so_name ob) \<and>
              common_prefix (query_prefix q) (query_delimiter q) ob = Some p}))"
proof -
  have sorted: "sorted (map so_name (listed bucket q data))" by (rule sorted_names_of_keys[OF assms(2,3)])
  then have id: "sort_key so_name (listed bucket q data) = listed bucket q data" by (rule sort_key_id_if_sorted)
  have "length (query_entries bucket q data) \<le> length (listed bucket q data)"
    unfolding query_entries_def id by (rule length_list_entries)
  also have "\<dots> \<le> length (objects data)" unfolding listed_def sm_values_def by (rule order_trans[OF length_filter_le]) simp
  finally have len: "length (query_entries bucket q data) \<le> length (objects data)" .
  have "walk_pages fuel env bucket q data =
      Some (entry_items (drop 0 (query_entries bucket q data)), map JString (entry_prefixes (drop 0 (query_entries bucket q data))))"
    by (rule walk_pages_from) (use assms len in \<open>simp_all add: page_offset_def\<close>)
  moreover have "{k. \<exists>ob \<in> set (listed bucket q data). common_prefix p d ob = Some k} =
      {k. \<exists>ob \<in> set (sm_values (objects data)). so_bucket ob = bucket \<and> starts_with (query_prefix q) (so_name ob) \<and>
         common_prefix p d ob = Some k}" for p d
    by (auto simp: listed_def)
  ultimately show ?thesis
    unfolding query_entries_def id entry_prefixes_entries entry_items_entries[OF sorted] drop_0
    by (simp add: listed_def filter_filter conj_ac)
qed

definition sample_object :: "string \<Rightarrow> stored_object" where
  "sample_object name = new_object sample_storage_env 0 ''t'' ''b'' name ''x'' default_metadata None
     \<lparr>next_generation = 0, objects = [], uploads = []\<rparr>"

definition sample_objects :: storage_data where
  "sample_objects = \<lparr>next_generation = 3,
     objects = map (\<lambda>n. ((''b'', n), sample_object n)) [''a/x'', ''a/y'', ''ab'', ''b''], uploads = []\<rparr>"

theorem listing_complete_witness:
  "walk_pages 5 sample_storage_env ''b''
      \<lparr>lq_prefix = Some ''a'', lq_delimiter = Some ''/'', lq_max_results = Some 1, lq_page_token = None\<rparr> sample_objects =
   Some ([object_json (sample_object ''ab'')], [JString ''a/''])"
proof -
  let ?q = "\<lparr>lq_prefix = Some ''a'', lq_delimiter = Some ''/'', lq_max_results = Some 1, lq_page_token = None\<rparr>"
  have ob [simp]: "so_bucket (sample_object n) = ''b''" "so_name (sample_object n) = n" for n
    by (simp_all add: sample_object_def new_object_def Let_def)
  have q [simp]: "query_prefix ?q = ''a''" "query_delimiter ?q = Some ''/''"
    by (simp_all add: query_prefix_def query_delimiter_def)
  have vs: "sm_values (objects sample_objects) = map sample_object [''a/x'', ''a/y'', ''ab'', ''b'']"
    by (simp add: sample_objects_def sm_values_def)
  have wf: "sm_wf (objects sample_objects)" by (simp add: sample_objects_def sm_wf_def less_char_def)
  have keys: "\<forall>k ob. sm_get (objects sample_objects) k = Some ob \<longrightarrow> k = (so_bucket ob, so_name ob)"
    by (auto simp: sample_objects_def sm_get_def split: if_splits)
  have cp [simp]: "common_prefix ''a'' (Some ''/'') (sample_object ''a/x'') = Some ''a/''"
    "common_prefix ''a'' (Some ''/'') (sample_object ''a/y'') = Some ''a/''"
    "common_prefix ''a'' (Some ''/'') (sample_object ''ab'') = None"
    by (simp_all add: common_prefix_def)
  have st [simp]: "starts_with ''a'' ''a/x''" "starts_with ''a'' ''a/y''" "starts_with ''a'' ''ab''" "\<not> starts_with ''a'' ''b''"
    by (simp_all add: starts_with_def)
  have set: "{p. \<exists>ob \<in> set (map sample_object [''a/x'', ''a/y'', ''ab'', ''b'']). so_bucket ob = ''b'' \<and>
      starts_with ''a'' (so_name ob) \<and> common_prefix ''a'' (Some ''/'') ob = Some p} = {''a/''}"
    by auto
  have codec: "\<forall>n. se_decode sample_storage_env (se_encode sample_storage_env (show_nat n)) = Some (show_nat n)"
    by (simp add: sample_storage_env_def)
  have len: "length (objects sample_objects) = 4" by (simp add: sample_objects_def)
  have "length (objects sample_objects) < 2 ^ 64" "length (objects sample_objects) < 5" by (simp_all add: len)
  from listing_complete[OF codec wf keys this(1) _ this(2), of ?q "''b''"] show ?thesis
    unfolding vs q set by simp
qed

end
