(* ===== verification/Storage_Runs.thy ===== *)
theory Storage_Runs
  imports Storage
begin

text \<open>
  Runs of the Storage emulator of \<open>Storage\<close>: the requests that change its state, the invariant
  of the objects and pending uploads, and the reassembly of a resumable upload from the chunks of
  its requests, in whatever order other requests come between them.
\<close>

subsection \<open>Requests\<close>

datatype storage_request =
    Upload nat string string string upload_query header_map string
  | ResumablePut nat string string upload_query header_map string
  | SignedPut nat string string string header_map string
  | Delete string string

fun storage_apply :: "storage_env \<Rightarrow> storage_request \<Rightarrow> storage_data \<Rightarrow> storage_result" where
  "storage_apply env (Upload now i token bucket q hs bytes) data = upload_object env now i token bucket q hs bytes data"
| "storage_apply env (ResumablePut now token bucket q hs bytes) data = resumable_put env now token bucket q hs bytes data"
| "storage_apply env (SignedPut now token bucket name hs bytes) data = put_signed_object env now token bucket name hs bytes data"
| "storage_apply env (Delete bucket name) data = delete_object bucket name data"

definition storage_after :: "storage_env \<Rightarrow> storage_request \<Rightarrow> storage_data \<Rightarrow> storage_data" where
  "storage_after env req data = snd (snd (storage_apply env req data))"

definition empty_storage :: storage_data where
  "empty_storage = \<lparr>next_generation = 0, objects = [], uploads = []\<rparr>"

inductive storage_reachable :: "storage_env \<Rightarrow> storage_data \<Rightarrow> bool" for env where
  start: "storage_reachable env empty_storage"
| step: "storage_reachable env data \<Longrightarrow> storage_reachable env (storage_after env req data)"

subsection \<open>The invariant\<close>

definition object_ok :: "storage_env \<Rightarrow> nat \<Rightarrow> string \<times> string \<Rightarrow> stored_object \<Rightarrow> bool" where
  "object_ok env n k ob =
     (k = (so_bucket ob, so_name ob) \<and> 0 < so_generation ob \<and> so_generation ob \<le> n \<and>
      (\<exists>b. so_bytes ob = Some b \<and> so_size ob = length b \<and> so_crc32c ob = se_crc32c env b))"

definition storage_ok :: "storage_env \<Rightarrow> storage_data \<Rightarrow> bool" where
  "storage_ok env data =
     (sm_wf (objects data) \<and> sm_wf (uploads data) \<and>
      (\<forall>k ob. sm_get (objects data) k = Some ob \<longrightarrow> object_ok env (next_generation data) k ob) \<and>
      (\<forall>k k' ob ob'. sm_get (objects data) k = Some ob \<and> sm_get (objects data) k' = Some ob' \<and> k \<noteq> k' \<longrightarrow>
         so_generation ob \<noteq> so_generation ob') \<and>
      (\<forall>i p. sm_get (uploads data) i = Some p \<longrightarrow> length (pu_bytes p) \<le> max_upload_bytes))"

lemma storage_okD:
  assumes "storage_ok env data"
  shows "sm_wf (objects data)" "sm_wf (uploads data)"
    "sm_get (objects data) k = Some ob \<Longrightarrow> object_ok env (next_generation data) k ob"
    "sm_get (objects data) k = Some ob \<Longrightarrow> sm_get (objects data) k' = Some ob' \<Longrightarrow> k \<noteq> k' \<Longrightarrow>
       so_generation ob \<noteq> so_generation ob'"
    "sm_get (uploads data) i = Some p \<Longrightarrow> length (pu_bytes p) \<le> max_upload_bytes"
  using assms unfolding storage_ok_def by blast+

lemma storage_ok_empty: "storage_ok env empty_storage"
  by (simp add: storage_ok_def empty_storage_def)

lemma uploads_ok:
  assumes "storage_ok env data" "sm_wf us" "\<And>i p. sm_get us i = Some p \<Longrightarrow> length (pu_bytes p) \<le> max_upload_bytes"
  shows "storage_ok env (data\<lparr>uploads := us\<rparr>)"
  using assms unfolding storage_ok_def by simp

lemma prune_fields [simp]:
  "objects (prune_expired_uploads data now) = objects data"
  "next_generation (prune_expired_uploads data now) = next_generation data"
  by (simp_all add: prune_expired_uploads_def)

lemma prune_get:
  "sm_wf (uploads data) \<Longrightarrow> sm_get (uploads (prune_expired_uploads data now)) i = Some p \<Longrightarrow> sm_get (uploads data) i = Some p"
  by (simp add: prune_expired_uploads_def sm_get_retain split: option.splits if_splits)

lemma prune_ok:
  assumes "storage_ok env data"
  shows "storage_ok env (prune_expired_uploads data now)"
  unfolding prune_expired_uploads_def
proof (rule uploads_ok[OF assms])
  show "sm_wf (sm_retain (\<lambda>_ u. now < sat_u64 (pu_created_at u + resumable_upload_ttl)) (uploads data))"
    using storage_okD(2)[OF assms] by simp
next
  fix i p assume "sm_get (sm_retain (\<lambda>_ u. now < sat_u64 (pu_created_at u + resumable_upload_ttl)) (uploads data)) i = Some p"
  then have "sm_get (uploads data) i = Some p"
    using storage_okD(2)[OF assms] by (simp add: sm_get_retain split: option.splits if_splits)
  then show "length (pu_bytes p) \<le> max_upload_bytes" by (rule storage_okD(5)[OF assms])
qed

lemma new_object_ok:
  "object_ok env (next_generation data + 1) (bucket, name) (new_object env now token bucket name bytes md fb data)"
  by (simp add: object_ok_def new_object_def Let_def)

lemma save_object_ok:
  assumes "storage_ok env data"
  shows "storage_ok env (snd (snd (save_object env now token bucket name bytes md fb data)))"
proof -
  let ?ob = "new_object env now token bucket name bytes md fb data"
  let ?data = "data\<lparr>next_generation := next_generation data + 1, objects := sm_put (bucket, name) ?ob (objects data)\<rparr>"
  note ok = storage_okD[OF assms]
  have get: "sm_get (objects ?data) k = (if k = (bucket, name) then Some ?ob else sm_get (objects data) k)" for k
    using ok(1) by simp
  have g: "so_generation ?ob = next_generation data + 1" by (simp add: new_object_def Let_def)
  have le: "so_generation ob \<le> next_generation data" if "sm_get (objects data) k = Some ob" for k ob
    using ok(3)[OF that] by (simp add: object_ok_def)
  have "storage_ok env ?data"
    unfolding storage_ok_def get
  proof (intro conjI allI impI)
    fix k ob assume "(if k = (bucket, name) then Some ?ob else sm_get (objects data) k) = Some ob"
    then show "object_ok env (next_generation ?data) k ob"
      using new_object_ok[of env data bucket name now token bytes md fb] ok(3)[of k ob]
      by (auto simp: object_ok_def split: if_splits)
  next
    fix k k' ob ob'
    assume "(if k = (bucket, name) then Some ?ob else sm_get (objects data) k) = Some ob \<and>
      (if k' = (bucket, name) then Some ?ob else sm_get (objects data) k') = Some ob' \<and> k \<noteq> k'"
    then show "so_generation ob \<noteq> so_generation ob'"
      using g le[of k ob] le[of k' ob'] ok(4)[of k ob k' ob'] by (auto split: if_splits)
  qed (use ok in simp_all)
  then show ?thesis by (simp add: save_object_def Let_def)
qed

lemma delete_object_ok:
  assumes "storage_ok env data"
  shows "storage_ok env (snd (snd (delete_object bucket name data)))"
proof -
  note ok = storage_okD[OF assms]
  have "storage_ok env (data\<lparr>objects := sm_del k0 (objects data)\<rparr>)" for k0
    unfolding storage_ok_def
  proof (intro conjI allI impI)
    fix k ob assume "sm_get (objects (data\<lparr>objects := sm_del k0 (objects data)\<rparr>)) k = Some ob"
    then show "object_ok env (next_generation (data\<lparr>objects := sm_del k0 (objects data)\<rparr>)) k ob"
      using ok(3) by (simp split: if_splits)
  next
    fix k k' ob ob'
    assume "sm_get (objects (data\<lparr>objects := sm_del k0 (objects data)\<rparr>)) k = Some ob \<and>
      sm_get (objects (data\<lparr>objects := sm_del k0 (objects data)\<rparr>)) k' = Some ob' \<and> k \<noteq> k'"
    then show "so_generation ob \<noteq> so_generation ob'" using ok(4)[of k ob k' ob'] by (simp split: if_splits)
  qed (use ok in simp_all)
  then show ?thesis using assms by (simp add: delete_object_def split: option.split)
qed

subsection \<open>One chunk\<close>

definition chunk_of :: "storage_env \<Rightarrow> upload_query \<Rightarrow> header_map \<Rightarrow> string option" where
  "chunk_of env q hs =
     (if upload_command hs = ''cancel'' \<or> upload_command hs = ''query'' then None
      else Option.bind (uq_upload_id q) (se_uuid env))"

lemma sat_u64_limit: "sat_u64 n \<le> max_upload_bytes \<longleftrightarrow> n \<le> max_upload_bytes"
  by (simp add: sat_u64_def max_upload_bytes_def min_def)

lemma status_simps [simp]:
  "r_status (api_error n m) = n" "r_status (status_response n b) = n"
  "r_status (insert_header k v r) = r_status r" "r_status (active_response c) = 200"
  by (simp_all add: api_error_def status_response_def insert_header_def active_response_def)

lemma media_body: "r_body (media_response env ob) = BytesBody (case so_bytes ob of None \<Rightarrow> [] | Some b \<Rightarrow> b)"
proof -
  have "r_body (insert_header k v r) = r_body r" for k v r by (simp add: insert_header_def)
  moreover from this have "r_body (media_header env k v r) = r_body r" for k v r
    by (simp add: media_header_def split: option.split)
  ultimately show ?thesis by (simp add: media_response_def Let_def status_response_def)
qed

lemma finalizes_commands: "\<not> finalizes ''cancel''" "\<not> finalizes ''query''"
  by (code_simp, code_simp)

lemma resumable_put_cases:
  assumes "resumable_put env now token bucket q hs bytes data = (r, ev, data')"
  obtains
    (idle) "data' = data \<or> data' = prune_expired_uploads data now" "r_status r = 200 \<Longrightarrow> chunk_of env q hs = None"
  | (cancel) i where "Option.bind (uq_upload_id q) (se_uuid env) = Some i" "chunk_of env q hs = None"
      "data' = prune_expired_uploads data now\<lparr>uploads := sm_del i (uploads (prune_expired_uploads data now))\<rparr>"
  | (chunk) i p where "chunk_of env q hs = Some i" "sm_get (uploads (prune_expired_uploads data now)) i = Some p"
      "pu_bucket p = bucket" "length (pu_bytes p @ bytes) \<le> max_upload_bytes" "\<not> finalizes (upload_command hs)"
      "data' = prune_expired_uploads data now\<lparr>uploads :=
         sm_put i (p\<lparr>pu_bytes := pu_bytes p @ bytes\<rparr>) (uploads (prune_expired_uploads data now))\<rparr>" "r_status r = 200"
  | (final) i p where "chunk_of env q hs = Some i" "sm_get (uploads (prune_expired_uploads data now)) i = Some p"
      "pu_bucket p = bucket" "length (pu_bytes p @ bytes) \<le> max_upload_bytes" "finalizes (upload_command hs)"
      "data' = snd (snd (save_object env now token (pu_bucket p) (pu_name p) (pu_bytes p @ bytes) (pu_metadata p)
         (header_string hs ''content-type'')
         (prune_expired_uploads data now\<lparr>uploads := sm_del i (uploads (prune_expired_uploads data now))\<rparr>)))"
      "r_status r = 200"
proof -
  let ?d = "prune_expired_uploads data now" and ?id = "Option.bind (uq_upload_id q) (se_uuid env)"
  let ?cmd = "upload_command hs"
  show thesis
  proof (cases ?id)
    case None
    then show thesis using assms by (intro idle) (auto simp: resumable_put_def chunk_of_def)
  next
    case id: (Some i)
    show thesis
    proof (cases "\<exists>p. sm_get (uploads ?d) i = Some p \<and> pu_bucket p = bucket")
      case False
      then have "(case sm_get (uploads ?d) i of None \<Rightarrow> None | Some p \<Rightarrow> if pu_bucket p = bucket then Some p else None) = None"
        by (auto split: option.split)
      then show thesis using assms id by (intro idle) (auto simp: resumable_put_def Let_def)
    next
      case True
      then obtain p where p: "sm_get (uploads ?d) i = Some p" "pu_bucket p = bucket" by blast
      consider (c) "?cmd = ''cancel''" | (q) "?cmd = ''query''"
        | (bad) "?cmd \<noteq> ''cancel''" "?cmd \<noteq> ''query''"
            "(case upload_offset hs of None \<Rightarrow> False | Some n \<Rightarrow> n \<noteq> length (pu_bytes p)) \<or>
             sat_u64 (length (pu_bytes p) + length bytes) > max_upload_bytes"
        | (more) "?cmd \<noteq> ''cancel''" "?cmd \<noteq> ''query''"
            "\<not> (case upload_offset hs of None \<Rightarrow> False | Some n \<Rightarrow> n \<noteq> length (pu_bytes p))"
            "sat_u64 (length (pu_bytes p) + length bytes) \<le> max_upload_bytes" by fastforce
      then show thesis
      proof cases
        case c
        then show thesis using assms id p by (intro cancel[of i]) (auto simp: resumable_put_def chunk_of_def Let_def)
      next
        case q
        then show thesis using assms id p by (intro idle) (auto simp: resumable_put_def chunk_of_def Let_def)
      next
        case bad
        then show thesis using assms id p by (intro idle) (auto simp: resumable_put_def Let_def split: if_splits)
      next
        case more
        have ck: "chunk_of env q hs = Some i" using more(1,2) id by (simp add: chunk_of_def)
        have len: "length (pu_bytes p @ bytes) \<le> max_upload_bytes" using more(4) by (simp add: sat_u64_limit)
        show thesis
        proof (cases "finalizes ?cmd")
          case False
          then show thesis using assms id p more
            by (intro chunk[of i p, OF ck p len]) (auto simp: resumable_put_def Let_def)
        next
          case True
          then show thesis using assms id p more
            by (intro final[of i p, OF ck p len]) (auto simp: resumable_put_def Let_def save_object_def)
        qed
      qed
    qed
  qed
qed

lemma put_upload_ok:
  assumes "storage_ok env data" "length (pu_bytes p) \<le> max_upload_bytes"
  shows "storage_ok env (data\<lparr>uploads := sm_put i p (uploads data)\<rparr>)"
  by (rule uploads_ok[OF assms(1)]) (use storage_okD[OF assms(1)] assms(2) in \<open>auto split: if_splits\<close>)

lemma del_upload_ok:
  assumes "storage_ok env data"
  shows "storage_ok env (data\<lparr>uploads := sm_del i (uploads data)\<rparr>)"
  by (rule uploads_ok[OF assms]) (use storage_okD[OF assms] in \<open>auto split: if_splits\<close>)

lemma resumable_put_ok:
  assumes "storage_ok env data"
  shows "storage_ok env (snd (snd (resumable_put env now token bucket q hs bytes data)))"
proof -
  obtain r ev data' where eq: "resumable_put env now token bucket q hs bytes data = (r, ev, data')"
    using prod_cases3 by blast
  note d = prune_ok[OF assms, of now]
  from eq have "storage_ok env data'"
  proof (cases rule: resumable_put_cases)
    case idle then show ?thesis using assms d by auto
  next
    case (cancel i) then show ?thesis using del_upload_ok[OF d] by simp
  next
    case (chunk i p) then show ?thesis using put_upload_ok[OF d, of "p\<lparr>pu_bytes := pu_bytes p @ bytes\<rparr>"] by simp
  next
    case (final i p) then show ?thesis using save_object_ok[OF del_upload_ok[OF d]] by simp
  qed
  then show ?thesis by (simp add: eq)
qed

lemma upload_object_cases:
  assumes "upload_object env now i token bucket q hs bytes data = (r, ev, data')"
  obtains
    (put) "resumable_put env now token bucket q hs bytes data = (r, ev, data')" "uq_upload_id q \<noteq> None"
  | (failed) "data' = data" "r_status r = 400" "uq_upload_id q = None"
  | (start) name md where "start_upload now i bucket hs name md data = (r, ev, data')" "uq_upload_id q = None"
      "upload_name (first_of (uq_name q) None) = Some name \<or> uq_name q = None"
  | (save) name b md fb where "save_object env now token bucket name b md fb data = (r, ev, data')" "uq_upload_id q = None"
  using assms unfolding upload_object_def Let_def
  by (auto simp: first_of_def split: if_splits sum.splits option.splits prod.splits)

lemma start_upload_state:
  "\<exists>md'. snd (snd (start_upload now i bucket hs name md data)) = prune_expired_uploads data now\<lparr>uploads :=
     sm_put i \<lparr>pu_bucket = bucket, pu_name = name, pu_metadata = md', pu_bytes = [], pu_created_at = now\<rparr>
       (uploads (prune_expired_uploads data now))\<rparr>"
  by (auto simp: start_upload_def Let_def)

lemma storage_after_ok:
  assumes "storage_ok env data"
  shows "storage_ok env (storage_after env req data)"
proof (cases req)
  case (Upload now i token bucket q hs bytes)
  obtain r ev data' where eq: "upload_object env now i token bucket q hs bytes data = (r, ev, data')"
    using prod_cases3 by blast
  from eq have "storage_ok env data'"
  proof (cases rule: upload_object_cases)
    case put then show ?thesis using resumable_put_ok[OF assms, of now token bucket q hs bytes] by simp
  next
    case failed then show ?thesis using assms by simp
  next
    case (start name md)
    then show ?thesis using start_upload_state[of now i bucket hs name md data] put_upload_ok[OF prune_ok[OF assms]] by auto
  next
    case (save name b md fb)
    then show ?thesis using save_object_ok[OF assms, of now token bucket name b md fb] by simp
  qed
  then show ?thesis using Upload eq by (simp add: storage_after_def)
qed (use assms in \<open>simp_all add: storage_after_def resumable_put_ok delete_object_ok put_signed_object_def save_object_ok\<close>)

lemma storage_reachable_ok: "storage_reachable env data \<Longrightarrow> storage_ok env data"
  by (induction rule: storage_reachable.induct) (auto intro: storage_ok_empty storage_after_ok)

text \<open>
  In every reachable state of the Storage emulator an object stands under its own bucket and
  name, has the size and checksum of its bytes and a generation no other object has, never beyond the
  counter; and no pending upload is larger than 64 MiB.
\<close>

theorem storage_objects_consistent:
  assumes "storage_reachable env data" "sm_get (objects data) (b, n) = Some ob"
  shows "so_bucket ob = b \<and> so_name ob = n \<and>
    (\<exists>bytes. so_bytes ob = Some bytes \<and> so_size ob = length bytes \<and> so_crc32c ob = se_crc32c env bytes) \<and>
    0 < so_generation ob \<and> so_generation ob \<le> next_generation data \<and>
    (\<forall>k ob'. sm_get (objects data) k = Some ob' \<and> so_generation ob' = so_generation ob \<longrightarrow> k = (b, n)) \<and>
    (\<forall>p \<in> set (sm_values (uploads data)). length (pu_bytes p) \<le> max_upload_bytes)"
proof -
  have ok: "storage_ok env data" by (rule storage_reachable_ok[OF assms(1)])
  have "length (pu_bytes p) \<le> max_upload_bytes" if "p \<in> set (sm_values (uploads data))" for p
    using that storage_okD(5)[OF ok] in_sm_get[OF storage_okD(2)[OF ok]] unfolding sm_values_def by fastforce
  moreover have "k = (b, n)" if "sm_get (objects data) k = Some ob'" "so_generation ob' = so_generation ob" for k ob'
    using storage_okD(4)[OF ok that(1) assms(2)] that(2) by blast
  ultimately show ?thesis using storage_okD(3)[OF ok assms(2)] by (auto simp: object_ok_def)
qed

definition sample_put :: storage_request where
  "sample_put = SignedPut 0 ''t'' ''b'' ''n'' [] ''xyz''"

lemma sample_put_object:
  "sm_get (objects (storage_after sample_storage_env sample_put empty_storage)) (''b'', ''n'') = Some
     (new_object sample_storage_env 0 ''t'' ''b'' ''n'' ''xyz''
       ((metadata_from_headers [])\<lparr>um_content_type := None\<rparr>) None empty_storage)"
  by (simp add: storage_after_def sample_put_def put_signed_object_def save_object_def Let_def header_string_def
    empty_storage_def)

theorem storage_objects_consistent_witness:
  "so_size (new_object sample_storage_env 0 ''t'' ''b'' ''n'' ''xyz''
       ((metadata_from_headers [])\<lparr>um_content_type := None\<rparr>) None empty_storage) = 3"
proof -
  have "storage_reachable sample_storage_env (storage_after sample_storage_env sample_put empty_storage)"
    by (rule storage_reachable.step[OF storage_reachable.start])
  from storage_objects_consistent[OF this sample_put_object]
  show ?thesis by (auto simp: new_object_def Let_def)
qed

subsection \<open>A session of chunks\<close>

text \<open>The id a request may give to a new session, and the bytes it adds to the session \<open>i\<close>.\<close>

fun new_session :: "storage_request \<Rightarrow> string option" where
  "new_session (Upload now i token bucket q hs bytes) = Some i"
| "new_session _ = None"

fun chunk_bytes :: "storage_env \<Rightarrow> string \<Rightarrow> storage_request \<Rightarrow> storage_data \<Rightarrow> string" where
  "chunk_bytes env i (Upload now j token bucket q hs bytes) data =
     (if uq_upload_id q \<noteq> None \<and> chunk_of env q hs = Some i \<and>
         r_status (fst (storage_apply env (Upload now j token bucket q hs bytes) data)) = 200 then bytes else [])"
| "chunk_bytes env i (ResumablePut now token bucket q hs bytes) data =
     (if chunk_of env q hs = Some i \<and>
         r_status (fst (storage_apply env (ResumablePut now token bucket q hs bytes) data)) = 200 then bytes else [])"
| "chunk_bytes env i _ data = []"

fun storage_run :: "storage_env \<Rightarrow> storage_request list \<Rightarrow> storage_data \<Rightarrow> storage_data" where
  "storage_run env [] data = data"
| "storage_run env (req # reqs) data = storage_run env reqs (storage_after env req data)"

fun accepted_bytes :: "storage_env \<Rightarrow> string \<Rightarrow> storage_request list \<Rightarrow> storage_data \<Rightarrow> string" where
  "accepted_bytes env i [] data = []"
| "accepted_bytes env i (req # reqs) data =
     chunk_bytes env i req data @ accepted_bytes env i reqs (storage_after env req data)"

text \<open>A session after a request is the session before it with the bytes of its chunk.\<close>

definition extends_session :: "string \<Rightarrow> pending_upload \<Rightarrow> pending_upload \<Rightarrow> bool" where
  "extends_session bytes p p' =
     (pu_bytes p' = pu_bytes p @ bytes \<and> pu_bucket p' = pu_bucket p \<and> pu_name p' = pu_name p \<and>
      pu_metadata p' = pu_metadata p)"

lemma extends_refl [simp]: "extends_session [] p p"
  by (simp add: extends_session_def)

lemma extends_trans: "extends_session a p q \<Longrightarrow> extends_session b q r \<Longrightarrow> extends_session (a @ b) p r"
  by (simp add: extends_session_def)

lemma save_uploads [simp]: "uploads (snd (snd (save_object env now token bucket name bytes md fb data))) = uploads data"
  by (simp add: save_object_def Let_def)

lemma resumable_put_session:
  assumes "storage_ok env data" "resumable_put env now token bucket q hs bytes data = (r, ev, data')"
    and "sm_get (uploads data') i = Some p'"
  shows "\<exists>p. sm_get (uploads data) i = Some p \<and>
    extends_session (if chunk_of env q hs = Some i \<and> r_status r = 200 then bytes else []) p p'"
proof -
  note wf = storage_okD(2)[OF assms(1)] storage_okD(2)[OF prune_ok[OF assms(1), of now]]
  note pruned = prune_get[OF wf(1)]
  from assms(2) show ?thesis
  proof (cases rule: resumable_put_cases)
    case idle
    then show ?thesis using assms(3) pruned by auto
  next
    case (cancel j)
    then show ?thesis using assms(3) pruned wf by (auto split: if_splits)
  next
    case (chunk j p)
    then show ?thesis using assms(3) pruned wf by (auto simp: extends_session_def split: if_splits)
  next
    case (final j p)
    then show ?thesis using assms(3) pruned wf by (auto split: if_splits)
  qed
qed

lemma session_step:
  assumes "storage_ok env data" "new_session req \<noteq> Some i" "sm_get (uploads (storage_after env req data)) i = Some p'"
  shows "\<exists>p. sm_get (uploads data) i = Some p \<and> extends_session (chunk_bytes env i req data) p p'"
proof (cases req)
  case (Upload now j token bucket q hs bytes)
  obtain r ev data' where eq: "upload_object env now j token bucket q hs bytes data = (r, ev, data')"
    using prod_cases3 by blast
  have p': "sm_get (uploads data') i = Some p'" using assms(3) Upload eq by (simp add: storage_after_def)
  note wf = storage_okD(2)[OF assms(1)] storage_okD(2)[OF prune_ok[OF assms(1), of now]]
  from eq show ?thesis
  proof (cases rule: upload_object_cases)
    case put
    then show ?thesis using resumable_put_session[OF assms(1) put(1) p'] Upload eq by simp
  next
    case failed
    then show ?thesis using p' Upload by simp
  next
    case (start name md)
    have "sm_get (uploads (prune_expired_uploads data now)) i = Some p'"
      using p' start(1) start_upload_state[of now j bucket hs name md data] wf(2) assms(2) Upload by (auto split: if_splits)
    then show ?thesis using prune_get[OF wf(1)] start(2) Upload by auto
  next
    case (save name b md fb)
    then show ?thesis using p' save_uploads[of env now token bucket name b md fb data] Upload by simp
  qed
next
  case (ResumablePut now token bucket q hs bytes)
  obtain r ev data' where eq: "resumable_put env now token bucket q hs bytes data = (r, ev, data')"
    using prod_cases3 by blast
  then show ?thesis using resumable_put_session[OF assms(1) eq] assms(3) ResumablePut by (simp add: storage_after_def)
next
  case (SignedPut now token bucket name hs bytes)
  then show ?thesis using assms(3) by (simp add: storage_after_def put_signed_object_def)
next
  case (Delete bucket name)
  then show ?thesis using assms(3) by (simp add: storage_after_def delete_object_def split: option.splits)
qed

lemma session_run:
  assumes "storage_ok env data" "\<forall>req \<in> set reqs. new_session req \<noteq> Some i"
    and "sm_get (uploads (storage_run env reqs data)) i = Some p'"
  shows "\<exists>p. sm_get (uploads data) i = Some p \<and> extends_session (accepted_bytes env i reqs data) p p'"
  using assms
proof (induction reqs arbitrary: data)
  case (Cons req reqs)
  obtain p1 where p1: "sm_get (uploads (storage_after env req data)) i = Some p1"
    "extends_session (accepted_bytes env i reqs (storage_after env req data)) p1 p'"
    using Cons.IH[OF storage_after_ok[OF Cons.prems(1)]] Cons.prems(2,3) by auto
  obtain p where "sm_get (uploads data) i = Some p" "extends_session (chunk_bytes env i req data) p p1"
    using session_step[OF Cons.prems(1) _ p1(1)] Cons.prems(2) by auto
  then show ?case using extends_trans p1(2) by auto
qed auto

lemma run_ok: "storage_ok env data \<Longrightarrow> storage_ok env (storage_run env reqs data)"
  by (induction reqs arbitrary: data) (simp_all add: storage_after_ok)

text \<open>
  Property C26.  A resumable upload stores what was sent: whatever requests come between its start and the
  chunk that finalises it, and whether its session was queried, refused or raced by other uploads, the object
  has exactly the accepted chunks in order, then the last one; it stays within 64 MiB, the session is closed,
  and a download returns those bytes.
\<close>

theorem resumable_upload_reassembled:
  assumes "storage_reachable env data" "name \<noteq> []"
    and "upload_object env now i token bucket
        \<lparr>uq_upload_type = Some ''resumable'', uq_name = Some name, uq_upload_id = None\<rparr> hs meta data = (r0, ev0, data0)"
    and "r_status r0 = 200"
    and "\<forall>req \<in> set reqs. new_session req \<noteq> Some i"
    and "resumable_put env now' token' bucket q hs' final (storage_run env reqs data0) = (r, ev, data')"
    and "chunk_of env q hs' = Some i" "finalizes (upload_command hs')" "r_status r = 200"
  shows "length (accepted_bytes env i reqs data0 @ final) \<le> max_upload_bytes \<and>
    sm_get (uploads data') i = None \<and>
    r_body (get_object env bucket name (Some ''media'') data') = BytesBody (accepted_bytes env i reqs data0 @ final)"
proof -
  have ok: "storage_ok env data" by (rule storage_reachable_ok[OF assms(1)])
  have ok0: "storage_ok env data0"
    using storage_after_ok[OF ok, of "Upload now i token bucket
      \<lparr>uq_upload_type = Some ''resumable'', uq_name = Some name, uq_upload_id = None\<rparr> hs meta"] assms(3)
    by (simp add: storage_after_def)
  note ok1 = run_ok[OF ok0, of reqs]
  obtain md where md: "sm_get (uploads data0) i = Some \<lparr>pu_bucket = bucket, pu_name = name, pu_metadata = md,
      pu_bytes = [], pu_created_at = now\<rparr>"
  proof -
    obtain md0 where "start_upload now i bucket hs name md0 data = (r0, ev0, data0)"
      using assms(2-4) by (auto simp: upload_object_def Let_def first_of_def upload_name_def split: sum.splits if_splits)
    then obtain md' where "data0 = prune_expired_uploads data now\<lparr>uploads :=
        sm_put i \<lparr>pu_bucket = bucket, pu_name = name, pu_metadata = md', pu_bytes = [], pu_created_at = now\<rparr>
          (uploads (prune_expired_uploads data now))\<rparr>"
      using start_upload_state[of now i bucket hs name md0 data] by auto
    then show thesis using storage_okD(2)[OF prune_ok[OF ok, of now]] by (intro that[of md']) simp
  qed
  from assms(6) show ?thesis
  proof (cases rule: resumable_put_cases)
    case (final j p)
    have j: "j = i" using final(1) assms(7) by simp
    let ?d = "prune_expired_uploads (storage_run env reqs data0) now'"
    let ?d' = "?d\<lparr>uploads := sm_del j (uploads ?d)\<rparr>"
    let ?bytes = "accepted_bytes env i reqs data0 @ final"
    have "sm_get (uploads (storage_run env reqs data0)) i = Some p"
      using prune_get[OF storage_okD(2)[OF ok1] final(2)] j by simp
    from session_run[OF ok0 assms(5) this] md
    have p: "pu_bytes p @ final = ?bytes" "pu_bucket p = bucket" "pu_name p = name"
      by (auto simp: extends_session_def)
    have wf: "sm_wf (uploads ?d)" "sm_wf (objects ?d')"
      using storage_okD(1)[OF ok1] storage_okD(2)[OF prune_ok[OF ok1]] by simp_all
    have "sm_get (uploads data') i = None" using final(6) wf(1) j by simp
    moreover have "sm_get (objects data') (bucket, name) =
        Some (new_object env now' token' bucket name ?bytes (pu_metadata p) (header_string hs' ''content-type'') ?d')"
      using final(6) wf(2) p by (simp add: save_object_def Let_def)
    moreover have "so_bytes (new_object env now' token' bucket name ?bytes (pu_metadata p) ct ?d') = Some ?bytes" for ct
      by (simp only: new_object_def Let_def stored_object.select_convs)
    ultimately show ?thesis using final(4) unfolding p(1) by (simp add: get_object_def media_body)
  qed (use assms(7,8,9) finalizes_commands in \<open>auto simp: chunk_of_def\<close>)
qed

text \<open>A session of two chunks: the first is accepted, a second one is refused for its offset.\<close>

definition sample_query :: upload_query where
  "sample_query = \<lparr>uq_upload_type = None, uq_name = None, uq_upload_id = Some ''u''\<rparr>"

definition sample_chunks :: "storage_request list" where
  "sample_chunks =
     [ResumablePut 5 ''t'' ''b'' sample_query [(''x-goog-upload-command'', Some ''upload'')] ''ab'',
      ResumablePut 6 ''t'' ''b'' sample_query [(''x-goog-upload-command'', Some ''upload''),
        (''x-goog-upload-offset'', Some ''9'')] ''zz'']"

definition sample_pending :: "string \<Rightarrow> pending_upload" where
  "sample_pending bytes = \<lparr>pu_bucket = ''b'', pu_name = ''n'', pu_metadata = default_metadata, pu_bytes = bytes,
     pu_created_at = 0\<rparr>"

definition sample_session :: "string \<Rightarrow> storage_data" where
  "sample_session bytes = empty_storage\<lparr>uploads := [(''u'', sample_pending bytes)]\<rparr>"

lemma sample_start:
  "\<exists>r. upload_object sample_storage_env 0 ''u'' ''t'' ''b''
     \<lparr>uq_upload_type = Some ''resumable'', uq_name = Some ''n'', uq_upload_id = None\<rparr> [] [] empty_storage =
     (r, [], sample_session []) \<and> r_status r = 200"
  by (simp add: upload_object_def start_upload_def Let_def first_of_def upload_name_def header_string_def
    default_metadata_def prune_expired_uploads_def empty_storage_def sample_session_def sample_pending_def sm_retain_def)

lemma sample_prune:
  "n < 3600 \<Longrightarrow> prune_expired_uploads (sample_session bytes) n = sample_session bytes"
  by (simp add: prune_expired_uploads_def sample_session_def sample_pending_def sm_retain_def sat_u64_def
    resumable_upload_ttl_def empty_storage_def)

lemma sample_commands: "\<not> finalizes ''upload''" "finalizes ''upload, finalize''"
  by (code_simp, code_simp)

lemma sample_offset: "9 < n \<Longrightarrow> parse_unsigned n ''9'' = Some 9"
  by (simp add: parse_unsigned_def is_digit_def nat_of_digits_def digit_val_def Let_def)

lemma sample_chunk:
  assumes "n < 3600" "upload_command hs = ''upload''" "length (bs @ bytes) < 100"
  shows "resumable_put sample_storage_env n ''t'' ''b'' sample_query hs bytes (sample_session bs) =
    (if (case upload_offset hs of None \<Rightarrow> False | Some k \<Rightarrow> k \<noteq> length bs)
     then (api_error 400 ''upload offset does not match received size'', [], sample_session bs)
     else (active_response (length (bs @ bytes)), [], sample_session (bs @ bytes)))"
proof -
  have get: "sm_get (uploads (sample_session bs)) ''u'' = Some (sample_pending bs)" by (simp add: sample_session_def)
  have "sat_u64 (length bs + length bytes) \<le> max_upload_bytes"
    unfolding sat_u64_limit using assms(3) by (simp add: max_upload_bytes_def)
  then show ?thesis
    using assms(2) sample_commands(1)
    by (simp add: resumable_put_def sample_query_def sample_storage_env_def sample_prune[OF assms(1)] get Let_def)
      (simp add: sample_pending_def sample_session_def empty_storage_def split: option.split)
qed

lemma final_status:
  assumes "chunk_of env q hs = Some i" "sm_get (uploads (prune_expired_uploads data now)) i = Some p"
    and "pu_bucket p = bucket" "upload_offset hs = None" "length (pu_bytes p) + length bytes \<le> max_upload_bytes"
    and "finalizes (upload_command hs)"
  shows "r_status (fst (resumable_put env now token bucket q hs bytes data)) = 200"
  using assms sat_u64_limit[of "length (pu_bytes p) + length bytes"]
  by (auto simp: resumable_put_def chunk_of_def save_object_def Let_def split: if_splits)

theorem resumable_upload_reassembled_witness:
  "r_body (get_object sample_storage_env ''b'' ''n'' (Some ''media'')
     (snd (snd (resumable_put sample_storage_env 3 ''t'' ''b'' sample_query
       [(''x-goog-upload-command'', Some ''upload, finalize'')] ''c'' (sample_session ''ab''))))) = BytesBody ''abc''"
proof -
  let ?hs = "[(''x-goog-upload-command'', Some ''upload, finalize'')]" and ?env = sample_storage_env
  obtain r0 where r0: "upload_object ?env 0 ''u'' ''t'' ''b''
     \<lparr>uq_upload_type = Some ''resumable'', uq_name = Some ''n'', uq_upload_id = None\<rparr> [] [] empty_storage =
     (r0, [], sample_session [])" "r_status r0 = 200"
    using sample_start by blast
  have cmd: "upload_command [(''x-goog-upload-command'', Some c), h] = c" "upload_command [(''x-goog-upload-command'', Some c)] = c"
    for c h by (simp_all add: upload_command_def header_string_def)
  have off: "upload_offset [(''x-goog-upload-command'', Some ''upload'')] = None"
    "upload_offset [(''x-goog-upload-command'', Some ''upload''), (''x-goog-upload-offset'', Some ''9'')] = Some 9"
    by (simp_all add: upload_offset_def header_string_def sample_offset)
  have put1: "resumable_put ?env 5 ''t'' ''b'' sample_query [(''x-goog-upload-command'', Some ''upload'')] ''ab'' (sample_session []) =
      (active_response (length ''ab''), [], sample_session ''ab'')"
    using sample_chunk[of 5 "[(''x-goog-upload-command'', Some ''upload'')]" "[]" "''ab''"] by (simp add: cmd off(1))
  have put2: "resumable_put ?env 6 ''t'' ''b'' sample_query [(''x-goog-upload-command'', Some ''upload''),
        (''x-goog-upload-offset'', Some ''9'')] ''zz'' (sample_session ''ab'') =
      (api_error 400 ''upload offset does not match received size'', [], sample_session ''ab'')"
    using sample_chunk[of 6 "[(''x-goog-upload-command'', Some ''upload''), (''x-goog-upload-offset'', Some ''9'')]" "''ab''" "''zz''"]
    by (simp add: cmd off(2))
  have run: "storage_run ?env sample_chunks (sample_session []) = sample_session ''ab''"
    by (simp add: sample_chunks_def storage_after_def put1 put2)
  have chunk: "chunk_of ?env sample_query [(''x-goog-upload-command'', Some c), h] = Some ''u''"
    "chunk_of ?env sample_query [(''x-goog-upload-command'', Some c)] = Some ''u''"
    if "c \<noteq> ''cancel''" "c \<noteq> ''query''" for c h
    using that by (simp_all add: chunk_of_def cmd sample_query_def sample_storage_env_def)
  have acc: "accepted_bytes ?env ''u'' sample_chunks (sample_session []) = ''ab''"
    by (simp add: sample_chunks_def storage_after_def put1 put2 chunk)
  obtain r ev data' where fin: "resumable_put ?env 3 ''t'' ''b'' sample_query ?hs ''c'' (sample_session ''ab'') = (r, ev, data')"
    using prod_cases3 by blast
  have "fst (resumable_put ?env 3 ''t'' ''b'' sample_query ?hs ''c'' (sample_session ''ab'')) = r" by (simp add: fin)
  moreover have "upload_offset ?hs = None" by (simp add: upload_offset_def header_string_def)
  moreover have "uploads (sample_session ''ab'') = [(''u'', sample_pending ''ab'')]" by (simp add: sample_session_def)
  ultimately have "r_status r = 200"
    using final_status[of ?env sample_query ?hs "''u''" "sample_session ''ab''" 3 "sample_pending ''ab''" "''b''" "''c''" "''t''"]
      chunk(2)[of "''upload, finalize''"] sample_commands(2)
    by (simp add: cmd sample_prune) (simp add: sample_pending_def max_upload_bytes_def)
  then show ?thesis
    using resumable_upload_reassembled[OF storage_reachable.start _ r0, of sample_chunks 3 "''t''" sample_query ?hs "''c''" r ev data']
      fin run acc chunk(2)[of "''upload, finalize''"] sample_commands(2)
    by (simp add: cmd) (simp add: sample_chunks_def)
qed

end
