(* ===== verification/Storage_Durable.thy ===== *)
theory Storage_Durable
  imports Storage Outbox
begin

text \<open>
  The Storage emulator of \<open>src/src/storage.rs\<close> on a data directory: the rows of
  \<open>storage_objects\<close> with the generation counter and the event outbox in the database, and the
  bytes in files of the blob directory.  The handlers are given phase by phase: writing and renaming
  the file of an upload, the database transaction, the removal of the replaced file, and the recovery
  at startup.  The JSON forms of the metadata and of an event payload are parameters.
\<close>

subsection \<open>State\<close>

record stored_metadata =
  md_content_type :: string
  md_metadata :: "(string, string) smap"
  md_cache_control :: "string option"
  md_content_disposition :: "string option"
  md_content_encoding :: "string option"
  md_download_token :: string
  md_size :: nat
  md_crc32c :: string

record object_row =
  row_blob_name :: string
  row_metadata_json :: string
  row_generation :: nat
  row_created :: string
  row_updated :: string

record storage_db =
  storage_objects :: "(string \<times> string, object_row) smap"
  storage_generation :: nat
  event_outbox :: outbox

datatype dir_entry = RegularFile string | Symlink | OtherEntry

record data_dir =
  blobs :: "(string, dir_entry) smap"
  temporary :: "(string, dir_entry) smap"

record durable_env =
  de_storage :: storage_env
  de_encode :: "stored_metadata \<Rightarrow> string"
  de_decode :: "string \<Rightarrow> stored_metadata option"
  de_event :: "string \<Rightarrow> json \<Rightarrow> string"
  de_events_enabled :: bool

definition env_crc :: "durable_env \<Rightarrow> string \<Rightarrow> string" where
  "env_crc env = se_crc32c (de_storage env)"

subsection \<open>Rows and objects\<close>

definition blob_path :: "durable_env \<Rightarrow> string \<Rightarrow> persistence_error + string" where
  "blob_path env name =
     (case se_uuid (de_storage env) name of
        None \<Rightarrow> Inl (Corrupt (''invalid Storage blob id '' @ name))
      | Some i \<Rightarrow> if i \<noteq> name then Inl (Corrupt (''non-canonical Storage blob id '' @ name)) else Inr name)"

definition metadata_json :: "durable_env \<Rightarrow> stored_object \<Rightarrow> string" where
  "metadata_json env ob = de_encode env
     \<lparr>md_content_type = so_content_type ob, md_metadata = so_metadata ob, md_cache_control = so_cache_control ob,
      md_content_disposition = so_content_disposition ob, md_content_encoding = so_content_encoding ob,
      md_download_token = so_download_token ob, md_size = so_size ob, md_crc32c = so_crc32c ob\<rparr>"

definition stored_object_of :: "durable_env \<Rightarrow> string \<times> string \<Rightarrow> object_row \<Rightarrow> persistence_error + stored_object" where
  "stored_object_of env k r =
     (case de_decode env (row_metadata_json r) of
        None \<Rightarrow> Inl (Corrupt (''invalid Storage metadata for '' @ fst k @ ''/'' @ snd k))
      | Some md \<Rightarrow>
          if row_generation r = 0 then Inl (Corrupt (''negative Storage generation for '' @ fst k @ ''/'' @ snd k))
          else Inr \<lparr>so_bucket = fst k, so_name = snd k, so_bytes = None, so_blob_name = Some (row_blob_name r),
            so_size = md_size md, so_crc32c = md_crc32c md, so_content_type = md_content_type md,
            so_metadata = md_metadata md, so_cache_control = md_cache_control md,
            so_content_disposition = md_content_disposition md, so_content_encoding = md_content_encoding md,
            so_generation = row_generation r, so_created = row_created r, so_updated = row_updated r,
            so_download_token = md_download_token md\<rparr>)"

definition storage_outbox_record :: "durable_env \<Rightarrow> string \<Rightarrow> json \<Rightarrow> outbox_record" where
  "storage_outbox_record env kind ob = OutboxRecord ''storage'' (de_event env kind ob)"

definition persistent_object ::
  "durable_env \<Rightarrow> string \<times> string \<Rightarrow> storage_db \<Rightarrow> persistence_error + stored_object option" where
  "persistent_object env k db =
     (case sm_get (storage_objects db) k of
        None \<Rightarrow> Inr None
      | Some r \<Rightarrow> rbind (stored_object_of env k r) (\<lambda>ob. Inr (Some ob)))"

subsection \<open>Reading the bytes\<close>

definition load_blob :: "durable_env \<Rightarrow> data_dir \<Rightarrow> stored_object \<Rightarrow> persistence_error + string" where
  "load_blob env dir ob =
     rbind (of_option (Corrupt ''persistent object has no blob id'') (so_blob_name ob)) (\<lambda>name.
     rbind (blob_path env name) (\<lambda>path.
       (case sm_get (blobs dir) path of
          None \<Rightarrow> Inl (Corrupt (''failed to inspect Storage blob '' @ name))
        | Some (RegularFile bytes) \<Rightarrow>
            if length bytes \<noteq> so_size ob \<or> env_crc env bytes \<noteq> so_crc32c ob
            then Inl (Corrupt (''Storage blob '' @ name @ '' does not match committed metadata''))
            else Inr bytes
        | Some _ \<Rightarrow> Inl (Corrupt (''Storage blob '' @ name @ '' is not a regular file'')))))"

definition persistent_media ::
  "durable_env \<Rightarrow> string \<times> string \<Rightarrow> storage_db \<Rightarrow> data_dir \<Rightarrow> persistence_error + stored_object option" where
  "persistent_media env k db dir =
     rbind (persistent_object env k db) (\<lambda>found.
       (case found of
          None \<Rightarrow> Inr None
        | Some ob \<Rightarrow> rbind (load_blob env dir ob) (\<lambda>bytes. Inr (Some (ob\<lparr>so_bytes := Some bytes\<rparr>)))))"

subsection \<open>Saving and deleting\<close>

text \<open>The upload whose file is being written; it is named by the fresh blob id.\<close>

datatype save_phase = Written | Renamed | Synced

record pending_save =
  ps_key :: "string \<times> string"
  ps_bytes :: string
  ps_metadata :: upload_metadata
  ps_fallback :: "string option"
  ps_temporary :: string
  ps_phase :: save_phase

definition durable_object ::
  "durable_env \<Rightarrow> nat \<Rightarrow> string \<Rightarrow> string \<Rightarrow> pending_save \<Rightarrow> storage_db \<Rightarrow> stored_object" where
  "durable_object env now token blob s db =
     (let stamp = timestamp_from_unix (int now); md = ps_metadata s in
      \<lparr>so_bucket = fst (ps_key s), so_name = snd (ps_key s), so_bytes = None, so_blob_name = Some blob,
       so_size = length (ps_bytes s), so_crc32c = env_crc env (ps_bytes s),
       so_content_type = (case first_of (um_content_type md) (ps_fallback s) of
          None \<Rightarrow> ''application/octet-stream'' | Some t \<Rightarrow> t),
       so_metadata = um_metadata md, so_cache_control = um_cache_control md,
       so_content_disposition = um_content_disposition md, so_content_encoding = um_content_encoding md,
       so_generation = storage_generation db + 1,
       so_created = (case sm_get (storage_objects db) (ps_key s) of None \<Rightarrow> stamp | Some old \<Rightarrow> row_created old),
       so_updated = stamp, so_download_token = token\<rparr>)"

definition upsert_row :: "object_row \<Rightarrow> object_row option \<Rightarrow> object_row" where
  "upsert_row new old =
     (case old of None \<Rightarrow> new | Some r \<Rightarrow> new\<lparr>row_created := row_created r\<rparr>)"

text \<open>
  The transaction of a save.  \<open>fault\<close> is the error the database layer reports, if any; then nothing
  is changed.
\<close>

definition commit_object ::
  "durable_env \<Rightarrow> nat \<Rightarrow> string \<Rightarrow> persistence_error option \<Rightarrow> string \<Rightarrow> pending_save \<Rightarrow> storage_db \<Rightarrow>
   persistence_error + (stored_object \<times> string option \<times> storage_db)" where
  "commit_object env now token fault blob s db =
     (let old = sm_get (storage_objects db) (ps_key s);
          ob = durable_object env now token blob s db;
          r = \<lparr>row_blob_name = blob, row_metadata_json = metadata_json env ob, row_generation = so_generation ob,
               row_created = so_created ob, row_updated = so_updated ob\<rparr>
      in rbind (insert_outbox (de_events_enabled env) (event_outbox db)
                  [storage_outbox_record env ''finalize'' (object_json ob)]) (\<lambda>outbox.
         (case fault of
            Some e \<Rightarrow> Inl e
          | None \<Rightarrow> Inr (ob, map_option row_blob_name old,
              \<lparr>storage_objects = sm_put (ps_key s) (upsert_row r old) (storage_objects db),
               storage_generation = storage_generation db + 1, event_outbox = outbox\<rparr>))))"

definition replaced_blob :: "string \<Rightarrow> string option \<Rightarrow> string option" where
  "replaced_blob blob old = (case old of None \<Rightarrow> None | Some b \<Rightarrow> if b = blob then None else Some b)"

definition delete_row ::
  "durable_env \<Rightarrow> persistence_error option \<Rightarrow> string \<times> string \<Rightarrow> storage_db \<Rightarrow>
   persistence_error + (string option \<times> storage_db)" where
  "delete_row env fault k db =
     (case sm_get (storage_objects db) k of
        None \<Rightarrow> Inr (None, db)
      | Some r \<Rightarrow>
          rbind (stored_object_of env k r) (\<lambda>ob.
          rbind (insert_outbox (de_events_enabled env) (event_outbox db)
                  [storage_outbox_record env ''delete'' (object_json ob)]) (\<lambda>outbox.
            (case fault of
               Some e \<Rightarrow> Inl e
             | None \<Rightarrow> Inr (Some (row_blob_name r),
                 db\<lparr>storage_objects := sm_del k (storage_objects db), event_outbox := outbox\<rparr>)))))"

subsection \<open>Recovery\<close>

definition check_blob :: "durable_env \<Rightarrow> data_dir \<Rightarrow> string \<Rightarrow> persistence_error + unit" where
  "check_blob env dir name =
     rbind (blob_path env name) (\<lambda>path.
       (case sm_get (blobs dir) path of
          None \<Rightarrow> Inl (Corrupt (''Storage metadata references missing blob '' @ name))
        | Some (RegularFile _) \<Rightarrow> Inr ()
        | Some _ \<Rightarrow> Inl (Corrupt (''Storage metadata references non-file blob '' @ name))))"

definition referenced_blobs :: "storage_db \<Rightarrow> string list" where
  "referenced_blobs db = map row_blob_name (sm_values (storage_objects db))"

text \<open>The removal of a file fails where \<open>stuck\<close> says so, and ends the recovery with an error.\<close>

definition remove_entries ::
  "(string \<Rightarrow> bool) \<Rightarrow> (string \<Rightarrow> dir_entry \<Rightarrow> bool) \<Rightarrow> (string, dir_entry) smap \<Rightarrow>
   persistence_error + (string, dir_entry) smap" where
  "remove_entries stuck doomed m =
     (case List.find (\<lambda>(n, e). doomed n e \<and> stuck n) m of
        Some (n, _) \<Rightarrow> Inl (Io n)
      | None \<Rightarrow> Inr (sm_retain (\<lambda>n e. \<not> doomed n e) m))"

definition recover_blobs ::
  "durable_env \<Rightarrow> (string \<Rightarrow> bool) \<Rightarrow> storage_db \<Rightarrow> data_dir \<Rightarrow> persistence_error + data_dir" where
  "recover_blobs env stuck db dir =
     rbind (rcollect (check_blob env dir) (referenced_blobs db)) (\<lambda>_.
     rbind (remove_entries stuck (\<lambda>_ e. e \<noteq> OtherEntry) (temporary dir)) (\<lambda>temps.
     rbind (remove_entries stuck (\<lambda>n e. e \<noteq> OtherEntry \<and> n \<notin> set (referenced_blobs db)) (blobs dir)) (\<lambda>bs.
       Inr \<lparr>blobs = bs, temporary = temps\<rparr>)))"

end
