(* ===== verification/Storage_Crash.thy ===== *)
theory Storage_Crash
  imports Storage_Durable "HOL-Library.Countable"
begin

text \<open>
  The durable Storage emulator as a transition system with crashes.  Uploads run side by side up to
  their transaction; the exclusive side of \<open>blob_lifecycle\<close> orders the transactions and the
  removals after them.  A committed transaction survives a crash (SQLite with
  \<open>synchronous=FULL\<close>); of the file system only what the code has flushed does: a renamed file
  may vanish until its directory is synced, and a removed file may come back.
\<close>

subsection \<open>States and steps\<close>

record store_world =
  db :: storage_db
  dir :: data_dir
  saves :: "(string, pending_save) smap"
  cleanup :: "string option option"
  unsynced :: "string set"
  unlinked :: "(string, dir_entry) smap"
  running :: bool

text \<open>What a step means for the objects a client can read.\<close>

datatype store_event = Put "string \<times> string" string | Removed "string \<times> string" | Silent

definition fresh_blob :: "store_world \<Rightarrow> string \<Rightarrow> bool" where
  "fresh_blob w b =
     (\<not> sm_has (saves w) b \<and> \<not> sm_has (blobs (dir w)) b \<and> \<not> sm_has (unlinked w) b \<and>
      b \<notin> set (referenced_blobs (db w)))"

definition fresh_temporary :: "store_world \<Rightarrow> string \<Rightarrow> bool" where
  "fresh_temporary w t =
     (\<not> sm_has (temporary (dir w)) t \<and> (\<forall>s \<in> set (sm_values (saves w)). ps_temporary s \<noteq> t))"

definition unlink :: "string \<Rightarrow> store_world \<Rightarrow> store_world" where
  "unlink b w =
     (case sm_get (blobs (dir w)) b of
        None \<Rightarrow> w
      | Some e \<Rightarrow> w\<lparr>dir := (dir w)\<lparr>blobs := sm_del b (blobs (dir w))\<rparr>, unlinked := sm_put b e (unlinked w),
                     unsynced := unsynced w - {b}\<rparr>)"

definition set_phase :: "string \<Rightarrow> pending_save \<Rightarrow> save_phase \<Rightarrow> store_world \<Rightarrow> store_world" where
  "set_phase b s p w = w\<lparr>saves := sm_put b (s\<lparr>ps_phase := p\<rparr>) (saves w)\<rparr>"

definition end_save :: "string \<Rightarrow> store_world \<Rightarrow> store_world" where
  "end_save b w = w\<lparr>saves := sm_del b (saves w)\<rparr>"

inductive store_step :: "durable_env \<Rightarrow> store_world \<Rightarrow> store_event \<Rightarrow> store_world \<Rightarrow> bool" for env where
  write_file: "running w \<Longrightarrow> se_uuid (de_storage env) b = Some b \<Longrightarrow> fresh_blob w b \<Longrightarrow>
    fresh_temporary w t \<Longrightarrow>
    s = \<lparr>ps_key = k, ps_bytes = bytes, ps_metadata = md, ps_fallback = fb, ps_temporary = t, ps_phase = Written\<rparr> \<Longrightarrow>
    store_step env w Silent (w\<lparr>dir := (dir w)\<lparr>temporary := sm_put t (RegularFile bytes) (temporary (dir w))\<rparr>,
      saves := sm_put b s (saves w)\<rparr>)"
| rename_file: "running w \<Longrightarrow> sm_get (saves w) b = Some s \<Longrightarrow> ps_phase s = Written \<Longrightarrow>
    sm_get (temporary (dir w)) (ps_temporary s) = Some e \<Longrightarrow>
    store_step env w Silent (set_phase b s Renamed w
      \<lparr>dir := \<lparr>blobs = sm_put b e (blobs (dir w)), temporary = sm_del (ps_temporary s) (temporary (dir w))\<rparr>,
       unsynced := insert b (unsynced w)\<rparr>)"
| sync_parent: "running w \<Longrightarrow> sm_get (saves w) b = Some s \<Longrightarrow> ps_phase s = Renamed \<Longrightarrow>
    store_step env w Silent (set_phase b s Synced w\<lparr>unsynced := unsynced w - {b}\<rparr>)"
| file_error: "running w \<Longrightarrow> sm_get (saves w) b = Some s \<Longrightarrow> ps_phase s \<noteq> Synced \<Longrightarrow>
    store_step env w Silent (end_save b w
      \<lparr>dir := (dir w)\<lparr>temporary := sm_del (ps_temporary s) (temporary (dir w))\<rparr>\<rparr>)"
| commit_save: "running w \<Longrightarrow> cleanup w = None \<Longrightarrow> sm_get (saves w) b = Some s \<Longrightarrow> ps_phase s = Synced \<Longrightarrow>
    commit_object env now token fault b s (db w) = Inr (ob, old, db') \<Longrightarrow>
    store_step env w (Put (ps_key s) (ps_bytes s))
      (end_save b w\<lparr>db := db', cleanup := Some (replaced_blob b old)\<rparr>)"
| commit_failed: "running w \<Longrightarrow> cleanup w = None \<Longrightarrow> sm_get (saves w) b = Some s \<Longrightarrow> ps_phase s = Synced \<Longrightarrow>
    commit_object env now token fault b s (db w) = Inl e \<Longrightarrow> w' \<in> {end_save b w, unlink b (end_save b w)} \<Longrightarrow>
    store_step env w Silent w'"
| delete_commit: "running w \<Longrightarrow> cleanup w = None \<Longrightarrow> delete_row env fault k (db w) = Inr (Some b, db') \<Longrightarrow>
    store_step env w (Removed k) (w\<lparr>db := db', cleanup := Some (Some b)\<rparr>)"
| cleanup_kept: "running w \<Longrightarrow> cleanup w = Some c \<Longrightarrow> store_step env w Silent (w\<lparr>cleanup := None\<rparr>)"
| cleanup_file: "running w \<Longrightarrow> cleanup w = Some (Some b) \<Longrightarrow> blob_path env b = Inr path \<Longrightarrow>
    store_step env w Silent (unlink path w\<lparr>cleanup := None\<rparr>)"
| crash: "sm_wf temps \<Longrightarrow> sm_wf bs \<Longrightarrow>
    (\<And>b. b \<notin> unsynced w \<Longrightarrow> sm_get (blobs (dir w)) b \<noteq> None \<Longrightarrow> sm_get bs b = sm_get (blobs (dir w)) b) \<Longrightarrow>
    (\<And>b. sm_get (blobs (dir w)) b = None \<Longrightarrow> sm_get bs b \<in> {None, sm_get (unlinked w) b}) \<Longrightarrow>
    store_step env w Silent (w\<lparr>dir := \<lparr>blobs = bs, temporary = temps\<rparr>, saves := [], cleanup := None,
      unsynced := {}, unlinked := [], running := False\<rparr>)"
| recovered: "\<not> running w \<Longrightarrow> recover_blobs env (\<lambda>_. False) (db w) (dir w) = Inr dir' \<Longrightarrow>
    store_step env w Silent (w\<lparr>dir := dir', running := True\<rparr>)"

definition empty_world :: "store_world" where
  "empty_world = \<lparr>db = \<lparr>storage_objects = [], storage_generation = 0, event_outbox = empty_outbox\<rparr>,
     dir = \<lparr>blobs = [], temporary = []\<rparr>, saves = [], cleanup = None, unsynced = {}, unlinked = [], running = False\<rparr>"

inductive store_reachable :: "durable_env \<Rightarrow> store_world \<Rightarrow> bool" for env where
  start: "store_reachable env empty_world"
| step: "store_reachable env w \<Longrightarrow> store_step env w l w' \<Longrightarrow> store_reachable env w'"

text \<open>The objects a client can read, and the effect of an event on them.\<close>

definition readable :: "durable_env \<Rightarrow> store_world \<Rightarrow> string \<times> string \<Rightarrow> string option" where
  "readable env w k =
     (case persistent_media env k (db w) (dir w) of Inr (Some ob) \<Rightarrow> so_bytes ob | _ \<Rightarrow> None)"

fun apply_event :: "store_event \<Rightarrow> (string \<times> string \<Rightarrow> string option) \<Rightarrow> string \<times> string \<Rightarrow> string option" where
  "apply_event (Put k bytes) m = m(k := Some bytes)"
| "apply_event (Removed k) m = m(k := None)"
| "apply_event Silent m = m"

subsection \<open>The invariant\<close>

definition refs :: "storage_db \<Rightarrow> string \<Rightarrow> bool" where
  "refs d b = (\<exists>k r. sm_get (storage_objects d) k = Some r \<and> row_blob_name r = b)"

lemma referenced_blobs_refs: "sm_wf (storage_objects d) \<Longrightarrow> set (referenced_blobs d) = {b. refs d b}"
proof -
  assume wf: "sm_wf (storage_objects d)"
  have "set (referenced_blobs d) = (\<lambda>e. row_blob_name (snd e)) ` set (storage_objects d)"
    by (simp add: referenced_blobs_def sm_values_def image_image)
  also have "\<dots> = {b. \<exists>k r. (k, r) \<in> set (storage_objects d) \<and> row_blob_name r = b}" by force
  finally show ?thesis by (simp add: refs_def in_sm_iff[OF wf])
qed

definition row_ok :: "durable_env \<Rightarrow> (string, dir_entry) smap \<Rightarrow> object_row \<Rightarrow> bool" where
  "row_ok env bs r =
     (se_uuid (de_storage env) (row_blob_name r) = Some (row_blob_name r) \<and> 0 < row_generation r \<and>
      (\<exists>md bytes. de_decode env (row_metadata_json r) = Some md \<and>
        sm_get bs (row_blob_name r) = Some (RegularFile bytes) \<and>
        length bytes = md_size md \<and> env_crc env bytes = md_crc32c md))"

definition rows_ok :: "durable_env \<Rightarrow> store_world \<Rightarrow> bool" where
  "rows_ok env w =
     (sm_wf (storage_objects (db w)) \<and>
      (\<forall>k r. sm_get (storage_objects (db w)) k = Some r \<longrightarrow> row_ok env (blobs (dir w)) r) \<and>
      (\<forall>k k' r r'. sm_get (storage_objects (db w)) k = Some r \<longrightarrow> sm_get (storage_objects (db w)) k' = Some r' \<longrightarrow>
         row_blob_name r = row_blob_name r' \<longrightarrow> k = k'))"

definition apart :: "store_world \<Rightarrow> bool" where
  "apart w = (\<forall>b. refs (db w) b \<longrightarrow> b \<notin> unsynced w \<and> \<not> sm_has (saves w) b \<and> \<not> sm_has (unlinked w) b \<and>
     cleanup w \<noteq> Some (Some b))"

definition save_ok :: "durable_env \<Rightarrow> store_world \<Rightarrow> string \<Rightarrow> pending_save \<Rightarrow> bool" where
  "save_ok env w b s =
     (se_uuid (de_storage env) b = Some b \<and> \<not> sm_has (unlinked w) b \<and> cleanup w \<noteq> Some (Some b) \<and>
      (if ps_phase s = Written
       then sm_get (temporary (dir w)) (ps_temporary s) = Some (RegularFile (ps_bytes s)) \<and> \<not> sm_has (blobs (dir w)) b
       else sm_get (blobs (dir w)) b = Some (RegularFile (ps_bytes s))) \<and>
      (ps_phase s \<noteq> Renamed \<longrightarrow> b \<notin> unsynced w))"

definition saves_ok :: "durable_env \<Rightarrow> store_world \<Rightarrow> bool" where
  "saves_ok env w =
     ((\<forall>b s. sm_get (saves w) b = Some s \<longrightarrow> save_ok env w b s) \<and>
      (\<forall>b b' s s'. sm_get (saves w) b = Some s \<longrightarrow> sm_get (saves w) b' = Some s' \<longrightarrow>
         ps_temporary s = ps_temporary s' \<longrightarrow> b = b'))"

definition world_ok :: "durable_env \<Rightarrow> store_world \<Rightarrow> bool" where
  "world_ok env w =
     (rows_ok env w \<and> apart w \<and> saves_ok env w \<and>
      sm_wf (blobs (dir w)) \<and> sm_wf (temporary (dir w)) \<and> sm_wf (saves w) \<and> sm_wf (unlinked w) \<and>
      (\<forall>c. cleanup w = Some (Some c) \<longrightarrow> sm_has (blobs (dir w)) c) \<and>
      (\<forall>b. b \<in> unsynced w \<longrightarrow> sm_has (blobs (dir w)) b) \<and>
      (\<not> running w \<longrightarrow> saves w = [] \<and> cleanup w = None \<and> unsynced w = {} \<and> unlinked w = []))"

lemma world_okD:
  assumes "world_ok env w"
  shows "rows_ok env w" "apart w" "saves_ok env w" "sm_wf (blobs (dir w))" "sm_wf (temporary (dir w))"
    "sm_wf (saves w)" "sm_wf (unlinked w)" "cleanup w = Some (Some c) \<Longrightarrow> sm_has (blobs (dir w)) c"
    "b \<in> unsynced w \<Longrightarrow> sm_has (blobs (dir w)) b"
    "\<not> running w \<Longrightarrow> saves w = [] \<and> cleanup w = None \<and> unsynced w = {} \<and> unlinked w = []"
  using assms unfolding world_ok_def by blast+

lemma rows_okD:
  assumes "rows_ok env w" "sm_get (storage_objects (db w)) k = Some r"
  shows "row_ok env (blobs (dir w)) r" "refs (db w) (row_blob_name r)"
  using assms unfolding rows_ok_def refs_def by blast+

lemma saves_okD:
  assumes "saves_ok env w" "sm_get (saves w) b = Some s"
  shows "save_ok env w b s"
  using assms unfolding saves_ok_def by blast

text \<open>Rows depend on the database and on the files they refer to.\<close>

lemma rows_ok_frame:
  assumes "rows_ok env w" "db w' = db w" "\<And>b. refs (db w) b \<Longrightarrow> sm_get (blobs (dir w')) b = sm_get (blobs (dir w)) b"
  shows "rows_ok env w'"
  using assms(1) assms(3) unfolding rows_ok_def assms(2) row_ok_def refs_def by metis

lemma readable_row:
  assumes "rows_ok env w"
  shows "readable env w k = (case sm_get (storage_objects (db w)) k of None \<Rightarrow> None
    | Some r \<Rightarrow> (case sm_get (blobs (dir w)) (row_blob_name r) of Some (RegularFile bytes) \<Rightarrow> Some bytes | _ \<Rightarrow> None))"
proof (cases "sm_get (storage_objects (db w)) k")
  case None
  then show ?thesis by (simp add: readable_def persistent_media_def persistent_object_def)
next
  case (Some r)
  have "row_ok env (blobs (dir w)) r" using rows_okD(1)[OF assms Some] .
  then show ?thesis using Some
    by (auto simp: row_ok_def readable_def persistent_media_def persistent_object_def stored_object_of_def load_blob_def
      blob_path_def)
qed

lemma readable_frame:
  assumes "rows_ok env w" "db w' = db w" "\<And>b. refs (db w) b \<Longrightarrow> sm_get (blobs (dir w')) b = sm_get (blobs (dir w)) b"
  shows "readable env w' = readable env w"
proof
  fix k
  have ok': "rows_ok env w'" using assms by (rule rows_ok_frame)
  have "sm_get (blobs (dir w')) (row_blob_name r) = sm_get (blobs (dir w)) (row_blob_name r)"
    if "sm_get (storage_objects (db w)) k = Some r" for r
    using assms(3) that unfolding refs_def by blast
  then show "readable env w' k = readable env w k"
    unfolding readable_row[OF assms(1)] readable_row[OF ok'] assms(2)
    by (auto split: option.split)
qed

subsection \<open>Steps before the transaction\<close>

definition step_ok :: "durable_env \<Rightarrow> store_world \<Rightarrow> store_event \<Rightarrow> store_world \<Rightarrow> bool" where
  "step_ok env w l w' = (world_ok env w' \<and> readable env w' = apply_event l (readable env w))"

lemma silent_ok:
  assumes ok: "world_ok env w"
    and same: "db w' = db w" "\<And>c. refs (db w) c \<Longrightarrow> sm_get (blobs (dir w')) c = sm_get (blobs (dir w)) c"
    and "apart w'" "saves_ok env w'" "sm_wf (blobs (dir w'))" "sm_wf (temporary (dir w'))" "sm_wf (saves w')"
    "sm_wf (unlinked w')" "\<And>c. cleanup w' = Some (Some c) \<Longrightarrow> sm_has (blobs (dir w')) c"
    "\<And>b. b \<in> unsynced w' \<Longrightarrow> sm_has (blobs (dir w')) b"
    "\<not> running w' \<Longrightarrow> saves w' = [] \<and> cleanup w' = None \<and> unsynced w' = {} \<and> unlinked w' = []"
  shows "step_ok env w Silent w'"
proof -
  have "rows_ok env w'" using world_okD(1)[OF ok] same by (rule rows_ok_frame)
  moreover have "readable env w' = readable env w" using world_okD(1)[OF ok] same by (rule readable_frame)
  ultimately show ?thesis using assms(4-) by (simp add: step_ok_def world_ok_def)
qed

lemma apartD:
  assumes "apart w" "refs (db w) b"
  shows "b \<notin> unsynced w" "sm_get (saves w) b = None" "sm_get (unlinked w) b = None" "cleanup w \<noteq> Some (Some b)"
  using assms by (auto simp: apart_def sm_has_def)

lemma fresh_blobD:
  assumes "world_ok env w" "fresh_blob w b"
  shows "sm_get (saves w) b = None" "sm_get (blobs (dir w)) b = None" "sm_get (unlinked w) b = None" "\<not> refs (db w) b"
    "b \<notin> unsynced w" "cleanup w \<noteq> Some (Some b)"
proof -
  have "sm_wf (storage_objects (db w))" using world_okD(1)[OF assms(1)] by (simp add: rows_ok_def)
  then show "sm_get (saves w) b = None" "sm_get (blobs (dir w)) b = None" "sm_get (unlinked w) b = None" "\<not> refs (db w) b"
    using assms(2) by (auto simp: fresh_blob_def sm_has_def referenced_blobs_refs)
  then show "b \<notin> unsynced w" "cleanup w \<noteq> Some (Some b)"
    using world_okD(8)[OF assms(1), of b] world_okD(9)[OF assms(1), of b] by (auto simp: sm_has_def)
qed

lemma save_okD:
  assumes "world_ok env w" "sm_get (saves w) b = Some s"
  shows "se_uuid (de_storage env) b = Some b" "sm_get (unlinked w) b = None" "cleanup w \<noteq> Some (Some b)" "\<not> refs (db w) b"
    "ps_phase s = Written \<Longrightarrow> sm_get (temporary (dir w)) (ps_temporary s) = Some (RegularFile (ps_bytes s))"
    "ps_phase s = Written \<Longrightarrow> sm_get (blobs (dir w)) b = None"
    "ps_phase s \<noteq> Written \<Longrightarrow> sm_get (blobs (dir w)) b = Some (RegularFile (ps_bytes s))"
    "ps_phase s \<noteq> Renamed \<Longrightarrow> b \<notin> unsynced w"
    "sm_get (saves w) b' = Some s' \<Longrightarrow> ps_temporary s = ps_temporary s' \<Longrightarrow> b = b'"
  using saves_okD[OF world_okD(3)[OF assms(1)] assms(2)] world_okD(3)[OF assms(1)] apartD(2)[OF world_okD(2)[OF assms(1)], of b] assms(2)
  by (auto simp: save_ok_def sm_has_def saves_ok_def)

lemma write_file_ok:
  assumes ok: "world_ok env w" and uuid: "se_uuid (de_storage env) b = Some b" and fresh: "fresh_blob w b"
    and t: "fresh_temporary w t"
    and s: "s = \<lparr>ps_key = k, ps_bytes = bytes, ps_metadata = md, ps_fallback = fb, ps_temporary = t, ps_phase = Written\<rparr>"
    and run: "running w"
  shows "step_ok env w Silent (w\<lparr>dir := (dir w)\<lparr>temporary := sm_put t (RegularFile bytes) (temporary (dir w))\<rparr>,
      saves := sm_put b s (saves w)\<rparr>)" (is "step_ok env w Silent ?w")
proof (rule silent_ok[OF ok])
  note wf = world_okD(4-7)[OF ok] and f = fresh_blobD[OF ok fresh]
  have other: "ps_temporary s' \<noteq> t" if "sm_get (saves w) c = Some s'" for c s'
    using t that by (force simp: fresh_temporary_def sm_values_def in_sm_iff[OF wf(3), symmetric])
  show "apart ?w" using world_okD(2)[OF ok] f wf by (auto simp: apart_def sm_has_def)
  have "save_ok env ?w c s'" if "sm_get (saves ?w) c = Some s'" for c s'
  proof (cases "c = b")
    case True
    then have "s' = s" using that wf by simp
    then show ?thesis using True f wf uuid s by (simp add: save_ok_def sm_has_def)
  next
    case False
    then have g: "sm_get (saves w) c = Some s'" using that wf by simp
    then show ?thesis using saves_okD[OF world_okD(3)[OF ok] g] other[OF g] wf by (simp add: save_ok_def)
  qed
  moreover have "c = c'" if "sm_get (saves ?w) c = Some s1" "sm_get (saves ?w) c' = Some s2"
      "ps_temporary s1 = ps_temporary s2" for c c' s1 s2
    using that other[of c s1] other[of c' s2] save_okD(9)[OF ok, of c s1 c' s2] wf s by (auto split: if_splits)
  ultimately show "saves_ok env ?w" unfolding saves_ok_def by blast
qed (use world_okD[OF ok] run in simp_all)

lemma rename_file_ok:
  assumes ok: "world_ok env w" and sv: "sm_get (saves w) b = Some s" and ph: "ps_phase s = Written"
    and e: "sm_get (temporary (dir w)) (ps_temporary s) = Some e" and run: "running w"
  shows "step_ok env w Silent (set_phase b s Renamed w
      \<lparr>dir := \<lparr>blobs = sm_put b e (blobs (dir w)), temporary = sm_del (ps_temporary s) (temporary (dir w))\<rparr>,
       unsynced := insert b (unsynced w)\<rparr>)" (is "step_ok env w Silent ?w")
proof (rule silent_ok[OF ok])
  note wf = world_okD(4-7)[OF ok] and sd = save_okD[OF ok sv]
  have eb: "e = RegularFile (ps_bytes s)" using sd(5)[OF ph] e by simp
  show "apart ?w" using world_okD(2)[OF ok] sd(4) wf by (auto simp: apart_def set_phase_def sm_has_def)
  show "sm_get (blobs (dir ?w)) c = sm_get (blobs (dir w)) c" if "refs (db w) c" for c
    using that sd(4) wf by auto
  have "save_ok env ?w c s'" if "sm_get (saves ?w) c = Some s'" for c s'
  proof (cases "c = b")
    case True
    then show ?thesis using that sd(1-3) wf eb by (auto simp: save_ok_def sm_has_def set_phase_def)
  next
    case False
    then have g: "sm_get (saves w) c = Some s'" using that wf by (simp add: set_phase_def)
    have "ps_phase s' = Written \<Longrightarrow> ps_temporary s' \<noteq> ps_temporary s" using sd(9)[OF g] False by auto
    then show ?thesis using saves_okD[OF world_okD(3)[OF ok] g] wf False
      by (auto simp: save_ok_def set_phase_def sm_has_def)
  qed
  moreover have "c = c'" if "sm_get (saves ?w) c = Some s1" "sm_get (saves ?w) c' = Some s2"
      "ps_temporary s1 = ps_temporary s2" for c c' s1 s2
    using that sd(9)[of c s1] sd(9)[of c' s2] save_okD(9)[OF ok, of c s1 c' s2] wf
    by (auto simp: set_phase_def split: if_splits)
  ultimately show "saves_ok env ?w" unfolding saves_ok_def by blast
qed (use world_okD[OF ok] run in \<open>auto simp: set_phase_def sm_has_def\<close>)

lemma sync_parent_ok:
  assumes ok: "world_ok env w" and sv: "sm_get (saves w) b = Some s" and ph: "ps_phase s = Renamed" and run: "running w"
  shows "step_ok env w Silent (set_phase b s Synced w\<lparr>unsynced := unsynced w - {b}\<rparr>)" (is "step_ok env w Silent ?w")
proof (rule silent_ok[OF ok])
  note wf = world_okD(4-7)[OF ok] and sd = save_okD[OF ok sv]
  show "apart ?w" using world_okD(2)[OF ok] sd(4) wf by (auto simp: apart_def set_phase_def sm_has_def)
  have "save_ok env ?w c s'" if "sm_get (saves ?w) c = Some s'" for c s'
  proof (cases "c = b")
    case True
    then show ?thesis using that sd(1-3,7) wf ph by (auto simp: save_ok_def sm_has_def set_phase_def)
  next
    case False
    then have "sm_get (saves w) c = Some s'" using that wf by (simp add: set_phase_def)
    then show ?thesis using saves_okD[OF world_okD(3)[OF ok], of c s'] by (auto simp: save_ok_def set_phase_def)
  qed
  moreover have "c = c'" if "sm_get (saves ?w) c = Some s1" "sm_get (saves ?w) c' = Some s2"
      "ps_temporary s1 = ps_temporary s2" for c c' s1 s2
    using that sd(9)[of c s1] sd(9)[of c' s2] save_okD(9)[OF ok, of c s1 c' s2] wf
    by (auto simp: set_phase_def split: if_splits)
  ultimately show "saves_ok env ?w" unfolding saves_ok_def by blast
qed (use world_okD[OF ok] run in \<open>auto simp: set_phase_def sm_has_def\<close>)

text \<open>Removing saves keeps the others.\<close>

lemma saves_ok_fewer:
  assumes "saves_ok env w" "\<And>c s. sm_get (saves w') c = Some s \<Longrightarrow> sm_get (saves w) c = Some s \<and> (save_ok env w c s \<longrightarrow> save_ok env w' c s)"
  shows "saves_ok env w'"
  unfolding saves_ok_def
proof (intro conjI allI impI)
  fix b s assume "sm_get (saves w') b = Some s"
  then show "save_ok env w' b s" using assms(2)[of b s] saves_okD[OF assms(1), of b s] by blast
next
  fix b b' s s'
  assume a: "sm_get (saves w') b = Some s" "sm_get (saves w') b' = Some s'"
    "ps_temporary s = ps_temporary s'"
  then show "b = b'" using assms(2)[of b s] assms(2)[of b' s'] assms(1) unfolding saves_ok_def by blast
qed

lemma end_save_ok:
  assumes ok: "world_ok env w" and run: "running w"
  shows "step_ok env w Silent (end_save b w)"
proof (rule silent_ok[OF ok])
  note wf = world_okD(4-7)[OF ok]
  show "apart (end_save b w)" using world_okD(2)[OF ok] wf by (auto simp: apart_def end_save_def sm_has_def)
  show "saves_ok env (end_save b w)"
    by (rule saves_ok_fewer[OF world_okD(3)[OF ok]]) (use wf in \<open>auto simp: end_save_def save_ok_def split: if_splits\<close>)
qed (use world_okD[OF ok] run in \<open>auto simp: end_save_def sm_has_def\<close>)

lemma file_error_ok:
  assumes ok: "world_ok env w" and sv: "sm_get (saves w) b = Some s" and run: "running w"
  shows "step_ok env w Silent (end_save b w\<lparr>dir := (dir w)\<lparr>temporary := sm_del (ps_temporary s) (temporary (dir w))\<rparr>\<rparr>)"
    (is "step_ok env w Silent ?w")
proof (rule silent_ok[OF ok])
  note wf = world_okD(4-7)[OF ok] and sd = save_okD[OF ok sv]
  show "apart ?w" using world_okD(2)[OF ok] wf by (auto simp: apart_def end_save_def sm_has_def)
  show "saves_ok env ?w"
  proof (rule saves_ok_fewer[OF world_okD(3)[OF ok]])
    fix c s' assume "sm_get (saves ?w) c = Some s'"
    then have g: "sm_get (saves w) c = Some s'" "c \<noteq> b" using wf by (auto simp: end_save_def split: if_splits)
    then show "sm_get (saves w) c = Some s' \<and> (save_ok env w c s' \<longrightarrow> save_ok env ?w c s')"
      using sd(9)[OF g(1)] wf by (auto simp: end_save_def save_ok_def split: if_splits)
  qed
qed (use world_okD[OF ok] run in \<open>auto simp: end_save_def sm_has_def\<close>)

subsection \<open>Transactions, removals and crashes\<close>

lemma step_ok_trans: "step_ok env w Silent w1 \<Longrightarrow> step_ok env w1 Silent w2 \<Longrightarrow> step_ok env w Silent w2"
  by (simp add: step_ok_def)

lemma step_okD: "step_ok env w l w' \<Longrightarrow> world_ok env w'"
  by (simp add: step_ok_def)

lemma unlink_ok:
  assumes ok: "world_ok env w" and run: "running w" and b: "\<not> refs (db w) b" "sm_get (saves w) b = None" "cleanup w \<noteq> Some (Some b)"
  shows "step_ok env w Silent (unlink b w)"
proof (cases "sm_get (blobs (dir w)) b")
  case None
  then show ?thesis using ok by (simp add: unlink_def step_ok_def)
next
  case (Some e)
  have u: "unlink b w = w\<lparr>dir := (dir w)\<lparr>blobs := sm_del b (blobs (dir w))\<rparr>, unlinked := sm_put b e (unlinked w),
      unsynced := unsynced w - {b}\<rparr>" by (simp add: unlink_def Some)
  note wf = world_okD(4-7)[OF ok]
  show ?thesis unfolding u
  proof (rule silent_ok[OF ok])
    show "apart (w\<lparr>dir := (dir w)\<lparr>blobs := sm_del b (blobs (dir w))\<rparr>, unlinked := sm_put b e (unlinked w),
        unsynced := unsynced w - {b}\<rparr>)"
      using world_okD(2)[OF ok] b(1) wf by (auto simp: apart_def sm_has_def)
    show "saves_ok env (w\<lparr>dir := (dir w)\<lparr>blobs := sm_del b (blobs (dir w))\<rparr>, unlinked := sm_put b e (unlinked w),
        unsynced := unsynced w - {b}\<rparr>)"
      by (rule saves_ok_fewer[OF world_okD(3)[OF ok]]) (use b(2) wf in \<open>auto simp: save_ok_def sm_has_def\<close>)
  qed (use world_okD[OF ok] run b in \<open>auto simp: sm_has_def\<close>)
qed

lemma cleanup_none_ok:
  assumes ok: "world_ok env w" and run: "running w"
  shows "step_ok env w Silent (w\<lparr>cleanup := None\<rparr>)"
proof (rule silent_ok[OF ok])
  show "saves_ok env (w\<lparr>cleanup := None\<rparr>)"
    by (rule saves_ok_fewer[OF world_okD(3)[OF ok]]) (auto simp: save_ok_def)
  show "apart (w\<lparr>cleanup := None\<rparr>)" using world_okD(2)[OF ok] by (simp add: apart_def)
qed (use world_okD[OF ok] run in auto)

lemma cleanup_file_ok:
  assumes ok: "world_ok env w" and run: "running w" and c: "cleanup w = Some (Some b)" and p: "blob_path env b = Inr path"
  shows "step_ok env w Silent (unlink path w\<lparr>cleanup := None\<rparr>)"
proof -
  have path: "path = b" using p by (auto simp: blob_path_def split: option.splits if_splits)
  note first = cleanup_none_ok[OF ok run]
  have "\<not> refs (db w) b" using apartD(4)[OF world_okD(2)[OF ok], of b] c by blast
  moreover have "sm_get (saves w) b = None"
    using saves_okD[OF world_okD(3)[OF ok], of b] c by (cases "sm_get (saves w) b") (auto simp: save_ok_def)
  ultimately have "step_ok env (w\<lparr>cleanup := None\<rparr>) Silent (unlink b (w\<lparr>cleanup := None\<rparr>))"
    by (intro unlink_ok[OF step_okD[OF first]]) (use run in simp_all)
  moreover have "unlink b (w\<lparr>cleanup := None\<rparr>) = unlink b w\<lparr>cleanup := None\<rparr>"
    by (simp add: unlink_def split: option.split)
  ultimately show ?thesis using step_ok_trans[OF first] path by simp
qed

lemma commit_failed_ok:
  assumes ok: "world_ok env w" and run: "running w" and sv: "sm_get (saves w) b = Some s"
    and w': "w' \<in> {end_save b w, unlink b (end_save b w)}"
  shows "step_ok env w Silent w'"
proof -
  note first = end_save_ok[OF ok run, of b] and sd = save_okD[OF ok sv]
  have "step_ok env (end_save b w) Silent (unlink b (end_save b w))"
    by (rule unlink_ok[OF step_okD[OF first]]) (use sd(3,4) run world_okD(6)[OF ok] in \<open>simp_all add: end_save_def\<close>)
  then show ?thesis using step_ok_trans[OF first] first w' by blast
qed

lemma crash_ok:
  assumes ok: "world_ok env w" and "sm_wf temps" "sm_wf bs"
    and keep: "\<And>b. b \<notin> unsynced w \<Longrightarrow> sm_get (blobs (dir w)) b \<noteq> None \<Longrightarrow> sm_get bs b = sm_get (blobs (dir w)) b"
  shows "step_ok env w Silent (w\<lparr>dir := \<lparr>blobs = bs, temporary = temps\<rparr>, saves := [], cleanup := None,
      unsynced := {}, unlinked := [], running := False\<rparr>)"
proof (rule silent_ok[OF ok])
  fix c assume r: "refs (db w) c"
  have "sm_get (blobs (dir w)) c \<noteq> None"
    using r world_okD(1)[OF ok] unfolding rows_ok_def refs_def row_ok_def by fastforce
  then show "sm_get (blobs (dir (w\<lparr>dir := \<lparr>blobs = bs, temporary = temps\<rparr>, saves := [], cleanup := None,
      unsynced := {}, unlinked := [], running := False\<rparr>))) c = sm_get (blobs (dir w)) c"
    using keep apartD(1)[OF world_okD(2)[OF ok] r] by simp
qed (use assms(2,3) in \<open>simp_all add: apart_def saves_ok_def sm_has_def\<close>)

lemma check_blob_ok:
  assumes "rows_ok env w" "refs (db w) b"
  shows "check_blob env (dir w) b = Inr ()"
proof -
  obtain k r where r: "sm_get (storage_objects (db w)) k = Some r" "row_blob_name r = b"
    using assms(2) by (auto simp: refs_def)
  from rows_okD(1)[OF assms(1) r(1)] show ?thesis
    by (auto simp: row_ok_def r(2) check_blob_def blob_path_def)
qed

lemma recover_result:
  assumes ok: "world_ok env w"
  shows "recover_blobs env (\<lambda>_. False) (db w) (dir w) = Inr
    \<lparr>blobs = sm_retain (\<lambda>n e. e = OtherEntry \<or> refs (db w) n) (blobs (dir w)),
     temporary = sm_retain (\<lambda>n e. e = OtherEntry) (temporary (dir w))\<rparr>"
proof -
  note rok = world_okD(1)[OF ok]
  have refs: "set (referenced_blobs (db w)) = {b. refs (db w) b}"
    using rok by (intro referenced_blobs_refs) (simp add: rows_ok_def)
  have "rcollect (check_blob env (dir w)) (referenced_blobs (db w)) \<noteq> Inl e" for e
    using rcollect_Inl_ex[of "check_blob env (dir w)" "referenced_blobs (db w)" e] check_blob_ok[OF rok] refs by fastforce
  then obtain us where us: "rcollect (check_blob env (dir w)) (referenced_blobs (db w)) = Inr us"
    by (cases "rcollect (check_blob env (dir w)) (referenced_blobs (db w))") auto
  have "List.find (\<lambda>(n, e). doomed n e \<and> False) m = None" for doomed and m :: "(string, dir_entry) smap"
    by (simp add: find_None_iff)
  then have rem: "remove_entries (\<lambda>_. False) doomed m = Inr (sm_retain (\<lambda>n e. \<not> doomed n e) m)" for doomed m
    by (simp add: remove_entries_def)
  show ?thesis
    unfolding recover_blobs_def us rem refs by (simp add: disj_commute)
qed

lemma recovered_ok:
  assumes ok: "world_ok env w" and nr: "\<not> running w" and rec: "recover_blobs env (\<lambda>_. False) (db w) (dir w) = Inr dir'"
  shows "step_ok env w Silent (w\<lparr>dir := dir', running := True\<rparr>)"
proof (rule silent_ok[OF ok])
  note wf = world_okD(4-7)[OF ok]
  have d: "dir' = \<lparr>blobs = sm_retain (\<lambda>n e. e = OtherEntry \<or> refs (db w) n) (blobs (dir w)),
     temporary = sm_retain (\<lambda>n e. e = OtherEntry) (temporary (dir w))\<rparr>" using recover_result[OF ok] rec by simp
  show "sm_get (blobs (dir (w\<lparr>dir := dir', running := True\<rparr>))) c = sm_get (blobs (dir w)) c" if "refs (db w) c" for c
    using that wf by (simp add: d sm_get_retain split: option.split)
  show "sm_wf (blobs (dir (w\<lparr>dir := dir', running := True\<rparr>)))" "sm_wf (temporary (dir (w\<lparr>dir := dir', running := True\<rparr>)))"
    using wf by (simp_all add: d)
qed (use world_okD(10)[OF ok nr] in \<open>auto simp: apart_def saves_ok_def sm_has_def\<close>)

definition metadata_codec :: "durable_env \<Rightarrow> bool" where
  "metadata_codec env = (\<forall>md. de_decode env (de_encode env md) = Some md)"

lemma commit_object_Inr:
  assumes "commit_object env now token fault b s d = Inr (ob, old, d')" "metadata_codec env"
  obtains r where "storage_objects d' = sm_put (ps_key s) r (storage_objects d)" "row_blob_name r = b" "0 < row_generation r"
    "\<exists>md. de_decode env (row_metadata_json r) = Some md \<and> md_size md = length (ps_bytes s) \<and> md_crc32c md = env_crc env (ps_bytes s)"
    "old = map_option row_blob_name (sm_get (storage_objects d) (ps_key s))"
proof -
  let ?ob = "durable_object env now token b s d"
  let ?r = "\<lparr>row_blob_name = b, row_metadata_json = metadata_json env ?ob, row_generation = so_generation ?ob,
      row_created = so_created ?ob, row_updated = so_updated ?ob\<rparr>"
  let ?u = "upsert_row ?r (sm_get (storage_objects d) (ps_key s))"
  have d': "storage_objects d' = sm_put (ps_key s) ?u (storage_objects d)"
    "old = map_option row_blob_name (sm_get (storage_objects d) (ps_key s))"
    using assms(1) by (auto simp: commit_object_def Let_def rbind_Inr_iff split: option.splits)
  have u: "row_blob_name ?u = b" "row_metadata_json ?u = metadata_json env ?ob" "row_generation ?u = so_generation ?ob"
    by (simp_all add: upsert_row_def split: option.split)
  have "0 < so_generation ?ob" "so_size ?ob = length (ps_bytes s)" "so_crc32c ?ob = env_crc env (ps_bytes s)"
    by (simp_all add: durable_object_def Let_def)
  then show thesis using u d' assms(2) by (intro that[of ?u]) (simp_all add: metadata_json_def metadata_codec_def)
qed

lemma commit_save_ok:
  assumes ok: "world_ok env w" and codec: "metadata_codec env" and run: "running w" and cl: "cleanup w = None"
    and sv: "sm_get (saves w) b = Some s" and ph: "ps_phase s = Synced"
    and commit: "commit_object env now token fault b s (db w) = Inr (ob, old, db')"
  shows "step_ok env w (Put (ps_key s) (ps_bytes s)) (end_save b w\<lparr>db := db', cleanup := Some (replaced_blob b old)\<rparr>)"
    (is "step_ok env w _ ?w")
proof -
  obtain r where r: "storage_objects db' = sm_put (ps_key s) r (storage_objects (db w))" "row_blob_name r = b"
      "0 < row_generation r" "old = map_option row_blob_name (sm_get (storage_objects (db w)) (ps_key s))"
    and md: "\<exists>md. de_decode env (row_metadata_json r) = Some md \<and> md_size md = length (ps_bytes s) \<and>
      md_crc32c md = env_crc env (ps_bytes s)"
    by (rule commit_object_Inr[OF commit codec])
  note rok = world_okD(1)[OF ok] and wf = world_okD(4-7)[OF ok] and sd = save_okD[OF ok sv]
  have wfo: "sm_wf (storage_objects (db w))" using rok by (simp add: rows_ok_def)
  have get: "sm_get (storage_objects db') k = (if k = ps_key s then Some r else sm_get (storage_objects (db w)) k)" for k
    using wfo by (simp add: r(1))
  have stored: "sm_get (blobs (dir w)) b = Some (RegularFile (ps_bytes s))" using sd(7) ph by simp
  have row: "row_ok env (blobs (dir w)) r" using md r(2,3) stored sd(1) by (auto simp: row_ok_def)
  have nb: "row_blob_name r' \<noteq> b" if "sm_get (storage_objects (db w)) k = Some r'" for k r'
    using sd(4) rows_okD(2)[OF rok that] by auto
  have dist: "k = k'" if "sm_get (storage_objects (db w)) k = Some r1" "sm_get (storage_objects (db w)) k' = Some r2"
      "row_blob_name r1 = row_blob_name r2" for k k' r1 r2
    using that rok unfolding rows_ok_def by blast
  have rows: "rows_ok env ?w"
    unfolding rows_ok_def
  proof (intro conjI allI impI)
    show "sm_wf (storage_objects (db ?w))" using wfo by (simp add: r(1))
    fix k r' assume "sm_get (storage_objects (db ?w)) k = Some r'"
    then show "row_ok env (blobs (dir ?w)) r'"
      using row rows_okD(1)[OF rok, of k r'] by (auto simp: get end_save_def split: if_splits)
  next
    fix k k' r1 r2
    assume "sm_get (storage_objects (db ?w)) k = Some r1" "sm_get (storage_objects (db ?w)) k' = Some r2"
      "row_blob_name r1 = row_blob_name r2"
    then show "k = k'" using nb[of k r1] nb[of k' r2] dist[of k r1 k' r2] r(2) by (auto simp: get split: if_splits)
  qed
  have refs': "c = b \<or> refs (db w) c \<and> old \<noteq> Some c" if "refs db' c" for c
  proof -
    obtain k r' where k: "sm_get (storage_objects db') k = Some r'" "row_blob_name r' = c" using \<open>refs db' c\<close> by (auto simp: refs_def)
    show ?thesis
    proof (cases "k = ps_key s")
      case True
      then show ?thesis using k r(2) by (simp add: get)
    next
      case False
      then have k': "sm_get (storage_objects (db w)) k = Some r'" using k(1) by (simp add: get)
      have "old \<noteq> Some c" using dist[OF k', of "ps_key s"] False k(2) r(4) by auto
      then show ?thesis using rows_okD(2)[OF rok k'] k(2) by simp
    qed
  qed
  have old: "refs (db w) c" if "replaced_blob b old = Some c" for c
    using that r(4) rows_okD(2)[OF rok, of "ps_key s"] by (auto simp: replaced_blob_def split: option.splits if_splits)
  have repl: "replaced_blob b old = Some c \<Longrightarrow> c \<noteq> b \<and> old = Some c" for c
    by (auto simp: replaced_blob_def split: option.splits if_splits)
  have apart: "apart ?w"
    unfolding apart_def
  proof (intro allI impI)
    fix c assume "refs (db ?w) c"
    then have "c = b \<or> refs (db w) c \<and> old \<noteq> Some c" using refs' by simp
    then show "c \<notin> unsynced ?w \<and> \<not> sm_has (saves ?w) c \<and> \<not> sm_has (unlinked ?w) c \<and> cleanup ?w \<noteq> Some (Some c)"
      using apartD[OF world_okD(2)[OF ok], of c] sd(2,8) ph wf repl[of c] by (auto simp: end_save_def sm_has_def)
  qed
  have saves: "saves_ok env ?w"
  proof (rule saves_ok_fewer[OF world_okD(3)[OF ok]])
    fix c s' assume "sm_get (saves ?w) c = Some s'"
    then have g: "sm_get (saves w) c = Some s'" using wf by (auto simp: end_save_def split: if_splits)
    have "replaced_blob b old \<noteq> Some c"
      using old[of c] apartD(2)[OF world_okD(2)[OF ok], of c] g by auto
    then show "sm_get (saves w) c = Some s' \<and> (save_ok env w c s' \<longrightarrow> save_ok env ?w c s')"
      using g by (simp add: save_ok_def end_save_def)
  qed
  have has: "sm_has (blobs (dir ?w)) c" if c: "cleanup ?w = Some (Some c)" for c
  proof -
    have "refs (db w) c" using old c by simp
    then obtain k r' where kr: "sm_get (storage_objects (db w)) k = Some r'" "row_blob_name r' = c" by (auto simp: refs_def)
    from rows_okD(1)[OF rok kr(1)] kr(2) show ?thesis by (auto simp: row_ok_def end_save_def sm_has_def)
  qed
  have "world_ok env ?w"
    unfolding world_ok_def using rows apart saves has world_okD[OF ok] run by (simp add: end_save_def)
  moreover have "readable env ?w = apply_event (Put (ps_key s) (ps_bytes s)) (readable env w)"
  proof
    fix k
    show "readable env ?w k = apply_event (Put (ps_key s) (ps_bytes s)) (readable env w) k"
      using r(2) stored unfolding apply_event.simps fun_upd_apply readable_row[OF rows] readable_row[OF rok]
      by (auto simp: get end_save_def split: option.split)
  qed
  ultimately show ?thesis by (simp add: step_ok_def)
qed

lemma delete_commit_ok:
  assumes ok: "world_ok env w" and run: "running w" and cl: "cleanup w = None"
    and del: "delete_row env fault k (db w) = Inr (Some b, db')"
  shows "step_ok env w (Removed k) (w\<lparr>db := db', cleanup := Some (Some b)\<rparr>)" (is "step_ok env w _ ?w")
proof -
  note rok = world_okD(1)[OF ok] and wf = world_okD(4-7)[OF ok]
  have wfo: "sm_wf (storage_objects (db w))" using rok by (simp add: rows_ok_def)
  obtain r where r: "sm_get (storage_objects (db w)) k = Some r" "row_blob_name r = b"
      "storage_objects db' = sm_del k (storage_objects (db w))"
    using del by (auto simp: delete_row_def rbind_Inr_iff split: option.splits)
  have get: "sm_get (storage_objects db') k' = (if k' = k then None else sm_get (storage_objects (db w)) k')" for k'
    using wfo by (simp add: r(3))
  have dist: "k1 = k2" if "sm_get (storage_objects (db w)) k1 = Some r1" "sm_get (storage_objects (db w)) k2 = Some r2"
      "row_blob_name r1 = row_blob_name r2" for k1 k2 r1 r2
    using that rok unfolding rows_ok_def by blast
  have refs': "refs (db w) c \<and> c \<noteq> b" if "refs db' c" for c
    using that dist[OF r(1)] r(2) by (auto simp: refs_def get split: if_splits)
  have rows: "rows_ok env ?w"
    unfolding rows_ok_def
  proof (intro conjI allI impI)
    show "sm_wf (storage_objects (db ?w))" using wfo by (simp add: r(3))
    fix k1 r1 assume "sm_get (storage_objects (db ?w)) k1 = Some r1"
    then show "row_ok env (blobs (dir ?w)) r1" using rows_okD(1)[OF rok, of k1 r1] by (simp add: get split: if_splits)
  next
    fix k1 k2 r1 r2
    assume "sm_get (storage_objects (db ?w)) k1 = Some r1" "sm_get (storage_objects (db ?w)) k2 = Some r2"
      "row_blob_name r1 = row_blob_name r2"
    then show "k1 = k2" using dist[of k1 r1 k2 r2] by (simp add: get split: if_splits)
  qed
  have refb: "refs (db w) b" using r(1,2) unfolding refs_def by blast
  have "apart ?w" using world_okD(2)[OF ok] refs' by (auto simp: apart_def)
  moreover have "saves_ok env ?w"
  proof (rule saves_ok_fewer[OF world_okD(3)[OF ok]])
    fix c s' assume "sm_get (saves ?w) c = Some s'"
    moreover from this have "c \<noteq> b" using apartD(2)[OF world_okD(2)[OF ok] refb] by auto
    ultimately show "sm_get (saves w) c = Some s' \<and> (save_ok env w c s' \<longrightarrow> save_ok env ?w c s')"
      by (simp add: save_ok_def)
  qed
  moreover have "sm_has (blobs (dir w)) b" using rows_okD(1)[OF rok r(1)] r(2) by (auto simp: row_ok_def sm_has_def)
  ultimately have "world_ok env ?w" unfolding world_ok_def using rows world_okD[OF ok] run by simp
  moreover have "readable env ?w = apply_event (Removed k) (readable env w)"
    by (rule ext) (auto simp: readable_row[OF rows] readable_row[OF rok] get split: option.split)
  ultimately show ?thesis by (simp add: step_ok_def)
qed

lemma store_step_ok:
  assumes "store_step env w l w'" "world_ok env w" "metadata_codec env"
  shows "step_ok env w l w'"
  using assms
proof (cases rule: store_step.cases)
  case (write_file b t s k bytes md fb)
  then show ?thesis using write_file_ok[OF assms(2)] by simp
next
  case (rename_file b s e)
  then show ?thesis using rename_file_ok[OF assms(2)] by simp
next
  case (sync_parent b s)
  then show ?thesis using sync_parent_ok[OF assms(2)] by simp
next
  case (file_error b s)
  then show ?thesis using file_error_ok[OF assms(2)] by simp
next
  case (commit_save b s now token fault ob old db')
  then show ?thesis using commit_save_ok[OF assms(2,3)] by simp
next
  case (commit_failed b s now token fault e)
  then show ?thesis using commit_failed_ok[OF assms(2)] by simp
next
  case (delete_commit fault k b db')
  then show ?thesis using delete_commit_ok[OF assms(2)] by simp
next
  case (cleanup_kept c)
  then show ?thesis using cleanup_none_ok[OF assms(2)] by simp
next
  case (cleanup_file b path)
  then show ?thesis using cleanup_file_ok[OF assms(2)] by simp
next
  case (crash temps bs)
  then show ?thesis using crash_ok[OF assms(2), of temps bs] by simp
next
  case (recovered dir')
  then show ?thesis using recovered_ok[OF assms(2)] by simp
qed

lemma store_reachable_ok: "store_reachable env w \<Longrightarrow> metadata_codec env \<Longrightarrow> world_ok env w"
proof (induction rule: store_reachable.induct)
  case start
  show ?case by (simp add: world_ok_def rows_ok_def apart_def saves_ok_def empty_world_def refs_def)
next
  case (step w l w')
  then show ?case using store_step_ok step_okD by blast
qed

text \<open>
  Property C24.  The durable Storage emulator never loses or mixes up an object: a client reads exactly what
  the committed uploads and deletions say, every object in the database is readable with its own bytes, and
  no other step changes this: not a failed upload, not the removal of old files, not a crash at any point of
  any number of concurrent uploads, not the recovery after it.
\<close>

theorem durable_storage_refines:
  assumes "metadata_codec env" "store_reachable env w" "store_step env w l w'"
  shows "readable env w' = apply_event l (readable env w) \<and>
    (\<forall>k. readable env w' k = None \<longleftrightarrow> \<not> sm_has (storage_objects (db w')) k)"
proof -
  have ok: "step_ok env w l w'" using store_step_ok[OF assms(3) store_reachable_ok] assms by blast
  note rok = world_okD(1)[OF step_okD[OF ok]]
  have "readable env w' k = None \<longleftrightarrow> \<not> sm_has (storage_objects (db w')) k" for k
  proof (cases "sm_get (storage_objects (db w')) k")
    case (Some r)
    then show ?thesis using rows_okD(1)[OF rok Some] by (auto simp: readable_row[OF rok] row_ok_def sm_has_def)
  qed (simp add: readable_row[OF rok] sm_has_def)
  then show ?thesis using ok by (simp add: step_ok_def)
qed

text \<open>
  Property C25.  The startup recovery always succeeds on what the emulator leaves behind, wherever it was
  interrupted: afterwards the blob directory holds exactly the files the database refers to, the temporary
  directory is empty, and every object reads as before.
\<close>

theorem recovery_succeeds:
  assumes "metadata_codec env" "store_reachable env w"
  shows "\<exists>dir'. recover_blobs env (\<lambda>_. False) (db w) (dir w) = Inr dir' \<and>
    (\<forall>b. (\<exists>bytes. sm_get (blobs dir') b = Some (RegularFile bytes)) \<longleftrightarrow> b \<in> set (referenced_blobs (db w))) \<and>
    (\<forall>t e. sm_get (temporary dir') t = Some e \<longrightarrow> e = OtherEntry) \<and>
    readable env (w\<lparr>dir := dir'\<rparr>) = readable env w"
proof -
  have ok: "world_ok env w" by (rule store_reachable_ok[OF assms(2,1)])
  note rok = world_okD(1)[OF ok] and wf = world_okD(4,5)[OF ok]
  let ?dir = "\<lparr>blobs = sm_retain (\<lambda>n e. e = OtherEntry \<or> refs (db w) n) (blobs (dir w)),
     temporary = sm_retain (\<lambda>n e. e = OtherEntry) (temporary (dir w))\<rparr>"
  have refs: "set (referenced_blobs (db w)) = {b. refs (db w) b}"
    using rok by (intro referenced_blobs_refs) (simp add: rows_ok_def)
  have held: "\<exists>bytes. sm_get (blobs (dir w)) b = Some (RegularFile bytes)" if "refs (db w) b" for b
    using that rok unfolding rows_ok_def refs_def row_ok_def by fastforce
  have "(\<exists>bytes. sm_get (blobs ?dir) b = Some (RegularFile bytes)) \<longleftrightarrow> refs (db w) b" for b
    using held[of b] wf(1) by (auto simp: sm_get_retain split: option.splits if_splits)
  moreover have "sm_get (temporary ?dir) t = Some e \<Longrightarrow> e = OtherEntry" for t e
    using wf(2) by (auto simp: sm_get_retain split: option.splits if_splits)
  moreover have "readable env (w\<lparr>dir := ?dir\<rparr>) = readable env w"
    by (rule readable_frame[OF rok]) (use wf(1) in \<open>auto simp: sm_get_retain split: option.split\<close>)
  ultimately show ?thesis using recover_result[OF ok] refs by blast
qed

subsection \<open>An example\<close>

text \<open>Metadata numbered by the library's enumeration of tuples, written in unary.\<close>

definition sample_durable_env :: durable_env where
  "sample_durable_env =
     \<lparr>de_storage = sample_storage_env,
      de_encode = (\<lambda>md. replicate (to_nat (md_content_type md, md_metadata md, md_cache_control md,
        md_content_disposition md, md_content_encoding md, md_download_token md, md_size md, md_crc32c md)) CHR ''x''),
      de_decode = (\<lambda>s. case from_nat (length s) of (a, b, c, d, e, f, g, h) \<Rightarrow> Some
        \<lparr>md_content_type = a, md_metadata = b, md_cache_control = c, md_content_disposition = d,
         md_content_encoding = e, md_download_token = f, md_size = g, md_crc32c = h\<rparr>),
      de_event = (\<lambda>_ _. []), de_events_enabled = False\<rparr>"

lemma sample_durable_codec: "metadata_codec sample_durable_env"
  by (simp add: metadata_codec_def sample_durable_env_def)

definition sample_save :: "save_phase \<Rightarrow> pending_save" where
  "sample_save p = \<lparr>ps_key = (''b'', ''n''), ps_bytes = ''xyz'', ps_metadata = default_metadata, ps_fallback = None,
     ps_temporary = ''t'', ps_phase = p\<rparr>"

definition sample_world :: store_world where
  "sample_world = empty_world\<lparr>dir := \<lparr>blobs = [(''u'', RegularFile ''xyz'')], temporary = []\<rparr>,
     saves := [(''u'', sample_save Synced)], running := True\<rparr>"

lemma sample_world_reachable: "store_reachable sample_durable_env sample_world"
proof -
  let ?env = sample_durable_env
  let ?w1 = "empty_world\<lparr>running := True\<rparr>"
  let ?w2 = "?w1\<lparr>dir := \<lparr>blobs = [], temporary = [(''t'', RegularFile ''xyz'')]\<rparr>, saves := [(''u'', sample_save Written)]\<rparr>"
  let ?w3 = "?w1\<lparr>dir := \<lparr>blobs = [(''u'', RegularFile ''xyz'')], temporary = []\<rparr>, saves := [(''u'', sample_save Renamed)],
      unsynced := {''u''}\<rparr>"
  have "store_step ?env empty_world Silent (empty_world\<lparr>dir := dir empty_world, running := True\<rparr>)"
    by (rule store_step.recovered) (simp_all add: empty_world_def recover_blobs_def referenced_blobs_def sm_values_def
      remove_entries_def sm_retain_def)
  then have 1: "store_reachable ?env ?w1" using store_reachable.step[OF store_reachable.start] by simp
  have "store_step ?env ?w1 Silent (?w1\<lparr>dir := (dir ?w1)\<lparr>temporary := sm_put ''t'' (RegularFile ''xyz'') (temporary (dir ?w1))\<rparr>,
      saves := sm_put ''u'' (sample_save Written) (saves ?w1)\<rparr>)"
    by (rule store_step.write_file[where k="(''b'', ''n'')" and md=default_metadata and fb=None])
      (simp_all add: empty_world_def sample_durable_env_def sample_storage_env_def fresh_blob_def fresh_temporary_def
        sm_has_def referenced_blobs_def sm_values_def sample_save_def)
  then have 2: "store_reachable ?env ?w2" using store_reachable.step[OF 1] by (simp add: empty_world_def)
  have "store_step ?env ?w2 Silent (set_phase ''u'' (sample_save Written) Renamed ?w2
      \<lparr>dir := \<lparr>blobs = sm_put ''u'' (RegularFile ''xyz'') (blobs (dir ?w2)),
              temporary = sm_del (ps_temporary (sample_save Written)) (temporary (dir ?w2))\<rparr>,
       unsynced := insert ''u'' (unsynced ?w2)\<rparr>)"
    by (rule store_step.rename_file) (simp_all add: sample_save_def)
  then have 3: "store_reachable ?env ?w3" using store_reachable.step[OF 2]
    by (simp add: empty_world_def set_phase_def sample_save_def sm_del_def)
  have "store_step ?env ?w3 Silent (set_phase ''u'' (sample_save Renamed) Synced ?w3\<lparr>unsynced := unsynced ?w3 - {''u''}\<rparr>)"
    by (rule store_step.sync_parent) (simp_all add: sample_save_def)
  then show ?thesis using store_reachable.step[OF 3]
    by (simp add: empty_world_def set_phase_def sample_save_def sample_world_def)
qed

theorem durable_storage_refines_witness:
  "\<exists>w. readable sample_durable_env w (''b'', ''n'') = Some ''xyz''"
proof -
  let ?env = sample_durable_env
  obtain ob old d where c: "commit_object ?env 5 ''tok'' None ''u'' (sample_save Synced) (db sample_world) = Inr (ob, old, d)"
    by (simp add: commit_object_def Let_def insert_outbox_def sample_durable_env_def)
  have "store_step ?env sample_world (Put (ps_key (sample_save Synced)) (ps_bytes (sample_save Synced)))
      (end_save ''u'' sample_world\<lparr>db := d, cleanup := Some (replaced_blob ''u'' old)\<rparr>)" (is "store_step _ _ _ ?w")
    by (rule store_step.commit_save[OF _ _ _ _ c]) (simp_all add: sample_world_def empty_world_def sample_save_def)
  from durable_storage_refines[OF sample_durable_codec sample_world_reachable this]
  have "readable ?env ?w (''b'', ''n'') = Some ''xyz''" by (simp add: sample_save_def)
  then show ?thesis by blast
qed

theorem recovery_succeeds_witness:
  "\<exists>dir'. recover_blobs sample_durable_env (\<lambda>_. False) (db sample_world) (dir sample_world) = Inr dir' \<and>
     sm_get (blobs dir') ''u'' \<noteq> Some (RegularFile ''xyz'')"
proof -
  have "referenced_blobs (db sample_world) = []"
    by (simp add: sample_world_def empty_world_def referenced_blobs_def sm_values_def)
  then show ?thesis using recovery_succeeds[OF sample_durable_codec sample_world_reachable] by fastforce
qed

end
