(* ===== verification/Web_Json.thy ===== *)
theory Web_Json
  imports Json Firestore_Query Firestore_Write
begin

text \<open>
  The JSON form of Firestore messages in \<open>src/src/firestore_web.rs\<close>: values, documents, writes,
  filters and queries read from JSON, and values and documents written to it.  Base64 and the text
  of timestamps are library code, given by \<open>web_env\<close>.
\<close>

record web_env =
  we_encode :: "string \<Rightarrow> string"
  we_decode :: "string \<Rightarrow> string option"
  we_time_text :: "timestamp \<Rightarrow> string"
  we_time_parse :: "string \<Rightarrow> timestamp option"

subsection \<open>Reading JSON\<close>

definition json_string :: "json \<Rightarrow> string \<Rightarrow> string" where
  "json_string v k = (case as_str (jindex v k) of None \<Rightarrow> [] | Some s \<Rightarrow> s)"

definition json_array :: "json \<Rightarrow> string \<Rightarrow> json list" where
  "json_array v k = (case as_array (jindex v k) of None \<Rightarrow> [] | Some xs \<Rightarrow> xs)"

definition json_entries :: "json \<Rightarrow> (string \<times> json) list" where
  "json_entries v = (case as_object v of None \<Rightarrow> [] | Some m \<Rightarrow> m)"

text \<open>\<open>as_f64\<close>: an integer is rounded, a floating-point number is its bits.\<close>

definition as_f64 :: "json \<Rightarrow> f64 option" where
  "as_f64 v = (case v of JInt i \<Rightarrow> Some (f64_of_i64 i) | JFloat n \<Rightarrow> Some (word_of_nat n) | _ \<Rightarrow> None)"

text \<open>\<open>str::parse\<close> for \<open>i64\<close>.\<close>

definition parse_i64 :: "string \<Rightarrow> int option" where
  "parse_i64 s =
     (case s of
        [] \<Rightarrow> None
      | c # ds \<Rightarrow>
          if c = CHR ''-''
          then (if ds \<noteq> [] \<and> list_all is_digit ds \<and> nat_of_digits ds \<le> 2 ^ 63 then Some (- int (nat_of_digits ds)) else None)
          else map_option int (parse_unsigned (2 ^ 63) s))"

definition parse_timestamp :: "web_env \<Rightarrow> json \<Rightarrow> timestamp res" where
  "parse_timestamp env v =
     (case as_str v of
        Some s \<Rightarrow> of_option (invalid_argument ''invalid timestamp'') (we_time_parse env s)
      | None \<Rightarrow>
          let secs = jindex v ''seconds'';
              nanos = (case as_i64 (jindex v ''nanos'') of None \<Rightarrow> 0 | Some n \<Rightarrow> n) in
          rbind (of_option (invalid_argument ''invalid timestamp'')
                   (case as_i64 secs of Some n \<Rightarrow> Some n | None \<Rightarrow> Option.bind (as_str secs) parse_i64))
            (\<lambda>s. Inr (Timestamp s (sint (word_of_int nanos :: 32 word)))))"

definition double_text :: "string \<Rightarrow> f64 option" where
  "double_text s =
     (if s = ''NaN'' then Some f64_nan
      else if s = ''Infinity'' then Some 0x7FF0000000000000
      else if s = ''-Infinity'' then Some 0xFFF0000000000000
      else None)"

lemma size_jget: "jget k v = Some x \<Longrightarrow> size x < size v"
proof -
  assume "jget k v = Some x"
  then obtain m where v: "v = JObject m" "(k, x) \<in> set m"
    by (auto simp: jget_def split: json.splits dest: sm_get_in)
  have "size x < size_list (size_prod (\<lambda>_. 0) size) m" using v(2) by (induction m) auto
  then show ?thesis using v(1) by simp
qed

lemma size_jindex: "jindex v k \<noteq> JNull \<Longrightarrow> size (jindex v k) < size v"
  by (auto simp: jindex_def split: option.splits dest: size_jget)

lemma size_json_array: "x \<in> set (json_array v k) \<Longrightarrow> size x < size v"
proof -
  assume x: "x \<in> set (json_array v k)"
  then obtain xs where xs: "jindex v k = JArray xs" "x \<in> set xs"
    by (auto simp: json_array_def as_array_def split: json.splits option.splits)
  have "size x < Suc (size_list size xs)" using xs(2) by (induction xs) auto
  then show ?thesis using size_jindex[of v k] xs(1) by simp
qed

lemma size_json_entries: "(k, x) \<in> set (json_entries v) \<Longrightarrow> size x < size v"
proof -
  assume x: "(k, x) \<in> set (json_entries v)"
  then obtain m where m: "v = JObject m" "(k, x) \<in> set m"
    by (auto simp: json_entries_def as_object_def split: json.splits)
  have "size x < size_list (size_prod (\<lambda>_. 0) size) m" using m(2) by (induction m) auto
  then show ?thesis using m(1) by simp
qed

lemma size_jindex_entries: "(k, x) \<in> set (json_entries (jindex v f)) \<Longrightarrow> size x < size v"
  using size_json_entries[of k x "jindex v f"] size_jindex[of v f]
  by (cases "jindex v f = JNull") (auto simp: json_entries_def as_object_def)

lemma size_array: "jget k v = Some a \<Longrightarrow> x \<in> set (json_array a f) \<Longrightarrow> size x < size v"
  using size_jget[of k v a] size_json_array[of x a f] by linarith

lemma size_entries: "jget k v = Some m \<Longrightarrow> e \<in> set (json_entries (jindex m f)) \<Longrightarrow> size (snd e) < size v"
  using size_jget[of k v m] size_jindex_entries[of "fst e" "snd e" m f] by simp

subsection \<open>Values\<close>

text \<open>The value of a scalar, tried in the order of the code; \<open>None\<close> when none of the keys is there.\<close>

definition scalar_proto :: "web_env \<Rightarrow> json \<Rightarrow> fvalue res option" where
  "scalar_proto env v =
     (if jget ''nullValue'' v \<noteq> None then Some (Inr (NullValue 0))
      else case as_bool (jindex v ''booleanValue'') of Some b \<Rightarrow> Some (Inr (BooleanValue b)) | None \<Rightarrow>
      (case jget ''integerValue'' v of
         Some i \<Rightarrow> Some (rbind (of_option (invalid_argument ''invalid integer'')
           (case as_i64 i of Some n \<Rightarrow> Some n | None \<Rightarrow> Option.bind (as_str i) parse_i64))
           (\<lambda>n. Inr (IntegerValue (i64_of n)))) | None \<Rightarrow>
      (case jget ''doubleValue'' v of
         Some d \<Rightarrow> Some (rbind (of_option (invalid_argument ''invalid double'')
           (case as_f64 d of Some x \<Rightarrow> Some x | None \<Rightarrow> Option.bind (as_str d) double_text))
           (\<lambda>x. Inr (DoubleValue x))) | None \<Rightarrow>
      (case jget ''timestampValue'' v of
         Some t \<Rightarrow> Some (rbind (parse_timestamp env t) (\<lambda>x. Inr (TimestampValue x))) | None \<Rightarrow>
      (case as_str (jindex v ''stringValue'') of Some s \<Rightarrow> Some (Inr (StringValue s)) | None \<Rightarrow>
      (case as_str (jindex v ''referenceValue'') of Some s \<Rightarrow> Some (Inr (ReferenceValue s)) | None \<Rightarrow>
      (case as_str (jindex v ''bytesValue'') of
         Some s \<Rightarrow> Some (rbind (of_option (invalid_argument ''invalid base64'') (we_decode env s)) (\<lambda>b. Inr (BytesValue b)))
       | None \<Rightarrow>
      (case jget ''geoPointValue'' v of
         Some g \<Rightarrow> let coord = (\<lambda>k. case as_f64 (jindex g k) of None \<Rightarrow> f64_zero | Some x \<Rightarrow> x)
                   in Some (Inr (GeoPointValue (coord ''latitude'') (coord ''longitude'')))
       | None \<Rightarrow> None))))))))"

function value_proto :: "web_env \<Rightarrow> json \<Rightarrow> fvalue res" where
  "value_proto env v =
     (case scalar_proto env v of
        Some r \<Rightarrow> r
      | None \<Rightarrow>
        (case jget ''arrayValue'' v of
           Some a \<Rightarrow> rbind (rcollect (value_proto env) (json_array a ''values'')) (\<lambda>vs. Inr (ArrayValue vs))
         | None \<Rightarrow>
        (case jget ''mapValue'' v of
           Some m \<Rightarrow> rbind (rcollect (\<lambda>e. rbind (value_proto env (snd e)) (\<lambda>x. Inr (fst e, x)))
                            (json_entries (jindex m ''fields'')))
                      (\<lambda>kvs. Inr (MapValue (sm_of_list kvs)))
         | None \<Rightarrow> Inl (invalid_argument ''unknown Firestore value''))))"
  by pat_completeness auto
termination
  by (relation "measure (\<lambda>(env, v). size v)") (auto intro: size_array size_entries)

declare value_proto.simps [simp del]

definition fields_proto :: "web_env \<Rightarrow> json \<Rightarrow> fields res" where
  "fields_proto env v =
     rbind (rcollect (\<lambda>e. rbind (value_proto env (snd e)) (\<lambda>x. Inr (fst e, x))) (json_entries v))
       (\<lambda>kvs. Inr (sm_of_list kvs))"

definition json_f64 :: "f64 \<Rightarrow> json" where
  "json_f64 d = (if is_nan d \<or> is_infinite d then JNull else JFloat (unat d))"

definition time_json :: "web_env \<Rightarrow> timestamp option \<Rightarrow> json" where
  "time_json env t = (case t of None \<Rightarrow> JNull | Some x \<Rightarrow> JString (we_time_text env x))"

fun value_json :: "web_env \<Rightarrow> fvalue \<Rightarrow> json" where
  "value_json env NoValue = jobject [(''nullValue'', JNull)]"
| "value_json env (NullValue _) = jobject [(''nullValue'', JNull)]"
| "value_json env (BooleanValue b) = jobject [(''booleanValue'', JBool b)]"
| "value_json env (IntegerValue i) = jobject [(''integerValue'', JString (show_int (sint i)))]"
| "value_json env (DoubleValue d) = jobject [(''doubleValue'',
     if is_nan d then JString ''NaN''
     else if is_infinite d then JString (if f64_negative d then ''-Infinity'' else ''Infinity'')
     else json_f64 d)]"
| "value_json env (TimestampValue t) = jobject [(''timestampValue'', time_json env (Some t))]"
| "value_json env (StringValue s) = jobject [(''stringValue'', JString s)]"
| "value_json env (ReferenceValue s) = jobject [(''referenceValue'', JString s)]"
| "value_json env (BytesValue b) = jobject [(''bytesValue'', JString (we_encode env b))]"
| "value_json env (GeoPointValue lat lng) = jobject [(''geoPointValue'',
     jobject [(''latitude'', json_f64 lat), (''longitude'', json_f64 lng)])]"
| "value_json env (ArrayValue vs) = jobject [(''arrayValue'',
     jobject [(''values'', JArray (map (value_json env) vs))])]"
| "value_json env (MapValue m) = jobject [(''mapValue'',
     jobject [(''fields'', JObject (map (\<lambda>(k, v). (k, value_json env v)) m))])]"

subsection \<open>Documents and writes\<close>

definition document_proto :: "web_env \<Rightarrow> json \<Rightarrow> document res" where
  "document_proto env v =
     rbind (fields_proto env (jindex v ''fields'')) (\<lambda>fs.
       Inr \<lparr>doc_name = json_string v ''name'', doc_fields = fs, create_time = None, update_time = None\<rparr>)"

definition document_json :: "web_env \<Rightarrow> document \<Rightarrow> json" where
  "document_json env d = jobject
     [(''name'', JString (doc_name d)), (''fields'', JObject (map (\<lambda>(k, v). (k, value_json env v)) (doc_fields d))),
      (''createTime'', time_json env (create_time d)), (''updateTime'', time_json env (update_time d))]"

definition values_proto :: "web_env \<Rightarrow> json \<Rightarrow> fvalue list res" where
  "values_proto env v = rcollect (value_proto env) (json_array v ''values'')"

definition transform_proto :: "web_env \<Rightarrow> json \<Rightarrow> field_transform res" where
  "transform_proto env v =
     rbind (if jget ''setToServerValue'' v \<noteq> None then Inr (SetToServerValue 1)
       else case jget ''increment'' v of Some x \<Rightarrow> rbind (value_proto env x) (\<lambda>y. Inr (Increment y)) | None \<Rightarrow>
       (case jget ''maximum'' v of Some x \<Rightarrow> rbind (value_proto env x) (\<lambda>y. Inr (Maximum y)) | None \<Rightarrow>
       (case jget ''minimum'' v of Some x \<Rightarrow> rbind (value_proto env x) (\<lambda>y. Inr (Minimum y)) | None \<Rightarrow>
       (case jget ''appendMissingElements'' v of Some x \<Rightarrow> rbind (values_proto env x) (\<lambda>ys. Inr (AppendMissingElements ys)) | None \<Rightarrow>
       (case jget ''removeAllFromArray'' v of Some x \<Rightarrow> rbind (values_proto env x) (\<lambda>ys. Inr (RemoveAllFromArray ys)) | None \<Rightarrow>
        Inl (invalid_argument ''unknown transform''))))))
     (\<lambda>t. Inr \<lparr>ft_path = json_string v ''fieldPath'', ft_type = Some t\<rparr>)"

definition precondition_proto :: "web_env \<Rightarrow> json \<Rightarrow> condition_type option res" where
  "precondition_proto env c =
     (case as_bool (jindex c ''exists'') of
        Some b \<Rightarrow> Inr (Some (Exists b))
      | None \<Rightarrow> rbind (parse_timestamp env (jindex c ''updateTime'')) (\<lambda>t. Inr (Some (UpdateTime t))))"

definition operation_proto :: "web_env \<Rightarrow> json \<Rightarrow> operation res" where
  "operation_proto env v =
     (case jget ''update'' v of
        Some d \<Rightarrow> rbind (document_proto env d) (\<lambda>x. Inr (Update x))
      | None \<Rightarrow>
     (case as_str (jindex v ''delete'') of
        Some name \<Rightarrow> Inr (Delete name)
      | None \<Rightarrow>
     (case jget ''transform'' v of
        Some t \<Rightarrow> rbind (rcollect (transform_proto env) (json_array t ''fieldTransforms''))
                   (\<lambda>_. Inr (Transform (json_string t ''document'')))
      | None \<Rightarrow> Inl (invalid_argument ''write operation required''))))"

definition json_strings :: "json list \<Rightarrow> string list" where
  "json_strings vs = List.map_filter as_str vs"

definition write_proto :: "web_env \<Rightarrow> json \<Rightarrow> fwrite res" where
  "write_proto env v =
     rbind (operation_proto env v) (\<lambda>op1.
     rbind (case jget ''currentDocument'' v of None \<Rightarrow> Inr None
            | Some c \<Rightarrow> rbind (precondition_proto env c) (\<lambda>x. Inr (Some x))) (\<lambda>cond.
     rbind (rcollect (transform_proto env) (json_array v ''updateTransforms'')) (\<lambda>ts.
       Inr \<lparr>operation = Some op1,
            write_mask = map_option (\<lambda>m. json_strings (json_array m ''fieldPaths'')) (jget ''updateMask'' v),
            update_transforms = ts, current_document = cond\<rparr>)))"

subsection \<open>Queries\<close>

text \<open>\<open>from_str_name\<close> on the enumerations of \<open>src/proto/google/firestore/v1/query.proto\<close>.\<close>

definition field_operator :: "string \<Rightarrow> int option" where
  "field_operator s = map_of
     [(''OPERATOR_UNSPECIFIED'', 0), (''LESS_THAN'', 1), (''LESS_THAN_OR_EQUAL'', 2), (''GREATER_THAN'', 3),
      (''GREATER_THAN_OR_EQUAL'', 4), (''EQUAL'', 5), (''NOT_EQUAL'', 6), (''ARRAY_CONTAINS'', 7), (''IN'', 8),
      (''ARRAY_CONTAINS_ANY'', 9), (''NOT_IN'', 10)] s"

definition composite_operator :: "string \<Rightarrow> int option" where
  "composite_operator s = map_of [(''OPERATOR_UNSPECIFIED'', 0), (''AND'', 1), (''OR'', 2)] s"

definition unary_operator :: "string \<Rightarrow> int option" where
  "unary_operator s = map_of
     [(''OPERATOR_UNSPECIFIED'', 0), (''IS_NAN'', 2), (''IS_NULL'', 3), (''IS_NOT_NAN'', 4), (''IS_NOT_NULL'', 5)] s"

definition direction_number :: "string \<Rightarrow> int option" where
  "direction_number s = map_of [(''DIRECTION_UNSPECIFIED'', 0), (''ASCENDING'', 1), (''DESCENDING'', 2)] s"

definition field_reference :: "json \<Rightarrow> string option" where
  "field_reference v = Some (json_string v ''fieldPath'')"

function filter_proto :: "web_env \<Rightarrow> json \<Rightarrow> qfilter res" where
  "filter_proto env v =
     (case jget ''fieldFilter'' v of
        Some f \<Rightarrow> rbind (of_option (invalid_argument ''invalid field operator'') (field_operator (json_string f ''op''))) (\<lambda>n.
                  rbind (value_proto env (jindex f ''value'')) (\<lambda>x.
                    Inr (FieldFilter n (field_reference (jindex f ''field'')) (Some x))))
      | None \<Rightarrow>
     (case jget ''compositeFilter'' v of
        Some f \<Rightarrow> rbind (of_option (invalid_argument ''invalid composite operator'') (composite_operator (json_string f ''op''))) (\<lambda>n.
                  rbind (rcollect (filter_proto env) (json_array f ''filters'')) (\<lambda>fs. Inr (CompositeFilter n fs)))
      | None \<Rightarrow>
     (case jget ''unaryFilter'' v of
        Some f \<Rightarrow> rbind (of_option (invalid_argument ''invalid unary operator'') (unary_operator (json_string f ''op'')))
                   (\<lambda>n. Inr (UnaryFilter n (field_reference (jindex f ''field''))))
      | None \<Rightarrow> Inl (invalid_argument ''unknown filter''))))"
  by pat_completeness auto
termination
  by (relation "measure (\<lambda>(env, v). size v)") (auto intro: size_array)

declare filter_proto.simps [simp del]

definition cursor_proto :: "web_env \<Rightarrow> json \<Rightarrow> cursor res" where
  "cursor_proto env c =
     rbind (values_proto env c) (\<lambda>vs.
       Inr \<lparr>cursor_values = vs, before = (case as_bool (jindex c ''before'') of None \<Rightarrow> False | Some b \<Rightarrow> b)\<rparr>)"

definition order_proto :: "json \<Rightarrow> order res" where
  "order_proto v =
     rbind (of_option (invalid_argument ''invalid order direction'') (direction_number (json_string v ''direction'')))
       (\<lambda>d. Inr \<lparr>order_field = field_reference (jindex v ''field''), direction = d\<rparr>)"

definition selector_proto :: "json \<Rightarrow> selector" where
  "selector_proto v = \<lparr>collection_id = json_string v ''collectionId'',
     all_descendants = (case as_bool (jindex v ''allDescendants'') of None \<Rightarrow> False | Some b \<Rightarrow> b)\<rparr>"

text \<open>\<open>as i32\<close>.\<close>

definition as_i32 :: "int \<Rightarrow> int" where
  "as_i32 n = sint (word_of_int n :: 32 word)"

definition transpose_map :: "('a \<Rightarrow> 'b res) \<Rightarrow> 'a option \<Rightarrow> 'b option res" where
  "transpose_map f x = (case x of None \<Rightarrow> Inr None | Some y \<Rightarrow> rbind (f y) (\<lambda>z. Inr (Some z)))"

definition query_proto :: "web_env \<Rightarrow> json \<Rightarrow> squery res" where
  "query_proto env v =
     rbind (transpose_map (filter_proto env) (jget ''where'' v)) (\<lambda>w.
     rbind (rcollect order_proto (json_array v ''orderBy'')) (\<lambda>os.
     rbind (transpose_map (cursor_proto env) (jget ''startAt'' v)) (\<lambda>start.
     rbind (transpose_map (cursor_proto env) (jget ''endAt'' v)) (\<lambda>stop.
       Inr \<lparr>from_selectors = map selector_proto (json_array v ''from''), where_filter = w, order_by = os,
            start_at = start, end_at = stop,
            offset = as_i32 (case as_i64 (jindex v ''offset'') of None \<Rightarrow> 0 | Some n \<Rightarrow> n),
            limit = map_option as_i32 (Option.bind (jget ''limit'' v)
              (\<lambda>n. case as_i64 n of Some i \<Rightarrow> Some i | None \<Rightarrow> as_i64 (jindex n ''value''))),
            select = map_option (\<lambda>s. map (\<lambda>f. json_string f ''fieldPath'') (json_array s ''fields'')) (jget ''select'' v)\<rparr>))))"

end
