(* ===== verification/Web_Roundtrip.thy ===== *)
theory Web_Roundtrip
  imports Web_Json
begin

text \<open>
  What the JSON form of \<open>Web_Json\<close> keeps: every value read from JSON is well formed, and a value
  written to JSON is read back, up to the payload of a NaN and the tag of a null.
\<close>

subsection \<open>Well-formed messages\<close>

lemma value_wf_array: "value_wf (ArrayValue vs) \<longleftrightarrow> (\<forall>v \<in> set vs. value_wf v)"
  by (simp add: list_all_iff)

lemma fields_wf_of_list: "(\<And>k v. (k, v) \<in> set kvs \<Longrightarrow> value_wf v) \<Longrightarrow> fields_wf (sm_of_list kvs)"
proof -
  assume v: "\<And>k v. (k, v) \<in> set kvs \<Longrightarrow> value_wf v"
  have "set (sm_of_list kvs) \<subseteq> set kvs"
    using sm_get_of_list[of kvs] sm_wf_of_list[of kvs]
    by (auto simp: in_sm_iff sm_get_of_list dest!: map_of_SomeD)
  then show ?thesis using v sm_wf_of_list[of kvs] by (auto simp: fields_wf_def list_all_iff)
qed

lemma scalar_proto_wf: "scalar_proto env v = Some (Inr x) \<Longrightarrow> value_wf x"
  by (auto simp: scalar_proto_def rbind_Inr_iff Let_def split: if_splits option.splits)

lemma rcollect_set: "rcollect f xs = Inr ys \<Longrightarrow> y \<in> set ys \<Longrightarrow> \<exists>x \<in> set xs. f x = Inr y"
  by (auto simp: rcollect_Inr_iff list_all2_conv_all_nth in_set_conv_nth) (metis nth_mem)

lemma value_proto_wf: "value_proto env v = Inr x \<Longrightarrow> value_wf x"
proof (induction env v arbitrary: x rule: value_proto.induct)
  case (1 env v)
  show ?case
  proof (cases "scalar_proto env v")
    case (Some r)
    then show ?thesis using 1(3) scalar_proto_wf[of env v x] by (simp add: value_proto.simps)
  next
    case s: None
    show ?thesis
    proof (cases "jget ''arrayValue'' v")
      case a: (Some a)
      then obtain vs where vs: "rcollect (value_proto env) (json_array a ''values'') = Inr vs" "x = ArrayValue vs"
        using 1(3) s by (auto simp: value_proto.simps[of env v] rbind_Inr_iff)
      have "value_wf y" if "y \<in> set vs" for y
        using rcollect_set[OF vs(1) that] 1(2)[OF s a] by blast
      then show ?thesis using vs(2) by (simp add: list_all_iff)
    next
      case a: None
      then obtain m kvs where m: "jget ''mapValue'' v = Some m"
          "rcollect (\<lambda>e. rbind (value_proto env (snd e)) (\<lambda>x. Inr (fst e, x))) (json_entries (jindex m ''fields'')) = Inr kvs"
          "x = MapValue (sm_of_list kvs)"
        using 1(3) s by (auto simp: value_proto.simps[of env v] rbind_Inr_iff split: option.splits)
      have "value_wf y" if "(k, y) \<in> set kvs" for k y
        using rcollect_set[OF m(2) that] 1(1)[OF s a m(1)] by (auto simp: rbind_Inr_iff)
      then show ?thesis using m(3) fields_wf_of_list[of kvs] by simp
    qed
  qed
qed

lemma fields_proto_wf: "fields_proto env v = Inr fs \<Longrightarrow> fields_wf fs"
proof -
  assume "fields_proto env v = Inr fs"
  then obtain kvs where k: "rcollect (\<lambda>e. rbind (value_proto env (snd e)) (\<lambda>x. Inr (fst e, x))) (json_entries v) = Inr kvs"
      "fs = sm_of_list kvs" by (auto simp: fields_proto_def rbind_Inr_iff)
  have "value_wf y" if "(j, y) \<in> set kvs" for j y
    using rcollect_set[OF k(1) that] value_proto_wf by (auto simp: rbind_Inr_iff)
  then show ?thesis using k(2) fields_wf_of_list by blast
qed

lemma values_proto_wf: "values_proto env v = Inr vs \<Longrightarrow> y \<in> set vs \<Longrightarrow> value_wf y"
  unfolding values_proto_def using rcollect_set value_proto_wf by metis

subsection \<open>Numbers\<close>

lemma parse_i64_show: "i64_min \<le> i \<Longrightarrow> i \<le> i64_max \<Longrightarrow> parse_i64 (show_int i) = Some i"
proof (cases "i < 0")
  case True
  assume "i64_min \<le> i"
  then have "nat (- i) \<le> 2 ^ 63" by (simp add: i64_min_def)
  then show ?thesis using True by (simp add: parse_i64_def show_int_def)
next
  case False
  assume "i \<le> i64_max"
  then have "nat i < 2 ^ 63" using False by (simp add: i64_max_def)
  moreover obtain c cs where s: "show_nat (nat i) = c # cs" using show_nat_not_Nil by (metis list.exhaust)
  moreover have "c \<noteq> CHR ''-''" using show_nat_digits[of "nat i"] s digit_not_sign(2)[of c] by auto
  moreover have "parse_unsigned (2 ^ 63) (show_nat (nat i)) = Some (nat i)"
    by (rule parse_show_nat) (use \<open>nat i < 2 ^ 63\<close> in simp)
  ultimately show ?thesis using False
    by (simp add: parse_i64_def show_int_def)
qed

lemma infinite_quotient: "0 \<le> (q::int) \<Longrightarrow> q < 4096 \<Longrightarrow> q mod 2048 = 2047 \<Longrightarrow> q = 2047 \<or> q = 4095"
proof -
  assume q: "0 \<le> q" "q < 4096" "q mod 2048 = 2047"
  have "q = q div 2048 * 2048 + 2047" using q(3) div_mult_mod_eq[of q 2048] by simp
  then show ?thesis using q(1,2) by (cases "q div 2048 < 1") simp_all
qed

lemma infinite_parts:
  fixes u k m :: int
  assumes "0 \<le> u" "0 < k" "u < 4096 * k" "u div k mod 2048 = 2047" "u mod k = 0"
  shows "u = 2047 * k \<or> u = 4095 * k"
proof -
  define q where "q = u div k"
  have "u = q * k" using assms(5) div_mult_mod_eq[of u k] by (simp add: q_def)
  moreover have "q < 4096" using assms(2,3) calculation by simp
  moreover have "0 \<le> q" using assms by (simp add: q_def pos_imp_zdiv_nonneg_iff)
  moreover have "q mod 2048 = 2047" using assms(4) by (simp add: q_def)
  ultimately show ?thesis by (metis (no_types, opaque_lifting) infinite_quotient)
qed

lemma infinite_bits:
  assumes "is_infinite d"
  shows "d = (if f64_negative d then 0xFFF0000000000000 else 0x7FF0000000000000)"
proof -
  have e: "nat (uint d div 2 ^ 52 mod 2 ^ 11) = 2047" and m: "nat (uint d mod 2 ^ 52) = 0"
    using assms by (simp_all add: is_infinite_def f64_exponent_def f64_mantissa_def)
  have "uint d div 4503599627370496 mod 2048 = 2047" "uint d mod 4503599627370496 = 0"
    using e m by (simp_all add: nat_eq_iff)
  moreover have "uint d < 4096 * 4503599627370496" using uint_bounded[of d] by simp
  ultimately have "uint d = 2047 * 4503599627370496 \<or> uint d = 4095 * 4503599627370496"
    by (intro infinite_parts) simp_all
  then have "uint d = uint (if f64_negative d then 0xFFF0000000000000 else 0x7FF0000000000000 :: f64)"
    unfolding f64_negative_def by auto
  then show ?thesis by (simp only: word_uint_eq_iff)
qed

subsection \<open>Round trip\<close>

fun normal_value :: "fvalue \<Rightarrow> fvalue" where
  "normal_value NoValue = NullValue 0"
| "normal_value (NullValue _) = NullValue 0"
| "normal_value (DoubleValue d) = DoubleValue (if is_nan d then f64_nan else d)"
| "normal_value (ArrayValue vs) = ArrayValue (map normal_value vs)"
| "normal_value (MapValue m) = MapValue (map (\<lambda>(k, v). (k, normal_value v)) m)"
| "normal_value v = v"

text \<open>The coordinates are finite and the timestamps are ones whose text is read back.\<close>

fun plain_value :: "web_env \<Rightarrow> fvalue \<Rightarrow> bool" where
  "plain_value env (TimestampValue t) = (we_time_parse env (we_time_text env t) = Some t)"
| "plain_value env (GeoPointValue a b) = (\<not> is_nan a \<and> \<not> is_infinite a \<and> \<not> is_nan b \<and> \<not> is_infinite b)"
| "plain_value env (ArrayValue vs) = list_all (plain_value env) vs"
| "plain_value env (MapValue m) = list_all (\<lambda>(k, v). plain_value env v) m"
| "plain_value env v = True"

lemma jget_single [simp]: "jget k (jobject [(k', x)]) = (if k = k' then Some x else None)"
  by (simp add: jget_jobject)

lemma jindex_single [simp]: "jindex (jobject [(k', x)]) k = (if k = k' then x else JNull)"
  by (simp add: jindex_def)

lemma as_simps [simp]:
  "as_bool JNull = None" "as_str JNull = None" "as_str (JString s) = Some s" "as_bool (JBool b) = Some b"
  "as_i64 (JString s) = None" "as_f64 (JString s) = None" "as_f64 (JFloat n) = Some (word_of_nat n)"
  "json_array (jobject [(k, JArray vs)]) k = vs" "json_entries (JObject m) = m"
  by (simp_all add: as_bool_def as_str_def as_i64_def as_f64_def json_array_def as_array_def json_entries_def as_object_def)

lemma sm_of_list_id: "sm_wf m \<Longrightarrow> sm_of_list m = m"
proof (rule sm_ext)
  assume wf: "sm_wf m"
  show "sm_wf (sm_of_list m)" "sm_wf m" using wf by simp_all
  have "distinct (map fst m)" using wf by (rule sm_wf_distinct)
  then show "sm_get (sm_of_list m) k = sm_get m k" for k
    using map_of_inject_set[of "rev m" m] by (simp add: sm_get_of_list) (simp add: sm_get_def rev_map[symmetric])
qed

lemma rcollect_map_Inr: "(\<And>x. x \<in> set xs \<Longrightarrow> f (g x) = Inr (h x)) \<Longrightarrow> rcollect f (map g xs) = Inr (map h xs)"
  by (induction xs) auto

lemma sm_wf_map_values: "sm_wf m \<Longrightarrow> sm_wf (map (\<lambda>(k, v). (k, f v)) m)"
  by (simp add: sm_wf_def comp_def case_prod_unfold)

lemma double_round_trip:
  "value_proto env (value_json env (DoubleValue d)) = Inr (DoubleValue (if is_nan d then f64_nan else d))"
proof -
  have "d = (if f64_negative d then 0xFFF0000000000000 else 0x7FF0000000000000)" if "is_infinite d"
    using that by (rule infinite_bits)
  then show ?thesis
    by (auto simp: value_proto.simps scalar_proto_def double_text_def json_f64_def of_option_def split: if_splits)
qed

lemma scalar_round_trip:
  assumes "\<And>b. we_decode env (we_encode env b) = Some b" and "plain_value env v"
    and "case v of ArrayValue _ \<Rightarrow> False | MapValue _ \<Rightarrow> False | _ \<Rightarrow> True"
  shows "value_proto env (value_json env v) = Inr (normal_value v)"
proof (cases v)
  case (IntegerValue i)
  have "parse_i64 (show_int (sint i)) = Some (sint i)"
    using sint_ge[of i] sint_lt[of i] by (intro parse_i64_show) (simp_all add: i64_min_def i64_max_def)
  then show ?thesis using IntegerValue
    by (simp add: value_proto.simps scalar_proto_def of_option_def i64_of_def)
next
  case (DoubleValue d)
  then show ?thesis using double_round_trip by simp
qed (use assms in \<open>auto simp: value_proto.simps scalar_proto_def of_option_def time_json_def parse_timestamp_def json_f64_def
    jindex_def jget_jobject\<close>)

lemma rbind_assoc: "rbind (rbind x f) g = rbind x (\<lambda>y. rbind (f y) g)"
  by (cases x) simp_all

lemma array_proto:
  "value_proto env (jobject [(''arrayValue'', jobject [(''values'', JArray js)])]) =
     rbind (rcollect (value_proto env) js) (\<lambda>vs. Inr (ArrayValue vs))"
  by (simp add: value_proto.simps[of env "jobject [(''arrayValue'', _)]"] scalar_proto_def)

lemma map_proto:
  "value_proto env (jobject [(''mapValue'', jobject [(''fields'', JObject m)])]) =
     rbind (fields_proto env (JObject m)) (\<lambda>fs. Inr (MapValue fs))"
  by (simp add: value_proto.simps[of env "jobject [(''mapValue'', _)]"] scalar_proto_def fields_proto_def
      rbind_assoc)

lemma fields_round_trip:
  assumes "sm_wf m" and "\<And>k v. (k, v) \<in> set m \<Longrightarrow> value_proto env (value_json env v) = Inr (normal_value v)"
  shows "fields_proto env (JObject (map (\<lambda>(k, v). (k, value_json env v)) m)) =
    Inr (map (\<lambda>(k, v). (k, normal_value v)) m)"
proof -
  have "rcollect (\<lambda>e. rbind (value_proto env (snd e)) (\<lambda>x. Inr (fst e, x))) (map (\<lambda>(k, v). (k, value_json env v)) m) =
      Inr (map (\<lambda>(k, v). (k, normal_value v)) m)"
    by (rule rcollect_map_Inr) (use assms(2) in auto)
  then show ?thesis using assms(1) by (simp add: fields_proto_def sm_of_list_id sm_wf_map_values)
qed

text \<open>
  Property C35.  A value written for the web channel and read back is the same value, for
  every well-formed value, nested arrays and maps included: integers survive at 64 bits although JSON
  carries them as text, the infinities and not-a-number survive as names, and a value without a kind
  is read as null.  The exceptions are a not-a-number with a payload, which becomes the canonical one,
  and geo points with a coordinate that JSON cannot write.
\<close>

theorem value_json_round_trip:
  assumes codec: "\<And>b. we_decode env (we_encode env b) = Some b"
    and "value_wf v" and "plain_value env v"
  shows "value_proto env (value_json env v) = Inr (normal_value v)"
  using assms(2,3)
proof (induction v)
  case (ArrayValue vs)
  have "rcollect (value_proto env) (map (value_json env) vs) = Inr (map normal_value vs)"
    by (rule rcollect_map_Inr) (use ArrayValue in \<open>auto simp: list_all_iff\<close>)
  then show ?case by (simp add: array_proto)
next
  case (MapValue m)
  have "fields_proto env (JObject (map (\<lambda>(k, v). (k, value_json env v)) m)) = Inr (map (\<lambda>(k, v). (k, normal_value v)) m)"
  proof (rule fields_round_trip)
    show "sm_wf m" using MapValue.prems(1) by (auto simp: fields_wf_def)
    show "value_proto env (value_json env v) = Inr (normal_value v)" if "(k, v) \<in> set m" for k v
      using MapValue.IH[OF that, of v] MapValue.prems that by (auto simp: list_all_iff fields_wf_def)
  qed
  then show ?case by (simp add: map_proto)
qed (rule scalar_round_trip[OF codec]; simp)+

lemma value_json_round_trip_witness:
  "value_proto \<lparr>we_encode = id, we_decode = Some, we_time_text = (\<lambda>_. []), we_time_parse = (\<lambda>_. None)\<rparr>
     (value_json \<lparr>we_encode = id, we_decode = Some, we_time_text = (\<lambda>_. []), we_time_parse = (\<lambda>_. None)\<rparr>
       (MapValue [(''a'', ArrayValue [IntegerValue (-1), NoValue]), (''b'', BytesValue ''x'')])) =
   Inr (MapValue [(''a'', ArrayValue [IntegerValue (-1), NullValue 0]), (''b'', BytesValue ''x'')])"
  by (subst value_json_round_trip) (simp_all add: fields_wf_def)

subsection \<open>Everything decoded is well formed\<close>

lemma document_proto_wf: "document_proto env v = Inr d \<Longrightarrow> fields_wf (doc_fields d)"
  by (auto simp: document_proto_def rbind_Inr_iff dest: fields_proto_wf)

definition transform_type_wf :: "transform_type \<Rightarrow> bool" where
  "transform_type_wf t =
     (case t of SetToServerValue n \<Rightarrow> n = 1 | Increment x \<Rightarrow> value_wf x | Maximum x \<Rightarrow> value_wf x | Minimum x \<Rightarrow> value_wf x
      | AppendMissingElements xs \<Rightarrow> list_all value_wf xs | RemoveAllFromArray xs \<Rightarrow> list_all value_wf xs)"

definition transform_wf :: "field_transform \<Rightarrow> bool" where
  "transform_wf t = (case ft_type t of None \<Rightarrow> False | Some k \<Rightarrow> transform_type_wf k)"

definition fwrite_wf :: "fwrite \<Rightarrow> bool" where
  "fwrite_wf w =
     (list_all transform_wf (update_transforms w) \<and>
      (case operation w of None \<Rightarrow> False | Some (Update d) \<Rightarrow> fields_wf (doc_fields d) | Some _ \<Rightarrow> True))"

fun filter_wf :: "qfilter \<Rightarrow> bool" where
  "filter_wf (FieldFilter n f x) = (n \<in> {0..10} \<and> f \<noteq> None \<and> (case x of None \<Rightarrow> False | Some y \<Rightarrow> value_wf y))"
| "filter_wf (CompositeFilter n fs) = (n \<in> {0..2} \<and> list_all filter_wf fs)"
| "filter_wf (UnaryFilter n f) = (n \<in> {0, 2, 3, 4, 5} \<and> f \<noteq> None)"
| "filter_wf _ = False"

lemma transform_proto_wf: "transform_proto env v = Inr t \<Longrightarrow> transform_wf t"
  by (auto simp: transform_proto_def rbind_Inr_iff transform_wf_def transform_type_wf_def list_all_iff
      split: if_splits option.splits)
     (use value_proto_wf values_proto_wf in blast)+

lemma write_proto_wf: "write_proto env v = Inr w \<Longrightarrow> fwrite_wf w"
  by (auto simp: write_proto_def operation_proto_def rbind_Inr_iff fwrite_wf_def list_all_iff
      dest: transform_proto_wf rcollect_set split: option.splits)
     (use document_proto_wf in blast)+

lemma field_operator_range: "field_operator s = Some n \<Longrightarrow> 0 \<le> n \<and> n \<le> 10"
  by (auto simp: field_operator_def split: if_splits)

lemma composite_operator_range: "composite_operator s = Some n \<Longrightarrow> 0 \<le> n \<and> n \<le> 2"
  by (auto simp: composite_operator_def split: if_splits)

lemma unary_operator_range: "unary_operator s = Some n \<Longrightarrow> n \<in> {0, 2, 3, 4, 5}"
  by (auto simp: unary_operator_def split: if_splits)

lemma filter_proto_wf: "filter_proto env v = Inr f \<Longrightarrow> filter_wf f"
proof (induction env v arbitrary: f rule: filter_proto.induct)
  case (1 env v)
  show ?case
  proof (cases "jget ''fieldFilter'' v")
    case (Some g)
    then show ?thesis using 1(2) by (auto simp: filter_proto.simps[of env v] rbind_Inr_iff field_reference_def of_option_Inr_iff
        dest!: field_operator_range value_proto_wf)
  next
    case n: None
    show ?thesis
    proof (cases "jget ''compositeFilter'' v")
      case c: (Some g)
      then obtain i fs where fs: "composite_operator (json_string g ''op'') = Some i"
          "rcollect (filter_proto env) (json_array g ''filters'') = Inr fs" "f = CompositeFilter i fs"
        using 1(2) n by (auto simp: filter_proto.simps[of env v] rbind_Inr_iff of_option_Inr_iff)
      have "filter_wf y" if "y \<in> set fs" for y
        using rcollect_set[OF fs(2) that] 1(1)[OF n c] fs(1) by (auto simp: of_option_Inr_iff)
      then show ?thesis using fs composite_operator_range by (auto simp: list_all_iff)
    next
      case None
      then show ?thesis using 1(2) n
        by (auto simp: filter_proto.simps[of env v] rbind_Inr_iff field_reference_def of_option_Inr_iff
            dest: unary_operator_range split: option.splits)
    qed
  qed
qed


end
