(* ===== verification/Json_Eq.thy ===== *)
theory Json_Eq
  imports Json Float64
begin

text \<open>The derived equality of JSON values: floating-point numbers are equal as numbers.\<close>

fun json_eq :: "json \<Rightarrow> json \<Rightarrow> bool" where
  "json_eq (JFloat a) w = (case w of JFloat b \<Rightarrow> f64_eq (word_of_nat a) (word_of_nat b) | _ \<Rightarrow> False)"
| "json_eq (JArray vs) w = (case w of JArray ws \<Rightarrow> list_all2 json_eq vs ws | _ \<Rightarrow> False)"
| "json_eq (JObject m) w = (case w of JObject n \<Rightarrow> list_all2 (\<lambda>(k, v) (k', v'). k = k' \<and> json_eq v v') m n | _ \<Rightarrow> False)"
| "json_eq v w = (v = w)"

lemma json_eq_simps:
  "json_eq (JFloat x) c \<longleftrightarrow> (\<exists>y. c = JFloat y \<and> f64_eq (word_of_nat x) (word_of_nat y))"
  "json_eq (JArray vs) c \<longleftrightarrow> (\<exists>ws. c = JArray ws \<and> list_all2 json_eq vs ws)"
  "json_eq (JObject m) c \<longleftrightarrow> (\<exists>n. c = JObject n \<and> list_all2 (\<lambda>(k, v) (k', v'). k = k' \<and> json_eq v v') m n)"
  by (cases c; simp)+

lemma json_eq_trans: "json_eq a b \<Longrightarrow> json_eq b c \<Longrightarrow> json_eq a c"
proof (induction a arbitrary: b c)
  case (JFloat x)
  then show ?case by (cases b; cases c) (auto simp: f64_eq_def)
next
  case (JArray vs)
  obtain ws where b: "b = JArray ws" "list_all2 json_eq vs ws" using JArray.prems(1) by (cases b) auto
  then obtain us where c: "c = JArray us" "list_all2 json_eq ws us" using JArray.prems(2) by (cases c) auto
  note w = b(1) c(1) b(2) c(2)
  have "json_eq (vs ! i) (us ! i)" if "i < length vs" for i
    using JArray.IH[OF nth_mem[OF that], of "ws ! i" "us ! i"] that w(3,4)
    by (auto simp: list_all2_conv_all_nth)
  then show ?case using w by (simp add: json_eq_simps list_all2_conv_all_nth)
next
  case (JObject m)
  obtain n where b: "b = JObject n" "list_all2 (\<lambda>(k, v) (k', v'). k = k' \<and> json_eq v v') m n"
    using JObject.prems(1) by (cases b) auto
  then obtain l where c: "c = JObject l" "list_all2 (\<lambda>(k, v) (k', v'). k = k' \<and> json_eq v v') n l"
    using JObject.prems(2) by (cases c) auto
  note w = b(1) c(1) b(2) c(2)
  have "(\<lambda>(k, v) (k', v'). k = k' \<and> json_eq v v') (m ! i) (l ! i)" if "i < length m" for i
  proof -
    have "i < length n" using that w(3) by (simp add: list_all2_lengthD)
    then have e: "fst (m ! i) = fst (n ! i)" "json_eq (snd (m ! i)) (snd (n ! i))"
        "fst (n ! i) = fst (l ! i)" "json_eq (snd (n ! i)) (snd (l ! i))"
      using list_all2_nthD[OF w(3) that] list_all2_nthD[OF w(4)] by (auto simp: case_prod_unfold)
    have "json_eq (snd (m ! i)) (snd (l ! i))"
      by (rule JObject.IH[OF nth_mem[OF that], of "snd (m ! i)"]) (use e in \<open>auto simp: snds.simps prod_eq_iff\<close>)
    then show ?thesis using e by (simp add: case_prod_unfold)
  qed
  then show ?case using w by (simp add: json_eq_simps list_all2_conv_all_nth)
qed auto

end
