(* ===== verification/Web_Channel.thy ===== *)
theory Web_Channel
  imports Web_Roundtrip Firestore_Service Storage_Text Json_Eq
begin

text \<open>
  The browser channel and the REST endpoints of \<open>src/src/firestore_web.rs\<close> over the in-memory store:
  numbered messages kept until they are acknowledged, the table of targets of a session and the
  changes sent for them, the form that carries a client's requests, and the handlers.  The text of
  JSON is library code; a channel's mutex makes every pass of a handler one step.
\<close>

subsection \<open>Framing and forms\<close>

record channel_env =
  ce_web :: web_env
  ce_text :: "json \<Rightarrow> string"
  ce_parse :: "string \<Rightarrow> json option"

text \<open>The number of UTF-16 units of UTF-8 text: none for a continuation byte, two for a four-byte character.\<close>

definition utf16_units :: "char \<Rightarrow> nat" where
  "utf16_units c = (let b = of_char c :: nat in if b < 0x80 then 1 else if b < 0xC0 then 0 else if b < 0xF0 then 1 else 2)"

definition utf16_count :: "string \<Rightarrow> nat" where
  "utf16_count s = sum_list (map utf16_units s)"

definition frame :: "channel_env \<Rightarrow> json \<Rightarrow> string" where
  "frame env v = (let body = ce_text env v in show_nat (utf16_count body) @ [CHR 0x0A] @ body)"

definition status_name :: "grpc_code \<Rightarrow> string" where
  "status_name c =
     (case c of NotFound \<Rightarrow> ''NOT_FOUND'' | AlreadyExists \<Rightarrow> ''ALREADY_EXISTS''
      | FailedPrecondition \<Rightarrow> ''FAILED_PRECONDITION'' | Unimplemented \<Rightarrow> ''UNIMPLEMENTED''
      | PermissionDenied \<Rightarrow> ''PERMISSION_DENIED'' | InvalidArgument \<Rightarrow> ''INVALID_ARGUMENT'' | _ \<Rightarrow> ''INTERNAL'')"

definition error_json :: "status \<Rightarrow> json" where
  "error_json e = jobject [(''error'', jobject
     [(''code'', JInt (code_number (code e))), (''status'', JString (status_name (code e))), (''message'', JString (message e))])]"

text \<open>\<open>u8::from_str_radix\<close> on the two characters after a percent sign; a leading sign is allowed.\<close>

definition hex_value :: "char \<Rightarrow> nat option" where
  "hex_value c =
     (let n = of_char c :: nat in
      if 48 \<le> n \<and> n \<le> 57 then Some (n - 48) else if 65 \<le> n \<and> n \<le> 70 then Some (n - 55)
      else if 97 \<le> n \<and> n \<le> 102 then Some (n - 87) else None)"

definition hex_byte :: "char \<Rightarrow> char \<Rightarrow> char option" where
  "hex_byte a b =
     (if a = CHR ''+'' then map_option char_of (hex_value b)
      else Option.bind (hex_value a) (\<lambda>x. map_option (\<lambda>y. char_of (16 * x + y)) (hex_value b)))"

fun decode_bytes :: "string \<Rightarrow> string res" where
  "decode_bytes [] = Inr []"
| "decode_bytes (c # s) =
     (if c = CHR ''+'' then rbind (decode_bytes s) (\<lambda>r. Inr (CHR '' '' # r))
      else if c = CHR ''%'' then
        (case s of
           a # b # s' \<Rightarrow> rbind (of_option (invalid_argument ''invalid form escape'') (hex_byte a b))
             (\<lambda>x. rbind (decode_bytes s') (\<lambda>r. Inr (x # r)))
         | _ \<Rightarrow> Inl (invalid_argument ''invalid form escape''))
      else rbind (decode_bytes s) (\<lambda>r. Inr (c # r)))"

definition decode_form_component :: "string \<Rightarrow> string res" where
  "decode_form_component s =
     rbind (decode_bytes s) (\<lambda>out. if utf8_ok out then Inr out else Inl (invalid_argument ''invalid UTF-8 form''))"

fun form_fields :: "string list \<Rightarrow> (string, string) smap \<Rightarrow> (string, string) smap res" where
  "form_fields [] m = Inr m"
| "form_fields (p # ps) m =
     (case split_once ''='' p of
        None \<Rightarrow> form_fields ps m
      | Some (k, v) \<Rightarrow>
          rbind (decode_form_component k) (\<lambda>k'. rbind (decode_form_component v) (\<lambda>v'. form_fields ps (sm_put k' v' m))))"

definition request_entry :: "channel_env \<Rightarrow> nat \<Rightarrow> string \<times> string \<Rightarrow> (nat \<times> json) list res" where
  "request_entry env ofs = (\<lambda>(key, value).
     case Option.bind (strip_prefix ''req'' key) (strip_suffix ''___data__'') of
       None \<Rightarrow> Inr []
     | Some i \<Rightarrow>
         rbind (of_option (invalid_argument ''invalid request index'') (parse_unsigned (2 ^ 64) i)) (\<lambda>index.
         rbind (of_option (invalid_argument ''invalid request JSON'') (ce_parse env value)) (\<lambda>v.
           Inr [((ofs + index) mod 2 ^ 64, v)])))"

definition form_messages :: "channel_env \<Rightarrow> string \<Rightarrow> (nat \<times> json) list res" where
  "form_messages env body =
     rbind (guard (utf8_ok body) (invalid_argument ''invalid form'')) (\<lambda>_.
     rbind (form_fields (split_on (CHR ''&'') body) []) (\<lambda>fs.
       let ofs = (case Option.bind (sm_get fs ''ofs'') (parse_unsigned (2 ^ 64)) of None \<Rightarrow> 0 | Some n \<Rightarrow> n) in
     rbind (rcollect (request_entry env ofs) fs) (\<lambda>found. Inr (sort_key fst (concat found)))))"

subsection \<open>Sessions\<close>

record web_target =
  spec :: json
  target_documents :: documents

record session =
  seq :: nat
  messages :: "(nat, json) smap"
  session_targets :: "(int, web_target) smap"
  received :: "nat list"
  touched :: nat
  write_ready :: bool
  database :: string

definition new_session :: "nat \<Rightarrow> string \<Rightarrow> session" where
  "new_session now db = \<lparr>seq = 0, messages = [], session_targets = [], received = [], touched = now,
     write_ready = False, database = db\<rparr>"

definition push :: "json \<Rightarrow> session \<Rightarrow> session" where
  "push v s = (let n = seq s + 1 in
     s\<lparr>seq := n, messages := sm_put n (JArray [JInt (int n), JArray [v]]) (messages s)\<rparr>)"

definition push_all :: "json list \<Rightarrow> session \<Rightarrow> session" where
  "push_all vs s = fold push vs s"

definition queued :: "channel_env \<Rightarrow> nat \<Rightarrow> session \<Rightarrow> session \<times> string option" where
  "queued env aid s =
     (let s' = s\<lparr>messages := sm_retain (\<lambda>n _. aid < n) (messages s)\<rparr> in
      (s', if messages s' = [] then None else Some (frame env (JArray (sm_values (messages s'))))))"

subsection \<open>Targets\<close>

definition target_change :: "string \<Rightarrow> int list \<Rightarrow> (string \<times> json) list \<Rightarrow> json" where
  "target_change kind ids extra = jobject [(''targetChange'', jobject
     ([(''targetChangeType'', JString kind), (''targetIds'', JArray (map JInt ids))] @ extra))]"

definition web_docs :: "web_env \<Rightarrow> documents \<Rightarrow> json \<Rightarrow> document list res" where
  "web_docs env ds sp =
     (case jget ''query'' sp of
        Some q \<Rightarrow> rbind (query_proto env (jindex q ''structuredQuery'')) (query_docs (sm_values ds) (json_string q ''parent''))
      | None \<Rightarrow> Inr (List.map_filter (sm_get ds) (json_strings (json_array (jindex sp ''documents'') ''documents''))))"

definition docs_by_name :: "document list \<Rightarrow> documents" where
  "docs_by_name found = sm_of_list (map (\<lambda>d. (doc_name d, d)) found)"

definition sent_before :: "web_env \<Rightarrow> documents \<Rightarrow> document \<Rightarrow> bool" where
  "sent_before env old d =
     (case sm_get old (doc_name d) of None \<Rightarrow> False | Some p \<Rightarrow> json_eq (document_json env p) (document_json env d))"

definition change_json :: "web_env \<Rightarrow> int \<Rightarrow> document \<Rightarrow> json" where
  "change_json env i d = jobject [(''documentChange'', jobject
     [(''document'', document_json env d), (''targetIds'', JArray [JInt i]), (''removedTargetIds'', JArray [])])]"

definition remove_json :: "json \<Rightarrow> int \<Rightarrow> string \<Rightarrow> json" where
  "remove_json read_time i name = jobject [(''documentRemove'', jobject
     [(''document'', JString name), (''removedTargetIds'', JArray [JInt i]), (''readTime'', read_time)])]"

definition target_messages :: "web_env \<Rightarrow> json \<Rightarrow> int \<Rightarrow> documents \<Rightarrow> document list \<Rightarrow> json list" where
  "target_messages env read_time i old found =
     map (change_json env i) (filter (\<lambda>d. \<not> sent_before env old d) found) @
     map (remove_json read_time i) (filter (\<lambda>n. \<not> sm_has (docs_by_name found) n) (sm_keys old))"

definition refresh_target ::
  "web_env \<Rightarrow> documents \<Rightarrow> json \<Rightarrow> bool \<Rightarrow> int \<Rightarrow> session \<Rightarrow> session \<times> bool res" where
  "refresh_target env ds read_time initial i s =
     (case sm_get (session_targets s) i of
        None \<Rightarrow> (s, Inl (internal ''unwrap of a missing target''))
      | Some t \<Rightarrow>
          (case web_docs env ds (spec t) of
             Inl e \<Rightarrow> (s, Inl e)
           | Inr found \<Rightarrow>
               let msgs = target_messages env read_time i (target_documents t) found;
                   t' = t\<lparr>target_documents := docs_by_name found\<rparr>;
                   s1 = push_all msgs (s\<lparr>session_targets := sm_put i t' (session_targets s)\<rparr>)
               in (if initial then push (target_change ''CURRENT'' [i] [(''readTime'', read_time)]) s1 else s1,
                   Inr (msgs \<noteq> []))))"

fun refresh_ids ::
  "web_env \<Rightarrow> documents \<Rightarrow> json \<Rightarrow> bool \<Rightarrow> int list \<Rightarrow> session \<Rightarrow> bool \<Rightarrow> session \<times> bool res" where
  "refresh_ids env ds read_time initial [] s changed = (s, Inr changed)"
| "refresh_ids env ds read_time initial (i # is) s changed =
     (case refresh_target env ds read_time initial i s of
        (s', Inl e) \<Rightarrow> (s', Inl e)
      | (s', Inr c) \<Rightarrow> refresh_ids env ds read_time initial is s' (changed \<or> c))"

definition refresh :: "web_env \<Rightarrow> documents \<Rightarrow> timestamp \<Rightarrow> int option \<Rightarrow> session \<Rightarrow> session \<times> unit res" where
  "refresh env ds now initial s =
     (let ids = (case initial of Some i \<Rightarrow> [i] | None \<Rightarrow> sm_keys (session_targets s));
          read_time = time_json env (Some now)
      in case refresh_ids env ds read_time (initial \<noteq> None) ids s False of
           (s', Inl e) \<Rightarrow> (s', Inl e)
         | (s', Inr changed) \<Rightarrow>
             (if changed \<or> initial \<noteq> None then push (target_change ''NO_CHANGE'' [] [(''readTime'', read_time)]) s' else s',
              Inr ()))"

subsection \<open>Requests of the client\<close>

definition write_result_json :: "web_env \<Rightarrow> write_result \<Rightarrow> json" where
  "write_result_json env r = jobject
     [(''updateTime'', time_json env (wr_update_time r)),
      (''transformResults'', JArray (map (value_json env) (transform_results r)))]"

definition web_commit :: "web_env \<Rightarrow> store \<Rightarrow> string \<Rightarrow> json \<Rightarrow> timestamp \<Rightarrow> json outcome" where
  "web_commit env st db v now =
     obind st (rcollect (write_proto env) (json_array v ''writes'')) (\<lambda>ws.
       case commit st db [] ws now of
         (st', fx, r) \<Rightarrow> (st', fx, rbind r (\<lambda>(results, t). Inr (jobject
           [(''writeResults'', JArray (map (write_result_json env) results)), (''commitTime'', time_json env (Some t))]))))"

text \<open>
  One message of the client: the store, its effects, the session and the error, if any.  The first
  message of a Write channel is the handshake.
\<close>

definition process ::
  "web_env \<Rightarrow> string \<Rightarrow> string \<Rightarrow> timestamp \<Rightarrow> store \<Rightarrow> session \<Rightarrow> json \<Rightarrow> store \<times> effect list \<times> session \<times> unit res" where
  "process env rpc sid now st s v =
     (if rpc = ''Write'' then
        (if \<not> write_ready s then
           let s1 = s\<lparr>write_ready := True\<rparr>;
               s2 = (case as_str (jindex v ''database'') of None \<Rightarrow> s1 | Some db \<Rightarrow> s1\<lparr>database := db\<rparr>)
           in (st, [], push (jobject [(''streamId'', JString sid), (''streamToken'', JString (we_encode env ''0''))]) s2, Inr ())
         else
           case web_commit env st (database s) v now of
             (st', fx, Inl e) \<Rightarrow> (st', fx, s, Inl e)
           | (st', fx, Inr result) \<Rightarrow>
               (st', fx, push (jset ''streamToken'' (JString (we_encode env (show_nat (seq s + 1))))
                  (jset ''streamId'' (JString sid) result)) s, Inr ()))
      else case jget ''addTarget'' v of
        Some t \<Rightarrow>
          (case as_i64 (jindex t ''targetId'') of
             None \<Rightarrow> (st, [], s, Inl (invalid_argument ''targetId required''))
           | Some n \<Rightarrow>
               let i = as_i32 n;
                   s1 = s\<lparr>session_targets := sm_put i \<lparr>spec = t, target_documents = []\<rparr> (session_targets s)\<rparr>;
                   (s2, r) = refresh env (documents st) now (Some i) (push (target_change ''ADD'' [i] []) s1)
               in (st, [], s2, r))
      | None \<Rightarrow>
          (case as_i64 (jindex v ''removeTarget'') of
             None \<Rightarrow> (st, [], s, Inr ())
           | Some n \<Rightarrow> (st, [], push (target_change ''REMOVE'' [n] [])
                          (s\<lparr>session_targets := sm_del (as_i32 n) (session_targets s)\<rparr>), Inr ())))"

definition receive ::
  "web_env \<Rightarrow> string \<Rightarrow> string \<Rightarrow> timestamp \<Rightarrow> nat \<times> json \<Rightarrow> store \<times> effect list \<times> session \<Rightarrow> store \<times> effect list \<times> session" where
  "receive env rpc sid now = (\<lambda>(i, v) (st, fx, s).
     if i \<in> set (received s) then (st, fx, s)
     else case process env rpc sid now st (s\<lparr>received := i # received s\<rparr>) v of
       (st', fx', s', Inl e) \<Rightarrow> (st', fx @ fx', push (error_json e) s')
     | (st', fx', s', Inr _) \<Rightarrow> (st', fx @ fx', s'))"

definition receive_all ::
  "web_env \<Rightarrow> string \<Rightarrow> string \<Rightarrow> timestamp \<Rightarrow> (nat \<times> json) list \<Rightarrow> store \<Rightarrow> session \<Rightarrow> store \<times> effect list \<times> session" where
  "receive_all env rpc sid now ms st s = fold (receive env rpc sid now) ms (st, [], s)"

subsection \<open>The channel handler\<close>

record web_state =
  core :: store
  sessions :: "(string, session) smap"

datatype http_method = GET | POST | OPTIONS | OtherMethod

text \<open>
  The handshake drops the idle channels, except those some request holds (\<open>busy\<close>).
  A request without a session id is answered under the fresh one.
\<close>

definition prune_sessions :: "nat \<Rightarrow> string list \<Rightarrow> (string, session) smap \<Rightarrow> (string, session) smap" where
  "prune_sessions now_ms busy ss = sm_retain (\<lambda>sid s. sid \<in> set busy \<or> now_ms - touched s < 300000) ss"

definition find_session ::
  "(string, string) smap \<Rightarrow> string \<Rightarrow> nat \<Rightarrow> string list \<Rightarrow> (string, session) smap \<Rightarrow> (string, session) smap \<times> session res" where
  "find_session params fresh now_ms busy ss =
     (case sm_get params ''SID'' of
        None \<Rightarrow>
          let s = new_session now_ms (case sm_get params ''database'' of None \<Rightarrow> [] | Some db \<Rightarrow> db) in
          (sm_put fresh s (prune_sessions now_ms busy ss), Inr s)
      | Some sid \<Rightarrow> (ss, of_option (invalid_argument ''Unknown SID'') (sm_get ss sid)))"

definition handshake_frame :: "string \<Rightarrow> json" where
  "handshake_frame sid = JArray [JArray [JInt 0, JArray [JString ''c'', JString sid, JString [], JInt 8, JInt 12, JInt 30000]]]"

definition post_reply :: "channel_env \<Rightarrow> bool \<Rightarrow> string \<Rightarrow> session \<Rightarrow> string" where
  "post_reply env initial sid s =
     frame env (if initial then handshake_frame sid else JArray [JInt 1, JInt (int (seq s)), JInt 0])"

text \<open>A POST: the messages of its form, each once, under the lock of the session.\<close>

definition channel_post ::
  "channel_env \<Rightarrow> string \<Rightarrow> bool \<Rightarrow> string \<Rightarrow> timestamp \<Rightarrow> nat \<Rightarrow> string \<Rightarrow> store \<Rightarrow> session \<Rightarrow>
   store \<times> effect list \<times> session \<times> string res" where
  "channel_post env rpc initial sid now now_ms body st s =
     (case form_messages env body of
        Inl e \<Rightarrow> (st, [], s, Inl e)
      | Inr ms \<Rightarrow>
          (case receive_all (ce_web env) rpc sid now ms st (s\<lparr>touched := now_ms\<rparr>) of
             (st', fx, s') \<Rightarrow> (st', fx, s', Inr (post_reply env initial sid s'))))"

text \<open>One pass of the long poll: an answer, or nothing and the wait for a change.\<close>

definition poll_pass ::
  "channel_env \<Rightarrow> string \<Rightarrow> nat \<Rightarrow> timestamp \<Rightarrow> nat \<Rightarrow> documents \<Rightarrow> session \<Rightarrow> session \<times> string option res" where
  "poll_pass env rpc aid now now_ms ds s =
     (let s1 = s\<lparr>touched := now_ms\<rparr>;
          (s2, r) = (if rpc = ''Listen'' then refresh (ce_web env) ds now None s1 else (s1, Inr ()))
      in case r of
           Inl e \<Rightarrow> (s2, Inl e)
         | Inr _ \<Rightarrow> (case queued env aid s2 of (s3, b) \<Rightarrow> (s3, Inr b)))"

text \<open>The deadline of the long poll: a message that says nothing.\<close>

definition poll_deadline :: "channel_env \<Rightarrow> nat \<Rightarrow> session \<Rightarrow> session \<times> string option" where
  "poll_deadline env aid s =
     (let n = seq s + 1 in
      queued env aid (s\<lparr>seq := n, messages := sm_put n (JArray [JInt (int n), JArray [JString ''noop'']]) (messages s)\<rparr>))"

definition poll_aid :: "(string, string) smap \<Rightarrow> nat" where
  "poll_aid params = (case Option.bind (sm_get params ''AID'') (parse_unsigned (2 ^ 64)) of None \<Rightarrow> 0 | Some n \<Rightarrow> n)"

text \<open>
  A request up to its first answer or wait (\<open>Inr None\<close>).
\<close>

definition channel_request ::
  "channel_env \<Rightarrow> string \<Rightarrow> (string, string) smap \<Rightarrow> http_method \<Rightarrow> string \<Rightarrow> string \<Rightarrow> timestamp \<Rightarrow> nat \<Rightarrow> string list \<Rightarrow>
   web_state \<Rightarrow> web_state \<times> effect list \<times> string option res" where
  "channel_request env rpc params meth body fresh now now_ms busy w =
     (if meth = OPTIONS then (w, [], Inr (Some []))
      else if rpc \<noteq> ''Listen'' \<and> rpc \<noteq> ''Write'' then (w, [], Inl (unimplemented ''unknown stream''))
      else if sm_get params ''TYPE'' = Some ''terminate'' then
        ((case sm_get params ''SID'' of None \<Rightarrow> w | Some sid \<Rightarrow> w\<lparr>sessions := sm_del sid (sessions w)\<rparr>), [], Inr (Some []))
      else let initial = \<not> sm_has params ''SID'' in
        if initial \<and> meth \<noteq> POST then (w, [], Inl (invalid_argument ''POST is required for channel handshake''))
        else let sid = (case sm_get params ''SID'' of None \<Rightarrow> fresh | Some i \<Rightarrow> i) in
          (case find_session params fresh now_ms busy (sessions w) of
             (ss, Inl e) \<Rightarrow> (w\<lparr>sessions := ss\<rparr>, [], Inl e)
           | (ss, Inr s) \<Rightarrow>
               if meth = POST then
                 (case channel_post env rpc initial sid now now_ms body (core w) s of
                    (st, fx, s', r) \<Rightarrow> (\<lparr>core = st, sessions = sm_put sid s' ss\<rparr>, fx, rbind r (\<lambda>b. Inr (Some b))))
               else if meth \<noteq> GET \<or> sm_get params ''RID'' \<noteq> Some ''rpc'' then
                 (w\<lparr>sessions := ss\<rparr>, [], Inl (invalid_argument ''invalid channel request''))
               else (case poll_pass env rpc (poll_aid params) now now_ms (documents (core w)) s of
                       (s', r) \<Rightarrow> (w\<lparr>sessions := sm_put sid s' ss\<rparr>, [], r))))"

subsection \<open>The REST endpoints\<close>

definition documents_parent :: "string \<Rightarrow> string" where
  "documents_parent p = (case strip_suffix ''/documents'' p of None \<Rightarrow> p | Some db \<Rightarrow> db)"

definition batch_entry_json :: "web_env \<Rightarrow> batch_response \<Rightarrow> json" where
  "batch_entry_json env r =
     (let time = (''readTime'', time_json env (bg_read_time r)) in
      case bg_result r of
        Some (Found d) \<Rightarrow> jobject [(''found'', document_json env d), time]
      | Some (Missing name) \<Rightarrow> jobject [(''missing'', JString name), time]
      | None \<Rightarrow> jobject [time])"

definition rest_request ::
  "web_env \<Rightarrow> string \<Rightarrow> http_method \<Rightarrow> json option \<Rightarrow> timestamp \<Rightarrow> string \<Rightarrow> store \<Rightarrow> json outcome" where
  "rest_request env resource meth body now fresh st =
     (if meth \<noteq> POST then (st, [], Inl (unimplemented ''REST method is not supported''))
      else case body of None \<Rightarrow> (st, [], Inl (invalid_argument ''invalid JSON'')) | Some v \<Rightarrow>
      (case strip_suffix '':commit'' resource of
         Some parent \<Rightarrow> web_commit env st (documents_parent parent) v now
       | None \<Rightarrow>
      (case strip_suffix '':batchGet'' resource of
         Some parent \<Rightarrow>
           (case batch_get_documents st (documents_parent parent) (json_strings (json_array v ''documents'')) None now fresh of
              (st', fx, r) \<Rightarrow> (st', fx, rbind r (\<lambda>rs. Inr (JArray (map (batch_entry_json env) rs)))))
       | None \<Rightarrow>
      (case strip_suffix '':runQuery'' resource of
         Some parent \<Rightarrow>
           obind st (rbind (query_proto env (jindex v ''structuredQuery'')) (query_docs (sm_values (documents st)) parent)) (\<lambda>found.
             let time = time_json env (Some now);
                 results = map (\<lambda>d. jobject [(''document'', document_json env d), (''readTime'', time)]) found
             in (st, [], Inr (JArray (if results = [] then [jobject [(''readTime'', time)]] else results))))
       | None \<Rightarrow> (st, [], Inl (unimplemented ''unknown REST operation''))))))"

definition rest_status :: "status \<Rightarrow> nat" where
  "rest_status e = (case code e of NotFound \<Rightarrow> 404 | AlreadyExists \<Rightarrow> 409 | Unimplemented \<Rightarrow> 501 | _ \<Rightarrow> 400)"

end
