(* ===== verification/Json_Text.thy ===== *)
theory Json_Text
  imports Json
begin

text \<open>
  A text for JSON values that is read back, which stands for the library's serializer where a
  theorem about the channel is applied: a letter for the kind, numbers in unary, a comma before each
  element and a dot at the end of a list.
\<close>

definition nat_text :: "nat \<Rightarrow> string" where
  "nat_text n = replicate n (CHR ''1'') @ ''.''"

definition list_text :: "('a \<Rightarrow> string) \<Rightarrow> 'a list \<Rightarrow> string" where
  "list_text f xs = concat (map (\<lambda>x. CHR '','' # f x) xs) @ ''.''"

lemma list_text_cong [fundef_cong]: "xs = ys \<Longrightarrow> (\<And>x. x \<in> set ys \<Longrightarrow> f x = g x) \<Longrightarrow> list_text f xs = list_text g ys"
  unfolding list_text_def by (metis (mono_tags, lifting) map_cong)

fun json_text :: "json \<Rightarrow> string" where
  "json_text JNull = ''n''"
| "json_text (JBool b) = (if b then ''t'' else ''f'')"
| "json_text (JInt i) = (if i < 0 then CHR ''-'' else CHR ''+'') # nat_text (nat \<bar>i\<bar>)"
| "json_text (JFloat n) = CHR ''d'' # nat_text n"
| "json_text (JString s) = CHR ''s'' # list_text (\<lambda>c. [c]) s"
| "json_text (JArray vs) = CHR ''a'' # list_text json_text vs"
| "json_text (JObject m) = CHR ''o'' # list_text (\<lambda>(k, v). list_text (\<lambda>c. [c]) k @ json_text v) m"

fun read_nat :: "string \<Rightarrow> (nat \<times> string) option" where
  "read_nat [] = None"
| "read_nat (c # s) = (if c = CHR ''.'' then Some (0, s) else map_option (\<lambda>(n, r). (Suc n, r)) (read_nat s))"

fun read_list :: "nat \<Rightarrow> (string \<Rightarrow> ('a \<times> string) option) \<Rightarrow> string \<Rightarrow> ('a list \<times> string) option" where
  "read_list 0 p s = None"
| "read_list (Suc n) p s =
     (case s of [] \<Rightarrow> None
      | c # r \<Rightarrow> if c = CHR ''.'' then Some ([], r)
          else Option.bind (p r) (\<lambda>(x, r'). map_option (\<lambda>(xs, r''). (x # xs, r'')) (read_list n p r')))"

definition read_char :: "string \<Rightarrow> (char \<times> string) option" where
  "read_char s = (case s of [] \<Rightarrow> None | c # r \<Rightarrow> Some (c, r))"

fun read_json :: "nat \<Rightarrow> string \<Rightarrow> (json \<times> string) option" where
  "read_json 0 s = None"
| "read_json (Suc n) s =
     (case s of [] \<Rightarrow> None
      | c # r \<Rightarrow>
          if c = CHR ''n'' then Some (JNull, r)
          else if c = CHR ''t'' then Some (JBool True, r)
          else if c = CHR ''f'' then Some (JBool False, r)
          else if c = CHR ''+'' then map_option (\<lambda>(n, r). (JInt (int n), r)) (read_nat r)
          else if c = CHR ''-'' then map_option (\<lambda>(n, r). (JInt (- int n), r)) (read_nat r)
          else if c = CHR ''d'' then map_option (\<lambda>(n, r). (JFloat n, r)) (read_nat r)
          else if c = CHR ''s'' then map_option (\<lambda>(s, r). (JString s, r)) (read_list (length r) read_char r)
          else if c = CHR ''a'' then map_option (\<lambda>(vs, r). (JArray vs, r)) (read_list n (read_json n) r)
          else map_option (\<lambda>(m, r). (JObject m, r))
            (read_list n (\<lambda>s. Option.bind (read_list n read_char s) (\<lambda>(k, s'). map_option (\<lambda>(v, r). ((k, v), r)) (read_json n s'))) r))"

definition json_parse :: "string \<Rightarrow> json option" where
  "json_parse s = (case read_json (length s) s of Some (v, []) \<Rightarrow> Some v | _ \<Rightarrow> None)"

lemma read_nat_text [simp]: "read_nat (nat_text n @ r) = Some (n, r)"
  by (induction n) (simp_all add: nat_text_def)

lemma read_list_text:
  "(\<And>x r. x \<in> set xs \<Longrightarrow> p (f x @ r) = Some (x, r)) \<Longrightarrow> length xs < n \<Longrightarrow>
   read_list n p (list_text f xs @ r) = Some (xs, r)"
proof (induction xs arbitrary: n)
  case Nil
  then show ?case by (cases n) (auto simp: list_text_def)
next
  case (Cons x xs)
  then obtain m where m: "n = Suc m" "length xs < m" by (cases n) auto
  have "read_list m p (list_text f xs @ r) = Some (xs, r)" using Cons.IH[OF _ m(2)] Cons.prems(1) by simp
  then show ?case using Cons.prems(1)[of x "list_text f xs @ r"] m(1)
    by (simp add: list_text_def)
qed

lemma list_text_length: "x \<in> set xs \<Longrightarrow> length (f x) < length (list_text f xs)"
  by (induction xs) (auto simp: list_text_def)

lemma list_text_count: "length xs < length (list_text f xs)"
  by (induction xs) (auto simp: list_text_def)

lemma read_string_text: "length k < n \<Longrightarrow> read_list n read_char (list_text (\<lambda>c. [c]) k @ r) = Some (k, r)"
  by (rule read_list_text) (simp_all add: read_char_def)

lemma read_json_text: "length (json_text v) \<le> n \<Longrightarrow> read_json n (json_text v @ r) = Some (v, r)"
proof (induction v arbitrary: n r)
  case (JString s)
  then show ?case using list_text_count[of s "\<lambda>c. [c]"] read_string_text[of s _ r] by (cases n) auto
next
  case (JArray vs)
  then obtain k where n: "n = Suc k" "length (list_text json_text vs) \<le> k" by (cases n) auto
  have "read_list k (read_json k) (list_text json_text vs @ r) = Some (vs, r)"
  proof (rule read_list_text)
    show "length vs < k" using list_text_count[of vs json_text] n(2) by simp
    fix x r assume "x \<in> set vs"
    then show "read_json k (json_text x @ r) = Some (x, r)"
      using JArray.IH list_text_length[of x vs json_text] n(2) by simp
  qed
  then show ?case using n(1) by simp
next
  case (JObject m)
  define f where "f = (\<lambda>(k, v). list_text (\<lambda>c. [c]) k @ json_text v)"
  from JObject.prems obtain k where n: "n = Suc k" "length (list_text f m) \<le> k" by (cases n) (auto simp: f_def)
  have "read_list k (\<lambda>s. Option.bind (read_list k read_char s) (\<lambda>(k', s'). map_option (\<lambda>(v, r). ((k', v), r)) (read_json k s')))
      (list_text f m @ r) = Some (m, r)"
  proof (rule read_list_text)
    show "length m < k" using list_text_count[of m f] n(2) by simp
    fix x r assume x: "x \<in> set m"
    obtain key v where kv: "x = (key, v)" by (cases x)
    have len: "length (f x) < k" using list_text_length[OF x, of f] n(2) by simp
    have "length key < k" using len list_text_count[of key "\<lambda>c. [c]"] by (simp add: f_def kv)
    moreover have "read_json k (json_text v @ r) = Some (v, r)"
      using JObject.IH[OF x, of v k r] len by (simp add: f_def kv)
    ultimately show "Option.bind (read_list k read_char (f x @ r))
        (\<lambda>(k', s'). map_option (\<lambda>(v, r). ((k', v), r)) (read_json k s')) = Some (x, r)"
      by (simp add: f_def kv read_string_text)
  qed
  then show ?case using n(1) by (simp add: f_def)
next
  case JNull
  then show ?case by (cases n) simp_all
next
  case (JBool b)
  then show ?case by (cases n) (simp_all split: if_splits)
next
  case (JInt i)
  then show ?case by (cases n) simp_all
next
  case (JFloat i)
  then show ?case by (cases n) simp_all
qed

lemma json_parse_text [simp]: "json_parse (json_text v) = Some v"
  using read_json_text[of v "length (json_text v)" "[]"] by (simp add: json_parse_def)

end
