(* ===== verification/Web_Stream.thy ===== *)
theory Web_Stream
  imports Web_Channel Firestore_Listen Json_Text
begin

text \<open>
  The browser channel as seen by its client: messages arrive once and in order whatever replies are
  lost, and replaying the ones of a target yields its documents.
\<close>

subsection \<open>The numbered messages\<close>

text \<open>The queue of a session that was acknowledged up to \<open>lo\<close>, out of all messages ever queued.\<close>

definition numbered :: "nat \<Rightarrow> json list \<Rightarrow> (nat, json) smap" where
  "numbered lo log = map (\<lambda>n. (n, log ! (n - 1))) [Suc lo..<Suc (length log)]"

definition entry :: "nat \<Rightarrow> json list \<Rightarrow> json" where
  "entry n vs = JArray [JInt (int n), JArray vs]"

definition well_numbered :: "json list \<Rightarrow> bool" where
  "well_numbered log = (\<forall>k < length log. \<exists>v. log ! k = entry (Suc k) [v])"

definition queue_of :: "nat \<Rightarrow> json list \<Rightarrow> session \<Rightarrow> bool" where
  "queue_of lo log s = (lo \<le> length log \<and> seq s = length log \<and> messages s = numbered lo log)"

lemma keys_numbered [simp]: "map fst (numbered lo log) = [Suc lo..<Suc (length log)]"
  by (simp add: numbered_def comp_def)

lemma sm_wf_numbered [simp]: "sm_wf (numbered lo log)"
  unfolding sm_wf_def keys_numbered by (rule sorted_wrt_upt)

lemma sm_put_last: "\<forall>k \<in> set (map fst m). k < n \<Longrightarrow> sm_put n v m = m @ [(n, v)]"
  by (induction m) auto

lemma numbered_append: "lo \<le> length log \<Longrightarrow> sm_put (Suc (length log)) v (numbered lo log) = numbered lo (log @ [v])"
proof -
  assume lo: "lo \<le> length log"
  have "sm_put (Suc (length log)) v (numbered lo log) = numbered lo log @ [(Suc (length log), v)]"
    by (rule sm_put_last) (auto simp del: upt_Suc)
  moreover have "map (\<lambda>n. (n, (log @ [v]) ! (n - 1))) [Suc lo..<Suc (length log)] = numbered lo log"
    unfolding numbered_def by (rule map_cong) (auto simp: nth_append)
  ultimately show ?thesis using lo by (simp add: numbered_def)
qed

lemma numbered_retain: "aid \<le> length log \<Longrightarrow> sm_retain (\<lambda>n _. aid < n) (numbered lo log) = numbered (max lo aid) log"
proof -
  have "filter (\<lambda>n. aid < n) [Suc lo..<Suc k] = [Suc (max lo aid)..<Suc k]" for k
    by (induction k) auto
  then show ?thesis by (simp add: numbered_def sm_retain_def filter_map comp_def)
qed

lemma queue_push: "queue_of lo log s \<Longrightarrow> queue_of lo (log @ [entry (Suc (length log)) [v]]) (push v s)"
  by (simp add: queue_of_def push_def Let_def numbered_append entry_def)

lemma well_numbered_snoc: "well_numbered log \<Longrightarrow> well_numbered (log @ [entry (Suc (length log)) [v]])"
  by (auto simp: well_numbered_def nth_append less_Suc_eq)

lemma well_numbered_Nil [simp]: "well_numbered []"
  by (simp add: well_numbered_def)

subsection \<open>The client\<close>

record client =
  acked :: nat
  got :: "json list"

definition entry_number :: "json \<Rightarrow> nat option" where
  "entry_number e = (case e of JArray (JInt n # _) \<Rightarrow> Some (nat n) | _ \<Rightarrow> None)"

text \<open>It skips what it has and acknowledges the last message it took.\<close>

definition take_entry :: "json \<Rightarrow> client \<Rightarrow> client" where
  "take_entry e c = (case entry_number e of
     None \<Rightarrow> c | Some n \<Rightarrow> if acked c < n then \<lparr>acked = n, got = got c @ [e]\<rparr> else c)"

definition read_body :: "channel_env \<Rightarrow> string \<Rightarrow> client \<Rightarrow> client" where
  "read_body env b c =
     (case split_once [CHR 0x0A] b of
        None \<Rightarrow> c
      | Some (n, t) \<Rightarrow> (case ce_parse env t of Some (JArray es) \<Rightarrow> fold take_entry es c | _ \<Rightarrow> c))"

lemma entry_number_entry [simp]: "entry_number (entry n vs) = Some n"
  by (simp add: entry_number_def entry_def)

lemma take_numbered:
  assumes "well_numbered log" "lo \<le> a" "lo + k \<le> length log" "a \<le> length log"
  shows "fold take_entry (map (\<lambda>n. log ! (n - 1)) [Suc lo..<Suc (lo + k)]) \<lparr>acked = a, got = take a log\<rparr> =
    \<lparr>acked = max a (lo + k), got = take (max a (lo + k)) log\<rparr>"
  using assms(3)
proof (induction k)
  case 0
  then show ?case using assms(2) by (simp add: max_absorb1)
next
  case (Suc k)
  have n: "lo + k < length log" using Suc.prems by simp
  then obtain v where v: "log ! (lo + k) = entry (Suc (lo + k)) [v]"
    using assms(1) by (auto simp: well_numbered_def)
  have "take (Suc (lo + k)) log = take (lo + k) log @ [log ! (lo + k)]"
    using n by (rule take_Suc_conv_app_nth)
  moreover have "a = Suc (lo + k)" if "\<not> a \<le> lo + k" "a \<le> Suc (lo + k)" using that by simp
  ultimately show ?case using Suc v
    by (cases "a \<le> lo + k"; cases "a = Suc (lo + k)") (auto simp: take_entry_def max_def)
qed

lemma show_nat_no_newline: "CHR 0x0A \<notin> set (show_nat n)"
  using show_nat_digits[of n] by (auto simp: list_all_iff is_digit_def)

lemma split_frame: "split_once [CHR 0x0A] (frame env v) = Some (show_nat (utf16_count (ce_text env v)), ce_text env v)"
  using split_once_char[OF show_nat_no_newline] by (simp add: frame_def Let_def)

lemma queued_delivers:
  assumes codec: "\<And>v. ce_parse env (ce_text env v) = Some v"
    and "queue_of lo log s" "well_numbered log" "lo \<le> a" "aid \<le> a" "a \<le> length log"
    and q: "queued env aid s = (s', r)"
  shows "queue_of (max lo aid) log s'"
    and "r = None \<Longrightarrow> a = length log"
    and "r = Some b \<Longrightarrow> read_body env b \<lparr>acked = a, got = take a log\<rparr> = \<lparr>acked = length log, got = log\<rparr>"
proof -
  define m where "m = numbered (max lo aid) log"
  have m: "sm_retain (\<lambda>n _. aid < n) (messages s) = m"
    using assms(2,5,6) by (simp add: queue_of_def numbered_retain m_def)
  have s': "s' = s\<lparr>messages := m\<rparr>" and r: "r = (if m = [] then None else Some (frame env (JArray (sm_values m))))"
    using q by (auto simp: queued_def Let_def m)
  show "queue_of (max lo aid) log s'" using assms(2,5,6) by (simp add: s' queue_of_def m_def)
  show "a = length log" if "r = None"
  proof -
    have "map fst m = []" using that r by (simp split: if_splits)
    then have "length log \<le> max lo aid" unfolding m_def keys_numbered by (simp del: upt_Suc)
    then show ?thesis using assms(4-6) by simp
  qed
  show "read_body env b \<lparr>acked = a, got = take a log\<rparr> = \<lparr>acked = length log, got = log\<rparr>" if "r = Some b"
  proof -
    have le: "max lo aid \<le> length log" using assms(4-6) by simp
    then obtain k where k: "length log = max lo aid + k" using le_Suc_ex by blast
    have "b = frame env (JArray (sm_values m))" using that r by (simp split: if_splits)
    then have "read_body env b c = fold take_entry (sm_values m) c" for c
      by (simp add: read_body_def split_frame codec)
    moreover have "sm_values m = map (\<lambda>n. log ! (n - 1)) [Suc (max lo aid)..<Suc (max lo aid + k)]"
      unfolding m_def numbered_def sm_values_def k by (simp add: comp_def del: upt_Suc)
    moreover have "fold take_entry \<dots> \<lparr>acked = a, got = take a log\<rparr> =
        \<lparr>acked = max a (max lo aid + k), got = take (max a (max lo aid + k)) log\<rparr>"
      by (rule take_numbered) (use assms(3-6) k in auto)
    moreover have "max a (max lo aid + k) = length log" using k assms(6) by simp
    ultimately show ?thesis by simp
  qed
qed

subsection \<open>The client's view of a target\<close>

definition apply_value :: "int \<Rightarrow> json \<Rightarrow> (string, json) smap \<Rightarrow> (string, json) smap" where
  "apply_value i v view =
     (case jget ''documentChange'' v of
        Some c \<Rightarrow> (if JInt i \<in> set (json_array c ''targetIds'')
                   then sm_put (json_string (jindex c ''document'') ''name'') (jindex c ''document'') view else view)
      | None \<Rightarrow>
     (case jget ''documentRemove'' v of
        Some r \<Rightarrow> (if JInt i \<in> set (json_array r ''removedTargetIds'') then sm_del (json_string r ''document'') view else view)
      | None \<Rightarrow>
     (case jget ''targetChange'' v of
        Some t \<Rightarrow> (if jindex t ''targetChangeType'' = JString ''ADD'' \<and> JInt i \<in> set (json_array t ''targetIds'') then [] else view)
      | None \<Rightarrow> view)))"

definition apply_values :: "json list \<Rightarrow> (int \<Rightarrow> (string, json) smap) \<Rightarrow> int \<Rightarrow> (string, json) smap" where
  "apply_values vs f i = fold (apply_value i) vs (f i)"

definition entry_values :: "json \<Rightarrow> json list" where
  "entry_values e = (case e of JArray [_, JArray vs] \<Rightarrow> vs | _ \<Rightarrow> [])"

text \<open>What a client that has these messages shows for the target.\<close>

definition target_view :: "json list \<Rightarrow> int \<Rightarrow> (string, json) smap" where
  "target_view log = apply_values (concat (map entry_values log)) (\<lambda>_. [])"

lemma apply_values_simps [simp]:
  "apply_values [] f = f"
  "apply_values (vs @ ws) f = apply_values ws (apply_values vs f)"
  "apply_values (v # vs) f = apply_values vs (\<lambda>i. apply_value i v (f i))"
  by (auto simp: apply_values_def fun_eq_iff)

definition same_json :: "json option \<Rightarrow> json option \<Rightarrow> bool" where
  "same_json a b = (case (a, b) of (None, None) \<Rightarrow> True | (Some x, Some y) \<Rightarrow> json_eq x y | _ \<Rightarrow> False)"

definition view_shows :: "web_env \<Rightarrow> (string, json) smap \<Rightarrow> documents \<Rightarrow> bool" where
  "view_shows env view ds =
     (sm_wf view \<and> (\<forall>n. same_json (sm_get view n) (map_option (document_json env) (sm_get ds n))))"

lemma set_sm_of_list: "set (sm_of_list kvs) \<subseteq> set kvs"
  by (auto simp: in_sm_iff sm_get_of_list dest!: map_of_SomeD)

lemma jobject_refl: "(\<And>k v. (k, v) \<in> set kvs \<Longrightarrow> json_eq v v) \<Longrightarrow> json_eq (jobject kvs) (jobject kvs)"
  using set_sm_of_list[of kvs] by (auto simp: jobject_def list_all2_same)

lemma json_f64_refl: "json_eq (json_f64 d) (json_f64 d)"
  by (simp add: json_f64_def f64_eq_def)

lemma time_json_refl: "json_eq (time_json env t) (time_json env t)"
  by (simp add: time_json_def split: option.split)

lemma value_json_refl: "json_eq (value_json env v) (value_json env v)"
proof (induction v)
  case (ArrayValue vs)
  then show ?case by (auto simp: list_all2_same intro!: jobject_refl)
next
  case (MapValue m)
  then show ?case by (force simp: list_all2_same intro!: jobject_refl)
qed (auto simp: json_f64_refl time_json_refl intro!: jobject_refl)

lemma document_json_refl: "json_eq (document_json env d) (document_json env d)"
  unfolding document_json_def
  by (rule jobject_refl) (auto simp: list_all2_same value_json_refl time_json_refl)

subsection \<open>Every operation extends the stream and keeps the views\<close>

definition tracks :: "web_env \<Rightarrow> (int \<Rightarrow> (string, json) smap) \<Rightarrow> session \<Rightarrow> bool" where
  "tracks env f s =
     (sm_wf (session_targets s) \<and> (\<forall>i. sm_wf (f i)) \<and>
      (\<forall>i t. sm_get (session_targets s) i = Some t \<longrightarrow>
         sm_wf (target_documents t) \<and> view_shows env (f i) (target_documents t)))"

text \<open>The operation takes the session from \<open>s\<close> to \<open>s'\<close> and queues messages that keep every view.\<close>

definition extends :: "web_env \<Rightarrow> session \<Rightarrow> session \<Rightarrow> bool" where
  "extends env s s' =
     (\<exists>vs. seq s' = seq (push_all vs s) \<and> messages s' = messages (push_all vs s) \<and>
        (\<forall>f. tracks env f s \<longrightarrow> tracks env (apply_values vs f) s'))"

lemma push_all_simps [simp]:
  "push_all [] s = s"
  "push_all (v # vs) s = push_all vs (push v s)"
  "push_all (vs @ ws) s = push_all ws (push_all vs s)"
  by (auto simp: push_all_def)

lemma push_all_same: "seq s = seq t \<Longrightarrow> messages s = messages t \<Longrightarrow>
    seq (push_all vs s) = seq (push_all vs t) \<and> messages (push_all vs s) = messages (push_all vs t)"
proof (induction vs arbitrary: s t)
  case (Cons v vs)
  then show ?case by (simp add: push_def Let_def)
qed simp

lemma session_extends_refl [simp]: "extends env s s"
  unfolding extends_def by (rule exI[of _ "[]"]) simp

lemma session_extends_trans: "extends env s t \<Longrightarrow> extends env t u \<Longrightarrow> extends env s u"
proof -
  assume "extends env s t" "extends env t u"
  then obtain vs ws where *: "seq t = seq (push_all vs s)" "messages t = messages (push_all vs s)"
      "\<And>f. tracks env f s \<Longrightarrow> tracks env (apply_values vs f) t"
      "seq u = seq (push_all ws t)" "messages u = messages (push_all ws t)"
      "\<And>f. tracks env f t \<Longrightarrow> tracks env (apply_values ws f) u"
    unfolding extends_def by blast
  show ?thesis unfolding extends_def
    using push_all_same[OF *(1,2), of ws] * by (intro exI[of _ "vs @ ws"]) simp
qed

lemma extends_fields:
  "seq s' = seq s \<Longrightarrow> messages s' = messages s \<Longrightarrow> session_targets s' = session_targets s \<Longrightarrow> extends env s s'"
  unfolding extends_def by (rule exI[of _ "[]"]) (simp add: tracks_def)

definition neutral :: "json \<Rightarrow> bool" where
  "neutral v = (\<forall>i view. apply_value i v view = view)"

lemma push_targets [simp]: "session_targets (push v s) = session_targets s" "received (push v s) = received s"
  by (simp_all add: push_def Let_def)

lemma extends_push: "neutral v \<Longrightarrow> extends env s (push v s)"
  unfolding extends_def by (rule exI[of _ "[v]"]) (simp add: tracks_def neutral_def)

lemma neutral_other:
  "jget ''documentChange'' v = None \<Longrightarrow> jget ''documentRemove'' v = None \<Longrightarrow> jget ''targetChange'' v = None \<Longrightarrow> neutral v"
  by (simp add: neutral_def apply_value_def)

lemma neutral_error: "neutral (error_json e)"
  by (rule neutral_other) (simp_all add: error_json_def)

lemma neutral_current:
  "neutral (target_change ''CURRENT'' ids [(''readTime'', t)])"
  "neutral (target_change ''NO_CHANGE'' ids [(''readTime'', t)])"
  "neutral (target_change ''REMOVE'' ids [])"
  by (simp_all add: neutral_def apply_value_def target_change_def jget_jobject jindex_def)

lemma apply_change:
  "apply_value j (change_json env i d) view = (if j = i then sm_put (doc_name d) (document_json env d) view else view)"
  by (simp add: apply_value_def change_json_def jindex_def jget_jobject json_array_def as_array_def json_string_def
      document_json_def)

lemma apply_remove:
  "apply_value j (remove_json t i n) view = (if j = i then sm_del n view else view)"
  by (simp add: apply_value_def remove_json_def jindex_def jget_jobject json_array_def as_array_def json_string_def)

lemma apply_add:
  "apply_value j (target_change ''ADD'' [i] []) view = (if j = i then [] else view)"
  by (simp add: apply_value_def target_change_def jindex_def jget_jobject json_array_def as_array_def)

lemma target_messages_other: "j \<noteq> i \<Longrightarrow> fold (apply_value j) (target_messages env t i old found) view = view"
proof -
  assume j: "j \<noteq> i"
  have "fold (apply_value j) (map (change_json env i) ds) v = v" for ds v
    by (induction ds) (simp_all add: apply_change j)
  moreover have "fold (apply_value j) (map (remove_json t i) ns) v = v" for ns v
    by (induction ns) (simp_all add: apply_remove j)
  ultimately show ?thesis by (simp add: target_messages_def)
qed

definition single_named :: "document list \<Rightarrow> bool" where
  "single_named ds = (\<forall>d \<in> set ds. \<forall>e \<in> set ds. doc_name d = doc_name e \<longrightarrow> d = e)"

lemma fold_changes:
  "sm_wf view \<Longrightarrow> single_named ds \<Longrightarrow>
   sm_wf (fold (apply_value i) (map (change_json env i) ds) view) \<and>
   (\<forall>d \<in> set ds. sm_get (fold (apply_value i) (map (change_json env i) ds) view) (doc_name d) = Some (document_json env d)) \<and>
   (\<forall>n. n \<notin> doc_name ` set ds \<longrightarrow> sm_get (fold (apply_value i) (map (change_json env i) ds) view) n = sm_get view n)"
proof (induction ds arbitrary: view)
  case (Cons d ds)
  let ?v = "sm_put (doc_name d) (document_json env d) view"
  have s: "single_named ds" "\<And>e. e \<in> set ds \<Longrightarrow> doc_name e = doc_name d \<Longrightarrow> e = d"
    using Cons.prems(2) by (auto simp: single_named_def)
  note IH = Cons.IH[of ?v, OF sm_wf_put[OF Cons.prems(1)] s(1)]
  have "sm_get (fold (apply_value i) (map (change_json env i) ds) ?v) (doc_name d) = Some (document_json env d)"
  proof (cases "doc_name d \<in> doc_name ` set ds")
    case True
    then have "d \<in> set ds" using s(2) by auto
    then show ?thesis using IH by blast
  next
    case False
    then show ?thesis using IH Cons.prems(1) by simp
  qed
  then show ?case using IH Cons.prems(1) by (auto simp: apply_change)
qed simp

lemma fold_removes:
  "sm_wf view \<Longrightarrow> sm_wf (fold (apply_value i) (map (remove_json t i) ns) view) \<and>
   sm_get (fold (apply_value i) (map (remove_json t i) ns) view) n = (if n \<in> set ns then None else sm_get view n)"
  by (induction ns arbitrary: view) (auto simp: apply_remove)

lemma docs_by_name_get:
  "single_named ds \<Longrightarrow> sm_get (docs_by_name ds) n = Some d \<longleftrightarrow> d \<in> set ds \<and> doc_name d = n"
proof -
  assume s: "single_named ds"
  have has: "sm_has (docs_by_name ds) n \<longleftrightarrow> n \<in> doc_name ` set ds"
    by (simp add: docs_by_name_def sm_has_of_list image_image)
  have mem: "e \<in> set ds \<and> doc_name e = n" if "sm_get (docs_by_name ds) n = Some e" for e
    using sm_get_in[OF that] set_sm_of_list[of "map (\<lambda>d. (doc_name d, d)) ds"] by (auto simp: docs_by_name_def)
  show ?thesis
  proof
    assume "d \<in> set ds \<and> doc_name d = n"
    then obtain e where "sm_get (docs_by_name ds) n = Some e" using has by (auto simp: sm_has_def)
    then show "sm_get (docs_by_name ds) n = Some d"
      using mem s \<open>d \<in> set ds \<and> doc_name d = n\<close> by (metis single_named_def)
  qed (rule mem)
qed

lemma target_messages_view:
  assumes "single_named found" "sm_wf old" "view_shows env view old"
  shows "view_shows env (fold (apply_value i) (target_messages env t i old found) view) (docs_by_name found)"
proof -
  define cs where "cs = filter (\<lambda>d. \<not> sent_before env old d) found"
  define ns where "ns = filter (\<lambda>n. \<not> sm_has (docs_by_name found) n) (sm_keys old)"
  define v1 where "v1 = fold (apply_value i) (map (change_json env i) cs) view"
  define v2 where "v2 = fold (apply_value i) (map (remove_json t i) ns) v1"
  have wf: "sm_wf view" and shows_old: "same_json (sm_get view n) (map_option (document_json env) (sm_get old n))" for n
    using assms(3) by (auto simp: view_shows_def)
  have sc: "single_named cs" using assms(1) by (auto simp: cs_def single_named_def)
  note v1 = fold_changes[OF wf sc, of i env, folded v1_def]
  have v2: "sm_wf v2" "sm_get v2 n = (if n \<in> set ns then None else sm_get v1 n)" for n
    using fold_removes[of v1 i t ns n] v1 by (auto simp: v2_def)
  have "same_json (sm_get v2 n) (map_option (document_json env) (sm_get (docs_by_name found) n))" for n
  proof (cases "sm_get (docs_by_name found) n")
    case None
    then have out: "n \<notin> doc_name ` set found" using docs_by_name_get[OF assms(1), of n] by auto
    then have "sm_get v1 n = sm_get view n" using v1 by (auto simp: cs_def)
    moreover have "n \<in> set ns \<longleftrightarrow> sm_has old n" using None by (auto simp: ns_def sm_has_def sm_keys_def sm_get_None image_iff)
    moreover have "sm_get view n = None" if "\<not> sm_has old n" using shows_old[of n] that
      by (auto simp: same_json_def sm_has_def split: option.splits)
    ultimately show ?thesis using None v2(2)[of n] by (simp add: same_json_def)
  next
    case (Some d)
    then have d: "d \<in> set found" "doc_name d = n" using docs_by_name_get[OF assms(1)] by auto
    have "n \<notin> set ns" using Some by (simp add: ns_def sm_has_def)
    then have g: "sm_get v2 n = sm_get v1 n" using v2(2) by simp
    show ?thesis
    proof (cases "sent_before env old d")
      case False
      then have "sm_get v1 n = Some (document_json env d)" using v1 d by (auto simp: cs_def)
      then show ?thesis using g Some by (simp add: same_json_def document_json_refl)
    next
      case True
      then obtain p where p: "sm_get old n = Some p" "json_eq (document_json env p) (document_json env d)"
        using d(2) by (auto simp: sent_before_def split: option.splits)
      have "n \<notin> doc_name ` set cs"
        using True d assms(1) by (auto simp: cs_def single_named_def)
      then have "sm_get v1 n = sm_get view n" using v1 by blast
      then show ?thesis using g Some shows_old[of n] p json_eq_trans
        by (auto simp: same_json_def split: option.splits)
    qed
  qed
  then show ?thesis using v2(1) unfolding view_shows_def target_messages_def v1_def v2_def cs_def ns_def by simp
qed

lemma sm_wf_docs_by_name [simp]: "sm_wf (docs_by_name ds)"
  by (simp add: docs_by_name_def)

lemma push_all_targets [simp]:
  "session_targets (push_all vs s) = session_targets s" "received (push_all vs s) = received s"
  by (induction vs arbitrary: s) simp_all

text \<open>No two documents a target finds have the same name.\<close>

definition finds_single :: "web_env \<Rightarrow> documents \<Rightarrow> bool" where
  "finds_single env ds = (\<forall>sp found. web_docs env ds sp = Inr found \<longrightarrow> single_named found)"

lemma extends_refresh_target:
  assumes "refresh_target env ds t initial i s = (s', r)"
    and single: "finds_single env ds"
  shows "extends env s s'"
proof (cases "\<exists>tg found. sm_get (session_targets s) i = Some tg \<and> web_docs env ds (spec tg) = Inr found")
  case False
  then have "s' = s" using assms(1) by (auto simp: refresh_target_def split: option.splits sum.splits)
  then show ?thesis by simp
next
  case True
  then obtain tg found where tg: "sm_get (session_targets s) i = Some tg" "web_docs env ds (spec tg) = Inr found"
    by blast
  define msgs where "msgs = target_messages env t i (target_documents tg) found"
  define tg' where "tg' = tg\<lparr>target_documents := docs_by_name found\<rparr>"
  define s1 where "s1 = push_all msgs (s\<lparr>session_targets := sm_put i tg' (session_targets s)\<rparr>)"
  have s': "s' = (if initial then push (target_change ''CURRENT'' [i] [(''readTime'', t)]) s1 else s1)"
    using assms(1) tg by (simp add: refresh_target_def Let_def msgs_def tg'_def s1_def split: if_splits)
  have "tracks env (apply_values msgs f) s1" if f: "tracks env f s" for f
  proof -
    have tgd: "sm_wf (target_documents tg)" "view_shows env (f i) (target_documents tg)"
      using f tg(1) by (auto simp: tracks_def)
    have v: "view_shows env (apply_values msgs f i) (docs_by_name found)"
      unfolding apply_values_def msgs_def
      by (rule target_messages_view) (use single tg(2) tgd in \<open>auto simp: finds_single_def\<close>)
    have other: "apply_values msgs f j = f j" if "j \<noteq> i" for j
      using that by (simp add: apply_values_def msgs_def target_messages_other)
    have "sm_wf (apply_values msgs f j)" for j
      using v other[of j] f by (cases "j = i") (auto simp: view_shows_def tracks_def)
    then show ?thesis using f v other by (auto simp: tracks_def s1_def tg'_def)
  qed
  moreover have "seq s1 = seq (push_all msgs s)" "messages s1 = messages (push_all msgs s)"
    unfolding s1_def using push_all_same[of "s\<lparr>session_targets := _\<rparr>" s msgs] by simp_all
  ultimately have "extends env s s1" unfolding extends_def by blast
  then show ?thesis by (auto simp: s' intro: session_extends_trans[OF _ extends_push[OF neutral_current(1)]])
qed

lemma extends_refresh_ids:
  "refresh_ids env ds t initial is s changed = (s', r) \<Longrightarrow>
   finds_single env ds \<Longrightarrow> extends env s s'"
proof (induction "is" arbitrary: s changed)
  case (Cons i "is")
  obtain s1 r1 where r1: "refresh_target env ds t initial i s = (s1, r1)" by fastforce
  have "extends env s s1" by (rule extends_refresh_target[OF r1 Cons.prems(2)])
  moreover have "extends env s1 s'"
    using Cons.prems(1) Cons.IH[OF _ Cons.prems(2)] by (cases r1) (auto simp: r1)
  ultimately show ?case by (rule session_extends_trans)
qed simp

lemma extends_refresh:
  assumes "refresh env ds now initial s = (s', r)"
    and "finds_single env ds"
  shows "extends env s s'"
proof -
  define ids where "ids = (case initial of Some i \<Rightarrow> [i] | None \<Rightarrow> sm_keys (session_targets s))"
  obtain s1 r1 where r1: "refresh_ids env ds (time_json env (Some now)) (initial \<noteq> None) ids s False = (s1, r1)"
    by fastforce
  have "s' = s1 \<or> s' = push (target_change ''NO_CHANGE'' [] [(''readTime'', time_json env (Some now))]) s1"
    using assms(1) r1 by (auto simp: refresh_def Let_def ids_def split: sum.splits if_splits)
  moreover have "extends env s s1" using extends_refresh_ids[OF r1 assms(2)] .
  ultimately show ?thesis by (auto intro: session_extends_trans[OF _ extends_push[OF neutral_current(2)]])
qed

text \<open>Adding a target starts its view afresh.\<close>

lemma extends_add:
  "extends env s (push (target_change ''ADD'' [i] [])
     (s\<lparr>session_targets := sm_put i \<lparr>spec = t, target_documents = []\<rparr> (session_targets s)\<rparr>))"
  unfolding extends_def
  by (rule exI[of _ "[target_change ''ADD'' [i] []]"])
     (auto simp: tracks_def apply_add view_shows_def same_json_def push_def Let_def)

lemma extends_remove:
  "extends env s (push (target_change ''REMOVE'' ids [])
     (s\<lparr>session_targets := sm_del i (session_targets s)\<rparr>))"
  unfolding extends_def
  by (rule exI[of _ "[target_change ''REMOVE'' ids []]"])
     (use neutral_current(3) in \<open>auto simp: tracks_def neutral_def push_def Let_def split: if_splits\<close>)

lemma web_commit_neutral:
  assumes "web_commit env st db v now = (st', fx, Inr result)"
  shows "neutral (jset ''streamToken'' x (jset ''streamId'' y result))"
proof -
  obtain ws t where "result = jobject [(''writeResults'', JArray ws), (''commitTime'', t)]"
    using assms by (auto simp: web_commit_def obind_def rbind_Inr_iff split: sum.splits prod.splits)
  then show ?thesis by (intro neutral_other) (simp_all add: jget_jset jget_jobject)
qed

lemma docs_ok_names: "docs_ok ds \<Longrightarrow> distinct (map doc_name (sm_values ds))"
proof -
  assume ok: "docs_ok ds"
  then have "map doc_name (sm_values ds) = map fst ds"
    by (auto simp: docs_ok_def sm_values_def in_sm_iff comp_def intro!: map_cong)
  then show ?thesis using ok by (simp add: docs_ok_def sm_wf_distinct)
qed

lemma distinct_single: "distinct (map doc_name ds) \<Longrightarrow> single_named ds"
  by (auto simp: single_named_def distinct_map dest: inj_onD)

lemma ordered_matches_distinct:
  "distinct (map doc_name stored) \<Longrightarrow> distinct (map doc_name (ordered_matches os stored parent q))"
proof -
  assume d: "distinct (map doc_name stored)"
  have "distinct (ordered_matches os stored parent q)"
    using d by (simp add: ordered_matches_def distinct_map)
  moreover have "set (ordered_matches os stored parent q) \<subseteq> set stored" by (auto simp: ordered_matches_def)
  then have "inj_on doc_name (set (ordered_matches os stored parent q))"
    using d by (auto simp: distinct_map intro: inj_on_subset)
  ultimately show ?thesis by (simp add: distinct_map)
qed

lemma query_docs_single: "query_docs stored parent q = Inr rs \<Longrightarrow> distinct (map doc_name stored) \<Longrightarrow> single_named rs"
proof -
  assume "query_docs stored parent q = Inr rs" and d: "distinct (map doc_name stored)"
  then obtain os where "rcollect (project (select q)) (take (query_limit q) (drop (nat (offset q))
      (ordered_matches os stored parent q))) = Inr rs"
    using query_docs_Inr by blast
  then have "map doc_name rs = take (query_limit q) (drop (nat (offset q)) (map doc_name (ordered_matches os stored parent q)))"
    by (simp add: rcollect_names take_map drop_map)
  then show ?thesis using ordered_matches_distinct[OF d] by (intro distinct_single) simp
qed

lemma docs_ok_single: "docs_ok ds \<Longrightarrow> finds_single env ds"
  unfolding finds_single_def
proof (intro allI impI)
  fix sp found
  assume ok: "docs_ok ds" and w: "web_docs env ds sp = Inr found"
  show "single_named found"
  proof (cases "jget ''query'' sp")
    case (Some q)
    then show ?thesis using w query_docs_single[OF _ docs_ok_names[OF ok]] by (auto simp: web_docs_def rbind_Inr_iff)
  next
    case None
    have "doc_name d = n" if "sm_get ds n = Some d" for n d using ok that by (simp add: docs_ok_def)
    then show ?thesis using w None by (auto simp: web_docs_def single_named_def map_filter_def)
  qed
qed

lemma extends_process:
  assumes "process env rpc sid now st s v = (st', fx, s', r)"
    and "rpc = ''Write'' \<or> finds_single env (documents st)"
  shows "extends env s s'" and "rpc = ''Write'' \<or> documents st' = documents st"
proof -
  show "rpc = ''Write'' \<or> documents st' = documents st"
    using assms(1) by (cases "rpc = ''Write''") (auto simp: process_def Let_def split: option.splits prod.splits)
  show "extends env s s'"
  proof (cases "rpc = ''Write''")
    case w: True
    show ?thesis
    proof (cases "write_ready s")
      case True
      obtain st1 fx1 r1 where c: "web_commit env st (database s) v now = (st1, fx1, r1)" by (metis prod_cases3)
      show ?thesis
      proof (cases r1)
        case (Inl e)
        then show ?thesis using assms(1) w True c by (simp add: process_def)
      next
        case (Inr result)
        then show ?thesis using assms(1) w True c extends_push[OF web_commit_neutral[of env st "database s" v now st1 fx1 result]]
          by (auto simp: process_def)
      qed
    next
      case False
      define s2 where "s2 = (case as_str (jindex v ''database'') of None \<Rightarrow> s\<lparr>write_ready := True\<rparr>
        | Some db \<Rightarrow> s\<lparr>write_ready := True\<rparr>\<lparr>database := db\<rparr>)"
      have "extends env s s2" by (rule extends_fields) (auto simp: s2_def split: option.split)
      moreover have "s' = push (jobject [(''streamId'', JString sid), (''streamToken'', JString (we_encode env ''0''))]) s2"
        using assms(1) w False by (simp add: process_def Let_def s2_def)
      moreover have "extends env s2 \<dots>" by (rule extends_push[OF neutral_other]) (simp_all add: jget_jobject)
      ultimately show ?thesis using session_extends_trans by blast
    qed
  next
    case w: False
    then have single: "finds_single env (documents st)" using assms(2) by simp
    show ?thesis
    proof (cases "jget ''addTarget'' v")
      case None
      then show ?thesis using assms(1) w by (auto simp: process_def intro: extends_remove split: option.splits)
    next
      case (Some t)
      show ?thesis
      proof (cases "as_i64 (jindex t ''targetId'')")
        case None
        then show ?thesis using assms(1) w Some by (simp add: process_def)
      next
        case (Some n)
        obtain s2 r2 where r: "refresh env (documents st) now (Some (as_i32 n)) (push (target_change ''ADD'' [as_i32 n] [])
            (s\<lparr>session_targets := sm_put (as_i32 n) \<lparr>spec = t, target_documents = []\<rparr> (session_targets s)\<rparr>)) = (s2, r2)"
          by fastforce
        then have "s' = s2" using assms(1) w \<open>jget ''addTarget'' v = Some t\<close> Some
          by (simp add: process_def Let_def)
        then show ?thesis using session_extends_trans[OF extends_add extends_refresh[OF r single]] by simp
      qed
    qed
  qed
qed

lemma extends_receive:
  assumes "receive env rpc sid now e (st, fx, s) = (st', fx', s')"
    and "rpc = ''Write'' \<or> finds_single env (documents st)"
  shows "extends env s s'" and "rpc = ''Write'' \<or> documents st' = documents st"
proof -
  obtain i v where e: "e = (i, v)" by (cases e)
  define s0 where "s0 = s\<lparr>received := i # received s\<rparr>"
  obtain st1 fx1 s1 r1 where p: "process env rpc sid now st s0 v = (st1, fx1, s1, r1)" by (metis prod_cases4)
  have s0: "extends env s s0" by (rule extends_fields) (simp_all add: s0_def)
  have "extends env s s1" using session_extends_trans[OF s0 extends_process(1)[OF p assms(2)]] .
  moreover have "s' = s \<or> s' = s1 \<or> (\<exists>x. s' = push (error_json x) s1)" "st' = st \<or> st' = st1"
    using assms(1) e p by (auto simp: receive_def s0_def split: if_splits sum.splits)
  ultimately show "extends env s s'" "rpc = ''Write'' \<or> documents st' = documents st"
    using extends_process(2)[OF p assms(2)]
    by (auto intro: session_extends_trans[OF _ extends_push[OF neutral_error]])
qed

lemma extends_receive_all:
  "receive_all env rpc sid now ms st s = (st', fx, s') \<Longrightarrow> finds_single env (documents st) \<Longrightarrow> extends env s s'"
proof -
  have "fold (receive env rpc sid now) ms (st, fx0, s) = (st', fx, s') \<Longrightarrow>
      rpc = ''Write'' \<or> finds_single env (documents st) \<Longrightarrow> extends env s s'" for fx0
  proof (induction ms arbitrary: st fx0 s)
    case (Cons e ms)
    obtain st1 fx1 s1 where r: "receive env rpc sid now e (st, fx0, s) = (st1, fx1, s1)" by (metis prod_cases3)
    have "rpc = ''Write'' \<or> finds_single env (documents st1)"
      using extends_receive(2)[OF r Cons.prems(2)] Cons.prems(2) by auto
    then have "extends env s1 s'" using Cons.IH[of st1 fx1 s1] Cons.prems(1) r by simp
    then show ?case using session_extends_trans[OF extends_receive(1)[OF r Cons.prems(2)]] by blast
  qed simp
  then show "receive_all env rpc sid now ms st s = (st', fx, s') \<Longrightarrow> finds_single env (documents st) \<Longrightarrow> extends env s s'"
    unfolding receive_all_def by blast
qed

subsection \<open>The stream a session has queued so far\<close>

definition stream_ok :: "web_env \<Rightarrow> nat \<Rightarrow> json list \<Rightarrow> session \<Rightarrow> bool" where
  "stream_ok env lo log s = (queue_of lo log s \<and> well_numbered log \<and> tracks env (target_view log) s)"

text \<open>The messages an operation queued, and all messages after it.\<close>

definition fresh_messages :: "session \<Rightarrow> session \<Rightarrow> json list" where
  "fresh_messages s s' = sm_values (sm_retain (\<lambda>n _. seq s < n) (messages s'))"

lemma target_view_entry: "target_view (log @ [entry n [v]]) = (\<lambda>i. apply_value i v (target_view log i))"
  by (simp add: target_view_def entry_def entry_values_def)

fun add_log :: "json list \<Rightarrow> json list \<Rightarrow> json list" where
  "add_log log [] = log"
| "add_log log (v # vs) = add_log (log @ [entry (Suc (length log)) [v]]) vs"

lemma push_all_queue:
  "queue_of lo log s \<Longrightarrow> well_numbered log \<Longrightarrow>
   queue_of lo (add_log log vs) (push_all vs s) \<and> well_numbered (add_log log vs)"
proof (induction vs arbitrary: log s)
  case (Cons v vs)
  then show ?case using Cons.IH[OF queue_push[OF Cons.prems(1)] well_numbered_snoc[OF Cons.prems(2)]] by simp
qed simp

lemma add_log_prefix: "\<exists>ys. add_log log vs = log @ ys"
proof (induction vs arbitrary: log)
  case (Cons v vs)
  from Cons.IH[of "log @ [entry (Suc (length log)) [v]]"] show ?case by auto
qed simp

lemma add_log_view: "target_view (add_log log vs) = apply_values vs (target_view log)"
  by (induction vs arbitrary: log) (simp_all add: target_view_entry)

lemma fresh_numbered:
  assumes "queue_of lo (log @ ys) s'" "seq s = length log" "lo \<le> length log"
  shows "fresh_messages s s' = ys"
proof -
  have "sm_retain (\<lambda>n _. length log < n) (numbered lo (log @ ys)) = numbered (length log) (log @ ys)"
    using numbered_retain[of "length log" "log @ ys" lo] assms(3) by simp
  moreover have "sm_values (numbered (length log) (log @ ys)) = ys"
    by (rule nth_equalityI) (simp_all add: numbered_def sm_values_def nth_append del: upt_Suc)
  ultimately show ?thesis using assms(1,2) by (simp add: fresh_messages_def queue_of_def)
qed

lemma stream_extends:
  assumes "stream_ok env lo log s" "extends env s s'"
  shows "stream_ok env lo (log @ fresh_messages s s') s'"
proof -
  obtain vs where vs: "seq s' = seq (push_all vs s)" "messages s' = messages (push_all vs s)"
      "tracks env (target_view log) s \<Longrightarrow> tracks env (apply_values vs (target_view log)) s'"
    using assms(2) unfolding extends_def by blast
  obtain ys where ys: "add_log log vs = log @ ys" using add_log_prefix by blast
  have q: "queue_of lo log s" "well_numbered log" "tracks env (target_view log) s"
    using assms(1) by (auto simp: stream_ok_def)
  have "queue_of lo (log @ ys) s'" "well_numbered (log @ ys)"
    using push_all_queue[OF q(1,2), of vs] vs(1,2) ys by (auto simp: queue_of_def)
  moreover have "tracks env (target_view (log @ ys)) s'" using vs(3) q(3) add_log_view[of log vs] ys by simp
  moreover have "fresh_messages s s' = ys"
    using fresh_numbered[OF \<open>queue_of lo (log @ ys) s'\<close>] q(1) by (simp add: queue_of_def)
  ultimately show ?thesis by (simp add: stream_ok_def)
qed

lemma stream_queued:
  assumes "stream_ok env lo log s" "aid \<le> length log" "queued cenv aid s = (s', r)"
  shows "stream_ok env (max lo aid) log s'"
proof -
  have "queue_of (max lo aid) log s'" "session_targets s' = session_targets s"
    using assms numbered_retain[of aid log lo] by (auto simp: stream_ok_def queued_def Let_def queue_of_def)
  then show ?thesis using assms(1) by (simp add: stream_ok_def tracks_def)
qed

subsection \<open>Runs of a channel\<close>

text \<open>
  A session, all messages it ever queued, and its client.  Between any two steps other clients may
  have changed the store.  A reply of a poll can be lost, and a poll may acknowledge less than the
  client has.
\<close>

inductive channel_step :: "channel_env \<Rightarrow> session \<times> json list \<times> client \<Rightarrow> session \<times> json list \<times> client \<Rightarrow> bool" for env where
  requests: "docs_ok (documents st) \<Longrightarrow>
    receive_all (ce_web env) rpc sid now ms st (s\<lparr>touched := t\<rparr>) = (st', fx, s') \<Longrightarrow>
    channel_step env (s, log, c) (s', log @ fresh_messages s s', c)"
| poll: "docs_ok ds \<Longrightarrow> aid \<le> acked c \<Longrightarrow> poll_pass env rpc aid now t ds s = (s', r) \<Longrightarrow>
    c' = c \<or> (\<exists>b. r = Inr (Some b) \<and> c' = read_body env b c) \<Longrightarrow>
    channel_step env (s, log, c) (s', log @ fresh_messages s s', c')"
| deadline: "aid \<le> acked c \<Longrightarrow> poll_deadline env aid s = (s', r) \<Longrightarrow>
    c' = c \<or> (\<exists>b. r = Some b \<and> c' = read_body env b c) \<Longrightarrow>
    channel_step env (s, log, c) (s', log @ fresh_messages s s', c')"

inductive channel_run :: "channel_env \<Rightarrow> session \<times> json list \<times> client \<Rightarrow> bool" for env where
  opened: "channel_run env (new_session t db, [], \<lparr>acked = 0, got = []\<rparr>)"
| step: "channel_run env x \<Longrightarrow> channel_step env x y \<Longrightarrow> channel_run env y"

definition channel_ok :: "channel_env \<Rightarrow> session \<times> json list \<times> client \<Rightarrow> bool" where
  "channel_ok env x = (case x of (s, log, c) \<Rightarrow>
     \<exists>lo. stream_ok (ce_web env) lo log s \<and> lo \<le> acked c \<and> acked c \<le> length log \<and> got c = take (acked c) log)"

lemma stream_ok_len: "stream_ok env lo log s \<Longrightarrow> lo \<le> length log \<and> well_numbered log"
  by (simp add: stream_ok_def queue_of_def)

text \<open>An answer brings the client up to date; without one it already is.\<close>

lemma answer_delivers:
  assumes codec: "\<And>v. ce_parse env (ce_text env v) = Some v"
    and "stream_ok (ce_web env) lo log s" "lo \<le> acked c" "acked c \<le> length log" "got c = take (acked c) log"
    and "aid \<le> acked c" "queued env aid s = (s', r)"
  shows "stream_ok (ce_web env) (max lo aid) log s'"
    and "r = Some b \<Longrightarrow> read_body env b c = \<lparr>acked = length log, got = log\<rparr>"
    and "r = None \<Longrightarrow> got c = log"
proof -
  have "queue_of lo log s" "well_numbered log" using assms(2) by (auto simp: stream_ok_def)
  note d = queued_delivers[OF codec this assms(3,6,4,7)]
  show "stream_ok (ce_web env) (max lo aid) log s'" using stream_queued[OF assms(2) _ assms(7)] assms(4,6) by simp
  show "r = Some b \<Longrightarrow> read_body env b c = \<lparr>acked = length log, got = log\<rparr>"
    using d(3) assms(5) by (cases c) simp
  show "r = None \<Longrightarrow> got c = log" using d(2) assms(5) by simp
qed

lemma poll_pass_extends:
  assumes "poll_pass env rpc aid now t ds s = (s', r)" "docs_ok ds"
  shows "\<exists>s2. extends (ce_web env) s s2 \<and>
    ((\<exists>e. r = Inl e \<and> s' = s2) \<or> (\<exists>b. r = Inr b \<and> queued env aid s2 = (s', b))) \<and>
    (rpc = ''Listen'' \<and> (\<exists>b. r = Inr b) \<longrightarrow> refresh (ce_web env) ds now None (s\<lparr>touched := t\<rparr>) = (s2, Inr ()))"
proof -
  define s1 where "s1 = s\<lparr>touched := t\<rparr>"
  have s1: "extends (ce_web env) s s1" by (rule extends_fields) (simp_all add: s1_def)
  obtain s2 r2 where r2: "(if rpc = ''Listen'' then refresh (ce_web env) ds now None s1 else (s1, Inr ())) = (s2, r2)"
    by fastforce
  have "extends (ce_web env) s1 s2"
    using r2 extends_refresh[OF _ docs_ok_single[OF assms(2)]] by (auto split: if_splits)
  then have "extends (ce_web env) s s2" by (rule session_extends_trans[OF s1])
  moreover have p: "(s', r) = (case r2 of Inl e \<Rightarrow> (s2, Inl e) | Inr _ \<Rightarrow> (case queued env aid s2 of (s3, b) \<Rightarrow> (s3, Inr b)))"
    using assms(1) r2 unfolding poll_pass_def Let_def s1_def[symmetric] by simp
  then have "(\<exists>e. r = Inl e \<and> s' = s2) \<or> (\<exists>b. r = Inr b \<and> queued env aid s2 = (s', b))"
    by (cases r2) (auto split: prod.splits)
  moreover have "refresh (ce_web env) ds now None s1 = (s2, Inr ())" if "rpc = ''Listen''" "\<exists>b. r = Inr b"
    using p r2 that by (cases r2) (auto split: prod.splits)
  ultimately show ?thesis unfolding s1_def by blast
qed

lemma deadline_extends:
  "poll_deadline env aid s = queued env aid (push (JString ''noop'') s)" "extends wenv s (push (JString ''noop'') s)"
  by (simp add: poll_deadline_def push_def Let_def)
     (rule extends_push[OF neutral_other], simp_all add: jget_def)

lemma fresh_queued:
  assumes "aid \<le> seq s" "queued env aid s2 = (s3, r)"
  shows "fresh_messages s s3 = fresh_messages s s2"
proof -
  have "messages s3 = filter (\<lambda>(n, v). aid < n) (messages s2)"
    using assms(2) by (auto simp: queued_def Let_def sm_retain_def)
  moreover have "filter (\<lambda>(n, v). seq s < n) (filter (\<lambda>(n, v). aid < n) m) = filter (\<lambda>(n, v). seq s < n) m"
    for m :: "(nat, json) smap"
    using assms(1) by (induction m) auto
  ultimately show ?thesis by (simp add: fresh_messages_def sm_retain_def)
qed

text \<open>The answer of a poll, or of its deadline, after an operation that took the session to \<open>s2\<close>.\<close>

lemma answer_keeps:
  assumes codec: "\<And>v. ce_parse env (ce_text env v) = Some v"
    and ok: "channel_ok env (s, log, c)" and x: "extends (ce_web env) s s2" and aid: "aid \<le> acked c"
    and q: "queued env aid s2 = (s', r)"
  shows "c' = c \<or> (\<exists>b. r = Some b \<and> c' = read_body env b c) \<Longrightarrow> channel_ok env (s', log @ fresh_messages s s', c')"
    and "r = Some b \<Longrightarrow> got (read_body env b c) = log @ fresh_messages s s'"
    and "r = None \<Longrightarrow> got c = log @ fresh_messages s s'"
proof -
  obtain lo where lo: "stream_ok (ce_web env) lo log s" "lo \<le> acked c" "acked c \<le> length log" "got c = take (acked c) log"
    using ok by (auto simp: channel_ok_def)
  let ?log = "log @ fresh_messages s s2"
  have s2: "stream_ok (ce_web env) lo ?log s2" by (rule stream_extends[OF lo(1) x])
  have f: "fresh_messages s s' = fresh_messages s s2"
    by (rule fresh_queued[OF _ q]) (use lo(1,3) aid in \<open>simp add: stream_ok_def queue_of_def\<close>)
  have c: "acked c \<le> length ?log" "got c = take (acked c) ?log" using lo(3,4) by simp_all
  note d = answer_delivers[OF codec s2 lo(2) c aid q]
  show "channel_ok env (s', log @ fresh_messages s s', c')" if "c' = c \<or> (\<exists>b. r = Some b \<and> c' = read_body env b c)"
  proof -
    have "max lo aid \<le> length ?log" using d(1) stream_ok_len by blast
    then show ?thesis using that d(1,2) lo(2) aid c unfolding channel_ok_def
      by (auto simp: f intro!: exI[of _ "max lo aid"])
  qed
  show "got (read_body env b c) = log @ fresh_messages s s'" if "r = Some b" using d(2) that f by simp
  show "got c = log @ fresh_messages s s'" if "r = None" using d(3) that f by simp
qed

lemma channel_ok_extends:
  assumes "channel_ok env (s, log, c)" "extends (ce_web env) s s'"
  shows "channel_ok env (s', log @ fresh_messages s s', c)"
proof -
  obtain lo where lo: "stream_ok (ce_web env) lo log s" "lo \<le> acked c" "acked c \<le> length log" "got c = take (acked c) log"
    using assms(1) by (auto simp: channel_ok_def)
  then show ?thesis using stream_extends[OF lo(1) assms(2)] by (auto simp: channel_ok_def intro!: exI[of _ lo])
qed

lemma channel_step_ok:
  assumes codec: "\<And>v. ce_parse env (ce_text env v) = Some v"
    and step: "channel_step env x y" and ok: "channel_ok env x"
  shows "channel_ok env y"
  using step ok
proof cases
  case (requests st rpc sid now ms t s st' fx s' log c)
  have "extends (ce_web env) s (s\<lparr>touched := t\<rparr>)" by (rule extends_fields) simp_all
  then have "extends (ce_web env) s s'"
    by (rule session_extends_trans[OF _ extends_receive_all[OF requests(4) docs_ok_single[OF requests(3)]]])
  then show ?thesis using channel_ok_extends ok unfolding requests(1,2) by blast
next
  case (poll ds aid c rpc now t s s' r c' log)
  obtain s2 where s2: "extends (ce_web env) s s2"
      "(\<exists>e. r = Inl e \<and> s' = s2) \<or> (\<exists>b. r = Inr b \<and> queued env aid s2 = (s', b))"
    using poll_pass_extends[OF poll(5) poll(3)] by blast
  from s2(2) show ?thesis
  proof
    assume e: "\<exists>e. r = Inl e \<and> s' = s2"
    then have "c' = c" using poll(6) by auto
    then show ?thesis using e channel_ok_extends[OF _ s2(1)] ok unfolding poll(1,2) by blast
  next
    assume "\<exists>b. r = Inr b \<and> queued env aid s2 = (s', b)"
    then obtain b where b: "r = Inr b" "queued env aid s2 = (s', b)" by blast
    show ?thesis unfolding poll(2)
      by (rule answer_keeps(1)[OF codec ok[unfolded poll(1)] s2(1) poll(4) b(2)]) (use poll(6) b(1) in auto)
  qed
next
  case (deadline aid c s s' r c' log)
  show ?thesis unfolding deadline(2)
    by (rule answer_keeps(1)[OF codec ok[unfolded deadline(1)] deadline_extends(2) deadline(3)
          deadline(4)[unfolded deadline_extends(1)] deadline(5)])
qed

lemma channel_run_ok:
  assumes codec: "\<And>v. ce_parse env (ce_text env v) = Some v"
  shows "channel_run env x \<Longrightarrow> channel_ok env x"
proof (induction rule: channel_run.induct)
  case (opened t db)
  have "tracks (ce_web env) (target_view []) (new_session t db)"
    by (simp add: tracks_def new_session_def target_view_def)
  then show ?case by (simp add: channel_ok_def stream_ok_def queue_of_def new_session_def numbered_def)
next
  case (step x y)
  then show ?case using channel_step_ok[OF codec] by blast
qed

subsection \<open>After a refresh the targets are current\<close>

definition current_target :: "web_env \<Rightarrow> documents \<Rightarrow> web_target \<Rightarrow> bool" where
  "current_target env ds t = (\<exists>found. web_docs env ds (spec t) = Inr found \<and> target_documents t = docs_by_name found)"

lemma refresh_target_current:
  assumes "refresh_target env ds rt initial i s = (s', Inr ch)" "sm_wf (session_targets s)"
  shows "sm_wf (session_targets s')"
    and "sm_get (session_targets s') j = Some t' \<Longrightarrow> \<exists>t. sm_get (session_targets s) j = Some t \<and> spec t' = spec t \<and>
      (if j = i then current_target env ds t' else t' = t)"
  using assms by (auto simp: refresh_target_def Let_def current_target_def split: option.splits sum.splits if_splits)

lemma refresh_ids_current:
  "refresh_ids env ds rt initial is s changed = (s', Inr ch) \<Longrightarrow> sm_wf (session_targets s) \<Longrightarrow>
   sm_get (session_targets s') j = Some t' \<Longrightarrow>
   \<exists>t. sm_get (session_targets s) j = Some t \<and> spec t' = spec t \<and>
     (j \<in> set is \<or> current_target env ds t \<longrightarrow> current_target env ds t')"
proof (induction "is" arbitrary: s changed)
  case (Cons i "is")
  obtain s1 r1 where r1: "refresh_target env ds rt initial i s = (s1, r1)" by fastforce
  then obtain c where c: "r1 = Inr c" using Cons.prems(1) by (cases r1) auto
  note s1 = refresh_target_current[OF r1[unfolded c] Cons.prems(2)]
  have rest: "refresh_ids env ds rt initial is s1 (changed \<or> c) = (s', Inr ch)" using Cons.prems(1) r1 c by simp
  obtain t1 where t1: "sm_get (session_targets s1) j = Some t1" "spec t' = spec t1"
      "j \<in> set is \<or> current_target env ds t1 \<Longrightarrow> current_target env ds t'"
    using Cons.IH[OF rest s1(1) Cons.prems(3)] by blast
  then show ?case using s1(2)[OF t1(1)] by (auto split: if_splits)
qed auto

lemma refresh_current:
  assumes "refresh env ds now None s = (s', Inr ())" "sm_wf (session_targets s)"
    and "sm_get (session_targets s') i = Some t'"
  shows "current_target env ds t'"
proof -
  obtain s1 ch where r: "refresh_ids env ds (time_json env (Some now)) False (sm_keys (session_targets s)) s False = (s1, Inr ch)"
      "session_targets s' = session_targets s1"
    using assms(1) by (auto simp: refresh_def Let_def split: sum.splits prod.splits if_splits)
  then obtain t where "sm_get (session_targets s) i = Some t" "i \<in> set (sm_keys (session_targets s)) \<Longrightarrow> current_target env ds t'"
    using refresh_ids_current[OF r(1) assms(2), of i t'] assms(3) by auto
  moreover have "i \<in> set (sm_keys (session_targets s))"
    using calculation(1) sm_get_in by (force simp: sm_keys_def)
  ultimately show ?thesis by blast
qed

subsection \<open>A sample channel\<close>

definition sample_web_env :: web_env where
  "sample_web_env = \<lparr>we_encode = id, we_decode = Some, we_time_text = (\<lambda>_. ''t''), we_time_parse = (\<lambda>_. None)\<rparr>"

definition sample_channel_env :: channel_env where
  "sample_channel_env = \<lparr>ce_web = sample_web_env, ce_text = json_text, ce_parse = json_parse\<rparr>"

lemma sample_codec: "ce_parse sample_channel_env (ce_text sample_channel_env v) = Some v"
  by (simp add: sample_channel_env_def)

lemma sample_web [simp]: "ce_web sample_channel_env = sample_web_env"
  by (simp add: sample_channel_env_def)

definition sample_spec :: json where
  "sample_spec = JObject [(''documents'', JObject [(''documents'', JArray [JString ''n''])]), (''targetId'', JInt 7)]"

definition sample_listen :: session where
  "sample_listen = push (target_change ''NO_CHANGE'' [] [(''readTime'', JString ''t'')])
     (push (target_change ''CURRENT'' [7] [(''readTime'', JString ''t'')])
     (push (target_change ''ADD'' [7] [])
       ((new_session 0 [])\<lparr>session_targets := [(7, \<lparr>spec = sample_spec, target_documents = []\<rparr>)], received := [0]\<rparr>)))"

lemma sample_docs: "web_docs sample_web_env ds sample_spec = Inr (List.map_filter (sm_get ds) [''n''])"
  by (simp add: web_docs_def sample_spec_def jget_def jindex_def json_array_def as_array_def json_strings_def as_str_def map_filter_def)

lemma as_i32_small: "as_i32 7 = 7" by (simp add: as_i32_def)

lemma sample_time [simp]: "time_json sample_web_env (Some t) = JString ''t''"
  by (simp add: time_json_def sample_web_env_def)

lemma sample_target_id: "as_i64 (jindex sample_spec ''targetId'') = Some 7"
  by (simp add: sample_spec_def jindex_def jget_def as_i64_def)

lemma sample_empty_refresh:
  assumes "sm_get (session_targets s) 7 = Some \<lparr>spec = sample_spec, target_documents = []\<rparr>" "sm_wf (session_targets s)"
  shows "refresh sample_web_env [] now (Some 7) s =
    (push (target_change ''NO_CHANGE'' [] [(''readTime'', JString ''t'')])
      (push (target_change ''CURRENT'' [7] [(''readTime'', JString ''t'')]) s), Inr ())"
  using assms by (simp add: refresh_def refresh_target_def sample_docs target_messages_def docs_by_name_def
      sm_of_list_def map_filter_def sm_keys_def Let_def)

lemma sample_process:
  "process sample_web_env ''Listen'' ''s'' now empty_store ((new_session 0 [])\<lparr>received := [0]\<rparr>) (JObject [(''addTarget'', sample_spec)]) =
    (empty_store, [], sample_listen, Inr ())"
proof -
  let ?s = "push (target_change ''ADD'' [7] []) ((new_session 0 [])\<lparr>received := [0],
      session_targets := [(7, \<lparr>spec = sample_spec, target_documents = []\<rparr>)]\<rparr>)"
  have "refresh sample_web_env [] now (Some 7) ?s =
    (push (target_change ''NO_CHANGE'' [] [(''readTime'', JString ''t'')])
      (push (target_change ''CURRENT'' [7] [(''readTime'', JString ''t'')]) ?s), Inr ())"
    by (rule sample_empty_refresh) simp_all
  then show ?thesis
    by (simp add: process_def jget_def sample_target_id as_i32_small Let_def new_session_def sample_listen_def empty_store_def)
qed

lemma sample_listen_run:
  "channel_run sample_channel_env (sample_listen, fresh_messages (new_session 0 []) sample_listen, \<lparr>acked = 0, got = []\<rparr>)"
proof -
  have r: "receive_all sample_web_env ''Listen'' ''s'' (Timestamp 0 0) [(0, JObject [(''addTarget'', sample_spec)])]
      empty_store ((new_session 0 [])\<lparr>touched := 0\<rparr>) = (empty_store, [], sample_listen)"
    using sample_process[of "Timestamp 0 0"] by (simp add: receive_all_def receive_def new_session_def)
  have "channel_step sample_channel_env (new_session 0 [], [], \<lparr>acked = 0, got = []\<rparr>)
      (sample_listen, [] @ fresh_messages (new_session 0 []) sample_listen, \<lparr>acked = 0, got = []\<rparr>)"
    by (rule channel_step.requests[of empty_store, OF _ r[folded sample_web]])
       (simp add: docs_ok_def empty_store_def)
  then show ?thesis using channel_run.step[OF channel_run.opened] by simp
qed

text \<open>The channel answers a poll after the document was created.\<close>

definition sample_doc :: document where
  "sample_doc = \<lparr>doc_name = ''n'', doc_fields = [], create_time = None, update_time = None\<rparr>"

lemma sample_docs_ok: "docs_ok [(''n'', sample_doc)]"
  by (simp add: docs_ok_def sample_doc_def fields_wf_def)

lemma sample_listen_targets: "session_targets sample_listen = [(7, \<lparr>spec = sample_spec, target_documents = []\<rparr>)]"
  by (simp add: sample_listen_def)

lemma sample_poll:
  obtains s' answer tg where
    "poll_pass sample_channel_env ''Listen'' 0 (Timestamp 0 0) 0 [(''n'', sample_doc)] sample_listen = (s', Inr answer)"
    "sm_get (session_targets s') 7 = Some tg" "spec tg = sample_spec"
proof -
  obtain s2 where s2: "refresh sample_web_env [(''n'', sample_doc)] (Timestamp 0 0) None (sample_listen\<lparr>touched := 0\<rparr>) = (s2, Inr ())"
      "session_targets s2 = [(7, \<lparr>spec = sample_spec, target_documents = [(''n'', sample_doc)]\<rparr>)]"
    by (simp add: refresh_def refresh_target_def sample_docs sample_listen_targets sm_keys_def Let_def
      docs_by_name_def sm_of_list_def map_filter_def sample_doc_def)
  obtain s3 b where q: "queued sample_channel_env 0 s2 = (s3, b)" by fastforce
  then have "session_targets s3 = session_targets s2" by (auto simp: queued_def Let_def)
  then show thesis using that[of s3 b] s2 q by (simp add: poll_pass_def Let_def)
qed

subsection \<open>Properties\<close>

text \<open>
  Property C34.  The browser channel delivers every message exactly once and in order: in every
  run, with lost replies, repeated polls and repeated acknowledgements, the client holds the first
  messages ever queued, as many as it acknowledges; a poll that is answered brings it everything queued
  until then, and a poll that has to wait finds it up to date.
\<close>

theorem channel_delivers_in_order:
  assumes codec: "\<And>v. ce_parse env (ce_text env v) = Some v"
    and run: "channel_run env (s, log, c)"
    and poll: "docs_ok ds" "aid \<le> acked c" "poll_pass env rpc aid now t ds s = (s', Inr answer)"
  shows "got c = take (acked c) log \<and> acked c \<le> length log \<and> well_numbered log \<and>
    got (case answer of None \<Rightarrow> c | Some b \<Rightarrow> read_body env b c) = log @ fresh_messages s s'"
proof -
  have ok: "channel_ok env (s, log, c)" by (rule channel_run_ok[OF codec run])
  obtain s2 where s2: "extends (ce_web env) s s2" "queued env aid s2 = (s', answer)"
    using poll_pass_extends[OF poll(3,1)] by blast
  note d = answer_keeps(2,3)[OF codec ok s2(1) poll(2) s2(2)]
  have "got (case answer of None \<Rightarrow> c | Some b \<Rightarrow> read_body env b c) = log @ fresh_messages s s'"
    using d by (cases answer) auto
  then show ?thesis using ok by (auto simp: channel_ok_def stream_ok_def)
qed

lemma channel_delivers_in_order_witness:
  "\<exists>s' answer. poll_pass sample_channel_env ''Listen'' 0 (Timestamp 0 0) 0 [(''n'', sample_doc)] sample_listen = (s', Inr answer) \<and>
     got (case answer of None \<Rightarrow> \<lparr>acked = 0, got = []\<rparr> | Some b \<Rightarrow> read_body sample_channel_env b \<lparr>acked = 0, got = []\<rparr>) =
       fresh_messages (new_session 0 []) sample_listen @ fresh_messages sample_listen s'"
proof -
  obtain s' answer where p: "poll_pass sample_channel_env ''Listen'' 0 (Timestamp 0 0) 0 [(''n'', sample_doc)] sample_listen = (s', Inr answer)"
    by (rule sample_poll)
  show ?thesis using channel_delivers_in_order[OF sample_codec sample_listen_run sample_docs_ok _ p] p by auto
qed



subsection \<open>A rejected target\<close>

lemma refresh_ids_error:
  "i \<in> set is \<Longrightarrow> sm_wf (session_targets s) \<Longrightarrow> sm_get (session_targets s) i = Some t \<Longrightarrow> web_docs env ds (spec t) = Inl e \<Longrightarrow>
   \<exists>s' e'. refresh_ids env ds rt initial is s changed = (s', Inl e')"
proof (induction "is" arbitrary: s changed t)
  case (Cons j "is")
  obtain s1 r1 where r1: "refresh_target env ds rt initial j s = (s1, r1)" by fastforce
  show ?case
  proof (cases r1)
    case (Inl e')
    then show ?thesis using r1 by simp
  next
    case (Inr c)
    note tc = refresh_target_current[OF r1[unfolded Inr] Cons.prems(2)]
    have "j \<noteq> i" using r1 Inr Cons.prems(3,4) by (auto simp: refresh_target_def)
    moreover have "sm_get (session_targets s1) i = Some t"
      using r1 Inr calculation Cons.prems(2,3) by (auto simp: refresh_target_def Let_def split: option.splits sum.splits if_splits)
    ultimately show ?thesis using Cons.IH[OF _ tc(1) _ Cons.prems(4)] Cons.prems(1) r1 Inr by simp
  qed
qed simp

lemma poll_rejected:
  assumes "sm_wf (session_targets s)" "sm_get (session_targets s) i = Some t" "\<And>ds. \<exists>e. web_docs (ce_web env) ds (spec t) = Inl e"
  shows "\<exists>s' e. poll_pass env ''Listen'' aid now ms ds s = (s', Inl e)"
proof -
  obtain e where e: "web_docs (ce_web env) ds (spec t) = Inl e" using assms(3) by blast
  have "i \<in> set (sm_keys (session_targets s))" using assms(2) sm_get_in by (force simp: sm_keys_def)
  then obtain s' e' where "refresh_ids (ce_web env) ds (time_json (ce_web env) (Some now)) False
      (sm_keys (session_targets s)) (s\<lparr>touched := ms\<rparr>) False = (s', Inl e')"
    using refresh_ids_error[of i _ "s\<lparr>touched := ms\<rparr>"] assms(1,2) e by fastforce
  then show ?thesis by (simp add: poll_pass_def refresh_def Let_def)
qed

text \<open>
  A target whose query cannot be decoded is reported as an error in the queue, but it stays in the
  table, and every later poll of the session fails on it before the queue is read: the error is
  never delivered.
\<close>

lemma rejected_target_blocks_channel:
  assumes "jget ''addTarget'' v = Some t" "as_i64 (jindex t ''targetId'') = Some n"
    and "jget ''query'' t = Some q" "query_proto (ce_web env) (jindex q ''structuredQuery'') = Inl e"
    and "sm_wf (session_targets s)" "process (ce_web env) ''Listen'' sid now st s v = (st', fx, s', r)"
  shows "r = Inl e \<and> (\<forall>aid now ms ds. \<exists>s'' e'. poll_pass env ''Listen'' aid now ms ds (push (error_json e) s') = (s'', Inl e'))"
proof -
  have w: "web_docs (ce_web env) ds t = Inl e" for ds using assms(3,4) by (simp add: web_docs_def)
  have "r = Inl e" "session_targets s' = sm_put (as_i32 n) \<lparr>spec = t, target_documents = []\<rparr> (session_targets s)"
    using assms(1,2,5,6) by (auto simp: process_def Let_def refresh_def refresh_target_def w)
  then show ?thesis using assms(5) w by (auto intro!: poll_rejected[of _ "as_i32 n"])
qed

subsection \<open>Repeated requests\<close>

lemma refresh_received: "refresh env ds now initial s = (s', r) \<Longrightarrow> received s' = received s"
proof -
  have target: "received (fst (refresh_target env ds rt ini i s)) = received s" for rt ini i s
    by (auto simp: refresh_target_def Let_def split: option.split sum.split)
  have ids: "received (fst (refresh_ids env ds rt ini is s ch)) = received s" for rt ini "is" s ch
  proof (induction "is" arbitrary: s ch)
    case (Cons i "is")
    then show ?case using target[of rt ini i s] by (auto split: prod.split sum.split)
  qed simp
  assume "refresh env ds now initial s = (s', r)"
  then show ?thesis
    using ids[of "time_json env (Some now)" "initial \<noteq> None" "case initial of Some i \<Rightarrow> [i] | None \<Rightarrow> sm_keys (session_targets s)" s False]
    by (auto simp: refresh_def Let_def split: prod.splits sum.splits if_splits)
qed

lemma process_received: "process env rpc sid now st s v = (st', fx, s', r) \<Longrightarrow> received s' = received s"
  by (auto simp: process_def Let_def refresh_received split: if_splits prod.splits option.splits sum.splits
      dest!: refresh_received)

lemma receive_known [simp]: "i \<in> set (received s) \<Longrightarrow> receive env rpc sid now (i, v) (st, fx, s) = (st, fx, s)"
  by (simp add: receive_def)

lemma receive_received:
  "receive env rpc sid now (i, v) (st, fx, s) = (st', fx', s') \<Longrightarrow> set (received s') = insert i (set (received s))"
  by (auto simp: receive_def split: if_splits prod.splits sum.splits dest!: process_received)

lemma fold_received:
  "fold (receive env rpc sid now) ms (st, fx, s) = (st', fx', s') \<Longrightarrow> set (received s') = fst ` set ms \<union> set (received s)"
proof (induction ms arbitrary: st fx s)
  case (Cons m ms)
  obtain i v where m: "m = (i, v)" by (cases m)
  obtain st1 fx1 s1 where r: "receive env rpc sid now (i, v) (st, fx, s) = (st1, fx1, s1)" by (metis prod_cases3)
  show ?case using Cons.IH[of st1 fx1 s1] Cons.prems receive_received[OF r] m r by auto
qed simp

lemma receive_all_known: "fst ` set ms \<subseteq> set (received s) \<Longrightarrow> receive_all env rpc sid now ms st s = (st, [], s)"
proof -
  have "fst ` set ms \<subseteq> set (received s) \<Longrightarrow> fold (receive env rpc sid now) ms (st, fx, s) = (st, fx, s)" for fx
    by (induction ms) auto
  then show "fst ` set ms \<subseteq> set (received s) \<Longrightarrow> receive_all env rpc sid now ms st s = (st, [], s)"
    by (simp add: receive_all_def)
qed

text \<open>
  A request that the browser sends again, because its reply was lost, is not
  applied again: the second POST of the same form changes neither the store nor the targets nor the
  queue, emits nothing and gives the same reply.
\<close>

theorem retried_post_ignored:
  assumes "channel_post env rpc False sid now ms body st s = (st', fx, s', Inr reply)"
  shows "channel_post env rpc False sid later later_ms body st'' s' = (st'', [], s'\<lparr>touched := later_ms\<rparr>, Inr reply)"
proof -
  obtain rs where rs: "form_messages env body = Inr rs"
      "receive_all (ce_web env) rpc sid now rs st (s\<lparr>touched := ms\<rparr>) = (st', fx, s')" "reply = post_reply env False sid s'"
    using assms by (auto simp: channel_post_def split: sum.splits prod.splits)
  have "fst ` set rs \<subseteq> set (received (s'\<lparr>touched := later_ms\<rparr>))"
    using fold_received[OF rs(2)[unfolded receive_all_def]] by auto
  then show ?thesis by (simp add: channel_post_def rs(1,3) receive_all_known post_reply_def)
qed

lemma sample_form: "form_messages sample_channel_env ''req0___data__=n'' = Inr [(0, JNull)]"
  by (simp add: form_messages_def split_on.simps decode_form_component_def request_entry_def strip_suffix_def parse_unsigned_def
      is_digit_def nat_of_digits_def digit_val_def sample_channel_env_def json_parse_def guard_def)

lemma retried_post_ignored_witness:
  "\<exists>s' reply. channel_post sample_channel_env ''Write'' False ''s'' (Timestamp 0 0) 0 ''req0___data__=n'' empty_store (new_session 0 []) =
      (empty_store, [], s', Inr reply) \<and> seq s' = 1 \<and>
    channel_post sample_channel_env ''Write'' False ''s'' (Timestamp 5 0) 9 ''req0___data__=n'' empty_store s' =
      (empty_store, [], s'\<lparr>touched := 9\<rparr>, Inr reply)"
proof -
  obtain s' reply where p: "channel_post sample_channel_env ''Write'' False ''s'' (Timestamp 0 0) 0 ''req0___data__=n'' empty_store (new_session 0 []) =
      (empty_store, [], s', Inr reply)" "seq s' = 1"
    by (simp add: channel_post_def sample_form receive_all_def receive_def process_def new_session_def Let_def push_def
        jindex_def jget_def as_str_def)
  then show ?thesis using retried_post_ignored[OF p(1)] by auto
qed

end
