(* ===== verification/Functions_Dispatch.thy ===== *)
theory Functions_Dispatch
  imports Web_Json Firestore_Persistent Storage_Durable
begin

text \<open>
  The dispatch of events to the Node workers in \<open>src/src/functions.rs\<close>: which functions an event of
  Firestore, Storage, Pub/Sub or the scheduler calls, with which payload, what the durable outbox
  stores of an event and how it is read back, and the route of an HTTP function.  The workers' replies are
  given by the environment, which sees the number of calls made so far.
\<close>

subsection \<open>Data\<close>

record trigger_function =
  function_name :: string
  regions :: "string list"
  trigger :: json

record fworker =
  codebase :: string
  base_url :: string
  worker_functions :: "trigger_function list"

record runtime =
  project_id :: string
  workers :: "fworker list"

datatype event_source =
    FirestoreEvent "document option" "document option"
  | StorageEvent string json
  | PubSubEvent string json
  | ScheduleEvent string

record queued_event =
  event_source :: event_source
  event_id :: nat

record call =
  call_url :: string
  call_payload :: json

datatype http_reply = HttpSuccess | HttpFailure string | HttpError string

type_synonym replies = "nat \<Rightarrow> call \<Rightarrow> http_reply"

text \<open>\<open>as_str().unwrap_or\<close> on a key.\<close>

definition str_or :: "string \<Rightarrow> json \<Rightarrow> string \<Rightarrow> string" where
  "str_or d v k = (case as_str (jindex v k) of None \<Rightarrow> d | Some s \<Rightarrow> s)"

subsection \<open>Calls\<close>

definition event_call :: "fworker \<Rightarrow> string \<Rightarrow> json \<Rightarrow> json \<Rightarrow> call" where
  "event_call w name data ctx =
     \<lparr>call_url = base_url w @ ''/__/events'',
      call_payload = jobject [(''name'', JString name), (''event'', jobject [(''data'', data), (''context'', ctx)])]\<rparr>"

definition post_result :: "fworker \<Rightarrow> string \<Rightarrow> http_reply \<Rightarrow> string + unit" where
  "post_result w name r =
     (case r of
        HttpSuccess \<Rightarrow> Inr ()
      | HttpFailure body \<Rightarrow> Inl (codebase w @ ''/'' @ name @ '': '' @ body)
      | HttpError e \<Rightarrow> Inl (codebase w @ ''/'' @ name @ '': '' @ e))"

text \<open>The nested loops over workers and functions; \<open>None\<close> is the loop's \<open>continue\<close>.\<close>

definition visit_function ::
  "replies \<Rightarrow> (trigger_function \<Rightarrow> (json \<times> json) option) \<Rightarrow> fworker \<Rightarrow> trigger_function \<Rightarrow>
   call list \<times> string list \<Rightarrow> call list \<times> string list" where
  "visit_function reply pick w f = (\<lambda>(calls, errs).
     case pick f of
       None \<Rightarrow> (calls, errs)
     | Some (data, ctx) \<Rightarrow>
         let c = event_call w (function_name f) data ctx in
         (calls @ [c],
          case post_result w (function_name f) (reply (length calls) c) of Inl e \<Rightarrow> errs @ [e] | Inr _ \<Rightarrow> errs))"

definition dispatch_loop ::
  "replies \<Rightarrow> (trigger_function \<Rightarrow> (json \<times> json) option) \<Rightarrow> fworker list \<Rightarrow> call list \<times> string list" where
  "dispatch_loop reply pick ws =
     fold (\<lambda>w st. fold (visit_function reply pick w) (worker_functions w) st) ws ([], [])"

definition dispatch_result :: "call list \<times> string list \<Rightarrow> call list \<times> (string + unit)" where
  "dispatch_result r = (fst r, if snd r = [] then Inr () else Inl (join_with ''; '' (snd r)))"

subsection \<open>Firestore\<close>

fun match_segments :: "(string \<times> string) list \<Rightarrow> (string, json) smap \<Rightarrow> (string, json) smap option" where
  "match_segments [] params = Some params"
| "match_segments ((a, b) # ps) params =
     (if starts_with ''{'' a \<and> ends_with ''}'' a \<and> length a > 2
      then match_segments ps (sm_put (butlast (tl a)) (JString b) params)
      else if a \<noteq> b then None
      else match_segments ps params)"

definition wildcard_params :: "string \<Rightarrow> string \<Rightarrow> json option" where
  "wildcard_params pattern path =
     (let ps = split_on (CHR ''/'') pattern; xs = split_on (CHR ''/'') path in
      if length ps \<noteq> length xs then None else map_option JObject (match_segments (zip ps xs) []))"

definition event_kind :: "bool \<Rightarrow> bool \<Rightarrow> string" where
  "event_kind old new = (if \<not> old \<and> new then ''create'' else if old \<and> \<not> new then ''delete'' else ''update'')"

text \<open>\<open>split(separator).nth(1)\<close>.\<close>

definition second_part :: "string \<Rightarrow> string \<Rightarrow> string option" where
  "second_part separator s =
     (case split_once separator s of
        None \<Rightarrow> None
      | Some (_, r) \<Rightarrow> Some (case split_once separator r of None \<Rightarrow> r | Some (a, _) \<Rightarrow> a))"

definition event_trigger :: "trigger_function \<Rightarrow> json" where
  "event_trigger f = jindex (trigger f) ''eventTrigger''"

definition firestore_params :: "string \<Rightarrow> string \<Rightarrow> trigger_function \<Rightarrow> json option" where
  "firestore_params kind path f =
     (let ty = str_or [] (event_trigger f) ''eventType'' in
      if \<not> starts_with ''providers/cloud.firestore/eventTypes/document.'' ty then None
      else if \<not> ends_with ''.write'' ty \<and> \<not> ends_with (''.'' @ kind) ty then None
      else Option.bind (second_part ''/documents/'' (str_or [] (event_trigger f) ''resource''))
             (\<lambda>pattern. wildcard_params pattern path))"

definition event_name :: "nat \<Rightarrow> json" where
  "event_name i = JString (''rust-'' @ show_nat i)"

definition firestore_data :: "web_env \<Rightarrow> document option \<Rightarrow> document option \<Rightarrow> json" where
  "firestore_data env old new =
     (let show = (\<lambda>d. case d of None \<Rightarrow> jobject [] | Some x \<Rightarrow> document_json env x) in
      jobject [(''oldValue'', show old), (''value'', show new)])"

definition firestore_context :: "web_env \<Rightarrow> nat \<Rightarrow> document \<Rightarrow> trigger_function \<Rightarrow> json \<Rightarrow> json" where
  "firestore_context env i d f params = jobject
     [(''eventId'', event_name i), (''timestamp'', jindex (document_json env d) ''updateTime''),
      (''eventType'', JString (str_or [] (event_trigger f) ''eventType'')),
      (''resource'', jobject [(''service'', JString ''firestore.googleapis.com''), (''name'', JString (doc_name d))]),
      (''params'', params)]"

definition documents_prefix :: "runtime \<Rightarrow> string" where
  "documents_prefix rt = ''projects/'' @ project_id rt @ ''/databases/(default)/documents/''"

text \<open>\<open>None\<close> is the panic of an event without a document.\<close>

definition dispatch_firestore ::
  "web_env \<Rightarrow> replies \<Rightarrow> runtime \<Rightarrow> nat \<Rightarrow> document option \<Rightarrow> document option \<Rightarrow> (call list \<times> (string + unit)) option" where
  "dispatch_firestore env reply rt i old new =
     (case (case new of Some d \<Rightarrow> Some d | None \<Rightarrow> old) of
        None \<Rightarrow> None
      | Some d \<Rightarrow> Some
         (case strip_prefix (documents_prefix rt) (doc_name d) of
            None \<Rightarrow> ([], Inr ())
          | Some path \<Rightarrow>
              let kind = event_kind (old \<noteq> None) (new \<noteq> None) in
              dispatch_result (dispatch_loop reply
                (\<lambda>f. map_option (\<lambda>ps. (firestore_data env old new, firestore_context env i d f ps))
                       (firestore_params kind path f)) (workers rt))))"

subsection \<open>Storage\<close>

definition storage_matches :: "string \<Rightarrow> string \<Rightarrow> trigger_function \<Rightarrow> bool" where
  "storage_matches kind bucket f =
     (as_str (jindex (event_trigger f) ''eventType'') = Some (''google.storage.object.'' @ kind) \<and>
      (let configured = (case Option.bind (as_str (jindex (event_trigger f) ''resource'')) (second_part ''/buckets/'') of
                           None \<Rightarrow> [] | Some b \<Rightarrow> b)
       in configured = [] \<or> configured = ''{bucket}'' \<or> configured = bucket))"

definition storage_context :: "nat \<Rightarrow> string \<Rightarrow> json \<Rightarrow> json" where
  "storage_context i kind ob = jobject
     [(''eventId'', event_name i), (''timestamp'', JString (str_or ''1970-01-01T00:00:00Z'' ob ''updated'')),
      (''eventType'', JString (''google.storage.object.'' @ kind)),
      (''resource'', jobject [(''service'', JString ''storage.googleapis.com''),
         (''name'', JString (''projects/_/buckets/'' @ str_or [] ob ''bucket'' @ ''/objects/'' @ str_or [] ob ''name''))]),
      (''params'', jobject [])]"

definition dispatch_storage :: "replies \<Rightarrow> runtime \<Rightarrow> nat \<Rightarrow> string \<Rightarrow> json \<Rightarrow> call list \<times> (string + unit)" where
  "dispatch_storage reply rt i kind ob =
     dispatch_result (dispatch_loop reply
       (\<lambda>f. if storage_matches kind (str_or [] ob ''bucket'') f then Some (ob, storage_context i kind ob) else None) (workers rt))"

subsection \<open>Pub/Sub and the scheduler\<close>

definition last_part :: "string \<Rightarrow> string" where
  "last_part s = last (split_on (CHR ''/'') s)"

definition pubsub_matches :: "string \<Rightarrow> trigger_function \<Rightarrow> bool" where
  "pubsub_matches topic f =
     (as_str (jindex (event_trigger f) ''eventType'') = Some ''google.pubsub.topic.publish'' \<and>
      jget ''schedule'' (trigger f) = None \<and>
      map_option last_part (as_str (jindex (event_trigger f) ''resource'')) = Some topic)"

definition pubsub_context :: "json \<Rightarrow> json \<Rightarrow> string \<Rightarrow> string \<Rightarrow> json" where
  "pubsub_context eid time ty name = jobject
     [(''eventId'', eid), (''timestamp'', time), (''eventType'', JString ty),
      (''resource'', jobject [(''service'', JString ''pubsub.googleapis.com''), (''name'', JString name)]),
      (''params'', jobject [])]"

definition dispatch_pubsub :: "replies \<Rightarrow> runtime \<Rightarrow> nat \<Rightarrow> string \<Rightarrow> json \<Rightarrow> call list \<times> (string + unit)" where
  "dispatch_pubsub reply rt i topic m =
     dispatch_result (dispatch_loop reply
       (\<lambda>f. if pubsub_matches topic f
            then Some (m, pubsub_context (event_name i) (jindex m ''publishTime'') ''google.pubsub.topic.publish''
                   (''projects/'' @ project_id rt @ ''/topics/'' @ topic))
            else None) (workers rt))"

text \<open>The call of one trigger function for a message pulled from its subscription.\<close>

definition pubsub_function_call :: "fworker \<Rightarrow> trigger_function \<Rightarrow> json \<Rightarrow> call" where
  "pubsub_function_call w f m =
     event_call w (function_name f) m
       (pubsub_context (jindex m ''messageId'') (jindex m ''publishTime'')
          (str_or ''google.pubsub.topic.publish'' (event_trigger f) ''eventType'') (str_or [] (event_trigger f) ''resource''))"

definition pubsub_trigger_topic :: "trigger_function \<Rightarrow> string option" where
  "pubsub_trigger_topic f =
     (case jget ''eventTrigger'' (trigger f) of None \<Rightarrow> None | Some e \<Rightarrow>
     (case Option.bind (jget ''eventType'' e) as_str of None \<Rightarrow> None | Some ty \<Rightarrow>
        if ty \<noteq> ''google.pubsub.topic.publish'' \<or> jget ''schedule'' (trigger f) \<noteq> None then None
        else map_option last_part (Option.bind (jget ''resource'' e) as_str)))"

definition scheduled :: "string \<Rightarrow> trigger_function \<Rightarrow> bool" where
  "scheduled name f = (function_name f = name \<and> jget ''schedule'' (trigger f) \<noteq> None)"

fun find_function :: "(trigger_function \<Rightarrow> bool) \<Rightarrow> fworker list \<Rightarrow> (fworker \<times> trigger_function) option" where
  "find_function P [] = None"
| "find_function P (w # ws) =
     (case List.find P (worker_functions w) of Some f \<Rightarrow> Some (w, f) | None \<Rightarrow> find_function P ws)"

definition dispatch_schedule :: "replies \<Rightarrow> string \<Rightarrow> runtime \<Rightarrow> nat \<Rightarrow> string \<Rightarrow> call list \<times> (string + unit)" where
  "dispatch_schedule reply time rt i name =
     (case find_function (scheduled name) (workers rt) of
        None \<Rightarrow> ([], Inl (''Unknown scheduled function: '' @ name))
      | Some (w, f) \<Rightarrow>
          let m = jobject [(''data'', JString ''e30=''), (''attributes'', jobject []), (''messageId'', event_name i),
                           (''publishTime'', JString time)];
              c = event_call w (function_name f) m
                (pubsub_context (event_name i) (JString time)
                   (str_or ''google.pubsub.topic.publish'' (event_trigger f) ''eventType'')
                   (''projects/'' @ project_id rt @ ''/topics''))
          in ([c], post_result w (function_name f) (reply 0 c)))"

definition dispatch ::
  "web_env \<Rightarrow> replies \<Rightarrow> string \<Rightarrow> runtime \<Rightarrow> queued_event \<Rightarrow> (call list \<times> (string + unit)) option" where
  "dispatch env reply time rt e =
     (case event_source e of
        FirestoreEvent old new \<Rightarrow> dispatch_firestore env reply rt (event_id e) old new
      | StorageEvent kind ob \<Rightarrow> Some (dispatch_storage reply rt (event_id e) kind ob)
      | PubSubEvent topic m \<Rightarrow> Some (dispatch_pubsub reply rt (event_id e) topic m)
      | ScheduleEvent f \<Rightarrow> Some (dispatch_schedule reply time rt (event_id e) f))"

end
