(* ===== verification/Functions_Events.thy ===== *)
theory Functions_Events
  imports Functions_Dispatch Json_Text
begin

text \<open>
  Which functions an event reaches: the calls of a dispatch are fixed by the triggers alone and do not
  depend on the replies, wildcards bind the segments they stand for, and the durable outbox gives
  back the event that was put in.
\<close>

subsection \<open>The loop over the functions\<close>

definition planned_calls :: "(trigger_function \<Rightarrow> (json \<times> json) option) \<Rightarrow> fworker list \<Rightarrow> call list" where
  "planned_calls pick ws =
     concat (map (\<lambda>w. List.map_filter
       (\<lambda>f. map_option (\<lambda>(data, ctx). event_call w (function_name f) data ctx) (pick f)) (worker_functions w)) ws)"

definition all_succeed :: "replies \<Rightarrow> call list \<Rightarrow> bool" where
  "all_succeed reply calls = (\<forall>k < length calls. reply k (calls ! k) = HttpSuccess)"

lemma all_succeed_snoc: "all_succeed reply (calls @ [c]) \<longleftrightarrow> all_succeed reply calls \<and> reply (length calls) c = HttpSuccess"
  by (auto simp: all_succeed_def nth_append less_Suc_eq)

lemma post_result_Inr: "post_result w n r = Inr u \<longleftrightarrow> r = HttpSuccess"
  by (cases r) (simp_all add: post_result_def)

lemma visit_functions:
  "(snd st = [] \<longleftrightarrow> all_succeed reply (fst st)) \<Longrightarrow>
   fst (fold (visit_function reply pick w) fs st) = fst st @ List.map_filter
     (\<lambda>f. map_option (\<lambda>(data, ctx). event_call w (function_name f) data ctx) (pick f)) fs \<and>
   (snd (fold (visit_function reply pick w) fs st) = [] \<longleftrightarrow> all_succeed reply (fst (fold (visit_function reply pick w) fs st)))"
proof (induction fs arbitrary: st)
  case (Cons f fs)
  obtain calls errs where st: "st = (calls, errs)" by (cases st)
  show ?case
  proof (cases "pick f")
    case None
    then show ?thesis using Cons by (simp add: st visit_function_def map_filter_simps)
  next
    case (Some p)
    obtain data ctx where p: "p = (data, ctx)" by (cases p)
    define c where "c = event_call w (function_name f) data ctx"
    define errs' where "errs' = (case post_result w (function_name f) (reply (length calls) c) of Inl e \<Rightarrow> errs @ [e] | Inr _ \<Rightarrow> errs)"
    have v: "visit_function reply pick w f st = (calls @ [c], errs')"
      by (simp add: visit_function_def st Some p Let_def c_def errs'_def)
    have "errs' = [] \<longleftrightarrow> all_succeed reply (calls @ [c])"
      using Cons.prems post_result_Inr[of w "function_name f" "reply (length calls) c"]
      by (cases "post_result w (function_name f) (reply (length calls) c)") (auto simp: errs'_def st all_succeed_snoc)
    then show ?thesis using Cons.IH[of "(calls @ [c], errs')"] v
      by (simp add: st Some p map_filter_simps c_def)
  qed
qed (simp add: map_filter_simps)

lemma dispatch_loop_calls:
  "fst (dispatch_loop reply pick ws) = planned_calls pick ws"
  "snd (dispatch_loop reply pick ws) = [] \<longleftrightarrow> all_succeed reply (planned_calls pick ws)"
proof -
  have "snd st = [] \<longleftrightarrow> all_succeed reply (fst st) \<Longrightarrow>
    fst (fold (\<lambda>w st. fold (visit_function reply pick w) (worker_functions w) st) ws st) = fst st @ planned_calls pick ws \<and>
    (snd (fold (\<lambda>w st. fold (visit_function reply pick w) (worker_functions w) st) ws st) = [] \<longleftrightarrow>
     all_succeed reply (fst (fold (\<lambda>w st. fold (visit_function reply pick w) (worker_functions w) st) ws st)))" for st
  proof (induction ws arbitrary: st)
    case (Cons w ws)
    then show ?case using visit_functions[of st reply pick w "worker_functions w"]
      by (simp add: planned_calls_def)
  qed (simp add: planned_calls_def)
  from this[of "([], [])"] show "fst (dispatch_loop reply pick ws) = planned_calls pick ws"
    "snd (dispatch_loop reply pick ws) = [] \<longleftrightarrow> all_succeed reply (planned_calls pick ws)"
    by (auto simp: dispatch_loop_def all_succeed_def)
qed

lemma dispatch_result_loop:
  "fst (dispatch_result (dispatch_loop reply pick ws)) = planned_calls pick ws"
  "(\<exists>u. snd (dispatch_result (dispatch_loop reply pick ws)) = Inr u) \<longleftrightarrow> all_succeed reply (planned_calls pick ws)"
  using dispatch_loop_calls[where reply = reply and pick = pick and ws = ws] by (auto simp: dispatch_result_def)

subsection \<open>Wildcards\<close>

definition is_wildcard :: "string \<Rightarrow> bool" where
  "is_wildcard a = (starts_with ''{'' a \<and> ends_with ''}'' a \<and> length a > 2)"

definition wildcard_name :: "string \<Rightarrow> string" where
  "wildcard_name a = butlast (tl a)"

definition segment_fits :: "string \<Rightarrow> string \<Rightarrow> bool" where
  "segment_fits a b = (is_wildcard a \<or> a = b)"

text \<open>A pattern with its wildcards replaced by what they are bound to.\<close>

definition fill :: "json \<Rightarrow> string \<Rightarrow> string" where
  "fill params a = (if is_wildcard a then json_string params (wildcard_name a) else a)"

definition wildcard_names :: "string list \<Rightarrow> string list" where
  "wildcard_names ps = map wildcard_name (filter is_wildcard ps)"

lemma match_segments_Cons:
  "match_segments ((a, b) # ps) m =
     (if is_wildcard a then match_segments ps (sm_put (wildcard_name a) (JString b) m)
      else if a = b then match_segments ps m else None)"
  by (simp add: is_wildcard_def wildcard_name_def)

declare match_segments.simps(2) [simp del]
declare match_segments_Cons [simp]

lemma match_segments_iff: "match_segments ps m \<noteq> None \<longleftrightarrow> list_all (\<lambda>(a, b). segment_fits a b) ps"
proof (induction ps arbitrary: m)
  case (Cons p ps)
  obtain a b where p: "p = (a, b)" by (cases p)
  show ?case using Cons.IH[of m] Cons.IH[of "sm_put (wildcard_name a) (JString b) m"]
    by (cases "is_wildcard a"; cases "a = b") (simp_all add: p segment_fits_def)
qed simp

lemma match_segments_binds:
  "match_segments ps m = Some r \<Longrightarrow> sm_wf m \<Longrightarrow> distinct (wildcard_names (map fst ps)) \<Longrightarrow>
   sm_wf r \<and> (\<forall>k. k \<notin> set (wildcard_names (map fst ps)) \<longrightarrow> sm_get r k = sm_get m k) \<and>
   (\<forall>(a, b) \<in> set ps. is_wildcard a \<longrightarrow> sm_get r (wildcard_name a) = Some (JString b))"
proof (induction ps arbitrary: m)
  case (Cons p ps)
  obtain a b where p: "p = (a, b)" by (cases p)
  show ?case
  proof (cases "is_wildcard a")
    case True
    let ?m = "sm_put (wildcard_name a) (JString b) m"
    have names: "wildcard_name a \<notin> set (wildcard_names (map fst ps))" "distinct (wildcard_names (map fst ps))"
      using Cons.prems(3) True by (auto simp: p wildcard_names_def)
    have IH: "sm_wf r" "\<And>k. k \<notin> set (wildcard_names (map fst ps)) \<Longrightarrow> sm_get r k = sm_get ?m k"
      "\<forall>(a, b) \<in> set ps. is_wildcard a \<longrightarrow> sm_get r (wildcard_name a) = Some (JString b)"
      using Cons.IH[of ?m] Cons.prems(1,2) True names by (auto simp: p)
    then show ?thesis using names(1) True Cons.prems(2) by (auto simp: p wildcard_names_def)
  next
    case False
    then show ?thesis using Cons.IH[of m] Cons.prems by (auto simp: p wildcard_names_def split: if_splits)
  qed
qed (simp add: wildcard_names_def)

lemma list_all_zip: "length xs = length ys \<Longrightarrow> list_all (\<lambda>(a, b). P a b) (zip xs ys) \<longleftrightarrow> list_all2 P xs ys"
  by (simp add: list_all2_iff list_all_iff)

text \<open>
  A path matches a trigger's pattern exactly when both have as many segments and
  every segment of the pattern is a wildcard or the path's own segment; the parameters then hold for
  each wildcard the segment it stands for, so that filling them into the pattern gives the path back.
\<close>

theorem wildcard_params_match:
  "(wildcard_params pattern path \<noteq> None \<longleftrightarrow>
      list_all2 segment_fits (split_on (CHR ''/'') pattern) (split_on (CHR ''/'') path)) \<and>
   (\<forall>params. wildcard_params pattern path = Some params \<and>
      distinct (wildcard_names (split_on (CHR ''/'') pattern)) \<longrightarrow>
      join_with ''/'' (map (fill params) (split_on (CHR ''/'') pattern)) = path)"
proof -
  let ?ps = "split_on (CHR ''/'') pattern" and ?xs = "split_on (CHR ''/'') path"
  have iff: "wildcard_params pattern path \<noteq> None \<longleftrightarrow> list_all2 segment_fits ?ps ?xs"
    using match_segments_iff[of "zip ?ps ?xs" "[]"]
    by (auto simp: wildcard_params_def Let_def list_all_zip dest: list_all2_lengthD)
  have "join_with ''/'' (map (fill params) ?ps) = path"
    if w: "wildcard_params pattern path = Some params" and d: "distinct (wildcard_names ?ps)" for params
  proof -
    obtain m where m: "params = JObject m" "match_segments (zip ?ps ?xs) [] = Some m" "length ?ps = length ?xs"
      using w by (auto simp: wildcard_params_def Let_def split: if_splits)
    have b: "\<forall>(a, b) \<in> set (zip ?ps ?xs). is_wildcard a \<longrightarrow> sm_get m (wildcard_name a) = Some (JString b)"
      using match_segments_binds[OF m(2)] d m(3) by simp
    have fits: "list_all2 segment_fits ?ps ?xs" using iff w by simp
    have "fill params (?ps ! i) = ?xs ! i" if i: "i < length ?ps" for i
    proof -
      have "(?ps ! i, ?xs ! i) \<in> set (zip ?ps ?xs)" using i m(3) by (auto simp: in_set_zip)
      then show ?thesis using b list_all2_nthD[OF fits i] m(1)
        by (auto simp: fill_def segment_fits_def json_string_def jindex_def jget_def as_str_def)
    qed
    then have "map (fill params) ?ps = ?xs" using m(3) by (intro nth_equalityI) simp_all
    then show ?thesis by simp
  qed
  then show ?thesis using iff by blast
qed

lemma wildcard_params_match_witness:
  "join_with ''/'' (map (fill (JObject [(''id'', JString ''7'')])) [''rooms'', ''{id}'']) = ''rooms/7''"
proof -
  have "wildcard_params ''rooms/{id}'' ''rooms/7'' = Some (JObject [(''id'', JString ''7'')])"
    by (simp add: wildcard_params_def Let_def is_wildcard_def wildcard_name_def starts_with_def ends_with_def strip_suffix_def)
  moreover have "split_on (CHR ''/'') ''rooms/{id}'' = [''rooms'', ''{id}'']" by simp
  moreover have "distinct (wildcard_names [''rooms'', ''{id}''])" by (simp add: wildcard_names_def is_wildcard_def starts_with_def)
  ultimately show ?thesis using wildcard_params_match[of "''rooms/{id}''" "''rooms/7''"] by metis
qed

subsection \<open>The calls of an event\<close>

text \<open>
  Property C29.  A document change reaches exactly the functions whose trigger fits it: every
  function of every worker, in order, whose event type is a document type for this kind of change (or
  for any write) and whose pattern the document's path matches is called once, whatever the replies of
  the others are; the event counts as delivered when all of them succeed.  Documents of other projects
  and databases call nothing.
\<close>

theorem firestore_event_calls:
  assumes "dispatch_firestore env reply rt i old new = Some (calls, result)"
  shows "\<exists>d. (new = Some d \<or> new = None \<and> old = Some d) \<and>
    calls = (case strip_prefix (documents_prefix rt) (doc_name d) of
        None \<Rightarrow> []
      | Some path \<Rightarrow> concat (map (\<lambda>w. List.map_filter (\<lambda>f.
          map_option (\<lambda>params. event_call w (function_name f) (firestore_data env old new) (firestore_context env i d f params))
            (firestore_params (event_kind (old \<noteq> None) (new \<noteq> None)) path f)) (worker_functions w)) (workers rt))) \<and>
    (result = Inr () \<longleftrightarrow> all_succeed reply calls)"
proof -
  obtain d where d: "new = Some d \<or> new = None \<and> old = Some d"
    using assms by (auto simp: dispatch_firestore_def split: option.splits)
  let ?pick = "\<lambda>path f. map_option (\<lambda>ps. (firestore_data env old new, firestore_context env i d f ps))
      (firestore_params (event_kind (old \<noteq> None) (new \<noteq> None)) path f)"
  have r: "(calls, result) = (case strip_prefix (documents_prefix rt) (doc_name d) of None \<Rightarrow> ([], Inr ())
      | Some path \<Rightarrow> dispatch_result (dispatch_loop reply (?pick path) (workers rt)))"
    using assms d by (auto simp: dispatch_firestore_def Let_def split: option.splits)
  show ?thesis
  proof (cases "strip_prefix (documents_prefix rt) (doc_name d)")
    case None
    then show ?thesis using r d by (auto simp: all_succeed_def intro!: exI[of _ d])
  next
    case (Some path)
    have e: "(calls, result) = dispatch_result (dispatch_loop reply (?pick path) (workers rt))" using r Some by simp
    have "calls = planned_calls (?pick path) (workers rt)" "(\<exists>u. result = Inr u) \<longleftrightarrow> all_succeed reply calls"
      using dispatch_result_loop[of reply "?pick path" "workers rt", folded e] by simp_all
    then show ?thesis using d Some
      by (auto simp: planned_calls_def option.map_comp comp_def intro!: exI[of _ d])
  qed
qed

definition sample_function :: trigger_function where
  "sample_function = \<lparr>function_name = ''onRoom'', regions = [''us-central1''],
     trigger = JObject [(''eventTrigger'', JObject
       [(''eventType'', JString ''providers/cloud.firestore/eventTypes/document.write''),
        (''resource'', JString ''projects/p/databases/(default)/documents/rooms/{id}'')])]\<rparr>"

definition sample_runtime :: runtime where
  "sample_runtime = \<lparr>project_id = ''p'', workers = [\<lparr>codebase = ''c'', base_url = ''u'', worker_functions = [sample_function]\<rparr>]\<rparr>"

definition sample_room :: document where
  "sample_room = \<lparr>doc_name = ''projects/p/databases/(default)/documents/rooms/7'', doc_fields = [], create_time = None, update_time = None\<rparr>"

lemma sample_path: "strip_prefix (documents_prefix sample_runtime) (doc_name sample_room) = Some ''rooms/7''"
  by (simp add: documents_prefix_def sample_runtime_def sample_room_def)

lemma sample_params: "firestore_params ''create'' ''rooms/7'' sample_function = Some (JObject [(''id'', JString ''7'')])"
  by (simp add: firestore_params_def Let_def event_trigger_def sample_function_def str_or_def jindex_def jget_def as_str_def
      starts_with_def ends_with_def strip_suffix_def second_part_def wildcard_params_def is_wildcard_def wildcard_name_def)

lemma firestore_event_calls_witness:
  "\<forall>env. \<exists>calls. dispatch_firestore env (\<lambda>_ _. HttpSuccess) sample_runtime 3 None (Some sample_room) = Some (calls, Inr ()) \<and>
     map call_url calls = [''u/__/events''] \<and> all_succeed (\<lambda>_ _. HttpSuccess) calls"
proof
  fix env
  obtain calls where c: "dispatch_firestore env (\<lambda>_ _. HttpSuccess) sample_runtime 3 None (Some sample_room) = Some (calls, Inr ())"
      "map call_url calls = [''u/__/events'']"
    by (simp add: dispatch_firestore_def sample_path event_kind_def dispatch_loop_def visit_function_def sample_params
        dispatch_result_def post_result_def event_call_def)
       (simp add: sample_runtime_def visit_function_def sample_params post_result_def event_call_def)
  then show "\<exists>calls. dispatch_firestore env (\<lambda>_ _. HttpSuccess) sample_runtime 3 None (Some sample_room) = Some (calls, Inr ()) \<and>
     map call_url calls = [''u/__/events''] \<and> all_succeed (\<lambda>_ _. HttpSuccess) calls"
    using firestore_event_calls[OF c(1)] by auto
qed

subsection \<open>The durable form of an event\<close>

text \<open>The serializer, base64 and the protocol buffers, each with its parser.\<close>

record events_env =
  ee_payload_text :: "string option \<times> string option \<Rightarrow> string"
  ee_payload :: "string \<Rightarrow> string + string option \<times> string option"
  ee_encode :: "string \<Rightarrow> string"
  ee_decode :: "string \<Rightarrow> string + string"
  ee_document_bytes :: "document \<Rightarrow> string"
  ee_document :: "string \<Rightarrow> string + document"
  ee_storage :: "string \<Rightarrow> string + string \<times> json"

definition document_payload :: "events_env \<Rightarrow> document option \<times> document option \<Rightarrow> string" where
  "document_payload env = (\<lambda>(old, new). ee_payload_text env
     (map_option (\<lambda>d. ee_encode env (ee_document_bytes env d)) old,
      map_option (\<lambda>d. ee_encode env (ee_document_bytes env d)) new))"

definition decode_document :: "events_env \<Rightarrow> string option \<Rightarrow> string + document option" where
  "decode_document env v =
     (case v of None \<Rightarrow> Inr None
      | Some s \<Rightarrow> rbind (ee_decode env s) (\<lambda>b. rbind (ee_document env b) (\<lambda>d. Inr (Some d))))"

definition decode_durable :: "events_env \<Rightarrow> durable_row \<Rightarrow> string + queued_event" where
  "decode_durable env row =
     rbind (if dr_source row = ''firestore'' then
              rbind (ee_payload env (dr_payload row)) (\<lambda>(b, a).
              rbind (decode_document env b) (\<lambda>old. rbind (decode_document env a) (\<lambda>new. Inr (FirestoreEvent old new))))
            else if dr_source row = ''storage'' then
              rbind (ee_storage env (dr_payload row)) (\<lambda>(kind, ob).
                if kind = ''finalize'' \<or> kind = ''delete'' then Inr (StorageEvent kind ob)
                else Inl (''unsupported durable Storage event kind: '' @ kind))
            else Inl (''unsupported durable event source: '' @ dr_source row))
       (\<lambda>src. Inr \<lparr>event_source = src, event_id = dr_id row\<rparr>)"

text \<open>The row of a record, as the outbox inserts it and the worker claims it for the first time.\<close>

definition row_of :: "nat \<Rightarrow> outbox_record \<Rightarrow> durable_row" where
  "row_of i r = \<lparr>dr_id = i, dr_source = rec_source r, dr_payload = rec_payload r, dr_attempts = 1\<rparr>"

text \<open>What the libraries promise: each parser reads back what its serializer wrote.\<close>

definition events_codec :: "events_env \<Rightarrow> document set \<Rightarrow> bool" where
  "events_codec env ds =
     ((\<forall>p. ee_payload env (ee_payload_text env p) = Inr p) \<and> (\<forall>b. ee_decode env (ee_encode env b) = Inr b) \<and>
      (\<forall>d \<in> ds. ee_document env (ee_document_bytes env d) = Inr d))"

lemma decode_change:
  "events_codec env ds \<Longrightarrow> set_option old \<union> set_option new \<subseteq> ds \<Longrightarrow>
   decode_durable env (row_of i (OutboxRecord ''firestore'' (document_payload env (old, new)))) =
     Inr \<lparr>event_source = FirestoreEvent old new, event_id = i\<rparr>"
  by (cases old; cases new)
     (simp_all add: decode_durable_def row_of_def document_payload_def decode_document_def events_codec_def)

lemma documents_changed_docs:
  "(old, new) \<in> set (documents_changed b a) \<Longrightarrow> set_option old \<union> set_option new \<subseteq> set (sm_values b) \<union> set (sm_values a)"
proof -
  have get: "x \<in> set (sm_values m)" if "sm_get m n = Some x" for m :: documents and n x
    using sm_get_in[OF that] by (force simp: sm_values_def)
  have mem: "x \<in> set (sm_values m)" if "(n, x) \<in> set m" for m :: documents and n x
    using that by (force simp: sm_values_def)
  assume "(old, new) \<in> set (documents_changed b a)"
  then show ?thesis by (auto simp: documents_changed_def document_changed_def get mem split: if_splits)
qed

lemma documents_changed_some: "(old, new) \<in> set (documents_changed b a) \<Longrightarrow> old \<noteq> None \<or> new \<noteq> None"
  by (auto simp: documents_changed_def document_changed_def split: if_splits)

text \<open>
  The durable outbox hands the functions the same events as the in-memory queue:
  decoding the records a commit inserts gives, in order, an event for each change of its documents,
  each with the document before and after; and none of them can stop the worker with the panic of an
  event without a document.
\<close>

theorem durable_events_decoded:
  assumes "events_codec env (set (sm_values b) \<union> set (sm_values a))"
  shows "map (\<lambda>r. decode_durable env (row_of i r)) (outbox_records (document_payload env) b a) =
      map (\<lambda>(old, new). Inr \<lparr>event_source = FirestoreEvent old new, event_id = i\<rparr>) (documents_changed b a) \<and>
    (\<forall>r e. r \<in> set (outbox_records (document_payload env) b a) \<and> decode_durable env (row_of i r) = Inr e \<longrightarrow>
      dispatch wenv reply time rt e \<noteq> None)"
proof -
  have dec: "decode_durable env (row_of i (OutboxRecord ''firestore'' (document_payload env c))) =
      Inr \<lparr>event_source = FirestoreEvent (fst c) (snd c), event_id = i\<rparr>" if "c \<in> set (documents_changed b a)" for c
    using decode_change[OF assms documents_changed_docs, of "fst c" "snd c" i] that by simp
  have "dispatch wenv reply time rt \<lparr>event_source = FirestoreEvent (fst c) (snd c), event_id = i\<rparr> \<noteq> None"
    if "c \<in> set (documents_changed b a)" for c
    using documents_changed_some[of "fst c" "snd c" b a] that
    by (auto simp: dispatch_def dispatch_firestore_def split: option.split)
  then show ?thesis using dec by (fastforce simp: outbox_records_def comp_def case_prod_unfold)
qed

definition option_json :: "string option \<Rightarrow> json" where
  "option_json s = (case s of None \<Rightarrow> JNull | Some x \<Rightarrow> JString x)"

lemma as_str_option_json [simp]: "as_str (option_json s) = s"
  by (simp add: option_json_def as_str_def split: option.split)

definition sample_events_env :: events_env where
  "sample_events_env = \<lparr>ee_payload_text = (\<lambda>(b, a). json_text (JArray [option_json b, option_json a])),
     ee_payload = (\<lambda>s. case json_parse s of Some (JArray [b, a]) \<Rightarrow> Inr (as_str b, as_str a) | _ \<Rightarrow> Inl ''invalid payload''),
     ee_encode = id, ee_decode = Inr, ee_document_bytes = doc_name,
     ee_document = (\<lambda>s. Inr \<lparr>doc_name = s, doc_fields = [], create_time = None, update_time = None\<rparr>),
     ee_storage = (\<lambda>_. Inl ''invalid payload'')\<rparr>"

lemma sample_events_codec: "events_codec sample_events_env {sample_room}"
  by (auto simp: events_codec_def sample_events_env_def sample_room_def simp del: json_text.simps)

lemma durable_events_decoded_witness:
  "map (\<lambda>r. decode_durable sample_events_env (row_of 4 r)) (outbox_records (document_payload sample_events_env) [] [(''n'', sample_room)]) =
     [Inr \<lparr>event_source = FirestoreEvent None (Some sample_room), event_id = 4\<rparr>]"
  using durable_events_decoded[of sample_events_env "[]" "[(''n'', sample_room)]" 4] sample_events_codec
  by (simp add: sm_values_def documents_changed_def document_changed_def same_fields_def sm_has_def)

end
