(* ===== verification/Functions_Queue.thy ===== *)
theory Functions_Queue
  imports Functions_Events
begin

text \<open>
  The event queue of \<open>src/src/functions.rs\<close>: the bounded channel of direct events with its counters
  and failure history, the loop that takes turns between the durable outbox and the channel, the
  status, and the route of an HTTP request to the worker of its function.
\<close>

subsection \<open>The hub\<close>

datatype queue_message = Direct queued_event | DurableWake

record failure =
  failed_event :: "nat option"
  failure_text :: string

record hub =
  queue :: "queue_message list"
  pending :: nat
  sequence :: nat
  failures :: "failure list"
  completed :: nat

definition queue_capacity :: nat where "queue_capacity = 4096"
definition failure_history_limit :: nat where "failure_history_limit = 1000"
definition direct_trigger_loop_limit :: nat where "direct_trigger_loop_limit = 1000"
definition durable_burst_limit :: nat where "durable_burst_limit = 32"

definition new_hub :: hub where
  "new_hub = \<lparr>queue = [], pending = 0, sequence = 0, failures = [], completed = 0\<rparr>"

definition record_failure :: "nat option \<Rightarrow> string \<Rightarrow> hub \<Rightarrow> hub" where
  "record_failure i e h =
     (let f = \<lparr>failed_event = i, failure_text = e\<rparr> in
      if f \<in> set (failures h) then h
      else h\<lparr>failures := (if length (failures h) \<ge> failure_history_limit then tl (failures h) else failures h) @ [f]\<rparr>)"

definition clear_event_failures :: "nat \<Rightarrow> hub \<Rightarrow> hub" where
  "clear_event_failures i h = h\<lparr>failures := filter (\<lambda>f. failed_event f \<noteq> Some i) (failures h)\<rparr>"

definition clear_system_failures :: "hub \<Rightarrow> hub" where
  "clear_system_failures h = h\<lparr>failures := filter (\<lambda>f. failed_event f \<noteq> None) (failures h)\<rparr>"

text \<open>The channel refuses a message when it is full; its error text is the library's.\<close>

definition enqueue :: "string \<Rightarrow> event_source \<Rightarrow> hub \<Rightarrow> hub \<times> (string + nat)" where
  "enqueue full src h =
     (let i = sequence h + 1; h1 = h\<lparr>sequence := i\<rparr> in
      if length (queue h) < queue_capacity
      then (h1\<lparr>pending := pending h + 1, queue := queue h @ [Direct \<lparr>event_source = src, event_id = i\<rparr>]\<rparr>, Inr i)
      else let msg = ''trigger queue rejected event: '' @ full in (record_failure (Some i) msg h1, Inl msg))"

definition outbox_committed :: "hub \<Rightarrow> hub" where
  "outbox_committed h = (if length (queue h) < queue_capacity then h\<lparr>queue := queue h @ [DurableWake]\<rparr> else h)"

subsection \<open>The loop\<close>

datatype phase = AtClaim | AtWait | Delivering durable_row | Running queued_event

record queue_loop =
  loop_hub :: hub
  loop_table :: outbox
  busy :: nat
  burst :: nat
  loop_phase :: phase

text \<open>
  The wait after a full burst drops wake-ups until it finds a direct event.
\<close>

fun pop_direct :: "queue_message list \<Rightarrow> queued_event option \<times> queue_message list" where
  "pop_direct [] = (None, [])"
| "pop_direct (Direct e # q) = (Some e, q)"
| "pop_direct (DurableWake # q) = pop_direct q"

definition throttled :: "bool \<Rightarrow> nat \<Rightarrow> queue_loop \<Rightarrow> bool" where
  "throttled persistent cap l = (persistent \<and> burst l \<ge> cap)"

text \<open>The message the wait ends with (\<open>None\<close> is a wake-up or the timeout) and the queue it leaves.\<close>

definition next_message :: "bool \<Rightarrow> nat \<Rightarrow> queue_loop \<Rightarrow> queued_event option \<times> queue_message list" where
  "next_message persistent cap l =
     (if throttled persistent cap l then pop_direct (queue (loop_hub l))
      else case queue (loop_hub l) of [] \<Rightarrow> (None, []) | Direct e # q \<Rightarrow> (Some e, q) | DurableWake # q \<Rightarrow> (None, q))"

definition take_message :: "bool \<Rightarrow> nat \<Rightarrow> queue_loop \<Rightarrow> queue_loop" where
  "take_message persistent cap l =
     (let (m, q) = next_message persistent cap l; l1 = l\<lparr>loop_hub := (loop_hub l)\<lparr>queue := q\<rparr>, burst := 0\<rparr> in
      case m of None \<Rightarrow> l1\<lparr>loop_phase := AtClaim\<rparr> | Some e \<Rightarrow> l1\<lparr>busy := busy l + 1, loop_phase := Running e\<rparr>)"

definition loop_limit_error :: string where
  "loop_limit_error = ''trigger loop cap exceeded (1000 events without an idle queue)''"

text \<open>The end of a direct event, whose dispatch gave \<open>r\<close>.\<close>

definition finish_direct :: "queued_event \<Rightarrow> string + unit \<Rightarrow> queue_loop \<Rightarrow> queue_loop" where
  "finish_direct e r l =
     (let result = (if busy l > direct_trigger_loop_limit then Inl loop_limit_error else r);
          h = (case result of Inl m \<Rightarrow> record_failure (Some (event_id e)) m (loop_hub l) | Inr _ \<Rightarrow> loop_hub l)
      in l\<lparr>loop_hub := h\<lparr>completed := completed h + 1, pending := pending h - 1\<rparr>,
           busy := (if pending h = 1 then 0 else busy l), loop_phase := AtClaim\<rparr>)"

text \<open>The claim of the durable branch: the rows of the outbox, or the error \<open>failed\<close> of the database.\<close>

definition claim_durable :: "int \<Rightarrow> string option \<Rightarrow> queue_loop \<Rightarrow> queue_loop" where
  "claim_durable now failed l =
     (case failed of
        Some e \<Rightarrow> l\<lparr>loop_hub := record_failure None e (loop_hub l), burst := 0, loop_phase := AtWait\<rparr>
      | None \<Rightarrow>
          (case claim_outbox (loop_table l) now of
             (Some row, ob) \<Rightarrow> l\<lparr>loop_hub := clear_system_failures (loop_hub l), loop_table := ob, burst := burst l + 1,
                                 loop_phase := Delivering row\<rparr>
           | (None, ob) \<Rightarrow> l\<lparr>loop_hub := clear_system_failures (loop_hub l), loop_table := ob, burst := 0, loop_phase := AtWait\<rparr>))"

text \<open>The end of a durable event: a row that cannot be decoded fails like one that is not delivered.\<close>

definition finish_durable ::
  "events_env \<Rightarrow> (persistence_error \<Rightarrow> string) \<Rightarrow> durable_row \<Rightarrow> string + unit \<Rightarrow> int \<Rightarrow> persistence_error option list \<Rightarrow>
   queue_loop \<Rightarrow> queue_loop" where
  "finish_durable env show_error row r now io l =
     (let result = rbind (decode_durable env row) (\<lambda>_. r) in
      case settle (loop_table l) row result now io of
        Inr ob \<Rightarrow> l\<lparr>loop_table := ob, loop_hub := clear_event_failures (dr_id row) (loop_hub l), loop_phase := AtClaim\<rparr>
      | Inl e \<Rightarrow> l\<lparr>loop_hub := record_failure (Some (dr_id row)) (show_error e) (loop_hub l), loop_phase := AtClaim\<rparr>)"

definition start_loop :: "bool \<Rightarrow> string option \<Rightarrow> hub \<Rightarrow> outbox \<Rightarrow> queue_loop" where
  "start_loop persistent failed h ob =
     \<lparr>loop_hub = (case failed of Some e \<Rightarrow> if persistent then record_failure None e h else h | None \<Rightarrow> h),
      loop_table = (if persistent \<and> failed = None then recover_outbox ob else ob),
      busy = 0, burst = 0, loop_phase = AtClaim\<rparr>"

subsection \<open>Steps\<close>

text \<open>
  The loop with everything that may happen between its steps: the services enqueue direct events,
  commit durable ones and wake the loop, and the triggers of Pub/Sub count their deliveries.  Beside
  the loop the step keeps the ids of the direct events accepted and finished so far.
\<close>

inductive queue_step ::
  "events_env \<Rightarrow> (persistence_error \<Rightarrow> string) \<Rightarrow> bool \<Rightarrow> nat \<Rightarrow>
   queue_loop \<times> nat list \<times> nat list \<Rightarrow> queue_loop \<times> nat list \<times> nat list \<Rightarrow> bool"
  for env show_error persistent cap where
  accepted: "enqueue full src (loop_hub l) = (h, Inr i) \<Longrightarrow>
    queue_step env show_error persistent cap (l, acc, fin) (l\<lparr>loop_hub := h\<rparr>, acc @ [i], fin)"
| refused: "enqueue full src (loop_hub l) = (h, Inl e) \<Longrightarrow>
    queue_step env show_error persistent cap (l, acc, fin) (l\<lparr>loop_hub := h\<rparr>, acc, fin)"
| woken: "queue_step env show_error persistent cap (l, acc, fin) (l\<lparr>loop_hub := outbox_committed (loop_hub l)\<rparr>, acc, fin)"
| inserted: "insert_outbox en (loop_table l) rs = Inr ob \<Longrightarrow>
    queue_step env show_error persistent cap (l, acc, fin) (l\<lparr>loop_table := ob\<rparr>, acc, fin)"
| counted: "h = loop_hub l \<Longrightarrow>
    queue_step env show_error persistent cap (l, acc, fin) (l\<lparr>loop_hub := h\<lparr>completed := completed h + 1\<rparr>\<rparr>, acc, fin)"
| noted: "queue_step env show_error persistent cap (l, acc, fin) (l\<lparr>loop_hub := record_failure None e (loop_hub l)\<rparr>, acc, fin)"
| claim: "loop_phase l = AtClaim \<Longrightarrow> persistent \<Longrightarrow> burst l < cap \<Longrightarrow>
    queue_step env show_error persistent cap (l, acc, fin) (claim_durable now failed l, acc, fin)"
| skip: "loop_phase l = AtClaim \<Longrightarrow> \<not> persistent \<or> burst l \<ge> cap \<Longrightarrow>
    queue_step env show_error persistent cap (l, acc, fin) (l\<lparr>loop_phase := AtWait\<rparr>, acc, fin)"
| durable_done: "loop_phase l = Delivering row \<Longrightarrow>
    queue_step env show_error persistent cap (l, acc, fin) (finish_durable env show_error row r now io l, acc, fin)"
| take: "loop_phase l = AtWait \<Longrightarrow>
    queue_step env show_error persistent cap (l, acc, fin) (take_message persistent cap l, acc, fin)"
| direct_done: "loop_phase l = Running e \<Longrightarrow>
    queue_step env show_error persistent cap (l, acc, fin) (finish_direct e r l, acc, fin @ [event_id e])"

inductive queue_run ::
  "events_env \<Rightarrow> (persistence_error \<Rightarrow> string) \<Rightarrow> bool \<Rightarrow> nat \<Rightarrow> queue_loop \<times> nat list \<times> nat list \<Rightarrow> bool"
  for env show_error persistent cap where
  started: "queue_run env show_error persistent cap (start_loop persistent failed new_hub ob, [], [])"
| step: "queue_run env show_error persistent cap x \<Longrightarrow> queue_step env show_error persistent cap x y \<Longrightarrow>
    queue_run env show_error persistent cap y"

subsection \<open>Status\<close>

text \<open>
  What the status reports: the direct events, the ones the broker holds for triggers and the open
  rows, the completed ones, and the failures of the hub followed by those of the outbox.
\<close>

record status_report =
  status_pending :: int
  status_completed :: nat
  status_failures :: "failure list"

definition durable_failures :: "outbox \<Rightarrow> failure list" where
  "durable_failures ob = map (\<lambda>(i, r). \<lparr>failed_event = Some i,
      failure_text = (case last_error r of None \<Rightarrow> ''delivery failed'' | Some e \<Rightarrow> e)\<rparr>)
     (List.take 1000 (filter (in_state Dead) (rows ob)))"

definition status :: "hub \<Rightarrow> string + int \<Rightarrow> (string + outbox) option \<Rightarrow> status_report" where
  "status h broker durable =
     (let fs = failures h @ (case broker of Inl e \<Rightarrow> [\<lparr>failed_event = None, failure_text = ''Pub/Sub status: '' @ e\<rparr>] | Inr _ \<Rightarrow> []);
          volatile = int (pending h) + (case broker of Inl _ \<Rightarrow> 0 | Inr n \<Rightarrow> n)
      in case durable of
           None \<Rightarrow> \<lparr>status_pending = volatile, status_completed = completed h, status_failures = fs\<rparr>
         | Some (Inl e) \<Rightarrow> \<lparr>status_pending = volatile, status_completed = completed h,
             status_failures = fs @ [\<lparr>failed_event = None, failure_text = e\<rparr>]\<rparr>
         | Some (Inr ob) \<Rightarrow> \<lparr>status_pending = int (outstanding ob) + volatile,
             status_completed = event_completed ob + completed h, status_failures = fs @ durable_failures ob\<rparr>)"

text \<open>The drain waits until nothing is pending; \<open>None\<close> is the status it times out on.\<close>

definition drain_code :: "bool \<Rightarrow> status_report \<Rightarrow> nat" where
  "drain_code timed_out st = (if timed_out then 408 else if status_failures st = [] then 200 else 500)"

subsection \<open>Requests\<close>

definition topic_char :: "char \<Rightarrow> bool" where
  "topic_char c = (is_alnum c \<or> c = CHR ''-'' \<or> c = CHR ''_'' \<or> c = CHR ''.'')"

text \<open>\<open>to_vec\<close> and base64 are \<open>encode\<close>; the answer is the status code and the event's id.\<close>

definition inject_pubsub ::
  "(json \<Rightarrow> string) \<Rightarrow> string \<Rightarrow> string \<Rightarrow> string \<Rightarrow> json \<Rightarrow> hub \<Rightarrow> hub \<times> nat \<times> nat option" where
  "inject_pubsub encode full time topic body h =
     (if topic = [] \<or> \<not> list_all topic_char topic then (h, 400, None)
      else case jget ''data'' body of
        None \<Rightarrow> (h, 400, None)
      | Some data \<Rightarrow>
          let m = jobject [(''data'', JString (encode data)),
                           (''attributes'', case jget ''attributes'' body of None \<Rightarrow> jobject [] | Some a \<Rightarrow> a),
                           (''messageId'', event_name (sequence h + 1)), (''publishTime'', JString time)]
          in case enqueue full (PubSubEvent topic m) h of
               (h', Inr i) \<Rightarrow> (h', 202, Some i)
             | (h', Inl e) \<Rightarrow> (h', 503, None))"

definition inject_schedule :: "string \<Rightarrow> string \<Rightarrow> hub \<Rightarrow> hub \<times> nat \<times> nat option" where
  "inject_schedule full name h =
     (case enqueue full (ScheduleEvent name) h of (h', Inr i) \<Rightarrow> (h', 202, Some i) | (h', Inl e) \<Rightarrow> (h', 503, None))"

text \<open>\<open>splitn(5, '/')\<close>.\<close>

definition split_five :: "string \<Rightarrow> string list" where
  "split_five s = (let ps = split_on (CHR ''/'') s in
     if length ps \<le> 5 then ps else List.take 4 ps @ [join_with ''/'' (List.drop 4 ps)])"

definition https_function :: "string \<Rightarrow> string \<Rightarrow> trigger_function \<Rightarrow> bool" where
  "https_function name region f = (function_name f = name \<and> region \<in> set (regions f) \<and> jget ''httpsTrigger'' (trigger f) \<noteq> None)"

definition proxy_worker :: "runtime \<Rightarrow> string \<Rightarrow> fworker option" where
  "proxy_worker rt path =
     (let parts = split_five path in
      if length parts \<ge> 4 \<and> parts ! 1 = project_id rt
      then List.find (\<lambda>w. list_ex (https_function (parts ! 3) (parts ! 2)) (worker_functions w)) (workers rt)
      else None)"

definition proxy_url :: "runtime \<Rightarrow> string \<Rightarrow> string option \<Rightarrow> string option" where
  "proxy_url rt path query =
     (let parts = split_five path in
      map_option (\<lambda>w. base_url w @ ''/invoke/'' @ parts ! 3
        @ (if length parts > 4 then ''/'' @ parts ! 4 else [])
        @ (case query of None \<Rightarrow> [] | Some q \<Rightarrow> ''?'' @ q)) (proxy_worker rt path))"

definition forwarded_header :: "string \<Rightarrow> bool" where
  "forwarded_header n = (n \<notin> {''host'', ''connection'', ''content-length'', ''transfer-encoding''})"

definition normalize_node_path :: "string \<Rightarrow> string" where
  "normalize_node_path s =
     (let b = CHR 0x5C; verbatim = [b, b, CHR ''?'', b] in
      case strip_prefix (verbatim @ ''UNC'' @ [b]) s of
        Some r \<Rightarrow> b # b # r
      | None \<Rightarrow>
          (case strip_prefix verbatim s of
             Some (c # d # e # r) \<Rightarrow> (if is_alpha c \<and> d = CHR '':'' \<and> (e = b \<or> e = CHR ''/'') then c # d # e # r else s)
           | _ \<Rightarrow> s))"

end
