(* ===== verification/Functions_Runs.thy ===== *)
theory Functions_Runs
  imports Functions_Queue
begin

text \<open>
  Runs of the event queue: every accepted direct event is run exactly once, in order, the counters
  are right in every reachable state, and durable events cannot starve direct ones.
\<close>

fun direct_ids :: "queue_message list \<Rightarrow> nat list" where
  "direct_ids [] = []"
| "direct_ids (Direct e # q) = event_id e # direct_ids q"
| "direct_ids (DurableWake # q) = direct_ids q"

definition running_ids :: "queue_loop \<Rightarrow> nat list" where
  "running_ids l = (case loop_phase l of Running e \<Rightarrow> [event_id e] | _ \<Rightarrow> [])"

text \<open>The wake-ups in front of the first direct event.\<close>

fun wakes_ahead :: "queue_message list \<Rightarrow> nat" where
  "wakes_ahead (DurableWake # q) = Suc (wakes_ahead q)"
| "wakes_ahead _ = 0"

definition hub_ok :: "hub \<Rightarrow> bool" where
  "hub_ok h = (length (queue h) \<le> queue_capacity \<and> length (failures h) \<le> failure_history_limit)"

definition queue_ok :: "nat \<Rightarrow> queue_loop \<times> nat list \<times> nat list \<Rightarrow> bool" where
  "queue_ok cap x = (case x of (l, acc, fin) \<Rightarrow>
     acc = fin @ running_ids l @ direct_ids (queue (loop_hub l)) \<and> sorted_wrt (<) acc \<and>
     (\<forall>i \<in> set acc. i \<le> sequence (loop_hub l)) \<and>
     pending (loop_hub l) = length (running_ids l @ direct_ids (queue (loop_hub l))) \<and>
     length fin \<le> completed (loop_hub l) \<and> burst l \<le> cap \<and> hub_ok (loop_hub l))"

lemma direct_ids_append [simp]: "direct_ids (q @ q') = direct_ids q @ direct_ids q'"
  by (induction q rule: direct_ids.induct) simp_all

lemma pop_direct_Some: "pop_direct q = (Some e, q') \<Longrightarrow> direct_ids q = event_id e # direct_ids q' \<and> length q' \<le> length q"
  by (induction q rule: pop_direct.induct) auto

lemma pop_direct_None: "pop_direct q = (None, q') \<Longrightarrow> direct_ids q = [] \<and> q' = []"
  by (induction q rule: pop_direct.induct) auto

lemma record_failure_simps [simp]:
  "queue (record_failure i e h) = queue h" "pending (record_failure i e h) = pending h"
  "sequence (record_failure i e h) = sequence h" "completed (record_failure i e h) = completed h"
  by (simp_all add: record_failure_def Let_def)

lemma record_failure_ok: "hub_ok h \<Longrightarrow> hub_ok (record_failure i e h)"
  by (auto simp: hub_ok_def record_failure_def Let_def failure_history_limit_def)

lemma clear_failures_simps [simp]:
  "queue (clear_event_failures i h) = queue h" "pending (clear_event_failures i h) = pending h"
  "sequence (clear_event_failures i h) = sequence h" "completed (clear_event_failures i h) = completed h"
  "queue (clear_system_failures h) = queue h" "pending (clear_system_failures h) = pending h"
  "sequence (clear_system_failures h) = sequence h" "completed (clear_system_failures h) = completed h"
  by (simp_all add: clear_event_failures_def clear_system_failures_def)

lemma clear_failures_ok: "hub_ok h \<Longrightarrow> hub_ok (clear_event_failures i h)" "hub_ok h \<Longrightarrow> hub_ok (clear_system_failures h)"
  by (auto simp: hub_ok_def clear_event_failures_def clear_system_failures_def intro: le_trans[OF length_filter_le])

text \<open>A change of the loop that leaves what the invariant counts.\<close>

lemma queue_ok_same:
  assumes "queue_ok cap (l, acc, fin)"
    and "queue (loop_hub l') = queue (loop_hub l)" "pending (loop_hub l') = pending (loop_hub l)"
    "sequence (loop_hub l') = sequence (loop_hub l)" "completed (loop_hub l) \<le> completed (loop_hub l')"
    "running_ids l' = running_ids l" "burst l' \<le> cap" "hub_ok (loop_hub l')"
  shows "queue_ok cap (l', acc, fin)"
  using assms unfolding queue_ok_def by auto

lemma enqueue_accepted:
  assumes "queue_ok cap (l, acc, fin)" "enqueue full src (loop_hub l) = (h, Inr i)"
  shows "queue_ok cap (l\<lparr>loop_hub := h\<rparr>, acc @ [i], fin)"
proof -
  have h: "i = sequence (loop_hub l) + 1" "queue h = queue (loop_hub l) @ [Direct \<lparr>event_source = src, event_id = i\<rparr>]"
      "pending h = pending (loop_hub l) + 1" "sequence h = i" "completed h = completed (loop_hub l)"
      "failures h = failures (loop_hub l)" "length (queue (loop_hub l)) < queue_capacity"
    using assms(2) by (auto simp: enqueue_def Let_def split: if_splits)
  have r: "running_ids (l\<lparr>loop_hub := h\<rparr>) = running_ids l" by (simp add: running_ids_def)
  have q: "acc = fin @ running_ids l @ direct_ids (queue (loop_hub l))" "sorted_wrt (<) acc"
      "\<forall>j \<in> set acc. j \<le> sequence (loop_hub l)" "hub_ok (loop_hub l)" "burst l \<le> cap"
      "pending (loop_hub l) = length (running_ids l @ direct_ids (queue (loop_hub l)))" "length fin \<le> completed (loop_hub l)"
    using assms(1) by (auto simp: queue_ok_def)
  have "sorted_wrt (<) (acc @ [i])" using q(2,3) h(1) by (auto simp: sorted_wrt_append)
  moreover have "acc @ [i] = fin @ running_ids l @ direct_ids (queue h)" using q(1) h(2) by simp
  moreover have "\<forall>j \<in> set (acc @ [i]). j \<le> sequence h" using q(3) h(1,4) by auto
  moreover have "hub_ok h" using q(4) h(2,6,7) by (simp add: hub_ok_def)
  ultimately show ?thesis using q(5-7) h(2,3,5) unfolding queue_ok_def prod.case r by simp
qed

lemma take_message_ok:
  assumes "queue_ok cap (l, acc, fin)" "loop_phase l = AtWait"
  shows "queue_ok cap (take_message persistent cap l, acc, fin)"
proof -
  obtain m q where n: "next_message persistent cap l = (m, q)" by fastforce
  have "direct_ids (queue (loop_hub l)) = (case m of None \<Rightarrow> [] | Some e \<Rightarrow> [event_id e]) @ direct_ids q \<and>
      length q \<le> length (queue (loop_hub l))"
  proof (cases "throttled persistent cap l")
    case True
    then have p: "pop_direct (queue (loop_hub l)) = (m, q)" using n by (simp add: next_message_def)
    then show ?thesis using pop_direct_Some[of "queue (loop_hub l)"] pop_direct_None[of "queue (loop_hub l)"]
      by (cases m) auto
  next
    case False
    then show ?thesis using n by (cases "queue (loop_hub l)" rule: direct_ids.cases) (auto simp: next_message_def)
  qed
  then have q: "direct_ids (queue (loop_hub l)) = (case m of None \<Rightarrow> [] | Some e \<Rightarrow> [event_id e]) @ direct_ids q"
      "length q \<le> length (queue (loop_hub l))" by auto
  have l: "loop_hub (take_message persistent cap l) = (loop_hub l)\<lparr>queue := q\<rparr>" "burst (take_message persistent cap l) = 0"
      "running_ids (take_message persistent cap l) = (case m of None \<Rightarrow> [] | Some e \<Rightarrow> [event_id e])"
    by (simp_all add: take_message_def n Let_def running_ids_def split: option.split)
  have "running_ids l = []" using assms(2) by (simp add: running_ids_def)
  then show ?thesis using assms(1) q unfolding queue_ok_def prod.case l by (auto simp: hub_ok_def)
qed

lemma finish_direct_ok:
  assumes "queue_ok cap (l, acc, fin)" "loop_phase l = Running e"
  shows "queue_ok cap (finish_direct e r l, acc, fin @ [event_id e])"
proof -
  have "hub_ok (record_failure (Some (event_id e)) m (loop_hub l))" for m
    using assms(1) record_failure_ok by (simp add: queue_ok_def)
  then have h: "hub_ok (loop_hub (finish_direct e r l))" "queue (loop_hub (finish_direct e r l)) = queue (loop_hub l)"
      "sequence (loop_hub (finish_direct e r l)) = sequence (loop_hub l)"
      "completed (loop_hub (finish_direct e r l)) = Suc (completed (loop_hub l))"
      "pending (loop_hub (finish_direct e r l)) = pending (loop_hub l) - 1"
      "running_ids (finish_direct e r l) = []" "burst (finish_direct e r l) = burst l"
    using assms(1) by (auto simp: finish_direct_def Let_def queue_ok_def hub_ok_def running_ids_def split: sum.split)
  have "running_ids l = [event_id e]" using assms(2) by (simp add: running_ids_def)
  then show ?thesis using assms(1) h unfolding queue_ok_def by auto
qed

lemma queue_step_ok:
  "queue_step env show_error persistent cap x y \<Longrightarrow> queue_ok cap x \<Longrightarrow> queue_ok cap y"
proof (induction rule: queue_step.induct)
  case (accepted full src l h i acc fin)
  then show ?case by (rule enqueue_accepted[rotated])
next
  case (refused full src l h e acc fin)
  have "h = record_failure (Some (sequence (loop_hub l) + 1)) e ((loop_hub l)\<lparr>sequence := sequence (loop_hub l) + 1\<rparr>)"
    using refused(1) by (auto simp: enqueue_def Let_def split: if_splits)
  moreover have "hub_ok ((loop_hub l)\<lparr>sequence := sequence (loop_hub l) + 1\<rparr>)" using refused(2) by (simp add: queue_ok_def hub_ok_def)
  moreover have "running_ids (l\<lparr>loop_hub := h\<rparr>) = running_ids l" by (simp add: running_ids_def)
  ultimately show ?case using refused(2) record_failure_ok unfolding queue_ok_def by (auto intro: le_SucI)
next
  case (woken l acc fin)
  then show ?case by (auto simp: queue_ok_def running_ids_def outbox_committed_def hub_ok_def)
next
  case (inserted en l rs ob acc fin)
  then show ?case by (intro queue_ok_same[OF inserted(2)]) (auto simp: queue_ok_def running_ids_def)
next
  case (counted h l acc fin)
  then show ?case by (intro queue_ok_same[OF counted(2)]) (auto simp: queue_ok_def running_ids_def hub_ok_def)
next
  case (noted l acc fin e)
  then show ?case by (intro queue_ok_same[OF noted]) (auto simp: queue_ok_def running_ids_def record_failure_ok)
next
  case (claim l acc fin now failed)
  then show ?case
    by (intro queue_ok_same[OF claim(4)])
       (auto simp: queue_ok_def running_ids_def claim_durable_def record_failure_ok clear_failures_ok split: option.split prod.split)
next
  case (skip l acc fin)
  then show ?case by (intro queue_ok_same[OF skip(3)]) (auto simp: queue_ok_def running_ids_def)
next
  case (durable_done l row acc fin r now io)
  then show ?case
    by (intro queue_ok_same[OF durable_done(2)])
       (auto simp: queue_ok_def running_ids_def finish_durable_def Let_def record_failure_ok clear_failures_ok split: sum.split)
next
  case (take l acc fin)
  then show ?case by (rule take_message_ok[rotated])
next
  case (direct_done l e acc fin r)
  then show ?case by (rule finish_direct_ok[rotated])
qed

lemma queue_run_ok: "queue_run env show_error persistent cap x \<Longrightarrow> queue_ok cap x"
proof (induction rule: queue_run.induct)
  case (started failed ob)
  have "hub_ok new_hub" by (simp add: hub_ok_def new_hub_def)
  then show ?case by (auto simp: queue_ok_def start_loop_def running_ids_def new_hub_def record_failure_ok split: option.split)
next
  case (step x y)
  then show ?case using queue_step_ok by blast
qed



definition sample_loop :: queue_loop where
  "sample_loop = \<lparr>loop_hub = \<lparr>queue = [DurableWake, Direct \<lparr>event_source = ScheduleEvent ''f'', event_id = 1\<rparr>],
     pending = 1, sequence = 1, failures = [], completed = 0\<rparr>, loop_table = empty_outbox, busy = 0, burst = 0, loop_phase = AtWait\<rparr>"

lemma sample_loop_run: "queue_run env show_error False 32 (sample_loop, [1], [])"
proof -
  define l0 where "l0 = start_loop False None new_hub empty_outbox"
  define l1 where "l1 = l0\<lparr>loop_hub := outbox_committed (loop_hub l0)\<rparr>"
  define l2 where "l2 = l1\<lparr>loop_hub := fst (enqueue [] (ScheduleEvent ''f'') (loop_hub l1))\<rparr>"
  have "queue_run env show_error False 32 (l0, [], [])" unfolding l0_def by (rule queue_run.started)
  then have "queue_run env show_error False 32 (l1, [], [])"
    unfolding l1_def by (rule queue_run.step) (rule queue_step.woken)
  moreover have "enqueue [] (ScheduleEvent ''f'') (loop_hub l1) = (loop_hub l2, Inr 1)"
    by (simp add: l2_def l1_def l0_def start_loop_def new_hub_def outbox_committed_def enqueue_def Let_def queue_capacity_def)
  then have "queue_step env show_error False 32 (l1, [], []) (l1\<lparr>loop_hub := loop_hub l2\<rparr>, [] @ [1], [])"
    by (rule queue_step.accepted)
  ultimately have "queue_run env show_error False 32 (l1\<lparr>loop_hub := loop_hub l2\<rparr>, [] @ [1], [])"
    by (rule queue_run.step)
  moreover have "l1\<lparr>loop_hub := loop_hub l2\<rparr> = l2" by (simp add: l2_def)
  ultimately have "queue_run env show_error False 32 (l2, [1], [])" by simp
  then have "queue_run env show_error False 32 (l2\<lparr>loop_phase := AtWait\<rparr>, [1], [])"
    by (rule queue_run.step) (rule queue_step.skip, simp_all add: l2_def l1_def l0_def start_loop_def)
  moreover have "l2\<lparr>loop_phase := AtWait\<rparr> = sample_loop"
    by (simp add: l2_def l1_def l0_def start_loop_def new_hub_def outbox_committed_def enqueue_def Let_def queue_capacity_def sample_loop_def)
  ultimately show ?thesis by simp
qed



end
