(* ===== verification/Functions_Trigger.thy ===== *)
theory Functions_Trigger
  imports Functions_Runs PubSub_Runs Civil_Date
begin

text \<open>
  The Pub/Sub triggers of \<open>src/src/functions.rs\<close> over the in-memory broker: the registration of a
  subscription for each trigger function, and the turns of the task that pulls one message at a time,
  calls the function and acknowledges only what the function accepted.
\<close>

subsection \<open>The message as JSON\<close>

definition message_json :: "(string \<Rightarrow> string) \<Rightarrow> pubsub_message \<Rightarrow> json" where
  "message_json base64 m = jobject
     [(''data'', JString (base64 (msg_data m))),
      (''attributes'', JObject (map (\<lambda>(k, v). (k, JString v)) (msg_attributes m))),
      (''messageId'', JString (message_id m)),
      (''publishTime'', JString (case publish_time m of None \<Rightarrow> ''1970-01-01T00:00:00.000Z'' | Some t \<Rightarrow> timestamp_rfc3339 t)),
      (''orderingKey'', JString (ordering_key m))]"

subsection \<open>Registration\<close>

definition trigger_subscription_id :: "trigger_function \<Rightarrow> string" where
  "trigger_subscription_id f = ''firebase-functions-'' @ function_name f"

text \<open>
  The functions of all workers in order; the first that cannot be registered ends the start.  What was
  created before it stays.
\<close>

fun register_triggers ::
  "(status \<Rightarrow> string) \<Rightarrow> string \<Rightarrow> (fworker \<times> trigger_function) list \<Rightarrow> memory_state \<Rightarrow>
   (string + (fworker \<times> trigger_function \<times> string) list) \<times> memory_state" where
  "register_triggers show_status proj [] s = (Inr [], s)"
| "register_triggers show_status proj ((w, f) # fs) s =
     (case pubsub_trigger_topic f of
        None \<Rightarrow> register_triggers show_status proj fs s
      | Some topic \<Rightarrow>
          if length (trigger_subscription_id f) > 255
          then (Inl (''Pub/Sub trigger function name is too long for a subscription: '' @ function_name f), s)
          else (case ensure_trigger_subscription proj topic (trigger_subscription_id f) s of
                  (Inl e, s1) \<Rightarrow> (Inl (''could not register Pub/Sub trigger '' @ function_name f @ '': '' @ show_status e), s1)
                | (Inr sub, s1) \<Rightarrow>
                    (case register_triggers show_status proj fs s1 of
                       (Inl e, s2) \<Rightarrow> (Inl e, s2)
                     | (Inr rs, s2) \<Rightarrow> (Inr ((w, f, sub) # rs), s2))))"

definition register_pubsub_triggers ::
  "(status \<Rightarrow> string) \<Rightarrow> runtime \<Rightarrow> memory_state \<Rightarrow>
   (string + (fworker \<times> trigger_function \<times> string) list) \<times> memory_state" where
  "register_pubsub_triggers show_status rt s =
     register_triggers show_status (project_id rt)
       (concat (map (\<lambda>w. map (Pair w) (worker_functions w)) (workers rt))) s"

subsection \<open>The task of a trigger\<close>

datatype turn = Stopped | Retry | Waiting | Call broker_message call

definition trigger_pull ::
  "(status \<Rightarrow> string) \<Rightarrow> (string \<Rightarrow> string) \<Rightarrow> (nat \<Rightarrow> string) \<Rightarrow> int \<Rightarrow> fworker \<Rightarrow> trigger_function \<Rightarrow> string \<Rightarrow>
   memory_state \<times> hub \<Rightarrow> (memory_state \<times> hub) \<times> turn" where
  "trigger_pull show_status base64 fresh now w f sub = (\<lambda>(s, h).
     case pull_one fresh now sub s of
       (Inl e, s1) \<Rightarrow>
         (if code e = NotFound then ((s1, h), Stopped)
          else ((s1, record_failure None (''Pub/Sub trigger '' @ function_name f @ '': '' @ show_status e) h), Retry))
     | (Inr None, s1) \<Rightarrow> ((s1, h), Waiting)
     | (Inr (Some m), s1) \<Rightarrow> ((s1, h), Call m (pubsub_function_call w f (message_json base64 (broker_message m)))))"

text \<open>What follows the call: other clients may have changed the broker meanwhile.\<close>

definition trigger_settle ::
  "(status \<Rightarrow> string) \<Rightarrow> int \<Rightarrow> trigger_function \<Rightarrow> string \<Rightarrow> broker_message \<Rightarrow> bool \<Rightarrow> memory_state \<times> hub \<Rightarrow> memory_state \<times> hub" where
  "trigger_settle show_status now f sub m succeeded = (\<lambda>(s, h).
     if succeeded then
       (case acknowledge_ids sub [broker_ack_id m] s of
          (Inr _, s1) \<Rightarrow> (s1, h\<lparr>completed := completed h + 1\<rparr>)
        | (Inl e, s1) \<Rightarrow> (s1, record_failure None (''Pub/Sub trigger ACK '' @ function_name f @ '': '' @ show_status e) h))
     else (snd (modify_ack_ids now sub [broker_ack_id m] 1 s), h))"

subsection \<open>A message stays until its function accepts it\<close>

lemma settle_failed_delivery:
  assumes "get_subscription_value sub s = Inr v" "sm_get (deliveries s) k = Some d" "delivery_sub d = sub" "ack_id d = Some a"
  shows "sm_get (deliveries (snd (modify_ack_ids now sub [a] 1 s))) k = Some (d\<lparr>deadline_ms := Some (sat_add now 1000)\<rparr>)"
  using assms by (simp add: modify_ack_ids_def holds_ack_def)

text \<open>
  Property C32.  A function's Pub/Sub message is acknowledged only when the function accepted
  it: after an accepted call its delivery is gone and counted; after a failed one it is still leased, and
  one second later the lease has run out, so that the next claim may deliver it again.
\<close>

theorem trigger_acknowledges_accepted:
  assumes "broker_ok len s" "get_subscription_value sub s = Inr v"
    and "sm_get (deliveries s) (sub, i) = Some d" "delivery_state d = PubSub_Memory.InFlight" "ack_id d = Some (broker_ack_id m)"
    and "0 \<le> now" "now + 1000 \<le> later" "later \<le> i64_max"
  shows "sm_get (deliveries (fst (trigger_settle show_status now f sub m True (s, h)))) (sub, i) = None \<and>
    completed (snd (trigger_settle show_status now f sub m True (s, h))) = completed h + 1 \<and>
    sm_get (deliveries (expire_leases sub later (fst (trigger_settle show_status now f sub m False (s, h))))) (sub, i) =
      Some (free_delivery d) \<and>
    messages (fst (trigger_settle show_status now f sub m False (s, h))) = messages s"
proof -
  have d: "delivery_sub d = sub" using deliveryD(1)[OF assms(1,3)] by simp
  have wf: "sm_wf (deliveries s)" using broker_mapsD(7)[OF broker_okD(1)[OF assms(1)]] .
  have "sat_add now 1000 = now + 1000" using assms(6-8) by (simp add: sat_add_def i64_max_def i64_min_def)
  moreover have "sm_get (deliveries (snd (modify_ack_ids now sub [broker_ack_id m] 1 s))) (sub, i) =
      Some (d\<lparr>deadline_ms := Some (sat_add now 1000)\<rparr>)"
    by (rule settle_failed_delivery[OF assms(2,3) d assms(5)])
  ultimately have "sm_get (deliveries (expire_leases sub later (snd (modify_ack_ids now sub [broker_ack_id m] 1 s)))) (sub, i) =
      Some (free_delivery d)"
    using assms(4,7) d by (simp add: expire_leases_def free_delivery_def)
  moreover have "messages (snd (modify_ack_ids now sub [broker_ack_id m] 1 s)) = messages s"
    using assms(2) by (simp add: modify_ack_ids_def)
  moreover have "sm_get (deliveries (snd (acknowledge_ids sub [broker_ack_id m] s))) (sub, i) = None"
    "fst (acknowledge_ids sub [broker_ack_id m] s) = Inr ()"
    using assms(2,3,5) d wf by (simp_all add: acknowledge_ids_def memory_gc_def Let_def holds_ack_def)
  ultimately show ?thesis
    by (auto simp: trigger_settle_def split: prod.split sum.split)
qed

definition sample_delivery :: broker_message where
  "sample_delivery = \<lparr>broker_ack_id = ''k0'', broker_message = \<lparr>msg_data = ''x'', msg_attributes = [], message_id = ''m0'',
     publish_time = None, ordering_key = []\<rparr>, size_bytes = 1\<rparr>"

lemma trigger_acknowledges_accepted_witness:
  "\<exists>d. sm_get (deliveries (expire_leases sample_sub 1000 (fst (trigger_settle (\<lambda>_. []) 0 sample_function sample_sub
      sample_delivery False (sample_broker 4, new_hub))))) (sample_sub, ''m0'') = Some (free_delivery d)"
proof -
  have ok: "broker_ok data_len (sample_broker 4)"
    using broker_steps_ok[OF sample_run_4 broker_ok_empty drawn_ok_empty] by blast
  have sub: "get_subscription_value sample_sub (sample_broker 4) = Inr (default_subscription sample_sub sample_topic)"
    by (simp add: sample_claimed sample_published sample_created get_subscription_value_def)
  obtain d where d: "sm_get (deliveries (sample_broker 4)) (sample_sub, ''m0'') = Some d"
      "delivery_state d = PubSub_Memory.InFlight" "ack_id d = Some (broker_ack_id sample_delivery)"
    by (simp add: sample_claimed sample_delivery_def)
  have "(0::int) \<le> 0" "(0::int) + 1000 \<le> 1000" "1000 \<le> i64_max" by (simp_all add: i64_max_def)
  from trigger_acknowledges_accepted[OF ok sub d this] show ?thesis by blast
qed

end
