(* ===== verification/Ip_Address.thy ===== *)
theory Ip_Address
  imports Strings
begin

text \<open>
  The textual IP addresses the program reads (\<open>IpAddr::from_str\<close>): four decimal numbers without
  superfluous zeros, or up to eight groups of hexadecimal digits with one gap, the last two of which
  may be written as an IPv4 address.
\<close>

datatype ip = V4 nat nat nat nat | V6 "nat list"

definition octet :: "string \<Rightarrow> nat option" where
  "octet s =
     (if s \<noteq> [] \<and> length s \<le> 3 \<and> list_all is_digit s \<and> (hd s \<noteq> CHR ''0'' \<or> length s = 1) \<and> nat_of_digits s < 256
      then Some (nat_of_digits s) else None)"

definition parse_v4 :: "string \<Rightarrow> (nat \<times> nat \<times> nat \<times> nat) option" where
  "parse_v4 s =
     (case map octet (split_on (CHR ''.'') s) of
        [Some a, Some b, Some c, Some d] \<Rightarrow> Some (a, b, c, d) | _ \<Rightarrow> None)"

definition hex_digit :: "char \<Rightarrow> nat option" where
  "hex_digit c =
     (let n = of_char c :: nat in
      if 48 \<le> n \<and> n \<le> 57 then Some (n - 48) else if 65 \<le> n \<and> n \<le> 70 then Some (n - 55)
      else if 97 \<le> n \<and> n \<le> 102 then Some (n - 87) else None)"

fun hex_number :: "nat \<Rightarrow> string \<Rightarrow> nat option" where
  "hex_number acc [] = Some acc"
| "hex_number acc (c # s) = (case hex_digit c of None \<Rightarrow> None | Some d \<Rightarrow> hex_number (16 * acc + d) s)"

definition hex_group :: "string \<Rightarrow> nat option" where
  "hex_group s = (if s = [] \<or> length s > 4 then None else hex_number 0 s)"

text \<open>The groups of one side of the gap; only the last one may be an IPv4 address.\<close>

fun groups :: "bool \<Rightarrow> string list \<Rightarrow> nat list option" where
  "groups v4 [] = Some []"
| "groups v4 (g # gs) =
     (case hex_group g of
        Some n \<Rightarrow> map_option (\<lambda>ns. n # ns) (groups v4 gs)
      | None \<Rightarrow>
          (if v4 \<and> gs = [] then map_option (\<lambda>(a, b, c, d). [256 * a + b, 256 * c + d]) (parse_v4 g) else None))"

definition side :: "bool \<Rightarrow> string \<Rightarrow> nat list option" where
  "side v4 s = (if s = [] then Some [] else groups v4 (split_on (CHR '':'') s))"

definition parse_v6 :: "string \<Rightarrow> nat list option" where
  "parse_v6 s =
     (case split_once ''::'' s of
        None \<Rightarrow> (case side True s of Some ns \<Rightarrow> if length ns = 8 then Some ns else None | None \<Rightarrow> None)
      | Some (l, r) \<Rightarrow>
          (case (side False l, side True r) of
             (Some ls, Some rs) \<Rightarrow>
               if length ls + length rs < 8 then Some (ls @ replicate (8 - length ls - length rs) 0 @ rs) else None
           | _ \<Rightarrow> None))"

definition parse_ip :: "string \<Rightarrow> ip option" where
  "parse_ip s =
     (case parse_v4 s of
        Some (a, b, c, d) \<Rightarrow> Some (V4 a b c d)
      | None \<Rightarrow> map_option V6 (parse_v6 s))"

fun is_loopback :: "ip \<Rightarrow> bool" where
  "is_loopback (V4 a b c d) = (a = 127)"
| "is_loopback (V6 gs) = (gs = [0, 0, 0, 0, 0, 0, 0, 1])"

fun is_unspecified :: "ip \<Rightarrow> bool" where
  "is_unspecified (V4 a b c d) = (a = 0 \<and> b = 0 \<and> c = 0 \<and> d = 0)"
| "is_unspecified (V6 gs) = (gs = replicate 8 0)"

abbreviation "localhost \<equiv> V4 127 0 0 1"

lemma replicate_numeral_Cons [simp]: "replicate (numeral k) x = x # replicate (pred_numeral k) x"
  by (simp add: numeral_eq_Suc)

lemma parse_ip_examples:
  "parse_ip ''127.0.0.1'' = Some localhost"
  "parse_ip ''::1'' = Some (V6 [0, 0, 0, 0, 0, 0, 0, 1])"
  "parse_ip ''::ffff:10.0.0.1'' = Some (V6 [0, 0, 0, 0, 0, 65535, 2560, 1])"
  "parse_ip ''127.0.0.01'' = None"
  "parse_ip '':::'' = None"
  "parse_ip ''1::2::3'' = None"
  by (simp_all add: parse_ip_def parse_v4_def octet_def is_digit_def nat_of_digits_def digit_val_def parse_v6_def
    side_def hex_group_def hex_digit_def Let_def)

end
