(* ===== verification/Functions_Config.thy ===== *)
theory Functions_Config
  imports Ip_Address Json Storage_Text
begin

text \<open>
  The configuration of the local Functions runtime, \<open>src/src/functions_config.rs\<close>: the precedence of
  command line, environment and files, the addresses of the emulators, the codebases and their
  runtimes, the merge of runtime configurations and the reading of dotenv files.  The file system is
  the parameter \<open>files\<close>; paths are Unix paths.
\<close>

subsection \<open>Data\<close>

text \<open>\<open>read\<close> gives the text of a file, \<open>None\<close> when there is none, or an error.\<close>

record files =
  fs_read :: "string \<Rightarrow> string + string option"
  fs_canonical :: "string \<Rightarrow> string + string"
  fs_is_file :: "string \<Rightarrow> bool"
  fs_json :: "string \<Rightarrow> string + json"
  fs_json_text :: "json \<Rightarrow> string"
  fs_ip_text :: "ip \<Rightarrow> string"

record config_overrides =
  cli_project :: "string option"
  cli_host :: "string option"
  cli_functions_port :: "nat option"
  cli_pubsub_port :: "nat option"
  cli_functions_source :: "string option"
  cli_functions_codebase :: "string option"
  cli_functions_runtime :: "string option"
  cli_runtime_config :: "json option"

record function_codebase =
  fc_source :: string
  fc_codebase :: string
  fc_runtime :: string

record socket_address =
  sa_host :: ip
  sa_port :: nat

record emulator_addresses =
  ea_functions :: socket_address
  ea_firestore :: socket_address
  ea_auth :: socket_address
  ea_storage :: socket_address
  ea_database :: socket_address
  ea_pubsub :: socket_address

type_synonym environment = "(string, string) smap"

record functions_config =
  config_project :: string
  codebases :: "function_codebase list"
  addresses :: emulator_addresses
  firebase_config :: json
  runtime_config :: json
  local_environment :: environment

subsection \<open>Helpers\<close>

text \<open>\<open>or_else\<close> on options.\<close>

definition alternative :: "'a option \<Rightarrow> 'a option \<Rightarrow> 'a option" where
  "alternative a b = (case a of None \<Rightarrow> b | Some x \<Rightarrow> Some x)"

definition default_to :: "'a \<Rightarrow> 'a option \<Rightarrow> 'a" where
  "default_to d a = (case a of None \<Rightarrow> d | Some x \<Rightarrow> x)"

text \<open>\<open>Value::pointer\<close> on names that are not numbers.\<close>

fun pointer :: "string list \<Rightarrow> json \<Rightarrow> json option" where
  "pointer [] v = Some v"
| "pointer (k # ks) v = (case jget k v of None \<Rightarrow> None | Some x \<Rightarrow> pointer ks x)"

definition pointer_str :: "string list \<Rightarrow> json \<Rightarrow> string option" where
  "pointer_str ks v = Option.bind (pointer ks v) as_str"

definition join_path :: "string \<Rightarrow> string \<Rightarrow> string" where
  "join_path root p = (if starts_with ''/'' p then p else if ends_with ''/'' root then root @ p else root @ ''/'' @ p)"

text \<open>\<open>Path::starts_with\<close> on canonical paths compares components.\<close>

definition path_components :: "string \<Rightarrow> string list" where
  "path_components p = filter (\<lambda>c. c \<noteq> []) (split_on (CHR ''/'') p)"

definition path_within :: "string \<Rightarrow> string \<Rightarrow> bool" where
  "path_within root p = (List.take (length (path_components root)) (path_components p) = path_components root)"

definition read_optional_json :: "files \<Rightarrow> string \<Rightarrow> string + json option" where
  "read_optional_json fs path =
     rbind (fs_read fs path) (\<lambda>r. case r of
        None \<Rightarrow> Inr None
      | Some raw \<Rightarrow> (case fs_json fs raw of Inl e \<Rightarrow> Inl (''malformed '' @ path @ '': '' @ e) | Inr v \<Rightarrow> Inr (Some v)))"

definition json_or_empty :: "json option \<Rightarrow> json" where
  "json_or_empty v = default_to (JObject []) v"

subsection \<open>Project, hosts and ports\<close>

definition validate_demo_project :: "string \<Rightarrow> string + unit" where
  "validate_demo_project project =
     guard (starts_with ''demo-'' project \<and> list_all (\<lambda>c. is_lower c \<or> is_digit c \<or> c = CHR ''-'') project)
       (''Functions requires a local `demo-` project ID, got `'' @ project @ ''`'')"

definition parse_loopback_host :: "string \<Rightarrow> bool \<Rightarrow> string + ip" where
  "parse_loopback_host h firebase_file =
     (let host = (if h = ''localhost'' then ''127.0.0.1'' else h) in
      case parse_ip host of
        None \<Rightarrow> Inl (''emulator host `'' @ host @ ''` must be an IP address or localhost'')
      | Some a \<Rightarrow>
          if is_loopback a then Inr a
          else if firebase_file \<and> is_unspecified a then Inr localhost
          else Inl (''emulator host `'' @ host @ ''` is not loopback''))"

text \<open>The library's reason of a number that cannot be read is left out of the message.\<close>

definition env_port :: "environment \<Rightarrow> string \<Rightarrow> string + nat option" where
  "env_port env key =
     (case sm_get env key of
        None \<Rightarrow> Inr None
      | Some raw \<Rightarrow> (case parse_unsigned (2 ^ 16) raw of None \<Rightarrow> Inl (''invalid '' @ key) | Some p \<Rightarrow> Inr (Some p)))"

definition json_port :: "json \<Rightarrow> string \<Rightarrow> string + nat option" where
  "json_port firebase service =
     (case pointer [''emulators'', service, ''port''] firebase of
        None \<Rightarrow> Inr None
      | Some v \<Rightarrow>
          (case as_u64 v of
             Some p \<Rightarrow> if 0 < p \<and> p < 2 ^ 16 then Inr (Some p)
                       else Inl (''firebase.json emulator `'' @ service @ ''` port must be an integer between 1 and 65535'')
           | None \<Rightarrow> Inl (''firebase.json emulator `'' @ service @ ''` port must be an integer between 1 and 65535'')))"

definition selected_port :: "environment \<Rightarrow> json \<Rightarrow> string \<Rightarrow> string \<Rightarrow> nat \<Rightarrow> string + nat" where
  "selected_port env firebase key service dflt =
     rbind (env_port env key) (\<lambda>e. rbind (json_port firebase service) (\<lambda>j.
       let selected = default_to dflt (alternative e j) in
       if selected = 0 then Inl (key @ '' must be between 1 and 65535'') else Inr selected))"

definition project_candidate :: "config_overrides \<Rightarrow> environment \<Rightarrow> json \<Rightarrow> string" where
  "project_candidate cli env firebaserc =
     default_to ''demo-rust-emu''
       (alternative (cli_project cli) (alternative (sm_get env ''FIREBASE_EMU_PROJECT'')
         (alternative (sm_get env ''GCLOUD_PROJECT'') (alternative (sm_get env ''GOOGLE_CLOUD_PROJECT'')
           (pointer_str [''projects'', ''default''] firebaserc)))))"

definition project_of :: "config_overrides \<Rightarrow> environment \<Rightarrow> json \<Rightarrow> string" where
  "project_of cli env firebaserc =
     (let candidate = project_candidate cli env firebaserc in
      default_to candidate (pointer_str [''projects'', candidate] firebaserc))"

definition explicit_host :: "config_overrides \<Rightarrow> environment \<Rightarrow> string option" where
  "explicit_host cli env = alternative (cli_host cli) (sm_get env ''FIREBASE_EMU_HOST'')"

text \<open>The host given explicitly, else the one of the service in firebase.json, else a fallback.\<close>

definition select_host :: "string option \<Rightarrow> json \<Rightarrow> string \<Rightarrow> string + ip" where
  "select_host explicit firebase service =
     (case explicit of
        Some h \<Rightarrow> parse_loopback_host h False
      | None \<Rightarrow>
          (case pointer_str [''emulators'', service, ''host''] firebase of
             Some h \<Rightarrow> parse_loopback_host h True
           | None \<Rightarrow> Inr localhost))"

definition pubsub_host :: "string option \<Rightarrow> ip \<Rightarrow> json \<Rightarrow> string + ip" where
  "pubsub_host explicit host firebase =
     (if explicit \<noteq> None then Inr host
      else case pointer_str [''emulators'', ''pubsub'', ''host''] firebase of
        Some h \<Rightarrow> parse_loopback_host h True
      | None \<Rightarrow> Inr host)"

definition service_address :: "environment \<Rightarrow> json \<Rightarrow> ip \<Rightarrow> string \<Rightarrow> string \<Rightarrow> nat \<Rightarrow> string + socket_address" where
  "service_address env firebase host key service dflt =
     rbind (selected_port env firebase key service dflt) (\<lambda>p. Inr \<lparr>sa_host = host, sa_port = p\<rparr>)"

definition load_addresses :: "config_overrides \<Rightarrow> environment \<Rightarrow> json \<Rightarrow> string + emulator_addresses" where
  "load_addresses cli env firebase =
     rbind (select_host (explicit_host cli env) firebase ''functions'') (\<lambda>host.
     rbind (env_port env ''FIREBASE_FUNCTIONS_EMU_PORT'') (\<lambda>env_functions.
     rbind (json_port firebase ''functions'') (\<lambda>json_functions.
       let functions_port = default_to 5001 (alternative (cli_functions_port cli) (alternative env_functions json_functions)) in
     rbind (guard (functions_port \<noteq> 0) ''Functions emulator port must be between 1 and 65535'') (\<lambda>_.
     rbind (service_address env firebase host ''FIRESTORE_EMU_PORT'' ''firestore'' 8080) (\<lambda>firestore.
     rbind (service_address env firebase host ''FIREBASE_AUTH_EMU_PORT'' ''auth'' 9099) (\<lambda>auth.
     rbind (service_address env firebase host ''FIREBASE_STORAGE_EMU_PORT'' ''storage'' 9199) (\<lambda>storage.
     rbind (service_address env firebase host ''FIREBASE_DATABASE_EMU_PORT'' ''database'' 9000) (\<lambda>database.
     rbind (pubsub_host (explicit_host cli env) host firebase) (\<lambda>pubsub.
     rbind (selected_port env firebase ''PUBSUB_EMULATOR_PORT'' ''pubsub'' 8085) (\<lambda>pubsub_port.
       Inr \<lparr>ea_functions = \<lparr>sa_host = host, sa_port = functions_port\<rparr>, ea_firestore = firestore, ea_auth = auth,
            ea_storage = storage, ea_database = database,
            ea_pubsub = \<lparr>sa_host = pubsub, sa_port = default_to pubsub_port (cli_pubsub_port cli)\<rparr>\<rparr>))))))))))"

definition load_pubsub_address ::
  "files \<Rightarrow> string option \<Rightarrow> config_overrides \<Rightarrow> environment \<Rightarrow> string + socket_address" where
  "load_pubsub_address fs root cli env =
     rbind (case root of None \<Rightarrow> Inr None | Some r \<Rightarrow> read_optional_json fs (join_path r ''firebase.json'')) (\<lambda>v.
       let firebase = json_or_empty v in
     rbind (select_host (explicit_host cli env) firebase ''pubsub'') (\<lambda>host.
     rbind (selected_port env firebase ''PUBSUB_EMULATOR_PORT'' ''pubsub'' 8085) (\<lambda>p.
       let port = default_to p (cli_pubsub_port cli) in
     rbind (guard (port \<noteq> 0) ''Pub/Sub emulator port must be between 1 and 65535'') (\<lambda>_.
       Inr \<lparr>sa_host = host, sa_port = port\<rparr>))))"

definition ui_file_port :: "json \<Rightarrow> string + nat option" where
  "ui_file_port firebase =
     (case pointer [''emulators'', ''ui'', ''port''] firebase of
        None \<Rightarrow> Inr None
      | Some v \<Rightarrow>
          (case as_u64 v of
             Some p \<Rightarrow> if p < 2 ^ 16 then Inr (Some p)
                       else Inl ''firebase.json emulator `ui` port must be an integer between 0 and 65535''
           | None \<Rightarrow> Inl ''firebase.json emulator `ui` port must be an integer between 0 and 65535''))"

definition load_ui_address ::
  "files \<Rightarrow> string option \<Rightarrow> nat option \<Rightarrow> string option \<Rightarrow> environment \<Rightarrow> string + socket_address" where
  "load_ui_address fs root port host env =
     rbind (case root of None \<Rightarrow> Inr None | Some r \<Rightarrow> read_optional_json fs (join_path r ''firebase.json'')) (\<lambda>v.
       let firebase = json_or_empty v in
     rbind (select_host (alternative host (sm_get env ''FIREBASE_EMU_HOST'')) firebase ''ui'') (\<lambda>h.
     rbind (ui_file_port firebase) (\<lambda>file_port.
     rbind (env_port env ''FIREBASE_UI_EMU_PORT'') (\<lambda>e.
       Inr \<lparr>sa_host = h, sa_port = default_to 4000 (alternative port (alternative e file_port))\<rparr>))))"

end
