(* ===== verification/Functions_Load.thy ===== *)
theory Functions_Load
  imports Functions_Config Json_Eq
begin

text \<open>
  The load of a Functions project, \<open>src/src/functions_config.rs\<close>: the codebases confined to the project,
  their runtimes, the merged runtime configuration, the local dotenv files and the environment of the
  workers; and what the load guarantees: loopback addresses only, a demo project, unambiguous
  merging.
\<close>

subsection \<open>Codebases\<close>

definition confined_source :: "files \<Rightarrow> string \<Rightarrow> string \<Rightarrow> string + string" where
  "confined_source fs root src =
     rbind (guard (\<not> starts_with ''/'' src) ''Functions source must be relative to the Firebase project'') (\<lambda>_.
     rbind (case fs_canonical fs (join_path root src) of
              Inl e \<Rightarrow> Inl (''invalid Functions source '' @ src @ '': '' @ e) | Inr r \<Rightarrow> Inr r) (\<lambda>resolved.
     rbind (guard (path_within root resolved) (''Functions source escapes project root: '' @ src)) (\<lambda>_.
     rbind (guard (fs_is_file fs (join_path resolved ''package.json'')) (''Functions source has no package.json: '' @ resolved)) (\<lambda>_.
       Inr resolved))))"

definition validate_codebase :: "string \<Rightarrow> string + unit" where
  "validate_codebase name =
     guard (name \<noteq> [] \<and> list_all (\<lambda>c. is_alnum c \<or> c = CHR ''-'' \<or> c = CHR ''_'') name)
       (''invalid Functions codebase `'' @ name @ ''`'')"

definition runtime_matches :: "string \<Rightarrow> nat \<Rightarrow> bool" where
  "runtime_matches compact major =
     (compact = show_nat major \<or> compact = show_nat major @ ''.x'' \<or> compact = ''nodejs'' @ show_nat major \<or>
      starts_with (''>='' @ show_nat major @ ''<'' @ show_nat (major + 1)) compact)"

definition resolve_runtime :: "files \<Rightarrow> string option \<Rightarrow> string \<Rightarrow> string + string" where
  "resolve_runtime fs configured src =
     rbind (read_optional_json fs (join_path src ''package.json'')) (\<lambda>v.
       let package = json_or_empty v;
           raw = default_to ''20'' (alternative configured (pointer_str [''engines'', ''node''] package));
           compact = filter (\<lambda>c. c \<noteq> CHR '' '' \<and> c \<noteq> CHR ''v'') raw
       in case List.find (runtime_matches compact) [18, 20, 22] of
            Some major \<Rightarrow> Inr (''nodejs'' @ show_nat major)
          | None \<Rightarrow> Inl (''unsupported Functions Node runtime `'' @ raw @ ''`; expected 18, 20, or 22''))"

definition optional_string :: "string option \<Rightarrow> json" where
  "optional_string s = (case s of None \<Rightarrow> JNull | Some x \<Rightarrow> JString x)"

definition function_entries :: "config_overrides \<Rightarrow> environment \<Rightarrow> json \<Rightarrow> string + json list" where
  "function_entries cli env firebase =
     (case alternative (cli_functions_source cli) (sm_get env ''FIREBASE_FUNCTIONS_SOURCE'') of
        Some src \<Rightarrow> Inr [jobject [(''source'', JString src),
            (''codebase'', optional_string (alternative (cli_functions_codebase cli) (sm_get env ''FIREBASE_FUNCTIONS_CODEBASE''))),
            (''runtime'', optional_string (alternative (cli_functions_runtime cli) (sm_get env ''FIREBASE_FUNCTIONS_RUNTIME'')))]]
      | None \<Rightarrow>
          (case jget ''functions'' firebase of
             Some (JArray items) \<Rightarrow> Inr items
           | Some (JObject m) \<Rightarrow> Inr [JObject m]
           | Some _ \<Rightarrow> Inl ''firebase.json `functions` must be an object or array''
           | None \<Rightarrow> Inr [jobject [(''source'', JString ''functions'')]]))"

text \<open>One entry of the list of \<open>entries\<close> entries; \<open>seen\<close> holds the names so far.\<close>

definition load_codebase ::
  "files \<Rightarrow> string \<Rightarrow> string option \<Rightarrow> string option \<Rightarrow> nat \<Rightarrow> nat \<Rightarrow> string list \<Rightarrow> json \<Rightarrow> string + function_codebase" where
  "load_codebase fs root codebase_override runtime_override entries index seen e =
     rbind (guard (is_object e) ''each Functions configuration must be an object'') (\<lambda>_.
     rbind (confined_source fs root (default_to ''functions'' (Option.bind (jget ''source'' e) as_str))) (\<lambda>src.
       let name = default_to (if entries = 1 then ''default'' else ''codebase-'' @ show_nat index)
                    (alternative codebase_override (Option.bind (jget ''codebase'' e) as_str)) in
     rbind (validate_codebase name) (\<lambda>_.
     rbind (guard (name \<notin> set seen) (''duplicate Functions codebase `'' @ name @ ''`'')) (\<lambda>_.
     rbind (resolve_runtime fs (alternative runtime_override (Option.bind (jget ''runtime'' e) as_str)) src) (\<lambda>r.
       Inr \<lparr>fc_source = src, fc_codebase = name, fc_runtime = r\<rparr>)))))"

fun load_codebases ::
  "files \<Rightarrow> string \<Rightarrow> string option \<Rightarrow> string option \<Rightarrow> nat \<Rightarrow> nat \<Rightarrow> string list \<Rightarrow> json list \<Rightarrow>
   string + function_codebase list" where
  "load_codebases fs root co ro entries index seen [] = Inr []"
| "load_codebases fs root co ro entries index seen (e # es) =
     rbind (load_codebase fs root co ro entries index seen e) (\<lambda>c.
     rbind (load_codebases fs root co ro entries (index + 1) (fc_codebase c # seen) es) (\<lambda>cs. Inr (c # cs)))"

subsection \<open>Runtime configuration\<close>

function merge_objects :: "(string, json) smap \<Rightarrow> (string \<times> json) list \<Rightarrow> string \<Rightarrow> string + (string, json) smap" where
  "merge_objects t [] pre = Inr t"
| "merge_objects t ((k, v) # src) pre =
     (let path = (if pre = [] then k else pre @ ''.'' @ k) in
      rbind (case sm_get t k of
               None \<Rightarrow> Inr (sm_put k v t)
             | Some old \<Rightarrow>
                 (case (old, v) of
                    (JObject e, JObject i) \<Rightarrow> rbind (merge_objects e i path) (\<lambda>m. Inr (sm_put k (JObject m) t))
                  | _ \<Rightarrow> if \<not> json_eq old v then Inl (''conflicting runtime config at `'' @ path @ ''` across codebases'') else Inr t))
        (\<lambda>t'. merge_objects t' src pre))"
  by pat_completeness auto
termination
  by (relation "measure (\<lambda>(t, src, p). size_list (size_prod (\<lambda>_. 0) size) src)") auto

definition validate_object :: "json \<Rightarrow> string \<Rightarrow> string + (string, json) smap" where
  "validate_object v label = of_option (label @ '' must be a JSON object'') (as_object v)"

fun merge_runtime_configs :: "files \<Rightarrow> function_codebase list \<Rightarrow> (string, json) smap \<Rightarrow> string + (string, json) smap" where
  "merge_runtime_configs fs [] acc = Inr acc"
| "merge_runtime_configs fs (c # cs) acc =
     rbind (read_optional_json fs (join_path (fc_source c) ''.runtimeconfig.json'')) (\<lambda>v. case v of
        None \<Rightarrow> merge_runtime_configs fs cs acc
      | Some x \<Rightarrow> rbind (validate_object x ''.runtimeconfig.json'') (\<lambda>m.
                 rbind (merge_objects acc m []) (\<lambda>acc'. merge_runtime_configs fs cs acc')))"

definition load_runtime_config :: "files \<Rightarrow> config_overrides \<Rightarrow> environment \<Rightarrow> function_codebase list \<Rightarrow> string + json" where
  "load_runtime_config fs cli env cs =
     (case cli_runtime_config cli of
        Some v \<Rightarrow> rbind (validate_object v ''command-line runtime config'') (\<lambda>m. Inr (JObject m))
      | None \<Rightarrow>
          (case sm_get env ''FIREBASE_EMU_RUNTIME_CONFIG'' of
             Some raw \<Rightarrow>
               rbind (case fs_json fs raw of Inl e \<Rightarrow> Inl (''malformed FIREBASE_EMU_RUNTIME_CONFIG: '' @ e) | Inr v \<Rightarrow> Inr v)
                 (\<lambda>v. rbind (validate_object v ''FIREBASE_EMU_RUNTIME_CONFIG'') (\<lambda>m. Inr (JObject m)))
           | None \<Rightarrow> rbind (merge_runtime_configs fs cs []) (\<lambda>m. Inr (JObject m))))"

subsection \<open>Dotenv files\<close>

definition quoted :: "char \<Rightarrow> string \<Rightarrow> bool" where
  "quoted q s = (length s \<ge> 2 \<and> hd s = q \<and> List.last s = q)"

definition trim_end :: "string \<Rightarrow> string" where
  "trim_end s = rev (dropWhile is_space (rev s))"

definition dotenv_value :: "string \<Rightarrow> string" where
  "dotenv_value raw =
     (let v = trim raw in
      if quoted (CHR 0x22) v \<or> quoted (CHR 0x27) v then butlast (tl v)
      else trim_end (case split_once '' #'' v of None \<Rightarrow> v | Some (a, _) \<Rightarrow> a))"

definition dotenv_key_ok :: "string \<Rightarrow> bool" where
  "dotenv_key_ok k = (k \<noteq> [] \<and> list_all (\<lambda>c. is_alnum c \<or> c = CHR ''_'') k \<and> \<not> is_digit (hd k))"

definition dotenv_line :: "string \<Rightarrow> nat \<Rightarrow> string \<Rightarrow> string + (string \<times> string) option" where
  "dotenv_line path n original =
     (let line = trim original in
      if line = [] \<or> starts_with ''#'' line then Inr None
      else let body = (case strip_prefix ''export '' line of Some r \<Rightarrow> trim_start r | None \<Rightarrow> line) in
        (case split_once ''='' body of
           None \<Rightarrow> Inl (''malformed '' @ path @ '' line '' @ show_nat n)
         | Some (k, v) \<Rightarrow>
             if dotenv_key_ok (trim k) then Inr (Some (trim k, dotenv_value v))
             else Inl (''invalid dotenv key in '' @ path @ '' line '' @ show_nat n)))"

fun dotenv_lines :: "string \<Rightarrow> nat \<Rightarrow> string list \<Rightarrow> environment \<Rightarrow> string + environment" where
  "dotenv_lines path n [] acc = Inr acc"
| "dotenv_lines path n (l # ls) acc =
     rbind (dotenv_line path n l) (\<lambda>r.
       dotenv_lines path (n + 1) ls (case r of None \<Rightarrow> acc | Some (k, v) \<Rightarrow> sm_put k v acc))"

definition parse_dotenv :: "string \<Rightarrow> string \<Rightarrow> string + environment" where
  "parse_dotenv raw path = dotenv_lines path 1 (lines raw) []"

definition add_all :: "environment \<Rightarrow> environment \<Rightarrow> environment" where
  "add_all new acc = fold (\<lambda>(k, v). sm_put k v) new acc"

fun load_dotenv_files :: "files \<Rightarrow> string list \<Rightarrow> environment \<Rightarrow> string + environment" where
  "load_dotenv_files fs [] acc = Inr acc"
| "load_dotenv_files fs (path # ps) acc =
     (if fs_is_file fs path then
        rbind (fs_read fs path) (\<lambda>raw. case raw of
          None \<Rightarrow> Inl (''no such file: '' @ path)
        | Some text \<Rightarrow> rbind (parse_dotenv text path) (\<lambda>new. load_dotenv_files fs ps (add_all new acc)))
      else load_dotenv_files fs ps acc)"

definition dotenv_paths :: "function_codebase list \<Rightarrow> string \<Rightarrow> string list" where
  "dotenv_paths cs project = concat (map (\<lambda>c. [join_path (fc_source c) (''.env.'' @ project), join_path (fc_source c) ''.env.local'']) cs)"

definition load_local_dotenv :: "files \<Rightarrow> function_codebase list \<Rightarrow> string \<Rightarrow> environment \<Rightarrow> string + environment" where
  "load_local_dotenv fs cs project env =
     rbind (load_dotenv_files fs (dotenv_paths cs project) []) (\<lambda>values.
       Inr (sm_update (\<lambda>k v. default_to v (sm_get env k)) values))"

subsection \<open>The load\<close>

definition address_text :: "files \<Rightarrow> socket_address \<Rightarrow> string" where
  "address_text fs a =
     (let h = fs_ip_text fs (sa_host a) in
      (case sa_host a of V4 _ _ _ _ \<Rightarrow> h | V6 _ \<Rightarrow> ''['' @ h @ '']'') @ '':'' @ show_nat (sa_port a))"

definition firebase_config_of :: "files \<Rightarrow> string \<Rightarrow> emulator_addresses \<Rightarrow> json" where
  "firebase_config_of fs project a = jobject
     [(''projectId'', JString project), (''storageBucket'', JString (project @ ''.appspot.com'')),
      (''databaseURL'', JString (''http://'' @ address_text fs (ea_database a) @ ''?ns='' @ project))]"

definition load :: "files \<Rightarrow> string \<Rightarrow> config_overrides \<Rightarrow> environment \<Rightarrow> string + functions_config" where
  "load fs root0 cli env =
     rbind (fs_canonical fs root0) (\<lambda>root.
     rbind (read_optional_json fs (join_path root ''firebase.json'')) (\<lambda>v1.
     rbind (read_optional_json fs (join_path root ''.firebaserc'')) (\<lambda>v2.
       let firebase = json_or_empty v1; project = project_of cli env (json_or_empty v2) in
     rbind (validate_demo_project project) (\<lambda>_.
     rbind (load_addresses cli env firebase) (\<lambda>addrs.
     rbind (function_entries cli env firebase) (\<lambda>es.
     rbind (guard (es \<noteq> []) ''firebase.json `functions` array must not be empty'') (\<lambda>_.
     rbind (load_codebases fs root
              (alternative (cli_functions_codebase cli) (sm_get env ''FIREBASE_FUNCTIONS_CODEBASE''))
              (alternative (cli_functions_runtime cli) (sm_get env ''FIREBASE_FUNCTIONS_RUNTIME''))
              (length es) 0 [] es) (\<lambda>cs.
     rbind (load_runtime_config fs cli env cs) (\<lambda>rc.
     rbind (load_local_dotenv fs cs project env) (\<lambda>local.
       Inr \<lparr>config_project = project, codebases = cs, addresses = addrs,
            firebase_config = firebase_config_of fs project addrs, runtime_config = rc,
            local_environment = local\<rparr>))))))))))"

definition child_environment :: "files \<Rightarrow> functions_config \<Rightarrow> environment" where
  "child_environment fs c =
     fold (\<lambda>(k, v). sm_put k v)
       [(''GCLOUD_PROJECT'', config_project c), (''GOOGLE_CLOUD_PROJECT'', config_project c),
        (''FIREBASE_CONFIG'', fs_json_text fs (firebase_config c)),
        (''CLOUD_RUNTIME_CONFIG'', fs_json_text fs (runtime_config c)),
        (''FIRESTORE_EMULATOR_HOST'', address_text fs (ea_firestore (addresses c))),
        (''FIREBASE_AUTH_EMULATOR_HOST'', address_text fs (ea_auth (addresses c))),
        (''FIREBASE_STORAGE_EMULATOR_HOST'', address_text fs (ea_storage (addresses c))),
        (''FIREBASE_DATABASE_EMULATOR_HOST'', address_text fs (ea_database (addresses c))),
        (''PUBSUB_EMULATOR_HOST'', address_text fs (ea_pubsub (addresses c))),
        (''FUNCTIONS_EMULATOR'', ''true''), (''NODE_ENV'', ''development'')]
       (local_environment c)"

subsection \<open>What the load guarantees\<close>

definition local_address :: "socket_address \<Rightarrow> bool" where
  "local_address a = (is_loopback (sa_host a) \<and> 0 < sa_port a \<and> sa_port a < 2 ^ 16)"

lemma parse_loopback_host_Inr: "parse_loopback_host h b = Inr a \<Longrightarrow> is_loopback a"
  by (auto simp: parse_loopback_host_def Let_def split: option.splits if_splits)

lemma select_host_Inr: "select_host e f service = Inr a \<Longrightarrow> is_loopback a"
  by (auto simp: select_host_def dest: parse_loopback_host_Inr split: option.splits)

lemma pubsub_host_Inr: "pubsub_host e h f = Inr a \<Longrightarrow> is_loopback h \<Longrightarrow> is_loopback a"
  by (auto simp: pubsub_host_def dest: parse_loopback_host_Inr split: option.splits if_splits)

lemma parse_unsigned_bound: "parse_unsigned b s = Some n \<Longrightarrow> n < b"
  by (auto simp: parse_unsigned_def Let_def split: if_splits)

lemma env_port_Inr: "env_port env key = Inr (Some p) \<Longrightarrow> p < 2 ^ 16"
  by (auto simp: env_port_def dest!: parse_unsigned_bound split: option.splits)

lemma json_port_Inr: "json_port f service = Inr (Some p) \<Longrightarrow> 0 < p \<and> p < 2 ^ 16"
  by (auto simp: json_port_def split: option.splits if_splits)

lemma selected_port_Inr:
  assumes "selected_port env f key service d = Inr p" "d < 2 ^ 16"
  shows "0 < p \<and> p < 2 ^ 16"
proof -
  obtain e j where x: "env_port env key = Inr e" "json_port f service = Inr j"
      "(if default_to d (alternative e j) = 0 then Inl (key @ '' must be between 1 and 65535'')
        else Inr (default_to d (alternative e j))) = Inr p"
    using assms(1) unfolding selected_port_def rbind_Inr_iff Let_def by blast
  then have p: "p = default_to d (alternative e j)" "p \<noteq> 0" by (auto split: if_splits)
  have "default_to d (alternative e j) < 2 ^ 16"
    using env_port_Inr[of env key] json_port_Inr[of f service] x(1,2) assms(2)
    by (cases e; cases j) (simp_all add: default_to_def alternative_def)
  then show ?thesis using p by simp
qed

lemma service_address_Inr:
  "service_address env f h key service d = Inr a \<Longrightarrow> is_loopback h \<Longrightarrow> d < 2 ^ 16 \<Longrightarrow> local_address a"
  unfolding service_address_def rbind_Inr_iff by (auto simp: local_address_def dest!: selected_port_Inr)

definition small_port :: "nat option \<Rightarrow> bool" where
  "small_port p = (case p of None \<Rightarrow> True | Some n \<Rightarrow> n < 2 ^ 16)"

definition all_local :: "emulator_addresses \<Rightarrow> bool" where
  "all_local a = (local_address (ea_functions a) \<and> local_address (ea_firestore a) \<and> local_address (ea_auth a) \<and>
     local_address (ea_storage a) \<and> local_address (ea_database a) \<and> local_address (ea_pubsub a))"

lemma load_addresses_Inr:
  assumes "load_addresses cli env f = Inr a" "small_port (cli_functions_port cli)" "small_port (cli_pubsub_port cli)"
    "cli_pubsub_port cli \<noteq> Some 0"
  shows "all_local a"
proof -
  obtain h e j p fs au st db ph pp where x: "select_host (explicit_host cli env) f ''functions'' = Inr h"
      "env_port env ''FIREBASE_FUNCTIONS_EMU_PORT'' = Inr e" "json_port f ''functions'' = Inr j"
      "p = default_to 5001 (alternative (cli_functions_port cli) (alternative e j))" "p \<noteq> 0"
      "service_address env f h ''FIRESTORE_EMU_PORT'' ''firestore'' 8080 = Inr fs"
      "service_address env f h ''FIREBASE_AUTH_EMU_PORT'' ''auth'' 9099 = Inr au"
      "service_address env f h ''FIREBASE_STORAGE_EMU_PORT'' ''storage'' 9199 = Inr st"
      "service_address env f h ''FIREBASE_DATABASE_EMU_PORT'' ''database'' 9000 = Inr db"
      "pubsub_host (explicit_host cli env) h f = Inr ph" "selected_port env f ''PUBSUB_EMULATOR_PORT'' ''pubsub'' 8085 = Inr pp"
      "a = \<lparr>ea_functions = \<lparr>sa_host = h, sa_port = p\<rparr>, ea_firestore = fs, ea_auth = au, ea_storage = st, ea_database = db,
            ea_pubsub = \<lparr>sa_host = ph, sa_port = default_to pp (cli_pubsub_port cli)\<rparr>\<rparr>"
    using assms(1) unfolding load_addresses_def rbind_Inr_iff Let_def guard_iff by auto
  have h: "is_loopback h" by (rule select_host_Inr[OF x(1)])
  have "p < 2 ^ 16" using x(2-4) assms(2)
    by (auto simp: default_to_def alternative_def small_port_def dest!: env_port_Inr json_port_Inr split: option.splits)
  moreover have "is_loopback ph" by (rule pubsub_host_Inr[OF x(10) h])
  moreover have "0 < pp \<and> pp < 2 ^ 16" by (rule selected_port_Inr[OF x(11)]) simp
  moreover have "local_address fs" "local_address au" "local_address st" "local_address db"
    using service_address_Inr[OF x(6) h] service_address_Inr[OF x(7) h] service_address_Inr[OF x(8) h]
      service_address_Inr[OF x(9) h] by simp_all
  ultimately show ?thesis using h x(5) assms(3,4)
    by (auto simp: all_local_def x(12) local_address_def default_to_def small_port_def split: option.splits)
qed

lemma confined_source_Inr: "confined_source fs root src = Inr r \<Longrightarrow> path_within root r"
  unfolding confined_source_def rbind_Inr_iff guard_iff by auto

definition supported_runtimes :: "string list" where
  "supported_runtimes = map (\<lambda>m. ''nodejs'' @ show_nat m) [18, 20, 22]"

lemma find_in_set: "List.find P xs = Some x \<Longrightarrow> x \<in> set xs"
  by (auto simp: find_Some_iff)

lemma resolve_runtime_Inr:
  assumes "resolve_runtime fs c src = Inr r"
  shows "r \<in> set supported_runtimes"
proof -
  obtain compact raw where "(case List.find (runtime_matches compact) [18, 20, 22] of
      Some major \<Rightarrow> Inr (''nodejs'' @ show_nat major)
    | None \<Rightarrow> Inl (''unsupported Functions Node runtime `'' @ raw @ ''`; expected 18, 20, or 22'')) = Inr r"
    using assms unfolding resolve_runtime_def rbind_Inr_iff Let_def by blast
  then obtain m where m: "List.find (runtime_matches compact) [18, 20, 22] = Some m" "r = ''nodejs'' @ show_nat m"
    by (cases "List.find (runtime_matches compact) [18, 20, 22]") (simp_all del: find.simps)
  show ?thesis unfolding supported_runtimes_def set_map m(2) by (rule imageI, rule find_in_set[OF m(1)])
qed

definition codebase_ok :: "string \<Rightarrow> function_codebase \<Rightarrow> bool" where
  "codebase_ok root c = (path_within root (fc_source c) \<and> fc_runtime c \<in> set supported_runtimes)"

lemma load_codebase_Inr:
  assumes "load_codebase fs root co ro n i seen e = Inr c"
  shows "codebase_ok root c \<and> fc_codebase c \<notin> set seen"
proof -
  obtain src r name where "confined_source fs root (default_to ''functions'' (Option.bind (jget ''source'' e) as_str)) = Inr src"
      "name \<notin> set seen" "resolve_runtime fs (alternative ro (Option.bind (jget ''runtime'' e) as_str)) src = Inr r"
      "c = \<lparr>fc_source = src, fc_codebase = name, fc_runtime = r\<rparr>"
    using assms unfolding load_codebase_def rbind_Inr_iff Let_def guard_iff by blast
  then show ?thesis using confined_source_Inr resolve_runtime_Inr by (simp add: codebase_ok_def)
qed

lemma load_codebases_Inr:
  "load_codebases fs root co ro n i seen es = Inr cs \<Longrightarrow>
   list_all (codebase_ok root) cs \<and> distinct (map fc_codebase cs) \<and> set (map fc_codebase cs) \<inter> set seen = {} \<and> length cs = length es"
proof (induction es arbitrary: i seen cs)
  case (Cons e es)
  then obtain c ds where c: "load_codebase fs root co ro n i seen e = Inr c"
      "load_codebases fs root co ro n (i + 1) (fc_codebase c # seen) es = Inr ds" "cs = c # ds"
    by (auto simp: rbind_Inr_iff)
  show ?case using load_codebase_Inr[OF c(1)] Cons.IH[OF c(2)] c(3) by auto
qed simp

text \<open>
  A project that loads stays local: whatever its files, the command line and the environment say, every
  emulator address is a loopback address with a usable port, the project is a demo project, every
  codebase lies within the project directory, and codebases have different names and a supported
  runtime.  The one exception is a Pub/Sub port zero on the command line.
\<close>

lemma load_project_local:
  assumes "load fs root cli env = Inr c"
  shows "starts_with ''demo-'' (config_project c) \<and> codebases c \<noteq> [] \<and> distinct (map fc_codebase (codebases c)) \<and>
    (\<exists>dir. fs_canonical fs root = Inr dir \<and> list_all (codebase_ok dir) (codebases c))"
proof -
  obtain dir v es cs where x: "fs_canonical fs root = Inr dir"
      "validate_demo_project (project_of cli env (json_or_empty v)) = Inr ()" "es \<noteq> []"
      "load_codebases fs dir (alternative (cli_functions_codebase cli) (sm_get env ''FIREBASE_FUNCTIONS_CODEBASE''))
        (alternative (cli_functions_runtime cli) (sm_get env ''FIREBASE_FUNCTIONS_RUNTIME'')) (length es) 0 [] es = Inr cs"
      "codebases c = cs" "config_project c = project_of cli env (json_or_empty v)"
    using assms unfolding load_def rbind_Inr_iff Let_def guard_iff by auto
  have "starts_with ''demo-'' (config_project c)" using x(2,6) unfolding validate_demo_project_def guard_iff by simp
  then show ?thesis using load_codebases_Inr[OF x(4)] x(1,3,5) by auto
qed

lemma load_addresses_local:
  assumes "load fs root cli env = Inr c"
    and "small_port (cli_functions_port cli)" "small_port (cli_pubsub_port cli)" "cli_pubsub_port cli \<noteq> Some 0"
  shows "all_local (addresses c)"
proof -
  obtain firebase addrs where "load_addresses cli env firebase = Inr addrs" "addresses c = addrs"
    using assms(1) unfolding load_def rbind_Inr_iff Let_def guard_iff by auto
  then show ?thesis using load_addresses_Inr[OF _ assms(2-4)] by simp
qed

subsection \<open>A project without files\<close>

definition plain_files :: files where
  "plain_files =
     \<lparr>fs_read = (\<lambda>_. Inr None), fs_canonical = Inr, fs_is_file = (\<lambda>p. p = ''/p/functions/package.json''),
      fs_json = (\<lambda>_. Inl ''not JSON''), fs_json_text = (\<lambda>_. []), fs_ip_text = (\<lambda>_. [])\<rparr>"

definition no_overrides :: config_overrides where
  "no_overrides = \<lparr>cli_project = Some ''demo-p'', cli_host = None, cli_functions_port = None, cli_pubsub_port = None,
     cli_functions_source = None, cli_functions_codebase = None, cli_functions_runtime = None, cli_runtime_config = None\<rparr>"

lemma plain_read: "read_optional_json plain_files p = Inr None"
  by (simp add: read_optional_json_def plain_files_def)

lemma plain_addresses: "\<exists>a. load_addresses no_overrides [] (JObject []) = Inr a"
  by (simp add: load_addresses_def no_overrides_def explicit_host_def select_host_def alternative_def default_to_def
    env_port_def json_port_def jget_def guard_def rbind_def service_address_def selected_port_def pubsub_host_def pointer_str_def)

lemma plain_entries: "function_entries no_overrides [] (JObject []) = Inr [jobject [(''source'', JString ''functions'')]]"
  by (simp add: function_entries_def no_overrides_def alternative_def jget_def)

lemma plain_source: "confined_source plain_files ''/p'' ''functions'' = Inr ''/p/functions''"
  by (simp add: confined_source_def plain_files_def guard_def join_path_def path_within_def path_components_def
      starts_with_def ends_with_def strip_suffix_def)

lemma plain_runtime: "resolve_runtime plain_files None p = Inr ''nodejs20''"
  by (simp add: resolve_runtime_def plain_read json_or_empty_def pointer_str_def jget_def default_to_def alternative_def
      runtime_matches_def Let_def starts_with_def show_nat.simps digit_char_def String.char_of_def bit_0)

lemma plain_name: "validate_codebase ''default'' = Inr ()"
  by (simp add: validate_codebase_def guard_def is_alnum_def is_alpha_def is_lower_def)

lemma plain_codebase:
  "load_codebase plain_files ''/p'' None None 1 0 [] (jobject [(''source'', JString ''functions'')]) =
   Inr \<lparr>fc_source = ''/p/functions'', fc_codebase = ''default'', fc_runtime = ''nodejs20''\<rparr>"
proof -
  have o: "jobject [(''source'', JString ''functions'')] = JObject [(''source'', JString ''functions'')]"
    by (simp add: jobject_def sm_of_list_def)
  show ?thesis unfolding load_codebase_def o
    by (simp add: is_object_def as_str_def jget_def default_to_def alternative_def plain_source plain_name plain_runtime guard_def Let_def)
qed

lemma plain_codebases: "\<exists>cs. load_codebases plain_files ''/p'' None None 1 0 [] [jobject [(''source'', JString ''functions'')]] = Inr cs \<and>
    load_runtime_config plain_files no_overrides [] cs = Inr (JObject []) \<and>
    load_local_dotenv plain_files cs ''demo-p'' [] = Inr []"
proof -
  have "load_runtime_config plain_files no_overrides [] [\<lparr>fc_source = ''/p/functions'', fc_codebase = ''default'', fc_runtime = ''nodejs20''\<rparr>] = Inr (JObject [])"
    by (simp add: load_runtime_config_def no_overrides_def plain_read)
  moreover have "load_local_dotenv plain_files [\<lparr>fc_source = ''/p/functions'', fc_codebase = ''default'', fc_runtime = ''nodejs20''\<rparr>] ''demo-p'' [] = Inr []"
    by (simp add: load_local_dotenv_def dotenv_paths_def join_path_def starts_with_def ends_with_def strip_suffix_def plain_files_def sm_update_def)
  ultimately show ?thesis using plain_codebase by simp
qed

lemma plain_load: "\<exists>c. load plain_files ''/p'' no_overrides [] = Inr c"
proof -
  obtain a where a: "load_addresses no_overrides [] (JObject []) = Inr a" using plain_addresses by blast
  obtain cs where cs: "load_codebases plain_files ''/p'' None None 1 0 [] [jobject [(''source'', JString ''functions'')]] = Inr cs"
    "load_runtime_config plain_files no_overrides [] cs = Inr (JObject [])" "load_local_dotenv plain_files cs ''demo-p'' [] = Inr []"
    using plain_codebases by blast
  have p: "project_of no_overrides [] (JObject []) = ''demo-p''"
    by (simp add: project_of_def project_candidate_def no_overrides_def alternative_def default_to_def pointer_str_def jget_def Let_def)
  have v: "validate_demo_project ''demo-p'' = Inr ()"
    by (simp add: validate_demo_project_def guard_def starts_with_def is_lower_def is_digit_def)
  have n: "cli_functions_codebase no_overrides = None" "cli_functions_runtime no_overrides = None"
    by (simp_all add: no_overrides_def)
  have c: "fs_canonical plain_files ''/p'' = Inr ''/p''" by (simp add: plain_files_def)
  show ?thesis
    using cs by (simp add: load_def c plain_read json_or_empty_def default_to_def p v a plain_entries guard_def n alternative_def Let_def)
qed

end
