(* ===== verification/Functions_Merge.thy ===== *)
theory Functions_Merge
  imports Functions_Load
begin

text \<open>
  The merge of the runtime configurations of several codebases, \<open>merge_objects\<close> in
  \<open>src/src/functions_config.rs\<close>, seen as sets of leaves: the values that are not objects, each at
  its path of keys.
\<close>

text \<open>Objects without duplicate keys, as the parser builds them.\<close>

fun json_wf :: "json \<Rightarrow> bool" where
  "json_wf (JObject m) = (sm_wf m \<and> list_all (\<lambda>(k, v). json_wf v) m)"
| "json_wf (JArray vs) = list_all json_wf vs"
| "json_wf _ = True"

definition leaf_at :: "(string, json) smap \<Rightarrow> string list \<Rightarrow> json \<Rightarrow> bool" where
  "leaf_at m ks v = (ks \<noteq> [] \<and> pointer ks (JObject m) = Some v \<and> \<not> is_object v)"

lemma leaf_at_Cons: "leaf_at m (k # ks) v \<longleftrightarrow>
    (case sm_get m k of None \<Rightarrow> False
     | Some (JObject n) \<Rightarrow> leaf_at n ks v
     | Some x \<Rightarrow> ks = [] \<and> v = x)"
  by (cases ks) (auto simp: leaf_at_def jget_def is_object_def split: option.splits json.splits)

lemma leaf_at_Nil [simp]: "\<not> leaf_at m [] v"
  by (simp add: leaf_at_def)

text \<open>\<open>r\<close> has the leaves of both, and no other.\<close>

definition joins :: "(string, json) smap \<Rightarrow> (string \<times> json) list \<Rightarrow> (string, json) smap \<Rightarrow> bool" where
  "joins t src r =
     ((\<forall>ks v. leaf_at t ks v \<longrightarrow> leaf_at r ks v) \<and>
      (\<forall>ks v. leaf_at src ks v \<longrightarrow> (\<exists>v'. leaf_at r ks v' \<and> (v' = v \<or> json_eq v' v))) \<and>
      (\<forall>ks v. leaf_at r ks v \<longrightarrow> leaf_at t ks v \<or> leaf_at src ks v))"

lemma leaf_at_empty [simp]: "\<not> leaf_at [] ks v"
  by (cases ks) (simp_all add: leaf_at_Cons)

lemma joins_Nil: "joins t [] t"
  by (simp add: joins_def)

lemma leaf_at_one: "leaf_at [(k, v)] (l # ls) x \<longleftrightarrow> l = k \<and> leaf_at ((k, v) # src) (k # ls) x"
  by (simp add: leaf_at_Cons)

lemma leaf_at_split:
  assumes "k \<notin> fst ` set src"
  shows "leaf_at ((k, v) # src) ks x \<longleftrightarrow> leaf_at [(k, v)] ks x \<or> leaf_at src ks x"
proof (cases ks)
  case (Cons l ls)
  have n: "sm_get src k = None" using assms by (simp add: sm_get_None)
  show ?thesis using n unfolding Cons leaf_at_Cons by (cases "l = k") simp_all
qed simp

lemma joins_Cons:
  assumes "joins t [(k, v)] t'" "joins t' src r" "k \<notin> fst ` set src"
  shows "joins t ((k, v) # src) r"
proof -
  have a: "leaf_at t ks x \<Longrightarrow> leaf_at t' ks x" "leaf_at t' ks x \<Longrightarrow> leaf_at t ks x \<or> leaf_at [(k, v)] ks x"
      "leaf_at [(k, v)] ks x \<Longrightarrow> \<exists>y. leaf_at t' ks y \<and> (y = x \<or> json_eq y x)" for ks x
    using assms(1) by (simp_all add: joins_def)
  have b: "leaf_at t' ks x \<Longrightarrow> leaf_at r ks x" "leaf_at r ks x \<Longrightarrow> leaf_at t' ks x \<or> leaf_at src ks x"
      "leaf_at src ks x \<Longrightarrow> \<exists>y. leaf_at r ks y \<and> (y = x \<or> json_eq y x)" for ks x
    using assms(2) by (simp_all add: joins_def)
  show ?thesis unfolding joins_def leaf_at_split[OF assms(3)]
    using a b by (intro conjI allI impI) (fast+)
qed

lemma leaf_at_put:
  "sm_wf t \<Longrightarrow> leaf_at (sm_put k y t) (l # ls) x \<longleftrightarrow> (if l = k then leaf_at [(k, y)] (k # ls) x else leaf_at t (l # ls) x)"
  by (simp add: leaf_at_Cons)

lemma joins_new:
  assumes "sm_wf t" "sm_get t k = None"
  shows "joins t [(k, v)] (sm_put k v t)"
proof -
  have no: "\<not> leaf_at t (k # ls) x" for ls x using assms(2) by (simp add: leaf_at_Cons)
  have one: "leaf_at [(k, v)] (l # ls) x \<Longrightarrow> l = k" for l ls x by (simp add: leaf_at_Cons split: if_splits)
  have p: "leaf_at (sm_put k v t) ks x \<longleftrightarrow> leaf_at t ks x \<or> leaf_at [(k, v)] ks x" for ks x
  proof (cases ks)
    case (Cons l ls)
    show ?thesis
    proof (cases "l = k")
      case True
      then show ?thesis using no unfolding Cons leaf_at_put[OF assms(1)] by simp
    next
      case False
      then have "\<not> leaf_at [(k, v)] (l # ls) x" using one by blast
      then show ?thesis using False unfolding Cons leaf_at_put[OF assms(1)] by simp
    qed
  qed simp
  show ?thesis unfolding joins_def p by blast
qed

lemma joins_object:
  assumes "sm_wf t" "sm_get t k = Some (JObject e)" "joins e i m"
  shows "joins t [(k, JObject i)] (sm_put k (JObject m) t)"
proof -
  have one: "leaf_at [(k, JObject n)] (l # ls) x \<longleftrightarrow> l = k \<and> leaf_at n ls x" for n l ls x
    by (simp add: leaf_at_Cons)
  have t: "leaf_at t (k # ls) x \<longleftrightarrow> leaf_at e ls x" for ls x using assms(2) by (simp add: leaf_at_Cons)
  have p: "leaf_at (sm_put k (JObject m) t) (l # ls) x \<longleftrightarrow> (if l = k then leaf_at m ls x else leaf_at t (l # ls) x)" for l ls x
    by (simp add: leaf_at_put[OF assms(1)] one)
  have j: "leaf_at e ls x \<Longrightarrow> leaf_at m ls x" "leaf_at m ls x \<Longrightarrow> leaf_at e ls x \<or> leaf_at i ls x"
      "leaf_at i ls x \<Longrightarrow> \<exists>x'. leaf_at m ls x' \<and> (x' = x \<or> json_eq x' x)" for ls x
    using assms(3) unfolding joins_def by blast+
  have "leaf_at (sm_put k (JObject m) t) ks v" if "leaf_at t ks v" for ks v
    using that j(1) t p by (cases ks) auto
  moreover have "\<exists>v'. leaf_at (sm_put k (JObject m) t) ks v' \<and> (v' = v \<or> json_eq v' v)"
    if "leaf_at [(k, JObject i)] ks v" for ks v
    using that j(3) one p by (cases ks) auto
  moreover have "leaf_at t ks v \<or> leaf_at [(k, JObject i)] ks v" if "leaf_at (sm_put k (JObject m) t) ks v" for ks v
    using that j(2) one p t by (cases ks) (auto split: if_splits)
  ultimately show ?thesis unfolding joins_def by blast
qed

lemma joins_equal:
  assumes "sm_get t k = Some old" "json_eq old v" "\<not> (is_object old \<and> is_object v)"
  shows "joins t [(k, v)] t"
proof -
  have "is_object old = is_object v" using assms(2) by (cases old; cases v) (auto simp: is_object_def)
  then have o: "\<not> is_object old" "\<not> is_object v" using assms(3) by auto
  have "\<exists>v'. leaf_at t ks v' \<and> (v' = x \<or> json_eq v' x)" if "leaf_at [(k, v)] ks x" for ks x
  proof -
    have "ks = [k]" "x = v"
      using that o(2) by (cases ks; auto simp: leaf_at_Cons is_object_def split: if_splits json.splits)+
    moreover have "leaf_at t [k] old" using assms(1) o(1) by (auto simp: leaf_at_Cons is_object_def split: json.splits)
    ultimately show ?thesis using assms(2) by blast
  qed
  then show ?thesis by (simp add: joins_def)
qed

lemma json_wf_get: "sm_get m k = Some x \<Longrightarrow> json_wf (JObject m) \<Longrightarrow> json_wf x"
  using sm_get_in[of m k x] by (auto simp: list_all_iff)

lemma json_wf_put: "json_wf (JObject m) \<Longrightarrow> json_wf x \<Longrightarrow> json_wf (JObject (sm_put k x m))"
  by (auto simp: list_all_iff set_sm_put)

lemma merge_step:
  assumes "(case sm_get t k of None \<Rightarrow> Inr (sm_put k v t)
      | Some old \<Rightarrow> (case (old, v) of (JObject e, JObject i) \<Rightarrow> rbind (merge_objects e i path) (\<lambda>m. Inr (sm_put k (JObject m) t))
          | _ \<Rightarrow> if \<not> json_eq old v then Inl err else Inr t)) = Inr t'"
    and "json_wf (JObject t)" "json_wf v"
    and "\<And>e i m. sm_get t k = Some (JObject e) \<Longrightarrow> v = JObject i \<Longrightarrow> merge_objects e i path = Inr m \<Longrightarrow>
        json_wf (JObject e) \<Longrightarrow> json_wf (JObject m) \<and> joins e i m"
  shows "json_wf (JObject t') \<and> joins t [(k, v)] t'"
proof (cases "sm_get t k")
  case None
  then have "t' = sm_put k v t" using assms(1) by simp
  then show ?thesis using json_wf_put[OF assms(2,3)] joins_new[OF _ None] assms(2) by simp
next
  case (Some old)
  show ?thesis
  proof (cases "is_object old \<and> is_object v")
    case True
    then obtain e i where o: "old = JObject e" "v = JObject i" by (cases old; cases v) (simp_all add: is_object_def)
    then obtain m where m: "merge_objects e i path = Inr m" "t' = sm_put k (JObject m) t"
      using assms(1) Some by (auto simp: rbind_Inr_iff)
    have j: "json_wf (JObject m) \<and> joins e i m" 
      using Some o m(1) json_wf_get[OF Some assms(2)] by (intro assms(4)) simp_all
    then show ?thesis unfolding m(2) o(2)
      using json_wf_put[OF assms(2), of "JObject m" k] joins_object[of t k e i m] Some o(1) assms(2) by simp
  next
    case False
    have "t' = t \<and> json_eq old v" using assms(1) Some False
      by (cases old; cases v) (simp_all add: is_object_def split: if_splits)
    then show ?thesis using joins_equal[OF Some _ False] assms(2) by simp
  qed
qed

lemma merge_objects_joins:
  "merge_objects t src pre = Inr r \<Longrightarrow> json_wf (JObject t) \<Longrightarrow> json_wf (JObject src) \<Longrightarrow> json_wf (JObject r) \<and> joins t src r"
proof (induction "size_list (size_prod (\<lambda>_. 0) size) src" arbitrary: t src pre r rule: less_induct)
  case less
  show ?case
  proof (cases src)
    case Nil
    then show ?thesis using less.prems by (simp add: joins_Nil)
  next
    case (Cons kv src')
    obtain k v where kv: "kv = (k, v)" by (cases kv)
    obtain path t' err where t': "(case sm_get t k of None \<Rightarrow> Inr (sm_put k v t)
        | Some old \<Rightarrow> (case (old, v) of (JObject e, JObject i) \<Rightarrow> rbind (merge_objects e i path) (\<lambda>m. Inr (sm_put k (JObject m) t))
            | _ \<Rightarrow> if \<not> json_eq old v then Inl err else Inr t)) = Inr t'"
      "merge_objects t' src' pre = Inr r"
      using less.prems(1) unfolding Cons kv merge_objects.simps Let_def rbind_Inr_iff by blast
    have wf: "json_wf v" "json_wf (JObject src')" "k \<notin> fst ` set src'" using less.prems(3) Cons kv by auto
    have "json_wf (JObject t') \<and> joins t [(k, v)] t'"
    proof (rule merge_step[OF t'(1) less.prems(2) wf(1)])
      fix e i m
      assume a: "sm_get t k = Some (JObject e)" "v = JObject i" "merge_objects e i path = Inr m" "json_wf (JObject e)"
      show "json_wf (JObject m) \<and> joins e i m"
        by (rule less.hyps[OF _ a(3,4)]) (use wf(1) a(2) Cons kv in simp_all)
    qed
    moreover from this have "json_wf (JObject r) \<and> joins t' src' r"
      by (intro less.hyps[OF _ t'(2) _ wf(2)]) (simp_all add: Cons kv)
    ultimately show ?thesis using joins_Cons[OF _ _ wf(3)] Cons kv by blast
  qed
qed

definition codebase_config :: "files \<Rightarrow> function_codebase \<Rightarrow> (string, json) smap \<Rightarrow> bool" where
  "codebase_config fs c m =
     (read_optional_json fs (join_path (fc_source c) ''.runtimeconfig.json'') = Inr (Some (JObject m)))"

definition parses_objects :: "files \<Rightarrow> bool" where
  "parses_objects fs = (\<forall>s v. fs_json fs s = Inr v \<longrightarrow> json_wf v)"

lemma codebase_config_wf: "parses_objects fs \<Longrightarrow> codebase_config fs c m \<Longrightarrow> json_wf (JObject m)"
  unfolding codebase_config_def read_optional_json_def rbind_Inr_iff parses_objects_def
  by (elim exE conjE) (simp del: json_wf.simps split: option.splits sum.splits)

lemma codebase_config_unique: "codebase_config fs c m \<Longrightarrow> codebase_config fs c n \<Longrightarrow> n = m"
  by (simp add: codebase_config_def)

lemma merge_runtime_configs_Cons:
  "merge_runtime_configs fs (c # cs) acc = Inr r \<Longrightarrow>
   merge_runtime_configs fs cs acc = Inr r \<and> (\<forall>m. \<not> codebase_config fs c m) \<or>
   (\<exists>m acc'. codebase_config fs c m \<and> merge_objects acc m [] = Inr acc' \<and> merge_runtime_configs fs cs acc' = Inr r)"
  unfolding merge_runtime_configs.simps rbind_Inr_iff
proof (elim exE conjE)
  fix v
  assume v: "read_optional_json fs (join_path (fc_source c) ''.runtimeconfig.json'') = Inr v"
    and r: "(case v of None \<Rightarrow> merge_runtime_configs fs cs acc
      | Some x \<Rightarrow> rbind (validate_object x ''.runtimeconfig.json'') (\<lambda>m. rbind (merge_objects acc m []) (\<lambda>acc'. merge_runtime_configs fs cs acc'))) = Inr r"
  show ?thesis
  proof (cases v)
    case None
    then show ?thesis using v r by (simp add: codebase_config_def)
  next
    case (Some x)
    then obtain m acc' where m: "validate_object x ''.runtimeconfig.json'' = Inr m" "merge_objects acc m [] = Inr acc'"
        "merge_runtime_configs fs cs acc' = Inr r"
      using r by (auto simp: rbind_Inr_iff)
    have "x = JObject m" using m(1) by (cases x) (simp_all add: validate_object_def of_option_def as_object_def)
    then show ?thesis using v m(2,3) Some unfolding codebase_config_def by blast
  qed
qed

lemma merge_runtime_configs_joins:
  assumes "parses_objects fs"
  shows "merge_runtime_configs fs cs acc = Inr r \<Longrightarrow> json_wf (JObject acc) \<Longrightarrow>
    (\<forall>ks v. leaf_at acc ks v \<longrightarrow> leaf_at r ks v) \<and>
    (\<forall>c m ks v. c \<in> set cs \<and> codebase_config fs c m \<and> leaf_at m ks v \<longrightarrow> (\<exists>v'. leaf_at r ks v' \<and> (v' = v \<or> json_eq v' v))) \<and>
    (\<forall>ks v. leaf_at r ks v \<longrightarrow> leaf_at acc ks v \<or> (\<exists>c m. c \<in> set cs \<and> codebase_config fs c m \<and> leaf_at m ks v))"
proof (induction cs arbitrary: acc)
  case (Cons c cs)
  from merge_runtime_configs_Cons[OF Cons.prems(1)] show ?case
  proof (elim disjE exE conjE)
    assume a: "merge_runtime_configs fs cs acc = Inr r" "\<forall>m. \<not> codebase_config fs c m"
    show ?thesis using Cons.IH[OF a(1) Cons.prems(2)] a(2) unfolding set_simps by blast
  next
    fix m acc'
    assume a: "codebase_config fs c m" "merge_objects acc m [] = Inr acc'" "merge_runtime_configs fs cs acc' = Inr r"
    have j: "json_wf (JObject acc') \<and> joins acc m acc'"
      by (rule merge_objects_joins[OF a(2) Cons.prems(2) codebase_config_wf[OF assms a(1)]])
    note i = Cons.IH[OF a(3) conjunct1[OF j]]
    have k: "leaf_at acc ks v \<Longrightarrow> leaf_at acc' ks v"
        "leaf_at m ks v \<Longrightarrow> \<exists>v'. leaf_at acc' ks v' \<and> (v' = v \<or> json_eq v' v)"
        "leaf_at acc' ks v \<Longrightarrow> leaf_at acc ks v \<or> leaf_at m ks v" for ks v
      using j unfolding joins_def by simp_all
    have "\<exists>v'. leaf_at r ks v' \<and> (v' = v \<or> json_eq v' v)" if "d \<in> set (c # cs)" "codebase_config fs d n" "leaf_at n ks v" for d n ks v
    proof (cases "d = c")
      case True
      then have "n = m" using that(2) a(1) codebase_config_unique by simp
      then show ?thesis using k(2)[of ks v] that(3) i by blast
    next
      case False
      then have "d \<in> set cs" using that(1) by simp
      then show ?thesis using that(2,3) i by blast
    qed
    moreover have "leaf_at acc ks v \<or> (\<exists>d n. d \<in> set (c # cs) \<and> codebase_config fs d n \<and> leaf_at n ks v)" if "leaf_at r ks v" for ks v
      using that i k(3)[of ks v] a(1) unfolding set_simps by blast
    moreover have "leaf_at r ks v" if "leaf_at acc ks v" for ks v using that i k(1) by blast
    ultimately show ?thesis by (intro conjI allI impI) fast+
  qed
qed simp

text \<open>
  The runtime configuration of the workers is the union of the codebases' files: when
  the merge succeeds, every value at a path of some codebase's file is found at that path of the
  result, up to the equality of numbers, so that no codebase overrides another, and the result holds
  nothing else.
\<close>

theorem runtime_configs_joined:
  assumes "merge_runtime_configs fs cs [] = Inr r" "parses_objects fs"
  shows "(\<forall>c m ks v. c \<in> set cs \<and> codebase_config fs c m \<and> leaf_at m ks v \<longrightarrow>
            (\<exists>v'. leaf_at r ks v' \<and> (v' = v \<or> json_eq v' v))) \<and>
         (\<forall>ks v. leaf_at r ks v \<longrightarrow> (\<exists>c m. c \<in> set cs \<and> codebase_config fs c m \<and> leaf_at m ks v))"
  using merge_runtime_configs_joins[OF assms(2,1)] by simp

subsection \<open>An example\<close>

text \<open>Two codebases, each with a file.\<close>

definition config_a :: json where
  "config_a = JObject [(''api'', JObject [(''key'', JString ''k'')]), (''n'', JInt 1)]"

definition config_b :: json where
  "config_b = JObject [(''api'', JObject [(''url'', JString ''u'')]), (''n'', JInt 1)]"

definition sample_json :: "string \<Rightarrow> string + json" where
  "sample_json s = (if s = ''A'' then Inr config_a else if s = ''B'' then Inr config_b else Inl ''not JSON'')"

definition sample_files :: files where
  "sample_files =
     \<lparr>fs_read = (\<lambda>p. Inr (if p = ''/p/a/.runtimeconfig.json'' then Some ''A''
                          else if p = ''/p/b/.runtimeconfig.json'' then Some ''B'' else None)),
      fs_canonical = Inr, fs_is_file = (\<lambda>_. False), fs_json = sample_json,
      fs_json_text = (\<lambda>_. []), fs_ip_text = (\<lambda>_. [])\<rparr>"

definition sample_codebases :: "function_codebase list" where
  "sample_codebases = [\<lparr>fc_source = ''/p/a'', fc_codebase = ''a'', fc_runtime = ''nodejs20''\<rparr>,
     \<lparr>fc_source = ''/p/b'', fc_codebase = ''b'', fc_runtime = ''nodejs20''\<rparr>]"

lemma sample_parses: "parses_objects sample_files"
  by (simp add: parses_objects_def sample_files_def sample_json_def config_a_def config_b_def)

lemma sample_reads:
  "read_optional_json sample_files (join_path ''/p/a'' ''.runtimeconfig.json'') = Inr (Some config_a)"
  "read_optional_json sample_files (join_path ''/p/b'' ''.runtimeconfig.json'') = Inr (Some config_b)"
  by (simp_all add: read_optional_json_def sample_files_def sample_json_def join_path_def starts_with_def ends_with_def strip_suffix_def)

lemma sample_merge:
  "\<exists>r. merge_runtime_configs sample_files sample_codebases [] = Inr r \<and>
     leaf_at r [''api'', ''key''] (JString ''k'') \<and> leaf_at r [''api'', ''url''] (JString ''u'')"
  by (simp add: sample_codebases_def sample_reads config_a_def config_b_def validate_object_def
      as_object_def leaf_at_def jget_def is_object_def)

lemma runtime_configs_joined_witness:
  "\<exists>r. merge_runtime_configs sample_files sample_codebases [] = Inr r \<and>
     leaf_at r [''api'', ''key''] (JString ''k'') \<and> leaf_at r [''api'', ''url''] (JString ''u'') \<and>
     (\<exists>c m. c \<in> set sample_codebases \<and> codebase_config sample_files c m \<and> leaf_at m [''api'', ''key''] (JString ''k''))"
proof -
  obtain r where r: "merge_runtime_configs sample_files sample_codebases [] = Inr r"
      "leaf_at r [''api'', ''key''] (JString ''k'')" "leaf_at r [''api'', ''url''] (JString ''u'')"
    using sample_merge by blast
  then show ?thesis using runtime_configs_joined[OF r(1) sample_parses] by blast
qed

end
