(* ===== verification/Smap_Segment.thy ===== *)
theory Smap_Segment
  imports Smap
begin

text \<open>
  Tables with a composite primary key: the rows of one first component, in the order of the second,
  as \<open>SELECT ... WHERE a = ? ORDER BY b\<close> lists them.
\<close>

definition segment :: "'a \<Rightarrow> ('a \<times> 'b, 'v) smap \<Rightarrow> ('b, 'v) smap" where
  "segment a m = map (\<lambda>(k, v). (snd k, v)) (filter (\<lambda>(k, _). fst k = a) m)"

lemma segment_Nil [simp]: "segment a [] = []"
  by (simp add: segment_def)

lemma segment_Cons [simp]: "segment a ((k, v) # m) = (if fst k = a then [(snd k, v)] else []) @ segment a m"
  by (simp add: segment_def)

lemma keys_segment: "b \<in> fst ` set (segment a m) \<longleftrightarrow> (a, b) \<in> fst ` set m"
  by (induction m) auto

lemma sm_get_segment [simp]: "sm_get (segment a m) b = sm_get m (a, b)"
proof (induction m)
  case (Cons e m)
  then show ?case by (cases e; cases "fst e") auto
qed simp

lemma sm_wf_segment [simp]: "sm_wf m \<Longrightarrow> sm_wf (segment a (m :: ('a::linorder \<times> 'b::linorder, 'v) smap))"
proof (induction m)
  case (Cons e m)
  obtain x y v where e: "e = ((x, y), v)" by (cases e) auto
  have "y < b" if "b \<in> fst ` set (segment a m)" "x = a" for b
    using that Cons.prems unfolding keys_segment e by (force simp: less_prod_def)
  then show ?case using Cons e by auto
qed simp

lemma segment_put [simp]:
  "sm_wf m \<Longrightarrow> segment a (sm_put (c, b) v m) =
     (if c = a then sm_put b v (segment a m) else segment a (m :: ('a::linorder \<times> 'b::linorder, 'v) smap))"
  by (rule sm_ext) auto

lemma segment_del [simp]:
  "sm_wf m \<Longrightarrow> segment a (sm_del (c, b) m) =
     (if c = a then sm_del b (segment a m) else segment a (m :: ('a::linorder \<times> 'b::linorder, 'v) smap))"
  by (rule sm_ext) auto

text \<open>Values of a map re-encoded row by row.\<close>

definition encode_keyed :: "('k \<Rightarrow> 'v \<Rightarrow> 'r) \<Rightarrow> ('k, 'v) smap \<Rightarrow> ('k, 'r) smap" where
  "encode_keyed f m = map (\<lambda>(k, v). (k, f k v)) m"

lemma encode_keyed_Nil [simp]: "encode_keyed f [] = []"
  by (simp add: encode_keyed_def)

lemma encode_keyed_Cons [simp]: "encode_keyed f ((k, v) # m) = (k, f k v) # encode_keyed f m"
  by (simp add: encode_keyed_def)

lemma keys_encode_keyed [simp]: "fst ` set (encode_keyed f m) = fst ` set m"
  by (force simp: encode_keyed_def)

lemma map_fst_encode_keyed [simp]: "map fst (encode_keyed f m) = map fst m"
  by (simp add: encode_keyed_def case_prod_beta comp_def)

lemma sm_get_encode_keyed [simp]: "sm_get (encode_keyed f m) k = map_option (f k) (sm_get m k)"
  by (induction m) auto

lemma sm_has_encode_keyed [simp]: "sm_has (encode_keyed f m) k = sm_has m k"
  by (simp add: sm_has_def)

lemma sm_wf_encode_keyed [simp]: "sm_wf (encode_keyed f m) = sm_wf m"
proof (induction m)
  case (Cons e m)
  then show ?case by (cases e) (simp del: image_set)
qed simp

lemma encode_keyed_put [simp]: "encode_keyed f (sm_put k v m) = sm_put k (f k v) (encode_keyed f m)"
  by (induction m) auto

lemma encode_keyed_del [simp]: "encode_keyed f (sm_del k m) = sm_del k (encode_keyed f m)"
  by (induction m) (auto simp: sm_del_def)

lemma encode_keyed_retain:
  "(\<And>k v. (k, v) \<in> set m \<Longrightarrow> Q k (f k v) \<longleftrightarrow> P k v) \<Longrightarrow>
   encode_keyed f (sm_retain P m) = sm_retain Q (encode_keyed f m)"
  by (induction m) (auto simp: sm_retain_def)

lemma encode_keyed_update:
  "(\<And>k v. (k, v) \<in> set m \<Longrightarrow> f k (g k v) = h k (f k v)) \<Longrightarrow>
   encode_keyed f (sm_update g m) = sm_update h (encode_keyed f m)"
  by (induction m) (auto simp: sm_update_def)

definition encode_rows :: "('v \<Rightarrow> 'r) \<Rightarrow> ('k, 'v) smap \<Rightarrow> ('k, 'r) smap" where
  "encode_rows f = encode_keyed (\<lambda>_. f)"

lemma encode_rows_Nil [simp]: "encode_rows f [] = []"
  by (simp add: encode_rows_def)

lemma encode_rows_Cons [simp]: "encode_rows f ((k, v) # m) = (k, f v) # encode_rows f m"
  by (simp add: encode_rows_def)

lemma encode_rows_map: "encode_rows f m = map (\<lambda>(k, v). (k, f v)) m"
  by (simp add: encode_rows_def encode_keyed_def)

lemma keys_encode_rows [simp]: "fst ` set (encode_rows f m) = fst ` set m"
  by (simp add: encode_rows_def)

lemma sm_get_encode_rows [simp]: "sm_get (encode_rows f m) k = map_option f (sm_get m k)"
  by (simp add: encode_rows_def)

lemma sm_has_encode_rows [simp]: "sm_has (encode_rows f m) k = sm_has m k"
  by (simp add: encode_rows_def)

lemma sm_wf_encode_rows [simp]: "sm_wf (encode_rows f m) = sm_wf m"
  by (simp add: encode_rows_def)

lemma encode_rows_put [simp]: "encode_rows f (sm_put k v m) = sm_put k (f v) (encode_rows f m)"
  by (simp add: encode_rows_def)

lemma encode_rows_del [simp]: "encode_rows f (sm_del k m) = sm_del k (encode_rows f m)"
  by (simp add: encode_rows_def)

lemma encode_rows_retain:
  "(\<And>k v. (k, v) \<in> set m \<Longrightarrow> Q k (f v) \<longleftrightarrow> P k v) \<Longrightarrow>
   encode_rows f (sm_retain P m) = sm_retain Q (encode_rows f m)"
  unfolding encode_rows_def by (rule encode_keyed_retain)

end
