(* ===== verification/Auth_Durable.thy ===== *)
theory Auth_Durable
  imports Auth_Invariant Smap_Segment "HOL-Library.Word"
begin

text \<open>
  The durable branches of \<open>src/src/auth.rs\<close>: accounts and sessions as rows of the tables
  \<open>auth_users\<close> and \<open>auth_sessions\<close>, each request one transaction.  SQLite and the JSON
  library are parameters: the text of a JSON value and its parser, \<open>json_extract\<close> of the email,
  and the order in which a query without \<open>ORDER BY\<close> finds the rows of a namespace.  The handlers
  give the replies of the in-memory ones and leave tables with the same content.
\<close>

subsection \<open>Tables\<close>

record user_row =
  user_json :: string
  row_password :: "string option"

record session_row =
  row_namespace :: string
  row_uid :: string
  row_issued_at :: int
  row_expires_at :: int
  row_kind :: int

record auth_db =
  auth_users :: "(string \<times> string, user_row) smap"
  auth_sessions :: "(string, session_row) smap"
  db_default_namespace :: string

record auth_sql =
  aq_text :: "json \<Rightarrow> string"
  aq_json :: "string \<Rightarrow> json option"
  aq_email :: "string \<Rightarrow> string option"
  aq_scan :: "(string \<times> user_row) list \<Rightarrow> (string \<times> user_row) list"

datatype auth_failure = BadRequest string | SqlFailure

text \<open>The casts between \<open>u64\<close> and the \<open>i64\<close> of a column.\<close>

definition to_i64 :: "nat \<Rightarrow> int" where
  "to_i64 n = sint (word_of_nat n :: 64 word)"

definition from_i64 :: "int \<Rightarrow> nat" where
  "from_i64 i = unat (word_of_int i :: 64 word)"

subsection \<open>Rows\<close>

text \<open>The derived deserializer of \<open>User\<close>, on objects.\<close>

definition string_field :: "json \<Rightarrow> string \<Rightarrow> string option" where
  "string_field v k = Option.bind (jget k v) as_str"

definition opt_field :: "json \<Rightarrow> string \<Rightarrow> string option option" where
  "opt_field v k = (case jget k v of None \<Rightarrow> Some None | Some JNull \<Rightarrow> Some None
     | Some x \<Rightarrow> map_option Some (as_str x))"

definition bool_field :: "json \<Rightarrow> string \<Rightarrow> bool option" where
  "bool_field v k = Option.bind (jget k v) as_bool"

definition array_field :: "json \<Rightarrow> string \<Rightarrow> json list option" where
  "array_field v k = Option.bind (jget k v) as_array"

definition user_of_json :: "json \<Rightarrow> user option" where
  "user_of_json v =
     Option.bind (string_field v ''localId'') (\<lambda>i.
     Option.bind (opt_field v ''email'') (\<lambda>e.
     Option.bind (bool_field v ''emailVerified'') (\<lambda>ver.
     Option.bind (opt_field v ''displayName'') (\<lambda>name.
     Option.bind (opt_field v ''photoUrl'') (\<lambda>photo.
     Option.bind (opt_field v ''phoneNumber'') (\<lambda>phone.
     Option.bind (bool_field v ''disabled'') (\<lambda>dis.
     Option.bind (opt_field v ''customAttributes'') (\<lambda>attrs.
     Option.bind (array_field v ''providerUserInfo'') (\<lambda>providers.
     Option.bind (case jget ''mfaInfo'' v of None \<Rightarrow> Some [] | Some x \<Rightarrow> as_array x) (\<lambda>mfa.
     Option.bind (string_field v ''validSince'') (\<lambda>since.
     Option.bind (string_field v ''createdAt'') (\<lambda>created.
     Option.bind (string_field v ''lastLoginAt'') (\<lambda>login.
       Some \<lparr>local_id = i, password = None, email = e, email_verified = ver, display_name = name,
             photo_url = photo, phone_number = phone, disabled = dis, custom_attributes = attrs,
             provider_user_info = providers, mfa_info = mfa, valid_since = since,
             created_at = created, last_login_at = login\<rparr>)))))))))))))"

definition decode_user :: "auth_sql \<Rightarrow> user_row \<Rightarrow> auth_failure + user" where
  "decode_user q r =
     (case Option.bind (aq_json q (user_json r)) user_of_json of
        None \<Rightarrow> Inl SqlFailure
      | Some u \<Rightarrow> Inr (u\<lparr>password := row_password r\<rparr>))"

definition load_user :: "auth_sql \<Rightarrow> auth_db \<Rightarrow> string \<Rightarrow> string \<Rightarrow> auth_failure + user option" where
  "load_user q db ns uid =
     (case sm_get (auth_users db) (ns, uid) of
        None \<Rightarrow> Inr None
      | Some r \<Rightarrow> rbind (decode_user q r) (\<lambda>u. Inr (Some u)))"

definition row_of_user :: "auth_sql \<Rightarrow> user \<Rightarrow> user_row" where
  "row_of_user q u = \<lparr>user_json = aq_text q (user_value u), row_password = password u\<rparr>"

definition store_user :: "auth_sql \<Rightarrow> string \<Rightarrow> user \<Rightarrow> auth_db \<Rightarrow> auth_db" where
  "store_user q ns u db = db\<lparr>auth_users := sm_put (ns, local_id u) (row_of_user q u) (auth_users db)\<rparr>"

fun ensure_unique_rows ::
  "auth_sql \<Rightarrow> (string \<times> user_row) list \<Rightarrow> string option \<Rightarrow> string option \<Rightarrow> string option \<Rightarrow>
   auth_failure + string option" where
  "ensure_unique_rows q [] e phone except = Inr None"
| "ensure_unique_rows q ((uid, r) # rs) e phone except =
     (if except = Some uid then ensure_unique_rows q rs e phone except
      else rbind (decode_user q r) (\<lambda>u.
        if same_email e (email u) then Inr (Some ''EMAIL_EXISTS'')
        else if phone \<noteq> None \<and> phone_number u = phone then Inr (Some ''PHONE_NUMBER_EXISTS'')
        else ensure_unique_rows q rs e phone except))"

definition ensure_unique_persistent ::
  "auth_sql \<Rightarrow> auth_db \<Rightarrow> string \<Rightarrow> string option \<Rightarrow> string option \<Rightarrow> string option \<Rightarrow>
   auth_failure + string option" where
  "ensure_unique_persistent q db ns e phone except =
     ensure_unique_rows q (aq_scan q (segment ns (auth_users db))) e phone except"

definition row_of_session :: "session \<Rightarrow> session_row" where
  "row_of_session s = \<lparr>row_namespace = s_namespace s, row_uid = s_uid s,
     row_issued_at = to_i64 (s_issued_at s), row_expires_at = to_i64 (s_expires_at s),
     row_kind = (if s_kind s = IdToken then 0 else 1)\<rparr>"

definition session_of_row :: "session_row \<Rightarrow> session" where
  "session_of_row r = \<lparr>s_namespace = row_namespace r, s_uid = row_uid r,
     s_issued_at = from_i64 (row_issued_at r), s_expires_at = from_i64 (row_expires_at r),
     s_kind = (if row_kind r = 0 then IdToken else RefreshToken)\<rparr>"

definition insert_sessions :: "nat \<Rightarrow> (string \<times> session) list \<Rightarrow> auth_db \<Rightarrow> auth_db" where
  "insert_sessions now new db =
     (let kept = sm_retain (\<lambda>_ r. \<not> row_expires_at r \<le> to_i64 now) (auth_sessions db)
      in db\<lparr>auth_sessions := fold (\<lambda>(t, s). sm_put t (row_of_session s)) new kept\<rparr>)"

subsection \<open>Handlers\<close>

definition durable_create_account ::
  "auth_sql \<Rightarrow> string \<Rightarrow> string \<Rightarrow> string \<Rightarrow> write_account \<Rightarrow> auth_db \<Rightarrow> (auth_failure + user) \<times> auth_db" where
  "durable_create_account q now_ms uuid ns r db =
     (case validate_credentials r of
        Inl e \<Rightarrow> (Inl (BadRequest e), db)
      | Inr _ \<Rightarrow>
          let i = unwrap_or (w_local_id r) uuid in
          if i = [] then (Inl (BadRequest ''INVALID_LOCAL_ID''), db)
          else let u = new_user now_ms i r in
            (case load_user q db ns (local_id u) of
               Inl e \<Rightarrow> (Inl e, db)
             | Inr (Some _) \<Rightarrow> (Inl (BadRequest ''DUPLICATE_LOCAL_ID''), db)
             | Inr None \<Rightarrow>
               (case ensure_unique_persistent q db ns (email u) (phone_number u) None of
                  Inl e \<Rightarrow> (Inl e, db)
                | Inr (Some e) \<Rightarrow> (Inl (BadRequest e), db)
                | Inr None \<Rightarrow> (Inr u, store_user q ns u db))))"

definition durable_session_user ::
  "auth_sql \<Rightarrow> auth_env \<Rightarrow> nat \<Rightarrow> string \<Rightarrow> string \<Rightarrow> auth_db \<Rightarrow> (auth_failure + user) \<times> auth_db" where
  "durable_session_user q env now ns token db =
     (let session = map_option session_of_row (sm_get (auth_sessions db) token) in
      case (case session of None \<Rightarrow> Inr None | Some s \<Rightarrow> load_user q db ns (s_uid s)) of
        Inl e \<Rightarrow> (Inl e, db)
      | Inr found \<Rightarrow>
        (case session of
           None \<Rightarrow> (Inl (BadRequest ''INVALID_ID_TOKEN''), db)
         | Some s \<Rightarrow>
           (case found of
              None \<Rightarrow> (Inl (BadRequest ''USER_NOT_FOUND''), db)
            | Some u \<Rightarrow>
              (if s_kind s \<noteq> IdToken \<or> s_namespace s \<noteq> ns then (Inl (BadRequest ''INVALID_ID_TOKEN''), db)
               else if s_expires_at s \<le> now
               then (Inl (BadRequest ''TOKEN_EXPIRED''), db\<lparr>auth_sessions := sm_del token (auth_sessions db)\<rparr>)
               else (case (case split_on CHR ''.'' token of _ # c # _ \<Rightarrow> ae_decode env c | _ \<Rightarrow> None) of
                       None \<Rightarrow> (Inl (BadRequest ''INVALID_ID_TOKEN''), db)
                     | Some claims \<Rightarrow>
                         (if claim_secs claims ''exp'' \<le> now then (Inl (BadRequest ''TOKEN_EXPIRED''), db)
                          else if disabled u then (Inl (BadRequest ''USER_DISABLED''), db)
                          else if valid_since_secs u > claim_secs claims ''auth_time''
                          then (Inl (BadRequest ''TOKEN_EXPIRED''), db)
                          else (Inr u, db)))))))"

definition durable_subject ::
  "auth_sql \<Rightarrow> auth_env \<Rightarrow> nat \<Rightarrow> string \<Rightarrow> string option \<Rightarrow> 'a \<Rightarrow> (string \<Rightarrow> 'a) \<Rightarrow> auth_db \<Rightarrow>
   (auth_failure + 'a) \<times> auth_db" where
  "durable_subject q env now ns token given subject db =
     (case token of
        None \<Rightarrow> (Inr given, db)
      | Some t \<Rightarrow> (case durable_session_user q env now ns t db of
          (Inl e, db') \<Rightarrow> (Inl e, db') | (Inr u, db') \<Rightarrow> (Inr (subject (local_id u)), db')))"

definition durable_lookup_accounts ::
  "auth_sql \<Rightarrow> auth_env \<Rightarrow> nat \<Rightarrow> string \<Rightarrow> lookup_request \<Rightarrow> auth_db \<Rightarrow> (auth_failure + user list) \<times> auth_db" where
  "durable_lookup_accounts q env now ns r db =
     (case durable_subject q env now ns (l_id_token r) (l_local_id r) (\<lambda>i. [i]) db of
        (Inl e, db') \<Rightarrow> (Inl e, db')
      | (Inr ids, db') \<Rightarrow>
          (rbind (rcollect (decode_user q) (sm_values (segment ns (auth_users db'))))
             (\<lambda>us. Inr (filter (lookup_match env ids r) us)), db'))"

definition durable_update_account ::
  "auth_sql \<Rightarrow> auth_env \<Rightarrow> nat \<Rightarrow> string \<Rightarrow> string \<Rightarrow> write_account \<Rightarrow> auth_db \<Rightarrow> (auth_failure + json) \<times> auth_db" where
  "durable_update_account q env now refresh ns r db0 =
     (case durable_subject q env now ns (w_id_token r) (w_local_id r) Some db0 of
        (Inl e, db) \<Rightarrow> (Inl e, db)
      | (Inr target, db) \<Rightarrow>
        (case rbind (validate_credentials r) (\<lambda>_. of_option ''MISSING_LOCAL_ID'' target) of
           Inl e \<Rightarrow> (Inl (BadRequest e), db)
         | Inr i \<Rightarrow>
           (case load_user q db ns i of
              Inl e \<Rightarrow> (Inl e, db)
            | Inr None \<Rightarrow> (Inl (BadRequest ''USER_NOT_FOUND''), db)
            | Inr (Some old) \<Rightarrow>
              (case ensure_unique_persistent q db ns (w_email r) (w_phone_number r) (Some i) of
                 Inl e \<Rightarrow> (Inl e, db)
               | Inr (Some e) \<Rightarrow> (Inl (BadRequest e), db)
               | Inr None \<Rightarrow>
                 let u = apply_update old r in
                 (if w_id_token r = None then (Inr (user_value u), store_user q ns u db)
                  else let (v, new) = session_bundle env now refresh ns u
                       in (Inr (jextend (user_value u) v), store_user q ns u (insert_sessions now new db)))))))"

definition durable_delete_account ::
  "auth_sql \<Rightarrow> auth_env \<Rightarrow> nat \<Rightarrow> string \<Rightarrow> string \<Rightarrow> string option \<Rightarrow> auth_db \<Rightarrow> (auth_failure + unit) \<times> auth_db" where
  "durable_delete_account q env now ns given token db0 =
     (case durable_subject q env now ns token given (\<lambda>i. i) db0 of
        (Inl e, db) \<Rightarrow> (Inl e, db)
      | (Inr i, db) \<Rightarrow>
          if sm_has (auth_users db) (ns, i)
          then (Inr (), db\<lparr>auth_users := sm_del (ns, i) (auth_users db),
                 auth_sessions := sm_retain (\<lambda>_ r. \<not> (row_namespace r = ns \<and> row_uid r = i)) (auth_sessions db)\<rparr>)
          else (Inl (BadRequest ''USER_NOT_FOUND''), db))"

definition durable_list_users :: "auth_sql \<Rightarrow> string \<Rightarrow> nat \<Rightarrow> auth_db \<Rightarrow> auth_failure + user list" where
  "durable_list_users q ns limit db =
     rcollect (decode_user q) (sm_values (take (min limit 1000) (segment ns (auth_users db))))"

definition durable_sign_up ::
  "auth_sql \<Rightarrow> auth_env \<Rightarrow> nat \<Rightarrow> string \<Rightarrow> string \<Rightarrow> string \<Rightarrow> write_account \<Rightarrow> auth_db \<Rightarrow>
   (auth_failure + json) \<times> auth_db" where
  "durable_sign_up q env now now_ms uuid refresh r db =
     (if w_email r \<noteq> None \<and> w_password r = None then (Inl (BadRequest ''MISSING_PASSWORD''), db)
      else let ns = db_default_namespace db in
        (case validate_credentials r of
           Inl e \<Rightarrow> (Inl (BadRequest e), db)
         | Inr _ \<Rightarrow>
           let i = unwrap_or (w_local_id r) uuid in
           if i = [] then (Inl (BadRequest ''INVALID_LOCAL_ID''), db)
           else let u = new_user now_ms i r; (v, new) = session_bundle env now refresh ns u in
             (case load_user q db ns (local_id u) of
                Inl e \<Rightarrow> (Inl e, db)
              | Inr (Some _) \<Rightarrow> (Inl (BadRequest ''DUPLICATE_LOCAL_ID''), db)
              | Inr None \<Rightarrow>
                (case ensure_unique_persistent q db ns (email u) (phone_number u) None of
                   Inl e \<Rightarrow> (Inl e, db)
                 | Inr (Some e) \<Rightarrow> (Inl (BadRequest e), db)
                 | Inr None \<Rightarrow> (Inr v, insert_sessions now new (store_user q ns u db))))))"

text \<open>\<open>lower(json_extract(user_json, '$.email')) = lower(?2)\<close>; a row without an email gives null.\<close>

definition email_is :: "auth_sql \<Rightarrow> string \<Rightarrow> user_row \<Rightarrow> bool" where
  "email_is q e r = (case aq_email q (user_json r) of None \<Rightarrow> False | Some x \<Rightarrow> lowercase x = lowercase e)"

definition durable_sign_in ::
  "auth_sql \<Rightarrow> auth_env \<Rightarrow> nat \<Rightarrow> string \<Rightarrow> string \<Rightarrow> write_account \<Rightarrow> auth_db \<Rightarrow> (auth_failure + json) \<times> auth_db" where
  "durable_sign_in q env now now_ms refresh r db =
     (let ns = db_default_namespace db in
      case rbind (of_option ''MISSING_EMAIL'' (w_email r)) (\<lambda>e.
           rbind (of_option ''MISSING_PASSWORD'' (w_password r)) (\<lambda>p. Inr (e, p))) of
        Inl e \<Rightarrow> (Inl (BadRequest e), db)
      | Inr (e, p) \<Rightarrow>
          (case List.find (\<lambda>(_, r). email_is q e r) (aq_scan q (segment ns (auth_users db))) of
             None \<Rightarrow> (Inl (BadRequest ''EMAIL_NOT_FOUND''), db)
           | Some (_, row) \<Rightarrow>
             (case decode_user q row of
                Inl f \<Rightarrow> (Inl f, db)
              | Inr u \<Rightarrow>
                (if disabled u then (Inl (BadRequest ''USER_DISABLED''), db)
                 else if password u \<noteq> Some p then (Inl (BadRequest ''INVALID_PASSWORD''), db)
                 else let u' = u\<lparr>last_login_at := now_ms\<rparr>;
                          (v, new) = session_bundle env now refresh ns u'
                      in (Inr v, insert_sessions now new (store_user q ns u' db))))))"

definition durable_refresh_token ::
  "auth_sql \<Rightarrow> auth_env \<Rightarrow> nat \<Rightarrow> string \<Rightarrow> (string, string) smap \<Rightarrow> auth_db \<Rightarrow> (auth_failure + json) \<times> auth_db" where
  "durable_refresh_token q env now refresh' form db =
     (case rbind (guard (sm_get form ''grant_type'' = Some ''refresh_token'') ''INVALID_GRANT_TYPE'') (\<lambda>_.
           rbind (of_option ''MISSING_REFRESH_TOKEN'' (sm_get form ''refresh_token'')) (\<lambda>t.
           rbind (guard (ae_is_uuid env t) ''INVALID_REFRESH_TOKEN'') (\<lambda>_. Inr t))) of
        Inl e \<Rightarrow> (Inl (BadRequest e), db)
      | Inr t \<Rightarrow>
        (case map_option session_of_row (sm_get (auth_sessions db) t) of
           None \<Rightarrow> (Inl (BadRequest ''INVALID_REFRESH_TOKEN''), db)
         | Some s \<Rightarrow>
           (if s_kind s \<noteq> RefreshToken \<or> s_expires_at s \<le> now
            then (Inl (BadRequest ''INVALID_REFRESH_TOKEN''), db\<lparr>auth_sessions := sm_del t (auth_sessions db)\<rparr>)
            else (case load_user q db (s_namespace s) (s_uid s) of
                    Inl e \<Rightarrow> (Inl e, db)
                  | Inr None \<Rightarrow> (Inl (BadRequest ''USER_NOT_FOUND''), db)
                  | Inr (Some u) \<Rightarrow>
                    (if disabled u then (Inl (BadRequest ''USER_DISABLED''), db)
                     else if valid_since_secs u > s_issued_at s then (Inl (BadRequest ''TOKEN_EXPIRED''), db)
                     else let (v, new) = session_bundle env now refresh' (s_namespace s) u in
                       (Inr (jobject
                         [(''access_token'', jindex v ''idToken''), (''id_token'', jindex v ''idToken''),
                          (''refresh_token'', jindex v ''refreshToken''), (''expires_in'', JString ''3600''),
                          (''token_type'', JString ''Bearer''), (''user_id'', JString (s_uid s)),
                          (''project_id'', JString (unwrap_or (strip_prefix ''project/'' (s_namespace s))
                             (s_namespace s)))]), insert_sessions now new db))))))"

subsection \<open>The namespace of a request, and its error replies\<close>

text \<open>Unscoped routes use the namespace of the environment or of the command line.\<close>

definition environment_namespace :: "(string, string) smap \<Rightarrow> string" where
  "environment_namespace env = project_namespace
     (unwrap_or (or_else (sm_get env ''GCLOUD_PROJECT'') (sm_get env ''GOOGLE_CLOUD_PROJECT'')) ''demo-firebase'')"

definition new_auth_db :: "(string, string) smap \<Rightarrow> string option \<Rightarrow> auth_db" where
  "new_auth_db env project = \<lparr>auth_users = [], auth_sessions = [],
     db_default_namespace = (case project of None \<Rightarrow> environment_namespace env | Some p \<Rightarrow> project_namespace p)\<rparr>"

definition request_namespace :: "string \<Rightarrow> string option \<Rightarrow> string" where
  "request_namespace default_ns project = (case project of None \<Rightarrow> default_ns | Some p \<Rightarrow> project_namespace p)"

text \<open>The status and the body; \<open>descr\<close> is the database's own description of its error.\<close>

definition failure_response :: "string \<Rightarrow> auth_failure \<Rightarrow> nat \<times> json" where
  "failure_response descr f =
     (let (status, msg) = (case f of BadRequest m \<Rightarrow> (400, m) | SqlFailure \<Rightarrow> (500, ''AUTH_PERSISTENCE_ERROR: '' @ descr))
      in (status, jobject [(''error'', jobject
           [(''code'', JInt (int status)), (''message'', JString msg),
            (''errors'', JArray [jobject [(''message'', JString msg), (''domain'', JString ''global''), (''reason'', JString ''invalid'')]])])]))"

end
