(* ===== verification/Auth_Refine.thy ===== *)
theory Auth_Refine
  imports Auth_Durable "HOL-Library.Multiset"
begin

text \<open>
  The durable Auth emulator refines the in-memory one: from related states every request gives the
  same reply and leads to related states.
\<close>

subsection \<open>The relation\<close>

text \<open>
  What the program relies on in SQLite and the JSON library: a serialized account parses to itself,
  \<open>json_extract\<close> finds its email, and a query finds every row of a namespace once.
\<close>

definition sql_ok :: "auth_sql \<Rightarrow> bool" where
  "sql_ok q = ((\<forall>u. aq_json q (aq_text q (user_value u)) = Some (user_value u)) \<and>
     (\<forall>u. aq_email q (aq_text q (user_value u)) = email u) \<and>
     (\<forall>rs. mset (aq_scan q rs) = mset rs))"

definition small_session :: "session \<Rightarrow> bool" where
  "small_session s = (s_issued_at s < 2 ^ 63 \<and> s_expires_at s < 2 ^ 63)"

definition auth_rel :: "auth_sql \<Rightarrow> auth_db \<Rightarrow> auth_state \<Rightarrow> bool" where
  "auth_rel q db st =
     (sm_wf (auth_users db) \<and>
      (\<forall>ns. segment ns (auth_users db) = encode_rows (row_of_user q) (users_of st ns)) \<and>
      auth_sessions db = encode_rows row_of_session (sessions st) \<and>
      (\<forall>e \<in> set (sessions st). small_session (snd e)) \<and>
      db_default_namespace db = default_namespace st)"

lemma auth_relD:
  assumes "auth_rel q db st"
  shows "sm_wf (auth_users db)" "segment ns (auth_users db) = encode_rows (row_of_user q) (users_of st ns)"
    "auth_sessions db = encode_rows row_of_session (sessions st)"
    "e \<in> set (sessions st) \<Longrightarrow> small_session (snd e)" "db_default_namespace db = default_namespace st"
  using assms unfolding auth_rel_def by blast+

lemma sql_okD:
  assumes "sql_ok q"
  shows "aq_json q (aq_text q (user_value u)) = Some (user_value u)"
    "aq_email q (aq_text q (user_value u)) = email u" "mset (aq_scan q rs) = mset rs"
  using assms unfolding sql_ok_def by blast+

subsection \<open>Numbers, accounts and sessions as rows\<close>

lemma to_i64_small: "n < 2 ^ 63 \<Longrightarrow> to_i64 n = int n"
proof -
  assume "n < 2 ^ 63"
  then have "int n < int (2 ^ 63)" by (simp only: of_nat_less_iff)
  then have "signed_take_bit 63 (int n) = int n" by (intro signed_take_bit_int_eq_self) simp_all
  then show ?thesis by (simp add: to_i64_def signed_of_nat)
qed

lemma from_to_i64 [simp]: "n < 2 ^ 63 \<Longrightarrow> from_i64 (to_i64 n) = n"
  by (simp add: from_i64_def to_i64_def unsigned_of_nat take_bit_nat_eq_self)

lemma session_row_round_trip: "small_session s \<Longrightarrow> session_of_row (row_of_session s) = s"
  by (cases s; cases "s_kind s") (simp_all add: session_of_row_def row_of_session_def small_session_def)

lemma optional_member:
  "map_of (rev (case v of None \<Rightarrow> [] | Some s \<Rightarrow> [(k, JString s)])) j = (if j = k then map_option JString v else None)"
  by (simp split: option.split)

lemma member_append: "map_of (rev (xs @ ys)) j = (case map_of (rev ys) j of None \<Rightarrow> map_of (rev xs) j | Some v \<Rightarrow> Some v)"
  by (simp add: map_add_def)

lemma user_value_member:
  "jget ''localId'' (user_value u) = Some (JString (local_id u))"
  "jget ''email'' (user_value u) = map_option JString (email u)"
  "jget ''emailVerified'' (user_value u) = Some (JBool (email_verified u))"
  "jget ''displayName'' (user_value u) = map_option JString (display_name u)"
  "jget ''photoUrl'' (user_value u) = map_option JString (photo_url u)"
  "jget ''phoneNumber'' (user_value u) = map_option JString (phone_number u)"
  "jget ''disabled'' (user_value u) = Some (JBool (disabled u))"
  "jget ''customAttributes'' (user_value u) = map_option JString (custom_attributes u)"
  "jget ''providerUserInfo'' (user_value u) = Some (JArray (provider_user_info u))"
  "jget ''mfaInfo'' (user_value u) = (if mfa_info u = [] then None else Some (JArray (mfa_info u)))"
  "jget ''validSince'' (user_value u) = Some (JString (valid_since u))"
  "jget ''createdAt'' (user_value u) = Some (JString (created_at u))"
  "jget ''lastLoginAt'' (user_value u) = Some (JString (last_login_at u))"
  unfolding user_value_def jget_jobject Let_def
  by (simp_all only: member_append optional_member) (simp_all split: option.split)

lemma user_value_round_trip: "user_of_json (user_value u) = Some (u\<lparr>password := None\<rparr>)"
proof -
  have o: "opt_field (user_value u) k = Some v" if "jget k (user_value u) = map_option JString v" for k v
    using that by (cases v) (simp_all add: opt_field_def as_str_def)
  show ?thesis
    unfolding user_of_json_def
    by (simp add: string_field_def bool_field_def array_field_def user_value_member o as_str_def as_bool_def as_array_def)
qed

lemma decode_row [simp]: "sql_ok q \<Longrightarrow> decode_user q (row_of_user q u) = Inr u"
  by (simp add: decode_user_def row_of_user_def sql_okD(1) user_value_round_trip)

subsection \<open>Reading and writing related states\<close>

lemma users_segment:
  assumes "auth_rel q db st"
  shows "sm_get (auth_users db) (ns, i) = map_option (row_of_user q) (sm_get (users_of st ns) i)"
    "sm_has (auth_users db) (ns, i) = sm_has (users_of st ns) i"
proof -
  have "sm_get (segment ns (auth_users db)) i = map_option (row_of_user q) (sm_get (users_of st ns) i)"
    unfolding auth_relD(2)[OF assms] by simp
  then show "sm_get (auth_users db) (ns, i) = map_option (row_of_user q) (sm_get (users_of st ns) i)" by simp
  then show "sm_has (auth_users db) (ns, i) = sm_has (users_of st ns) i" by (simp add: sm_has_def)
qed

lemma load_user_rel:
  "sql_ok q \<Longrightarrow> auth_rel q db st \<Longrightarrow> load_user q db ns i = Inr (sm_get (users_of st ns) i)"
  by (simp add: load_user_def users_segment(1) split: option.split)

lemma session_rel:
  assumes "auth_rel q db st"
  shows "map_option session_of_row (sm_get (auth_sessions db) t) = sm_get (sessions st) t"
proof (cases "sm_get (sessions st) t")
  case None
  then show ?thesis using auth_relD(3)[OF assms] by simp
next
  case (Some s)
  then have "small_session s" using auth_relD(4)[OF assms sm_get_in[OF Some]] by simp
  then show ?thesis using Some auth_relD(3)[OF assms] by (simp add: session_row_round_trip)
qed

lemma rows_decoded:
  assumes "sql_ok q"
  shows "rcollect (decode_user q) (sm_values (encode_rows (row_of_user q) us)) = Inr (sm_values us)"
  by (induction us) (auto simp: sm_values_def assms)

text \<open>Changes of both sides.\<close>

lemma users_of_sessions [simp]: "users_of (st\<lparr>sessions := S\<rparr>) = users_of st"
  by (rule ext) (simp add: users_of_def)

lemma rel_touch:
  assumes "auth_rel q db st" "sm_wf (users st)"
  shows "auth_rel q db (set_users ns (users_of st ns) st)"
  using assms by (simp add: auth_rel_def)

lemma rel_store_user:
  assumes "auth_rel q db st" "sm_wf (users st)"
  shows "auth_rel q (store_user q ns u db) (set_users ns (sm_put (local_id u) u (users_of st ns)) st)"
  using assms by (simp add: auth_rel_def store_user_def)

lemma rel_delete_user:
  assumes "auth_rel q db st" "sm_wf (users st)"
  shows "auth_rel q (db\<lparr>auth_users := sm_del (ns, i) (auth_users db)\<rparr>) (set_users ns (sm_del i (users_of st ns)) st)"
  using assms by (simp add: auth_rel_def)

lemma rel_retain_sessions:
  assumes "auth_rel q db st" "\<And>t s. small_session s \<Longrightarrow> Q t (row_of_session s) \<longleftrightarrow> P t s"
  shows "auth_rel q (db\<lparr>auth_sessions := sm_retain Q (auth_sessions db)\<rparr>) (st\<lparr>sessions := sm_retain P (sessions st)\<rparr>)"
proof -
  have "encode_rows row_of_session (sm_retain P (sessions st)) = sm_retain Q (encode_rows row_of_session (sessions st))"
    by (rule encode_rows_retain) (use assms(2) auth_relD(4)[OF assms(1)] in fastforce)
  then show ?thesis using assms(1) by (auto simp: auth_rel_def)
qed

lemma rel_delete_session:
  assumes "auth_rel q db st"
  shows "auth_rel q (db\<lparr>auth_sessions := sm_del t (auth_sessions db)\<rparr>) (st\<lparr>sessions := sm_del t (sessions st)\<rparr>)"
  using assms by (auto simp: auth_rel_def)

lemma rel_put_session:
  assumes "auth_rel q db st" "small_session s" "sm_wf (sessions st)"
  shows "auth_rel q (db\<lparr>auth_sessions := sm_put t (row_of_session s) (auth_sessions db)\<rparr>)
    (st\<lparr>sessions := sm_put t s (sessions st)\<rparr>)"
  using assms by (auto simp: auth_rel_def set_sm_put)

definition soon :: "nat \<Rightarrow> bool" where
  "soon now = (now + refresh_token_ttl < 2 ^ 63)"

lemma soon_now: "soon now \<Longrightarrow> now < 2 ^ 63 \<and> now + id_token_ttl < 2 ^ 63 \<and> now + refresh_token_ttl < 2 ^ 64"
  by (simp add: soon_def id_token_ttl_def refresh_token_ttl_def)

lemma rel_issue_session:
  assumes rel: "auth_rel q db st" and now: "soon now" and wf: "sm_wf (sessions st)"
  shows "auth_rel q (insert_sessions now (snd (session_bundle env now refresh ns u)) db)
    (snd (issue_session env now refresh ns u st))"
proof -
  let ?st = "st\<lparr>sessions := sm_retain (\<lambda>_ s. s_expires_at s > now) (sessions st)\<rparr>"
  let ?db = "db\<lparr>auth_sessions := sm_retain (\<lambda>_ r. \<not> row_expires_at r \<le> to_i64 now) (auth_sessions db)\<rparr>"
  note b = soon_now[OF now]
  have 0: "auth_rel q ?db ?st"
    by (rule rel_retain_sessions[OF rel])
      (use b in \<open>auto simp: row_of_session_def small_session_def to_i64_small\<close>)
  define s1 where "s1 = \<lparr>s_namespace = ns, s_uid = local_id u, s_issued_at = now, s_expires_at = now + id_token_ttl, s_kind = IdToken\<rparr>"
  define s2 where "s2 = \<lparr>s_namespace = ns, s_uid = local_id u, s_issued_at = now, s_expires_at = now + refresh_token_ttl, s_kind = RefreshToken\<rparr>"
  have small: "small_session s1" "small_session s2" using b now by (simp_all add: s1_def s2_def small_session_def soon_def)
  have w: "sm_wf (sessions ?st)" using wf by simp
  let ?t = "token_of env (session_claims env now ns u)"
  have 2: "auth_rel q (?db\<lparr>auth_sessions := sm_put refresh (row_of_session s2) (sm_put ?t (row_of_session s1) (auth_sessions ?db))\<rparr>)
     (?st\<lparr>sessions := sm_put refresh s2 (sm_put ?t s1 (sessions ?st))\<rparr>)"
    using rel_put_session[OF rel_put_session[OF 0 small(1) w, of ?t] small(2), of refresh] w by simp
  then show ?thesis
    by (simp add: issue_session_state bundle_sessions insert_sessions_def Let_def s1_def s2_def)
qed

subsection \<open>Searches\<close>

lemma ensure_unique_encoded:
  assumes "sql_ok q" "\<forall>(i, u) \<in> set us. local_id u = i"
  shows "ensure_unique_rows q (encode_rows (row_of_user q) us) e ph ex =
    (case ensure_unique (sm_values us) e ph ex of Inl x \<Rightarrow> Inr (Some x) | Inr _ \<Rightarrow> Inr None)"
  using assms(2)
proof (induction us)
  case (Cons x us)
  then show ?case using assms(1) by (cases x) (auto simp: sm_values_def)
qed (simp add: sm_values_def)

lemma ensure_unique_Inl: "ensure_unique us e ph ex = Inl x \<Longrightarrow> x \<in> {''EMAIL_EXISTS'', ''PHONE_NUMBER_EXISTS''}"
  by (induction us) (auto split: if_splits)

lemma mset_map_ex: "mset ys = mset (map f xs) \<Longrightarrow> \<exists>zs. ys = map f zs \<and> mset zs = mset xs"
proof (induction ys arbitrary: xs)
  case (Cons y ys)
  have "y \<in> set (map f xs)" using mset_eq_setD[OF Cons.prems] by (metis list.set_intros(1))
  then obtain x where x: "x \<in> set xs" "y = f x" by auto
  have m: "mset xs = add_mset x (mset (remove1 x xs))" using x(1) by simp
  have "mset (map f xs) = add_mset (f x) (mset (map f (remove1 x xs)))"
    unfolding mset_map by (subst m) simp
  then have "mset ys = mset (map f (remove1 x xs))" using Cons.prems x(2) by (simp only: mset.simps add_mset_add_mset_same_iff)
  from Cons.IH[OF this] obtain zs where z: "ys = map f zs" "mset zs = mset (remove1 x xs)" by blast
  have "mset (x # zs) = mset xs" unfolding mset.simps z(2) m[symmetric] ..
  moreover have "y # ys = map f (x # zs)" using x(2) z(1) by simp
  ultimately show ?case by (intro exI[of _ "x # zs"] conjI)
qed simp

lemma scanned:
  assumes "sql_ok q" "auth_rel q db st"
  obtains us where "aq_scan q (segment ns (auth_users db)) = encode_rows (row_of_user q) us" "mset us = mset (users_of st ns)"
proof -
  let ?f = "\<lambda>(i, u). (i, row_of_user q u)"
  have "mset (aq_scan q (segment ns (auth_users db))) = mset (map ?f (users_of st ns))"
    using sql_okD(3)[OF assms(1)] auth_relD(2)[OF assms(2)] by (simp add: encode_rows_map)
  from mset_map_ex[OF this] obtain vs where "aq_scan q (segment ns (auth_users db)) = map ?f vs" "mset vs = mset (users_of st ns)"
    by blast
  then show ?thesis using that[of vs] by (simp add: encode_rows_map)
qed

text \<open>The durable search finds a conflict exactly when the in-memory one does, perhaps another one.\<close>

definition conflict :: "string set" where
  "conflict = {''EMAIL_EXISTS'', ''PHONE_NUMBER_EXISTS''}"

lemma ensure_unique_rel:
  assumes q: "sql_ok q" and rel: "auth_rel q db st" and us: "table_ok (users_of st ns)"
  shows "(case ensure_unique (sm_values (users_of st ns)) e ph ex of
      Inr _ \<Rightarrow> ensure_unique_persistent q db ns e ph ex = Inr None
    | Inl x \<Rightarrow> x \<in> conflict \<and> (\<exists>y \<in> conflict. ensure_unique_persistent q db ns e ph ex = Inr (Some y)))"
proof -
  obtain vs where vs: "aq_scan q (segment ns (auth_users db)) = encode_rows (row_of_user q) vs" "mset vs = mset (users_of st ns)"
    by (rule scanned[OF q rel])
  have same: "set vs = set (users_of st ns)" using mset_eq_setD[OF vs(2)] .
  have keys: "\<forall>(i, u) \<in> set vs. local_id u = i"
    unfolding same using table_okD(1,2)[OF us] by (auto simp: in_sm_iff)
  have eq: "ensure_unique (sm_values vs) e ph ex = Inr () \<longleftrightarrow> ensure_unique (sm_values (users_of st ns)) e ph ex = Inr ()"
    unfolding ensure_unique_Inr sm_values_def set_map same ..
  show ?thesis
  proof (cases "ensure_unique (sm_values (users_of st ns)) e ph ex")
    case (Inl x)
    then obtain y where y: "ensure_unique (sm_values vs) e ph ex = Inl y"
      using eq by (cases "ensure_unique (sm_values vs) e ph ex") simp_all
    have "x \<in> conflict" "y \<in> conflict" unfolding conflict_def by (rule ensure_unique_Inl[OF Inl], rule ensure_unique_Inl[OF y])
    then show ?thesis
      unfolding Inl ensure_unique_persistent_def vs(1) ensure_unique_encoded[OF q keys] y by simp
  next
    case (Inr u)
    then have "ensure_unique (sm_values vs) e ph ex = Inr ()" using eq by simp
    then show ?thesis
      unfolding Inr ensure_unique_persistent_def vs(1) ensure_unique_encoded[OF q keys] by simp
  qed
qed

text \<open>At most one account has an email, so the order of the search does not matter.\<close>

lemma find_result: "List.find P xs = Some y \<Longrightarrow> y \<in> set xs \<and> P y"
  by (induction xs) (auto split: if_splits)

lemma find_unique:
  assumes "x \<in> set xs" "P x" "\<And>y. y \<in> set xs \<Longrightarrow> P y \<Longrightarrow> y = x"
  shows "List.find P xs = Some x"
proof (cases "List.find P xs")
  case None
  then show ?thesis using assms(1,2) by (simp add: find_None_iff)
next
  case (Some y)
  then show ?thesis using assms(3)[of y] find_result[OF Some] by simp
qed

lemma find_email_rel:
  assumes q: "sql_ok q" and rel: "auth_rel q db st" and us: "table_ok (users_of st ns)"
  shows "List.find (\<lambda>(_, r). email_is q e r) (aq_scan q (segment ns (auth_users db))) =
    map_option (\<lambda>(i, u). (i, row_of_user q u)) (find_email e (users_of st ns))"
proof -
  obtain vs where vs: "aq_scan q (segment ns (auth_users db)) = encode_rows (row_of_user q) vs" "mset vs = mset (users_of st ns)"
    by (rule scanned[OF q rel])
  have same: "set vs = set (users_of st ns)" using mset_eq_setD[OF vs(2)] .
  let ?P = "\<lambda>(_, u). case email u of None \<Rightarrow> False | Some x \<Rightarrow> eq_ignore_case x e"
  have one: "email_is q e (row_of_user q u) = ?P (i, u)" for i u
    by (simp add: email_is_def row_of_user_def sql_okD(2)[OF q] eq_ignore_case_def split: option.split)
  have rows: "List.find (\<lambda>(_, r). email_is q e r) (encode_rows (row_of_user q) xs) =
      map_option (\<lambda>(i, u). (i, row_of_user q u)) (List.find ?P xs)" for xs
  proof (induction xs)
    case (Cons x xs)
    obtain i u where x: "x = (i, u)" by (cases x)
    show ?case using Cons one[of u i] by (cases "?P x") (simp_all add: x)
  qed simp
  have "List.find ?P vs = List.find ?P (users_of st ns)"
  proof (cases "List.find ?P (users_of st ns)")
    case None
    then have "\<not> (\<exists>x. x \<in> set vs \<and> ?P x)" unfolding find_None_iff same .
    then have "List.find ?P vs = None" unfolding find_None_iff .
    then show ?thesis using None by simp
  next
    case (Some x)
    have x: "x \<in> set (users_of st ns)" "?P x" using find_result[OF Some] by blast+
    have "y = x" if y: "y \<in> set (users_of st ns)" "?P y" for y
    proof (rule ccontr)
      obtain i u j v where p: "x = (i, u)" "y = (j, v)" by (cases x; cases y)
      have g: "sm_get (users_of st ns) i = Some u" "sm_get (users_of st ns) j = Some v"
        using x(1) y(1) p table_okD(1)[OF us] by (simp_all add: in_sm_iff)
      assume "y \<noteq> x"
      then have "i \<noteq> j" using g p by auto
      then have "\<not> same_email (email u) (email v)" using table_okD(3)[OF us g] by (simp add: clash_def)
      moreover obtain a b where "email u = Some a" "eq_ignore_case a e" "email v = Some b" "eq_ignore_case b e"
        using x(2) y(2) unfolding p by (cases "email u"; cases "email v") simp_all
      ultimately show False by (simp add: same_email_def eq_ignore_case_def)
    qed
    then have "List.find ?P vs = Some x" by (intro find_unique[of x vs ?P, unfolded same, OF x])
    then show ?thesis unfolding Some .
  qed
  then show ?thesis by (simp add: vs(1) rows find_email_def)
qed

end
