(* ===== verification/Auth_Durable_Runs.thy ===== *)
theory Auth_Durable_Runs
  imports Auth_Refine Auth_Runs
begin

text \<open>
  Every request of the durable Auth emulator is simulated by the in-memory one, so that a client
  cannot tell them apart, except for the name of the conflict when a request conflicts with one
  account's email and another's phone number.
\<close>

subsection \<open>Replies\<close>

fun agree :: "auth_failure + 'a \<Rightarrow> 'a api \<Rightarrow> bool" where
  "agree (Inr x) (Inr y) = (x = y)"
| "agree (Inl (BadRequest e)) (Inl e') = (e = e' \<or> e \<in> conflict \<and> e' \<in> conflict)"
| "agree _ _ = False"

lemma agree_Inl: "agree (Inl a) (Inl b) \<longleftrightarrow> (\<exists>e. a = BadRequest e \<and> (e = b \<or> e \<in> conflict \<and> b \<in> conflict))"
  by (cases a) auto

definition sim :: "auth_sql \<Rightarrow> (auth_failure + 'a) \<times> auth_db \<Rightarrow> 'a api \<times> auth_state \<Rightarrow> bool" where
  "sim q d m = (agree (fst d) (fst m) \<and> auth_rel q (snd d) (snd m))"

lemma sim_pair [simp]: "sim q (d, db) (m, st) \<longleftrightarrow> agree d m \<and> auth_rel q db st"
  by (simp add: sim_def)

lemma session_user_sim:
  assumes q: "sql_ok q" and rel: "auth_rel q db st"
  shows "sim q (durable_session_user q env now ns t db) (session_user env now ns t st)"
proof (cases "sm_get (sessions st) t")
  case None
  then show ?thesis using rel by (simp add: durable_session_user_def session_user_def session_rel[OF rel])
next
  case (Some s)
  note db = durable_session_user_def[of q env now ns t db, unfolded session_rel[OF rel] Some Let_def option.case load_user_rel[OF q rel] sum.case]
  note mem = session_user_def[of env now ns t st, unfolded Some option.case]
  show ?thesis
  proof (cases "sm_get (users_of st ns) (s_uid s)")
    case None
    then show ?thesis using rel unfolding db mem by simp
  next
    case (Some u)
    show ?thesis using rel rel_delete_session[OF rel, of t] unfolding db mem Some option.case
      by (simp split: option.split)
  qed
qed

lemma subject_sim:
  assumes q: "sql_ok q" and rel: "auth_rel q db st"
  shows "sim q (durable_subject q env now ns token given subject db) (token_subject env now ns token given subject st)"
proof (cases token)
  case None
  then show ?thesis using rel by (simp add: durable_subject_def token_subject_def)
next
  case (Some t)
  obtain d db' m st' where e: "durable_session_user q env now ns t db = (d, db')" "session_user env now ns t st = (m, st')"
    by (metis prod.exhaust)
  have "agree d m" "auth_rel q db' st'" using session_user_sim[OF q rel, of env now ns t] unfolding e by simp_all
  then show ?thesis
    by (cases d; cases m) (simp_all add: durable_subject_def token_subject_def Some e agree_Inl)
qed

lemma create_account_sim:
  assumes q: "sql_ok q" and rel: "auth_rel q db st" and ok: "auth_ok env st"
  shows "sim q (durable_create_account q now_ms uuid ns r db) (create_account now_ms uuid ns r st)"
proof -
  let ?i = "unwrap_or (w_local_id r) uuid"
  let ?u = "new_user now_ms ?i r"
  note touched = rel_touch[OF rel auth_okD(1)[OF ok], of ns]
  note stored = rel_store_user[OF rel auth_okD(1)[OF ok], of ns ?u, unfolded new_user_simps]
  note unique = ensure_unique_rel[OF q rel auth_okD(2)[OF ok], of ns "w_email r" "w_phone_number r" None]
  show ?thesis
  proof (cases "validate_credentials r")
    case (Inl e)
    then show ?thesis using rel by (simp add: durable_create_account_def create_account_def)
  next
    case (Inr z)
    show ?thesis
    proof (cases "?i = [] \<or> sm_has (users_of st ns) ?i")
      case True
      then show ?thesis using rel touched Inr
        by (auto simp: durable_create_account_def create_account_def Let_def load_user_rel[OF q rel] sm_has_def)
    next
      case False
      then have "sm_get (users_of st ns) ?i = None" by (simp add: sm_has_def)
      then show ?thesis using False unique touched stored Inr
        by (auto simp: durable_create_account_def create_account_def Let_def load_user_rel[OF q rel] split: sum.splits)
    qed
  qed
qed

lemma lookup_accounts_sim:
  assumes q: "sql_ok q" and rel: "auth_rel q db st"
  shows "sim q (durable_lookup_accounts q env now ns r db) (lookup_accounts env now ns r st)"
proof -
  obtain d db' m st' where e: "durable_subject q env now ns (l_id_token r) (l_local_id r) (\<lambda>i. [i]) db = (d, db')"
    "token_subject env now ns (l_id_token r) (l_local_id r) (\<lambda>i. [i]) st = (m, st')" by (metis prod.exhaust)
  have s: "agree d m" "auth_rel q db' st'"
    using subject_sim[OF q rel, of env now ns "l_id_token r" "l_local_id r" "\<lambda>i. [i]"] unfolding e by simp_all
  then show ?thesis
    by (cases d; cases m)
      (simp_all add: durable_lookup_accounts_def lookup_accounts_def e agree_Inl auth_relD(2) rows_decoded[OF q])
qed

lemma list_users_sim:
  assumes q: "sql_ok q" and rel: "auth_rel q db st"
  shows "agree (durable_list_users q ns limit db) (Inr (list_users ns limit st))"
proof -
  have "take n (encode_rows f us) = encode_rows f (take n us)" for n and f :: "user \<Rightarrow> user_row" and us :: user_map
    by (simp add: encode_rows_map take_map)
  then show ?thesis
    by (simp add: durable_list_users_def list_users_def auth_relD(2)[OF rel] rows_decoded[OF q]) (simp add: sm_values_def take_map)
qed

lemma delete_account_sim:
  assumes q: "sql_ok q" and rel: "auth_rel q db st" and ok: "auth_ok env st"
  shows "sim q (durable_delete_account q env now ns given token db) (delete_account env now ns given token st)"
proof -
  obtain d db' m st' where e: "durable_subject q env now ns token given (\<lambda>i. i) db = (d, db')"
    "token_subject env now ns token given (\<lambda>i. i) st = (m, st')" by (metis prod.exhaust)
  have s: "agree d m" "auth_rel q db' st'"
    using subject_sim[OF q rel, of env now ns token given "\<lambda>i. i"] unfolding e by simp_all
  have ok': "auth_ok env st'" by (rule token_subject_ok[OF ok e(2)])
  show ?thesis
  proof (cases d)
    case (Inl f)
    then show ?thesis using s by (cases m) (simp_all add: durable_delete_account_def delete_account_def e agree_Inl)
  next
    case (Inr i)
    then have m: "m = Inr i" using s(1) by (cases m) simp_all
    note u = users_segment(2)[OF s(2), of ns i]
    have gone: "auth_rel q (db'\<lparr>auth_users := sm_del (ns, i) (auth_users db'),
          auth_sessions := sm_retain (\<lambda>_ r. \<not> (row_namespace r = ns \<and> row_uid r = i)) (auth_sessions db')\<rparr>)
        (set_users ns (sm_del i (users_of st' ns)) st'\<lparr>sessions := sm_retain (\<lambda>_ s. s_namespace s \<noteq> ns \<or> s_uid s \<noteq> i) (sessions st')\<rparr>)"
      using rel_retain_sessions[OF rel_delete_user[OF s(2) auth_okD(1)[OF ok'], of ns i],
          of "\<lambda>_ r. \<not> (row_namespace r = ns \<and> row_uid r = i)" "\<lambda>_ s. s_namespace s \<noteq> ns \<or> s_uid s \<noteq> i"]
      by (simp add: row_of_session_def)
    have "sm_del i (users_of st' ns) = users_of st' ns" if "\<not> sm_has (users_of st' ns) i"
      using that table_okD(1)[OF auth_okD(2)[OF ok']] by (simp add: sm_has_def)
    then show ?thesis using gone rel_touch[OF s(2) auth_okD(1)[OF ok'], of ns] Inr m u
      by (simp add: durable_delete_account_def delete_account_def e Let_def)
  qed
qed

text \<open>Sessions issued by both sides.\<close>

lemma issue_session_fst: "fst (issue_session env now refresh ns u st) = fst (session_bundle env now refresh ns u)"
  by (simp add: issue_session_def Let_def case_prod_beta)

lemma store_insert: "store_user q ns u (insert_sessions now new db) = insert_sessions now new (store_user q ns u db)"
  by (simp add: store_user_def insert_sessions_def Let_def)

lemma login_rel:
  assumes rel: "auth_rel q db st" and ok: "auth_ok env st" and now: "soon now" and i: "local_id u = i"
  shows "auth_rel q (insert_sessions now (snd (session_bundle env now refresh ns u)) (store_user q ns u db))
    (snd (issue_session env now refresh ns u (set_users ns (sm_put i u (users_of st ns)) st)))"
  using rel_issue_session[OF rel_store_user[OF rel auth_okD(1)[OF ok], of ns u] now, of env refresh ns u]
    auth_okD(3)[OF ok] by (simp add: i)

lemma update_account_sim:
  assumes q: "sql_ok q" and rel: "auth_rel q db st" and ok: "auth_ok env st" and now: "soon now"
  shows "sim q (durable_update_account q env now refresh ns r db) (update_account env now refresh ns r st)"
proof -
  obtain d db' m st' where e: "durable_subject q env now ns (w_id_token r) (w_local_id r) Some db = (d, db')"
    "token_subject env now ns (w_id_token r) (w_local_id r) Some st = (m, st')" by (metis prod.exhaust)
  have s: "agree d m" "auth_rel q db' st'"
    using subject_sim[OF q rel, of env now ns "w_id_token r" "w_local_id r" Some] unfolding e by simp_all
  have ok': "auth_ok env st'" by (rule token_subject_ok[OF ok e(2)])
  note touched = rel_touch[OF s(2) auth_okD(1)[OF ok'], of ns]
  note defs = durable_update_account_def update_account_def
  show ?thesis
  proof (cases d)
    case (Inl f)
    then show ?thesis using s by (cases m) (simp_all add: defs e agree_Inl)
  next
    case (Inr target)
    then have m: "m = Inr target" using s(1) by (cases m) simp_all
    show ?thesis
    proof (cases "rbind (validate_credentials r) (\<lambda>_. of_option ''MISSING_LOCAL_ID'' target)")
      case (Inl x)
      then show ?thesis using s(2) by (simp add: defs e Inr m)
    next
      case i: (Inr i)
      note unique = ensure_unique_rel[OF q s(2) auth_okD(2)[OF ok'], of ns "w_email r" "w_phone_number r" "Some i"]
      show ?thesis
      proof (cases "sm_get (users_of st' ns) i")
        case None
        then show ?thesis using touched by (simp add: defs e Inr m i load_user_rel[OF q s(2)] Let_def)
      next
        case (Some old)
        have l: "local_id (apply_update old r) = i"
          using table_okD(2)[OF auth_okD(2)[OF ok'] Some] apply_update_keeps(1) by simp
        note stored = rel_store_user[OF s(2) auth_okD(1)[OF ok'], of ns "apply_update old r", unfolded l]
        note red = defs e Inr m prod.case sum.case i load_user_rel[OF q s(2)] Some option.case Let_def
        show ?thesis
        proof (cases "ensure_unique (sm_values (users_of st' ns)) (w_email r) (w_phone_number r) (Some i)")
          case (Inl x)
          then show ?thesis using unique touched unfolding red by auto
        next
          case unit: (Inr z)
          have none: "ensure_unique_persistent q db' ns (w_email r) (w_phone_number r) (Some i) = Inr None"
            using unique unfolding unit by simp
          show ?thesis using stored login_rel[OF s(2) ok' now l, of refresh ns]
            unfolding red unit none by (simp add: case_prod_beta issue_session_fst store_insert)
        qed
      qed
    qed
  qed
qed

lemma sign_up_sim:
  assumes q: "sql_ok q" and rel: "auth_rel q db st" and ok: "auth_ok env st" and now: "soon now"
  shows "sim q (durable_sign_up q env now now_ms uuid refresh r db) (sign_up env now now_ms uuid refresh r st)"
proof (cases "w_email r \<noteq> None \<and> w_password r = None")
  case True
  then show ?thesis using rel by (simp add: durable_sign_up_def sign_up_def)
next
  case False
  let ?ns = "default_namespace st"
  let ?i = "unwrap_or (w_local_id r) uuid"
  let ?u = "new_user now_ms ?i r"
  note ns = auth_relD(5)[OF rel]
  have i: "local_id ?u = ?i" by simp
  note created = create_account_sim[OF q rel ok, of now_ms uuid ?ns r]
  have split: "durable_sign_up q env now now_ms uuid refresh r db =
      (case durable_create_account q now_ms uuid ?ns r db of
         (Inl e, db') \<Rightarrow> (Inl e, db')
       | (Inr u, db') \<Rightarrow> (Inr (fst (session_bundle env now refresh ?ns u)),
           insert_sessions now (snd (session_bundle env now refresh ?ns u)) db'))"
    using False
    by (auto simp: durable_sign_up_def durable_create_account_def Let_def ns case_prod_beta
        split: sum.splits option.splits)
  note mem = sign_up_def[of env now now_ms uuid refresh r st, unfolded if_not_P[OF False] Let_def]
  obtain d db' m st' where e: "durable_create_account q now_ms uuid ?ns r db = (d, db')"
    "create_account now_ms uuid ?ns r st = (m, st')" by (metis prod.exhaust)
  have s: "agree d m" "auth_rel q db' st'" using created unfolding e by simp_all
  have wf: "sm_wf (sessions st')" using create_account_ok[OF ok, of now_ms uuid ?ns r] e(2) auth_okD(3) by fastforce
  show ?thesis
  proof (cases d)
    case (Inl f)
    then show ?thesis using s by (cases m) (simp_all add: split mem e agree_Inl)
  next
    case (Inr u)
    then have "m = Inr u" using s(1) by (cases m) simp_all
    then show ?thesis using rel_issue_session[OF s(2) now wf, of env refresh ?ns u] Inr
      by (simp add: split mem e case_prod_beta issue_session_fst)
  qed
qed

lemma sign_in_sim:
  assumes q: "sql_ok q" and rel: "auth_rel q db st" and ok: "auth_ok env st" and now: "soon now"
  shows "sim q (durable_sign_in q env now now_ms refresh r db) (sign_in env now now_ms refresh r st)"
proof -
  let ?ns = "default_namespace st"
  note ns = auth_relD(5)[OF rel]
  note touched = rel_touch[OF rel auth_okD(1)[OF ok], of ?ns]
  note defs = durable_sign_in_def sign_in_def
  show ?thesis
  proof (cases "rbind (of_option ''MISSING_EMAIL'' (w_email r)) (\<lambda>e.
           rbind (of_option ''MISSING_PASSWORD'' (w_password r)) (\<lambda>p. Inr (e, p)))")
    case (Inl x)
    then show ?thesis using rel by (simp add: defs Let_def)
  next
    case (Inr ep)
    obtain e p where ep: "ep = (e, p)" by (cases ep)
    note f = find_email_rel[OF q rel auth_okD(2)[OF ok], of e ?ns]
    show ?thesis
    proof (cases "find_email e (users_of st ?ns)")
      case None
      then show ?thesis using touched by (simp add: defs Let_def Inr ep ns f)
    next
      case (Some ku)
      obtain k u where ku: "ku = (k, u)" by (cases ku)
      have k: "local_id (u\<lparr>last_login_at := now_ms\<rparr>) = k" using find_email_Some(2)[OF auth_okD(2)[OF ok] Some[unfolded ku]] by simp
      show ?thesis using touched login_rel[OF rel ok now k, of refresh ?ns]
        by (simp add: defs Let_def Inr ep ns f Some ku decode_row[OF q] case_prod_beta issue_session_fst)
    qed
  qed
qed

lemma refresh_token_sim:
  assumes q: "sql_ok q" and rel: "auth_rel q db st" and ok: "auth_ok env st" and now: "soon now"
  shows "sim q (durable_refresh_token q env now refresh form db) (refresh_token env now refresh form st)"
proof -
  note defs = durable_refresh_token_def refresh_token_def
  show ?thesis
  proof (cases "rbind (guard (sm_get form ''grant_type'' = Some ''refresh_token'') ''INVALID_GRANT_TYPE'') (\<lambda>_.
           rbind (of_option ''MISSING_REFRESH_TOKEN'' (sm_get form ''refresh_token'')) (\<lambda>t.
           rbind (guard (ae_is_uuid env t) ''INVALID_REFRESH_TOKEN'') (\<lambda>_. Inr t)))")
    case (Inl x)
    then show ?thesis using rel by (simp add: defs)
  next
    case (Inr t)
    show ?thesis
    proof (cases "sm_get (sessions st) t")
      case None
      then show ?thesis using rel by (simp add: defs Inr session_rel[OF rel])
    next
      case (Some s)
      show ?thesis
        using rel rel_delete_session[OF rel, of t] rel_issue_session[OF rel now auth_okD(3)[OF ok], of env refresh "s_namespace s"]
        by (cases "sm_get (users_of st (s_namespace s)) (s_uid s)")
          (simp_all add: defs Inr session_rel[OF rel] Some load_user_rel[OF q rel] case_prod_beta issue_session_fst)
    qed
  qed
qed

subsection \<open>Runs\<close>

datatype auth_request =
  CreateAccount string string string write_account
| LookupAccounts nat string lookup_request
| UpdateAccount nat string string write_account
| DeleteAccount nat string string "string option"
| ListAccounts string nat
| SignUp nat string string string write_account
| SignIn nat string string write_account
| Refresh nat string "(string, string) smap"

text \<open>The routes, without a project in their path or with one, and the request each makes.\<close>

datatype auth_call =
  CreateCall write_account
| LookupCall lookup_request
| UpdateCall write_account
| DeleteCall string "string option"
| QueryCall "nat option" "nat option"
| BatchGetCall "nat option"

definition route_request ::
  "string \<Rightarrow> string option \<Rightarrow> nat \<Rightarrow> string \<Rightarrow> string \<Rightarrow> string \<Rightarrow> auth_call \<Rightarrow> auth_request" where
  "route_request default_ns project now now_ms uuid refresh call =
     (let ns = request_namespace default_ns project in
      case call of
        CreateCall r \<Rightarrow> CreateAccount now_ms uuid ns r
      | LookupCall r \<Rightarrow> LookupAccounts now ns r
      | UpdateCall r \<Rightarrow> UpdateAccount now refresh ns r
      | DeleteCall i token \<Rightarrow> DeleteAccount now ns i token
      | QueryCall max_results page_size \<Rightarrow> ListAccounts ns (unwrap_or (or_else max_results page_size) 1000)
      | BatchGetCall max_results \<Rightarrow> ListAccounts ns (unwrap_or max_results 1000))"

datatype auth_reply = AccountReply user | AccountsReply "user list" | JsonReply json | EmptyReply

definition reply :: "('a \<Rightarrow> auth_reply) \<Rightarrow> ('e + 'a) \<times> 's \<Rightarrow> ('e + auth_reply) \<times> 's" where
  "reply f r = (map_sum (\<lambda>e. e) f (fst r), snd r)"

fun memory_request :: "auth_env \<Rightarrow> auth_request \<Rightarrow> auth_state \<Rightarrow> auth_reply api \<times> auth_state" where
  "memory_request env (CreateAccount now_ms uuid ns r) st = reply AccountReply (create_account now_ms uuid ns r st)"
| "memory_request env (LookupAccounts now ns r) st = reply AccountsReply (lookup_accounts env now ns r st)"
| "memory_request env (UpdateAccount now refresh ns r) st = reply JsonReply (update_account env now refresh ns r st)"
| "memory_request env (DeleteAccount now ns given token) st = reply (\<lambda>_. EmptyReply) (delete_account env now ns given token st)"
| "memory_request env (ListAccounts ns limit) st = (Inr (AccountsReply (list_users ns limit st)), st)"
| "memory_request env (SignUp now now_ms uuid refresh r) st = reply JsonReply (sign_up env now now_ms uuid refresh r st)"
| "memory_request env (SignIn now now_ms refresh r) st = reply JsonReply (sign_in env now now_ms refresh r st)"
| "memory_request env (Refresh now refresh form) st = reply JsonReply (refresh_token env now refresh form st)"

fun durable_request :: "auth_sql \<Rightarrow> auth_env \<Rightarrow> auth_request \<Rightarrow> auth_db \<Rightarrow> (auth_failure + auth_reply) \<times> auth_db" where
  "durable_request q env (CreateAccount now_ms uuid ns r) db = reply AccountReply (durable_create_account q now_ms uuid ns r db)"
| "durable_request q env (LookupAccounts now ns r) db = reply AccountsReply (durable_lookup_accounts q env now ns r db)"
| "durable_request q env (UpdateAccount now refresh ns r) db = reply JsonReply (durable_update_account q env now refresh ns r db)"
| "durable_request q env (DeleteAccount now ns given token) db =
     reply (\<lambda>_. EmptyReply) (durable_delete_account q env now ns given token db)"
| "durable_request q env (ListAccounts ns limit) db = reply AccountsReply (durable_list_users q ns limit db, db)"
| "durable_request q env (SignUp now now_ms uuid refresh r) db = reply JsonReply (durable_sign_up q env now now_ms uuid refresh r db)"
| "durable_request q env (SignIn now now_ms refresh r) db = reply JsonReply (durable_sign_in q env now now_ms refresh r db)"
| "durable_request q env (Refresh now refresh form) db = reply JsonReply (durable_refresh_token q env now refresh form db)"

text \<open>Requests that issue tokens come while the seconds fit an \<open>i64\<close>.\<close>

fun request_soon :: "auth_request \<Rightarrow> bool" where
  "request_soon (UpdateAccount now _ _ _) = soon now"
| "request_soon (SignUp now _ _ _ _) = soon now"
| "request_soon (SignIn now _ _ _) = soon now"
| "request_soon (Refresh now _ _) = soon now"
| "request_soon _ = True"

fun serve :: "('q \<Rightarrow> 's \<Rightarrow> 'r \<times> 's) \<Rightarrow> 'q list \<Rightarrow> 's \<Rightarrow> 'r list \<times> 's" where
  "serve f [] s = ([], s)"
| "serve f (q # qs) s = (let (r, s1) = f q s; (rs, s2) = serve f qs s1 in (r # rs, s2))"

lemma sim_reply: "sim q d m \<Longrightarrow> sim q (reply f d) (reply f m)"
  by (cases "fst d"; cases "fst m") (simp_all add: sim_def reply_def agree_Inl)

lemma request_sim:
  assumes "sql_ok q" "auth_rel q db st" "auth_ok env st" "request_soon r"
  shows "sim q (durable_request q env r db) (memory_request env r st)"
proof (cases r)
  case (ListAccounts ns limit)
  have "sim q (durable_list_users q ns limit db, db) (Inr (list_users ns limit st), st)"
    using list_users_sim[OF assms(1,2)] assms(2) by simp
  from sim_reply[OF this, of AccountsReply] show ?thesis by (simp add: ListAccounts reply_def)
qed (use assms in \<open>simp_all add: sim_reply create_account_sim lookup_accounts_sim update_account_sim delete_account_sim
      sign_up_sim sign_in_sim refresh_token_sim\<close>)

lemmas soon_fits = soon_now[THEN conjunct2, THEN conjunct2]

lemma memory_request_ok: "auth_ok env st \<Longrightarrow> request_soon r \<Longrightarrow> auth_ok env (snd (memory_request env r st))"
  by (cases r) (simp_all add: reply_def create_account_ok lookup_accounts_ok update_account_ok[OF _ soon_fits]
      delete_account_spec sign_up_ok[OF _ soon_fits] sign_in_ok[OF _ soon_fits] refresh_token_ok[OF _ soon_fits])

lemma serve_sim:
  assumes "sql_ok q" "auth_rel q db st" "auth_ok env st" "list_all request_soon rs"
  shows "list_all2 agree (fst (serve (durable_request q env) rs db)) (fst (serve (memory_request env) rs st)) \<and>
    auth_rel q (snd (serve (durable_request q env) rs db)) (snd (serve (memory_request env) rs st))"
  using assms
proof (induction rs arbitrary: db st)
  case (Cons r rs)
  have s: "sim q (durable_request q env r db) (memory_request env r st)"
    using request_sim[OF Cons.prems(1-3)] Cons.prems(4) by simp
  show ?case
    using s Cons.IH[OF Cons.prems(1) _ memory_request_ok[OF Cons.prems(3)], of "snd (durable_request q env r db)" r] Cons.prems(4)
    by (simp add: sim_def Let_def case_prod_beta)
qed simp

definition empty_db :: "string \<Rightarrow> auth_db" where
  "empty_db ns = \<lparr>auth_users = [], auth_sessions = [], db_default_namespace = ns\<rparr>"

lemma auth_rel_empty: "auth_rel q (empty_db ns) (empty_auth ns)"
  by (simp add: auth_rel_def empty_db_def empty_auth_def users_of_def)

text \<open>
  Property C19.  Durable accounts behave like accounts in memory: whatever requests arrive, the emulator
  with a data directory gives the reply the emulator without one gives, request by request, except
  that a conflict with both an email and a phone number may be reported as the other one; and
  afterwards the tables hold the accounts that memory would hold.  No request fails in the database.
\<close>

theorem durable_auth_refines:
  assumes "sql_ok q" "list_all request_soon rs"
    and "serve (durable_request q env) rs (empty_db ns0) = (durable_replies, db)"
    and "serve (memory_request env) rs (empty_auth ns0) = (memory_replies, st)"
  shows "list_all2 agree durable_replies memory_replies \<and>
    load_user q db ns i = Inr (sm_get (users_of st ns) i)"
proof -
  have ok: "auth_ok env (empty_auth ns0)" by (rule auth_ok_empty)
  have s: "list_all2 agree durable_replies memory_replies" "auth_rel q db st"
    using serve_sim[OF assms(1) auth_rel_empty ok assms(2)] unfolding assms(3,4) by simp_all
  show ?thesis using s(1) load_user_rel[OF assms(1) s(2)] by simp
qed

definition sample_sql :: auth_sql where
  "sample_sql = \<lparr>aq_text = (\<lambda>v. replicate (to_nat v) CHR ''x''), aq_json = (\<lambda>s. Some (from_nat (length s))),
     aq_email = (\<lambda>s. Option.bind (jget ''email'' (from_nat (length s))) as_str), aq_scan = rev\<rparr>"

lemma sample_sql_ok: "sql_ok sample_sql"
proof -
  have "Option.bind (map_option JString e) as_str = e" for e by (cases e) (simp_all add: as_str_def)
  then show ?thesis by (simp add: sql_ok_def sample_sql_def user_value_member)
qed

definition sample_requests :: "auth_request list" where
  "sample_requests = [CreateAccount ''100'' ''u1'' ''project/p'' sample_account,
     CreateAccount ''100'' ''u2'' ''project/p'' (sample_account\<lparr>w_local_id := Some ''u2''\<rparr>)]"

theorem durable_auth_refines_witness:
  "\<exists>d m db st. serve (durable_request sample_sql sample_env) sample_requests (empty_db ''project/p'') = (d, db) \<and>
     serve (memory_request sample_env) sample_requests (empty_auth ''project/p'') = (m, st) \<and>
     list_all2 agree d m \<and> load_user sample_sql db ''project/p'' ''u1'' = Inr (sm_get (users_of st ''project/p'') ''u1'')"
proof -
  have "list_all request_soon sample_requests" by (simp add: sample_requests_def)
  moreover obtain d db where d: "serve (durable_request sample_sql sample_env) sample_requests (empty_db ''project/p'') = (d, db)"
    by (metis surj_pair)
  moreover obtain m st where m: "serve (memory_request sample_env) sample_requests (empty_auth ''project/p'') = (m, st)"
    by (metis surj_pair)
  ultimately show ?thesis using durable_auth_refines[OF sample_sql_ok _ d m] by blast
qed

end
