(* ===== verification/PubSub_Durable.thy ===== *)
theory PubSub_Durable
  imports PubSub_Runs Smap_Segment
begin

text \<open>
  The durable branches of \<open>src/src/pubsub.rs\<close>: the broker as four SQLite tables, with the foreign
  keys that delete the deliveries of a deleted subscription or message.  An operation is one
  transaction: when it fails the tables are as before.  The protobuf encodings are parameters.
\<close>

subsection \<open>Tables\<close>

record pubsub_codec =
  pc_topic :: "topic \<Rightarrow> string"
  pc_read_topic :: "string \<Rightarrow> topic option"
  pc_subscription :: "subscription \<Rightarrow> string"
  pc_read_subscription :: "string \<Rightarrow> subscription option"
  pc_message :: "pubsub_message \<Rightarrow> string"
  pc_read_message :: "string \<Rightarrow> pubsub_message option"
  pc_error :: string

record subscription_row =
  sr_topic :: string
  sr_bytes :: string

record message_row =
  mr_topic :: string
  mr_bytes :: string
  mr_size :: int
  mr_published_at :: int
  mr_expire_at :: int

record delivery_row =
  dr_state :: delivery_state
  dr_ack_id :: "string option"
  dr_deadline :: "int option"
  dr_attempts :: int

record pubsub_db =
  topic_rows :: "(string, string) smap"
  subscription_rows :: "(string, subscription_row) smap"
  message_rows :: "(string, message_row) smap"
  delivery_rows :: "(string \<times> string, delivery_row) smap"

definition empty_pubsub_db :: pubsub_db where
  "empty_pubsub_db = \<lparr>topic_rows = [], subscription_rows = [], message_rows = [], delivery_rows = []\<rparr>"

definition encoded_len :: "pubsub_codec \<Rightarrow> pubsub_message \<Rightarrow> nat" where
  "encoded_len c m = length (pc_message c m)"

definition corrupt :: "pubsub_codec \<Rightarrow> status" where
  "corrupt c = internal (''Pub/Sub persistence error: '' @ pc_error c)"

subsection \<open>Topics and subscriptions\<close>

definition durable_create_topic :: "pubsub_codec \<Rightarrow> topic \<Rightarrow> pubsub_db \<Rightarrow> topic res \<times> pubsub_db" where
  "durable_create_topic c t db =
     (case rbind (parse_resource (topic_name t) ''topics'') (\<lambda>_. topic_supported t) of
        Inl e \<Rightarrow> (Inl e, db)
      | Inr _ \<Rightarrow>
          (if sm_has (topic_rows db) (topic_name t)
           then (Inl (already_exists ''topic already exists''), db)
           else (Inr t, db\<lparr>topic_rows := sm_put (topic_name t) (pc_topic c t) (topic_rows db)\<rparr>)))"

definition durable_get_topic :: "pubsub_codec \<Rightarrow> string \<Rightarrow> pubsub_db \<Rightarrow> topic res" where
  "durable_get_topic c name db =
     rbind (parse_resource name ''topics'') (\<lambda>_.
       case sm_get (topic_rows db) name of
         None \<Rightarrow> Inl (not_found ''topic not found'')
       | Some b \<Rightarrow> of_option (corrupt c) (pc_read_topic c b))"

text \<open>\<open>WHERE substr(name,1,length(?1))=?1 ORDER BY name\<close>.\<close>

definition rows_with_prefix :: "string \<Rightarrow> (string, 'v) smap \<Rightarrow> 'v list" where
  "rows_with_prefix p m = map snd (filter (\<lambda>(n, _). List.take (length p) n = p) m)"

definition durable_list_topics :: "pubsub_codec \<Rightarrow> string \<Rightarrow> pubsub_db \<Rightarrow> topic list res" where
  "durable_list_topics c project db =
     rbind (parse_project project) (\<lambda>_.
       rcollect (\<lambda>b. of_option (corrupt c) (pc_read_topic c b)) (rows_with_prefix (project @ ''/topics/'') (topic_rows db)))"

definition detach_row :: "pubsub_codec \<Rightarrow> string \<Rightarrow> string \<times> subscription_row \<Rightarrow> (string \<times> subscription_row) res" where
  "detach_row c name = (\<lambda>(n, r).
     if sr_topic r = name
     then rbind (of_option (corrupt c) (pc_read_subscription c (sr_bytes r))) (\<lambda>sub.
            Inr (n, \<lparr>sr_topic = deleted_topic, sr_bytes = pc_subscription c (sub\<lparr>sub_topic := deleted_topic\<rparr>)\<rparr>))
     else Inr (n, r))"

definition durable_delete_topic :: "pubsub_codec \<Rightarrow> string \<Rightarrow> pubsub_db \<Rightarrow> unit res \<times> pubsub_db" where
  "durable_delete_topic c name db =
     (case parse_resource name ''topics'' of
        Inl e \<Rightarrow> (Inl e, db)
      | Inr _ \<Rightarrow>
          (if \<not> sm_has (topic_rows db) name then (Inl (not_found ''topic not found''), db)
           else (case rcollect (detach_row c name) (subscription_rows db) of
                   Inl e \<Rightarrow> (Inl e, db)
                 | Inr subs \<Rightarrow> (Inr (), db\<lparr>topic_rows := sm_del name (topic_rows db), subscription_rows := subs\<rparr>))))"

definition durable_create_subscription ::
  "pubsub_codec \<Rightarrow> subscription \<Rightarrow> pubsub_db \<Rightarrow> subscription res \<times> pubsub_db" where
  "durable_create_subscription c request db =
     (case rbind (normalize_subscription request) (\<lambda>sub.
             rbind (parse_resource (sub_name sub) ''subscriptions'') (\<lambda>(sub_project, _).
             rbind (parse_resource (sub_topic sub) ''topics'') (\<lambda>(topic_project, _).
             rbind (guard (sub_project = topic_project)
                      (invalid_argument ''cross-project subscriptions are outside local emulator scope'')) (\<lambda>_.
             Inr sub)))) of
        Inl e \<Rightarrow> (Inl e, db)
      | Inr sub \<Rightarrow>
          (if \<not> sm_has (topic_rows db) (sub_topic sub) then (Inl (not_found ''topic not found''), db)
           else if sm_has (subscription_rows db) (sub_name sub)
           then (Inl (already_exists ''subscription already exists''), db)
           else (Inr sub, db\<lparr>subscription_rows := sm_put (sub_name sub)
                   \<lparr>sr_topic = sub_topic sub, sr_bytes = pc_subscription c sub\<rparr> (subscription_rows db)\<rparr>)))"

definition durable_get_subscription :: "pubsub_codec \<Rightarrow> string \<Rightarrow> pubsub_db \<Rightarrow> subscription res" where
  "durable_get_subscription c name db =
     rbind (parse_resource name ''subscriptions'') (\<lambda>_.
       case sm_get (subscription_rows db) name of
         None \<Rightarrow> Inl (not_found ''subscription not found'')
       | Some r \<Rightarrow> of_option (corrupt c) (pc_read_subscription c (sr_bytes r)))"

definition durable_list_subscriptions :: "pubsub_codec \<Rightarrow> string \<Rightarrow> pubsub_db \<Rightarrow> subscription list res" where
  "durable_list_subscriptions c project db =
     rbind (parse_project project) (\<lambda>_.
       rcollect (\<lambda>r. of_option (corrupt c) (pc_read_subscription c (sr_bytes r)))
         (rows_with_prefix (project @ ''/subscriptions/'') (subscription_rows db)))"

definition names_of_topic :: "string \<Rightarrow> pubsub_db \<Rightarrow> string list" where
  "names_of_topic topic db = map fst (filter (\<lambda>(_, r). sr_topic r = topic) (subscription_rows db))"

definition durable_topic_subscription_names :: "pubsub_codec \<Rightarrow> string \<Rightarrow> pubsub_db \<Rightarrow> string list res" where
  "durable_topic_subscription_names c topic db =
     rbind (durable_get_topic c topic db) (\<lambda>_. Inr (names_of_topic topic db))"

subsection \<open>Garbage\<close>

text \<open>\<open>DELETE FROM pubsub_messages WHERE expire_at<=?1\<close>, which takes their deliveries along.\<close>

definition cleanup_sql :: "int \<Rightarrow> pubsub_db \<Rightarrow> pubsub_db" where
  "cleanup_sql now db =
     db\<lparr>message_rows := sm_retain (\<lambda>_ r. \<not> mr_expire_at r \<le> now) (message_rows db),
        delivery_rows := sm_retain (\<lambda>(_, i) _. case sm_get (message_rows db) i of
            None \<Rightarrow> True | Some r \<Rightarrow> \<not> mr_expire_at r \<le> now) (delivery_rows db)\<rparr>"

text \<open>Messages without a delivery.\<close>

definition sql_gc :: "pubsub_db \<Rightarrow> pubsub_db" where
  "sql_gc db = db\<lparr>message_rows := sm_retain (\<lambda>i _. i \<in> set (map (snd \<circ> fst) (delivery_rows db))) (message_rows db)\<rparr>"

definition durable_delete_subscription :: "string \<Rightarrow> pubsub_db \<Rightarrow> unit res \<times> pubsub_db" where
  "durable_delete_subscription name db =
     (case parse_resource name ''subscriptions'' of
        Inl e \<Rightarrow> (Inl e, db)
      | Inr _ \<Rightarrow>
          (if \<not> sm_has (subscription_rows db) name
           then (Inl (not_found ''subscription not found''), db)
           else (Inr (), sql_gc (db\<lparr>subscription_rows := sm_del name (subscription_rows db),
                  delivery_rows := sm_retain (\<lambda>(sub, _) _. sub \<noteq> name) (delivery_rows db)\<rparr>))))"

subsection \<open>Publishing\<close>

text \<open>\<open>count(*)\<close> and \<open>sum(size_bytes)\<close> over deliveries joined with their messages.\<close>

definition backlog :: "pubsub_db \<Rightarrow> int \<times> int" where
  "backlog db =
     (let sizes = List.map_filter (\<lambda>((_, i), _). map_option mr_size (sm_get (message_rows db) i)) (delivery_rows db)
      in (int (length sizes), sum_list sizes))"

definition new_row :: delivery_row where
  "new_row = \<lparr>dr_state = Available, dr_ack_id = None, dr_deadline = None, dr_attempts = 0\<rparr>"

text \<open>The inserts of a message; a primary key that exists fails the transaction.\<close>

definition insert_message ::
  "pubsub_codec \<Rightarrow> string \<Rightarrow> int \<Rightarrow> int \<Rightarrow> string list \<Rightarrow> pubsub_message \<Rightarrow> pubsub_db \<Rightarrow> pubsub_db res" where
  "insert_message c topic now expiry subs m db =
     (let i = message_id m in
      if sm_has (message_rows db) i \<or> list_ex (\<lambda>sub. sm_has (delivery_rows db) (sub, i)) subs
      then Inl (corrupt c)
      else Inr (db\<lparr>message_rows := sm_put i \<lparr>mr_topic = topic, mr_bytes = pc_message c m,
                     mr_size = int (encoded_len c m), mr_published_at = now, mr_expire_at = expiry\<rparr> (message_rows db),
                   delivery_rows := fold (\<lambda>sub. sm_put (sub, i) new_row) subs (delivery_rows db)\<rparr>))"

fun insert_messages ::
  "pubsub_codec \<Rightarrow> string \<Rightarrow> int \<Rightarrow> int \<Rightarrow> string list \<Rightarrow> pubsub_message list \<Rightarrow> pubsub_db \<Rightarrow> pubsub_db res" where
  "insert_messages c topic now expiry subs [] db = Inr db"
| "insert_messages c topic now expiry subs (m # ms) db =
     rbind (insert_message c topic now expiry subs m db) (insert_messages c topic now expiry subs ms)"

definition publish_sql ::
  "pubsub_codec \<Rightarrow> int \<Rightarrow> string \<Rightarrow> pubsub_message list \<Rightarrow> pubsub_db \<Rightarrow> pubsub_db res" where
  "publish_sql c now topic ms db0 =
     (let expiry = sat_add now (retention_seconds * 1000);
          db = cleanup_sql now db0 in
      if \<not> sm_has (topic_rows db) topic then Inl (not_found ''topic not found'')
      else let subs = names_of_topic topic db in
        if subs = [] then Inr db
        else let added_count = int (length subs * length ms);
                 added_bytes = sum_list (map (\<lambda>m. int (encoded_len c m)) ms) * int (length subs);
                 (count, bytes) = backlog db in
          if sat_add count added_count > max_pending_deliveries
             \<or> sat_add bytes added_bytes > max_pending_bytes
          then Inl (resource_exhausted ''Pub/Sub backlog capacity exceeded'')
          else insert_messages c topic now expiry subs ms db)"

definition durable_publish ::
  "pubsub_codec \<Rightarrow> (nat \<Rightarrow> string) \<Rightarrow> int \<times> int \<Rightarrow> int \<Rightarrow> string \<Rightarrow> pubsub_message list \<Rightarrow>
   pubsub_db \<Rightarrow> string list res \<times> pubsub_db" where
  "durable_publish c fresh published now topic ms db =
     (case prepare_publish (encoded_len c) fresh published topic ms of
        Inl e \<Rightarrow> (Inl e, db)
      | Inr ms' \<Rightarrow>
          (case publish_sql c now topic ms' db of
             Inl e \<Rightarrow> (Inl e, db)
           | Inr db' \<Rightarrow> (Inr (map message_id ms'), db')))"

subsection \<open>Leases\<close>

definition free_row :: "delivery_row \<Rightarrow> delivery_row" where
  "free_row d = d\<lparr>dr_state := Available, dr_ack_id := None, dr_deadline := None\<rparr>"

definition expire_rows :: "string \<Rightarrow> int \<Rightarrow> pubsub_db \<Rightarrow> pubsub_db" where
  "expire_rows sub now db =
     db\<lparr>delivery_rows := sm_update (\<lambda>(s, _) d.
         if s = sub \<and> dr_state d = InFlight \<and> (case dr_deadline d of None \<Rightarrow> False | Some v \<Rightarrow> v \<le> now)
         then free_row d else d) (delivery_rows db)\<rparr>"

text \<open>\<open>ORDER BY m.published_at,m.message_id LIMIT ?2\<close>, over available deliveries with their messages.\<close>

definition candidates :: "string \<Rightarrow> nat \<Rightarrow> pubsub_db \<Rightarrow> (string \<times> message_row) list" where
  "candidates sub max_count db =
     (let available = List.map_filter (\<lambda>(i, d). if dr_state d = Available
            then map_option (\<lambda>r. (i, r)) (sm_get (message_rows db) i) else None) (segment sub (delivery_rows db))
      in List.take (max 16 (min 1000 (max_count * 4))) (sort_key (\<lambda>(i, r). (mr_published_at r, i)) available))"

definition lease_row :: "string \<times> string \<Rightarrow> string \<Rightarrow> int \<Rightarrow> pubsub_db \<Rightarrow> pubsub_db" where
  "lease_row key ack deadline db =
     db\<lparr>delivery_rows := sm_update (\<lambda>k d. if k = key
         then d\<lparr>dr_state := InFlight, dr_ack_id := Some ack, dr_deadline := Some deadline,
                dr_attempts := dr_attempts d + 1\<rparr>
         else d) (delivery_rows db)\<rparr>"

definition ack_taken :: "pubsub_db \<Rightarrow> string \<Rightarrow> bool" where
  "ack_taken db a = list_ex (\<lambda>(_, d). dr_ack_id d = Some a) (delivery_rows db)"

definition row_available :: "pubsub_db \<Rightarrow> string \<times> string \<Rightarrow> bool" where
  "row_available db key = (case sm_get (delivery_rows db) key of None \<Rightarrow> False | Some d \<Rightarrow> dr_state d = Available)"

fun claim_rows ::
  "pubsub_codec \<Rightarrow> (nat \<Rightarrow> string) \<Rightarrow> string \<Rightarrow> nat \<Rightarrow> int \<Rightarrow> int \<Rightarrow> bool \<Rightarrow> (string \<times> message_row) list \<Rightarrow>
   broker_message list \<Rightarrow> int \<Rightarrow> pubsub_db \<Rightarrow> (broker_message list \<times> pubsub_db) res" where
  "claim_rows c fresh sub max_count max_bytes deadline fitting [] result used db = Inr (result, db)"
| "claim_rows c fresh sub max_count max_bytes deadline fitting ((i, r) # rs) result used db =
     (if length result \<ge> max_count then Inr (result, db)
      else if mr_size r > int max_delivery_message_bytes
      then Inl (internal (''Pub/Sub persistence error: Pub/Sub message '' @ i @ '' exceeds delivery response budget''))
      else if sat_add used (mr_size r) > max_bytes \<and> (result \<noteq> [] \<or> fitting)
      then claim_rows c fresh sub max_count max_bytes deadline fitting rs result used db
      else let ack = fresh (length result) in
        if \<not> row_available db (sub, i)
        then claim_rows c fresh sub max_count max_bytes deadline fitting rs result used db
        else if ack_taken db ack then Inl (corrupt c)
        else (case pc_read_message c (mr_bytes r) of
                None \<Rightarrow> Inl (corrupt c)
              | Some m \<Rightarrow>
                  claim_rows c fresh sub max_count max_bytes deadline fitting rs
                    (result @ [\<lparr>broker_ack_id = ack, broker_message = m, size_bytes = mr_size r\<rparr>])
                    (used + mr_size r) (lease_row (sub, i) ack deadline db)))"

definition durable_claim ::
  "pubsub_codec \<Rightarrow> (nat \<Rightarrow> string) \<Rightarrow> int \<Rightarrow> string \<Rightarrow> nat \<Rightarrow> int \<Rightarrow> int option \<Rightarrow> pubsub_db \<Rightarrow>
   broker_message list res \<times> pubsub_db" where
  "durable_claim c fresh now subscription max_count max_bytes deadline_override db0 =
     (case durable_get_subscription c subscription db0 of
        Inl e \<Rightarrow> (Inl e, db0)
      | Inr sub \<Rightarrow>
          let configured = ack_deadline_seconds sub;
              seconds = max 10 (min 600 (case deadline_override of None \<Rightarrow> configured | Some d \<Rightarrow> d));
              deadline = sat_add now (seconds * 1000);
              db = expire_rows subscription now (cleanup_sql now db0);
              rs = candidates subscription max_count db;
              fitting = list_ex (\<lambda>(_, r). mr_size r \<le> max_bytes) rs
          in case claim_rows c fresh subscription max_count max_bytes deadline fitting rs [] 0 db of
               Inl e \<Rightarrow> (Inl e, db0)
             | Inr (out, db') \<Rightarrow> (Inr out, db'))"

definition durable_acknowledge :: "pubsub_codec \<Rightarrow> string \<Rightarrow> string list \<Rightarrow> pubsub_db \<Rightarrow> unit res \<times> pubsub_db" where
  "durable_acknowledge c subscription acks db =
     (case rbind (durable_get_subscription c subscription db) (\<lambda>_.
             guard (acks \<noteq> []) (invalid_argument ''ack_ids must not be empty'')) of
        Inl e \<Rightarrow> (Inl e, db)
      | Inr _ \<Rightarrow>
          (Inr (), sql_gc (fold (\<lambda>a db. db\<lparr>delivery_rows := sm_retain (\<lambda>(s, _) d.
             \<not> (s = subscription \<and> dr_ack_id d = Some a)) (delivery_rows db)\<rparr>) acks db)))"

text \<open>One of the updates of \<open>modify_ack_ids\<close>.\<close>

definition modify_row :: "string \<Rightarrow> int \<Rightarrow> int \<Rightarrow> string \<Rightarrow> pubsub_db \<Rightarrow> pubsub_db" where
  "modify_row subscription seconds deadline a db =
     db\<lparr>delivery_rows := sm_update (\<lambda>(s, _) d.
       if seconds = 0
       then (if s = subscription \<and> dr_ack_id d = Some a then free_row d else d)
       else (if s = subscription \<and> dr_ack_id d = Some a \<and> dr_state d = InFlight
             then d\<lparr>dr_deadline := Some deadline\<rparr> else d)) (delivery_rows db)\<rparr>"

definition durable_modify_ack ::
  "pubsub_codec \<Rightarrow> int \<Rightarrow> string \<Rightarrow> string list \<Rightarrow> int \<Rightarrow> pubsub_db \<Rightarrow> unit res \<times> pubsub_db" where
  "durable_modify_ack c now subscription acks seconds db =
     (case rbind (durable_get_subscription c subscription db) (\<lambda>_.
           rbind (guard (acks \<noteq> []) (invalid_argument ''ack_ids must not be empty'')) (\<lambda>_.
             guard (0 \<le> seconds \<and> seconds \<le> 600)
               (invalid_argument ''ack deadline must be between 0 and 600''))) of
        Inl e \<Rightarrow> (Inl e, db)
      | Inr _ \<Rightarrow> (Inr (), fold (modify_row subscription seconds (sat_add now (seconds * 1000))) acks db))"

text \<open>The order of the result does not matter: it is collected into a set.\<close>

definition durable_active_ack_ids ::
  "pubsub_codec \<Rightarrow> int \<Rightarrow> string \<Rightarrow> string list \<Rightarrow> pubsub_db \<Rightarrow> string list res" where
  "durable_active_ack_ids c now subscription acks db =
     rbind (durable_get_subscription c subscription db) (\<lambda>_.
       if acks = [] then Inr []
       else Inr (filter (\<lambda>a. a \<in> set acks)
         (List.map_filter (\<lambda>(_, d). if dr_state d = InFlight \<and>
              (case dr_deadline d of None \<Rightarrow> False | Some v \<Rightarrow> v > now) then dr_ack_id d else None)
            (segment subscription (delivery_rows db)))))"

definition durable_pending_count :: "string list \<Rightarrow> pubsub_db \<Rightarrow> int" where
  "durable_pending_count subs db = sum_list (map (\<lambda>sub. int (length (segment sub (delivery_rows db)))) subs)"

end
