(* ===== verification/PubSub_Refine.thy ===== *)
theory PubSub_Refine
  imports PubSub_Durable
begin

text \<open>
  The durable broker as the in-memory one: the tables stand for the seven maps, and every operation
  but a claim is the in-memory operation on them, or fails and leaves them alone.  A claim is the
  in-memory loop over the candidates of its query.
\<close>

subsection \<open>The maps of the tables\<close>

definition delivery_of :: "string \<times> string \<Rightarrow> delivery_row \<Rightarrow> delivery" where
  "delivery_of k r = \<lparr>delivery_sub = fst k, delivery_state = dr_state r, ack_id = dr_ack_id r,
     deadline_ms = dr_deadline r, delivery_attempts = dr_attempts r\<rparr>"

definition abs_db :: "pubsub_codec \<Rightarrow> pubsub_db \<Rightarrow> memory_state" where
  "abs_db c db =
     \<lparr>topics = encode_rows (\<lambda>b. the (pc_read_topic c b)) (topic_rows db),
      subscriptions = encode_rows (\<lambda>r. the (pc_read_subscription c (sr_bytes r))) (subscription_rows db),
      messages = encode_rows (\<lambda>r. the (pc_read_message c (mr_bytes r))) (message_rows db),
      message_topics = encode_rows mr_topic (message_rows db),
      message_sizes = encode_rows mr_size (message_rows db),
      message_expiry = encode_rows mr_expire_at (message_rows db),
      deliveries = encode_keyed delivery_of (delivery_rows db)\<rparr>"

lemma abs_db_simps [simp]:
  "topics (abs_db c db) = encode_rows (\<lambda>b. the (pc_read_topic c b)) (topic_rows db)"
  "subscriptions (abs_db c db) = encode_rows (\<lambda>r. the (pc_read_subscription c (sr_bytes r))) (subscription_rows db)"
  "messages (abs_db c db) = encode_rows (\<lambda>r. the (pc_read_message c (mr_bytes r))) (message_rows db)"
  "message_topics (abs_db c db) = encode_rows mr_topic (message_rows db)"
  "message_sizes (abs_db c db) = encode_rows mr_size (message_rows db)"
  "message_expiry (abs_db c db) = encode_rows mr_expire_at (message_rows db)"
  "deliveries (abs_db c db) = encode_keyed delivery_of (delivery_rows db)"
  by (simp_all add: abs_db_def)

text \<open>Rows that the program wrote: they decode, and a subscription's column is its topic.\<close>

definition subscription_row_ok :: "pubsub_codec \<Rightarrow> subscription_row \<Rightarrow> bool" where
  "subscription_row_ok c r = (\<exists>s. pc_read_subscription c (sr_bytes r) = Some s \<and> sub_topic s = sr_topic r)"

definition tables_ok :: "pubsub_codec \<Rightarrow> pubsub_db \<Rightarrow> bool" where
  "tables_ok c db =
     ((\<forall>e \<in> set (topic_rows db). pc_read_topic c (snd e) \<noteq> None) \<and>
      (\<forall>e \<in> set (subscription_rows db). subscription_row_ok c (snd e)) \<and>
      (\<forall>e \<in> set (message_rows db). pc_read_message c (mr_bytes (snd e)) \<noteq> None))"

text \<open>Decoding what was encoded gives it back.\<close>

definition pubsub_codec_ok :: "pubsub_codec \<Rightarrow> bool" where
  "pubsub_codec_ok c = ((\<forall>t. pc_read_topic c (pc_topic c t) = Some t) \<and>
     (\<forall>s. pc_read_subscription c (pc_subscription c s) = Some s) \<and>
     (\<forall>m. pc_read_message c (pc_message c m) = Some m))"

lemma codecD:
  assumes "pubsub_codec_ok c"
  shows "pc_read_topic c (pc_topic c t) = Some t" "pc_read_subscription c (pc_subscription c s) = Some s"
    "pc_read_message c (pc_message c m) = Some m"
  using assms by (simp_all add: pubsub_codec_ok_def)

definition db_ok :: "pubsub_codec \<Rightarrow> pubsub_db \<Rightarrow> bool" where
  "db_ok c db = (tables_ok c db \<and> broker_ok (encoded_len c) (abs_db c db))"

lemma db_wf:
  assumes "db_ok c db"
  shows "sm_wf (topic_rows db)" "sm_wf (subscription_rows db)" "sm_wf (message_rows db)" "sm_wf (delivery_rows db)"
  using broker_mapsD[OF broker_okD(1)[of "encoded_len c" "abs_db c db"]] assms by (simp_all add: db_ok_def)

lemma tablesD:
  assumes "tables_ok c db"
  shows "sm_get (topic_rows db) n = Some b \<Longrightarrow> \<exists>t. pc_read_topic c b = Some t"
    "sm_get (subscription_rows db) n = Some r \<Longrightarrow> subscription_row_ok c r"
    "sm_get (message_rows db) i = Some m \<Longrightarrow> \<exists>x. pc_read_message c (mr_bytes m) = Some x"
  using assms by (fastforce simp: tables_ok_def dest!: sm_get_in)+

text \<open>What an operation gives: the reply of the in-memory one on the same maps, or a failure that changes nothing.\<close>

definition follows :: "pubsub_codec \<Rightarrow> pubsub_db \<Rightarrow> 'a res \<times> pubsub_db \<Rightarrow> 'a res \<times> memory_state \<Rightarrow> bool" where
  "follows c db d m =
     (fst d = fst m \<and> tables_ok c (snd d) \<and>
      (abs_db c (snd d) = snd m \<or> snd d = db \<and> (\<exists>e. fst d = Inl e)))"

subsection \<open>Topics and subscriptions\<close>

lemma get_topic_abs: "tables_ok c db \<Longrightarrow> durable_get_topic c name db = get_topic_value name (abs_db c db)"
  by (auto simp: durable_get_topic_def get_topic_value_def of_option_def dest!: tablesD(1) split: option.splits
      intro!: arg_cong2[where f = rbind] ext)

lemma get_subscription_abs:
  "tables_ok c db \<Longrightarrow> durable_get_subscription c name db = get_subscription_value name (abs_db c db)"
  by (auto simp: durable_get_subscription_def get_subscription_value_def of_option_def subscription_row_ok_def
      dest!: tablesD(2) split: option.splits intro!: arg_cong2[where f = rbind] ext)

lemma create_topic_follows:
  assumes "pubsub_codec_ok c" "db_ok c db"
  shows "follows c db (durable_create_topic c t db) (create_topic_value t (abs_db c db))"
proof -
  have "tables_ok c db" "sm_wf (topic_rows db)" using assms(2) db_wf[OF assms(2)] by (simp_all add: db_ok_def)
  then show ?thesis
    by (auto simp: follows_def durable_create_topic_def create_topic_value_def tables_ok_def set_sm_put codecD[OF assms(1)]
        abs_db_def split: sum.split)
qed

lemma create_subscription_follows:
  assumes "pubsub_codec_ok c" "db_ok c db"
  shows "follows c db (durable_create_subscription c r db) (create_subscription_value r (abs_db c db))"
proof -
  have "tables_ok c db" "sm_wf (subscription_rows db)" using assms(2) db_wf[OF assms(2)] by (simp_all add: db_ok_def)
  then show ?thesis
    by (auto simp: follows_def durable_create_subscription_def create_subscription_value_def tables_ok_def set_sm_put
        codecD[OF assms(1)] abs_db_def subscription_row_ok_def split: sum.split)
qed

lemma names_abs:
  assumes "db_ok c db"
  shows "names_of_topic topic db = subscription_names topic (abs_db c db)"
proof -
  let ?f = "\<lambda>r. the (pc_read_subscription c (sr_bytes r))"
  have rows: "tables_ok c db" and ok: "broker_ok (encoded_len c) (abs_db c db)" using assms by (simp_all add: db_ok_def)
  have row: "sub_topic (?f r) = sr_topic r \<and> sub_name (?f r) = n" if "(n, r) \<in> set (subscription_rows db)" for n r
  proof -
    have g: "sm_get (subscription_rows db) n = Some r" using that db_wf(2)[OF assms] by (simp add: in_sm_iff)
    then have "sm_get (subscriptions (abs_db c db)) n = Some (?f r)" by simp
    then have "sub_name (?f r) = n" using broker_okD(2)[OF ok] by (simp only: broker_names_def)
    moreover have "sub_topic (?f r) = sr_topic r" using tablesD(2)[OF rows g] by (auto simp: subscription_row_ok_def)
    ultimately show ?thesis by simp
  qed
  have "\<forall>e \<in> set m. sub_topic (?f (snd e)) = sr_topic (snd e) \<and> sub_name (?f (snd e)) = fst e \<Longrightarrow>
      map fst (filter (\<lambda>(_, r). sr_topic r = topic) m) =
      map sub_name (filter (\<lambda>sub. sub_topic sub = topic) (sm_values (encode_rows ?f m)))" for m
    by (induction m) (auto simp: sm_values_def)
  then show ?thesis using row by (fastforce simp: names_of_topic_def subscription_names_def)
qed

lemma topic_subscription_names_abs:
  "db_ok c db \<Longrightarrow> durable_topic_subscription_names c topic db = topic_subscription_names topic (abs_db c db)"
  by (simp add: durable_topic_subscription_names_def topic_subscription_names_def get_topic_abs names_abs db_ok_def)

text \<open>Names with a prefix lie together in the order of the keys.\<close>

lemma prefix_not_less: "starts_with p k \<Longrightarrow> \<not> k < (p :: string)"
proof -
  have "\<not> p @ r < p" for r by (induction p) simp_all
  then show "starts_with p k \<Longrightarrow> \<not> k < p" by (auto simp: starts_with_iff)
qed

lemma after_prefix: "\<not> k < p \<Longrightarrow> \<not> starts_with p k \<Longrightarrow> p @ r < (k :: string)"
proof (induction p arbitrary: k)
  case Nil
  then show ?case by (simp add: starts_with_iff)
next
  case (Cons a p)
  then obtain b l where k: "k = b # l" by (cases k) simp_all
  show ?case
  proof (cases "a = b")
    case True
    then have "\<not> l < p" "\<not> starts_with p l" using Cons.prems k by (auto simp: starts_with_iff)
    then show ?thesis using Cons.IH[of l] True k by simp
  next
    case False
    then show ?thesis using Cons.prems(1) k by auto
  qed
qed

lemma prefix_takeWhile:
  "sm_wf m \<Longrightarrow> \<forall>e \<in> set m. \<not> fst e < p \<Longrightarrow>
   takeWhile (\<lambda>(k, _). starts_with p k) m = filter (\<lambda>(k, _). starts_with p k) (m :: (string, 'v) smap)"
proof (induction m)
  case (Cons e m)
  obtain k v where e: "e = (k, v)" by (cases e)
  show ?case
  proof (cases "starts_with p k")
    case True
    then show ?thesis using Cons e by simp
  next
    case False
    have "\<not> starts_with p j" if "(j, w) \<in> set m" for j w
    proof
      assume "starts_with p j"
      then obtain r where "j = p @ r" by (auto simp: starts_with_iff)
      then have "j < k" using after_prefix[OF _ False] Cons.prems(2) e by simp
      moreover have "k < j" using Cons.prems(1) e that by force
      ultimately show False by simp
    qed
    then have "filter (\<lambda>(k, _). starts_with p k) m = []" by (auto simp: filter_empty_conv)
    then show ?thesis using False e by simp
  qed
qed simp

lemma prefix_range_filter:
  "sm_wf m \<Longrightarrow> prefix_range p m = map snd (filter (\<lambda>(k, _). starts_with p k) (m :: (string, 'v) smap))"
proof (induction m)
  case (Cons e m)
  obtain k v where e: "e = (k, v)" by (cases e)
  show ?case
  proof (cases "k < p")
    case True
    then have "\<not> starts_with p k" using prefix_not_less by blast
    then show ?thesis using Cons e True by (simp add: prefix_range_def)
  next
    case False
    then have "\<forall>x \<in> set (e # m). \<not> fst x < p" using Cons.prems e by (force dest: less_trans)
    then show ?thesis using prefix_takeWhile[OF Cons.prems] e False by (simp add: prefix_range_def)
  qed
qed (simp add: prefix_range_def)

lemma starts_with_take: "starts_with p n \<longleftrightarrow> List.take (length p) n = p"
  by (metis append_eq_conv_conj append_take_drop_id starts_with_iff)

lemma decoded_prefix:
  assumes "sm_wf m" "\<forall>e \<in> set m. dec (snd e) \<noteq> None"
  shows "rcollect (\<lambda>b. of_option err (dec b)) (rows_with_prefix p m) =
    Inr (prefix_range p (encode_rows (\<lambda>b. the (dec b)) m))"
proof -
  have "rcollect (\<lambda>b. of_option err (dec b)) (map snd xs) = Inr (map (\<lambda>e. the (dec (snd e))) xs)"
    if "\<forall>e \<in> set xs. dec (snd e) \<noteq> None" for xs :: "(string \<times> 'a) list"
    using that by (induction xs) auto
  moreover have "map snd (filter (\<lambda>(k, _). starts_with p k) (encode_rows (\<lambda>b. the (dec b)) m)) =
      map (\<lambda>e. the (dec (snd e))) (filter (\<lambda>(k, _). starts_with p k) m)"
    by (induction m) auto
  ultimately show ?thesis using assms by (simp add: prefix_range_filter rows_with_prefix_def starts_with_take)
qed

lemma list_topics_abs: "db_ok c db \<Longrightarrow> durable_list_topics c project db = list_topic_values project (abs_db c db)"
  using db_wf(1) by (auto simp: durable_list_topics_def list_topic_values_def decoded_prefix db_ok_def tables_ok_def)

lemma list_subscriptions_abs:
  assumes "db_ok c db"
  shows "durable_list_subscriptions c project db = list_subscription_values project (abs_db c db)"
proof -
  have "\<forall>e \<in> set (subscription_rows db). pc_read_subscription c (sr_bytes (snd e)) \<noteq> None"
    using assms by (fastforce simp: db_ok_def tables_ok_def subscription_row_ok_def)
  note d = decoded_prefix[where dec = "\<lambda>r. pc_read_subscription c (sr_bytes r)", OF db_wf(2)[OF assms] this]
  show ?thesis unfolding durable_list_subscriptions_def list_subscription_values_def abs_db_simps d ..
qed

lemma delete_topic_follows:
  assumes "pubsub_codec_ok c" "db_ok c db"
  shows "follows c db (durable_delete_topic c name db) (delete_topic_value name (abs_db c db))"
proof -
  have rows: "tables_ok c db" using assms(2) by (simp add: db_ok_def)
  let ?f = "\<lambda>r. the (pc_read_subscription c (sr_bytes r))"
  let ?g = "\<lambda>r. if sr_topic r = name then \<lparr>sr_topic = deleted_topic, sr_bytes = pc_subscription c ((?f r)\<lparr>sub_topic := deleted_topic\<rparr>)\<rparr> else r"
  have "rcollect (detach_row c name) m = Inr (sm_update (\<lambda>_. ?g) m)" if "\<forall>e \<in> set m. subscription_row_ok c (snd e)" for m
    using that by (induction m) (auto simp: detach_row_def subscription_row_ok_def sm_update_def)
  then have subs: "rcollect (detach_row c name) (subscription_rows db) = Inr (sm_update (\<lambda>_. ?g) (subscription_rows db))"
    using rows by (simp add: tables_ok_def)
  have "encode_rows ?f (sm_update (\<lambda>_. ?g) (subscription_rows db)) =
      sm_update (\<lambda>_ sub. if sub_topic sub = name then sub\<lparr>sub_topic := deleted_topic\<rparr> else sub) (encode_rows ?f (subscription_rows db))"
    unfolding encode_rows_def
    by (rule encode_keyed_update) (use rows in \<open>fastforce simp: tables_ok_def subscription_row_ok_def codecD[OF assms(1)]\<close>)
  moreover have "tables_ok c (db\<lparr>topic_rows := sm_del name (topic_rows db), subscription_rows := sm_update (\<lambda>_. ?g) (subscription_rows db)\<rparr>)"
    using rows by (auto simp: tables_ok_def sm_update_def subscription_row_ok_def codecD[OF assms(1)])
  ultimately show ?thesis
    using rows by (auto simp: follows_def durable_delete_topic_def delete_topic_value_def subs abs_db_def split: sum.split)
qed

subsection \<open>Deletions and acknowledgements\<close>

lemma keyed_live: "map (snd \<circ> fst) (encode_keyed f m) = map (snd \<circ> fst) m"
  by (induction m) auto

lemma gc_abs: "abs_db c (sql_gc db) = memory_gc (abs_db c db)"
proof -
  have r: "encode_rows f (sm_retain (\<lambda>i _. P i) m) = sm_retain (\<lambda>i _. P i) (encode_rows f m)"
    for f :: "message_row \<Rightarrow> 'b" and P and m by (rule encode_rows_retain) simp
  show ?thesis by (simp add: sql_gc_def memory_gc_def Let_def abs_db_def keyed_live r)
qed

lemma tables_ok_gc: "tables_ok c db \<Longrightarrow> tables_ok c (sql_gc db)"
  by (auto simp: tables_ok_def sql_gc_def)

lemma abs_deliveries [simp]:
  "abs_db c (db\<lparr>delivery_rows := D\<rparr>) = abs_db c db\<lparr>deliveries := encode_keyed delivery_of D\<rparr>"
  by (simp add: abs_db_def)

lemma tables_ok_deliveries [simp]: "tables_ok c (db\<lparr>delivery_rows := D\<rparr>) = tables_ok c db"
  by (simp add: tables_ok_def)

lemma delivery_of_simps [simp]:
  "delivery_sub (delivery_of k d) = fst k" "delivery_state (delivery_of k d) = dr_state d"
  "ack_id (delivery_of k d) = dr_ack_id d" "deadline_ms (delivery_of k d) = dr_deadline d"
  by (simp_all add: delivery_of_def)

lemma delete_subscription_follows:
  assumes "db_ok c db"
  shows "follows c db (durable_delete_subscription name db) (delete_subscription_value name (abs_db c db))"
proof -
  have rows: "tables_ok c db" using assms by (simp add: db_ok_def)
  let ?db = "db\<lparr>subscription_rows := sm_del name (subscription_rows db),
    delivery_rows := sm_retain (\<lambda>(sub, _) _. sub \<noteq> name) (delivery_rows db)\<rparr>"
  have "encode_keyed delivery_of (sm_retain (\<lambda>(sub, _) _. sub \<noteq> name) (delivery_rows db)) =
      sm_retain (\<lambda>(sub, _) _. sub \<noteq> name) (encode_keyed delivery_of (delivery_rows db))"
    by (rule encode_keyed_retain) auto
  then have a: "abs_db c ?db = abs_db c db\<lparr>subscriptions := sm_del name (subscriptions (abs_db c db)),
      deliveries := sm_retain (\<lambda>(sub, _) _. sub \<noteq> name) (deliveries (abs_db c db))\<rparr>"
    by (simp add: abs_db_def)
  have r: "tables_ok c ?db" using rows by (auto simp: tables_ok_def)
  show ?thesis
  proof (cases "parse_resource name ''subscriptions''")
    case (Inl e)
    then show ?thesis using rows by (simp add: follows_def durable_delete_subscription_def delete_subscription_value_def)
  next
    case (Inr x)
    show ?thesis
    proof (cases "sm_has (subscription_rows db) name")
      case True
      show ?thesis using tables_ok_gc[OF r] gc_abs[of c ?db, unfolded a] Inr True
        by (simp add: follows_def durable_delete_subscription_def delete_subscription_value_def)
    next
      case False
      then show ?thesis using rows Inr by (simp add: follows_def durable_delete_subscription_def delete_subscription_value_def)
    qed
  qed
qed

lemma sm_retain_retain: "sm_retain P (sm_retain Q m) = sm_retain (\<lambda>k v. Q k v \<and> P k v) m"
  by (auto simp: sm_retain_def intro: filter_cong)

lemma acknowledged_rows:
  "fold (\<lambda>a db. db\<lparr>delivery_rows := sm_retain (\<lambda>(s, _) d. \<not> (s = sub \<and> dr_ack_id d = Some a)) (delivery_rows db)\<rparr>) acks db =
   db\<lparr>delivery_rows := sm_retain (\<lambda>(s, _) d. \<not> (s = sub \<and> (\<exists>a \<in> set acks. dr_ack_id d = Some a))) (delivery_rows db)\<rparr>"
proof (induction acks arbitrary: db)
  case Nil
  have "sm_retain (\<lambda>_ _. True) m = m" for m :: "(string \<times> string, delivery_row) smap"
    by (simp add: sm_retain_def case_prod_beta)
  then show ?case by simp
next
  case (Cons a acks)
  show ?case unfolding fold.simps comp_apply Cons.IH
    by (simp add: sm_retain_retain) (rule arg_cong[where f = "\<lambda>P. db\<lparr>delivery_rows := sm_retain P (delivery_rows db)\<rparr>"], auto simp: fun_eq_iff)
qed

lemma acknowledge_follows:
  assumes "db_ok c db"
  shows "follows c db (durable_acknowledge c subscription acks db) (acknowledge_ids subscription acks (abs_db c db))"
proof -
  have rows: "tables_ok c db" using assms by (simp add: db_ok_def)
  let ?db = "db\<lparr>delivery_rows := sm_retain (\<lambda>(s, _) d. \<not> (s = subscription \<and> (\<exists>a \<in> set acks. dr_ack_id d = Some a))) (delivery_rows db)\<rparr>"
  have "encode_keyed delivery_of (delivery_rows ?db) =
      sm_retain (\<lambda>_ d. delivery_sub d \<noteq> subscription \<or> \<not> holds_ack acks d) (encode_keyed delivery_of (delivery_rows db))"
    by simp (rule encode_keyed_retain, auto simp: holds_ack_def split: option.splits)
  then have a: "abs_db c ?db = abs_db c db\<lparr>deliveries := sm_retain (\<lambda>_ d. delivery_sub d \<noteq> subscription \<or> \<not> holds_ack acks d) (deliveries (abs_db c db))\<rparr>"
    by simp
  show ?thesis
  proof (cases "rbind (get_subscription_value subscription (abs_db c db)) (\<lambda>_.
             guard (acks \<noteq> []) (invalid_argument ''ack_ids must not be empty''))")
    case (Inl e)
    then show ?thesis using rows
      by (simp add: follows_def durable_acknowledge_def acknowledge_ids_def get_subscription_abs)
  next
    case (Inr u)
    have "tables_ok c (sql_gc ?db)" by (rule tables_ok_gc) (simp add: rows)
    then show ?thesis using gc_abs[of c ?db, unfolded a]
      unfolding follows_def durable_acknowledge_def acknowledge_ids_def get_subscription_abs[OF rows] acknowledged_rows Inr sum.case
      by simp
  qed
qed

lemma sm_update_update: "sm_update f (sm_update g m) = sm_update (\<lambda>k v. f k (g k v)) m"
  by (simp add: sm_update_def case_prod_beta comp_def)

lemma sm_update_cong: "(\<And>k v. (k, v) \<in> set m \<Longrightarrow> f k v = g k v) \<Longrightarrow> sm_update f m = sm_update g m"
  by (auto simp: sm_update_def)

lemma modified_rows:
  "fold (modify_row sub seconds deadline) acks db =
   db\<lparr>delivery_rows := sm_update (\<lambda>(s, _) d.
      if s = sub \<and> (\<exists>a \<in> set acks. dr_ack_id d = Some a)
      then (if seconds = 0 then free_row d else if dr_state d = InFlight then d\<lparr>dr_deadline := Some deadline\<rparr> else d)
      else d) (delivery_rows db)\<rparr>"
proof (induction acks arbitrary: db)
  case Nil
  have "sm_update (\<lambda>_ d. d) m = m" for m :: "(string \<times> string, delivery_row) smap"
    by (induction m) (auto simp: sm_update_def)
  then show ?case by simp
next
  case (Cons a acks)
  define one where "one = (\<lambda>s d. if seconds = 0
       then (if s = sub \<and> dr_ack_id d = Some a then free_row d else d)
       else (if s = sub \<and> dr_ack_id d = Some a \<and> dr_state d = InFlight
             then d\<lparr>dr_deadline := Some deadline\<rparr> else d))"
  define many where "many = (\<lambda>acks s d. if s = sub \<and> (\<exists>a \<in> set acks. dr_ack_id d = Some a)
      then (if seconds = 0 then free_row d else if dr_state d = InFlight then d\<lparr>dr_deadline := Some deadline\<rparr> else d)
      else d)"
  have step: "many acks s (one s d) = many (a # acks) s d" for s d
    by (cases "s = sub"; cases "dr_ack_id d = Some a"; cases "seconds = 0"; cases "dr_state d = InFlight")
      (simp_all add: one_def many_def free_row_def)
  have first: "modify_row sub seconds deadline a db = db\<lparr>delivery_rows := sm_update (\<lambda>(s, _) d. one s d) (delivery_rows db)\<rparr>"
    by (simp add: modify_row_def one_def)
  have rest: "fold (modify_row sub seconds deadline) acks db' = db'\<lparr>delivery_rows := sm_update (\<lambda>(s, _) d. many acks s d) (delivery_rows db')\<rparr>" for db'
    unfolding Cons.IH many_def ..
  have "fold (modify_row sub seconds deadline) (a # acks) db =
      db\<lparr>delivery_rows := sm_update (\<lambda>(s, _) d. many (a # acks) s d) (delivery_rows db)\<rparr>"
    unfolding fold.simps comp_apply first rest by (simp add: sm_update_update case_prod_unfold step)
  then show ?case unfolding many_def .
qed

lemma modify_ack_follows:
  assumes "db_ok c db"
  shows "follows c db (durable_modify_ack c now subscription acks seconds db)
    (modify_ack_ids now subscription acks seconds (abs_db c db))"
proof -
  have rows: "tables_ok c db" and ok: "broker_ok (encoded_len c) (abs_db c db)" using assms by (simp_all add: db_ok_def)
  let ?deadline = "sat_add now (seconds * 1000)"
  let ?f = "\<lambda>(s, _) d. if s = subscription \<and> (\<exists>a \<in> set acks. dr_ack_id d = Some a)
      then (if seconds = 0 then free_row d else if dr_state d = InFlight then d\<lparr>dr_deadline := Some ?deadline\<rparr> else d) else d"
  let ?g = "\<lambda>_ d. if delivery_sub d = subscription \<and> holds_ack acks d
      then (if seconds = 0 then free_delivery d else d\<lparr>deadline_ms := Some ?deadline\<rparr>) else d"
  have e: "encode_keyed delivery_of (sm_update ?f (delivery_rows db)) = sm_update ?g (encode_keyed delivery_of (delivery_rows db))"
  proof (rule encode_keyed_update)
    fix k v assume "(k, v) \<in> set (delivery_rows db)"
    then have "sm_get (deliveries (abs_db c db)) k = Some (delivery_of k v)"
      using db_wf(4)[OF assms] by (simp add: in_sm_iff)
    then have "lease_ok (delivery_of k v)" by (rule deliveryD(4)[OF ok])
    then have "dr_ack_id v \<noteq> None \<Longrightarrow> dr_state v = InFlight" by (cases "dr_state v") (simp_all add: lease_ok_def)
    then show "delivery_of k (?f k v) = ?g k (delivery_of k v)"
      by (cases k) (auto simp: holds_ack_def delivery_of_def free_row_def free_delivery_def split: option.splits)
  qed
  show ?thesis
    using rows by (auto simp: follows_def durable_modify_ack_def modify_ack_ids_def get_subscription_abs[OF rows]
        modified_rows Let_def e split: sum.split)
qed

end
