(* ===== verification/PubSub_Refine_Publish.thy ===== *)
theory PubSub_Refine_Publish
  imports PubSub_Refine
begin

text \<open>
  The durable broker as the in-memory one, continued: the cleanup of expired messages, the return of
  leases that ran out, the backlog, and publishing.
\<close>

subsection \<open>Expired messages\<close>

lemma dropped_messages:
  "fold drop_message is s = s\<lparr>
     messages := sm_retain (\<lambda>i _. i \<notin> set is) (messages s),
     message_topics := sm_retain (\<lambda>i _. i \<notin> set is) (message_topics s),
     message_sizes := sm_retain (\<lambda>i _. i \<notin> set is) (message_sizes s),
     message_expiry := sm_retain (\<lambda>i _. i \<notin> set is) (message_expiry s),
     deliveries := sm_retain (\<lambda>(_, i) _. i \<notin> set is) (deliveries s)\<rparr>"
proof (induction "is" arbitrary: s)
  case Nil
  have all: "sm_retain (\<lambda>_ _. True) m = m" for m :: "('k, 'v) smap" by (simp add: sm_retain_def case_prod_beta)
  show ?case by (simp add: all case_prod_unfold)
next
  case (Cons i "is")
  have del: "sm_del i m = sm_retain (\<lambda>j _. j \<noteq> i) m" for m :: "(string, 'v) smap"
    by (simp add: sm_del_def sm_retain_def case_prod_unfold)
  have two: "sm_retain (\<lambda>j _. j \<notin> set is) (sm_retain (\<lambda>j _. j \<noteq> i) m) = sm_retain (\<lambda>j _. j \<notin> set (i # is)) m"
    for m :: "(string, 'v) smap" by (simp add: sm_retain_retain)
  have three: "sm_retain (\<lambda>(_, j) _. j \<notin> set is) (sm_retain (\<lambda>(_, j) _. j \<noteq> i) m) = sm_retain (\<lambda>(_, j) _. j \<notin> set (i # is)) m"
    for m :: "(string \<times> string, 'v) smap" by (simp add: sm_retain_retain case_prod_unfold)
  show ?case unfolding fold.simps comp_apply Cons.IH by (simp add: drop_message_def del two three del: set_simps)
qed

lemma cleanup_abs:
  assumes "sm_wf (message_rows db)"
  shows "abs_db c (cleanup_sql now db) = cleanup_memory now (abs_db c db)"
proof -
  let ?is = "map fst (filter (\<lambda>(_, expiry). expiry \<le> now) (encode_rows mr_expire_at (message_rows db)))"
  have gone: "i \<in> set ?is \<longleftrightarrow> (\<exists>r. sm_get (message_rows db) i = Some r \<and> mr_expire_at r \<le> now)" for i
  proof -
    have "sm_wf (encode_rows mr_expire_at (message_rows db))" using assms by simp
    then have "i \<in> set ?is \<longleftrightarrow> (\<exists>e. sm_get (encode_rows mr_expire_at (message_rows db)) i = Some e \<and> e \<le> now)"
      by (force simp: in_sm_iff)
    then show ?thesis by auto
  qed
  have rows: "encode_rows f (sm_retain (\<lambda>_ r. \<not> mr_expire_at r \<le> now) (message_rows db)) =
      sm_retain (\<lambda>i _. i \<notin> set ?is) (encode_rows f (message_rows db))" for f :: "message_row \<Rightarrow> 'b"
    by (rule encode_rows_retain) (simp only: gone in_sm_iff[OF assms], simp)
  have dels: "encode_keyed delivery_of (sm_retain (\<lambda>(_, i) _. case sm_get (message_rows db) i of
            None \<Rightarrow> True | Some r \<Rightarrow> \<not> mr_expire_at r \<le> now) (delivery_rows db)) =
      sm_retain (\<lambda>(_, i) _. i \<notin> set ?is) (encode_keyed delivery_of (delivery_rows db))"
  proof (rule encode_keyed_retain)
    fix k v
    show "(case k of (_, i) \<Rightarrow> \<lambda>_. i \<notin> set ?is) (delivery_of k v) \<longleftrightarrow> (case k of (_, i) \<Rightarrow> \<lambda>_.
      case sm_get (message_rows db) i of None \<Rightarrow> True | Some r \<Rightarrow> \<not> mr_expire_at r \<le> now) v"
      by (cases k) (simp only: gone prod.case, auto split: option.splits)
  qed
  show ?thesis unfolding cleanup_memory_def Let_def dropped_messages abs_db_simps
    by (simp add: abs_db_def cleanup_sql_def rows dels del: set_map)
qed

lemma tables_ok_cleanup: "tables_ok c db \<Longrightarrow> tables_ok c (cleanup_sql now db)"
  by (auto simp: tables_ok_def cleanup_sql_def)

lemma db_ok_cleanup: "db_ok c db \<Longrightarrow> db_ok c (cleanup_sql now db)"
  by (simp add: db_ok_def tables_ok_cleanup cleanup_abs[OF db_wf(3)] cleanup_memory_ok)

lemma expire_abs: "abs_db c (expire_rows sub now db) = expire_leases sub now (abs_db c db)"
  unfolding expire_rows_def expire_leases_def abs_deliveries abs_db_simps
  by (rule arg_cong[where f = "\<lambda>D. abs_db c db\<lparr>deliveries := D\<rparr>"], rule encode_keyed_update)
    (auto simp: delivery_of_def free_row_def free_delivery_def split: option.splits prod.splits)

lemma db_ok_expire: "db_ok c db \<Longrightarrow> db_ok c (expire_rows sub now db)"
  by (simp add: db_ok_def expire_abs expire_leases_ok) (simp add: expire_rows_def)

lemma row_of_delivery:
  assumes "db_ok c db" "sm_get (delivery_rows db) k = Some d"
  obtains r where "sm_get (message_rows db) (snd k) = Some r"
proof -
  have "broker_ok (encoded_len c) (abs_db c db)" using assms(1) by (simp add: db_ok_def)
  moreover have "sm_get (deliveries (abs_db c db)) k = Some (delivery_of k d)" using assms(2) by simp
  ultimately have "sm_has (messages (abs_db c db)) (snd k)" by (rule deliveryD(3))
  then show ?thesis using that by (auto simp: sm_has_def)
qed

lemma backlog_abs:
  assumes "db_ok c db"
  shows "backlog db = memory_usage (abs_db c db)"
proof -
  have joined: "\<exists>r. sm_get (message_rows db) (snd (fst e)) = Some r" if "e \<in> set (delivery_rows db)" for e
  proof -
    have "sm_get (delivery_rows db) (fst e) = Some (snd e)" using that db_wf(4)[OF assms] by (simp add: in_sm_get)
    then show ?thesis using row_of_delivery[OF assms] by metis
  qed
  have "int (length (List.map_filter (\<lambda>((_, i), _). map_option mr_size (sm_get (message_rows db) i)) D)) = int (length (encode_keyed delivery_of D)) \<and>
    sum_list (List.map_filter (\<lambda>((_, i), _). map_option mr_size (sm_get (message_rows db) i)) D) =
    sum_list (map (\<lambda>((_, i), _). case sm_get (encode_rows mr_size (message_rows db)) i of None \<Rightarrow> 0 | Some n \<Rightarrow> n) (encode_keyed delivery_of D))"
    if "\<forall>e \<in> set D. \<exists>r. sm_get (message_rows db) (snd (fst e)) = Some r" for D
    using that by (induction D) (auto simp: map_filter_simps)
  then show ?thesis using joined by (simp add: backlog_def memory_usage_def Let_def)
qed

subsection \<open>Publishing\<close>

lemma new_rows_abs:
  "encode_keyed delivery_of (fold (\<lambda>sub. sm_put (sub, i) new_row) subs D) =
   fold (\<lambda>sub. sm_put (sub, i) (new_delivery sub)) subs (encode_keyed delivery_of D)"
  by (induction subs arbitrary: D) (simp_all add: delivery_of_def new_row_def new_delivery_def)

lemma get_new_rows:
  "sm_wf D \<Longrightarrow> sm_wf (fold (\<lambda>sub. sm_put (sub, i) new_row) subs D) \<and>
   sm_get (fold (\<lambda>sub. sm_put (sub, i) new_row) subs D) (x, j) =
     (if j = i \<and> x \<in> set subs then Some new_row else sm_get D (x, j))"
  by (induction subs arbitrary: D) auto

text \<open>No row of a message or a delivery has the identifier.\<close>

definition unused_id :: "pubsub_db \<Rightarrow> string \<Rightarrow> bool" where
  "unused_id db i = (\<not> sm_has (message_rows db) i \<and> (\<forall>sub. \<not> sm_has (delivery_rows db) (sub, i)))"

lemma insert_message_abs:
  assumes codec: "pubsub_codec_ok c" and rows: "tables_ok c db"
    and wf: "sm_wf (message_rows db)" "sm_wf (delivery_rows db)" and unused: "unused_id db (message_id m)"
  obtains db' where "insert_message c topic now expiry subs m db = Inr db'" "tables_ok c db'"
    "sm_wf (message_rows db')" "sm_wf (delivery_rows db')"
    "abs_db c db' = store_message (encoded_len c) topic expiry subs m (abs_db c db)"
    "\<And>i. unused_id db i \<Longrightarrow> i \<noteq> message_id m \<Longrightarrow> unused_id db' i"
proof -
  let ?row = "\<lparr>mr_topic = topic, mr_bytes = pc_message c m, mr_size = int (encoded_len c m),
      mr_published_at = now, mr_expire_at = expiry\<rparr>"
  let ?db = "db\<lparr>message_rows := sm_put (message_id m) ?row (message_rows db),
      delivery_rows := fold (\<lambda>sub. sm_put (sub, message_id m) new_row) subs (delivery_rows db)\<rparr>"
  have "insert_message c topic now expiry subs m db = Inr ?db"
    using unused by (simp add: insert_message_def unused_id_def Let_def list_ex_iff)
  moreover have "tables_ok c ?db"
    using rows wf by (auto simp: tables_ok_def set_sm_put codecD[OF codec])
  moreover have "sm_wf (message_rows ?db)" "sm_wf (delivery_rows ?db)"
    using wf get_new_rows[OF wf(2)] by simp_all
  moreover have "abs_db c ?db = store_message (encoded_len c) topic expiry subs m (abs_db c db)"
    by (simp add: abs_db_def store_message_def Let_def new_rows_abs codecD[OF codec])
  moreover have "unused_id ?db i" if "unused_id db i" "i \<noteq> message_id m" for i
    using that wf get_new_rows[OF wf(2)] by (simp add: unused_id_def sm_has_def)
  ultimately show ?thesis by (rule that)
qed

lemma insert_messages_abs:
  assumes "pubsub_codec_ok c" "tables_ok c db" "sm_wf (message_rows db)" "sm_wf (delivery_rows db)"
    and "distinct (map message_id ms)" "\<And>m. m \<in> set ms \<Longrightarrow> unused_id db (message_id m)"
  obtains db' where "insert_messages c topic now expiry subs ms db = Inr db'" "tables_ok c db'"
    "abs_db c db' = fold (store_message (encoded_len c) topic expiry subs) ms (abs_db c db)"
  using assms
proof (induction ms arbitrary: db thesis)
  case Nil
  then show ?case by simp
next
  case (Cons m ms)
  obtain db1 where one: "insert_message c topic now expiry subs m db = Inr db1" "tables_ok c db1"
    "sm_wf (message_rows db1)" "sm_wf (delivery_rows db1)"
    "abs_db c db1 = store_message (encoded_len c) topic expiry subs m (abs_db c db)"
    "\<And>i. unused_id db i \<Longrightarrow> i \<noteq> message_id m \<Longrightarrow> unused_id db1 i"
    by (rule insert_message_abs[OF Cons.prems(2-5) Cons.prems(7)[OF list.set_intros(1)]]) blast
  have "unused_id db1 (message_id m')" if "m' \<in> set ms" for m'
    using one(6) Cons.prems(6,7) that by (force simp: image_iff)
  then obtain db' where "insert_messages c topic now expiry subs ms db1 = Inr db'" "tables_ok c db'"
    "abs_db c db' = fold (store_message (encoded_len c) topic expiry subs) ms (abs_db c db1)"
    using Cons.IH[OF _ Cons.prems(2) one(2-4)] Cons.prems(6) by (metis distinct.simps(2) list.simps(9))
  then show ?case using Cons.prems(1) one(1,5) by simp
qed

lemma publish_follows:
  assumes codec: "pubsub_codec_ok c" and ok: "db_ok c db" and inj: "inj_on fresh {..<length ms}"
    and fresh: "\<And>i. i < length ms \<Longrightarrow> \<not> sm_has (message_rows db) (fresh i)"
  shows "follows c db (durable_publish c fresh published now topic ms db)
    (publish_values (encoded_len c) fresh published now topic ms (abs_db c db))"
proof (cases "prepare_publish (encoded_len c) fresh published topic ms")
  case (Inl e)
  then show ?thesis using ok by (simp add: follows_def durable_publish_def publish_values_def db_ok_def)
next
  case (Inr ms')
  note p = prepare_publish_Inr[OF Inr]
  let ?db = "cleanup_sql now db"
  have okc: "db_ok c ?db" by (rule db_ok_cleanup[OF ok])
  have rows: "tables_ok c ?db" using okc by (simp add: db_ok_def)
  have same: "topic_rows ?db = topic_rows db" by (simp add: cleanup_sql_def)
  have abs: "cleanup_memory now (abs_db c db) = abs_db c ?db" by (simp add: cleanup_abs[OF db_wf(3)[OF ok]])
  have drawn: "message_id m \<in> fresh ` {..<length ms}" if "m \<in> set ms'" for m
  proof -
    have "message_id m \<in> set (map message_id ms')" using that by simp
    then show ?thesis unfolding p(1) by auto
  qed
  have unused: "unused_id ?db (message_id m)" if "m \<in> set ms'" for m
  proof -
    have "message_id m \<in> fresh ` {..<length ms}" using that by (rule drawn)
    then obtain i where i: "i < length ms" "message_id m = fresh i" by auto
    have "\<not> sm_has (message_rows ?db) (fresh i)"
      using fresh[OF i(1)] db_wf(3)[OF ok] by (auto simp: cleanup_sql_def sm_has_def split: option.splits)
    moreover have "sm_has (message_rows ?db) j" if "sm_has (delivery_rows ?db) (sub, j)" for sub j
      using that row_of_delivery[OF okc, of "(sub, j)"] by (force simp: sm_has_def)
    ultimately show ?thesis unfolding unused_id_def i(2) by blast
  qed
  have "distinct (map message_id ms')"
    unfolding p(1) using inj by (simp add: distinct_map lessThan_atLeast0)
  note ins = insert_messages_abs[OF codec rows db_wf(3,4)[OF okc] this unused]
  let ?subs = "names_of_topic topic ?db" and ?expiry = "sat_add now (retention_seconds * 1000)"
  obtain db' where ins: "insert_messages c topic now ?expiry ?subs ms' ?db = Inr db'" "tables_ok c db'"
    "abs_db c db' = fold (store_message (encoded_len c) topic ?expiry ?subs) ms' (abs_db c ?db)"
    by (rule ins)
  have topics: "sm_has (topics (abs_db c ?db)) topic = sm_has (topic_rows ?db) topic" by simp
  note mem = publish_memory_def[of "encoded_len c" now topic ms' "abs_db c db", unfolded Let_def abs topics
      backlog_abs[OF okc, symmetric] names_abs[OF okc, symmetric]]
  note sql = publish_sql_def[of c now topic ms' db, unfolded Let_def ins(1)]
  have base: "tables_ok c db" using ok by (simp add: db_ok_def)
  obtain n bytes where used: "backlog ?db = (n, bytes)" by (cases "backlog ?db")
  show ?thesis
    unfolding follows_def durable_publish_def publish_values_def Inr sum.case mem sql used prod.case
    using rows ins(2,3) base by (simp add: if_distrib)
qed

end
