(* ===== verification/PubSub_Durable_Claim.thy ===== *)
theory PubSub_Durable_Claim
  imports PubSub_Refine_Publish
begin

text \<open>
  A durable claim: the in-memory loop over the candidates of its query, so that its bounds and its
  progress are those of the in-memory claim.
\<close>

subsection \<open>The loop of a claim\<close>

lemma lease_row_abs: "abs_db c (lease_row key ack deadline db) = lease key ack deadline (abs_db c db)"
  unfolding lease_row_def lease_def abs_deliveries abs_db_simps
  by (rule arg_cong[where f = "\<lambda>D. abs_db c db\<lparr>deliveries := D\<rparr>"], rule encode_keyed_update) (auto simp: delivery_of_def)

lemma lease_row_fields [simp]:
  "message_rows (lease_row key ack deadline db) = message_rows db"
  "tables_ok c (lease_row key ack deadline db) = tables_ok c db"
  by (simp_all add: lease_row_def)

lemma db_ok_lease: "db_ok c db \<Longrightarrow> \<not> ack_in_use (abs_db c db) ack \<Longrightarrow> db_ok c (lease_row key ack deadline db)"
  by (simp add: db_ok_def lease_row_abs lease_ok_step)

lemma available_lease: "k \<noteq> key \<Longrightarrow> row_available (lease_row key ack deadline db) k = row_available db k"
  by (simp add: row_available_def lease_row_def split: option.split)

lemma ack_taken_iff:
  assumes "db_ok c db" shows "ack_taken db a \<longleftrightarrow> ack_in_use (abs_db c db) a"
proof -
  have "ack_taken db a \<longleftrightarrow> (\<exists>k d. sm_get (delivery_rows db) k = Some d \<and> dr_ack_id d = Some a)"
    by (auto simp: ack_taken_def list_ex_iff Bex_def in_sm_iff[OF db_wf(4)[OF assms]])
  then show ?thesis by (auto simp: ack_in_use_def) (metis delivery_of_simps(3))+
qed

lemma row_size:
  assumes "db_ok c db" "sm_get (message_rows db) i = Some r"
  shows "stored_size (abs_db c db) (sub, i) = mr_size r" "mr_size r \<le> int max_delivery_message_bytes"
proof -
  show *: "stored_size (abs_db c db) (sub, i) = mr_size r" using assms(2) by (simp add: stored_size_def)
  show "mr_size r \<le> int max_delivery_message_bytes"
    using stored_size_bounds(2)[of "encoded_len c" "abs_db c db" "(sub, i)"] assms(1) * by (simp add: db_ok_def)
qed

lemma claim_rows_abs:
  assumes "db_ok c db" "distinct (map fst rs)" "inj_on fresh {..<max_count}"
    and "\<And>i r. (i, r) \<in> set rs \<Longrightarrow> sm_get (message_rows db) i = Some r \<and> row_available db (sub, i)"
    and "\<And>j. length result \<le> j \<Longrightarrow> j < max_count \<Longrightarrow> \<not> ack_in_use (abs_db c db) (fresh j)"
  obtains out db' where
    "claim_rows c fresh sub max_count max_bytes deadline fitting rs result used db = Inr (out, db')"
    "claim_loop fresh max_count max_bytes deadline fitting (map (\<lambda>(i, _). (sub, i)) rs) result used (abs_db c db) =
       (Inr out, abs_db c db')" "db_ok c db'"
  using assms
proof (induction rs arbitrary: db result used thesis)
  case Nil
  then show ?case by simp
next
  case (Cons e rs)
  obtain i r where e: "e = (i, r)" by (cases e)
  note ok = Cons.prems(2)
  have row: "sm_get (message_rows db) i = Some r" "row_available db (sub, i)" using Cons.prems(5)[of i r] e by auto
  note size = row_size[OF ok row(1)]
  have small: "\<not> mr_size r > int max_delivery_message_bytes" using size(2) by simp
  have "tables_ok c db" using ok by (simp add: db_ok_def)
  then obtain m where m: "pc_read_message c (mr_bytes r) = Some m" using tablesD(3)[OF _ row(1)] by blast
  then have mem: "sm_get (messages (abs_db c db)) i = Some m" using row(1) by simp
  have fst: "distinct (map fst rs)" "i \<notin> fst ` set rs" using Cons.prems(3) e by auto
  let ?rows = "claim_rows c fresh sub max_count max_bytes deadline fitting"
  let ?loop = "claim_loop fresh max_count max_bytes deadline fitting"
  show ?case
  proof (cases "length result \<ge> max_count")
    case True
    then show ?thesis using Cons.prems(1)[of result db] ok e by simp
  next
    case False
    note room = False
    show ?thesis
    proof (cases "sat_add used (mr_size r) > max_bytes \<and> (result \<noteq> [] \<or> fitting)")
      case True
      obtain out db' where out: "?rows rs result used db = Inr (out, db')"
        "?loop (map (\<lambda>(i, _). (sub, i)) rs) result used (abs_db c db) = (Inr out, abs_db c db')" "db_ok c db'"
        by (rule Cons.IH[OF _ ok fst(1) Cons.prems(4)]) (use Cons.prems(5,6) in auto)
      have "?rows (e # rs) result used db = Inr (out, db')"
        unfolding e claim_rows.simps if_not_P[OF room] if_not_P[OF small] if_P[OF True] by (rule out(1))
      moreover have "?loop (map (\<lambda>(i, _). (sub, i)) (e # rs)) result used (abs_db c db) = (Inr out, abs_db c db')"
        unfolding e list.map prod.case claim_loop.simps Let_def size(1) if_not_P[OF room] if_not_P[OF small] if_P[OF True]
        by (rule out(2))
      ultimately show ?thesis using Cons.prems(1) out(3) by blast
    next
      case False
      let ?ack = "fresh (length result)"
      let ?b = "\<lparr>broker_ack_id = ?ack, broker_message = m, size_bytes = mr_size r\<rparr>"
      let ?db = "lease_row (sub, i) ?ack deadline db"
      have unused: "\<not> ack_in_use (abs_db c db) ?ack" using Cons.prems(6) room by simp
      have free: "\<not> ack_in_use (abs_db c ?db) (fresh j)" if "length (result @ [?b]) \<le> j" "j < max_count" for j
      proof -
        have "fresh j \<noteq> ?ack" using that inj_onD[OF Cons.prems(4), of j "length result"] by auto
        then show ?thesis using ack_in_use_lease Cons.prems(6)[of j] that unfolding lease_row_abs by fastforce
      qed
      have "sm_get (message_rows ?db) j = Some r' \<and> row_available ?db (sub, j)" if "(j, r') \<in> set rs" for j r'
      proof -
        have "j \<noteq> i" using that fst(2) by force
        then show ?thesis using Cons.prems(5)[of j r'] that available_lease[of "(sub, j)" "(sub, i)"] by simp
      qed
      then obtain out db' where out: "?rows rs (result @ [?b]) (used + mr_size r) ?db = Inr (out, db')"
        "?loop (map (\<lambda>(i, _). (sub, i)) rs) (result @ [?b]) (used + mr_size r) (abs_db c ?db) = (Inr out, abs_db c db')"
        "db_ok c db'"
        using Cons.IH[OF _ db_ok_lease[OF ok unused] fst(1) Cons.prems(4) _ free] by blast
      have avail: "\<not> \<not> row_available db (sub, i)" and "\<not> ack_taken db ?ack"
        using row(2) unused ack_taken_iff[OF ok] by simp_all
      then have "?rows (e # rs) result used db = Inr (out, db')"
        unfolding e claim_rows.simps Let_def if_not_P[OF room] if_not_P[OF small] if_not_P[OF False] if_not_P[OF avail]
        using m out(1) by simp
      moreover have "?loop (map (\<lambda>(i, _). (sub, i)) (e # rs)) result used (abs_db c db) = (Inr out, abs_db c db')"
        unfolding e list.map prod.case claim_loop.simps Let_def size(1) if_not_P[OF room] if_not_P[OF small]
          if_not_P[OF False] snd_conv mem option.case
        using out(2) by (simp add: lease_row_abs)
      ultimately show ?thesis using Cons.prems(1) out(3) by blast
    qed
  qed
qed

subsection \<open>The candidates\<close>

lemma in_map_filter: "y \<in> set (List.map_filter f xs) \<longleftrightarrow> (\<exists>x \<in> set xs. f x = Some y)"
  by (force simp: List.map_filter_def)

lemma candidatesD:
  assumes "db_ok c db" "(i, r) \<in> set (candidates sub n db)"
  shows "sm_get (message_rows db) i = Some r \<and> row_available db (sub, i)"
proof -
  have "(i, r) \<in> set (List.map_filter (\<lambda>(i, d). if dr_state d = Available
            then map_option (\<lambda>r. (i, r)) (sm_get (message_rows db) i) else None) (segment sub (delivery_rows db)))"
    using assms(2) set_take_subset by (force simp: candidates_def Let_def)
  then show ?thesis using db_wf(4)[OF assms(1)]
    by (auto simp: in_map_filter row_available_def in_sm_iff split: if_splits)
qed

lemma distinct_candidates:
  assumes "db_ok c db" shows "distinct (map fst (candidates sub n db))"
proof -
  let ?f = "\<lambda>(i, d). if dr_state d = Available
            then map_option (\<lambda>r. (i, r)) (sm_get (message_rows db) i) else None"
  have keys: "set (map fst (List.map_filter ?f m)) \<subseteq> set (map fst m)" for m :: "(string, delivery_row) smap"
    by (force simp: in_map_filter split: if_splits)
  have "distinct (map fst m) \<Longrightarrow> distinct (map fst (List.map_filter ?f m))" for m :: "(string, delivery_row) smap"
  proof (induction m)
    case (Cons e m)
    then show ?case using keys[of m] by (cases e) (auto simp: map_filter_simps split: option.splits)
  qed (simp add: map_filter_simps)
  then have "distinct (map fst (List.map_filter ?f (segment sub (delivery_rows db))))"
    using sm_wf_distinct[OF sm_wf_segment[OF db_wf(4)[OF assms]]] .
  then have "distinct (map fst (sort_key (\<lambda>(i, r). (mr_published_at r, i)) (List.map_filter ?f (segment sub (delivery_rows db)))))"
    by (simp add: distinct_map)
  then show ?thesis by (simp add: candidates_def Let_def take_map[symmetric])
qed

lemma sorted_nonempty: "x \<in> set xs \<Longrightarrow> set (sort_key f xs) \<noteq> {}"
  by auto

lemma candidates_nonempty:
  assumes ok: "db_ok c db" and k: "row_available db (sub, i)"
  shows "candidates sub n db \<noteq> []"
proof -
  obtain d where d: "sm_get (delivery_rows db) (sub, i) = Some d" "dr_state d = Available"
    using k by (auto simp: row_available_def split: option.splits)
  obtain r where r: "sm_get (message_rows db) i = Some r" using row_of_delivery[OF ok d(1)] by auto
  have "(i, d) \<in> set (segment sub (delivery_rows db))" using d(1) db_wf(4)[OF ok] by (simp add: in_sm_iff)
  then have "(i, r) \<in> set (List.map_filter (\<lambda>(i, d). if dr_state d = Available
            then map_option (\<lambda>r. (i, r)) (sm_get (message_rows db) i) else None) (segment sub (delivery_rows db)))"
    using d(2) r by (force simp: in_map_filter)
  then have "set (sort_key (\<lambda>(i, r). (mr_published_at r, i)) (List.map_filter (\<lambda>(i, d). if dr_state d = Available
            then map_option (\<lambda>r. (i, r)) (sm_get (message_rows db) i) else None) (segment sub (delivery_rows db)))) \<noteq> {}"
    by (rule sorted_nonempty)
  then show ?thesis unfolding candidates_def Let_def set_empty take_eq_Nil by simp
qed

subsection \<open>A claim from the start\<close>

lemma ack_in_use_before:
  assumes "db_ok c db" "ack_in_use (abs_db c (expire_rows sub now (cleanup_sql now db))) a"
  shows "ack_in_use (abs_db c db) a"
proof -
  have "broker_ok (encoded_len c) (abs_db c db)" using assms(1) by (simp add: db_ok_def)
  then show ?thesis using assms(2) unfolding ack_in_use_def expire_abs cleanup_abs[OF db_wf(3)[OF assms(1)]]
    by (auto simp: expire_leases_def cleanup_deliveries split: if_splits)
qed

lemma durable_claim_loop:
  fixes now :: int
  assumes ok: "db_ok c db" and sub: "durable_get_subscription c sub db = Inr s" and inj: "inj_on fresh {..<max_count}"
    and free: "\<And>j. j < max_count \<Longrightarrow> \<not> ack_in_use (abs_db c db) (fresh j)"
  defines "db1 \<equiv> expire_rows sub now (cleanup_sql now db)"
  defines "keys \<equiv> map (\<lambda>(i, _). (sub, i)) (candidates sub max_count db1)"
  obtains deadline out db' where
    "durable_claim c fresh now sub max_count max_bytes override db = (Inr out, db')" "db_ok c db'"
    "claim_loop fresh max_count max_bytes deadline (list_ex (\<lambda>k. stored_size (abs_db c db1) k \<le> max_bytes) keys)
       keys [] 0 (abs_db c db1) = (Inr out, abs_db c db')"
proof -
  let ?seconds = "max 10 (min 600 (case override of None \<Rightarrow> ack_deadline_seconds s | Some d \<Rightarrow> d))"
  let ?deadline = "sat_add now (?seconds * 1000)"
  let ?fitting = "list_ex (\<lambda>(_, r). mr_size r \<le> max_bytes) (candidates sub max_count db1)"
  have ok1: "db_ok c db1" unfolding db1_def by (intro db_ok_expire db_ok_cleanup ok)
  have fitting: "?fitting = list_ex (\<lambda>k. stored_size (abs_db c db1) k \<le> max_bytes) keys"
  proof -
    have "mr_size r = stored_size (abs_db c db1) (sub, i)" if "(i, r) \<in> set (candidates sub max_count db1)" for i r
      using row_size(1)[OF ok1] candidatesD[OF ok1 that] by simp
    then show ?thesis unfolding keys_def list_ex_iff set_map by (force split: prod.splits)
  qed
  have used: "\<not> ack_in_use (abs_db c db1) (fresh j)" if "length ([] :: broker_message list) \<le> j" "j < max_count" for j
    using free[OF that(2)] ack_in_use_before[OF ok] unfolding db1_def by blast
  obtain out db' where out:
    "claim_rows c fresh sub max_count max_bytes ?deadline ?fitting (candidates sub max_count db1) [] 0 db1 = Inr (out, db')"
    "claim_loop fresh max_count max_bytes ?deadline ?fitting keys [] 0 (abs_db c db1) = (Inr out, abs_db c db')" "db_ok c db'"
    unfolding keys_def by (rule claim_rows_abs[OF ok1 distinct_candidates[OF ok1] inj candidatesD[OF ok1] used])
  have "durable_claim c fresh now sub max_count max_bytes override db = (Inr out, db')"
    unfolding durable_claim_def sub sum.case Let_def db1_def[symmetric] out(1) prod.case ..
  then show ?thesis using that out(2,3) unfolding fitting by blast
qed

lemma distinct_keys: "distinct (map fst rs) \<Longrightarrow> distinct (map (\<lambda>(i, _). (sub, i)) rs)"
  by (induction rs) force+

lemma durable_claim_spec:
  assumes ok: "db_ok c db" and sub: "durable_get_subscription c sub db = Inr s" and bytes: "max_bytes < i64_max"
    and inj: "inj_on fresh {..<max_count}"
    and free: "\<And>j. j < max_count \<Longrightarrow> \<not> ack_in_use (abs_db c db) (fresh j)"
  obtains out db' where "durable_claim c fresh now sub max_count max_bytes override db = (Inr out, db')"
    "db_ok c db'" "length out \<le> max_count" "claim_fits max_bytes out"
    "list_all (held (encoded_len c) sub (abs_db c db')) out"
    "0 < max_count \<and> deliverable now sub (abs_db c db) \<Longrightarrow> out \<noteq> []"
proof -
  define db1 where "db1 = expire_rows sub now (cleanup_sql now db)"
  define keys where "keys = map (\<lambda>(i, _). (sub, i)) (candidates sub max_count db1)"
  let ?fitting = "list_ex (\<lambda>k. stored_size (abs_db c db1) k \<le> max_bytes) keys"
  have ok1: "db_ok c db1" unfolding db1_def by (intro db_ok_expire db_ok_cleanup ok)
  then have broker: "broker_ok (encoded_len c) (abs_db c db1)" by (simp add: db_ok_def)
  obtain deadline out db' where claimed:
    "durable_claim c fresh now sub max_count max_bytes override db = (Inr out, db')" "db_ok c db'"
    "claim_loop fresh max_count max_bytes deadline ?fitting keys [] 0 (abs_db c db1) = (Inr out, abs_db c db')"
    unfolding keys_def db1_def by (rule durable_claim_loop[OF ok sub inj free])
  have distinct: "distinct keys"
    using distinct_keys[OF distinct_candidates[OF ok1, of sub max_count]] by (simp add: keys_def)
  have key: "fst k = sub \<and> (\<exists>d. sm_get (deliveries (abs_db c db1)) k = Some d \<and> delivery_state d = Available)"
    if "k \<in> set keys" for k
    using that candidatesD[OF ok1, of _ _ sub max_count] by (force simp: keys_def row_available_def split: option.splits)
  have used: "\<not> ack_in_use (abs_db c db1) (fresh j)" if "length ([] :: broker_message list) \<le> j" "j < max_count" for j
    using free[OF that(2)] ack_in_use_before[OF ok] unfolding db1_def by blast
  have start: "list_all (held (encoded_len c) sub (abs_db c db1)) []" "0 = sum_list (map size_bytes [])"
    "claim_fits max_bytes []" "length ([] :: broker_message list) \<le> max_count" by (simp_all add: claim_fits_def)
  obtain out' s' where spec:
    "claim_loop fresh max_count max_bytes deadline ?fitting keys [] 0 (abs_db c db1) = (Inr out', s')"
    "length out' \<le> max_count" "claim_fits max_bytes out'" "list_all (held (encoded_len c) sub s') out'"
    "keys \<noteq> [] \<and> 0 < max_count \<and> (?fitting \<longrightarrow> (\<exists>k \<in> set keys. stored_size (abs_db c db1) k \<le> max_bytes)) \<Longrightarrow> out' \<noteq> []"
  proof (rule claim_loop_spec[where fitting = ?fitting and deadline = deadline and sub = sub,
          OF broker distinct bytes key start(1-4) inj used], goal_cases)
    case (4 out' s')
    show ?case by (rule that[of out' s']) (use 4 in simp_all)
  qed simp_all
  have same: "out' = out" "s' = abs_db c db'" using spec(1) claimed(3) by simp_all
  have "out \<noteq> []" if pos: "0 < max_count" and waiting: "deliverable now sub (abs_db c db)"
  proof -
    have "broker_ok (encoded_len c) (abs_db c db)" using ok by (simp add: db_ok_def)
    obtain i d where d: "sm_get (deliveries (abs_db c db)) (sub, i) = Some d" "\<not> expired now (abs_db c db) i"
      "delivery_state d = Available \<or> (\<exists>t. deadline_ms d = Some t \<and> t \<le> now)"
      using waiting unfolding deliverable_def by blast
    have "sm_get (deliveries (cleanup_memory now (abs_db c db))) (sub, i) = Some d"
      using d(1,2) cleanup_deliveries[OF \<open>broker_ok _ (abs_db c db)\<close>] by simp
    moreover have "delivery_sub d = sub" using deliveryD(1)[OF \<open>broker_ok _ (abs_db c db)\<close> d(1)] by simp
    ultimately have "\<exists>e. sm_get (deliveries (abs_db c db1)) (sub, i) = Some e \<and> delivery_state e = Available"
      unfolding db1_def expire_abs cleanup_abs[OF db_wf(3)[OF ok]]
      using d(3) by (cases "delivery_state d") (auto simp: expire_leases_def)
    then have "row_available db1 (sub, i)" by (auto simp: row_available_def)
    then have "keys \<noteq> []" using candidates_nonempty[OF ok1] by (simp add: keys_def)
    then show ?thesis using spec(5) same pos by (auto simp: list_ex_iff)
  qed
  then show ?thesis using that claimed(1,2) spec(2-4) same by blast
qed

lemma grows_durable_claim:
  fixes now :: int and max_bytes :: int and sub :: string and override :: "int option"
  assumes ok: "db_ok c db" and inj: "inj_on fresh {..<max_count}"
    and free: "\<And>j. j < max_count \<Longrightarrow> \<not> ack_in_use (abs_db c db) (fresh j)"
  defines "db' \<equiv> snd (durable_claim c fresh now sub max_count max_bytes override db)"
  shows "db_ok c db' \<and> grows_within (fresh ` {..<max_count}) (abs_db c db) (abs_db c db')"
proof (cases "durable_get_subscription c sub db")
  case (Inl e)
  then show ?thesis using ok by (simp add: db'_def durable_claim_def)
next
  case (Inr s)
  let ?F = "fresh ` {..<max_count}"
  have broker: "broker_ok (encoded_len c) (abs_db c db)" using ok by (simp add: db_ok_def)
  obtain deadline fitting keys out db2 where claimed:
    "durable_claim c fresh now sub max_count max_bytes override db = (Inr out, db2)" "db_ok c db2"
    "claim_loop fresh max_count max_bytes deadline fitting keys [] 0 (abs_db c (expire_rows sub now (cleanup_sql now db))) =
       (Inr out, abs_db c db2)"
    by (rule durable_claim_loop[OF ok Inr inj free])
  have "grows_within ?F (cleanup_memory now (abs_db c db)) (expire_leases sub now (cleanup_memory now (abs_db c db)))"
    unfolding expire_leases_def by (rule grows_update) (auto split: if_splits)
  then have "grows_within ?F (abs_db c db) (abs_db c (expire_rows sub now (cleanup_sql now db)))"
    unfolding expire_abs cleanup_abs[OF db_wf(3)[OF ok]] using grows_trans[OF grows_cleanup[OF broker]] by blast
  moreover have "grows_within ?F (abs_db c (expire_rows sub now (cleanup_sql now db))) (abs_db c db2)"
    using grows_claim_loop[of fresh max_count _ max_bytes deadline fitting keys "[]" 0] claimed(3) by (metis snd_conv)
  ultimately show ?thesis using claimed(1,2) grows_trans unfolding db'_def by auto
qed

end
