(* ===== verification/PubSub_Durable_Runs.thy ===== *)
theory PubSub_Durable_Runs
  imports PubSub_Durable_Claim "HOL-Library.Countable"
begin

text \<open>
  The durable broker as a transition system that refines the in-memory one: every operation but a
  claim gives the in-memory reply on the maps the tables stand for, and a claim has the bounds and the
  progress of the in-memory claim.
\<close>

subsection \<open>Calls and their replies\<close>

datatype broker_reply =
    TopicReply topic | SubscriptionReply subscription | IdsReply "string list"
  | MessagesReply "broker_message list" | DoneReply

definition replies :: "('a \<Rightarrow> broker_reply) \<Rightarrow> 'a res \<times> 's \<Rightarrow> broker_reply res \<times> 's" where
  "replies f r = (map_sum id f (fst r), snd r)"

fun memory_call ::
  "(pubsub_message \<Rightarrow> nat) \<Rightarrow> (nat \<Rightarrow> string) \<Rightarrow> int \<times> int \<Rightarrow> int \<Rightarrow> broker_op \<Rightarrow> memory_state \<Rightarrow>
   broker_reply res \<times> memory_state" where
  "memory_call len fresh published now (CreateTopic t) s = replies TopicReply (create_topic_value t s)"
| "memory_call len fresh published now (DeleteTopic n) s = replies (\<lambda>_. DoneReply) (delete_topic_value n s)"
| "memory_call len fresh published now (CreateSubscription r) s = replies SubscriptionReply (create_subscription_value r s)"
| "memory_call len fresh published now (DeleteSubscription n) s = replies (\<lambda>_. DoneReply) (delete_subscription_value n s)"
| "memory_call len fresh published now (Publish topic ms) s = replies IdsReply (publish_values len fresh published now topic ms s)"
| "memory_call len fresh published now (Claim sub n bytes deadline) s = replies MessagesReply (claim fresh now sub n bytes deadline s)"
| "memory_call len fresh published now (Acknowledge sub acks) s = replies (\<lambda>_. DoneReply) (acknowledge_ids sub acks s)"
| "memory_call len fresh published now (ModifyAck sub acks seconds) s = replies (\<lambda>_. DoneReply) (modify_ack_ids now sub acks seconds s)"

fun durable_call ::
  "pubsub_codec \<Rightarrow> (nat \<Rightarrow> string) \<Rightarrow> int \<times> int \<Rightarrow> int \<Rightarrow> broker_op \<Rightarrow> pubsub_db \<Rightarrow> broker_reply res \<times> pubsub_db" where
  "durable_call c fresh published now (CreateTopic t) db = replies TopicReply (durable_create_topic c t db)"
| "durable_call c fresh published now (DeleteTopic n) db = replies (\<lambda>_. DoneReply) (durable_delete_topic c n db)"
| "durable_call c fresh published now (CreateSubscription r) db = replies SubscriptionReply (durable_create_subscription c r db)"
| "durable_call c fresh published now (DeleteSubscription n) db = replies (\<lambda>_. DoneReply) (durable_delete_subscription n db)"
| "durable_call c fresh published now (Publish topic ms) db = replies IdsReply (durable_publish c fresh published now topic ms db)"
| "durable_call c fresh published now (Claim sub n bytes deadline) db = replies MessagesReply (durable_claim c fresh now sub n bytes deadline db)"
| "durable_call c fresh published now (Acknowledge sub acks) db = replies (\<lambda>_. DoneReply) (durable_acknowledge c sub acks db)"
| "durable_call c fresh published now (ModifyAck sub acks seconds) db = replies (\<lambda>_. DoneReply) (durable_modify_ack c now sub acks seconds db)"

fun is_claim :: "broker_op \<Rightarrow> bool" where
  "is_claim (Claim sub n bytes deadline) = True"
| "is_claim _ = False"

inductive durable_broker_step ::
  "pubsub_codec \<Rightarrow> string set \<times> pubsub_db \<Rightarrow> string set \<times> pubsub_db \<Rightarrow> bool" for c where
  call: "inj_on fresh {..<drawn op} \<Longrightarrow> fresh ` {..<drawn op} \<inter> U = {} \<Longrightarrow>
         durable_broker_step c (U, db) (U \<union> fresh ` {..<drawn op}, snd (durable_call c fresh published now op db))"

lemma replies_simps [simp]: "snd (replies f r) = snd r" "fst (replies f r) = map_sum id f (fst r)"
  by (simp_all add: replies_def)

lemma memory_call_apply [simp]: "snd (memory_call len fresh published now op s) = broker_apply len fresh published now op s"
  by (cases op) simp_all

lemma follows_replies: "follows c db d m \<Longrightarrow> follows c db (replies f d) (replies f m)"
  by (auto simp: follows_def) (metis map_sum.simps(1))

lemma durable_call_follows:
  assumes codec: "pubsub_codec_ok c" and ok: "db_ok c db" and drawn: "drawn_ok U (abs_db c db)"
    and inj: "inj_on fresh {..<drawn op}" and new: "fresh ` {..<drawn op} \<inter> U = {}" and op: "\<not> is_claim op"
  shows "follows c db (durable_call c fresh published now op db)
    (memory_call (encoded_len c) fresh published now op (abs_db c db))"
proof (cases op)
  case (Publish topic ms)
  have "\<not> sm_has (message_rows db) (fresh i)" if "i < length ms" for i
    using new drawn that Publish by (auto simp: drawn_ok_def)
  then show ?thesis using publish_follows[OF codec ok, of fresh ms] inj Publish by (simp add: follows_replies)
next
  case Claim
  then show ?thesis using op by simp
qed (simp_all add: follows_replies create_topic_follows[OF codec ok] delete_topic_follows[OF codec ok]
      create_subscription_follows[OF codec ok] delete_subscription_follows[OF ok] acknowledge_follows[OF ok]
      modify_ack_follows[OF ok])

lemma durable_call_ok:
  fixes now :: int and published :: "int \<times> int"
  assumes codec: "pubsub_codec_ok c" and ok: "db_ok c db" and drawn: "drawn_ok U (abs_db c db)"
    and inj: "inj_on fresh {..<drawn op}" and new: "fresh ` {..<drawn op} \<inter> U = {}"
  defines "db' \<equiv> snd (durable_call c fresh published now op db)"
  shows "db_ok c db' \<and> grows_within (fresh ` {..<drawn op}) (abs_db c db) (abs_db c db')"
proof (cases "is_claim op")
  case True
  then obtain sub n bytes override where op: "op = Claim sub n bytes override" by (cases op) simp_all
  have "\<not> ack_in_use (abs_db c db) (fresh j)" if "j < n" for j
    using drawn new that op by (auto simp: drawn_ok_def)
  then show ?thesis using grows_durable_claim[OF ok, of fresh n] inj op by (simp add: db'_def)
next
  case False
  have broker: "broker_ok (encoded_len c) (abs_db c db)" using ok by (simp add: db_ok_def)
  have f: "tables_ok c db'" "abs_db c db' = broker_apply (encoded_len c) fresh published now op (abs_db c db) \<or> db' = db"
    using durable_call_follows[OF codec ok drawn inj new False, of published now] by (auto simp: follows_def db'_def)
  from f(2) show ?thesis
  proof
    assume "db' = db"
    then show ?thesis using ok by simp
  next
    assume abs: "abs_db c db' = broker_apply (encoded_len c) fresh published now op (abs_db c db)"
    show ?thesis using broker_apply_ok[OF broker drawn inj new] grows_apply[OF broker] f(1)
      unfolding db_ok_def abs by simp
  qed
qed

lemma drawn_ok_grows: "drawn_ok U s \<Longrightarrow> grows_within F s s' \<Longrightarrow> drawn_ok (U \<union> F) s'"
  unfolding drawn_ok_def grows_within_def by blast

lemma durable_steps_ok:
  assumes "(durable_broker_step c)\<^sup>*\<^sup>* (U, db) (U', db')" "pubsub_codec_ok c" "db_ok c db" "drawn_ok U (abs_db c db)"
  shows "db_ok c db' \<and> drawn_ok U' (abs_db c db')"
  using assms(1)
proof (induction "(U', db')" arbitrary: U' db' rule: rtranclp_induct)
  case base
  then show ?case using assms by simp
next
  case (step y)
  obtain V v where y: "y = (V, v)" by (cases y)
  have ih: "db_ok c v" "drawn_ok V (abs_db c v)" using step(3)[OF y] by simp_all
  from step(2)[unfolded y] show ?case
  proof (cases rule: durable_broker_step.cases)
    case (call fresh op published now)
    then show ?thesis using durable_call_ok[OF assms(2) ih call(3,4)] drawn_ok_grows[OF ih(2)] by blast
  qed
qed

lemma abs_db_empty: "abs_db c empty_pubsub_db = empty_memory"
  by (simp add: abs_db_def empty_pubsub_db_def empty_memory_def)

lemma db_ok_empty: "db_ok c empty_pubsub_db"
  unfolding db_ok_def abs_db_empty by (simp add: broker_ok_empty tables_ok_def empty_pubsub_db_def)

lemma durable_reachable_ok:
  assumes "pubsub_codec_ok c" "(durable_broker_step c)\<^sup>*\<^sup>* ({}, empty_pubsub_db) (U, db)"
  shows "db_ok c db" "drawn_ok U (abs_db c db)"
  using durable_steps_ok[OF assms(2,1) db_ok_empty] drawn_ok_empty by (simp_all add: abs_db_empty)

subsection \<open>Counts and tokens\<close>

lemma active_ack_ids_abs:
  assumes "db_ok c db"
  shows "map_sum id set (durable_active_ack_ids c now sub acks db) = map_sum id set (active_ack_ids now sub acks (abs_db c db))"
proof -
  have rows: "tables_ok c db" using assms by (simp add: db_ok_def)
  let ?live = "\<lambda>x. case x of None \<Rightarrow> False | Some v \<Rightarrow> v > now"
  have "a \<in> set (List.map_filter (\<lambda>(_, d). if dr_state d = InFlight \<and> ?live (dr_deadline d) then dr_ack_id d else None)
      (segment sub (delivery_rows db))) \<longleftrightarrow>
    (\<exists>i d. ((sub, i), d) \<in> set (delivery_rows db) \<and> dr_state d = InFlight \<and> ?live (dr_deadline d) \<and> dr_ack_id d = Some a)" for a
    by (force simp: in_map_filter segment_def split: if_splits)
  moreover have "a \<in> set (List.map_filter ack_id (filter (\<lambda>d. delivery_sub d = sub \<and> delivery_state d = InFlight \<and>
      ?live (deadline_ms d)) (sm_values (deliveries (abs_db c db))))) \<longleftrightarrow>
    (\<exists>i d. ((sub, i), d) \<in> set (delivery_rows db) \<and> dr_state d = InFlight \<and> ?live (dr_deadline d) \<and> dr_ack_id d = Some a)" for a
    by (force simp: in_map_filter sm_values_def encode_keyed_def)
  ultimately have "set (filter (\<lambda>a. a \<in> set acks) (List.map_filter (\<lambda>(_, d). if dr_state d = InFlight \<and> ?live (dr_deadline d) then dr_ack_id d else None)
      (segment sub (delivery_rows db)))) = set (filter (\<lambda>a. a \<in> set acks) (List.map_filter ack_id (filter (\<lambda>d. delivery_sub d = sub \<and> delivery_state d = InFlight \<and>
      ?live (deadline_ms d)) (sm_values (deliveries (abs_db c db))))))" by auto
  then show ?thesis unfolding durable_active_ack_ids_def active_ack_ids_def get_subscription_abs[OF rows]
    by (cases "get_subscription_value sub (abs_db c db)") simp_all
qed

lemma sum_indicator: "distinct subs \<Longrightarrow> sum_list (map (\<lambda>s. if x = s then 1 else 0 :: int) subs) = (if x \<in> set subs then 1 else 0)"
  by (induction subs) auto

lemma pending_count_abs:
  assumes "distinct subs"
  shows "durable_pending_count subs db = pending_count subs (abs_db c db)"
proof -
  have "sum_list (map (\<lambda>sub. int (length (segment sub D))) subs) =
      int (length (filter (\<lambda>d. delivery_sub d \<in> set subs) (sm_values (encode_keyed delivery_of D))))" for D
  proof (induction D)
    case Nil
    then show ?case by (simp add: sm_values_def)
  next
    case (Cons e D)
    obtain x i d where e: "e = ((x, i), d)" by (cases e) auto
    have "sum_list (map (\<lambda>sub. int (length (segment sub (e # D)))) subs) =
        sum_list (map (\<lambda>s. if x = s then 1 else 0) subs) + sum_list (map (\<lambda>sub. int (length (segment sub D))) subs)"
      unfolding sum_list_addf[symmetric] by (rule arg_cong[where f = sum_list]) (simp add: e)
    then show ?case using Cons.IH by (simp add: sum_indicator[OF assms] e sm_values_def)
  qed
  then show ?thesis by (cases "subs = []") (simp_all add: durable_pending_count_def pending_count_def)
qed

subsection \<open>A sample run\<close>

instance topic_ext :: (countable) countable
  by (rule countable_classI[of "\<lambda>t. to_nat (topic_name t, message_storage_policy t, kms_key_name t,
      schema_settings t, topic_retention t, ingestion_settings t, topic.more t)"]) (auto intro: topic.equality)

instance subscription_ext :: (countable) countable
  by (rule countable_classI[of "\<lambda>s. to_nat ((sub_name s, sub_topic s, ack_deadline_seconds s, push_config s,
      bigquery_config s, cloud_storage_config s, message_ordering s, retain_acked s), (sub_retention s,
      expiration_policy s, sub_filter s, dead_letter_policy s, retry_policy s, exactly_once s,
      topic_message_retention s, analytics_hub s, subscription.more s))"]) (auto intro: subscription.equality)

instance pubsub_message_ext :: (countable) countable
  by (rule countable_classI[of "\<lambda>m. to_nat (msg_data m, msg_attributes m, message_id m, publish_time m,
      ordering_key m, pubsub_message.more m)"]) (auto intro: pubsub_message.equality)

text \<open>A codec that writes two messages, a sample before and after it gets its identifier, in a byte each.\<close>

definition sample_message :: pubsub_message where
  "sample_message = \<lparr>msg_data = ''x'', msg_attributes = [], message_id = [], publish_time = None, ordering_key = []\<rparr>"

definition sample_stored :: pubsub_message where
  "sample_stored = sample_message\<lparr>message_id := ''m0'', publish_time := Some (0, 0)\<rparr>"

definition sample_codec :: pubsub_codec where
  "sample_codec =
     \<lparr>pc_topic = (\<lambda>t. replicate (to_nat t) CHR ''x''), pc_read_topic = (\<lambda>s. Some (from_nat (length s))),
      pc_subscription = (\<lambda>t. replicate (to_nat t) CHR ''x''), pc_read_subscription = (\<lambda>s. Some (from_nat (length s))),
      pc_message = (\<lambda>m. if m = sample_message then ''a'' else if m = sample_stored then ''b''
        else ''cc'' @ replicate (to_nat m) CHR ''x''),
      pc_read_message = (\<lambda>s. if s = ''a'' then Some sample_message else if s = ''b'' then Some sample_stored
        else Some (from_nat (length s - 2))),
      pc_error = ''invalid''\<rparr>"

lemma sample_codec_ok: "pubsub_codec_ok sample_codec"
  by (simp add: pubsub_codec_ok_def sample_codec_def)

lemma sample_read [simp]: "pc_read_subscription sample_codec (pc_subscription sample_codec s) = Some s"
  by (rule codecD(2)[OF sample_codec_ok])

lemma sample_len [simp]: "encoded_len sample_codec sample_message = 1" "encoded_len sample_codec sample_stored = 1"
  by (simp_all add: encoded_len_def sample_codec_def)

definition sample_resources :: pubsub_db where
  "sample_resources = empty_pubsub_db\<lparr>
     topic_rows := [(sample_topic, pc_topic sample_codec (default_topic sample_topic))],
     subscription_rows := [(sample_sub, \<lparr>sr_topic = sample_topic,
       sr_bytes = pc_subscription sample_codec (default_subscription sample_sub sample_topic)\<rparr>)]\<rparr>"

definition sample_waiting :: pubsub_db where
  "sample_waiting = sample_resources\<lparr>
     message_rows := [(''m0'', \<lparr>mr_topic = sample_topic, mr_bytes = pc_message sample_codec sample_stored, mr_size = 1,
       mr_published_at = 0, mr_expire_at = 86400000\<rparr>)],
     delivery_rows := [((sample_sub, ''m0''), new_row)]\<rparr>"

lemma sample_durable_calls:
  "durable_call sample_codec (sample_fresh ''a'') (0, 0) 0 (CreateTopic (default_topic sample_topic)) empty_pubsub_db =
     (Inr (TopicReply (default_topic sample_topic)),
      empty_pubsub_db\<lparr>topic_rows := [(sample_topic, pc_topic sample_codec (default_topic sample_topic))]\<rparr>)"
  "durable_call sample_codec (sample_fresh ''b'') (0, 0) 0
     (CreateSubscription (default_subscription sample_sub sample_topic))
     (empty_pubsub_db\<lparr>topic_rows := [(sample_topic, pc_topic sample_codec (default_topic sample_topic))]\<rparr>) =
     (Inr (SubscriptionReply (default_subscription sample_sub sample_topic)), sample_resources)"
  "durable_call sample_codec (sample_fresh ''m'') (0, 0) 0 (Publish sample_topic [sample_message]) sample_resources =
     (Inr (IdsReply [''m0'']), sample_waiting)"
proof -
  show "durable_call sample_codec (sample_fresh ''a'') (0, 0) 0 (CreateTopic (default_topic sample_topic)) empty_pubsub_db =
     (Inr (TopicReply (default_topic sample_topic)),
      empty_pubsub_db\<lparr>topic_rows := [(sample_topic, pc_topic sample_codec (default_topic sample_topic))]\<rparr>)"
    by (simp add: replies_def durable_create_topic_def empty_pubsub_db_def topic_supported_def default_topic_def sm_has_def)
  show "durable_call sample_codec (sample_fresh ''b'') (0, 0) 0
     (CreateSubscription (default_subscription sample_sub sample_topic))
     (empty_pubsub_db\<lparr>topic_rows := [(sample_topic, pc_topic sample_codec (default_topic sample_topic))]\<rparr>) =
     (Inr (SubscriptionReply (default_subscription sample_sub sample_topic)), sample_resources)"
    by (simp add: replies_def durable_create_subscription_def empty_pubsub_db_def default_subscription_def
      normalize_subscription_def default_ack_deadline_def sm_has_def sample_resources_def)
  have stored: "sample_message\<lparr>message_id := ''m0'', publish_time := Some (0, 0)\<rparr> = sample_stored"
    by (simp add: sample_stored_def)
  have prepared: "prepare_publish (encoded_len sample_codec) (sample_fresh ''m'') (0, 0) sample_topic [sample_message] =
      Inr [sample_stored]"
    by (simp add: prepare_publish_def stored max_message_bytes_def Let_def sat_add_usize_def max_publish_bytes_def
      max_delivery_message_bytes_def) (simp add: sample_message_def)
  have id: "message_id sample_stored = ''m0''" by (simp add: sample_stored_def)
  have "publish_sql sample_codec 0 sample_topic [sample_stored] sample_resources = Inr sample_waiting"
    by (simp add: publish_sql_def cleanup_sql_def sm_retain_def sample_resources_def sample_waiting_def empty_pubsub_db_def sm_has_def
      names_of_topic_def backlog_def map_filter_simps insert_message_def Let_def id sat_add_def i64_max_def i64_min_def
      max_pending_bytes_def max_pending_deliveries_def retention_seconds_def)
  then show "durable_call sample_codec (sample_fresh ''m'') (0, 0) 0 (Publish sample_topic [sample_message]) sample_resources =
     (Inr (IdsReply [''m0'']), sample_waiting)"
    by (simp add: replies_def durable_publish_def prepared id)
qed

lemma sample_durable_run:
  "(durable_broker_step sample_codec)\<^sup>*\<^sup>* ({}, empty_pubsub_db) ({}, sample_resources)"
  "(durable_broker_step sample_codec)\<^sup>*\<^sup>* ({}, empty_pubsub_db) ({''m0''}, sample_waiting)"
proof -
  let ?db = "empty_pubsub_db\<lparr>topic_rows := [(sample_topic, pc_topic sample_codec (default_topic sample_topic))]\<rparr>"
  have 1: "durable_broker_step sample_codec ({}, empty_pubsub_db) ({}, ?db)"
    using durable_broker_step.call[of "sample_fresh ''a''" "CreateTopic (default_topic sample_topic)" "{}" sample_codec
      empty_pubsub_db "(0, 0)" 0] unfolding sample_durable_calls(1) by simp
  have 2: "durable_broker_step sample_codec ({}, ?db) ({}, sample_resources)"
    using durable_broker_step.call[of "sample_fresh ''b''" "CreateSubscription (default_subscription sample_sub sample_topic)"
      "{}" sample_codec ?db "(0, 0)" 0] unfolding sample_durable_calls(2) by simp
  have 3: "durable_broker_step sample_codec ({}, sample_resources) ({''m0''}, sample_waiting)"
    using durable_broker_step.call[of "sample_fresh ''m''" "Publish sample_topic [sample_message]" "{}" sample_codec
      sample_resources "(0, 0)" 0] unfolding sample_durable_calls(3) by (simp add: lessThan_Suc)
  show two: "(durable_broker_step sample_codec)\<^sup>*\<^sup>* ({}, empty_pubsub_db) ({}, sample_resources)"
    using 1 2 by (meson converse_rtranclp_into_rtranclp rtranclp.rtrancl_refl)
  show "(durable_broker_step sample_codec)\<^sup>*\<^sup>* ({}, empty_pubsub_db) ({''m0''}, sample_waiting)"
    using two 3 by (rule rtranclp.rtrancl_into_rtrancl)
qed

subsection \<open>Properties\<close>

text \<open>
  Property C17.  In every state the durable broker can reach, every request but a claim has the reply of the
  in-memory broker on the maps its tables stand for, and leaves tables that stand for the maps the
  in-memory broker is left with; a request that fails may leave the tables as they were instead.
\<close>

theorem durable_broker_refines:
  assumes "pubsub_codec_ok c" "(durable_broker_step c)\<^sup>*\<^sup>* ({}, empty_pubsub_db) (U, db)"
    and "inj_on fresh {..<drawn op}" "fresh ` {..<drawn op} \<inter> U = {}" "\<not> is_claim op"
    and "durable_call c fresh published now op db = (reply, db')"
  shows "\<exists>s. memory_call (encoded_len c) fresh published now op (abs_db c db) = (reply, s) \<and>
    (abs_db c db' = s \<or> db' = db \<and> isl reply)"
  using durable_call_follows[OF assms(1) durable_reachable_ok[OF assms(1,2)] assms(3-5), of published now] assms(6)
  by (cases "memory_call (encoded_len c) fresh published now op (abs_db c db)") (auto simp: follows_def)

theorem durable_broker_refines_witness:
  "\<exists>s. memory_call (encoded_len sample_codec) (sample_fresh ''m'') (0, 0) 0 (Publish sample_topic [sample_message])
      (abs_db sample_codec sample_resources) = (Inr (IdsReply [''m0'']), s) \<and>
    (abs_db sample_codec sample_waiting = s \<or>
     sample_waiting = sample_resources \<and> isl (Inr (IdsReply [''m0'']) :: broker_reply res))"
  by (rule durable_broker_refines[OF sample_codec_ok sample_durable_run(1) _ _ _ sample_durable_calls(3)])
    (simp_all add: lessThan_Suc)

text \<open>
  Property C18.  In every state the durable broker can reach, a claim on a subscription succeeds within its
  limits on messages and bytes (a single message may exceed the bytes), every message it returns is stored and leased under the
  token it is returned with, and it returns some message whenever one of the subscription's is available or
  its lease has run out: neither the candidate limit nor a large message can stall a subscription.
\<close>

theorem durable_claim_delivers:
  assumes "pubsub_codec_ok c" "(durable_broker_step c)\<^sup>*\<^sup>* ({}, empty_pubsub_db) (U, db)"
    and "inj_on fresh {..<n}" "fresh ` {..<n} \<inter> U = {}"
    and "durable_get_subscription c sub db = Inr s" "0 \<le> max_bytes" "max_bytes < i64_max"
  shows "\<exists>out db'. durable_claim c fresh now sub n max_bytes override db = (Inr out, db') \<and>
    length out \<le> n \<and> (sum_list (map size_bytes out) \<le> max_bytes \<or> length out = 1) \<and>
    list_all (held (encoded_len c) sub (abs_db c db')) out \<and>
    (0 < n \<and> deliverable now sub (abs_db c db) \<longrightarrow> out \<noteq> [])"
proof -
  note ok = durable_reachable_ok[OF assms(1,2)]
  have free: "\<not> ack_in_use (abs_db c db) (fresh j)" if "j < n" for j
    using ok(2) assms(4) that by (auto simp: drawn_ok_def)
  show ?thesis
  proof (rule durable_claim_spec[where now = now and override = override, OF ok(1) assms(5,7,3) free])
    fix out db'
    assume out: "durable_claim c fresh now sub n max_bytes override db = (Inr out, db')" "length out \<le> n"
      "claim_fits max_bytes out" "list_all (held (encoded_len c) sub (abs_db c db')) out"
      "0 < n \<and> deliverable now sub (abs_db c db) \<Longrightarrow> out \<noteq> []"
    have "sum_list (map size_bytes out) \<le> max_bytes \<or> length out = 1"
      using out(3) assms(6) by (auto simp: claim_fits_def)
    then show ?thesis using out(1,2,4,5) by blast
  qed
qed

lemma sample_durable_ready:
  "durable_get_subscription sample_codec sample_sub sample_waiting = Inr (default_subscription sample_sub sample_topic)"
  "deliverable 0 sample_sub (abs_db sample_codec sample_waiting)"
  by (simp_all add: durable_get_subscription_def sample_waiting_def sample_resources_def deliverable_def new_row_def expired_def
      delivery_of_def of_option_def)

theorem durable_claim_delivers_witness:
  "\<exists>out db'. durable_claim sample_codec (sample_fresh ''k'') 0 sample_sub 1 100 None sample_waiting = (Inr out, db') \<and>
    length out \<le> 1 \<and> (sum_list (map size_bytes out) \<le> 100 \<or> length out = 1) \<and>
    list_all (held (encoded_len sample_codec) sample_sub (abs_db sample_codec db')) out \<and>
    (0 < (1::nat) \<and> deliverable 0 sample_sub (abs_db sample_codec sample_waiting) \<longrightarrow> out \<noteq> [])"
  by (rule durable_claim_delivers[OF sample_codec_ok sample_durable_run(2) _ _ sample_durable_ready(1)])
    (simp_all add: lessThan_Suc i64_max_def)

end
