(* ===== verification/Console.thy ===== *)
theory Console
  imports Web_Json Firestore_Service
begin

text \<open>
  The console of \<open>src/src/ui.rs\<close> over the in-memory Firestore service: the checks of its paths and
  of typed values, the edits of one field, and the clone of a document with its subcollections, each
  as one commit with preconditions.  A reply is a status with a message, or a JSON body.
\<close>

type_synonym console_reply = "(nat \<times> string) + json"

subsection \<open>Names and paths\<close>

definition segment_char :: "char \<Rightarrow> bool" where
  "segment_char c = (is_alnum c \<or> c \<in> set ''-._:()'')"

definition valid_segment :: "string \<Rightarrow> bool" where
  "valid_segment s = (s \<noteq> [] \<and> length s \<le> 256 \<and> list_all segment_char s)"

definition valid_document_segment :: "string \<Rightarrow> bool" where
  "valid_document_segment s = (s \<noteq> [] \<and> length s \<le> 1500 \<and> s \<noteq> ''.'' \<and> s \<noteq> ''..'' \<and>
     list_all (\<lambda>c. c \<noteq> CHR ''/'' \<and> c \<noteq> CHR 0x00) s)"

definition path_parts :: "string \<Rightarrow> string list option" where
  "path_parts path =
     (let parts = split_on CHR ''/'' path in
      if \<not> starts_with ''/'' path \<and> \<not> ends_with ''/'' path \<and> list_all valid_document_segment parts
      then Some parts else None)"

definition replace_char :: "char \<Rightarrow> string \<Rightarrow> string \<Rightarrow> string" where
  "replace_char c t s = concat (map (\<lambda>x. if x = c then t else [x]) s)"

definition quoted_field_path :: "string \<Rightarrow> string" where
  "quoted_field_path field =
     [CHR 0x60] @ replace_char CHR 0x60 [CHR 0x5C, CHR 0x60] (replace_char CHR 0x5C [CHR 0x5C, CHR 0x5C] field) @ [CHR 0x60]"

subsection \<open>Typed values\<close>

definition f64_finite :: "f64 \<Rightarrow> bool" where
  "f64_finite d = (\<not> is_nan d \<and> \<not> is_infinite d)"

definition time_object_ok :: "(string \<times> json) list \<Rightarrow> bool" where
  "time_object_ok m =
     (length m = 2 \<and>
      (case sm_get m ''seconds'' of None \<Rightarrow> False
       | Some v \<Rightarrow> as_i64 v \<noteq> None \<or> Option.bind (as_str v) parse_i64 \<noteq> None) \<and>
      (case Option.bind (sm_get m ''nanos'') as_i64 of None \<Rightarrow> False | Some n \<Rightarrow> 0 \<le> n \<and> n < 1000000000))"

definition coordinate_ok :: "int \<Rightarrow> json option \<Rightarrow> bool" where
  "coordinate_ok bound v =
     (case Option.bind v as_f64 of None \<Rightarrow> False
      | Some d \<Rightarrow> f64_finite d \<and> f64_le (f64_of_i64 (- bound)) d \<and> f64_le d (f64_of_i64 bound))"

definition scalar_ok :: "string \<Rightarrow> json \<Rightarrow> bool" where
  "scalar_ok kind inner =
     (if kind = ''nullValue'' then inner = JNull
      else if kind = ''booleanValue'' then as_bool inner \<noteq> None
      else if kind = ''integerValue'' then Option.bind (as_str inner) parse_i64 \<noteq> None
      else if kind = ''doubleValue'' then
        (case as_f64 inner of Some d \<Rightarrow> f64_finite d | None \<Rightarrow> False) \<or>
        (case as_str inner of Some s \<Rightarrow> s \<in> {''NaN'', ''Infinity'', ''-Infinity''} | None \<Rightarrow> False)
      else if kind \<in> {''stringValue'', ''referenceValue'', ''bytesValue''} then as_str inner \<noteq> None
      else if kind = ''timestampValue'' then
        as_str inner \<noteq> None \<or> (case as_object inner of Some m \<Rightarrow> time_object_ok m | None \<Rightarrow> False)
      else if kind = ''geoPointValue'' then
        (case as_object inner of None \<Rightarrow> False
         | Some m \<Rightarrow> length m = 2 \<and> coordinate_ok 90 (sm_get m ''latitude'') \<and> coordinate_ok 180 (sm_get m ''longitude''))
      else False)"

text \<open>\<open>inner.as_object().and_then(|o| if o.len() == 1 { o.get(key) } else { None })\<close>.\<close>

definition only_member :: "string \<Rightarrow> json \<Rightarrow> json option" where
  "only_member k v = Option.bind (as_object v) (\<lambda>m. if length m = 1 then sm_get m k else None)"

text \<open>The depth limit bounds the recursion.\<close>

function validate_typed_value :: "json \<Rightarrow> nat \<Rightarrow> string + unit" where
  "validate_typed_value v depth =
     (if depth > 20 then Inl ''nested value is too deep''
      else case as_object v of
        None \<Rightarrow> Inl ''value needs one Firestore type wrapper''
      | Some m \<Rightarrow>
          (case m of
             [(kind, inner)] \<Rightarrow>
               (if kind = ''arrayValue'' then
                  (case Option.bind (only_member ''values'' inner) as_array of
                     None \<Rightarrow> Inl ''array needs a values list''
                   | Some items \<Rightarrow> fold (\<lambda>item r. rbind r (\<lambda>_. validate_typed_value item (Suc depth))) items (Inr ()))
                else if kind = ''mapValue'' then
                  (case Option.bind (only_member ''fields'' inner) as_object of
                     None \<Rightarrow> Inl ''map needs a fields object''
                   | Some fs \<Rightarrow> fold (\<lambda>(name, item) r. rbind r (\<lambda>_.
                       if \<not> valid_document_segment name then Inl ''map has an invalid field name''
                       else validate_typed_value item (Suc depth))) fs (Inr ()))
                else if scalar_ok kind inner then Inr ()
                else Inl ''invalid Firestore value or type'')
           | _ \<Rightarrow> Inl ''value needs exactly one Firestore type wrapper''))"
  by pat_completeness auto
termination by (relation "measure (\<lambda>(v, depth). 21 - depth)") auto

declare validate_typed_value.simps [simp del]

subsection \<open>Reading\<close>

definition default_database :: string where "default_database = ''(default)''"

definition console_database :: "string \<Rightarrow> string \<Rightarrow> string" where
  "console_database proj db = ''projects/'' @ proj @ ''/databases/'' @ db"

definition firestore_documents :: "web_env \<Rightarrow> string \<Rightarrow> string \<Rightarrow> store \<Rightarrow> console_reply" where
  "firestore_documents env proj db st =
     (if \<not> valid_segment proj \<or> \<not> valid_segment db then Inl (400, ''invalid project or database ID'')
      else case database_documents st (console_database proj db) of
        Inl e \<Rightarrow> Inl (502, message e)
      | Inr ds \<Rightarrow> Inr (jobject [(''documents'', JArray (map (document_json env) ds))]))"

definition find_document :: "string \<Rightarrow> document list \<Rightarrow> document option" where
  "find_document name ds = find (\<lambda>d. doc_name d = name) ds"

subsection \<open>Editing one field\<close>

record field_mutation =
  fm_project :: string
  fm_database :: string
  fm_path :: string
  fm_action :: string
  fm_field :: string
  fm_new_field :: "string option"
  fm_value :: "json option"
  fm_expected :: json

text \<open>The fields and the mask of the write, or the refusal.\<close>

definition mutation_edit ::
  "web_env \<Rightarrow> field_mutation \<Rightarrow> document \<Rightarrow> (nat \<times> string) + fields \<times> string list" where
  "mutation_edit env r current =
     (let field = fm_field r; path = quoted_field_path field in
      if fm_action r = ''add'' then
        (if sm_has (doc_fields current) field then Inl (409, ''field already exists'')
         else case fm_value r of
           None \<Rightarrow> Inl (400, ''field value is required'')
         | Some v \<Rightarrow>
             (case validate_typed_value v 0 of
                Inl m \<Rightarrow> Inl (400, m)
              | Inr _ \<Rightarrow> (case value_proto env v of
                  Inl e \<Rightarrow> Inl (400, message e)
                | Inr x \<Rightarrow> Inr ([(field, x)], [path]))))
      else if fm_action r = ''delete'' then
        (if \<not> sm_has (doc_fields current) field then Inl (404, ''field no longer exists'') else Inr ([], [path]))
      else if fm_action r = ''rename'' then
        (case fm_new_field r of
           None \<Rightarrow> Inl (400, ''new field name is required'')
         | Some destination \<Rightarrow>
             (if \<not> valid_document_segment destination \<or> destination = field
              then Inl (400, ''enter a different valid field name'')
              else if sm_has (doc_fields current) destination then Inl (409, ''destination field already exists'')
              else case sm_get (doc_fields current) field of
                None \<Rightarrow> Inl (404, ''field no longer exists'')
              | Some v \<Rightarrow> Inr ([(destination, v)], [path, quoted_field_path destination])))
      else Inl (400, ''invalid field action''))"

definition field_write :: "string \<Rightarrow> fields \<Rightarrow> string list \<Rightarrow> condition_type \<Rightarrow> fwrite" where
  "field_write name fs paths condition =
     \<lparr>operation = Some (Update \<lparr>doc_name = name, doc_fields = fs, create_time = None, update_time = None\<rparr>),
      write_mask = Some paths, update_transforms = [], current_document = Some (Some condition)\<rparr>"

text \<open>The reply to the commit of an edit; \<open>refused\<close> is the answer to a failed precondition.\<close>

definition edit_reply :: "nat \<times> string \<Rightarrow> 'a res \<Rightarrow> console_reply" where
  "edit_reply refused r =
     (case r of
        Inr _ \<Rightarrow> Inr (jobject [(''updated'', JBool True)])
      | Inl e \<Rightarrow> if code e = FailedPrecondition then Inl refused else Inl (400, message e))"

definition mutate_field ::
  "web_env \<Rightarrow> field_mutation \<Rightarrow> timestamp \<Rightarrow> store \<Rightarrow> store \<times> effect list \<times> console_reply" where
  "mutate_field env r now st =
     (let database = console_database (fm_project r) (fm_database r);
          name = database @ ''/documents/'' @ fm_path r in
      if \<not> valid_segment (fm_project r) \<or> \<not> valid_segment (fm_database r) \<or> \<not> valid_document_segment (fm_field r)
      then (st, [], Inl (400, ''invalid project, database, or field name''))
      else case path_parts (fm_path r) of
        None \<Rightarrow> (st, [], Inl (400, ''invalid document path''))
      | Some parts \<Rightarrow>
          (if odd (length parts) then (st, [], Inl (400, ''path must identify a document''))
           else case database_documents st database of
             Inl e \<Rightarrow> (st, [], Inl (502, message e))
           | Inr ds \<Rightarrow>
               (case find_document name ds of
                  None \<Rightarrow> (st, [], Inl (404, ''document no longer exists''))
                | Some current \<Rightarrow>
                    (if jindex (document_json env current) ''updateTime'' \<noteq> fm_expected r
                     then (st, [], Inl (409, ''document changed; refresh and try again''))
                     else case mutation_edit env r current of
                       Inl e \<Rightarrow> (st, [], Inl e)
                     | Inr (fs, paths) \<Rightarrow>
                         let condition = (case update_time current of Some t \<Rightarrow> UpdateTime t | None \<Rightarrow> Exists True) in
                         (case commit st database [] [field_write name fs paths condition] now of
                            (st', fx, res) \<Rightarrow>
                              (st', fx, edit_reply (409, ''document changed; refresh and try again'') res))))))"

record field_update =
  fu_project :: string
  fu_database :: string
  fu_path :: string
  fu_field :: string
  fu_value :: json

definition update_field ::
  "web_env \<Rightarrow> field_update \<Rightarrow> timestamp \<Rightarrow> store \<Rightarrow> store \<times> effect list \<times> console_reply" where
  "update_field env r now st =
     (let database = console_database (fu_project r) (fu_database r) in
      if \<not> valid_segment (fu_project r) \<or> \<not> valid_segment (fu_database r) \<or> \<not> valid_document_segment (fu_field r)
      then (st, [], Inl (400, ''invalid project, database, or field name''))
      else case path_parts (fu_path r) of
        None \<Rightarrow> (st, [], Inl (400, ''invalid document path''))
      | Some parts \<Rightarrow>
          (if odd (length parts) then (st, [], Inl (400, ''path must identify a document''))
           else case value_proto env (fu_value r) of
             Inl e \<Rightarrow> (st, [], Inl (400, message e))
           | Inr v \<Rightarrow>
               (case commit st database []
                   [field_write (database @ ''/documents/'' @ fu_path r) [(fu_field r, v)]
                      [quoted_field_path (fu_field r)] (Exists True)] now of
                  (st', fx, res) \<Rightarrow> (st', fx, edit_reply (404, ''document no longer exists'') res))))"

subsection \<open>Cloning\<close>

record clone_request =
  cl_project :: string
  cl_database :: string
  cl_source :: string
  cl_collection :: string
  cl_id :: string
  cl_subcollections :: bool

definition clone_write :: "string \<Rightarrow> string \<Rightarrow> document \<Rightarrow> fwrite" where
  "clone_write source destination d =
     \<lparr>operation = Some (Update (d\<lparr>doc_name := destination @ (case strip_prefix source (doc_name d) of None \<Rightarrow> [] | Some r \<Rightarrow> r),
        create_time := None, update_time := None\<rparr>)),
      write_mask = None, update_transforms = [], current_document = Some (Some (Exists False))\<rparr>"

definition clone_sources :: "string \<Rightarrow> bool \<Rightarrow> document list \<Rightarrow> document list" where
  "clone_sources source subcollections ds =
     sort_key doc_name (filter (\<lambda>d. doc_name d = source \<or> subcollections \<and> starts_with (source @ ''/'') (doc_name d)) ds)"

definition clone_document ::
  "clone_request \<Rightarrow> timestamp \<Rightarrow> store \<Rightarrow> store \<times> effect list \<times> console_reply" where
  "clone_document r now st =
     (let database = console_database (cl_project r) (cl_database r);
          source = database @ ''/documents/'' @ cl_source r;
          destination = database @ ''/documents/'' @ cl_collection r @ ''/'' @ cl_id r in
      if \<not> valid_segment (cl_project r) \<or> \<not> valid_segment (cl_database r) \<or> \<not> valid_document_segment (cl_id r)
      then (st, [], Inl (400, ''invalid project, database, or destination document ID''))
      else case path_parts (cl_source r) of
        None \<Rightarrow> (st, [], Inl (400, ''invalid source document path''))
      | Some source_parts \<Rightarrow>
      (case path_parts (cl_collection r) of
        None \<Rightarrow> (st, [], Inl (400, ''invalid destination collection path''))
      | Some collection_parts \<Rightarrow>
          (if odd (length source_parts) \<or> even (length collection_parts)
           then (st, [], Inl (400, ''source must be a document path and destination must be a collection path''))
           else case database_documents st database of
             Inl e \<Rightarrow> (st, [], Inl (502, message e))
           | Inr ds \<Rightarrow>
               let sources = clone_sources source (cl_subcollections r) ds in
               (if \<not> list_ex (\<lambda>d. doc_name d = source) sources
                then (st, [], Inl (404, ''source document not found''))
                else case commit st database [] (map (clone_write source destination) sources) now of
                  (st', fx, Inr _) \<Rightarrow>
                    (st', fx, Inr (jobject [(''destinationPath'', JString (cl_collection r @ ''/'' @ cl_id r)),
                       (''documentsCloned'', JInt (int (length sources))),
                       (''subcollectionsIncluded'', JBool (cl_subcollections r))]))
                | (st', fx, Inl e) \<Rightarrow>
                    (st', fx, Inl (if code e = FailedPrecondition \<or> code e = AlreadyExists
                       then (409, ''destination exists; cloning never overwrites documents'')
                       else (400, message e)))))))"

end
