(* ===== verification/Console_Edits.thy ===== *)
theory Console_Edits
  imports Console
begin

text \<open>
  What the console's edits do to the store: a quoted field name is one segment of a field path, an
  edit changes one field of one document, and a clone adds copies and changes nothing else.
\<close>

subsection \<open>Quoted names\<close>

definition escape_char :: "char \<Rightarrow> string" where
  "escape_char c = (if c = CHR 0x5C \<or> c = CHR 0x60 then [CHR 0x5C, c] else [c])"

lemma quoted_field_path_escape: "quoted_field_path f = [CHR 0x60] @ concat (map escape_char f) @ [CHR 0x60]"
proof -
  have "replace_char CHR 0x60 [CHR 0x5C, CHR 0x60] (replace_char CHR 0x5C [CHR 0x5C, CHR 0x5C] f) = concat (map escape_char f)"
    by (induction f) (auto simp: replace_char_def escape_char_def)
  then show ?thesis by (simp add: quoted_field_path_def)
qed

lemma field_path_loop_escape:
  "field_path_loop (concat (map escape_char f) @ cs) parts part True False = field_path_loop cs parts (part @ f) True False"
  by (induction f arbitrary: part) (auto simp: escape_char_def)

lemma field_path_quoted: "f \<noteq> [] \<Longrightarrow> field_path (quoted_field_path f) = Inr [f]"
  by (simp add: field_path_def quoted_field_path_escape field_path_loop_escape)

subsection \<open>Names of the console\<close>

lemma segment_no_slash: "valid_segment s \<Longrightarrow> CHR ''/'' \<notin> set s"
  by (auto simp: valid_segment_def list_all_iff segment_char_def is_alnum_def is_alpha_def is_lower_def is_upper_def is_digit_def)

lemma split_console:
  assumes "valid_segment p" "valid_segment d"
  shows "split_path (console_database p d) = [''projects'', p, ''databases'', d]"
proof -
  have "console_database p d = join_with ''/'' [''projects'', p, ''databases'', d]"
    by (simp add: console_database_def)
  moreover have "split_on CHR ''/'' (join_with ''/'' [''projects'', p, ''databases'', d]) = [''projects'', p, ''databases'', d]"
    by (rule split_on_join) (use segment_no_slash assms in auto)
  ultimately show ?thesis by (simp add: split_path_def)
qed

lemma console_prefix:
  assumes "valid_segment p" "valid_segment d"
  shows "database_document_prefix (console_database p d) = Inr (console_database p d @ ''/documents/'')"
  using assms by (auto simp: database_document_prefix_def Let_def split_console valid_segment_def)

lemma split_under:
  "split_path (a @ ''/documents/'' @ b) = split_path a @ ''documents'' # split_path b"
  "split_path (a @ ''/'' @ b) = split_path a @ split_path b"
proof -
  have "split_path (a @ CHR ''/'' # ''documents'' @ CHR ''/'' # b) = split_path a @ ''documents'' # split_path b"
    unfolding split_path_def split_on_append by simp
  then show "split_path (a @ ''/documents/'' @ b) = split_path a @ ''documents'' # split_path b" by simp
  have "split_path (a @ CHR ''/'' # b) = split_path a @ split_path b" unfolding split_path_def split_on_append ..
  then show "split_path (a @ ''/'' @ b) = split_path a @ split_path b" by simp
qed

lemma valid_nameI:
  assumes "split_path n = [''projects'', p, ''databases'', d, ''documents''] @ rest" "p \<noteq> []" "d \<noteq> []"
    and "2 \<le> length rest" "even (length rest)"
  shows "validate_document_name n = Inr ()"
  using assms(2-5) unfolding validate_document_name_def assms(1) Let_def by (simp add: even_iff_mod_2_eq_zero)

lemma segment_nonempty: "valid_segment s \<Longrightarrow> s \<noteq> []" "valid_document_segment s \<Longrightarrow> s \<noteq> []"
  by (auto simp: valid_segment_def valid_document_segment_def)

text \<open>What the scan of the database finds under a name.\<close>

lemma find_named:
  "sm_wf m \<Longrightarrow> list_all (\<lambda>(n, d). doc_name d = n) m \<Longrightarrow> find (\<lambda>d. doc_name d = name) (map snd m) = sm_get m name"
  by (induction m) auto

definition in_database :: "string \<Rightarrow> documents \<Rightarrow> documents" where
  "in_database db ds = sm_retain (\<lambda>n _. database_from_resource n = Inr db) ds"

lemma scan_in_database:
  assumes "store_ok st" "database_document_prefix db = Inr p" "database_documents st db = Inr ds"
  shows "ds = map snd (in_database db (documents st))"
  using database_documents_filter[OF assms(1,2)] assms(3) by (simp add: in_database_def sm_retain_def)

lemma get_in_database:
  assumes "store_ok st" "database_document_prefix db = Inr (db @ ''/documents/'')"
  shows "sm_get (in_database db (documents st)) (db @ ''/documents/'' @ path) = sm_get (documents st) (db @ ''/documents/'' @ path)"
proof -
  let ?n = "db @ ''/documents/'' @ path"
  have ok: "documents_ok (documents st)" using assms(1) by (simp add: store_ok_def)
  have "database_from_resource ?n = Inr db" if "sm_get (documents st) ?n = Some d" for d
  proof -
    have v: "validate_document_name ?n = Inr ()" using documents_ok_get[OF ok that] by (simp add: document_ok_def)
    then obtain db' where db': "database_from_resource ?n = Inr db'" using database_of_valid by blast
    have "starts_with (db @ ''/documents/'') ?n" by (simp add: starts_with_iff)
    then show ?thesis using starts_with_database[OF v db' assms(2)] db' by simp
  qed
  then show ?thesis using documents_ok_wf[OF ok]
    by (cases "sm_get (documents st) ?n") (auto simp: in_database_def)
qed

lemma find_in_database:
  assumes "store_ok st" "database_document_prefix db = Inr (db @ ''/documents/'')" "database_documents st db = Inr ds"
  shows "find_document (db @ ''/documents/'' @ path) ds = sm_get (documents st) (db @ ''/documents/'' @ path)"
proof -
  have ok: "documents_ok (documents st)" using assms(1) by (simp add: store_ok_def)
  have "list_all (\<lambda>(n, d). doc_name d = n) (in_database db (documents st))" "sm_wf (in_database db (documents st))"
    using ok by (auto simp: documents_ok_def list_all_iff in_database_def document_ok_def)
  then show ?thesis
    unfolding find_document_def scan_in_database[OF assms] get_in_database[OF assms(1,2), symmetric]
    by (intro find_named)
qed

subsection \<open>An edit\<close>

text \<open>The fields after an edit.\<close>

definition edited_fields :: "web_env \<Rightarrow> field_mutation \<Rightarrow> fields \<Rightarrow> fields \<Rightarrow> bool" where
  "edited_fields env r fs fs' =
     ((fm_action r = ''add'' \<and> \<not> sm_has fs (fm_field r) \<and>
        (\<exists>v x. fm_value r = Some v \<and> value_proto env v = Inr x \<and> fs' = sm_put (fm_field r) x fs)) \<or>
      (fm_action r = ''delete'' \<and> sm_has fs (fm_field r) \<and> fs' = sm_del (fm_field r) fs) \<or>
      (fm_action r = ''rename'' \<and>
        (\<exists>new x. fm_new_field r = Some new \<and> \<not> sm_has fs new \<and> sm_get fs (fm_field r) = Some x \<and>
           fs' = sm_put new x (sm_del (fm_field r) fs))))"

definition masked_fields :: "fields \<Rightarrow> fields \<Rightarrow> string list list \<Rightarrow> fields" where
  "masked_fields incoming fs paths = fold (\<lambda>p m. nested_set m p (nested_get incoming p)) paths fs"

lemma mutation_edit_Inr:
  assumes "mutation_edit env r d = Inr (inc, paths)" "fm_field r \<noteq> []"
  obtains segments where "rcollect field_path paths = Inr segments" "\<not> overlapping segments"
    "edited_fields env r (doc_fields d) (masked_fields inc (doc_fields d) segments)"
proof -
  let ?f = "fm_field r"
  consider (add) v x where "fm_action r = ''add''" "\<not> sm_has (doc_fields d) ?f" "fm_value r = Some v"
      "value_proto env v = Inr x" "inc = [(?f, x)]" "paths = [quoted_field_path ?f]"
    | (delete) "fm_action r = ''delete''" "sm_has (doc_fields d) ?f" "inc = []" "paths = [quoted_field_path ?f]"
    | (rename) new x where "fm_action r = ''rename''" "fm_new_field r = Some new" "valid_document_segment new" "new \<noteq> ?f"
      "\<not> sm_has (doc_fields d) new" "sm_get (doc_fields d) ?f = Some x" "inc = [(new, x)]"
      "paths = [quoted_field_path ?f, quoted_field_path new]"
    using assms(1) by (auto simp: mutation_edit_def Let_def split: if_splits option.splits sum.splits)
  then show thesis
  proof cases
    case add
    show thesis
      by (rule that[of "[[?f]]"])
        (use add in \<open>simp_all add: field_path_quoted[OF assms(2)] edited_fields_def masked_fields_def\<close>)
  next
    case delete
    show thesis
      by (rule that[of "[[?f]]"])
        (use delete in \<open>simp_all add: field_path_quoted[OF assms(2)] edited_fields_def masked_fields_def\<close>)
  next
    case rename
    have new: "new \<noteq> []" using rename(3) by (rule segment_nonempty)
    show thesis
      by (rule that[of "[[?f], [new]]"])
        (use rename in \<open>simp_all add: field_path_quoted[OF assms(2)] field_path_quoted[OF new] edited_fields_def
          masked_fields_def path_starts_with_def\<close>)
  qed
qed

lemma commit_single:
  assumes "commit st db [] [w] now = (st', fx, res)"
  shows "(case apply_write (documents st) w now of
      Inl e \<Rightarrow> st' = st \<and> res = Inl e
    | Inr (ds, _) \<Rightarrow> st' = st\<lparr>documents := ds\<rparr> \<and> (\<exists>x. res = Inr x))"
  using assms by (cases "apply_write (documents st) w now") (auto simp: commit_def remove_transaction_def split: prod.splits)

lemma field_write_applied:
  assumes "sm_get ds name = Some d" "document_ok name d" "check_precondition (Some d) (Some (Some condition)) = Inr ()"
    and "rcollect field_path paths = Inr segments" "\<not> overlapping segments"
  shows "\<exists>r. apply_write ds (field_write name inc paths condition) now =
    Inr (sm_put name (d\<lparr>doc_fields := masked_fields inc (doc_fields d) segments, update_time := Some now\<rparr>) ds, r)"
proof -
  obtain t where "create_time d = Some t" using assms(2) by (auto simp: document_ok_def)
  then show ?thesis using assms
    by (cases d) (simp add: apply_write_def field_write_def document_ok_def merge_document_def masked_fields_def Let_def)
qed

lemma mutate_field_cases:
  assumes ok: "store_ok st" and run: "mutate_field env r now st = (st', fx, reply)"
  defines "name \<equiv> console_database (fm_project r) (fm_database r) @ ''/documents/'' @ fm_path r"
  shows "(case reply of Inl _ \<Rightarrow> st' = st
    | Inr _ \<Rightarrow> \<exists>d fs. sm_get (documents st) name = Some d \<and> time_json env (update_time d) = fm_expected r \<and>
        edited_fields env r (doc_fields d) fs \<and>
        st' = st\<lparr>documents := sm_put name (d\<lparr>doc_fields := fs, update_time := Some now\<rparr>) (documents st)\<rparr>)"
proof (cases "valid_segment (fm_project r) \<and> valid_segment (fm_database r) \<and> valid_document_segment (fm_field r)")
  case False
  then show ?thesis using run by (auto simp: mutate_field_def Let_def)
next
  case True
  let ?db = "console_database (fm_project r) (fm_database r)"
  have db: "database_document_prefix ?db = Inr (?db @ ''/documents/'')" using True by (simp add: console_prefix)
  obtain ds where ds: "database_documents st ?db = Inr ds" using database_documents_filter[OF ok db] by blast
  note found = find_in_database[OF ok db ds, of "fm_path r", folded name_def]
  have docs: "documents_ok (documents st)" using ok by (simp add: store_ok_def)
  show ?thesis
  proof (cases "\<exists>parts d inc paths. path_parts (fm_path r) = Some parts \<and> even (length parts) \<and>
      sm_get (documents st) name = Some d \<and> jindex (document_json env d) ''updateTime'' = fm_expected r \<and>
      mutation_edit env r d = Inr (inc, paths)")
    case False
    then show ?thesis using run True ds found
      by (auto simp: mutate_field_def Let_def name_def split: option.splits if_splits sum.splits)
  next
    case True
    then obtain parts d inc paths where p: "path_parts (fm_path r) = Some parts" "even (length parts)"
      "sm_get (documents st) name = Some d" "jindex (document_json env d) ''updateTime'' = fm_expected r"
      "mutation_edit env r d = Inr (inc, paths)" by blast
    have dok: "document_ok name d" using documents_ok_get[OF docs p(3)] .
    then obtain t where t: "update_time d = Some t" by (auto simp: document_ok_def)
    obtain segments where seg: "rcollect field_path paths = Inr segments" "\<not> overlapping segments"
      "edited_fields env r (doc_fields d) (masked_fields inc (doc_fields d) segments)"
      by (rule mutation_edit_Inr[OF p(5)])
        (use \<open>valid_segment _ \<and> _\<close> segment_nonempty in blast)
    let ?d = "d\<lparr>doc_fields := masked_fields inc (doc_fields d) segments, update_time := Some now\<rparr>"
    have pre: "check_precondition (Some d) (Some (Some (UpdateTime t))) = Inr ()" using t by (simp add: check_precondition_def)
    obtain wr where w: "apply_write (documents st) (field_write name inc paths (UpdateTime t)) now = Inr (sm_put name ?d (documents st), wr)"
      using field_write_applied[OF p(3) dok pre seg(1,2)] by blast
    obtain st1 fx1 res where c: "commit st ?db [] [field_write name inc paths (UpdateTime t)] now = (st1, fx1, res)"
      by (metis prod.collapse)
    have res: "st1 = st\<lparr>documents := sm_put name ?d (documents st)\<rparr>" "\<exists>x. res = Inr x"
      using commit_single[OF c] w by auto
    have "mutate_field env r now st = (st1, fx1, edit_reply (409, ''document changed; refresh and try again'') res)"
      using \<open>valid_segment _ \<and> _\<close> p ds found t c by (simp add: mutate_field_def Let_def name_def)
    then have "st' = st1" "reply = edit_reply (409, ''document changed; refresh and try again'') res" using run by simp_all
    moreover have "time_json env (update_time d) = fm_expected r"
      using p(4) by (simp add: document_json_def jindex_def jget_jobject)
    ultimately show ?thesis using res p(3) seg(3) by (auto simp: edit_reply_def)
  qed
qed

subsection \<open>A clone\<close>

definition cloned :: "string \<Rightarrow> timestamp \<Rightarrow> document \<Rightarrow> document" where
  "cloned name now d = d\<lparr>doc_name := name, create_time := Some now, update_time := Some now\<rparr>"

lemma clone_write_applied:
  assumes "validate_document_name (destination @ rest) = Inr ()" "doc_name d = source @ rest"
  shows "apply_write ds (clone_write source destination d) now =
    (if sm_has ds (destination @ rest) then Inl (failed_precondition ''document existence precondition failed'')
     else Inr (sm_put (destination @ rest) (cloned (destination @ rest) now d) ds,
               \<lparr>wr_update_time = Some now, transform_results = []\<rparr>))"
  using assms by (cases d) (auto simp: apply_write_def clone_write_def check_precondition_def merge_document_def
      sm_has_def cloned_def Let_def guard_def)

text \<open>The writes of a clone, one after the other: they succeed together exactly when nothing stands at a destination.\<close>

lemma clone_run:
  assumes "sm_wf ds" "distinct (map doc_name xs)"
    and "\<And>d. d \<in> set xs \<Longrightarrow> \<exists>rest. doc_name d = source @ rest \<and> validate_document_name (destination @ rest) = Inr ()"
  shows "(case run_all (\<lambda>ds w. apply_write ds w now) ds (map (clone_write source destination) xs) of
      Inl e \<Rightarrow> code e = FailedPrecondition \<and> (\<exists>rest d. d \<in> set xs \<and> doc_name d = source @ rest \<and> sm_has ds (destination @ rest))
    | Inr (ds', _) \<Rightarrow>
        (\<forall>rest d. d \<in> set xs \<and> doc_name d = source @ rest \<longrightarrow>
           \<not> sm_has ds (destination @ rest) \<and> sm_get ds' (destination @ rest) = Some (cloned (destination @ rest) now d)) \<and>
        (\<forall>n. (\<forall>rest d. d \<in> set xs \<and> doc_name d = source @ rest \<longrightarrow> n \<noteq> destination @ rest) \<longrightarrow> sm_get ds' n = sm_get ds n))"
  using assms
proof (induction xs arbitrary: ds)
  case Nil
  then show ?case by simp
next
  case (Cons x xs)
  obtain sx where sx: "doc_name x = source @ sx" "validate_document_name (destination @ sx) = Inr ()"
    using Cons.prems(3)[of x] by auto
  note app = clone_write_applied[OF sx(2,1), of _ now]
  have other: "sy \<noteq> sx" if "y \<in> set xs" "doc_name y = source @ sy" for y sy
    using Cons.prems(2) that sx(1) by (auto simp: image_iff)
  show ?case
  proof (cases "sm_has ds (destination @ sx)")
    case True
    then have "run_all (\<lambda>ds w. apply_write ds w now) ds (map (clone_write source destination) (x # xs)) =
        Inl (failed_precondition ''document existence precondition failed'')"
      by (simp add: app)
    then show ?thesis using True sx(1) by (simp only: sum.case) (auto intro!: exI[of _ sx] exI[of _ x])
  next
    case False
    let ?ds = "sm_put (destination @ sx) (cloned (destination @ sx) now x) ds"
    let ?rest = "run_all (\<lambda>ds w. apply_write ds w now) ?ds (map (clone_write source destination) xs)"
    have wf: "sm_wf ?ds" using Cons.prems(1) by simp
    have here: "sm_has ?ds (destination @ s) \<longleftrightarrow> s = sx \<or> sm_has ds (destination @ s)" for s using Cons.prems(1) by auto
    have get: "sm_get ?ds n = (if n = destination @ sx then Some (cloned (destination @ sx) now x) else sm_get ds n)" for n
      using Cons.prems(1) by simp
    note ih = Cons.IH[OF wf _ Cons.prems(3)]
    have run: "run_all (\<lambda>ds w. apply_write ds w now) ds (map (clone_write source destination) (x # xs)) =
        rbind ?rest (\<lambda>(m, rs). Inr (m, \<lparr>wr_update_time = Some now, transform_results = []\<rparr> # rs))"
      using False by (simp add: app)
    show ?thesis
    proof (cases ?rest)
      case (Inl e)
      then have "code e = FailedPrecondition \<and> (\<exists>rest d. d \<in> set xs \<and> doc_name d = source @ rest \<and> sm_has ?ds (destination @ rest))"
        using ih Cons.prems(2) by simp
      then show ?thesis using other unfolding run Inl here by auto
    next
      case (Inr y)
      obtain ds' rs where y: "y = (ds', rs)" by (cases y)
      have r: "\<And>rest d. d \<in> set xs \<Longrightarrow> doc_name d = source @ rest \<Longrightarrow>
           \<not> sm_has ?ds (destination @ rest) \<and> sm_get ds' (destination @ rest) = Some (cloned (destination @ rest) now d)"
        "\<And>n. (\<forall>rest d. d \<in> set xs \<and> doc_name d = source @ rest \<longrightarrow> n \<noteq> destination @ rest) \<Longrightarrow> sm_get ds' n = sm_get ?ds n"
        using ih Cons.prems(2) Inr y by auto
      have first: "sm_get ds' (destination @ sx) = Some (cloned (destination @ sx) now x)"
        using r(2)[of "destination @ sx"] other get by auto
      have "\<not> sm_has ds (destination @ s) \<and> sm_get ds' (destination @ s) = Some (cloned (destination @ s) now d)"
        if "d \<in> set (x # xs)" "doc_name d = source @ s" for d s
      proof (cases "d = x")
        case True
        then show ?thesis using that(2) sx(1) False first by simp
      next
        case neq: False
        then show ?thesis using that r(1)[of d s] here by auto
      qed
      moreover have "sm_get ds' n = sm_get ds n"
        if "\<forall>rest d. d \<in> set (x # xs) \<and> doc_name d = source @ rest \<longrightarrow> n \<noteq> destination @ rest" for n
      proof -
        have "sm_get ds' n = sm_get ?ds n" by (rule r(2)) (use that in auto)
        moreover have "n \<noteq> destination @ sx" using that sx(1) by auto
        ultimately show ?thesis using get by simp
      qed
      ultimately show ?thesis unfolding run Inr y rbind_simps prod.case sum.case by blast
    qed
  qed
qed

text \<open>A name below the source, seen from the source.\<close>

definition below :: "bool \<Rightarrow> string \<Rightarrow> bool" where
  "below subcollections rest = (rest = [] \<or> subcollections \<and> starts_with ''/'' rest)"

lemma clone_sources_iff:
  "d \<in> set (clone_sources source subs ds) \<longleftrightarrow> d \<in> set ds \<and> (\<exists>rest. doc_name d = source @ rest \<and> below subs rest)"
  by (auto simp: clone_sources_def below_def starts_with_iff)

lemma path_parts_split: "path_parts p = Some parts \<Longrightarrow> split_path p = parts"
  by (auto simp: path_parts_def split_path_def Let_def split: if_splits)

lemma document_segment_split: "valid_document_segment s \<Longrightarrow> split_path s = [s]"
  unfolding split_path_def by (rule split_on_no_sep) (auto simp: valid_document_segment_def list_all_iff)

text \<open>A copy stands under a valid name.\<close>

lemma destination_valid:
  assumes segs: "valid_segment p" "valid_segment db" "valid_document_segment i"
    and parts: "path_parts src = Some sp" "even (length sp)" "path_parts coll = Some cp" "odd (length cp)"
    and rest: "below subs rest" and name: "validate_document_name (console_database p db @ ''/documents/'' @ src @ rest) = Inr ()"
  shows "validate_document_name (console_database p db @ ''/documents/'' @ coll @ ''/'' @ i @ rest) = Inr ()"
proof -
  let ?head = "[''projects'', p, ''databases'', db, ''documents'']"
  have "\<exists>tail. split_path (i @ rest) = i # tail \<and> even (length tail)"
  proof (cases "rest = []")
    case True
    then show ?thesis using document_segment_split[OF segs(3)] by simp
  next
    case False
    then obtain r where r: "rest = ''/'' @ r" using rest by (auto simp: below_def starts_with_iff)
    have "split_path (console_database p db @ ''/documents/'' @ src @ rest) = ?head @ sp @ split_path r"
      unfolding r split_under using path_parts_split[OF parts(1)] split_console[OF segs(1,2)] by simp
    then obtain rest' where "split_path (console_database p db @ ''/documents/'' @ src @ rest) = ?head @ rest'" "even (length rest')"
      "rest' = sp @ split_path r" using validate_document_name_Inr[OF name] by auto
    then have "even (length (split_path r))" using parts(2) by simp
    then show ?thesis unfolding r split_under document_segment_split[OF segs(3)] by simp
  qed
  then obtain tail where tail: "split_path (i @ rest) = i # tail" "even (length tail)" by blast
  have "split_path (console_database p db @ ''/documents/'' @ coll @ ''/'' @ i @ rest) = ?head @ (cp @ i # tail)"
    unfolding split_under tail(1) using path_parts_split[OF parts(3)] split_console[OF segs(1,2)] by simp
  then show ?thesis
  proof (rule valid_nameI)
    have "cp \<noteq> []" using parts(4) by auto
    then show "2 \<le> length (cp @ i # tail)" by (cases cp) auto
    show "even (length (cp @ i # tail))" using parts(4) tail(2) by simp
  qed (use segs segment_nonempty in blast)+
qed

lemma sm_get_has_iff: "sm_has m k \<longleftrightarrow> (\<exists>v. sm_get m k = Some v)"
  by (auto simp: sm_has_def)

lemma clone_document_cases:
  assumes ok: "store_ok st" and run: "clone_document r now st = (st', fx, reply)"
  defines "root \<equiv> console_database (cl_project r) (cl_database r) @ ''/documents/''"
  defines "source \<equiv> root @ cl_source r" and "destination \<equiv> root @ cl_collection r @ ''/'' @ cl_id r"
  shows "(case reply of
      Inl e \<Rightarrow> st' = st \<and> (fst e = 409 \<longrightarrow>
        (\<exists>rest. below (cl_subcollections r) rest \<and> sm_has (documents st) (source @ rest) \<and> sm_has (documents st) (destination @ rest)))
    | Inr _ \<Rightarrow> sm_has (documents st) source \<and> transactions st' = transactions st \<and> next_id st' = next_id st \<and>
        (\<forall>rest d. below (cl_subcollections r) rest \<and> sm_get (documents st) (source @ rest) = Some d \<longrightarrow>
           \<not> sm_has (documents st) (destination @ rest) \<and>
           sm_get (documents st') (destination @ rest) = Some (cloned (destination @ rest) now d)) \<and>
        (\<forall>n. (\<forall>rest. below (cl_subcollections r) rest \<and> sm_has (documents st) (source @ rest) \<longrightarrow> n \<noteq> destination @ rest) \<longrightarrow>
           sm_get (documents st') n = sm_get (documents st) n))"
proof (cases "valid_segment (cl_project r) \<and> valid_segment (cl_database r) \<and> valid_document_segment (cl_id r)")
  case False
  then show ?thesis using run by (auto simp: clone_document_def Let_def)
next
  case True
  let ?db = "console_database (cl_project r) (cl_database r)"
  have db: "database_document_prefix ?db = Inr (?db @ ''/documents/'')" using True by (simp add: console_prefix)
  obtain ds where ds: "database_documents st ?db = Inr ds" using database_documents_filter[OF ok db] by blast
  let ?xs = "clone_sources source (cl_subcollections r) ds"
  have docs: "documents_ok (documents st)" using ok by (simp add: store_ok_def)
  have wf: "sm_wf (documents st)" using docs by (rule documents_ok_wf)
  have scanned: "d \<in> set ds \<and> doc_name d = source @ rest \<longleftrightarrow> sm_get (documents st) (source @ rest) = Some d" for d rest
  proof
    assume d: "d \<in> set ds \<and> doc_name d = source @ rest"
    then obtain n where n: "(n, d) \<in> set (in_database ?db (documents st))"
      unfolding scan_in_database[OF ok db ds] by auto
    then have "(n, d) \<in> set (documents st)" by (simp add: in_database_def)
    then have get: "sm_get (documents st) n = Some d" using wf by (simp add: in_sm_iff)
    then have "doc_name d = n" using documents_ok_get[OF docs get] by (simp add: document_ok_def)
    then show "sm_get (documents st) (source @ rest) = Some d" using d get by simp
  next
    assume get: "sm_get (documents st) (source @ rest) = Some d"
    then have "sm_get (in_database ?db (documents st)) (source @ rest) = Some d"
      using get_in_database[OF ok db, of "cl_source r @ rest"] by (simp add: source_def root_def)
    then have "d \<in> set ds" unfolding scan_in_database[OF ok db ds] by (force dest: sm_get_in)
    then show "d \<in> set ds \<and> doc_name d = source @ rest" using documents_ok_get[OF docs get] by (simp add: document_ok_def)
  qed
  have member: "d \<in> set ?xs \<and> doc_name d = source @ rest \<longleftrightarrow>
      below (cl_subcollections r) rest \<and> sm_get (documents st) (source @ rest) = Some d" for d rest
    using scanned[of d rest] by (auto simp: clone_sources_iff)
  show ?thesis
  proof (cases "\<exists>sp cp. path_parts (cl_source r) = Some sp \<and> path_parts (cl_collection r) = Some cp \<and>
      even (length sp) \<and> odd (length cp) \<and> list_ex (\<lambda>d. doc_name d = source) ?xs")
    case False
    then show ?thesis using run True ds
      by (auto simp: clone_document_def Let_def source_def root_def split: option.splits if_splits)
  next
    case True
    then obtain sp cp where p: "path_parts (cl_source r) = Some sp" "path_parts (cl_collection r) = Some cp"
      "even (length sp)" "odd (length cp)" "list_ex (\<lambda>d. doc_name d = source) ?xs" by blast
    note segs = \<open>valid_segment _ \<and> _\<close>
    have there: "sm_has (documents st) source"
      using p(5) member[of _ "[]"] by (auto simp: list_ex_iff sm_has_def)
    have "distinct (map doc_name (map snd (in_database ?db (documents st))))"
    proof -
      have "map doc_name (map snd (in_database ?db (documents st))) = map fst (in_database ?db (documents st))"
        using docs by (auto simp: in_database_def documents_ok_def list_all_iff document_ok_def)
      moreover have "sm_wf (in_database ?db (documents st))" using wf by (simp add: in_database_def)
      ultimately show ?thesis using sm_wf_distinct by metis
    qed
    then have distinct: "distinct (map doc_name ?xs)"
      unfolding scan_in_database[OF ok db ds, symmetric] clone_sources_def by (simp add: distinct_map inj_on_def)
    have valid: "\<exists>rest. doc_name d = source @ rest \<and> validate_document_name (destination @ rest) = Inr ()" if "d \<in> set ?xs" for d
    proof -
      from that obtain rest where rest: "doc_name d = source @ rest" "below (cl_subcollections r) rest"
        unfolding clone_sources_iff by blast
      have "sm_get (documents st) (source @ rest) = Some d" using member[of d rest] that rest by simp
      then have "validate_document_name (source @ rest) = Inr ()" using documents_ok_get[OF docs] by (auto simp: document_ok_def)
      then show ?thesis
        using destination_valid[of _ _ _ "cl_source r" sp "cl_collection r" cp] segs p rest
        by (auto simp: source_def destination_def root_def)
    qed
    let ?run = "run_all (\<lambda>ds w. apply_write ds w now) (documents st) (map (clone_write source destination) ?xs)"
    note effect = clone_run[OF wf distinct valid, of now]
    obtain st1 fx1 res where c: "commit st ?db [] (map (clone_write source destination) ?xs) now = (st1, fx1, res)"
      by (metis prod.collapse)
    have reply: "st' = st1 \<and> (case res of Inl e \<Rightarrow> reply = Inl (if code e = FailedPrecondition \<or> code e = AlreadyExists
         then (409, ''destination exists; cloning never overwrites documents'') else (400, message e)) | Inr _ \<Rightarrow> \<exists>j. reply = Inr j)"
      using run segs p ds c by (auto simp: clone_document_def Let_def source_def destination_def root_def split: sum.splits)
    show ?thesis
    proof (cases ?run)
      case (Inl e)
      then have "st1 = st" "res = Inl e" using c by (auto simp: commit_def)
      moreover have "\<exists>rest. below (cl_subcollections r) rest \<and> sm_has (documents st) (source @ rest) \<and> sm_has (documents st) (destination @ rest)"
        using effect member unfolding Inl sum.case by (metis (no_types, lifting) sm_get_has_iff)
      ultimately show ?thesis using reply by auto
    next
      case (Inr y)
      obtain m rs where y: "y = (m, rs)" by (cases y)
      have st1: "st1 = st\<lparr>documents := m\<rparr>" "res = Inr (rs, now)" using c Inr y by (auto simp: commit_def remove_transaction_def)
      then obtain j where "reply = Inr j" "st' = st\<lparr>documents := m\<rparr>" using reply by auto
      moreover have "\<forall>rest d. below (cl_subcollections r) rest \<and> sm_get (documents st) (source @ rest) = Some d \<longrightarrow>
           \<not> sm_has (documents st) (destination @ rest) \<and> sm_get m (destination @ rest) = Some (cloned (destination @ rest) now d)"
        using effect unfolding Inr y sum.case prod.case member by blast
      moreover have "\<forall>n. (\<forall>rest. below (cl_subcollections r) rest \<and> sm_has (documents st) (source @ rest) \<longrightarrow> n \<noteq> destination @ rest) \<longrightarrow>
           sm_get m n = sm_get (documents st) n"
        using effect unfolding Inr y sum.case prod.case member sm_has_def by blast
      ultimately show ?thesis using there by simp
    qed
  qed
qed

subsection \<open>Properties\<close>


definition sample_time_env :: web_env where
  "sample_time_env = \<lparr>we_encode = id, we_decode = Some, we_time_text = (\<lambda>t. show_int (seconds t)), we_time_parse = (\<lambda>_. None)\<rparr>"

definition sample_stored_document :: "string \<Rightarrow> fields \<Rightarrow> nat \<Rightarrow> document" where
  "sample_stored_document name fs n =
     \<lparr>doc_name = name, doc_fields = fs, create_time = Some (Timestamp 1 0), update_time = Some (Timestamp (int n) 0)\<rparr>"

definition sample_console :: store where
  "sample_console = \<lparr>documents = [(''projects/p/databases/d/documents/c/a'', sample_stored_document ''projects/p/databases/d/documents/c/a'' [(''x.y'', IntegerValue 1)] 2)],
     transactions = [], next_id = 0\<rparr>"

definition sample_mutation :: field_mutation where
  "sample_mutation = \<lparr>fm_project = ''p'', fm_database = ''d'', fm_path = ''c/a'', fm_action = ''rename'',
     fm_field = ''x.y'', fm_new_field = Some ''z'', fm_value = None, fm_expected = JString ''2''\<rparr>"

lemma sample_console_ok: "store_ok sample_console"
  by (simp add: store_ok_def sample_console_def sample_stored_document_def documents_ok_def document_ok_def
      validate_document_name_def split_path_def Let_def fields_wf_def)

lemma sample_segments [simp]:
  "valid_segment ''p''" "valid_segment ''d''" "valid_document_segment ''x.y''" "valid_document_segment ''z''"
  "valid_document_segment ''b''" "path_parts ''c/a'' = Some [''c'', ''a'']" "path_parts ''c'' = Some [''c'']"
  by code_simp+

lemma sample_edit: "\<not> isl (snd (snd (mutate_field sample_time_env sample_mutation (Timestamp 3 0) sample_console)))"
  by code_simp


text \<open>
  Property C38.  A clone is all or nothing and never overwrites: either the store is as it was, or a
  document stands at the destination with the fields of the source, likewise for everything below the
  source when subcollections are included, none of these names was taken before, and every other
  document is as it was.  A conflict is reported only when a destination is taken.
\<close>

theorem clone_exact:
  assumes "store_ok st" "clone_document r now st = (st', fx, reply)"
    and "source = console_database (cl_project r) (cl_database r) @ ''/documents/'' @ cl_source r"
    and "destination = console_database (cl_project r) (cl_database r) @ ''/documents/'' @ cl_collection r @ ''/'' @ cl_id r"
  shows "(case reply of
      Inl e \<Rightarrow> st' = st \<and> (fst e = 409 \<longrightarrow>
        (\<exists>rest. below (cl_subcollections r) rest \<and> sm_has (documents st) (source @ rest) \<and> sm_has (documents st) (destination @ rest)))
    | Inr _ \<Rightarrow> sm_has (documents st) source \<and>
        (\<forall>rest d. below (cl_subcollections r) rest \<and> sm_get (documents st) (source @ rest) = Some d \<longrightarrow>
           \<not> sm_has (documents st) (destination @ rest) \<and>
           sm_get (documents st') (destination @ rest) =
             Some (d\<lparr>doc_name := destination @ rest, create_time := Some now, update_time := Some now\<rparr>)) \<and>
        (\<forall>n. (\<forall>rest. below (cl_subcollections r) rest \<and> sm_has (documents st) (source @ rest) \<longrightarrow> n \<noteq> destination @ rest) \<longrightarrow>
           sm_get (documents st') n = sm_get (documents st) n))"
  using clone_document_cases[OF assms(1,2)] unfolding assms(3,4) cloned_def by (cases reply) simp_all

definition sample_clone :: clone_request where
  "sample_clone = \<lparr>cl_project = ''p'', cl_database = ''d'', cl_source = ''c/a'', cl_collection = ''c'', cl_id = ''b'',
     cl_subcollections = True\<rparr>"

lemma sample_clone_run: "\<not> isl (snd (snd (clone_document sample_clone (Timestamp 3 0) sample_console)))"
  by code_simp

theorem clone_exact_witness:
  "sm_get (documents (fst (clone_document sample_clone (Timestamp 3 0) sample_console))) ''projects/p/databases/d/documents/c/b'' =
    Some ((sample_stored_document ''projects/p/databases/d/documents/c/b'' [(''x.y'', IntegerValue 1)] 3)
      \<lparr>create_time := Some (Timestamp 3 0)\<rparr>)"
proof -
  obtain st fx reply where run: "clone_document sample_clone (Timestamp 3 0) sample_console = (st, fx, reply)"
    by (metis prod.collapse)
  then obtain j where j: "reply = Inr j" using sample_clone_run by (cases reply) auto
  from clone_exact[OF sample_console_ok run refl refl, unfolded j sum.case] have
    "\<And>rest d. below True rest \<Longrightarrow> sm_get (documents sample_console) (''projects/p/databases/d/documents/c/a'' @ rest) = Some d \<Longrightarrow>
       sm_get (documents st) (''projects/p/databases/d/documents/c/b'' @ rest) =
         Some (d\<lparr>doc_name := ''projects/p/databases/d/documents/c/b'' @ rest, create_time := Some (Timestamp 3 0), update_time := Some (Timestamp 3 0)\<rparr>)"
    by (simp add: sample_clone_def console_database_def)
  note copy = this[of "[]", unfolded append_Nil2]
  have "sm_get (documents sample_console) ''projects/p/databases/d/documents/c/a'' =
      Some (sample_stored_document ''projects/p/databases/d/documents/c/a'' [(''x.y'', IntegerValue 1)] 2)"
    by (simp add: sample_console_def)
  from copy[OF _ this] show ?thesis by (simp add: run below_def sample_stored_document_def)
qed

end
