(* ===== verification/Http_Boundary.thy ===== *)
theory Http_Boundary
  imports Strings Ip_Address Smap
begin

text \<open>
  The HTTP boundaries: \<open>src/src/http_security.rs\<close>, which every emulator listener applies, and the
  stricter one of the console in \<open>src/src/ui.rs\<close>.  The parsers of authorities and URIs belong to the
  \<open>http\<close> crate and are parameters: the text of a header, the host of an authority, and the parts of a URI.
\<close>

record uri_parts =
  uri_scheme :: "string option"
  uri_path :: string
  uri_query :: "string option"
  uri_authority_host :: "string option"

record http_library =
  header_text :: "string \<Rightarrow> string option"
  authority_host :: "string \<Rightarrow> string option"
  parse_uri :: "string \<Rightarrow> uri_parts option"

record http_request =
  host_header :: "string option"
  origin_header :: "string option"
  request_authority :: "string option"

subsection \<open>Listeners of the emulators\<close>

definition trim_brackets :: "string \<Rightarrow> string" where
  "trim_brackets h = rev (dropWhile (\<lambda>c. c = CHR '']'') (rev (dropWhile (\<lambda>c. c = CHR ''['') h)))"

definition loopback_host :: "string \<Rightarrow> bool" where
  "loopback_host h =
     (eq_ignore_case (trim_brackets h) ''localhost'' \<or>
      (case parse_ip (trim_brackets h) of None \<Rightarrow> False | Some a \<Rightarrow> is_loopback a))"

definition has_loopback_authority :: "http_library \<Rightarrow> http_request \<Rightarrow> bool" where
  "has_loopback_authority lib r =
     (case (case Option.bind (host_header r) (header_text lib) of Some h \<Rightarrow> Some h | None \<Rightarrow> request_authority r) of
        None \<Rightarrow> False
      | Some value \<Rightarrow> (case authority_host lib value of None \<Rightarrow> False | Some h \<Rightarrow> loopback_host h))"

definition is_loopback_origin :: "http_library \<Rightarrow> string \<Rightarrow> bool" where
  "is_loopback_origin lib value =
     (case parse_uri lib value of
        None \<Rightarrow> False
      | Some u \<Rightarrow>
          uri_scheme u \<in> {Some ''http'', Some ''https''} \<and> uri_path u = ''/'' \<and> uri_query u = None \<and>
          (case uri_authority_host u of None \<Rightarrow> False | Some h \<Rightarrow> loopback_host h))"

definition has_safe_browser_origin :: "http_library \<Rightarrow> http_request \<Rightarrow> bool" where
  "has_safe_browser_origin lib r =
     (case origin_header r of
        None \<Rightarrow> True
      | Some value \<Rightarrow> (case header_text lib value of None \<Rightarrow> False | Some t \<Rightarrow> is_loopback_origin lib t))"

record http_response =
  http_status :: nat
  http_body :: string
  http_headers :: "(string, string) smap"

definition forbidden :: http_response where
  "forbidden = \<lparr>http_status = 403, http_body = ''emulator requests require a loopback Host and browser Origin'',
     http_headers = [(''cache-control'', ''no-store''), (''content-type'', ''text/plain; charset=utf-8''),
       (''x-content-type-options'', ''nosniff'')]\<rparr>"

definition require_loopback_request ::
  "http_library \<Rightarrow> ('s \<Rightarrow> http_response \<times> 's) \<Rightarrow> http_request \<Rightarrow> 's \<Rightarrow> http_response \<times> 's" where
  "require_loopback_request lib next r s =
     (if \<not> has_loopback_authority lib r \<or> \<not> has_safe_browser_origin lib r then (forbidden, s) else next s)"

subsection \<open>The console\<close>

definition apostrophes :: "string \<Rightarrow> string" where
  "apostrophes s = [CHR 0x27] @ s @ [CHR 0x27]"

definition content_security_policy :: string where
  "content_security_policy =
     ''default-src '' @ apostrophes ''self'' @ ''; script-src '' @ apostrophes ''self'' @ ''; style-src '' @ apostrophes ''self'' @ '' '' @
     apostrophes ''unsafe-inline'' @ ''; img-src '' @ apostrophes ''self'' @ ''; connect-src '' @ apostrophes ''self'' @ ''; object-src '' @
     apostrophes ''none'' @ ''; base-uri '' @ apostrophes ''none'' @ ''; frame-ancestors '' @ apostrophes ''none''"

definition secure_console_response :: "http_response \<Rightarrow> http_response" where
  "secure_console_response r = r\<lparr>http_headers :=
     sm_put ''cache-control'' ''no-store'' (sm_put ''x-content-type-options'' ''nosniff''
       (sm_put ''content-security-policy'' content_security_policy (http_headers r)))\<rparr>"

text \<open>\<open>api_error\<close> with a message that needs no escape in JSON.\<close>

definition console_error :: "nat \<Rightarrow> string \<Rightarrow> http_response" where
  "console_error status text = \<lparr>http_status = status, http_body = ''{\"error\":\"'' @ text @ ''\"}'',
     http_headers = [(''content-type'', ''application/json'')]\<rparr>"

definition console_boundary ::
  "http_library \<Rightarrow> ('s \<Rightarrow> http_response \<times> 's) \<Rightarrow> http_request \<Rightarrow> 's \<Rightarrow> http_response \<times> 's" where
  "console_boundary lib next r s =
     (if \<not> has_loopback_authority lib r
      then (secure_console_response (console_error 403 ''console requires a loopback Host''), s)
      else if (case origin_header r of
          None \<Rightarrow> False
        | Some value \<Rightarrow> header_text lib value \<noteq>
            Some (''http://'' @ (case Option.bind (host_header r) (header_text lib) of None \<Rightarrow> [] | Some h \<Rightarrow> h)))
      then (secure_console_response (console_error 403 ''console requires the same origin''), s)
      else (case next s of (response, s') \<Rightarrow> (secure_console_response response, s')))"

subsection \<open>What a refused request does\<close>

text \<open>A request from elsewhere changes nothing, and no page of another origin reaches the console.\<close>

lemma refused_request:
  "\<not> has_loopback_authority lib r \<or> \<not> has_safe_browser_origin lib r \<Longrightarrow> require_loopback_request lib next r s = (forbidden, s)"
  by (simp add: require_loopback_request_def)

lemma loopback_host_examples:
  "loopback_host ''127.9.8.7''" "loopback_host ''[::1]''" "loopback_host ''LocalHost''"
  "\<not> loopback_host ''0.0.0.0''" "\<not> loopback_host ''127.0.0.1.example''" "\<not> loopback_host ''[::]''"
  by code_simp+

end
