(* ===== verification/Startup.thy ===== *)
theory Startup
  imports Functions_Load
begin

text \<open>
  The start of the emulator, \<open>src/src/main.rs\<close>: the command line, the directory of the configuration,
  and the addresses its services listen on, all of them loopback addresses.  Arguments that are not
  UTF-8 are \<open>None\<close>; the environment holds the variables that are.  The working directory and the
  operating system's \<open>bind\<close> are parameters.
\<close>

subsection \<open>The command line\<close>

record command_line =
  cl_config_root :: "string option"
  cl_data_dir :: "string option"
  cl_in_memory :: bool
  cl_no_functions :: bool
  cl_no_ui :: bool
  cl_ui_port :: "nat option"
  cl_functions :: config_overrides

definition empty_command_line :: command_line where
  "empty_command_line =
     \<lparr>cl_config_root = None, cl_data_dir = None, cl_in_memory = False, cl_no_functions = False, cl_no_ui = False,
      cl_ui_port = None,
      cl_functions = \<lparr>cli_project = None, cli_host = None, cli_functions_port = None, cli_pubsub_port = None,
        cli_functions_source = None, cli_functions_codebase = None, cli_functions_runtime = None, cli_runtime_config = None\<rparr>\<rparr>"

text \<open>\<open>str::parse::<u16>()?\<close> with the message of the standard library.\<close>

definition parse_port :: "string \<Rightarrow> string + nat" where
  "parse_port s =
     (case parse_unsigned (2 ^ 16) s of
        Some n \<Rightarrow> Inr n
      | None \<Rightarrow> Inl (if s = [] then ''cannot parse integer from empty string''
                    else if list_all is_digit (if hd s = CHR ''+'' \<and> tl s \<noteq> [] then tl s else s) then ''number too large to fit in target type''
                    else ''invalid digit found in string''))"

definition option_value :: "string option list \<Rightarrow> string \<Rightarrow> string + string \<times> string option list" where
  "option_value args name =
     (case args of
        [] \<Rightarrow> Inl (name @ '' requires a value'')
      | None # rest \<Rightarrow> Inl (name @ '' must be valid UTF-8'')
      | Some v # rest \<Rightarrow> Inr (v, rest))"

definition flag :: "string \<Rightarrow> command_line \<Rightarrow> command_line option" where
  "flag name c =
     (if name = ''--in-memory'' then Some (c\<lparr>cl_in_memory := True\<rparr>)
      else if name = ''--no-functions'' then Some (c\<lparr>cl_no_functions := True\<rparr>)
      else if name = ''--no-ui'' then Some (c\<lparr>cl_no_ui := True\<rparr>)
      else None)"

definition valued_options :: "string list" where
  "valued_options = [''--config'', ''--data-dir'', ''--project'', ''--host'', ''--functions-port'', ''--pubsub-port'',
     ''--ui-port'', ''--functions-source'', ''--functions-codebase'', ''--functions-runtime'', ''--runtime-config'']"

text \<open>What an option does with its value.\<close>

definition set_option :: "files \<Rightarrow> string \<Rightarrow> string \<Rightarrow> command_line \<Rightarrow> string + command_line" where
  "set_option fs name v c =
     (let f = cl_functions c in
      if name = ''--config'' then Inr (c\<lparr>cl_config_root := Some v\<rparr>)
      else if name = ''--data-dir'' then Inr (c\<lparr>cl_data_dir := Some v\<rparr>)
      else if name = ''--project'' then Inr (c\<lparr>cl_functions := f\<lparr>cli_project := Some v\<rparr>\<rparr>)
      else if name = ''--host'' then Inr (c\<lparr>cl_functions := f\<lparr>cli_host := Some v\<rparr>\<rparr>)
      else if name = ''--functions-port'' then rbind (parse_port v) (\<lambda>p. Inr (c\<lparr>cl_functions := f\<lparr>cli_functions_port := Some p\<rparr>\<rparr>))
      else if name = ''--pubsub-port'' then rbind (parse_port v) (\<lambda>p. Inr (c\<lparr>cl_functions := f\<lparr>cli_pubsub_port := Some p\<rparr>\<rparr>))
      else if name = ''--ui-port'' then rbind (parse_port v) (\<lambda>p. Inr (c\<lparr>cl_ui_port := Some p\<rparr>))
      else if name = ''--functions-source'' then Inr (c\<lparr>cl_functions := f\<lparr>cli_functions_source := Some v\<rparr>\<rparr>)
      else if name = ''--functions-codebase'' then Inr (c\<lparr>cl_functions := f\<lparr>cli_functions_codebase := Some v\<rparr>\<rparr>)
      else if name = ''--functions-runtime'' then Inr (c\<lparr>cl_functions := f\<lparr>cli_functions_runtime := Some v\<rparr>\<rparr>)
      else (case fs_json fs v of
              Inl e \<Rightarrow> Inl (''malformed --runtime-config JSON: '' @ e)
            | Inr j \<Rightarrow> Inr (c\<lparr>cl_functions := f\<lparr>cli_runtime_config := Some j\<rparr>\<rparr>)))"

text \<open>The loop over the arguments; \<open>None\<close> when the help was asked for, which ends the process.\<close>

lemma option_value_rest: "option_value args name = Inr (v, rest) \<Longrightarrow> length rest < length args"
  by (auto simp: option_value_def split: list.splits option.splits)

function parse_args :: "files \<Rightarrow> string option list \<Rightarrow> command_line \<Rightarrow> string + command_line option" where
  "parse_args fs args c =
     (case args of
        [] \<Rightarrow> Inr (Some c)
      | None # rest \<Rightarrow> Inl ''command-line options must be valid UTF-8''
      | Some name # rest \<Rightarrow>
          (if name \<in> set valued_options then
             (case option_value rest name of
                Inl e \<Rightarrow> Inl e
              | Inr (v, rest') \<Rightarrow>
                  (case set_option fs name v c of Inl e \<Rightarrow> Inl e | Inr c' \<Rightarrow> parse_args fs rest' c'))
           else if name = ''--help'' \<or> name = ''-h'' then Inr None
           else (case flag name c of
                   Some c' \<Rightarrow> parse_args fs rest c'
                 | None \<Rightarrow> Inl (''unknown option `'' @ name @ ''` (use --help)''))))"
  by pat_completeness auto
termination
  by (relation "measure (\<lambda>(fs, args, c). length args)") (auto dest!: option_value_rest)

declare parse_args.simps [simp del]

definition validate_command_line :: "command_line \<Rightarrow> string + unit" where
  "validate_command_line c =
     guard (\<not> (cl_data_dir c \<noteq> None \<and> cl_in_memory c)) ''--data-dir and --in-memory cannot be used together''"

definition command_line :: "files \<Rightarrow> string option list \<Rightarrow> string + command_line option" where
  "command_line fs args =
     rbind (parse_args fs args empty_command_line) (\<lambda>r. case r of
        None \<Rightarrow> Inr None
      | Some c \<Rightarrow> rbind (validate_command_line c) (\<lambda>_. Inr (Some c)))"

subsection \<open>The configuration directory\<close>

text \<open>
  The end of a path without what \<open>Path\<close> ignores there, on the reversed text: separators and
  current-directory components.
\<close>

fun drop_tail :: "string \<Rightarrow> string" where
  "drop_tail [] = []"
| "drop_tail (a # rest) =
     (if a = CHR ''/'' then drop_tail rest
      else if a = CHR ''.'' \<and> rest \<noteq> [] \<and> hd rest = CHR ''/'' then drop_tail rest
      else a # rest)"

definition path_file_name :: "string \<Rightarrow> string option" where
  "path_file_name p =
     (let name = rev (takeWhile (\<lambda>c. c \<noteq> CHR ''/'') (drop_tail (rev p))) in
      if name = [] \<or> name = ''.'' \<or> name = ''..'' then None else Some name)"

definition path_parent :: "string \<Rightarrow> string" where
  "path_parent p =
     (let before = dropWhile (\<lambda>c. c \<noteq> CHR ''/'') (drop_tail (rev p)); dir = rev (drop_tail before) in
      if dir = [] \<and> before \<noteq> [] then ''/'' else dir)"

definition configured_root :: "files \<Rightarrow> string \<Rightarrow> environment \<Rightarrow> command_line \<Rightarrow> string option" where
  "configured_root fs cwd env c =
     (let explicit = alternative (cl_config_root c) (sm_get env ''FIREBASE_EMU_CONFIG_DIR'');
          root = (case explicit of
              Some p \<Rightarrow> Some p
            | None \<Rightarrow>
                (if cli_functions_source (cl_functions c) \<noteq> None \<or> sm_has env ''FIREBASE_FUNCTIONS_SOURCE'' then Some cwd
                 else if fs_is_file fs (join_path cwd ''firebase.json'') then Some cwd else None))
      in map_option (\<lambda>p. if path_file_name p = Some ''firebase.json'' then path_parent p else p) root)"

subsection \<open>Addresses\<close>

definition address :: "environment \<Rightarrow> string \<Rightarrow> nat \<Rightarrow> string + socket_address" where
  "address env key dflt =
     (let h = default_to ''127.0.0.1'' (sm_get env ''FIREBASE_EMU_HOST'') in
      case parse_ip h of
        None \<Rightarrow> Inl ''invalid IP address syntax''
      | Some a \<Rightarrow>
          (if \<not> is_loopback a then Inl ''FIREBASE_EMU_HOST must be a loopback IP address''
           else rbind (case sm_get env key of None \<Rightarrow> Inr dflt | Some raw \<Rightarrow> parse_port raw)
                  (\<lambda>p. Inr \<lparr>sa_host = a, sa_port = p\<rparr>)))"

record startup_plan =
  sp_config :: "functions_config option"
  sp_firestore :: socket_address
  sp_auth :: socket_address
  sp_storage :: socket_address
  sp_pubsub :: socket_address
  sp_ui :: socket_address
  sp_auth_project :: "string option"
  sp_default_project :: string
  sp_data_dir :: "string option"

definition startup :: "files \<Rightarrow> string \<Rightarrow> environment \<Rightarrow> command_line \<Rightarrow> string + startup_plan" where
  "startup fs cwd env c =
     (let root = configured_root fs cwd env c; cli = cl_functions c in
      rbind (if cl_no_functions c then Inr None
             else case root of None \<Rightarrow> Inr None | Some r \<Rightarrow> rbind (load fs r cli env) (\<lambda>f. Inr (Some f))) (\<lambda>config.
      rbind (case config of
               Some f \<Rightarrow> Inr (ea_firestore (addresses f), ea_auth (addresses f), ea_storage (addresses f), ea_pubsub (addresses f))
             | None \<Rightarrow>
                 rbind (address env ''FIRESTORE_EMU_PORT'' 8080) (\<lambda>firestore.
                 rbind (address env ''FIREBASE_AUTH_EMU_PORT'' 9099) (\<lambda>auth.
                 rbind (address env ''FIREBASE_STORAGE_EMU_PORT'' 9199) (\<lambda>storage.
                 rbind (load_pubsub_address fs root cli env) (\<lambda>pubsub.
                   Inr (firestore, auth, storage, pubsub)))))) (\<lambda>(firestore, auth, storage, pubsub).
      let auth_project = alternative (map_option config_project config) (cli_project cli) in
      rbind (load_ui_address fs root (cl_ui_port c) (cli_host cli) env) (\<lambda>ui.
        Inr \<lparr>sp_config = config, sp_firestore = firestore, sp_auth = auth, sp_storage = storage, sp_pubsub = pubsub,
             sp_ui = ui, sp_auth_project = auth_project,
             sp_default_project = default_to ''demo-rust-emu'' (alternative auth_project
               (alternative (sm_get env ''GCLOUD_PROJECT'') (sm_get env ''GOOGLE_CLOUD_PROJECT''))),
             sp_data_dir = map_option (join_path cwd) (cl_data_dir c)\<rparr>))))"

text \<open>The console's listener: a taken port is replaced by a free one on the same address.\<close>

datatype bind_error = AddressInUse string | OtherBindError string

definition bind_ui_listener :: "(socket_address \<Rightarrow> bind_error + nat) \<Rightarrow> socket_address \<Rightarrow> string + socket_address" where
  "bind_ui_listener bind a =
     (case bind a of
        Inr p \<Rightarrow> Inr (a\<lparr>sa_port := p\<rparr>)
      | Inl (AddressInUse e) \<Rightarrow>
          (if sa_port a \<noteq> 0
           then (case bind (a\<lparr>sa_port := 0\<rparr>) of
                   Inr p \<Rightarrow> Inr (a\<lparr>sa_port := p\<rparr>)
                 | Inl (AddressInUse e) \<Rightarrow> Inl e | Inl (OtherBindError e) \<Rightarrow> Inl e)
           else Inl e)
      | Inl (OtherBindError e) \<Rightarrow> Inl e)"

subsection \<open>Loopback only\<close>

definition loopback_plan :: "startup_plan \<Rightarrow> bool" where
  "loopback_plan p = list_all (is_loopback \<circ> sa_host)
     ([sp_firestore p, sp_auth p, sp_storage p, sp_pubsub p, sp_ui p] @
      (case sp_config p of None \<Rightarrow> [] | Some f \<Rightarrow> [ea_functions (addresses f)]))"

lemma address_loopback: "address env key d = Inr a \<Longrightarrow> is_loopback (sa_host a)"
  by (auto simp: address_def Let_def rbind_Inr_iff split: option.splits if_splits)

lemma service_address_host: "service_address env f h key service d = Inr a \<Longrightarrow> sa_host a = h"
  by (auto simp: service_address_def rbind_Inr_iff)

lemma load_hosts:
  assumes "load fs root cli env = Inr f"
  shows "is_loopback (sa_host (ea_functions (addresses f)))" "is_loopback (sa_host (ea_firestore (addresses f)))"
    "is_loopback (sa_host (ea_auth (addresses f)))" "is_loopback (sa_host (ea_storage (addresses f)))"
    "is_loopback (sa_host (ea_pubsub (addresses f)))"
proof -
  obtain firebase where "load_addresses cli env firebase = Inr (addresses f)"
    using assms unfolding load_def rbind_Inr_iff Let_def guard_iff by auto
  moreover define a where "a = addresses f"
  ultimately have "load_addresses cli env firebase = Inr a" by simp
  then obtain h ph where h: "select_host (explicit_host cli env) firebase ''functions'' = Inr h"
    "pubsub_host (explicit_host cli env) h firebase = Inr ph"
    "sa_host (ea_functions a) = h" "sa_host (ea_firestore a) = h" "sa_host (ea_auth a) = h"
    "sa_host (ea_storage a) = h" "sa_host (ea_pubsub a) = ph"
    unfolding load_addresses_def rbind_Inr_iff Let_def guard_iff by (auto simp: service_address_def rbind_Inr_iff)
  then show "is_loopback (sa_host (ea_functions a))" "is_loopback (sa_host (ea_firestore (addresses f)))"
    "is_loopback (sa_host (ea_auth (addresses f)))" "is_loopback (sa_host (ea_storage (addresses f)))"
    "is_loopback (sa_host (ea_pubsub (addresses f)))"
    using select_host_Inr[OF h(1)] pubsub_host_Inr[OF h(2)] unfolding a_def by simp_all
qed

lemma pubsub_address_loopback: "load_pubsub_address fs root cli env = Inr a \<Longrightarrow> is_loopback (sa_host a)"
  unfolding load_pubsub_address_def rbind_Inr_iff Let_def guard_iff by (auto dest: select_host_Inr)

lemma ui_address_loopback: "load_ui_address fs root p h env = Inr a \<Longrightarrow> is_loopback (sa_host a)"
  unfolding load_ui_address_def rbind_Inr_iff Let_def by (auto dest: select_host_Inr)

lemma startup_Inr:
  assumes "startup fs cwd env c = Inr p"
  obtains config firestore auth storage pubsub ui where
    "(if cl_no_functions c then Inr None
      else case (configured_root fs cwd env c) of None \<Rightarrow> Inr None | Some r \<Rightarrow> rbind (load fs r (cl_functions c) env) (\<lambda>f. Inr (Some f))) = Inr config"
    "(case config of
        Some f \<Rightarrow> Inr (ea_firestore (addresses f), ea_auth (addresses f), ea_storage (addresses f), ea_pubsub (addresses f))
      | None \<Rightarrow>
          rbind (address env ''FIRESTORE_EMU_PORT'' 8080) (\<lambda>firestore.
          rbind (address env ''FIREBASE_AUTH_EMU_PORT'' 9099) (\<lambda>auth.
          rbind (address env ''FIREBASE_STORAGE_EMU_PORT'' 9199) (\<lambda>storage.
          rbind (load_pubsub_address fs (configured_root fs cwd env c) (cl_functions c) env) (\<lambda>pubsub.
            Inr (firestore, auth, storage, pubsub)))))) = Inr (firestore, auth, storage, pubsub)"
    "load_ui_address fs (configured_root fs cwd env c) (cl_ui_port c) (cli_host (cl_functions c)) env = Inr ui"
    "sp_config p = config" "sp_firestore p = firestore" "sp_auth p = auth" "sp_storage p = storage" "sp_pubsub p = pubsub" "sp_ui p = ui"
    "sp_data_dir p = map_option (join_path cwd) (cl_data_dir c)"
proof -
  let ?root = "configured_root fs cwd env c" and ?cli = "cl_functions c"
  obtain config addrs where c: "(if cl_no_functions c then Inr None
    else case ?root of None \<Rightarrow> Inr None | Some r \<Rightarrow> rbind (load fs r ?cli env) (\<lambda>f. Inr (Some f))) = Inr config"
    "(case config of
      Some f \<Rightarrow> Inr (ea_firestore (addresses f), ea_auth (addresses f), ea_storage (addresses f), ea_pubsub (addresses f))
    | None \<Rightarrow>
        rbind (address env ''FIRESTORE_EMU_PORT'' 8080) (\<lambda>firestore.
        rbind (address env ''FIREBASE_AUTH_EMU_PORT'' 9099) (\<lambda>auth.
        rbind (address env ''FIREBASE_STORAGE_EMU_PORT'' 9199) (\<lambda>storage.
        rbind (load_pubsub_address fs ?root ?cli env) (\<lambda>pubsub.
          Inr (firestore, auth, storage, pubsub)))))) = Inr addrs"
    and rest: "(case addrs of (firestore, auth, storage, pubsub) \<Rightarrow>
      let auth_project = alternative (map_option config_project config) (cli_project ?cli) in
      rbind (load_ui_address fs ?root (cl_ui_port c) (cli_host ?cli) env) (\<lambda>ui.
        Inr \<lparr>sp_config = config, sp_firestore = firestore, sp_auth = auth, sp_storage = storage, sp_pubsub = pubsub,
           sp_ui = ui, sp_auth_project = auth_project,
           sp_default_project = default_to ''demo-rust-emu'' (alternative auth_project
             (alternative (sm_get env ''GCLOUD_PROJECT'') (sm_get env ''GOOGLE_CLOUD_PROJECT''))),
           sp_data_dir = map_option (join_path cwd) (cl_data_dir c)\<rparr>)) = Inr p"
    using assms unfolding startup_def Let_def rbind_Inr_iff by blast
  obtain firestore auth storage pubsub where a: "addrs = (firestore, auth, storage, pubsub)" by (cases addrs)
  obtain ui where "load_ui_address fs ?root (cl_ui_port c) (cli_host ?cli) env = Inr ui"
    "sp_config p = config" "sp_firestore p = firestore" "sp_auth p = auth" "sp_storage p = storage" "sp_pubsub p = pubsub" "sp_ui p = ui" "sp_data_dir p = map_option (join_path cwd) (cl_data_dir c)"
    using rest unfolding a prod.case Let_def rbind_Inr_iff by auto
  then show thesis using that c(1) c(2)[unfolded a] by blast
qed

lemma startup_loopback:
  assumes "startup fs cwd env c = Inr p"
  shows "loopback_plan p"
  using assms
proof (cases rule: startup_Inr)
  case x: (1 config firestore auth storage pubsub ui)
  show ?thesis
  proof (cases config)
    case None
    then show ?thesis using x(2)
      by (auto simp: rbind_Inr_iff loopback_plan_def x(4-9) ui_address_loopback[OF x(3)]
          dest: address_loopback pubsub_address_loopback)
  next
    case (Some f)
    then obtain r where "load fs r (cl_functions c) env = Inr f" using x(1) by (auto simp: rbind_Inr_iff split: if_splits option.splits)
    then show ?thesis using x(2) Some load_hosts ui_address_loopback[OF x(3)] by (auto simp: loopback_plan_def x(4-9))
  qed
qed

lemma bind_ui_host: "bind_ui_listener bind a = Inr b \<Longrightarrow> sa_host b = sa_host a"
  by (auto simp: bind_ui_listener_def split: sum.splits bind_error.splits if_splits)

subsection \<open>Properties\<close>

definition ports_small :: "command_line \<Rightarrow> bool" where
  "ports_small c = (small_port (cli_functions_port (cl_functions c)) \<and> small_port (cli_pubsub_port (cl_functions c)) \<and>
     small_port (cl_ui_port c))"

lemma parse_port_small: "parse_port s = Inr n \<Longrightarrow> small_port (Some n)"
  by (auto simp: parse_port_def small_port_def dest: parse_unsigned_bound split: option.splits)

lemma set_option_small: "set_option fs name v c = Inr c' \<Longrightarrow> ports_small c \<Longrightarrow> ports_small c'"
  unfolding set_option_def Let_def
  by (auto simp: ports_small_def rbind_Inr_iff dest: parse_port_small split: if_splits sum.splits)

lemma flag_small: "flag name c = Some c' \<Longrightarrow> ports_small c \<Longrightarrow> ports_small c'"
  by (auto simp: flag_def ports_small_def split: if_splits)

lemma parse_args_small: "parse_args fs args c = Inr (Some c') \<Longrightarrow> ports_small c \<Longrightarrow> ports_small c'"
proof (induction fs args c rule: parse_args.induct)
  case (1 fs args c)
  note run = 1(3)[unfolded parse_args.simps[of fs args c]]
  consider "args = []" | name rest where "args = Some name # rest" using run by (cases args) (auto split: option.splits)
  then show ?case
  proof cases
    case 1
    then show ?thesis using run \<open>ports_small c\<close> by simp
  next
    case (2 name rest)
    show ?thesis
    proof (cases "name \<in> set valued_options")
      case True
      obtain v rest' d where "option_value rest name = Inr (v, rest')" "set_option fs name v c = Inr d"
        "parse_args fs rest' d = Inr (Some c')"
        using run 2 True by (auto split: sum.splits prod.splits)
      then show ?thesis using "1.IH"(1)[OF 2 refl True _ refl] set_option_small "1.prems"(2) by blast
    next
      case False
      then obtain d where d: "\<not> (name = ''--help'' \<or> name = ''-h'')" "flag name c = Some d" "parse_args fs rest d = Inr (Some c')"
        using run 2 by (auto split: option.splits if_splits)
      show ?thesis by (rule "1.IH"(2)[OF 2 refl False d(1,2,3) flag_small[OF d(2) "1.prems"(2)]])
    qed
  qed
qed

lemma command_line_Inr:
  assumes "command_line fs args = Inr (Some c)"
  shows "ports_small c \<and> \<not> (cl_data_dir c \<noteq> None \<and> cl_in_memory c)"
proof -
  obtain r where r: "parse_args fs args empty_command_line = Inr r"
      "(case r of None \<Rightarrow> Inr None | Some c \<Rightarrow> rbind (validate_command_line c) (\<lambda>_. Inr (Some c))) = Inr (Some c)"
    using assms unfolding command_line_def rbind_Inr_iff by blast
  then have "r = Some c" "validate_command_line c = Inr ()" by (auto simp: rbind_Inr_iff split: option.splits)
  moreover have "ports_small empty_command_line" by (simp add: ports_small_def empty_command_line_def small_port_def)
  ultimately show ?thesis using parse_args_small[of fs args empty_command_line c] r(1)
    by (simp add: validate_command_line_def guard_iff)
qed

lemma startup_config:
  assumes "startup fs cwd env c = Inr p"
  shows "sp_data_dir p = map_option (join_path cwd) (cl_data_dir c)"
    "sp_config p = Some f \<Longrightarrow>
      \<exists>root. configured_root fs cwd env c = Some root \<and> load fs root (cl_functions c) env = Inr f"
proof -
  obtain config where c: "(if cl_no_functions c then Inr None
      else case configured_root fs cwd env c of None \<Rightarrow> Inr None
      | Some r \<Rightarrow> rbind (load fs r (cl_functions c) env) (\<lambda>f. Inr (Some f))) = Inr config" "sp_config p = config"
    and d: "sp_data_dir p = map_option (join_path cwd) (cl_data_dir c)"
    using assms by (rule startup_Inr)
  from d show "sp_data_dir p = map_option (join_path cwd) (cl_data_dir c)" .
  show "\<exists>root. configured_root fs cwd env c = Some root \<and> load fs root (cl_functions c) env = Inr f"
    if "sp_config p = Some f"
    using c that by (cases "configured_root fs cwd env c") (auto simp: rbind_Inr_iff split: if_splits)
qed


definition sample_args :: "string option list" where
  "sample_args = map Some [''--config'', ''/p'', ''--project'', ''demo-p'', ''--ui-port'', ''4400'']"

definition sample_command :: command_line where
  "sample_command = empty_command_line\<lparr>cl_config_root := Some ''/p'', cl_ui_port := Some 4400, cl_functions := no_overrides\<rparr>"


end
