(* ===== verification/Schema.thy ===== *)
theory Schema
  imports Smap Strings
begin

text \<open>
  Opening the data directory, \<open>src/src/persistence.rs\<close>: the ownership lock, the checks of the database
  file and its migration to the current schema, one transaction per version, so that a crash between
  them leaves a version that the next start completes.  A table is its rows as texts.
\<close>

subsection \<open>The database file\<close>

record sqlite_file =
  integrity :: string
  user_version :: int
  application_id :: int
  tables :: "(string, string list list) smap"

datatype open_error = AlreadyOwned | NewerSchema int int | CorruptFile string | ForeignDatabase | SqliteError string

definition schema_version :: int where "schema_version = 2"
definition femu_application_id :: int where "femu_application_id = 0x46454d55"

definition new_sqlite_file :: sqlite_file where
  "new_sqlite_file = \<lparr>integrity = ''ok'', user_version = 0, application_id = 0, tables = []\<rparr>"

definition first_tables :: "(string \<times> string list list) list" where
  "first_tables =
     [(''firestore_documents'', []),
      (''counters'', [[''firestore_auto_id'', ''0''], [''storage_generation'', ''0''], [''event_completed'', ''0'']]),
      (''auth_users'', []), (''auth_sessions'', []), (''storage_objects'', []), (''event_outbox'', [])]"

definition second_tables :: "(string \<times> string list list) list" where
  "second_tables = [(''pubsub_topics'', []), (''pubsub_subscriptions'', []), (''pubsub_messages'', []), (''pubsub_deliveries'', [])]"

text \<open>
  A batch of \<open>CREATE TABLE\<close>, refused as a whole when a name is taken; SQLite ignores the case of names.
\<close>

definition taken :: "sqlite_file \<Rightarrow> string \<Rightarrow> bool" where
  "taken f n = list_ex (\<lambda>(m, _). eq_ignore_case m n) (tables f)"

definition create_tables :: "(string \<times> string list list) list \<Rightarrow> sqlite_file \<Rightarrow> open_error + sqlite_file" where
  "create_tables new f =
     (case find (\<lambda>(n, _). taken f n) new of
        Some (n, _) \<Rightarrow> Inl (SqliteError (''table '' @ n @ '' already exists''))
      | None \<Rightarrow> Inr (f\<lparr>tables := fold (\<lambda>(n, rows). sm_put n rows) new (tables f)\<rparr>))"

text \<open>In \<open>NOT LIKE 'sqlite_%'\<close> the underscore stands for any character and case is ignored.\<close>

definition user_tables :: "sqlite_file \<Rightarrow> string list" where
  "user_tables f = filter (\<lambda>n. \<not> (7 \<le> length n \<and> eq_ignore_case (take 6 n) ''sqlite'')) (map fst (tables f))"

subsection \<open>Migration\<close>

text \<open>The checks before the first transaction, then each transaction with the file it commits.\<close>

definition check_file :: "sqlite_file \<Rightarrow> open_error + unit" where
  "check_file f =
     rbind (guard (integrity f = ''ok'') (CorruptFile (integrity f))) (\<lambda>_.
     guard (user_version f \<le> schema_version) (NewerSchema (user_version f) schema_version))"

definition migrate_first :: "sqlite_file \<Rightarrow> open_error + sqlite_file" where
  "migrate_first f =
     (if user_version f = 0 then
        rbind (guard (user_tables f = [] \<and> (application_id f = 0 \<or> application_id f = femu_application_id)) ForeignDatabase) (\<lambda>_.
        rbind (create_tables first_tables f) (\<lambda>g.
          Inr (g\<lparr>application_id := femu_application_id, user_version := 1\<rparr>)))
      else Inr f)"

definition migrate_second :: "sqlite_file \<Rightarrow> open_error + sqlite_file" where
  "migrate_second f =
     rbind (guard (application_id f = femu_application_id) ForeignDatabase) (\<lambda>_.
       if user_version f = 1 then rbind (create_tables second_tables f) (\<lambda>g. Inr (g\<lparr>user_version := 2\<rparr>)) else Inr f)"

text \<open>The result and the file; what is committed before an error stays.\<close>

definition migrate :: "sqlite_file \<Rightarrow> (open_error + unit) \<times> sqlite_file" where
  "migrate f =
     (case check_file f of
        Inl e \<Rightarrow> (Inl e, f)
      | Inr _ \<Rightarrow>
          (case migrate_first f of
             Inl e \<Rightarrow> (Inl e, f)
           | Inr g \<Rightarrow> (case migrate_second g of Inl e \<Rightarrow> (Inl e, g) | Inr h \<Rightarrow> (Inr (), h))))"

subsection \<open>Opening the directory\<close>

record data_directory =
  dir_locked :: bool
  dir_file :: "sqlite_file option"

text \<open>
  \<open>journal\<close> is the mode SQLite answers to \<open>journal_mode=WAL\<close>.  On an error the lock is dropped with
  the file that holds it; what a first open has created stays.
\<close>

definition open_blocking :: "string \<Rightarrow> data_directory \<Rightarrow> (open_error + unit) \<times> data_directory" where
  "open_blocking journal d =
     (if dir_locked d then (Inl AlreadyOwned, d)
      else let f = (case dir_file d of None \<Rightarrow> new_sqlite_file | Some f \<Rightarrow> f) in
        if \<not> eq_ignore_case journal ''wal''
        then (Inl (CorruptFile (''could not enable WAL mode (SQLite returned '' @ journal @ '')'')), d\<lparr>dir_file := Some f\<rparr>)
        else case migrate f of
          (Inl e, g) \<Rightarrow> (Inl e, d\<lparr>dir_file := Some g\<rparr>)
        | (Inr _, g) \<Rightarrow> (Inr (), d\<lparr>dir_locked := True, dir_file := Some g\<rparr>))"

text \<open>
  Processes come and go: one opens the directory, a start dies after the first transaction, the owner
  ends or is killed, or it changes rows.
\<close>

inductive dir_step :: "data_directory \<Rightarrow> data_directory \<Rightarrow> bool" where
  opens: "open_blocking journal d = (r, d') \<Longrightarrow> dir_step d d'"
| dies: "\<not> dir_locked d \<Longrightarrow> check_file (case dir_file d of None \<Rightarrow> new_sqlite_file | Some f \<Rightarrow> f) = Inr () \<Longrightarrow>
    migrate_first (case dir_file d of None \<Rightarrow> new_sqlite_file | Some f \<Rightarrow> f) = Inr g \<Longrightarrow>
    dir_step d (d\<lparr>dir_file := Some g\<rparr>)"
| ends: "dir_step d (d\<lparr>dir_locked := False\<rparr>)"
| writes: "dir_locked d \<Longrightarrow> dir_file d = Some f \<Longrightarrow> sm_wf t \<Longrightarrow> map fst t = map fst (tables f) \<Longrightarrow>
    dir_step d (d\<lparr>dir_file := Some (f\<lparr>tables := t\<rparr>)\<rparr>)"

subsection \<open>The versions of a file\<close>

definition names_of :: "(string \<times> string list list) list \<Rightarrow> string set" where
  "names_of ts = fst ` set ts"

definition schema_ok :: "sqlite_file \<Rightarrow> bool" where
  "schema_ok f =
     (integrity f = ''ok'' \<and> sm_wf (tables f) \<and>
      (user_version f = 0 \<and> application_id f = 0 \<and> tables f = [] \<or>
       user_version f = 1 \<and> application_id f = femu_application_id \<and> fst ` set (tables f) = names_of first_tables \<or>
       user_version f = 2 \<and> application_id f = femu_application_id \<and> fst ` set (tables f) = names_of first_tables \<union> names_of second_tables))"

definition dir_ok :: "data_directory \<Rightarrow> bool" where
  "dir_ok d = (case dir_file d of
     None \<Rightarrow> \<not> dir_locked d
   | Some f \<Rightarrow> schema_ok f \<and> (dir_locked d \<longrightarrow> user_version f = 2))"

lemma fold_puts:
  "sm_wf m \<Longrightarrow> sm_wf (fold (\<lambda>(n, rows). sm_put n rows) new m) \<and>
   fst ` set (fold (\<lambda>(n, rows). sm_put n rows) new m) = fst ` set m \<union> fst ` set new"
proof (induction new arbitrary: m)
  case (Cons e new)
  obtain n rows where e: "e = (n, rows)" by (cases e)
  have "sm_wf (sm_put n rows m)" "fst ` set (sm_put n rows m) = insert n (fst ` set m)"
    using Cons.prems by (simp_all only: sm_wf_put keys_sm_put)
  then show ?case using Cons.IH[of "sm_put n rows m"] e by simp
qed simp

lemma fold_puts_get:
  "sm_wf m \<Longrightarrow> n \<notin> fst ` set new \<Longrightarrow> sm_get (fold (\<lambda>(n, rows). sm_put n rows) new m) n = sm_get m n"
  by (induction new arbitrary: m) auto

lemma has_taken: "sm_has (tables f) n \<Longrightarrow> taken f n"
  by (force simp: taken_def sm_has_in list_ex_iff)

lemma create_tables_Inr:
  assumes "create_tables new f = Inr g" "sm_wf (tables f)"
  shows "sm_wf (tables g)" "fst ` set (tables g) = fst ` set (tables f) \<union> names_of new"
    "integrity g = integrity f" "user_version g = user_version f" "application_id g = application_id f"
    "sm_has (tables f) n \<Longrightarrow> sm_get (tables g) n = sm_get (tables f) n"
proof -
  have f: "\<forall>e \<in> set new. \<not> taken f (fst e)" "g = f\<lparr>tables := fold (\<lambda>(n, rows). sm_put n rows) new (tables f)\<rparr>"
    using assms(1) by (auto simp: create_tables_def find_None_iff split: option.splits)
  then show "sm_wf (tables g)" "fst ` set (tables g) = fst ` set (tables f) \<union> names_of new"
    "integrity g = integrity f" "user_version g = user_version f" "application_id g = application_id f"
    using fold_puts[OF assms(2)] by (simp_all add: names_of_def)
  show "sm_get (tables g) n = sm_get (tables f) n" if "sm_has (tables f) n"
    using fold_puts_get[OF assms(2), of n new] f has_taken[OF that] by auto
qed

lemma create_tables_ok:
  assumes "\<forall>m \<in> fst ` set (tables f). \<forall>n \<in> names_of new. \<not> eq_ignore_case m n"
  shows "\<exists>g. create_tables new f = Inr g"
proof -
  have "find (\<lambda>(n, _). taken f n) new = None"
    using assms by (fastforce simp: find_None_iff names_of_def taken_def list_ex_iff)
  then show ?thesis by (simp add: create_tables_def)
qed

subsection \<open>What a migration does\<close>

lemma names_disjoint: "\<forall>m \<in> names_of first_tables. \<forall>n \<in> names_of second_tables. \<not> eq_ignore_case m n"
  by code_simp

lemma first_migration:
  assumes "schema_ok f"
  obtains g where "migrate_first f = Inr g" "schema_ok g" "user_version g \<noteq> 0" "user_version f \<noteq> 0 \<Longrightarrow> g = f"
    "\<And>n. sm_has (tables f) n \<Longrightarrow> sm_get (tables g) n = sm_get (tables f) n"
proof (cases "user_version f = 0")
  case True
  then have f: "tables f = []" "application_id f = 0" "integrity f = ''ok''" using assms by (auto simp: schema_ok_def)
  obtain g where g: "create_tables first_tables f = Inr g" using create_tables_ok[of f first_tables] f by auto
  have wf: "sm_wf (tables f)" using f by simp
  let ?g = "g\<lparr>application_id := femu_application_id, user_version := 1\<rparr>"
  have "migrate_first f = Inr ?g" using True f g by (simp add: migrate_first_def user_tables_def)
  moreover have "schema_ok ?g"
    using create_tables_Inr(1-3)[OF g wf] f by (simp add: schema_ok_def)
  ultimately show thesis using that[of ?g] f True by (auto simp: sm_has_def)
next
  case False
  then show thesis using that[of f] assms by (simp add: migrate_first_def)
qed

lemma second_migration:
  assumes "schema_ok f" "user_version f \<noteq> 0"
  obtains g where "migrate_second f = Inr g" "schema_ok g" "user_version g = 2" "user_version f = 2 \<Longrightarrow> g = f"
    "\<And>n. sm_has (tables f) n \<Longrightarrow> sm_get (tables g) n = sm_get (tables f) n"
proof (cases "user_version f = 1")
  case True
  then have f: "fst ` set (tables f) = names_of first_tables" "application_id f = femu_application_id"
    "integrity f = ''ok''" "sm_wf (tables f)" using assms by (auto simp: schema_ok_def)
  have "\<forall>m \<in> fst ` set (tables f). \<forall>n \<in> names_of second_tables. \<not> eq_ignore_case m n"
    unfolding f(1) by (rule names_disjoint)
  then obtain g where g: "create_tables second_tables f = Inr g" using create_tables_ok by blast
  let ?g = "g\<lparr>user_version := 2\<rparr>"
  note c = create_tables_Inr[OF g f(4)]
  have "migrate_second f = Inr ?g" using True f g by (simp add: migrate_second_def guard_def)
  moreover have "schema_ok ?g" unfolding schema_ok_def using c(1,2,3,5) f by simp
  ultimately show thesis using that[of ?g] True c(6) by simp
next
  case False
  then have "user_version f = 2" "application_id f = femu_application_id" using assms by (auto simp: schema_ok_def)
  then show thesis using that[of f] assms(1) by (simp add: migrate_second_def guard_def)
qed

lemma migrate_ok:
  assumes "schema_ok f"
  obtains g where "migrate f = (Inr (), g)" "schema_ok g" "user_version g = 2" "user_version f = 2 \<Longrightarrow> g = f"
    "\<And>n rows. sm_get (tables f) n = Some rows \<Longrightarrow> sm_get (tables g) n = Some rows"
proof -
  have check: "check_file f = Inr ()" using assms by (auto simp: schema_ok_def check_file_def guard_def schema_version_def)
  obtain g where g: "migrate_first f = Inr g" "schema_ok g" "user_version g \<noteq> 0" "user_version f \<noteq> 0 \<Longrightarrow> g = f"
    "\<And>n. sm_has (tables f) n \<Longrightarrow> sm_get (tables g) n = sm_get (tables f) n"
    using first_migration[OF assms] by metis
  obtain h where h: "migrate_second g = Inr h" "schema_ok h" "user_version h = 2" "user_version g = 2 \<Longrightarrow> h = g"
    "\<And>n. sm_has (tables g) n \<Longrightarrow> sm_get (tables h) n = sm_get (tables g) n"
    using second_migration[OF g(2,3)] by metis
  have "migrate f = (Inr (), h)" using check g(1) h(1) by (simp add: migrate_def)
  moreover have "sm_get (tables h) n = Some rows" if "sm_get (tables f) n = Some rows" for n rows
  proof -
    have "sm_get (tables g) n = Some rows" using g(5)[of n] that by (simp add: sm_has_def)
    then show ?thesis using h(5)[of n] by (simp add: sm_has_def)
  qed
  moreover have "h = f" if "user_version f = 2" using g(4) h(4) that by simp
  ultimately show thesis using that[OF _ h(2,3)] by blast
qed

text \<open>A file of another program, or of a later version, is refused and left as it is.\<close>

lemma foreign_file_refused:
  assumes "schema_version < user_version f \<or> integrity f \<noteq> ''ok'' \<or>
    user_version f = 0 \<and> (user_tables f \<noteq> [] \<or> application_id f \<noteq> 0 \<and> application_id f \<noteq> femu_application_id) \<or>
    user_version f \<noteq> 0 \<and> application_id f \<noteq> femu_application_id"
  shows "\<exists>e. migrate f = (Inl e, f)"
  using assms by (auto simp: migrate_def check_file_def migrate_first_def migrate_second_def guard_def split: if_splits)

subsection \<open>Starts, crashes and owners\<close>

lemma new_file_ok: "schema_ok new_sqlite_file"
  by (simp add: schema_ok_def new_sqlite_file_def)

lemma dir_file_ok: "dir_ok d \<Longrightarrow> schema_ok (case dir_file d of None \<Rightarrow> new_sqlite_file | Some f \<Rightarrow> f)"
  by (auto simp: dir_ok_def new_file_ok split: option.splits)

lemma dir_step_ok:
  assumes "dir_step d d'" "dir_ok d"
  shows "dir_ok d'"
  using assms
proof (cases rule: dir_step.cases)
  case (opens journal r)
  let ?f = "case dir_file d of None \<Rightarrow> new_sqlite_file | Some f \<Rightarrow> f"
  have f: "schema_ok ?f" using assms(2) by (rule dir_file_ok)
  obtain g where g: "migrate ?f = (Inr (), g)" "schema_ok g" "user_version g = 2" using migrate_ok[OF f] by metis
  show ?thesis
  proof (cases "dir_locked d")
    case True
    then show ?thesis using opens assms(2) by (simp add: open_blocking_def)
  next
    case False
    show ?thesis using opens[unfolded open_blocking_def Let_def g(1) if_not_P[OF False]] f g False
      by (auto simp: dir_ok_def split: if_splits)
  qed
next
  case (dies g)
  obtain h where "migrate_first (case dir_file d of None \<Rightarrow> new_sqlite_file | Some f \<Rightarrow> f) = Inr h" "schema_ok h"
    using first_migration[OF dir_file_ok[OF assms(2)]] by metis
  then show ?thesis using dies by (simp add: dir_ok_def)
next
  case ends
  then show ?thesis using assms(2) by (auto simp: dir_ok_def split: option.splits)
next
  case (writes f t)
  have "fst ` set t = fst ` set (tables f)" using writes(5) by (metis list.set_map)
  then show ?thesis using writes assms(2) by (auto simp: dir_ok_def schema_ok_def)
qed

lemma dir_run_ok: "dir_step\<^sup>*\<^sup>* d d' \<Longrightarrow> dir_ok d \<Longrightarrow> dir_ok d'"
  by (induction rule: rtranclp_induct) (auto dest: dir_step_ok)

definition fresh_dir :: data_directory where
  "fresh_dir = \<lparr>dir_locked = False, dir_file = None\<rparr>"

subsection \<open>Properties\<close>

text \<open>
  Property C40.  After any history of a data directory (starts, starts that die between the transactions
  of the migration, owners that end or are killed, and rows they wrote) a start that finds it unlocked
  succeeds, with the current schema and every row that was there.
\<close>

theorem start_completes_migration:
  assumes "dir_step\<^sup>*\<^sup>* fresh_dir d" "\<not> dir_locked d" "eq_ignore_case journal ''wal''"
  shows "\<exists>f. open_blocking journal d = (Inr (), \<lparr>dir_locked = True, dir_file = Some f\<rparr>) \<and>
    user_version f = schema_version \<and> fst ` set (tables f) = names_of first_tables \<union> names_of second_tables \<and>
    (\<forall>g n rows. dir_file d = Some g \<and> sm_get (tables g) n = Some rows \<longrightarrow> sm_get (tables f) n = Some rows)"
proof -
  let ?f = "case dir_file d of None \<Rightarrow> new_sqlite_file | Some f \<Rightarrow> f"
  have "dir_ok fresh_dir" by (simp add: dir_ok_def fresh_dir_def)
  then have "dir_ok d" by (rule dir_run_ok[OF assms(1)])
  then have "schema_ok ?f" by (rule dir_file_ok)
  then obtain g where g: "migrate ?f = (Inr (), g)" "schema_ok g" "user_version g = 2"
    "\<And>n rows. sm_get (tables ?f) n = Some rows \<Longrightarrow> sm_get (tables g) n = Some rows" using migrate_ok by metis
  have "open_blocking journal d = (Inr (), \<lparr>dir_locked = True, dir_file = Some g\<rparr>)"
    using assms(2,3) g(1) by (cases d) (simp add: open_blocking_def)
  moreover have "fst ` set (tables g) = names_of first_tables \<union> names_of second_tables"
    using g(2,3) by (auto simp: schema_ok_def)
  moreover have "sm_get (tables g) n = Some rows" if "dir_file d = Some h \<and> sm_get (tables h) n = Some rows" for h n rows
    using g(4)[of n rows] that by simp
  ultimately show ?thesis using g(3) by (auto simp: schema_version_def)
qed

definition half_migrated :: data_directory where
  "half_migrated = fresh_dir\<lparr>dir_file := Some (\<lparr>integrity = ''ok'', user_version = 1, application_id = femu_application_id,
     tables = sm_of_list first_tables\<rparr>)\<rparr>"

theorem start_completes_migration_witness:
  "\<exists>f. open_blocking ''wal'' half_migrated = (Inr (), \<lparr>dir_locked = True, dir_file = Some f\<rparr>) \<and>
    user_version f = schema_version \<and> fst ` set (tables f) = names_of first_tables \<union> names_of second_tables \<and>
    (\<forall>g n rows. dir_file half_migrated = Some g \<and> sm_get (tables g) n = Some rows \<longrightarrow> sm_get (tables f) n = Some rows)"
proof (rule start_completes_migration)
  have "migrate_first new_sqlite_file = Inr (the (dir_file half_migrated))" "check_file new_sqlite_file = Inr ()"
    by code_simp+
  then have "dir_step fresh_dir half_migrated"
    using dir_step.dies[of fresh_dir "the (dir_file half_migrated)"] by (simp add: fresh_dir_def half_migrated_def)
  then show "dir_step\<^sup>*\<^sup>* fresh_dir half_migrated" by (rule r_into_rtranclp)
  show "eq_ignore_case ''wal'' ''wal''" by simp
qed (simp add: half_migrated_def fresh_dir_def)

end
