(* ===== verification/Spec2Isabelle.thy ===== *)
theory Spec2Isabelle
  imports Firestore_Persistent Firestore_Listen PubSub_Stream Civil_Date Auth_Runs
    Storage_List Storage_Runs Storage_Crash Web_Stream
    Functions_Trigger Functions_Merge Auth_Durable_Runs PubSub_Durable_Runs
    Console_Edits Http_Boundary Startup Schema
begin

text \<open>
  Verification of the local Firebase emulator in \<open>src/src\<close>: one process that serves Firestore, Auth,
  Cloud Storage and Pub/Sub on loopback addresses, runs Cloud Functions on their events, and shows a
  console.  Each service has an in-memory form and one on a SQLite file and a blob directory.

  \<^bold>\<open>How the parts interact.\<close>  \<open>main.rs\<close> reads the command line and the project and hands one
  \<open>Persistence\<close> (\<open>persistence.rs\<close>) to every service.  Firestore (\<open>firestore.rs\<close>) is reached through
  gRPC, through the browser channel and REST (\<open>firestore_web.rs\<close>) and from the console (\<open>ui.rs\<close>).
  Firestore commits and Storage uploads and deletions become events: in memory they go to a channel, durably to the outbox table in the transaction of the change; \<open>functions.rs\<close> takes both,
  calls the Node workers, and pulls the triggers' subscriptions from the broker (\<open>pubsub.rs\<close>).  Every
  listener checks Host and Origin first (\<open>http_security.rs\<close>).

  \<^bold>\<open>Shared theories.\<close>  \<open>Prelude\<close>: results (\<open>'a res\<close> is a status or a value), \<open>rbind\<close> for \<open>?\<close>, orderings
  and the locale \<open>comparator_on\<close> of the total preorders that \<open>sort_by\<close> demands.  \<open>Smap\<close>: ordered maps for
  \<open>BTreeMap\<close> and tables, with the locale \<open>ordered_map\<close> of their laws; \<open>Smap_Segment\<close>: tables with a
  composite key.  \<open>Strings\<close>: the standard library on UTF-8 bytes.  \<open>Batch\<close>: the loops of a commit and of
  a batch, with the locale \<open>keyed_write\<close>.  \<open>Json\<close>, \<open>Json_Eq\<close>, \<open>Json_Text\<close>: \<open>serde_json\<close> values.
  \<open>Civil_Date\<close>: the date conversions of three files, proved to follow the calendar.

  \<^bold>\<open>Firestore\<close> (\<open>firestore.rs\<close>).  \<open>Float64\<close> has the 64-bit integers as words and the doubles as their bit
  patterns; \<open>Firestore_Value\<close> the values, their type order and comparison; \<open>Firestore_Path\<close> resource
  names, the field path parser, nested reads and writes (locale \<open>path_store\<close>) and the masked merge;
  \<open>Firestore_Write\<close> preconditions, transforms and one write; \<open>Firestore_Service\<close> the store record and every
  handler that changes it; \<open>Firestore_Query\<close> filters, orders, cursors, paging and projection;
  \<open>Firestore_Listen\<close> the target table of a Listen stream; \<open>Firestore_Persistent\<close> the durable branches.
  The lemmas show that comparison is a total preorder, that a commit is atomic, that
  reachable stores are well formed, what queries return, that a listener's messages replay to the
  current documents, and that the durable branches refine the in-memory ones.

  \<^bold>\<open>Browser channel\<close> (\<open>firestore_web.rs\<close>).  \<open>Web_Json\<close> has the JSON forms, \<open>Web_Roundtrip\<close> that values survive
  them and that decoded messages are well formed; \<open>Web_Channel\<close> the sessions with their numbered queues,
  the posts and polls, and the REST endpoints; \<open>Web_Stream\<close> that a client which polls, loses replies and
  acknowledges gets every message once and in order and ends with what the store holds.

  \<^bold>\<open>Pub/Sub\<close> (\<open>pubsub.rs\<close>).  \<open>PubSub_Resources\<close>: names, supported configurations, page tokens.
  \<open>PubSub_Memory\<close>: the seven maps and every operation on them; \<open>PubSub_Broker\<close>, \<open>PubSub_Delivery\<close> and
  \<open>PubSub_Claim\<close>: the invariant \<open>broker_ok\<close> and what each operation does to it; \<open>PubSub_Runs\<close>: the step
  relation, the bounds and progress of a claim, the finality of an acknowledgement; \<open>PubSub_Stream\<close>: the
  requests of the services and the streaming pull with its flow control.  \<open>PubSub_Durable\<close>: the four
  tables; \<open>PubSub_Refine\<close>, \<open>PubSub_Refine_Publish\<close>, \<open>PubSub_Durable_Claim\<close>, \<open>PubSub_Durable_Runs\<close>: the tables
  stand for the maps, and each operation refines the in-memory one.

  \<^bold>\<open>Auth\<close> (\<open>auth.rs\<close>).  \<open>Auth\<close>: accounts, sessions and every handler; \<open>Auth_Invariant\<close> and \<open>Auth_Runs\<close>:
  uniqueness of emails and phone numbers, sessions of existing accounts, exactly which tokens are
  accepted.  \<open>Auth_Durable\<close>, \<open>Auth_Refine\<close>, \<open>Auth_Durable_Runs\<close>: the rows and the refinement.

  \<^bold>\<open>Storage\<close> (\<open>storage.rs\<close>).  \<open>Storage_Text\<close>: multipart bodies, headers and the round trip of a body;
  \<open>Storage\<close>: objects, resumable uploads and the handlers; \<open>Storage_List\<close>: listings and their page tokens;
  \<open>Storage_Runs\<close>: interleaved uploads.  \<open>Storage_Durable\<close>: rows, blob files and startup recovery;
  \<open>Storage_Crash\<close>: concurrent uploads, deletions and crashes between any two effects, with recovery.

  \<^bold>\<open>Functions\<close> (\<open>functions.rs\<close>, \<open>functions_config.rs\<close>).  \<open>Outbox\<close>: the event table and the worker's lease, as a
  step relation with restarts.  \<open>Functions_Dispatch\<close> and \<open>Functions_Events\<close>: which functions an event calls,
  with which payload.  \<open>Functions_Queue\<close> and \<open>Functions_Runs\<close>: the hub, its counters, the loop between
  outbox and channel.  \<open>Functions_Trigger\<close>: the Pub/Sub triggers.  \<open>Ip_Address\<close>, \<open>Functions_Config\<close>,
  \<open>Functions_Load\<close>, \<open>Functions_Merge\<close>: the configuration of a project.

  \<^bold>\<open>Start, boundary and console\<close> (\<open>main.rs\<close>, \<open>persistence.rs\<close>, \<open>http_security.rs\<close>, \<open>ui.rs\<close>).  \<open>Startup\<close>: the
  command line and the addresses of a start.  \<open>Schema\<close>: the ownership lock, the checks of the database
  file and its migration.  \<open>Http_Boundary\<close>: the checks of Host and Origin.  \<open>Console\<close> and \<open>Console_Edits\<close>:
  the edits of one field and the clone of a document, each one commit with preconditions.

  \<^bold>\<open>Bounds and fuel.\<close>  Integers of the program are words where they wrap (\<open>Float64\<close>), and otherwise
  mathematical integers with the checks and saturations of the code written out.  The limits are the
  code's: 4096 open events, 64 MiB uploads, the Pub/Sub backlog and request limits, 20 levels of a typed
  value.  Only the clients that follow page tokens use fuel, more than the number of entries, which the
  theorems show to be enough because every page makes progress; all other functions are total by
  structural recursion or a measure.

  \<^bold>\<open>What is assumed.\<close>  Code outside \<open>src\<close> is a parameter: the protobuf, JSON and base64 codecs (a text
  that was written is read back as the value, where a theorem about the durable forms needs it), fresh
  identifiers (random ones do not repeat and are not in use), the order of rows SQLite leaves open,
  \<open>json_extract\<close>, checksums, the parsers of the \<open>http\<close> crate, the file system and the clock.  Each theorem
  with such a hypothesis has a witness with concrete functions.  An operation that holds a lock, or one
  transaction, is one step; the Storage and Schema models split what is not atomic in the code.

  \<^bold>\<open>Not modelled.\<close>  The tonic services, axum routers and sockets, which decode requests and call the
  modelled operations; the writer thread, reader pool and pragmas of \<open>persistence.rs\<close> and failures of
  SQLite itself; the Node processes (start, probe, stop) and the forwarding of HTTP requests to them;
  the console's pages of Auth users and Pub/Sub resources and its static files.  They are calls of
  libraries and of the operating system, without decisions of the program's own beyond the ones above.
\<close>

end
